(* ===== verification/Prelude.thy ===== *)
theory Prelude
  imports Complex_Main "HOL-Library.AList"
begin

section \<open>Shared vocabulary of the development\<close>

text \<open>
  What every component uses: exceptions as values, the state-and-exception operations that
  model Python methods (an operation that raises keeps the mutations it made before), insertion
  ordered dictionaries, a small Hoare logic over such operations, the checked integers of
  \<^verbatim>\<open>xpool/utils/integer.py\<close> and \<^verbatim>\<open>xpool/utils/__init__.py\<close>, and the exact process identity of
  \<^verbatim>\<open>xpool/utils/procs.py\<close>.
\<close>

named_theorems hoare_intros \<open>rules of the Hoare logic over operations\<close>
named_theorems inv_simps \<open>unfolding of the components' invariants\<close>

subsection \<open>Exceptions\<close>

text \<open>
  The kinds of \<^verbatim>\<open>XpoolDaemonErrorKind\<close> and the exceptions the modelled code raises. \<open>OutOfDraws\<close> is no
  Python exception: it marks a rejection loop over random words that has not accepted any of the finitely
  many words a run supplies. Nor is \<open>UnmatchedCollective\<close>: it marks ranks of a group that enter different collectives
  and wait for each other.
\<close>

datatype daemon_error_kind = Conflict | NotFound | NotReady

text \<open>
  Failure statuses of the CUDA driver, as far as \<^verbatim>\<open>xpool/utils/cuda.py\<close> distinguishes them: memory
  exhaustion, the statuses that require process exit, and any other code.
\<close>

datatype cu_result =
    CUDA_ERROR_OUT_OF_MEMORY
  | CUDA_ERROR_CONTAINED
  | CUDA_ERROR_ILLEGAL_ADDRESS
  | CUDA_ERROR_LAUNCH_TIMEOUT
  | CUDA_ERROR_ASSERT
  | CUDA_ERROR_HARDWARE_STACK_ERROR
  | CUDA_ERROR_ILLEGAL_INSTRUCTION
  | CUDA_ERROR_MISALIGNED_ADDRESS
  | CUDA_ERROR_INVALID_ADDRESS_SPACE
  | CUDA_ERROR_INVALID_PC
  | CUDA_ERROR_LAUNCH_FAILED
  | CUDA_ERROR_MPS_CLIENT_TERMINATED
  | CUDA_ERROR_OTHER nat

datatype exn =
    XpoolDaemonError daemon_error_kind string
  | RuntimeError string
  | ValueError string
  | MemoryError string
  | TypeError string
  | KeyError
  | IndexError
  | StopIteration
  | OSError string
  | TimeoutError string
  | CudaDriverError cu_result string
  | OutOfDraws
  | UnmatchedCollective

text \<open>\<^verbatim>\<open>XpoolDaemonError.is_recoverable\<close>: only transient unavailability invites a retry.\<close>

fun daemon_error_is_recoverable :: "exn \<Rightarrow> bool" where
  "daemon_error_is_recoverable (XpoolDaemonError kind _) = (kind = NotReady)"
| "daemon_error_is_recoverable _ = False"

type_synonym 'a result = "exn + 'a"

type_synonym ('s, 'a) op = "'s \<Rightarrow> 'a result \<times> 's"

subsection \<open>Pure fallible computations\<close>

definition rbind :: "'a result \<Rightarrow> ('a \<Rightarrow> 'b result) \<Rightarrow> 'b result" where
  "rbind m f = (case m of Inl e \<Rightarrow> Inl e | Inr x \<Rightarrow> f x)"

text \<open>A comprehension whose element expression may raise: the first exception ends it.\<close>

fun rmap :: "('a \<Rightarrow> 'b result) \<Rightarrow> 'a list \<Rightarrow> 'b list result" where
  "rmap f [] = Inr []"
| "rmap f (x # xs) =
     (case f x of Inl e \<Rightarrow> Inl e
      | Inr y \<Rightarrow> (case rmap f xs of Inl e \<Rightarrow> Inl e | Inr ys \<Rightarrow> Inr (y # ys)))"

text \<open>\<^verbatim>\<open>zip(..., strict=True)\<close> raises when the lengths differ.\<close>

definition zip_strict :: "'a list \<Rightarrow> 'b list \<Rightarrow> ('a \<times> 'b) list result" where
  "zip_strict xs ys =
     (if length xs = length ys then Inr (zip xs ys)
      else Inl (ValueError ''zip() arguments have different lengths''))"

text \<open>\<^verbatim>\<open>any(...)\<close> over a generator whose test may raise: it stops at the first true element.\<close>

fun rany :: "('a \<Rightarrow> bool result) \<Rightarrow> 'a list \<Rightarrow> bool result" where
  "rany f [] = Inr False"
| "rany f (x # xs) = rbind (f x) (\<lambda>b. if b then Inr True else rany f xs)"

text \<open>Indexing a list by a position that may be out of range.\<close>

definition index_at :: "'a list \<Rightarrow> nat \<Rightarrow> 'a result" where
  "index_at xs i = (if i < length xs then Inr (xs ! i) else Inl IndexError)"

definition is_ok :: "'a result \<Rightarrow> bool" where
  "is_ok r = (case r of Inl _ \<Rightarrow> False | Inr _ \<Rightarrow> True)"

subsection \<open>Operations on a state\<close>

definition ret :: "'a \<Rightarrow> ('s, 'a) op" where
  "ret x s = (Inr x, s)"

definition raise :: "exn \<Rightarrow> ('s, 'a) op" where
  "raise e s = (Inl e, s)"

definition bind :: "('s, 'a) op \<Rightarrow> ('a \<Rightarrow> ('s, 'b) op) \<Rightarrow> ('s, 'b) op" where
  "bind m f s = (case m s of (Inl e, s') \<Rightarrow> (Inl e, s') | (Inr x, s') \<Rightarrow> f x s')"

definition get_state :: "('s, 's) op" where
  "get_state s = (Inr s, s)"

definition modify :: "('s \<Rightarrow> 's) \<Rightarrow> ('s, unit) op" where
  "modify f s = (Inr (), f s)"

definition lift_result :: "'a result \<Rightarrow> ('s, 'a) op" where
  "lift_result r s = (r, s)"

definition reading :: "('s \<Rightarrow> 'a result) \<Rightarrow> ('s, 'a) op" where
  "reading f s = (f s, s)"

text \<open>A \<^verbatim>\<open>for\<close> loop whose body may raise.\<close>

fun for_each :: "('a \<Rightarrow> ('s, unit) op) \<Rightarrow> 'a list \<Rightarrow> ('s, unit) op" where
  "for_each body [] s = (Inr (), s)"
| "for_each body (x # xs) s =
     (case body x s of (Inl e, s') \<Rightarrow> (Inl e, s') | (Inr _, s') \<Rightarrow> for_each body xs s')"

text \<open>
  Partial correctness of an operation: from a state satisfying \<open>P\<close>, a normal return satisfies
  \<open>Q\<close> and a raised exception leaves a state satisfying \<open>E\<close>. Operations are total functions, so
  nothing is lost by the implication.
\<close>

definition hoare :: "('s \<Rightarrow> bool) \<Rightarrow> ('s, 'a) op \<Rightarrow> ('a \<Rightarrow> 's \<Rightarrow> bool) \<Rightarrow> (exn \<Rightarrow> 's \<Rightarrow> bool) \<Rightarrow> bool" where
  "hoare P m Q E = (\<forall>s. P s \<longrightarrow> (case m s of (Inl e, s') \<Rightarrow> E e s' | (Inr x, s') \<Rightarrow> Q x s'))"

abbreviation keeps :: "('s \<Rightarrow> bool) \<Rightarrow> ('s, 'a) op \<Rightarrow> bool" where
  "keeps I m \<equiv> hoare I m (\<lambda>_. I) (\<lambda>_. I)"

subsection \<open>Dictionaries in insertion order\<close>

type_synonym ('k, 'v) dict = "('k \<times> 'v) list"

abbreviation dict_get :: "('k, 'v) dict \<Rightarrow> 'k \<Rightarrow> 'v option" where
  "dict_get d k \<equiv> map_of d k"

abbreviation dict_set :: "'k \<Rightarrow> 'v \<Rightarrow> ('k, 'v) dict \<Rightarrow> ('k, 'v) dict" where
  "dict_set \<equiv> AList.update"

abbreviation dict_del :: "'k \<Rightarrow> ('k, 'v) dict \<Rightarrow> ('k, 'v) dict" where
  "dict_del \<equiv> AList.delete"

abbreviation dict_keys :: "('k, 'v) dict \<Rightarrow> 'k list" where
  "dict_keys d \<equiv> map fst d"

abbreviation dict_values :: "('k, 'v) dict \<Rightarrow> 'v list" where
  "dict_values d \<equiv> map snd d"

text \<open>\<^verbatim>\<open>d[k]\<close>.\<close>

definition dict_item :: "('k, 'v) dict \<Rightarrow> 'k \<Rightarrow> 'v result" where
  "dict_item d k = (case dict_get d k of None \<Rightarrow> Inl KeyError | Some v \<Rightarrow> Inr v)"

text \<open>A dictionary comprehension over a sequence: later entries overwrite earlier ones.\<close>

fun dict_of :: "('k \<times> 'v) list \<Rightarrow> ('k, 'v) dict \<Rightarrow> ('k, 'v) dict" where
  "dict_of [] d = d"
| "dict_of ((k, v) # kvs) d = dict_of kvs (dict_set k v d)"

text \<open>\<^verbatim>\<open>dict.fromkeys\<close> used as an order preserving deduplication.\<close>

fun dedup :: "'a list \<Rightarrow> 'a list" where
  "dedup [] = []"
| "dedup (x # xs) = x # dedup (filter (\<lambda>y. y \<noteq> x) xs)"

subsection \<open>Checked integers\<close>

definition SINT64_MAX :: int where
  "SINT64_MAX = 2 ^ 63 - 1"

definition UINT64_MAX :: int where
  "UINT64_MAX = 2 ^ 64 - 1"

definition ensure_uint64 :: "int list \<Rightarrow> unit result" where
  "ensure_uint64 values =
     (if \<exists>value\<in>set values. \<not> (0 \<le> value \<and> value \<le> UINT64_MAX)
      then Inl (ValueError ''values require uint64 integers'') else Inr ())"

definition ensure_sint64_nonnegative :: "int list \<Rightarrow> unit result" where
  "ensure_sint64_nonnegative values =
     (if \<exists>value\<in>set values. \<not> (0 \<le> value \<and> value \<le> SINT64_MAX)
      then Inl (ValueError ''values require non-negative sint64 integers'') else Inr ())"

definition align_up :: "int \<Rightarrow> int \<Rightarrow> int result" where
  "align_up value alignment =
     (if value < 0 \<or> alignment \<le> 0
      then Inl (ValueError ''alignment requires a non-negative value and positive boundary'')
      else Inr ((value + alignment - 1) div alignment * alignment))"

subsection \<open>Process identity\<close>

text \<open>
  \<^verbatim>\<open>ProcUniqId\<close>: a pid together with the creation time the operating system reports, so a reused
  pid is a different identity. Observing whether an identity is alive is the operating system's
  answer and enters the model as a predicate on identities.
\<close>

record proc_uniq_id =
  proc_pid :: int
  proc_create_time :: real

text \<open>\<^verbatim>\<open>ProcessRef\<close> of \<^verbatim>\<open>xpool/service/wire.py\<close>: what a caller claims about itself.\<close>

record process_ref =
  ref_pid :: int
  ref_abi_version :: int

section \<open>Lemmas the components share\<close>

subsection \<open>Fallible computations\<close>

lemma rbind_simps [simp]:
  "rbind (Inl e) f = Inl e"
  "rbind (Inr x) f = f x"
  by (simp_all add: rbind_def)

lemma rbind_Inr_iff: "rbind m f = Inr y \<longleftrightarrow> (\<exists>x. m = Inr x \<and> f x = Inr y)"
  by (cases m) auto

lemma rmap_Inr_iff:
  "rmap f xs = Inr ys \<longleftrightarrow> length ys = length xs \<and> (\<forall>i<length xs. f (xs ! i) = Inr (ys ! i))"
proof (induction xs arbitrary: ys)
  case Nil
  then show ?case by auto
next
  case (Cons x xs)
  show ?case
  proof (cases ys)
    case Nil
    then show ?thesis by (auto split: sum.splits)
  next
    case (Cons z zs)
    have "rmap f (x # xs) = Inr ys \<longleftrightarrow> f x = Inr z \<and> rmap f xs = Inr zs"
      using Cons by (auto split: sum.splits)
    then show ?thesis
      using Cons Cons.IH [of zs] by (auto simp: All_less_Suc2)
  qed
qed

lemma rmap_all_Inr: "(\<And>x. x \<in> set xs \<Longrightarrow> f x = Inr (g x)) \<Longrightarrow> rmap f xs = Inr (map g xs)"
  by (induction xs) auto

lemma rmap_length: "rmap f xs = Inr ys \<Longrightarrow> length ys = length xs"
  by (simp add: rmap_Inr_iff)

lemma zip_strict_Inr_iff:
  "zip_strict xs ys = Inr zs \<longleftrightarrow> length xs = length ys \<and> zs = zip xs ys"
  by (auto simp: zip_strict_def)

lemma is_ok_simps [simp]: "is_ok (Inr x)" "\<not> is_ok (Inl e)"
  by (simp_all add: is_ok_def)

lemma is_ok_iff: "is_ok r \<longleftrightarrow> (\<exists>x. r = Inr x)"
  by (cases r) auto

subsection \<open>Hoare logic\<close>

lemma bind_Inr: "bind m f s = (Inr y, s'') \<longleftrightarrow> (\<exists>x s'. m s = (Inr x, s') \<and> f x s' = (Inr y, s''))"
  by (auto simp: bind_def split: prod.splits sum.splits)

lemma hoareI:
  assumes "\<And>s x s'. P s \<Longrightarrow> m s = (Inr x, s') \<Longrightarrow> Q x s'"
    and "\<And>s e s'. P s \<Longrightarrow> m s = (Inl e, s') \<Longrightarrow> E e s'"
  shows "hoare P m Q E"
  using assms unfolding hoare_def by (auto split: prod.splits sum.splits)

lemma hoare_returns: "hoare P m Q E \<Longrightarrow> P s \<Longrightarrow> m s = (Inr x, s') \<Longrightarrow> Q x s'"
  unfolding hoare_def by fastforce

lemma hoare_raises: "hoare P m Q E \<Longrightarrow> P s \<Longrightarrow> m s = (Inl e, s') \<Longrightarrow> E e s'"
  unfolding hoare_def by fastforce

lemma keeps_snd: "keeps I m \<Longrightarrow> I s \<Longrightarrow> I (snd (m s))"
  unfolding hoare_def by (cases "m s") (fastforce split: sum.splits)

lemma keepsI: "(\<And>s. I s \<Longrightarrow> I (snd (m s))) \<Longrightarrow> keeps I m"
  unfolding hoare_def by (fastforce split: sum.splits)

lemma hoare_ret [hoare_intros]: "(\<And>s. P s \<Longrightarrow> Q x s) \<Longrightarrow> hoare P (ret x) Q E"
  by (simp add: hoare_def ret_def)

lemma hoare_raise [hoare_intros]: "(\<And>s. P s \<Longrightarrow> E e s) \<Longrightarrow> hoare P (raise e) Q E"
  by (simp add: hoare_def raise_def)

lemma hoare_bind [hoare_intros]:
  assumes "hoare P m R E" and "\<And>x. hoare (R x) (f x) Q E"
  shows "hoare P (bind m f) Q E"
  using assms unfolding hoare_def bind_def by (fastforce split: prod.splits sum.splits)

lemma hoare_modify [hoare_intros]: "(\<And>s. P s \<Longrightarrow> Q () (f s)) \<Longrightarrow> hoare P (modify f) Q E"
  by (simp add: hoare_def modify_def)

lemma hoare_lift_result [hoare_intros]:
  "(\<And>s x. P s \<Longrightarrow> r = Inr x \<Longrightarrow> Q x s) \<Longrightarrow> (\<And>s e. P s \<Longrightarrow> r = Inl e \<Longrightarrow> E e s) \<Longrightarrow>
   hoare P (lift_result r) Q E"
  by (auto simp: hoare_def lift_result_def split: sum.splits)

lemma hoare_reading [hoare_intros]:
  "(\<And>s x. P s \<Longrightarrow> f s = Inr x \<Longrightarrow> Q x s) \<Longrightarrow> (\<And>s e. P s \<Longrightarrow> f s = Inl e \<Longrightarrow> E e s) \<Longrightarrow>
   hoare P (reading f) Q E"
  by (auto simp: hoare_def reading_def split: sum.splits)

lemma hoare_if [hoare_intros]:
  "(b \<Longrightarrow> hoare P m Q E) \<Longrightarrow> (\<not> b \<Longrightarrow> hoare P m' Q E) \<Longrightarrow> hoare P (if b then m else m') Q E"
  by simp

lemma hoare_weaken:
  assumes "hoare P m Q E" and "\<And>s. P' s \<Longrightarrow> P s" and "\<And>x s. Q x s \<Longrightarrow> Q' x s"
    and "\<And>e s. E e s \<Longrightarrow> E' e s"
  shows "hoare P' m Q' E'"
  using assms unfolding hoare_def by (fastforce split: prod.splits sum.splits)

lemma hoare_for_each:
  assumes "\<And>x. x \<in> set xs \<Longrightarrow> hoare I (body x) (\<lambda>_. I) E"
  shows "hoare I (for_each body xs) (\<lambda>_. I) E"
  using assms
proof (induction xs)
  case Nil
  then show ?case by (simp add: hoare_def)
next
  case (Cons x xs)
  have x: "hoare I (body x) (\<lambda>_. I) E" and xs: "hoare I (for_each body xs) (\<lambda>_. I) E"
    using Cons by auto
  have "for_each body (x # xs) = bind (body x) (\<lambda>_. for_each body xs)"
    by (auto simp: bind_def fun_eq_iff split: prod.splits sum.splits)
  then show ?case using hoare_bind [OF x xs] by simp
qed

subsection \<open>Dictionaries\<close>

lemma dict_set_get [simp]: "map_of (AList.update k v d) k' = (if k' = k then Some v else map_of d k')"
  by (simp add: update_conv')

lemma dict_del_get [simp]: "map_of (AList.delete k d) k' = (if k' = k then None else map_of d k')"
  by (simp add: delete_conv')

lemma dict_item_Inr_iff: "dict_item d k = Inr v \<longleftrightarrow> map_of d k = Some v"
  by (auto simp: dict_item_def split: option.splits)

lemma dict_get_Some_in: "map_of d k = Some v \<Longrightarrow> (k, v) \<in> set d"
  by (rule map_of_SomeD)

lemma dict_set_distinct: "distinct (map fst d) \<Longrightarrow> distinct (map fst (AList.update k v d))"
  by (rule distinct_update)

lemma dict_del_distinct: "distinct (map fst d) \<Longrightarrow> distinct (map fst (AList.delete k d))"
  by (rule distinct_delete)

lemma dict_keys_set: "set (map fst (AList.update k v d)) = insert k (set (map fst d))"
  by (induction d) auto

lemma dict_values_update: "set (map snd (AList.update k v d)) \<subseteq> insert v (set (map snd d))"
  by (induction d) auto

lemma map_of_dict_of:
  "map_of (dict_of kvs d) k = (case map_of (rev kvs) k of None \<Rightarrow> map_of d k | Some v \<Rightarrow> Some v)"
  by (induction kvs d rule: dict_of.induct) (auto simp: map_add_def split: option.splits)

lemma map_of_rev_distinct: "distinct (map fst xs) \<Longrightarrow> map_of (rev xs) k = map_of xs k"
proof (cases "map_of xs k")
  case (Some v)
  assume "distinct (map fst xs)"
  with Some show ?thesis by (simp add: map_of_eq_Some_iff rev_map [symmetric])
next
  case None
  then have "map_of (rev xs) k = None" by (metis map_of_eq_None_iff list.set_map set_rev)
  with None show ?thesis by simp
qed

lemma set_dedup [simp]: "set (dedup xs) = set xs"
  by (induction xs rule: dedup.induct) auto

lemma distinct_dedup: "distinct (dedup xs)"
  by (induction xs rule: dedup.induct) auto

subsection \<open>Integers\<close>

lemma ensure_uint64_Inr_iff:
  "ensure_uint64 vs = Inr u \<longleftrightarrow> (\<forall>v\<in>set vs. 0 \<le> v \<and> v \<le> UINT64_MAX)"
  by (auto simp: ensure_uint64_def)

lemma ensure_sint64_Inr_iff:
  "ensure_sint64_nonnegative vs = Inr u \<longleftrightarrow> (\<forall>v\<in>set vs. 0 \<le> v \<and> v \<le> SINT64_MAX)"
  by (auto simp: ensure_sint64_nonnegative_def)

lemma ceil_div_bounds:
  fixes a b :: int
  assumes "0 < b"
  shows "a \<le> (a + b - 1) div b * b" and "(a + b - 1) div b * b < a + b"
proof -
  have "(a + b - 1) div b * b + (a + b - 1) mod b = a + b - 1"
    by (rule div_mult_mod_eq)
  moreover have "0 \<le> (a + b - 1) mod b" "(a + b - 1) mod b < b"
    using assms by simp_all
  ultimately show "a \<le> (a + b - 1) div b * b" and "(a + b - 1) div b * b < a + b"
    by linarith+
qed

lemma ceil_div_least:
  fixes a b c :: int
  assumes "0 < b" and "a \<le> c * b"
  shows "(a + b - 1) div b \<le> c"
proof -
  have "a + b - 1 < (c + 1) * b" using assms by (simp add: algebra_simps)
  then have "(a + b - 1) div b * b < (c + 1) * b"
    using ceil_div_bounds(2) [OF assms(1), of a] assms by (simp add: algebra_simps)
  then have "(a + b - 1) div b < c + 1"
    using assms(1) by (simp add: mult_less_cancel_right)
  then show ?thesis by simp
qed

subsection \<open>Sums over lists\<close>

lemma sum_list_mono_int:
  fixes f g :: "'a \<Rightarrow> int"
  assumes "\<And>x. x \<in> set xs \<Longrightarrow> f x \<le> g x"
  shows "sum_list (map f xs) \<le> sum_list (map g xs)"
  using assms by (rule sum_list_mono)

end
