(* ===== verification/Ecs_Quota.thy ===== *)
theory Ecs_Quota
  imports Prelude
begin

section \<open>Elastic Context State geometry and the byte ledger\<close>

text \<open>
  Models \<^verbatim>\<open>src/xpool/ecs.py\<close>: the immutable geometry of one local pool (\<^verbatim>\<open>PoolProfile\<close>), the joint
  profile of a rank (\<^verbatim>\<open>ElasticContextStateProfile\<close>) and the permission ledger shared by all backings
  of one Instance rank (\<^verbatim>\<open>MemoryQuota\<close>). The locale \<open>byte_ledger\<close> is the contract a physical
  backing relies on; \<^verbatim>\<open>MemoryQuota\<close> is its provider.
\<close>

subsection \<open>Pool geometry\<close>

record pool_profile =
  bundle_bytes :: int
  bundle_capacity :: int
  floor_bundles :: int

definition PoolProfile :: "int \<Rightarrow> int \<Rightarrow> int \<Rightarrow> pool_profile result" where
  "PoolProfile bytes capacity floor_count =
     rbind (ensure_uint64 [bytes, capacity, floor_count]) (\<lambda>_.
       if bytes = 0 \<or> floor_count > capacity
       then Inl (ValueError ''elastic context state pool requires positive bundle bytes and a floor within its reservation'')
       else rbind (ensure_uint64 [bytes * capacity]) (\<lambda>_.
         Inr \<lparr>bundle_bytes = bytes, bundle_capacity = capacity, floor_bundles = floor_count\<rparr>))"

definition bytes_for :: "pool_profile \<Rightarrow> int \<Rightarrow> int result" where
  "bytes_for p bundles =
     rbind (ensure_uint64 [bundles]) (\<lambda>_.
       if bundles > bundle_capacity p
       then Inl (ValueError ''elastic context state bundle count exceeds the pool reservation'')
       else Inr (bundles * bundle_bytes p))"

definition profile_floor_bytes :: "pool_profile list \<Rightarrow> int" where
  "profile_floor_bytes pools = (\<Sum>pool\<leftarrow>pools. floor_bundles pool * bundle_bytes pool)"

definition profile_reservation_bytes :: "pool_profile list \<Rightarrow> int" where
  "profile_reservation_bytes pools = (\<Sum>pool\<leftarrow>pools. bundle_capacity pool * bundle_bytes pool)"

definition ElasticContextStateProfile :: "pool_profile list \<Rightarrow> pool_profile list result" where
  "ElasticContextStateProfile pools =
     rbind (ensure_uint64 [profile_floor_bytes pools, profile_reservation_bytes pools]) (\<lambda>_. Inr pools)"

definition pool_profile_ok :: "pool_profile \<Rightarrow> bool" where
  "pool_profile_ok p \<longleftrightarrow>
     0 < bundle_bytes p \<and> 0 \<le> floor_bundles p \<and> floor_bundles p \<le> bundle_capacity p \<and>
     bundle_bytes p * bundle_capacity p \<le> UINT64_MAX"

subsection \<open>The permission ledger\<close>

record memory_quota =
  limit_bytes :: int
  charged_bytes :: int

definition MemoryQuota :: "int \<Rightarrow> memory_quota result" where
  "MemoryQuota limit =
     rbind (ensure_uint64 [limit]) (\<lambda>_. Inr \<lparr>limit_bytes = limit, charged_bytes = 0\<rparr>)"

definition try_reserve :: "int \<Rightarrow> (memory_quota, bool) op" where
  "try_reserve byte_count q =
     (case ensure_uint64 [byte_count] of Inl e \<Rightarrow> (Inl e, q)
      | Inr _ \<Rightarrow>
          if byte_count > limit_bytes q - charged_bytes q then (Inr False, q)
          else (Inr True, q\<lparr>charged_bytes := charged_bytes q + byte_count\<rparr>))"

definition release :: "int \<Rightarrow> (memory_quota, unit) op" where
  "release byte_count q =
     (case ensure_uint64 [byte_count] of Inl e \<Rightarrow> (Inl e, q)
      | Inr _ \<Rightarrow>
          if byte_count > charged_bytes q
          then (Inl (ValueError ''elastic context state quota release exceeds its retained charge''), q)
          else (Inr (), q\<lparr>charged_bytes := charged_bytes q - byte_count\<rparr>))"

definition set_limit :: "int \<Rightarrow> (memory_quota, unit) op" where
  "set_limit limit q =
     (case ensure_uint64 [limit] of Inl e \<Rightarrow> (Inl e, q)
      | Inr _ \<Rightarrow>
          if limit < charged_bytes q
          then (Inl (ValueError ''elastic context state quota limit is below its retained charge''), q)
          else (Inr (), q\<lparr>limit_bytes := limit\<rparr>))"

definition quota_ok :: "memory_quota \<Rightarrow> bool" where
  "quota_ok q \<longleftrightarrow> 0 \<le> charged_bytes q \<and> charged_bytes q \<le> limit_bytes q \<and> limit_bytes q \<le> UINT64_MAX"

text \<open>Calls the owner of a ledger makes, in any order; a call that raises leaves the ledger to the next.\<close>

datatype ledger_call = TryReserve int | Release int | SetLimit int

fun quota_call :: "ledger_call \<Rightarrow> memory_quota \<Rightarrow> memory_quota" where
  "quota_call (TryReserve n) q = snd (try_reserve n q)"
| "quota_call (Release n) q = snd (release n q)"
| "quota_call (SetLimit n) q = snd (set_limit n q)"

fun granted_bytes :: "ledger_call \<Rightarrow> memory_quota \<Rightarrow> int" where
  "granted_bytes (TryReserve n) q = (if fst (try_reserve n q) = Inr True then n else 0)"
| "granted_bytes (Release n) q = (if fst (release n q) = Inr () then - n else 0)"
| "granted_bytes (SetLimit n) q = 0"

fun quota_calls :: "ledger_call list \<Rightarrow> memory_quota \<Rightarrow> memory_quota" where
  "quota_calls [] q = q"
| "quota_calls (c # cs) q = quota_calls cs (quota_call c q)"

fun net_granted :: "ledger_call list \<Rightarrow> memory_quota \<Rightarrow> int" where
  "net_granted [] q = 0"
| "net_granted (c # cs) q = granted_bytes c q + net_granted cs (quota_call c q)"

subsection \<open>The contract of a ledger\<close>

locale byte_ledger =
  fixes ledger_ok :: "'q \<Rightarrow> bool"
    and limit_of :: "'q \<Rightarrow> int"
    and charged_of :: "'q \<Rightarrow> int"
    and reserve :: "int \<Rightarrow> ('q, bool) op"
    and refund :: "int \<Rightarrow> ('q, unit) op"
  assumes ledger_bounds: "ledger_ok q \<Longrightarrow> 0 \<le> charged_of q \<and> charged_of q \<le> limit_of q \<and> limit_of q \<le> UINT64_MAX"
    and reserve_total: "0 \<le> n \<Longrightarrow> n \<le> UINT64_MAX \<Longrightarrow> ledger_ok q \<Longrightarrow> \<exists>b q'. reserve n q = (Inr b, q')"
    and reserve_granted: "ledger_ok q \<Longrightarrow> reserve n q = (Inr True, q') \<Longrightarrow>
      ledger_ok q' \<and> charged_of q' = charged_of q + n \<and> limit_of q' = limit_of q \<and> 0 \<le> n"
    and reserve_refused: "ledger_ok q \<Longrightarrow> reserve n q = (Inr False, q') \<Longrightarrow>
      q' = q \<and> limit_of q < charged_of q + n"
    and reserve_raised: "reserve n q = (Inl e, q') \<Longrightarrow> q' = q"
    and refund_covered: "ledger_ok q \<Longrightarrow> 0 \<le> n \<Longrightarrow> n \<le> charged_of q \<Longrightarrow> \<exists>q'. refund n q = (Inr (), q')"
    and refund_returned: "ledger_ok q \<Longrightarrow> refund n q = (Inr (), q') \<Longrightarrow>
      ledger_ok q' \<and> charged_of q' = charged_of q - n \<and> limit_of q' = limit_of q \<and> 0 \<le> n"
    and refund_raised: "refund n q = (Inl e, q') \<Longrightarrow> q' = q"
begin

text \<open>Refunding a reservation piecewise, as a backing does bundle by bundle.\<close>

lemma refund_each:
  assumes "ledger_ok q" and "0 \<le> b" and "int (length xs) * b \<le> charged_of q"
  shows "\<exists>q'. for_each (\<lambda>_. refund b) xs q = (Inr (), q') \<and> ledger_ok q' \<and>
           charged_of q' = charged_of q - int (length xs) * b \<and> limit_of q' = limit_of q"
  using assms
proof (induction xs arbitrary: q)
  case Nil
  then show ?case by simp
next
  case (Cons x xs)
  have step: "b + int (length xs) * b \<le> charged_of q"
    using Cons.prems by (simp add: algebra_simps)
  moreover have "0 \<le> int (length xs) * b" using Cons.prems(2) by simp
  ultimately obtain q1 where q1: "refund b q = (Inr (), q1)"
    using refund_covered [OF Cons.prems(1,2)] by force
  from refund_returned [OF Cons.prems(1) q1] have "ledger_ok q1" and
    "charged_of q1 = charged_of q - b" and "limit_of q1 = limit_of q" by auto
  with Cons.IH [of q1] Cons.prems(2) step q1 show ?case
    by (auto simp: algebra_simps)
qed

text \<open>A granted reservation that is refunded in full restores the charge and keeps the limit.\<close>

lemma reserve_then_refund:
  assumes "ledger_ok q" and "reserve n q = (Inr True, q')" 
  shows "\<exists>q''. refund n q' = (Inr (), q'') \<and> charged_of q'' = charged_of q \<and> limit_of q'' = limit_of q"
proof -
  from reserve_granted [OF assms] have ok: "ledger_ok q'" and ch: "charged_of q' = charged_of q + n"
    and lim: "limit_of q' = limit_of q" and n: "0 \<le> n" by auto
  have "n \<le> charged_of q'" using ledger_bounds [OF assms(1)] ch by simp
  then obtain q'' where "refund n q' = (Inr (), q'')" using refund_covered [OF ok n] by blast
  with refund_returned [OF ok this] ch lim show ?thesis by auto
qed

end

subsection \<open>The ledger keeps its contract\<close>

lemmas quota_defs = try_reserve_def release_def set_limit_def ensure_uint64_def quota_ok_def

lemma try_reserve_ok: "quota_ok q \<Longrightarrow> quota_ok (snd (try_reserve n q))"
  by (auto simp: quota_defs split: sum.splits if_splits)

lemma release_ok: "quota_ok q \<Longrightarrow> quota_ok (snd (release n q))"
  by (auto simp: quota_defs split: sum.splits if_splits)

lemma set_limit_ok: "quota_ok q \<Longrightarrow> quota_ok (snd (set_limit n q))"
  by (auto simp: quota_defs split: sum.splits if_splits)

lemma quota_call_ok: "quota_ok q \<Longrightarrow> quota_ok (quota_call c q)"
  by (cases c) (simp_all add: try_reserve_ok release_ok set_limit_ok)

lemma MemoryQuota_ok: "MemoryQuota limit = Inr q \<Longrightarrow> quota_ok q \<and> limit_bytes q = limit \<and> charged_bytes q = 0"
  by (auto simp: MemoryQuota_def quota_ok_def rbind_Inr_iff ensure_uint64_Inr_iff)

interpretation memory_ledger: byte_ledger quota_ok limit_bytes charged_bytes try_reserve release
  by unfold_locales (auto simp: quota_defs split: sum.splits if_splits)

lemma quota_call_charged: "charged_bytes (quota_call c q) = charged_bytes q + granted_bytes c q"
  by (cases c) (auto simp: try_reserve_def release_def set_limit_def split: sum.splits)

lemma set_limit_eq:
  "quota_ok q \<Longrightarrow> charged_bytes q \<le> limit \<Longrightarrow> limit \<le> UINT64_MAX \<Longrightarrow>
   set_limit limit q = (Inr (), q\<lparr>limit_bytes := limit\<rparr>)"
  by (auto simp: quota_defs split: sum.splits)

lemma PoolProfile_Inr:
  "PoolProfile b c f = Inr p \<Longrightarrow> pool_profile_ok p \<and> bundle_bytes p = b \<and> bundle_capacity p = c \<and> floor_bundles p = f"
  by (auto simp: PoolProfile_def pool_profile_ok_def rbind_Inr_iff ensure_uint64_Inr_iff split: if_splits)

lemma bytes_for_Inr_iff:
  "pool_profile_ok p \<Longrightarrow>
   bytes_for p n = Inr m \<longleftrightarrow> 0 \<le> n \<and> n \<le> bundle_capacity p \<and> n \<le> UINT64_MAX \<and> m = n * bundle_bytes p"
  by (auto simp: bytes_for_def rbind_Inr_iff ensure_uint64_Inr_iff split: if_splits)

lemma bytes_for_fits:
  assumes "pool_profile_ok p" and "bytes_for p n = Inr m"
  shows "0 \<le> m \<and> m \<le> UINT64_MAX"
proof -
  from assms have n: "0 \<le> n" "n \<le> bundle_capacity p" and m: "m = n * bundle_bytes p"
    by (simp_all add: bytes_for_Inr_iff)
  from assms(1) have b: "0 < bundle_bytes p" and cap: "bundle_bytes p * bundle_capacity p \<le> UINT64_MAX"
    by (simp_all add: pool_profile_ok_def)
  have "n * bundle_bytes p \<le> bundle_capacity p * bundle_bytes p"
    using n b by (intro mult_right_mono) auto
  also have "\<dots> \<le> UINT64_MAX" using cap by (simp add: mult.commute)
  finally show ?thesis using m n b by simp
qed

lemma profile_floor_le_reservation:
  "\<forall>p\<in>set pools. pool_profile_ok p \<Longrightarrow> 0 \<le> profile_floor_bytes pools \<and>
     profile_floor_bytes pools \<le> profile_reservation_bytes pools"
  by (induction pools)
     (auto simp: profile_floor_bytes_def profile_reservation_bytes_def pool_profile_ok_def
           intro!: add_mono mult_right_mono)

subsection \<open>Properties\<close>

text \<open>
  C5: Whatever calls are made on a rank's ledger and in whatever order, including calls that are
  refused or raise, the retained charge stays between zero and the granted limit and equals exactly
  what was granted minus what was refunded.
\<close>

theorem ledger_never_overcommits:
  assumes "MemoryQuota limit = Inr q"
  shows "quota_ok (quota_calls calls q) \<and> charged_bytes (quota_calls calls q) = net_granted calls q"
proof -
  have "quota_ok q' \<Longrightarrow>
        quota_ok (quota_calls calls q') \<and>
        charged_bytes (quota_calls calls q') = charged_bytes q' + net_granted calls q'" for q'
    by (induction calls arbitrary: q') (auto simp: quota_call_ok quota_call_charged)
  with MemoryQuota_ok [OF assms] show ?thesis by simp
qed

theorem ledger_never_overcommits_witness:
  "MemoryQuota 100 = Inr \<lparr>limit_bytes = 100, charged_bytes = 0\<rparr> \<and>
   quota_ok (quota_calls [TryReserve 60, TryReserve 50, Release 10, SetLimit 20, Release 90]
              \<lparr>limit_bytes = 100, charged_bytes = 0\<rparr>) \<and>
   charged_bytes (quota_calls [TryReserve 60, TryReserve 50, Release 10, SetLimit 20, Release 90]
              \<lparr>limit_bytes = 100, charged_bytes = 0\<rparr>) = 50"
proof -
  have h: "MemoryQuota 100 = Inr \<lparr>limit_bytes = 100, charged_bytes = 0\<rparr>"
    by (simp add: MemoryQuota_def ensure_uint64_def UINT64_MAX_def)
  have "net_granted [TryReserve 60, TryReserve 50, Release 10, SetLimit 20, Release 90]
          \<lparr>limit_bytes = 100, charged_bytes = 0\<rparr> = 50"
    by (simp add: try_reserve_def release_def set_limit_def ensure_uint64_def UINT64_MAX_def)
  with h ledger_never_overcommits [OF h, of "[TryReserve 60, TryReserve 50, Release 10, SetLimit 20, Release 90]"]
  show ?thesis by simp
qed

end
