(* ===== verification/Memory.thy ===== *)
theory Memory
  imports Prelude "HOL-Library.List_Lexorder" "HOL-Library.Char_ord"
begin

unbundle bit_operations_syntax

section \<open>FFN resource contracts and the calibrated overhead envelope\<close>

text \<open>
  Models \<^verbatim>\<open>src/xpool/memory.py\<close>: the address-free execution resource contract an FfnAgent declares,
  the compatibility facts of a participant, the calibrated overhead expression used by admission, and
  the retained/peak estimate of a device. Constructors return the value or the exception that
  \<^verbatim>\<open>__post_init__\<close> or the model validator raises; reading and writing profile files is not modelled.
\<close>

definition MIB :: int where
  "MIB = 2 ^ 20"

subsection \<open>Execution resources\<close>

record execution_resource_requirement =
  res_key :: string
  res_request_bytes :: "int list"
  res_logical_extent_bound_bytes :: int
  res_exact_logical_bytes :: "int option"
  res_alignment_bytes :: int

definition ExecutionResourceRequirement ::
    "execution_resource_requirement \<Rightarrow> execution_resource_requirement result" where
  "ExecutionResourceRequirement r =
     rbind (ensure_sint64_nonnegative
             (res_logical_extent_bound_bytes r # res_alignment_bytes r # res_request_bytes r)) (\<lambda>_.
       if res_key r = [] \<or> res_logical_extent_bound_bytes r = 0
       then Inl (ValueError ''execution resource needs an identity and positive logical extent'')
       else if \<not> (0 < res_alignment_bytes r \<and> res_alignment_bytes r \<le> 256)
               \<or> res_alignment_bytes r AND (res_alignment_bytes r - 1) \<noteq> 0
       then Inl (ValueError ''resource alignment must be a positive power of two at most 256 bytes'')
       else if res_request_bytes r = [] \<or> (\<exists>v\<in>set (res_request_bytes r). v = 0)
       then Inl (ValueError ''framework resource requests must be positive and nonempty'')
       else case res_exact_logical_bytes r of
              None \<Rightarrow> Inr r
            | Some exact \<Rightarrow>
                rbind (ensure_sint64_nonnegative [exact]) (\<lambda>_.
                  if exact > res_logical_extent_bound_bytes r
                  then Inl (ValueError ''exact resource bytes exceed the declared logical extent'')
                  else if exact > sum_list (res_request_bytes r)
                  then Inl (ValueError ''exact resource bytes exceed the declared request bounds'')
                  else Inr r))"

datatype resource_use = Use_dense | Use_moe_router

record execution_resource_declaration =
  decl_requirement :: execution_resource_requirement
  decl_aliases :: "string list"
  decl_uses :: "resource_use list"

definition ExecutionResourceDeclaration ::
    "execution_resource_declaration \<Rightarrow> execution_resource_declaration result" where
  "ExecutionResourceDeclaration d =
     (if decl_uses d = [] then Inl (ValueError ''uses'')
      else if res_key (decl_requirement d) \<notin> set (decl_aliases d) \<or> \<not> distinct (decl_aliases d)
              \<or> (\<exists>key\<in>set (decl_aliases d). key = [])
      then Inl (ValueError ''resource aliases must be unique, nonempty and include their canonical identity'')
      else if \<not> distinct (decl_uses d)
      then Inl (ValueError ''resource computation use sites must be unique'')
      else Inr d)"

record ffn_execution_contract =
  lane_resources :: "execution_resource_declaration list"
  shared_resources :: "execution_resource_declaration list"

definition FfnExecutionContract :: "ffn_execution_contract \<Rightarrow> ffn_execution_contract result" where
  "FfnExecutionContract c =
     (if \<not> distinct (concat (map decl_aliases (lane_resources c @ shared_resources c)))
      then Inl (ValueError ''execution resource identities and aliases must be unique'')
      else Inr c)"

subsection \<open>Participant compatibility facts\<close>

record memory_calibration_environment =
  env_name :: string
  env_compute_capability :: "int \<times> int"
  env_total_memory_bytes :: int
  env_native_abi_version :: int
  env_cuda_driver_version :: int
  env_cuda_runtime_version :: int
  env_torch_version :: string
  env_triton_version :: string
  env_sglang_version :: string
  env_sglang_kernel_version :: string
  env_nvshmem_version :: string
  env_nccl_version :: "int \<times> int \<times> int"
  env_configuration_inputs :: "(string \<times> string option) list"

definition MemoryCalibrationEnvironment ::
    "memory_calibration_environment \<Rightarrow> memory_calibration_environment result" where
  "MemoryCalibrationEnvironment e =
     (let names = map fst (env_configuration_inputs e);
          (major, minor) = env_compute_capability e;
          (n1, n2, n3) = env_nccl_version e
      in if env_name e = [] \<or> env_total_memory_bytes e < 1 \<or> env_native_abi_version e < 1
            \<or> env_cuda_driver_version e < 1 \<or> env_cuda_runtime_version e < 1
            \<or> env_torch_version e = [] \<or> env_triton_version e = [] \<or> env_sglang_version e = []
            \<or> env_sglang_kernel_version e = [] \<or> env_nvshmem_version e = []
         then Inl (ValueError ''field constraint'')
         else if \<exists>v\<in>set [major, minor, n1, n2, n3]. v < 0
         then Inl (ValueError ''device capability and library version components must be nonnegative'')
         else if names \<noteq> sort (remdups names) \<or> (\<exists>name\<in>set names. name = [])
         then Inl (ValueError ''configuration inputs must have unique sorted nonempty names'')
         else Inr e)"

record fabric_memory_context =
  ctx_participants :: "memory_calibration_environment list option"
  ctx_ffn_execution :: "ffn_execution_contract list"

definition FabricMemoryContext :: "fabric_memory_context \<Rightarrow> fabric_memory_context result" where
  "FabricMemoryContext c =
     (if (case ctx_participants c of None \<Rightarrow> False | Some ps \<Rightarrow> length ps < 2) \<or> ctx_ffn_execution c = []
      then Inl (ValueError ''field constraint'')
      else case ctx_participants c of
             None \<Rightarrow> Inr c
           | Some ps \<Rightarrow>
               if length (ctx_ffn_execution c) \<ge> length ps
               then Inl (ValueError ''Fabric memory context requires at least one attention participant'')
               else Inr c)"

subsection \<open>Calibrated overhead\<close>

record device_memory_features =
  tensor_storage_bytes :: int
  tensor_storage_allocation_count :: int
  dense_graph_capture_count :: int
  moe_graph_capture_count :: int
  executor_lane_count :: int
  compute_branch_count :: int
  dense_implementation_present :: bool
  moe_implementation_present :: bool
  joined_ffnagent :: bool

definition DeviceMemoryFeatures :: "device_memory_features \<Rightarrow> device_memory_features result" where
  "DeviceMemoryFeatures f =
     rbind (ensure_sint64_nonnegative
             [tensor_storage_bytes f, tensor_storage_allocation_count f, dense_graph_capture_count f,
              moe_graph_capture_count f, executor_lane_count f, compute_branch_count f]) (\<lambda>_. Inr f)"

definition calibration_values :: "device_memory_features \<Rightarrow> int list result" where
  "calibration_values f =
     rbind (align_up (tensor_storage_bytes f) MIB) (\<lambda>aligned.
       Inr [1, aligned div MIB, tensor_storage_allocation_count f, dense_graph_capture_count f,
            moe_graph_capture_count f, executor_lane_count f, compute_branch_count f,
            of_bool (dense_implementation_present f), of_bool (moe_implementation_present f),
            of_bool (joined_ffnagent f)])"

record ffn_memory_calibration_coefficients =
  base_bytes :: int
  bytes_per_tensor_storage_mib :: int
  bytes_per_tensor_storage_allocation :: int
  bytes_per_dense_graph_capture :: int
  bytes_per_moe_graph_capture :: int
  bytes_per_executor_lane :: int
  bytes_per_compute_branch :: int
  dense_implementation_bytes :: int
  moe_implementation_bytes :: int
  joined_ffnagent_bytes :: int

definition coefficient_values :: "ffn_memory_calibration_coefficients \<Rightarrow> int list" where
  "coefficient_values c =
     [base_bytes c, bytes_per_tensor_storage_mib c, bytes_per_tensor_storage_allocation c,
      bytes_per_dense_graph_capture c, bytes_per_moe_graph_capture c, bytes_per_executor_lane c,
      bytes_per_compute_branch c, dense_implementation_bytes c, moe_implementation_bytes c,
      joined_ffnagent_bytes c]"

definition FfnMemoryCalibrationCoefficients ::
    "ffn_memory_calibration_coefficients \<Rightarrow> ffn_memory_calibration_coefficients result" where
  "FfnMemoryCalibrationCoefficients c = rbind (ensure_sint64_nonnegative (coefficient_values c)) (\<lambda>_. Inr c)"

definition evaluate :: "ffn_memory_calibration_coefficients \<Rightarrow> device_memory_features \<Rightarrow> int result" where
  "evaluate c f =
     rbind (calibration_values f) (\<lambda>values.
     rbind (zip_strict (coefficient_values c) values) (\<lambda>pairs.
       let result = (\<Sum>(coefficient, v)\<leftarrow>pairs. coefficient * v)
       in rbind (ensure_sint64_nonnegative [result]) (\<lambda>_. Inr result)))"

subsection \<open>Profiles and estimates\<close>

record ffn_memory_calibration =
  cal_executor_lane_count :: int
  cal_minimum_held_out_headroom_bytes :: int
  cal_coefficients :: ffn_memory_calibration_coefficients

record xpool_memory_calibration_profile =
  profile_memory_context :: fabric_memory_context
  profile_ffn :: ffn_memory_calibration

definition XpoolMemoryCalibrationProfile ::
    "xpool_memory_calibration_profile \<Rightarrow> xpool_memory_calibration_profile result" where
  "XpoolMemoryCalibrationProfile p =
     (case ctx_participants (profile_memory_context p) of
        None \<Rightarrow> Inl (ValueError ''memory calibration Profile requires complete participant observations'')
      | Some _ \<Rightarrow> Inr p)"

definition require_compatible ::
    "xpool_memory_calibration_profile \<Rightarrow> fabric_memory_context \<Rightarrow> int \<Rightarrow> unit result" where
  "require_compatible p context lanes =
     (if ctx_participants context = None
      then Inl (RuntimeError ''memory calibration requires current participant observations'')
      else if profile_memory_context p \<noteq> context
      then Inl (RuntimeError ''memory calibration Profile is incompatible with the current Fabric memory context'')
      else if cal_executor_lane_count (profile_ffn p) \<noteq> lanes
      then Inl (RuntimeError ''memory calibration Profile requires other Executor Lanes'')
      else Inr ())"

record device_memory_estimate =
  retained_bytes :: int
  peak_bytes :: int

definition DeviceMemoryEstimate :: "int \<Rightarrow> int \<Rightarrow> device_memory_estimate result" where
  "DeviceMemoryEstimate retained peak =
     rbind (ensure_sint64_nonnegative [retained, peak]) (\<lambda>_.
       if retained > peak
       then Inl (ValueError ''retained device memory cannot exceed startup peak memory'')
       else Inr \<lparr>retained_bytes = retained, peak_bytes = peak\<rparr>)"

subsection \<open>The envelope is monotone\<close>

definition features_le :: "device_memory_features \<Rightarrow> device_memory_features \<Rightarrow> bool" where
  "features_le f g \<longleftrightarrow>
     tensor_storage_bytes f \<le> tensor_storage_bytes g \<and>
     tensor_storage_allocation_count f \<le> tensor_storage_allocation_count g \<and>
     dense_graph_capture_count f \<le> dense_graph_capture_count g \<and>
     moe_graph_capture_count f \<le> moe_graph_capture_count g \<and>
     executor_lane_count f \<le> executor_lane_count g \<and>
     compute_branch_count f \<le> compute_branch_count g \<and>
     dense_implementation_present f \<le> dense_implementation_present g \<and>
     moe_implementation_present f \<le> moe_implementation_present g \<and>
     joined_ffnagent f \<le> joined_ffnagent g"

lemma sum_products_mono:
  fixes cs vs ws :: "int list"
  assumes "length vs = length cs" and "length ws = length cs" and "\<forall>c\<in>set cs. 0 \<le> c"
    and "\<forall>i<length cs. vs ! i \<le> ws ! i"
  shows "(\<Sum>(c, v)\<leftarrow>zip cs vs. c * v) \<le> (\<Sum>(c, v)\<leftarrow>zip cs ws. c * v)"
  using assms
proof (induction cs arbitrary: vs ws)
  case Nil
  then show ?case by simp
next
  case (Cons c cs)
  obtain v vs' w ws' where vw: "vs = v # vs'" "ws = w # ws'"
    using Cons.prems(1,2) by (metis length_Suc_conv)
  have "v \<le> w" and tl: "\<forall>i<length cs. vs' ! i \<le> ws' ! i"
    using Cons.prems(4) vw by (auto simp: All_less_Suc2)
  then have "c * v \<le> c * w" using Cons.prems(3) by (simp add: mult_left_mono)
  moreover have "(\<Sum>(c, v)\<leftarrow>zip cs vs'. c * v) \<le> (\<Sum>(c, v)\<leftarrow>zip cs ws'. c * v)"
    using Cons.prems vw tl by (intro Cons.IH) auto
  ultimately show ?case using vw by simp
qed

lemma calibration_values_Inr:
  "calibration_values f = Inr vs \<Longrightarrow>
   vs = [1, (tensor_storage_bytes f + MIB - 1) div MIB, tensor_storage_allocation_count f,
         dense_graph_capture_count f, moe_graph_capture_count f, executor_lane_count f,
         compute_branch_count f, of_bool (dense_implementation_present f),
         of_bool (moe_implementation_present f), of_bool (joined_ffnagent f)]"
  by (auto simp: calibration_values_def rbind_Inr_iff align_up_def MIB_def split: if_splits)

lemma evaluate_Inr:
  assumes "evaluate c f = Inr m"
  shows "\<exists>vs. calibration_values f = Inr vs \<and> length vs = 10 \<and>
           m = (\<Sum>(coefficient, v)\<leftarrow>zip (coefficient_values c) vs. coefficient * v) \<and>
           0 \<le> m \<and> m \<le> SINT64_MAX"
  using assms calibration_values_Inr [of f]
  by (auto simp: evaluate_def rbind_Inr_iff zip_strict_Inr_iff ensure_sint64_Inr_iff Let_def)

text \<open>
  C37: The calibrated FFN overhead is an upper envelope: for validated (non-negative) coefficients, a
  device whose features are componentwise at most another's is charged at most as much, so an estimate
  taken at a larger feature point covers every smaller one; every value returned fits a signed 64-bit
  integer.
\<close>

theorem calibrated_overhead_monotone:
  assumes "FfnMemoryCalibrationCoefficients c = Inr c'" and "features_le f g"
    and "evaluate c f = Inr low" and "evaluate c g = Inr high"
  shows "low \<le> high \<and> 0 \<le> low \<and> high \<le> SINT64_MAX"
proof -
  from evaluate_Inr [OF assms(3)] obtain vs where
    vs: "calibration_values f = Inr vs" "length vs = 10" "0 \<le> low"
    and low: "low = (\<Sum>(coefficient, v)\<leftarrow>zip (coefficient_values c) vs. coefficient * v)" by blast
  from evaluate_Inr [OF assms(4)] obtain ws where
    ws: "calibration_values g = Inr ws" "length ws = 10" "high \<le> SINT64_MAX"
    and high: "high = (\<Sum>(coefficient, v)\<leftarrow>zip (coefficient_values c) ws. coefficient * v)" by blast
  have len: "length (coefficient_values c) = 10" by (simp add: coefficient_values_def)
  have nonneg: "\<forall>x\<in>set (coefficient_values c). 0 \<le> x"
    using assms(1) by (auto simp: FfnMemoryCalibrationCoefficients_def rbind_Inr_iff ensure_sint64_Inr_iff)
  have "(tensor_storage_bytes f + MIB - 1) div MIB \<le> (tensor_storage_bytes g + MIB - 1) div MIB"
    using assms(2) by (intro zdiv_mono1) (auto simp: features_le_def MIB_def)
  then have "list_all2 (\<le>) vs ws"
    using calibration_values_Inr [OF vs(1)] calibration_values_Inr [OF ws(1)] assms(2)
    by (simp add: features_le_def of_bool_def)
  then have "\<forall>i<10. vs ! i \<le> ws ! i" using vs(2) by (simp add: list_all2_conv_all_nth)
  then have "low \<le> high"
    unfolding low high using len vs(2) ws(2) nonneg by (intro sum_products_mono) auto
  with vs ws show ?thesis by simp
qed

definition example_features :: "int \<Rightarrow> device_memory_features" where
  "example_features bytes =
     \<lparr>tensor_storage_bytes = bytes, tensor_storage_allocation_count = 2, dense_graph_capture_count = 1,
      moe_graph_capture_count = 0, executor_lane_count = 1, compute_branch_count = 1,
      dense_implementation_present = True, moe_implementation_present = False, joined_ffnagent = True\<rparr>"

definition example_coefficients :: ffn_memory_calibration_coefficients where
  "example_coefficients =
     \<lparr>base_bytes = 100, bytes_per_tensor_storage_mib = 7, bytes_per_tensor_storage_allocation = 3,
      bytes_per_dense_graph_capture = 11, bytes_per_moe_graph_capture = 13, bytes_per_executor_lane = 5,
      bytes_per_compute_branch = 2, dense_implementation_bytes = 40, moe_implementation_bytes = 50,
      joined_ffnagent_bytes = 60\<rparr>"

lemmas example_memory_defs =
  example_features_def example_coefficients_def evaluate_def calibration_values_def coefficient_values_def
  align_up_def MIB_def ensure_sint64_nonnegative_def SINT64_MAX_def zip_strict_def

theorem calibrated_overhead_monotone_witness:
  "evaluate example_coefficients (example_features 1) = Inr 231 \<and>
   evaluate example_coefficients (example_features (5 * MIB)) = Inr 259 \<and>
   (231::int) \<le> 259 \<and> 259 \<le> SINT64_MAX"
proof -
  have c: "FfnMemoryCalibrationCoefficients example_coefficients = Inr example_coefficients"
    by (simp add: FfnMemoryCalibrationCoefficients_def example_memory_defs)
  have f: "features_le (example_features 1) (example_features (5 * MIB))"
    by (simp add: features_le_def example_features_def MIB_def)
  have low: "evaluate example_coefficients (example_features 1) = Inr 231"
    and high: "evaluate example_coefficients (example_features (5 * MIB)) = Inr 259"
    by (simp_all add: example_memory_defs)
  from low high calibrated_overhead_monotone [OF c f low high] show ?thesis by simp
qed

end
