(* ===== verification/Ffn_Spec.thy ===== *)
theory Ffn_Spec
  imports Prelude
begin

section \<open>Generation-independent FFN model semantics\<close>

text \<open>
  Models \<^verbatim>\<open>src/xpool/ffn.py\<close> and the slice type of \<^verbatim>\<open>src/xpool/quantization/base.py\<close>: the layer and
  model specifications an FfnAgent declares, their validators, the checkpoint keys they own and the
  physical ordering of gate and up projection rows. The SHA-256 digest over the JSON dump
  (\<^verbatim>\<open>FfnModelSpec.digest\<close>) is a parameter of the definitions that use it.
\<close>

subsection \<open>Slices\<close>

record tensor_slice =
  slice_axis :: int
  slice_start :: int
  slice_length :: int
  slice_step :: int

definition TensorSlice :: "int \<Rightarrow> int \<Rightarrow> int \<Rightarrow> int \<Rightarrow> tensor_slice result" where
  "TensorSlice axis start len step =
     (if \<exists>v\<in>set [axis, start, len]. v < 0
      then Inl (ValueError ''tensor slice axis, start and length must be nonnegative integers'')
      else if step \<le> 0
      then Inl (ValueError ''tensor slice step must be a positive integer'')
      else Inr \<lparr>slice_axis = axis, slice_start = start, slice_length = len, slice_step = step\<rparr>)"

definition validate_bounds :: "tensor_slice \<Rightarrow> int list \<Rightarrow> unit result" where
  "validate_bounds s shape =
     (if slice_axis s \<ge> int (length shape)
      then Inl (ValueError ''tensor slice axis is outside its source'')
      else let size = shape ! nat (slice_axis s)
           in if slice_start s > size
                 \<or> (slice_length s \<noteq> 0 \<and> slice_start s + (slice_length s - 1) * slice_step s \<ge> size)
              then Inl (ValueError ''tensor slice exceeds its source'')
              else Inr ())"

text \<open>\<^verbatim>\<open>slice(start, start + length * step, step)\<close>: the positions the basic index selects.\<close>

definition slice_positions :: "tensor_slice \<Rightarrow> int list" where
  "slice_positions s = map (\<lambda>i. slice_start s + int i * slice_step s) [0..<nat (slice_length s)]"

subsection \<open>Enumerations\<close>

datatype gate_up_order = CONCATENATED | INTERLEAVED

datatype values_source_layout = MATRIX | SCALE_BLOCKED

datatype router_algorithm = SOFTMAX | SIGMOID

datatype router_projection_precision = PAYLOAD | FP32 | FP32_LOGITS

datatype topk_weight_rounding = ROUND_NONE | LOGITS_DTYPE

datatype torch_dtype = torch_bfloat16 | torch_float16 | torch_float32 | torch_other string

datatype quantization_spec = Unquantized | Mxfp4

datatype layer_kind = DENSE | MOE

definition row_slices ::
    "gate_up_order \<Rightarrow> int \<Rightarrow> int \<Rightarrow> int \<Rightarrow> int \<Rightarrow> (tensor_slice \<times> tensor_slice) result" where
  "row_slices order axis width start len =
     (case order of
        CONCATENATED \<Rightarrow>
          rbind (TensorSlice axis start len 1) (\<lambda>g.
          rbind (TensorSlice axis (width + start) len 1) (\<lambda>u. Inr (g, u)))
      | INTERLEAVED \<Rightarrow>
          rbind (TensorSlice axis (2 * start) len 2) (\<lambda>g.
          rbind (TensorSlice axis (2 * start + 1) len 2) (\<lambda>u. Inr (g, u))))"

definition weight_dtype :: "router_projection_precision \<Rightarrow> torch_dtype \<Rightarrow> torch_dtype result" where
  "weight_dtype precision payload_dtype =
     (if payload_dtype \<notin> {torch_bfloat16, torch_float16}
      then Inl (ValueError ''Router requires BF16 or FP16 payloads'')
      else Inr (if precision = FP32 then torch_float32 else payload_dtype))"

subsection \<open>Projections and layers\<close>

record silu_activation =
  act_alpha :: real
  act_limit :: "real option"
  act_up_offset :: real

definition SiluActivation :: "silu_activation \<Rightarrow> silu_activation result" where
  "SiluActivation a =
     (if act_alpha a \<le> 0 \<or> (case act_limit a of None \<Rightarrow> False | Some l \<Rightarrow> l \<le> 0)
      then Inl (ValueError ''field constraint'') else Inr a)"

record projection_spec =
  quantization :: quantization_spec
  values_key :: string
  scales_key :: "string option"
  bias_key :: "string option"
  values_layout :: values_source_layout

definition ProjectionSpec :: "projection_spec \<Rightarrow> projection_spec result" where
  "ProjectionSpec p =
     (if values_key p = [] \<or> scales_key p = Some [] \<or> bias_key p = Some []
      then Inl (ValueError ''field constraint'')
      else if values_layout p = SCALE_BLOCKED \<and> scales_key p = None
      then Inl (ValueError ''scale-blocked source values require a scales key'')
      else Inr p)"

definition projection_tensor_keys :: "projection_spec \<Rightarrow> string list" where
  "projection_tensor_keys p =
     map the (filter (\<lambda>key. key \<noteq> None) [Some (values_key p), scales_key p, bias_key p])"

record gated_projection_spec =
  gate :: projection_spec
  up :: projection_spec
  down :: projection_spec

definition gated_tensor_keys :: "gated_projection_spec \<Rightarrow> string list" where
  "gated_tensor_keys g =
     projection_tensor_keys (gate g) @ projection_tensor_keys (up g) @ projection_tensor_keys (down g)"

datatype routed_expert_source =
    PerExpertSource "gated_projection_spec list"
  | StackedExpertSource projection_spec projection_spec gate_up_order

fun routed_tensor_keys :: "routed_expert_source \<Rightarrow> string list" where
  "routed_tensor_keys (PerExpertSource experts) = concat (map gated_tensor_keys experts)"
| "routed_tensor_keys (StackedExpertSource gu dn _) =
     projection_tensor_keys gu @ projection_tensor_keys dn"

record dense_ffn_spec =
  dense_layer_id :: int
  dense_intermediate_size :: int
  dense_projections :: gated_projection_spec

record moe_ffn_spec =
  moe_layer_id :: int
  moe_router_algorithm :: router_algorithm
  moe_router_projection_precision :: router_projection_precision
  moe_topk_weight_rounding :: topk_weight_rounding
  expert_intermediate_size :: int
  routed_expert_count :: int
  shared_expert_count :: int
  routed_topk :: int
  renormalize :: bool
  routed_scaling_factor :: real
  router :: projection_spec
  routed_experts :: routed_expert_source
  shared_expert :: "gated_projection_spec option"
  router_correction_bias_key :: "string option"

datatype ffn_layer_spec = DenseFfnSpec dense_ffn_spec | MoeFfnSpec moe_ffn_spec

text \<open>The field constraints of the two layer models and of the per-Expert source.\<close>

definition routed_source_fields_ok :: "routed_expert_source \<Rightarrow> bool" where
  "routed_source_fields_ok source =
     (case source of PerExpertSource experts \<Rightarrow> experts \<noteq> [] | StackedExpertSource _ _ _ \<Rightarrow> True)"

definition dense_fields_ok :: "dense_ffn_spec \<Rightarrow> bool" where
  "dense_fields_ok d = (0 \<le> dense_layer_id d \<and> 1 \<le> dense_intermediate_size d)"

definition moe_fields_ok :: "moe_ffn_spec \<Rightarrow> bool" where
  "moe_fields_ok m =
     (0 \<le> moe_layer_id m \<and> 1 \<le> expert_intermediate_size m \<and> 1 \<le> routed_expert_count m
      \<and> 0 \<le> shared_expert_count m \<and> 1 \<le> routed_topk m \<and> 0 < routed_scaling_factor m
      \<and> routed_source_fields_ok (routed_experts m) \<and> router_correction_bias_key m \<noteq> Some [])"

definition validate_routing :: "moe_ffn_spec \<Rightarrow> moe_ffn_spec result" where
  "validate_routing m =
     (if \<not> moe_fields_ok m then Inl (ValueError ''field constraint'')
      else if (case routed_experts m of
            PerExpertSource experts \<Rightarrow> int (length experts) \<noteq> routed_expert_count m
          | StackedExpertSource _ _ _ \<Rightarrow> False)
      then Inl (ValueError ''per-Expert source count and routed Expert count disagree'')
      else if routed_topk m > routed_expert_count m
      then Inl (ValueError ''routed_topk cannot exceed routed Expert count'')
      else if (shared_expert_count m = 0) \<noteq> (shared_expert m = None)
      then Inl (ValueError ''shared Expert count and projection sources disagree'')
      else case (moe_router_algorithm m, moe_router_projection_precision m) of
             (SOFTMAX, PAYLOAD) \<Rightarrow> Inr m
           | (SOFTMAX, FP32_LOGITS) \<Rightarrow> Inr m
           | (SIGMOID, FP32) \<Rightarrow>
               if \<not> renormalize m then Inl (ValueError ''Sigmoid routing requires normalization'') else Inr m
           | _ \<Rightarrow> Inl (ValueError ''unsupported Router algorithm and precision combination''))"

definition expert_projection_sources ::
    "moe_ffn_spec \<Rightarrow> projection_spec list \<times> projection_spec list" where
  "expert_projection_sources m =
     (let (gate_up, down_keys) =
            (case routed_experts m of
               StackedExpertSource gu d _ \<Rightarrow> ([gu], [d])
             | PerExpertSource experts \<Rightarrow>
                 (concat (map (\<lambda>expert. [gate expert, up expert]) experts), map down experts))
      in case shared_expert m of
           None \<Rightarrow> (gate_up, down_keys)
         | Some shared \<Rightarrow> (gate_up @ [gate shared, up shared], down_keys @ [down shared]))"

definition moe_tensor_keys :: "moe_ffn_spec \<Rightarrow> string list" where
  "moe_tensor_keys m =
     projection_tensor_keys (router m)
     @ (case router_correction_bias_key m of None \<Rightarrow> [] | Some key \<Rightarrow> [key])
     @ routed_tensor_keys (routed_experts m)
     @ (case shared_expert m of None \<Rightarrow> [] | Some shared \<Rightarrow> gated_tensor_keys shared)"

fun layer_tensor_keys :: "ffn_layer_spec \<Rightarrow> string list" where
  "layer_tensor_keys (DenseFfnSpec d) = gated_tensor_keys (dense_projections d)"
| "layer_tensor_keys (MoeFfnSpec m) = moe_tensor_keys m"

fun layer_spec_id :: "ffn_layer_spec \<Rightarrow> int" where
  "layer_spec_id (DenseFfnSpec d) = dense_layer_id d"
| "layer_spec_id (MoeFfnSpec m) = moe_layer_id m"

fun layer_spec_kind :: "ffn_layer_spec \<Rightarrow> layer_kind" where
  "layer_spec_kind (DenseFfnSpec _) = DENSE"
| "layer_spec_kind (MoeFfnSpec _) = MOE"

record ffn_model_spec =
  spec_model_id :: string
  spec_hidden_size :: int
  spec_activation :: silu_activation
  spec_layers :: "ffn_layer_spec list"

definition FfnModelSpec :: "ffn_model_spec \<Rightarrow> ffn_model_spec result" where
  "FfnModelSpec s =
     (if spec_hidden_size s < 1 \<or> spec_layers s = []
      then Inl (ValueError ''field constraint'')
      else if \<not> distinct (map layer_spec_id (spec_layers s))
      then Inl (ValueError ''FFN Model Spec layer ids must be unique'')
      else if \<not> distinct (concat (map layer_tensor_keys (spec_layers s)))
      then Inl (ValueError ''FFN Model Spec checkpoint keys must be globally unique'')
      else Inr s)"

subsection \<open>Gate and up rows\<close>

lemma slice_positions_set:
  "set (slice_positions s) = (\<lambda>i. slice_start s + i * slice_step s) ` {0 ..< slice_length s}"
proof -
  have "int ` {0 ..< nat (slice_length s)} = {0 ..< slice_length s}"
  proof (intro subset_antisym subsetI)
    fix x
    assume "x \<in> {0 ..< slice_length s}"
    then show "x \<in> int ` {0 ..< nat (slice_length s)}" by (intro image_eqI [of _ _ "nat x"]) auto
  qed auto
  then have "(\<lambda>i. slice_start s + i * slice_step s) ` int ` {0 ..< nat (slice_length s)} =
             (\<lambda>i. slice_start s + i * slice_step s) ` {0 ..< slice_length s}" by simp
  then show ?thesis by (simp add: slice_positions_def image_image atLeast_upt)
qed

text \<open>The physical rows of the semantic gate rows and up rows of each ordering.\<close>

fun gate_row :: "gate_up_order \<Rightarrow> int \<Rightarrow> int" where
  "gate_row CONCATENATED i = i"
| "gate_row INTERLEAVED i = 2 * i"

fun up_row :: "gate_up_order \<Rightarrow> int \<Rightarrow> int \<Rightarrow> int" where
  "up_row CONCATENATED width i = width + i"
| "up_row INTERLEAVED width i = 2 * i + 1"

lemma shifted_image: "(\<lambda>i. f (start + i)) ` {0 ..< len} = f ` {start ..< start + len}" for start :: int
proof -
  have "(+) start ` {0 ..< len} = {start ..< start + len}" by (simp add: add.commute)
  then show ?thesis by (metis (no_types, lifting) image_image image_cong)
qed

lemma row_slices_Inr:
  assumes "row_slices order axis width start len = Inr (g, u)"
  shows "set (slice_positions g) = gate_row order ` {start ..< start + len}"
    and "set (slice_positions u) = up_row order width ` {start ..< start + len}"
proof -
  have "set (slice_positions g) = (\<lambda>i. gate_row order (start + i)) ` {0 ..< len}"
    and "set (slice_positions u) = (\<lambda>i. up_row order width (start + i)) ` {0 ..< len}"
    using assms
    by (cases order; auto simp: row_slices_def slice_positions_set rbind_Inr_iff TensorSlice_def algebra_simps
                        split: if_splits)+
  then show "set (slice_positions g) = gate_row order ` {start ..< start + len}"
    and "set (slice_positions u) = up_row order width ` {start ..< start + len}"
    by (simp_all add: shifted_image)
qed

lemma gate_up_rows_disjoint:
  "gate_row order ` {0 ..< width} \<inter> up_row order width ` {0 ..< width} = {}"
proof -
  have "2 * i \<noteq> 2 * j + (1::int)" for i j by presburger
  then show ?thesis by (cases order) auto
qed

lemma gate_up_rows_cover:
  "gate_row order ` {0 ..< width} \<union> up_row order width ` {0 ..< width} = {0 ..< 2 * width}"
proof (intro subset_antisym subsetI)
  fix x
  assume x: "x \<in> {0 ..< 2 * width}"
  show "x \<in> gate_row order ` {0 ..< width} \<union> up_row order width ` {0 ..< width}"
  proof (cases order)
    case CONCATENATED
    show ?thesis
    proof (cases "x < width")
      case True
      with x CONCATENATED show ?thesis by auto
    next
      case False
      with x have "x = up_row CONCATENATED width (x - width)" "x - width \<in> {0 ..< width}" by auto
      with CONCATENATED show ?thesis by blast
    qed
  next
    case INTERLEAVED
    show ?thesis
    proof (cases "even x")
      case True
      with x have "x = gate_row INTERLEAVED (x div 2)" "x div 2 \<in> {0 ..< width}" by auto
      with INTERLEAVED show ?thesis by blast
    next
      case False
      with x have "x = up_row INTERLEAVED width (x div 2)" "x div 2 \<in> {0 ..< width}" by auto
      with INTERLEAVED show ?thesis by blast
    qed
  qed
qed (cases order; auto)

text \<open>
  C36: In either physical ordering, selecting the whole intermediate width splits the fused gate/up rows
  exactly: gate and up select disjoint rows and together every row of the fused projection.
\<close>

theorem row_slices_partition:
  assumes "row_slices order axis width 0 width = Inr (g, u)"
  shows "set (slice_positions g) \<inter> set (slice_positions u) = {} \<and>
         set (slice_positions g) \<union> set (slice_positions u) = {0 ..< 2 * width}"
  using row_slices_Inr [OF assms] gate_up_rows_disjoint gate_up_rows_cover by simp

theorem row_slices_partition_witness:
  "row_slices INTERLEAVED 0 3 0 3 =
     Inr (\<lparr>slice_axis = 0, slice_start = 0, slice_length = 3, slice_step = 2\<rparr>,
          \<lparr>slice_axis = 0, slice_start = 1, slice_length = 3, slice_step = 2\<rparr>) \<and>
   set (slice_positions \<lparr>slice_axis = 0, slice_start = 0, slice_length = 3, slice_step = 2\<rparr>) \<union>
   set (slice_positions \<lparr>slice_axis = 0, slice_start = 1, slice_length = 3, slice_step = 2\<rparr>) = {0 ..< 6}"
proof -
  have h: "row_slices INTERLEAVED 0 3 0 3 =
     Inr (\<lparr>slice_axis = 0, slice_start = 0, slice_length = 3, slice_step = 2\<rparr>,
          \<lparr>slice_axis = 0, slice_start = 1, slice_length = 3, slice_step = 2\<rparr>)"
    by (simp add: row_slices_def TensorSlice_def)
  then show ?thesis using row_slices_partition [OF h] by simp
qed

end
