(* ===== verification/Config.thy ===== *)
theory Config
  imports Prelude
begin

section \<open>The deployment configuration\<close>

text \<open>
  Models the deployment model of \<^verbatim>\<open>src/xpool/config.py\<close> and the model identity of
  \<^verbatim>\<open>src/xpool/model.py\<close>: the fields the control plane reads, their validators in the order pydantic
  runs them (field constraints, field validators, then the model validators in declaration order) and
  the derived views. \<^verbatim>\<open>Path.expanduser\<close>, \<^verbatim>\<open>Path.resolve\<close> and \<^verbatim>\<open>ipaddress\<close> depend on the host and are
  parameters. The registry that merges TOML, environment and command line is not modelled.
\<close>

subsection \<open>Model identities\<close>

type_synonym model_id = string

definition identity_char :: "char \<Rightarrow> bool" where
  "identity_char c \<longleftrightarrow>
     c \<in> set ''ABCDEFGHIJKLMNOPQRSTUVWXYZabcdefghijklmnopqrstuvwxyz0123456789_.-''"

text \<open>\<^verbatim>\<open>str.split("/")\<close>.\<close>

fun split_slash :: "string \<Rightarrow> string list" where
  "split_slash [] = [[]]"
| "split_slash (c # cs) =
     (if c = CHR ''/'' then [] # split_slash cs
      else case split_slash cs of [] \<Rightarrow> [[c]] | w # ws \<Rightarrow> (c # w) # ws)"

definition validate_identity :: "string \<Rightarrow> model_id result" where
  "validate_identity value =
     (let parts = split_slash value
      in if length parts = 2 \<and> (\<forall>part\<in>set parts. part \<noteq> [] \<and> (\<forall>c\<in>set part. identity_char c))
            \<and> \<not> (\<exists>part\<in>set parts. part = ''.'' \<or> part = ''..'')
         then Inr value
         else Inl (ValueError ''model ID must be namespace/name''))"

definition model_namespace :: "model_id \<Rightarrow> string" where
  "model_namespace m = split_slash m ! 0"

definition model_name :: "model_id \<Rightarrow> string" where
  "model_name m = split_slash m ! 1"

definition relative_path :: "model_id \<Rightarrow> string" where
  "relative_path m = model_namespace m @ ''/'' @ model_name m"

subsection \<open>Sections of the configuration\<close>

datatype ffn_scheduling_policy = FIFO | RANDOM

record latency_slo_config =
  ttft_ms :: real
  tbt_ms :: real

definition LatencySloConfig :: "latency_slo_config \<Rightarrow> latency_slo_config result" where
  "LatencySloConfig s =
     (if ttft_ms s \<le> 0 \<or> tbt_ms s \<le> 0 then Inl (ValueError ''field constraint'') else Inr s)"

record scheduler_config =
  ffn_concurrency :: int
  ffn_policy :: ffn_scheduling_policy
  ffn_random_seed :: "int option"
  scheduler_slo :: latency_slo_config

definition SchedulerConfig :: "scheduler_config \<Rightarrow> scheduler_config result" where
  "SchedulerConfig s =
     (if ffn_concurrency s < 1 \<or> \<not> is_ok (LatencySloConfig (scheduler_slo s))
         \<or> (case ffn_random_seed s of None \<Rightarrow> False | Some seed \<Rightarrow> seed < 1 \<or> UINT64_MAX < seed)
      then Inl (ValueError ''field constraint'')
      else if ffn_policy s = FIFO \<and> ffn_random_seed s \<noteq> None
      then Inl (ValueError ''scheduler.ffn_random_seed is valid only when scheduler.ffn_policy is random'')
      else Inr s)"

record daemon_config =
  daemon_host :: string
  daemon_port :: int

definition validate_loopback_host :: "(string \<Rightarrow> bool option) \<Rightarrow> string \<Rightarrow> unit result" where
  "validate_loopback_host ip_is_loopback host =
     (if host = ''localhost'' then Inr ()
      else case ip_is_loopback host of
             Some True \<Rightarrow> Inr ()
           | _ \<Rightarrow> Inl (ValueError ''daemon.host must be localhost or a loopback IP address''))"

definition XpoolDaemonConfig :: "(string \<Rightarrow> bool option) \<Rightarrow> daemon_config \<Rightarrow> daemon_config result" where
  "XpoolDaemonConfig ip_is_loopback d =
     (if daemon_port d < 1 \<or> 65535 < daemon_port d then Inl (ValueError ''field constraint'')
      else rbind (validate_loopback_host ip_is_loopback (daemon_host d)) (\<lambda>_. Inr d))"

record atn_config =
  atn_devices :: "int list"
  device_memory_utilization :: real

definition AtnConfig :: "atn_config \<Rightarrow> atn_config result" where
  "AtnConfig a =
     (if atn_devices a = [] \<or> device_memory_utilization a \<le> 0 \<or> 1 \<le> device_memory_utilization a
      then Inl (ValueError ''field constraint'')
      else if atn_devices a \<noteq> map int [0..<length (atn_devices a)]
      then Inl (ValueError ''attention devices must be consecutive indices starting at zero'')
      else Inr a)"

record ffn_config =
  ffn_devices :: "int list"
  device_memory_calibration :: "string option"
  device_memory_extra_margin_bytes :: int
  loader_parallelism :: int
  placement_parallelism :: int
  placement_timeout_seconds :: int

definition is_absolute :: "string \<Rightarrow> bool" where
  "is_absolute p = (case p of [] \<Rightarrow> False | c # _ \<Rightarrow> c = CHR ''/'')"

definition FfnConfig :: "(string \<Rightarrow> string) \<Rightarrow> ffn_config \<Rightarrow> ffn_config result" where
  "FfnConfig expanduser f =
     (if ffn_devices f = [] \<or> device_memory_extra_margin_bytes f < 0 \<or> loader_parallelism f < 1
         \<or> placement_parallelism f < 1 \<or> placement_timeout_seconds f < 1
      then Inl (ValueError ''field constraint'')
      else if hd (ffn_devices f) < 0
              \<or> ffn_devices f \<noteq> map (\<lambda>i. hd (ffn_devices f) + int i) [0..<length (ffn_devices f)]
      then Inl (ValueError ''FFN devices must be nonnegative consecutive indices'')
      else case device_memory_calibration f of
             None \<Rightarrow> Inr f
           | Some p \<Rightarrow>
               if \<not> is_absolute (expanduser p)
               then Inl (ValueError ''ffn.device_memory_calibration must be absolute'')
               else Inr (f\<lparr>device_memory_calibration := Some (expanduser p)\<rparr>))"

definition validate_device_layout :: "atn_config \<Rightarrow> ffn_config \<Rightarrow> unit result" where
  "validate_device_layout atn ffn =
     rbind (index_at (ffn_devices ffn) 0) (\<lambda>first.
       if first \<noteq> int (length (atn_devices atn))
       then Inl (ValueError ''FFN devices must immediately follow the attention device block'')
       else Inr ())"

record model_config =
  cfg_id :: model_id
  cfg_path :: "string option"
  cfg_atn_tp_size :: "int option"
  cfg_atn_dp_size :: int
  cfg_ffn_tp_size :: "int option"
  cfg_slo :: "latency_slo_config option"

definition ModelConfig :: "(string \<Rightarrow> string) \<Rightarrow> model_config \<Rightarrow> model_config result" where
  "ModelConfig expanduser m =
     (if \<not> is_ok (validate_identity (cfg_id m)) \<or> cfg_atn_dp_size m < 1
         \<or> (case cfg_atn_tp_size m of None \<Rightarrow> False | Some tp \<Rightarrow> tp < 1)
         \<or> (case cfg_ffn_tp_size m of None \<Rightarrow> False | Some tp \<Rightarrow> tp < 1)
         \<or> (case cfg_slo m of None \<Rightarrow> False | Some slo \<Rightarrow> \<not> is_ok (LatencySloConfig slo))
      then Inl (ValueError ''field constraint'')
      else case cfg_path m of
             None \<Rightarrow> Inr m
           | Some p \<Rightarrow>
               if \<not> is_absolute (expanduser p) then Inl (ValueError ''models[].path must be absolute'')
               else Inr (m\<lparr>cfg_path := Some (expanduser p)\<rparr>))"

subsection \<open>Observer switches\<close>

text \<open>
  The five debug observers share one rule: an observer is enabled exactly when it has an output
  directory, and a configured directory is made absolute. \<open>cwd\<close> and \<open>resolve\<close> are the host's.
\<close>

record observer_config =
  observer_enable :: bool
  observer_outdir :: "string option"

definition validate_observer ::
    "(string \<Rightarrow> string) \<Rightarrow> (string \<Rightarrow> string) \<Rightarrow> string \<Rightarrow> observer_config \<Rightarrow> observer_config result" where
  "validate_observer expanduser resolve cwd o1 =
     (if observer_enable o1 \<noteq> (observer_outdir o1 \<noteq> None)
      then Inl (ValueError ''enable and outdir must be set or unset together'')
      else case observer_outdir o1 of
             None \<Rightarrow> Inr o1
           | Some p \<Rightarrow>
               let outdir = expanduser p
               in Inr (o1\<lparr>observer_outdir :=
                     Some (resolve (if is_absolute outdir then outdir else cwd @ ''/'' @ outdir))\<rparr>))"

definition GraphObserverDebugConfig ::
    "(string \<Rightarrow> string) \<Rightarrow> (string \<Rightarrow> string) \<Rightarrow> string \<Rightarrow> observer_config \<Rightarrow> observer_config result" where
  "GraphObserverDebugConfig expanduser resolve cwd o1 = validate_observer expanduser resolve cwd o1"

definition PrefillLogitObserverDebugConfig ::
    "(string \<Rightarrow> string) \<Rightarrow> (string \<Rightarrow> string) \<Rightarrow> string \<Rightarrow> observer_config \<Rightarrow> observer_config result" where
  "PrefillLogitObserverDebugConfig expanduser resolve cwd o1 = validate_observer expanduser resolve cwd o1"

text \<open>Three observers also bound the number of records they retain.\<close>

record trace_observer_config =
  trace_observer :: observer_config
  record_capacity :: int

definition validate_trace_observer ::
    "(string \<Rightarrow> string) \<Rightarrow> (string \<Rightarrow> string) \<Rightarrow> string \<Rightarrow> trace_observer_config \<Rightarrow> trace_observer_config result" where
  "validate_trace_observer expanduser resolve cwd t =
     (if record_capacity t \<le> 0 \<or> SINT64_MAX < record_capacity t then Inl (ValueError ''field constraint'')
      else rbind (validate_observer expanduser resolve cwd (trace_observer t)) (\<lambda>o1. Inr (t\<lparr>trace_observer := o1\<rparr>)))"

definition TransportObserverDebugConfig ::
    "(string \<Rightarrow> string) \<Rightarrow> (string \<Rightarrow> string) \<Rightarrow> string \<Rightarrow> trace_observer_config \<Rightarrow> trace_observer_config result" where
  "TransportObserverDebugConfig expanduser resolve cwd t = validate_trace_observer expanduser resolve cwd t"

definition FabricObserverDebugConfig ::
    "(string \<Rightarrow> string) \<Rightarrow> (string \<Rightarrow> string) \<Rightarrow> string \<Rightarrow> trace_observer_config \<Rightarrow> trace_observer_config result" where
  "FabricObserverDebugConfig expanduser resolve cwd t = validate_trace_observer expanduser resolve cwd t"

definition FfnRoutingObserverDebugConfig ::
    "(string \<Rightarrow> string) \<Rightarrow> (string \<Rightarrow> string) \<Rightarrow> string \<Rightarrow> trace_observer_config \<Rightarrow> trace_observer_config result" where
  "FfnRoutingObserverDebugConfig expanduser resolve cwd t = validate_trace_observer expanduser resolve cwd t"

record debug_config =
  graph_observer :: observer_config
  prefill_logit_observer :: observer_config
  transport_observer :: trace_observer_config
  fabric_observer :: trace_observer_config
  ffn_routing_observer :: trace_observer_config

definition DebugConfig ::
    "(string \<Rightarrow> string) \<Rightarrow> (string \<Rightarrow> string) \<Rightarrow> string \<Rightarrow> debug_config \<Rightarrow> debug_config result" where
  "DebugConfig expanduser resolve cwd d =
     rbind (GraphObserverDebugConfig expanduser resolve cwd (graph_observer d)) (\<lambda>g.
     rbind (PrefillLogitObserverDebugConfig expanduser resolve cwd (prefill_logit_observer d)) (\<lambda>p.
     rbind (TransportObserverDebugConfig expanduser resolve cwd (transport_observer d)) (\<lambda>t.
     rbind (FabricObserverDebugConfig expanduser resolve cwd (fabric_observer d)) (\<lambda>f.
     rbind (FfnRoutingObserverDebugConfig expanduser resolve cwd (ffn_routing_observer d)) (\<lambda>r.
       Inr \<lparr>graph_observer = g, prefill_logit_observer = p, transport_observer = t, fabric_observer = f,
            ffn_routing_observer = r\<rparr>)))))"

definition VendorConfig :: "(string \<Rightarrow> string) \<Rightarrow> string option \<Rightarrow> string option result" where
  "VendorConfig expanduser base =
     (case base of
        None \<Rightarrow> Inr None
      | Some p \<Rightarrow>
          if \<not> is_absolute (expanduser p) then Inl (ValueError ''vendor.model_base_uri must be absolute'')
          else Inr (Some (expanduser p)))"

subsection \<open>The whole configuration\<close>

record xpool_config =
  cfg_daemon :: daemon_config
  cfg_debug :: debug_config
  cfg_scheduler :: scheduler_config
  cfg_atn :: atn_config
  cfg_ffn :: ffn_config
  model_base_uri :: "string option"
  cfg_models :: "model_config list"

definition config_devices :: "xpool_config \<Rightarrow> int list" where
  "config_devices c = atn_devices (cfg_atn c) @ ffn_devices (cfg_ffn c)"

record agent_config =
  agent_device :: int
  agent_rank :: nat

definition agents_of :: "int list \<Rightarrow> agent_config list" where
  "agents_of devices = map (\<lambda>(rank, device). \<lparr>agent_device = device, agent_rank = rank\<rparr>) (enumerate 0 devices)"

definition atnagents :: "xpool_config \<Rightarrow> agent_config list" where
  "atnagents c = agents_of (atn_devices (cfg_atn c))"

definition ffnagents :: "xpool_config \<Rightarrow> agent_config list" where
  "ffnagents c = agents_of (ffn_devices (cfg_ffn c))"

definition atnagent_by_device :: "xpool_config \<Rightarrow> (int, agent_config) dict" where
  "atnagent_by_device c = dict_of (map (\<lambda>a. (agent_device a, a)) (atnagents c)) []"

definition ffnagent_by_device :: "xpool_config \<Rightarrow> (int, agent_config) dict" where
  "ffnagent_by_device c = dict_of (map (\<lambda>a. (agent_device a, a)) (ffnagents c)) []"

record instance_config =
  inst_model_id :: model_id
  instance_index :: nat

definition config_instances :: "xpool_config \<Rightarrow> instance_config list" where
  "config_instances c =
     map (\<lambda>(i, m). \<lparr>inst_model_id = cfg_id m, instance_index = i\<rparr>) (enumerate 0 (cfg_models c))"

definition instance_by_model_id :: "xpool_config \<Rightarrow> (model_id, instance_config) dict" where
  "instance_by_model_id c = dict_of (map (\<lambda>i. (inst_model_id i, i)) (config_instances c)) []"

definition model_by_id :: "xpool_config \<Rightarrow> (model_id, model_config) dict" where
  "model_by_id c = dict_of (map (\<lambda>m. (cfg_id m, m)) (cfg_models c)) []"

definition atn_world_size :: "xpool_config \<Rightarrow> int" where
  "atn_world_size c = int (length (atn_devices (cfg_atn c)))"

definition atn_tp_size_of :: "xpool_config \<Rightarrow> model_id \<Rightarrow> int result" where
  "atn_tp_size_of c model_id =
     (case dict_get (model_by_id c) model_id of
        None \<Rightarrow> Inl KeyError
      | Some m \<Rightarrow>
          Inr (case cfg_atn_tp_size m of
                 Some tp \<Rightarrow> tp
               | None \<Rightarrow> atn_world_size c div cfg_atn_dp_size m))"

fun validate_worlds :: "xpool_config \<Rightarrow> model_config list \<Rightarrow> unit result" where
  "validate_worlds c [] = Inr ()"
| "validate_worlds c (m # ms) =
     (if atn_world_size c mod cfg_atn_dp_size m \<noteq> 0
      then Inl (ValueError ''attention DP must divide the configured attention World'')
      else rbind (atn_tp_size_of c (cfg_id m)) (\<lambda>tp.
        if tp * cfg_atn_dp_size m \<noteq> atn_world_size c
        then Inl (ValueError ''attention TP times DP must equal the configured attention World'')
        else validate_worlds c ms))"

definition validate_device_assignments :: "xpool_config \<Rightarrow> unit result" where
  "validate_device_assignments c =
     rbind (validate_device_layout (cfg_atn c) (cfg_ffn c)) (\<lambda>_. validate_worlds c (cfg_models c))"

fun model_path_in :: "xpool_config \<Rightarrow> model_id \<Rightarrow> model_config list \<Rightarrow> string result" where
  "model_path_in c model_id [] = Inl (ValueError ''unknown configured model id'')"
| "model_path_in c model_id (m # ms) =
     (if cfg_id m \<noteq> model_id then model_path_in c model_id ms
      else case cfg_path m of
             Some p \<Rightarrow> Inr p
           | None \<Rightarrow>
               (case model_base_uri c of
                  None \<Rightarrow> Inl (ValueError ''missing required model path'')
                | Some base \<Rightarrow> Inr (base @ ''/'' @ relative_path (cfg_id m))))"

definition model_path_of :: "xpool_config \<Rightarrow> model_id \<Rightarrow> string result" where
  "model_path_of c model_id = model_path_in c model_id (cfg_models c)"

fun collect_model_paths ::
    "xpool_config \<Rightarrow> model_config list \<Rightarrow> (model_id, string) dict \<Rightarrow> (model_id, string) dict result" where
  "collect_model_paths c [] seen = Inr seen"
| "collect_model_paths c (m # ms) seen =
     (if dict_get seen (cfg_id m) \<noteq> None then Inl (ValueError ''model ids must be unique'')
      else rbind (model_path_of c (cfg_id m)) (\<lambda>p.
        collect_model_paths c ms (dict_set (cfg_id m) p seen)))"

definition validate_references :: "(string \<Rightarrow> string) \<Rightarrow> xpool_config \<Rightarrow> unit result" where
  "validate_references resolve c =
     rbind (collect_model_paths c (cfg_models c) []) (\<lambda>paths.
       if \<not> distinct (map resolve (dict_values paths)) then Inl (ValueError ''model paths must be unique'')
       else Inr ())"

text \<open>
  \<^verbatim>\<open>XpoolConfig\<close> of a payload whose sections are still raw: each section's validator, then the two
  model validators of the whole.
\<close>

definition XpoolConfig ::
    "(string \<Rightarrow> string) \<Rightarrow> (string \<Rightarrow> string) \<Rightarrow> string \<Rightarrow> (string \<Rightarrow> bool option) \<Rightarrow> xpool_config \<Rightarrow> xpool_config result" where
  "XpoolConfig expanduser resolve cwd ip_is_loopback c =
     rbind (XpoolDaemonConfig ip_is_loopback (cfg_daemon c)) (\<lambda>daemon.
     rbind (SchedulerConfig (cfg_scheduler c)) (\<lambda>sch.
     rbind (AtnConfig (cfg_atn c)) (\<lambda>atn.
     rbind (FfnConfig expanduser (cfg_ffn c)) (\<lambda>ffn.
     rbind (DebugConfig expanduser resolve cwd (cfg_debug c)) (\<lambda>debug.
     rbind (VendorConfig expanduser (model_base_uri c)) (\<lambda>base.
     if cfg_models c = [] then Inl (ValueError ''field constraint'') else
     rbind (rmap (ModelConfig expanduser) (cfg_models c)) (\<lambda>models.
       let c' = c\<lparr>cfg_daemon := daemon, cfg_debug := debug, cfg_scheduler := sch, cfg_atn := atn, cfg_ffn := ffn,
                  model_base_uri := base, cfg_models := models\<rparr>
       in rbind (validate_device_assignments c') (\<lambda>_.
          rbind (validate_references resolve c') (\<lambda>_. Inr c')))))))))"

subsection \<open>The process-global configuration\<close>

text \<open>
  \<^verbatim>\<open>init_global_config\<close> once the effective path was found and the file resolved: the first configuration
  is installed, an equal one later returns the installed one, a different one is refused. Equality of
  the JSON dumps is equality of the configurations.
\<close>

definition init_global_config :: "xpool_config \<Rightarrow> (xpool_config option, xpool_config) op" where
  "init_global_config resolved installed =
     (case installed of
        Some config \<Rightarrow>
          if config \<noteq> resolved
          then raise (ValueError ''xpool global config is already initialized with different values'') installed
          else ret config installed
      | None \<Rightarrow> ret resolved (Some resolved))"

definition get_global_config :: "(xpool_config option, xpool_config) op" where
  "get_global_config installed =
     (case installed of
        None \<Rightarrow> raise (ValueError ''xpool global config has not been loaded'') installed
      | Some config \<Rightarrow> ret config installed)"

section \<open>What a validated configuration guarantees\<close>

text \<open>
  The facts the rest of the development uses of a configuration, gathered once: one device block with
  the attention devices first, unique model identities, and every model's attention World complete.
\<close>

definition config_ok :: "xpool_config \<Rightarrow> bool" where
  "config_ok c \<longleftrightarrow>
     atn_devices (cfg_atn c) \<noteq> [] \<and> ffn_devices (cfg_ffn c) \<noteq> []
     \<and> config_devices c = map int [0..<length (config_devices c)]
     \<and> distinct (map cfg_id (cfg_models c)) \<and> cfg_models c \<noteq> []
     \<and> (\<forall>m\<in>set (cfg_models c). 1 \<le> cfg_atn_dp_size m \<and>
          (\<exists>tp. atn_tp_size_of c (cfg_id m) = Inr tp \<and> 1 \<le> tp \<and> tp * cfg_atn_dp_size m = atn_world_size c))"

lemma collect_model_paths_distinct:
  assumes "collect_model_paths c ms seen = Inr paths" and "distinct (map fst seen)"
  shows "distinct (map cfg_id ms) \<and> (\<forall>m\<in>set ms. dict_get seen (cfg_id m) = None)"
  using assms
proof (induction ms arbitrary: seen)
  case (Cons m ms)
  from Cons.prems(1) have new: "dict_get seen (cfg_id m) = None"
    by (simp split: if_splits)
  with Cons.prems(1) obtain p where rest: "collect_model_paths c ms (dict_set (cfg_id m) p seen) = Inr paths"
    by (auto simp: rbind_Inr_iff)
  have "distinct (map cfg_id ms) \<and> (\<forall>m'\<in>set ms. dict_get (dict_set (cfg_id m) p seen) (cfg_id m') = None)"
    using Cons.IH [OF rest] Cons.prems(2) by (simp add: distinct_update)
  with new show ?case by (auto split: if_splits)
qed simp

lemma validate_worlds_Inr:
  assumes "validate_worlds c ms = Inr u" and "m \<in> set ms"
  shows "\<exists>tp. atn_tp_size_of c (cfg_id m) = Inr tp \<and> tp * cfg_atn_dp_size m = atn_world_size c"
  using assms by (induction ms) (auto simp: rbind_Inr_iff split: if_splits)

lemma device_blocks_join:
  assumes "a = map int [0..<length a]" and "f = map (\<lambda>i. int (length a) + int i) [0..<length f]"
  shows "a @ f = map int [0..<length (a @ f)]"
proof -
  have "map int [0..<length (a @ f)] = map int [0..<length a] @ map int [length a..<length a + length f]"
    using upt_add_eq_append [of 0 "length a" "length f"] by simp
  also have "map int [length a..<length a + length f] = map (\<lambda>i. int (length a) + int i) [0..<length f]"
    by (rule nth_equalityI) auto
  finally show ?thesis using assms by metis
qed

lemma ModelConfig_Inr:
  "ModelConfig expanduser m = Inr m' \<Longrightarrow>
     1 \<le> cfg_atn_dp_size m' \<and> (\<forall>tp. cfg_atn_tp_size m' = Some tp \<longrightarrow> 1 \<le> tp)"
  by (auto simp: ModelConfig_def split: if_splits option.splits)

lemma model_by_id_in:
  assumes "dict_get (model_by_id c) k = Some m"
  shows "m \<in> set (cfg_models c) \<and> cfg_id m = k"
  using assms unfolding model_by_id_def map_of_dict_of
  by (auto split: option.splits dest!: map_of_SomeD simp: rev_map)

lemma tp_positive:
  assumes "atn_tp_size_of c k = Inr tp" and "tp * dp = atn_world_size c" and "atn_devices (cfg_atn c) \<noteq> []"
    and "1 \<le> dp"
  shows "1 \<le> tp"
proof -
  have "0 < tp * dp" using assms(2,3) by (simp add: atn_world_size_def)
  with assms(4) show ?thesis by (simp add: zero_less_mult_iff)
qed

lemma XpoolConfig_ok:
  assumes "XpoolConfig expanduser resolve cwd ip_is_loopback raw = Inr c"
  shows "config_ok c"
proof -
  from assms obtain atn ffn models where
      atn: "AtnConfig (cfg_atn raw) = Inr atn" and ffn: "FfnConfig expanduser (cfg_ffn raw) = Inr ffn"
    and models: "rmap (ModelConfig expanduser) (cfg_models raw) = Inr models" and nonempty: "cfg_models raw \<noteq> []"
    and da: "is_ok (validate_device_assignments c)" and refs: "is_ok (validate_references resolve c)"
    and c: "cfg_atn c = atn" "cfg_ffn c = ffn" "cfg_models c = models"
    unfolding XpoolConfig_def Let_def by (auto simp: rbind_Inr_iff split: if_splits)
  have a: "atn_devices atn \<noteq> []" "atn_devices atn = map int [0..<length (atn_devices atn)]"
    using atn by (auto simp: AtnConfig_def split: if_splits)
  have f: "ffn_devices ffn \<noteq> []"
      "ffn_devices ffn = map (\<lambda>i. hd (ffn_devices ffn) + int i) [0..<length (ffn_devices ffn)]"
    using ffn by (auto simp: FfnConfig_def split: if_splits option.splits)
  obtain u where worlds: "validate_worlds c models = Inr u" and layout: "is_ok (validate_device_layout atn ffn)"
    using da c by (auto simp: validate_device_assignments_def is_ok_iff rbind_Inr_iff)
  have "hd (ffn_devices ffn) = int (length (atn_devices atn))"
    using layout f by (auto simp: validate_device_layout_def is_ok_iff rbind_Inr_iff index_at_def hd_conv_nth
                            split: if_splits)
  then have devices: "config_devices c = map int [0..<length (config_devices c)]"
    unfolding config_devices_def c using a(2) f(2) by (intro device_blocks_join) auto
  have distinct: "distinct (map cfg_id models)"
    using refs c collect_model_paths_distinct [of c models "[]"]
    by (auto simp: validate_references_def is_ok_iff rbind_Inr_iff)
  have "models \<noteq> []" using models nonempty by (auto dest: rmap_length)
  moreover have "1 \<le> cfg_atn_dp_size m" if "m \<in> set models" for m
    using models that by (auto simp: rmap_Inr_iff in_set_conv_nth dest!: ModelConfig_Inr)
  ultimately show ?thesis
    unfolding config_ok_def
    using a(1) f(1) devices distinct validate_worlds_Inr [OF worlds] tp_positive c by metis
qed

text \<open>
  C34: A configuration that validates lays its devices out as one block \<^verbatim>\<open>0..n-1\<close> with the attention
  devices first, has unique model identities, and gives every model an attention TP width of at least
  one whose product with the DP width is exactly the attention World.
\<close>

theorem validated_configuration_layout:
  assumes "XpoolConfig expanduser resolve cwd ip_is_loopback raw = Inr c"
  shows "config_devices c = map int [0..<length (config_devices c)]
     \<and> distinct (map cfg_id (cfg_models c))
     \<and> (\<forall>m\<in>set (cfg_models c). \<exists>tp. atn_tp_size_of c (cfg_id m) = Inr tp \<and> 1 \<le> tp
           \<and> tp * cfg_atn_dp_size m = atn_world_size c)"
  using XpoolConfig_ok [OF assms] by (auto simp: config_ok_def)

definition sample_config :: xpool_config where
  "sample_config =
     \<lparr>cfg_daemon = \<lparr>daemon_host = ''localhost'', daemon_port = 8000\<rparr>,
      cfg_debug = (let off = \<lparr>observer_enable = False, observer_outdir = None\<rparr>;
                       trace = \<lparr>trace_observer = off, record_capacity = 8\<rparr>
                   in \<lparr>graph_observer = off, prefill_logit_observer = off, transport_observer = trace,
                        fabric_observer = trace, ffn_routing_observer = trace\<rparr>),
      cfg_scheduler = \<lparr>ffn_concurrency = 1, ffn_policy = FIFO, ffn_random_seed = None,
                         scheduler_slo = \<lparr>ttft_ms = 1000, tbt_ms = 50\<rparr>\<rparr>,
      cfg_atn = \<lparr>atn_devices = [0, 1], device_memory_utilization = 1 / 2\<rparr>,
      cfg_ffn = \<lparr>ffn_devices = [2], device_memory_calibration = None, device_memory_extra_margin_bytes = 0,
                   loader_parallelism = 4, placement_parallelism = 4, placement_timeout_seconds = 60\<rparr>,
      model_base_uri = Some ''/m'',
      cfg_models = [\<lparr>cfg_id = ''a/b'', cfg_path = None, cfg_atn_tp_size = None, cfg_atn_dp_size = 1,
                       cfg_ffn_tp_size = None, cfg_slo = None\<rparr>]\<rparr>"

lemma sample_identity: "is_ok (validate_identity ''a/b'')"
  by code_simp

lemma sample_config_valid: "XpoolConfig id id ''/'' (\<lambda>_. None) sample_config = Inr sample_config"
  by (simp add: sample_config_def XpoolConfig_def SchedulerConfig_def AtnConfig_def FfnConfig_def
        ModelConfig_def validate_device_assignments_def validate_device_layout_def index_at_def
        atn_world_size_def atn_tp_size_of_def model_by_id_def validate_references_def model_path_of_def
        relative_path_def model_namespace_def model_name_def upt_rec UINT64_MAX_def SINT64_MAX_def XpoolDaemonConfig_def
        validate_loopback_host_def DebugConfig_def GraphObserverDebugConfig_def PrefillLogitObserverDebugConfig_def
        TransportObserverDebugConfig_def FabricObserverDebugConfig_def FfnRoutingObserverDebugConfig_def
        validate_trace_observer_def validate_observer_def VendorConfig_def is_absolute_def LatencySloConfig_def Let_def sample_identity)

theorem validated_configuration_layout_witness:
  "XpoolConfig id id ''/'' (\<lambda>_. None) sample_config = Inr sample_config \<and>
   config_devices sample_config = map int [0..<length (config_devices sample_config)]"
  using validated_configuration_layout [OF sample_config_valid] sample_config_valid by blast

end
