(* ===== verification/Fabric.thy ===== *)
theory Fabric
  imports Memory Ffn_Spec Config
begin

section \<open>Startup contracts of the FFN fabric\<close>

text \<open>
  Models \<^verbatim>\<open>src/xpool/fabric.py\<close>: the lifecycle phases of a Fabric generation and of its participants,
  generation identities with their hexadecimal form, the instance profile, and the execution plan with
  its validators. The length of an NVSHMEM unique id is a constant of the native library and is the
  parameter \<open>uid_hex_length\<close>.
\<close>

subsection \<open>Lifecycle phases\<close>

datatype fabric_generation_phase =
    Gen_PREPARING_JOIN | Gen_JOINING | Gen_PREPARING_EXECUTION | Gen_ACTIVATING | Gen_EXECUTABLE
  | Gen_QUIESCING | Gen_DRAINING | Gen_FINALIZING | Gen_ABORTING | Gen_STOPPED

fun generation_normal_successor :: "fabric_generation_phase \<Rightarrow> fabric_generation_phase option" where
  "generation_normal_successor Gen_PREPARING_JOIN = Some Gen_JOINING"
| "generation_normal_successor Gen_JOINING = Some Gen_PREPARING_EXECUTION"
| "generation_normal_successor Gen_PREPARING_EXECUTION = Some Gen_ACTIVATING"
| "generation_normal_successor Gen_ACTIVATING = Some Gen_EXECUTABLE"
| "generation_normal_successor Gen_EXECUTABLE = Some Gen_QUIESCING"
| "generation_normal_successor Gen_QUIESCING = Some Gen_DRAINING"
| "generation_normal_successor Gen_DRAINING = Some Gen_FINALIZING"
| "generation_normal_successor Gen_FINALIZING = Some Gen_STOPPED"
| "generation_normal_successor Gen_ABORTING = Some Gen_STOPPED"
| "generation_normal_successor Gen_STOPPED = None"

definition generation_allows :: "fabric_generation_phase \<Rightarrow> fabric_generation_phase \<Rightarrow> bool" where
  "generation_allows phase successor =
     (if successor = Gen_ABORTING then phase \<notin> {Gen_ABORTING, Gen_STOPPED}
      else generation_normal_successor phase = Some successor)"

datatype fabric_participant_phase =
    Part_JOIN_READY | Part_JOINING | Part_JOINED | Part_EXECUTION_READY | Part_ACTIVE
  | Part_QUIESCED | Part_DRAINING | Part_DRAINED | Part_FINALIZED

fun participant_successor :: "fabric_participant_phase \<Rightarrow> fabric_participant_phase option" where
  "participant_successor Part_JOIN_READY = Some Part_JOINING"
| "participant_successor Part_JOINING = Some Part_JOINED"
| "participant_successor Part_JOINED = Some Part_EXECUTION_READY"
| "participant_successor Part_EXECUTION_READY = Some Part_ACTIVE"
| "participant_successor Part_ACTIVE = Some Part_QUIESCED"
| "participant_successor Part_QUIESCED = Some Part_DRAINING"
| "participant_successor Part_DRAINING = Some Part_DRAINED"
| "participant_successor Part_DRAINED = Some Part_FINALIZED"
| "participant_successor Part_FINALIZED = None"

definition participant_allows ::
    "bool \<Rightarrow> fabric_participant_phase \<Rightarrow> fabric_participant_phase \<Rightarrow> bool" where
  "participant_allows aborting phase successor =
     (if aborting \<and> successor = Part_QUIESCED
      then phase \<in> {Part_JOINED, Part_EXECUTION_READY, Part_ACTIVE}
      else participant_successor phase = Some successor)"

subsection \<open>Generation identities\<close>

record fabric_generation_id =
  gen_high :: int
  gen_low :: int

definition FabricGenerationId :: "int \<Rightarrow> int \<Rightarrow> fabric_generation_id result" where
  "FabricGenerationId high low =
     rbind (ensure_uint64 [high, low]) (\<lambda>_.
       if high = 0 \<and> low = 0 then Inl (ValueError ''xpool fabric generation must be nonzero'')
       else Inr \<lparr>gen_high = high, gen_low = low\<rparr>)"

text \<open>
  \<^verbatim>\<open>create\<close> over the sequence of values \<^verbatim>\<open>secrets.randbits(128)\<close> returns: \<open>None\<close> while every draw so
  far was zero, otherwise the first nonzero draw split into its two words.
\<close>

fun create_generation :: "int list \<Rightarrow> fabric_generation_id result option" where
  "create_generation [] = None"
| "create_generation (draw # draws) =
     (if draw = 0 then create_generation draws
      else Some (FabricGenerationId (draw div 2 ^ 64) (draw mod 2 ^ 64)))"

definition hex_alphabet :: string where
  "hex_alphabet = ''0123456789abcdef''"

definition is_hex :: "char \<Rightarrow> bool" where
  "is_hex c = (c \<in> set hex_alphabet)"

definition hex_char :: "nat \<Rightarrow> char" where
  "hex_char d = hex_alphabet ! d"

fun index_in :: "'a list \<Rightarrow> 'a \<Rightarrow> nat" where
  "index_in [] y = 0"
| "index_in (x # xs) y = (if x = y then 0 else Suc (index_in xs y))"

definition hex_value :: "char \<Rightarrow> nat" where
  "hex_value c = index_in hex_alphabet c"

text \<open>\<^verbatim>\<open>int(text, 16)\<close> on lowercase digits, and the minimal digits of the format \<^verbatim>\<open>x\<close>.\<close>

definition int_of_hex :: "string \<Rightarrow> nat" where
  "int_of_hex s = foldl (\<lambda>acc c. 16 * acc + hex_value c) 0 s"

fun hex_digits :: "nat \<Rightarrow> string" where
  "hex_digits n = (if n < 16 then [hex_char n] else hex_digits (n div 16) @ [hex_char (n mod 16)])"

declare hex_digits.simps [simp del]

definition format_016x :: "nat \<Rightarrow> string" where
  "format_016x n = (let digits = hex_digits n in replicate (16 - length digits) (CHR ''0'') @ digits)"

definition parse_generation :: "string \<Rightarrow> fabric_generation_id result" where
  "parse_generation value =
     (if length value \<noteq> 32 \<or> (\<exists>c\<in>set value. \<not> is_hex c)
      then Inl (ValueError ''xpool fabric generation must contain 32 lowercase hex characters'')
      else FabricGenerationId (int (int_of_hex (take 16 value))) (int (int_of_hex (drop 16 value))))"

definition format_generation :: "fabric_generation_id \<Rightarrow> string" where
  "format_generation g = format_016x (nat (gen_high g)) @ format_016x (nat (gen_low g))"

type_synonym fabric_uid = string

definition FabricUid :: "nat \<Rightarrow> string \<Rightarrow> fabric_uid result" where
  "FabricUid uid_hex_length value =
     (if length value \<noteq> uid_hex_length
      then Inl (ValueError ''fabric UID must contain the exact count of lowercase hex characters'')
      else if \<exists>c\<in>set value. \<not> is_hex c
      then Inl (ValueError ''fabric UID must contain only lowercase hex characters'')
      else Inr value)"

subsection \<open>Instance profiles\<close>

record instance_ffn_layer_profile =
  lp_layer_id :: int
  lp_kind :: layer_kind

record instance_ffn_profile =
  payload_dtype :: torch_dtype
  hidden_size :: int
  profile_layers :: "instance_ffn_layer_profile list"
  decode_payload_row_capacity :: int
  prefill_payload_row_capacity :: int
  group_sum_complete_admitted :: bool

definition InstanceFfnProfile :: "instance_ffn_profile \<Rightarrow> instance_ffn_profile result" where
  "InstanceFfnProfile p =
     (if hidden_size p < 1 \<or> profile_layers p = [] \<or> decode_payload_row_capacity p < 1
         \<or> prefill_payload_row_capacity p < 1 \<or> (\<exists>layer\<in>set (profile_layers p). lp_layer_id layer < 0)
      then Inl (ValueError ''field constraint'')
      else if payload_dtype p \<notin> {torch_bfloat16, torch_float16}
      then Inl (ValueError ''FFN Instance Profile requires BF16 or FP16 payloads'')
      else if \<not> distinct (map lp_layer_id (profile_layers p))
      then Inl (ValueError ''FFN layer ids must be unique'')
      else Inr p)"

definition require_compatible_model :: "instance_ffn_profile \<Rightarrow> ffn_model_spec \<Rightarrow> unit result" where
  "require_compatible_model p spec =
     (if hidden_size p \<noteq> spec_hidden_size spec
         \<or> map (\<lambda>l. (lp_layer_id l, lp_kind l)) (profile_layers p)
             \<noteq> map (\<lambda>l. (layer_spec_id l, layer_spec_kind l)) (spec_layers spec)
      then Inl (ValueError ''FFN Model disagrees with its Instance Profile'')
      else Inr ())"

subsection \<open>Layer and model plans\<close>

record layer_group =
  ffnagent_indices :: "int list"
  local_intermediate_size :: int

datatype ffn_layer_plan = DenseFfnLayerPlan layer_group | MoeFfnLayerPlan layer_group int

fun plan_group :: "ffn_layer_plan \<Rightarrow> layer_group" where
  "plan_group (DenseFfnLayerPlan g) = g"
| "plan_group (MoeFfnLayerPlan g _) = g"

fun plan_kind :: "ffn_layer_plan \<Rightarrow> layer_kind" where
  "plan_kind (DenseFfnLayerPlan _) = DENSE"
| "plan_kind (MoeFfnLayerPlan _ _) = MOE"

definition validate_layer_group :: "layer_group \<Rightarrow> unit result" where
  "validate_layer_group g =
     (if ffnagent_indices g = [] \<or> local_intermediate_size g < 1
      then Inl (ValueError ''field constraint'')
      else if \<not> distinct (ffnagent_indices g)
      then Inl (ValueError ''FFN layer execution group must not repeat an FfnAgent'')
      else if \<exists>i\<in>set (ffnagent_indices g). i < 0
      then Inl (ValueError ''FfnAgent indices must be nonnegative'')
      else Inr ())"

definition validate_dense_layer_plan :: "layer_group \<Rightarrow> ffn_layer_plan result" where
  "validate_dense_layer_plan g = rbind (validate_layer_group g) (\<lambda>_. Inr (DenseFfnLayerPlan g))"

definition validate_moe_layer_plan :: "layer_group \<Rightarrow> int \<Rightarrow> ffn_layer_plan result" where
  "validate_moe_layer_plan g effective_topk =
     (if effective_topk < 1 then Inl (ValueError ''field constraint'')
      else rbind (validate_layer_group g) (\<lambda>_. Inr (MoeFfnLayerPlan g effective_topk)))"

record ffn_model_plan =
  model_spec_digest :: string
  plan_layers :: "ffn_layer_plan list"

definition plan_tp_size :: "ffn_model_plan \<Rightarrow> nat" where
  "plan_tp_size p = length (ffnagent_indices (plan_group (hd (plan_layers p))))"

definition FfnModelPlan :: "ffn_model_plan \<Rightarrow> ffn_model_plan result" where
  "FfnModelPlan p =
     (if length (model_spec_digest p) \<noteq> 64 \<or> (\<exists>c\<in>set (model_spec_digest p). \<not> is_hex c) \<or> plan_layers p = []
      then Inl (ValueError ''field constraint'')
      else if \<exists>layer\<in>set (plan_layers p). length (ffnagent_indices (plan_group layer)) \<noteq> plan_tp_size p
      then Inl (ValueError ''all FFN Model Plan layers must use one TP width'')
      else Inr p)"

definition place_ffn_layer :: "ffn_layer_spec \<Rightarrow> int list \<Rightarrow> int \<Rightarrow> ffn_layer_plan result" where
  "place_ffn_layer layer execution_group width =
     (if length execution_group = 0 then Inl (ValueError ''FFN execution group must not be empty'')
      else let g = \<lparr>ffnagent_indices = execution_group, local_intermediate_size = width\<rparr>
           in case layer of
                DenseFfnSpec _ \<Rightarrow> validate_dense_layer_plan g
              | MoeFfnSpec m \<Rightarrow> validate_moe_layer_plan g (routed_topk m + shared_expert_count m))"

subsection \<open>Topology, placements and the whole plan\<close>

record instance_rank_topology =
  topo_atn_tp_size :: int
  topo_atn_dp_size :: int
  atnagent_indices :: "int list"

definition InstanceRankTopology :: "instance_rank_topology \<Rightarrow> instance_rank_topology result" where
  "InstanceRankTopology t =
     (if topo_atn_tp_size t < 1 \<or> topo_atn_dp_size t < 1 \<or> atnagent_indices t = []
      then Inl (ValueError ''field constraint'')
      else if topo_atn_tp_size t > 1 \<and> topo_atn_dp_size t > 1
      then Inl (ValueError ''fabric does not support combined attention TP-by-DP'')
      else if int (length (atnagent_indices t)) \<noteq> topo_atn_tp_size t * topo_atn_dp_size t
      then Inl (ValueError ''AtnAgent membership does not match attention topology'')
      else if \<not> distinct (atnagent_indices t)
      then Inl (ValueError ''AtnAgent membership must not contain duplicates'')
      else if \<exists>i\<in>set (atnagent_indices t). i < 0
      then Inl (ValueError ''AtnAgent indices must be nonnegative'')
      else Inr t)"

record fabric_instance_plan =
  ip_model_id :: model_id
  ip_ffn_profile :: instance_ffn_profile
  ip_topology :: instance_rank_topology

datatype fabric_role = Role_ATNAGENT | Role_FFNAGENT

record fabric_pe_placement =
  pe_role :: fabric_role
  pe_device :: int

definition validate_order :: "fabric_pe_placement list \<Rightarrow> (nat \<times> nat) result" where
  "validate_order placements =
     (let atnagent_count = length (filter (\<lambda>p. pe_role p = Role_ATNAGENT) placements);
          ffnagent_count = length placements - atnagent_count
      in if atnagent_count = 0 \<or> ffnagent_count = 0
         then Inl (ValueError ''fabric placements require both AtnAgent and FfnAgent PEs'')
         else if map pe_role placements
                 \<noteq> replicate atnagent_count Role_ATNAGENT @ replicate ffnagent_count Role_FFNAGENT
         then Inl (ValueError ''fabric placements must use an AtnAgent prefix and FfnAgent suffix'')
         else Inr (atnagent_count, ffnagent_count))"

datatype ffn_scheduler_policy = FifoSchedulerPolicy | RandomSchedulerPolicy int

record fabric_plan =
  fp_generation :: fabric_generation_id
  fp_uid :: fabric_uid
  ffn_execution_contracts :: "ffn_execution_contract list"
  pe_placements :: "fabric_pe_placement list"
  executor_lane_count :: int
  fp_scheduler :: ffn_scheduler_policy
  model_plans :: "ffn_model_plan list"
  instance_plans :: "fabric_instance_plan list"

definition validate_instance_pair ::
    "nat \<Rightarrow> nat \<Rightarrow> ffn_model_plan \<times> fabric_instance_plan \<Rightarrow> unit result" where
  "validate_instance_pair atnagent_count ffnagent_count pair =
     (let (model_plan, instance_plan) = pair;
          profile = ip_ffn_profile instance_plan;
          topology = ip_topology instance_plan
      in if \<exists>i\<in>set (atnagent_indices topology). i \<ge> int atnagent_count
         then Inl (ValueError ''Instance topology contains an out-of-range AtnAgent index'')
         else if \<exists>layer\<in>set (plan_layers model_plan).
                   \<exists>i\<in>set (ffnagent_indices (plan_group layer)). i \<ge> int ffnagent_count
         then Inl (ValueError ''FFN Layer Execution Group contains an out-of-range FfnAgent index'')
         else if length (plan_layers model_plan) \<noteq> length (profile_layers profile)
         then Inl (ValueError ''Model Plan and Instance FFN Profile layer counts differ'')
         else if \<exists>(planned, declared)\<in>set (zip (plan_layers model_plan) (profile_layers profile)).
                   plan_kind planned \<noteq> lp_kind declared
         then Inl (ValueError ''Model Plan and Instance FFN Profile layer kinds differ'')
         else Inr ())"

definition validate_plan :: "fabric_plan \<Rightarrow> fabric_plan result" where
  "validate_plan p =
     (if length (pe_placements p) < 2 \<or> executor_lane_count p < 1 \<or> model_plans p = [] \<or> instance_plans p = []
      then Inl (ValueError ''field constraint'')
      else rbind (validate_order (pe_placements p)) (\<lambda>(atnagent_count, ffnagent_count).
        if length (ffn_execution_contracts p) \<noteq> ffnagent_count
        then Inl (ValueError ''Execution contracts and FfnAgents must be co-indexed'')
        else if length (model_plans p) \<noteq> length (instance_plans p)
        then Inl (ValueError ''Model Plans and Instance Plans must be co-indexed'')
        else if \<not> distinct (map ip_model_id (instance_plans p))
        then Inl (ValueError ''Instance Model IDs must be unique'')
        else rbind (zip_strict (model_plans p) (instance_plans p)) (\<lambda>pairs.
             rbind (rmap (validate_instance_pair atnagent_count ffnagent_count) pairs) (\<lambda>_. Inr p))))"

record fabric_deployment_plan = fabric_plan +
  ffn_memory_estimates :: "device_memory_estimate list"

definition FabricDeploymentPlan :: "fabric_deployment_plan \<Rightarrow> fabric_deployment_plan result" where
  "FabricDeploymentPlan p =
     rbind (validate_plan (fabric_plan.truncate p)) (\<lambda>_.
       if length (ffn_memory_estimates p) \<noteq> length (ffn_execution_contracts p)
       then Inl (ValueError ''Memory estimates and execution contracts must be co-indexed'')
       else Inr p)"

section \<open>Phases only move forward\<close>

text \<open>
  A lifecycle whose edges raise a rank: what generations and participants share. Along any sequence
  of edges no phase is visited twice, so a lifecycle has no more steps than it has ranks.
\<close>

locale lifecycle =
  fixes allowed :: "'p \<Rightarrow> 'p \<Rightarrow> bool"
    and rank :: "'p \<Rightarrow> nat"
    and last_rank :: nat
  assumes edge_raises_rank: "allowed p q \<Longrightarrow> rank p < rank q"
    and rank_bound: "rank p \<le> last_rank"
begin

fun trajectory :: "'p list \<Rightarrow> bool" where
  "trajectory (p # q # ps) = (allowed p q \<and> trajectory (q # ps))"
| "trajectory ps = True"

lemma trajectory_above: "trajectory (p # ps) \<Longrightarrow> q \<in> set ps \<Longrightarrow> rank p < rank q"
proof (induction ps arbitrary: p)
  case (Cons r ps)
  then have "rank p < rank r" by (auto dest: edge_raises_rank)
  then show ?case using Cons by (cases "q = r") force+
qed simp

lemma trajectory_distinct: "trajectory ps \<Longrightarrow> distinct ps"
proof (induction ps)
  case (Cons p ps)
  have "trajectory ps" using Cons.prems by (cases ps) auto
  moreover have "p \<notin> set ps" using trajectory_above [OF Cons.prems] by blast
  ultimately show ?case using Cons.IH by simp
qed simp

lemma trajectory_length: "trajectory (p # ps) \<Longrightarrow> length ps + rank p \<le> last_rank"
proof (induction ps arbitrary: p)
  case (Cons q ps)
  then show ?case using edge_raises_rank [of p q] by fastforce
qed (simp add: rank_bound)

lemma reach_rank: "allowed\<^sup>*\<^sup>* p q \<Longrightarrow> rank p \<le> rank q"
  by (induction rule: rtranclp_induct) (auto dest: edge_raises_rank)

lemma never_returns: "allowed p q \<Longrightarrow> \<not> allowed\<^sup>*\<^sup>* q p"
  using edge_raises_rank reach_rank by (meson leD)

end

fun generation_rank :: "fabric_generation_phase \<Rightarrow> nat" where
  "generation_rank Gen_PREPARING_JOIN = 0"
| "generation_rank Gen_JOINING = 1"
| "generation_rank Gen_PREPARING_EXECUTION = 2"
| "generation_rank Gen_ACTIVATING = 3"
| "generation_rank Gen_EXECUTABLE = 4"
| "generation_rank Gen_QUIESCING = 5"
| "generation_rank Gen_DRAINING = 6"
| "generation_rank Gen_FINALIZING = 7"
| "generation_rank Gen_ABORTING = 8"
| "generation_rank Gen_STOPPED = 9"

fun participant_rank :: "fabric_participant_phase \<Rightarrow> nat" where
  "participant_rank Part_JOIN_READY = 0"
| "participant_rank Part_JOINING = 1"
| "participant_rank Part_JOINED = 2"
| "participant_rank Part_EXECUTION_READY = 3"
| "participant_rank Part_ACTIVE = 4"
| "participant_rank Part_QUIESCED = 5"
| "participant_rank Part_DRAINING = 6"
| "participant_rank Part_DRAINED = 7"
| "participant_rank Part_FINALIZED = 8"

interpretation generation_lifecycle: lifecycle generation_allows generation_rank 9
proof
  show "generation_rank p < generation_rank q" if "generation_allows p q" for p q
    using that by (cases p; cases q) (simp_all add: generation_allows_def)
  show "generation_rank p \<le> 9" for p by (cases p) simp_all
qed

text \<open>A participant edge under either value of \<^verbatim>\<open>aborting\<close>.\<close>

definition participant_edge :: "fabric_participant_phase \<Rightarrow> fabric_participant_phase \<Rightarrow> bool" where
  "participant_edge p q = (participant_allows False p q \<or> participant_allows True p q)"

interpretation participant_lifecycle: lifecycle participant_edge participant_rank 8
proof
  show "participant_rank p < participant_rank q" if "participant_edge p q" for p q
    using that by (cases p; cases q) (simp_all add: participant_edge_def participant_allows_def)
  show "participant_rank p \<le> 8" for p by (cases p) simp_all
qed

text \<open>Every way into the executable phase comes from activation, and nothing leaves the final one.\<close>

lemma executable_entry: "generation_allows p Gen_EXECUTABLE \<longleftrightarrow> p = Gen_ACTIVATING"
  by (cases p) (simp_all add: generation_allows_def)

lemma stopped_is_final: "\<not> generation_allows Gen_STOPPED q"
  by (simp add: generation_allows_def)

lemma stopped_entry: "generation_allows p Gen_STOPPED \<longleftrightarrow> p \<in> {Gen_FINALIZING, Gen_ABORTING}"
  by (cases p) (simp_all add: generation_allows_def)

section \<open>Generation identities and their text\<close>

lemma index_in_nth: "distinct xs \<Longrightarrow> i < length xs \<Longrightarrow> index_in xs (xs ! i) = i"
proof (induction xs arbitrary: i)
  case (Cons x xs)
  then show ?case by (cases i) (auto simp: nth_mem)
qed simp

lemma nth_index_in: "y \<in> set xs \<Longrightarrow> index_in xs y < length xs \<and> xs ! index_in xs y = y"
  by (induction xs) auto

lemma hex_alphabet_facts: "distinct hex_alphabet" "length hex_alphabet = 16"
  by (simp_all add: hex_alphabet_def)

lemma hex_value_char [simp]: "d < 16 \<Longrightarrow> hex_value (hex_char d) = d"
  by (simp add: hex_value_def hex_char_def index_in_nth hex_alphabet_facts)

lemma hex_char_value [simp]: "is_hex c \<Longrightarrow> hex_char (hex_value c) = c"
  by (simp add: hex_value_def hex_char_def is_hex_def nth_index_in)

lemma hex_value_bound: "is_hex c \<Longrightarrow> hex_value c < 16"
  using nth_index_in [of c hex_alphabet] by (simp add: hex_value_def is_hex_def hex_alphabet_facts)

lemma is_hex_char [simp]: "d < 16 \<Longrightarrow> is_hex (hex_char d)"
  by (simp add: is_hex_def hex_char_def hex_alphabet_facts)

lemma hex_zero: "hex_value (CHR ''0'') = 0" "is_hex (CHR ''0'')"
  by (simp_all add: hex_value_def is_hex_def hex_alphabet_def)

lemma int_of_hex_snoc [simp]: "int_of_hex (s @ [c]) = 16 * int_of_hex s + hex_value c"
  by (simp add: int_of_hex_def)

lemma int_of_hex_Nil [simp]: "int_of_hex [] = 0"
  by (simp add: int_of_hex_def)

lemma int_of_hex_pad: "int_of_hex (replicate k (CHR ''0'') @ s) = int_of_hex s"
proof (induction s rule: rev_induct)
  case Nil
  show ?case by (induction k) (simp_all add: int_of_hex_def hex_zero)
next
  case (snoc c s)
  then show ?case by (metis append_assoc int_of_hex_snoc)
qed

lemma int_of_hex_bound: "\<forall>c\<in>set s. is_hex c \<Longrightarrow> int_of_hex s < 16 ^ length s"
proof (induction s rule: rev_induct)
  case (snoc c s)
  then have "int_of_hex s + 1 \<le> 16 ^ length s" "hex_value c < 16" by (auto simp: hex_value_bound Suc_le_eq)
  then show ?case by simp
qed simp

lemma int_of_hex_inj:
  "length s = length t \<Longrightarrow> \<forall>c\<in>set s. is_hex c \<Longrightarrow> \<forall>c\<in>set t. is_hex c \<Longrightarrow>
   int_of_hex s = int_of_hex t \<Longrightarrow> s = t"
proof (induction s arbitrary: t rule: rev_induct)
  case (snoc c s)
  obtain d t' where t: "t = t' @ [d]" using snoc.prems(1) by (metis append_butlast_last_id length_0_conv snoc_eq_iff_butlast)
  have "hex_value c < 16" "hex_value d < 16" using snoc.prems t by (auto simp: hex_value_bound)
  moreover have "16 * int_of_hex s + hex_value c = 16 * int_of_hex t' + hex_value d" using snoc.prems t by simp
  ultimately have "int_of_hex s = int_of_hex t'" by linarith
  moreover from this have "hex_value c = hex_value d" using snoc.prems t by simp
  moreover have "is_hex c" "is_hex d" using snoc.prems t by simp_all
  ultimately have "c = d" by (metis hex_char_value)
  moreover have "s = t'" using snoc.IH [of t'] snoc.prems t \<open>int_of_hex s = int_of_hex t'\<close> by simp
  ultimately show ?case using t by simp
qed simp

lemma hex_digits_facts:
  "int_of_hex (hex_digits n) = n \<and> (\<forall>c\<in>set (hex_digits n). is_hex c) \<and>
   (n < 16 ^ Suc k \<longrightarrow> length (hex_digits n) \<le> Suc k)"
proof (induction n arbitrary: k rule: hex_digits.induct)
  case (1 n)
  show ?case
  proof (cases "n < 16")
    case True
    then show ?thesis by (subst (1 2 3) hex_digits.simps) (simp add: int_of_hex_def)
  next
    case False
    define j where "j = k - 1"
    have k: "k = Suc j \<and> n div 16 < 16 ^ Suc j" if "n < 16 ^ Suc k"
      using that False by (cases k) (auto simp: j_def less_mult_imp_div_less)
    have "hex_digits n = hex_digits (n div 16) @ [hex_char (n mod 16)]" using False by (simp add: hex_digits.simps)
    then show ?thesis using 1 [OF False, of j] k by auto
  qed
qed

lemma format_016x_facts:
  assumes "n < 16 ^ 16"
  shows "length (format_016x n) = 16" "\<forall>c\<in>set (format_016x n). is_hex c" "int_of_hex (format_016x n) = n"
proof -
  have "length (hex_digits n) \<le> 16" using hex_digits_facts [of n 15] assms by simp
  then show "length (format_016x n) = 16" by (simp add: format_016x_def Let_def)
  show "\<forall>c\<in>set (format_016x n). is_hex c" "int_of_hex (format_016x n) = n"
    using hex_digits_facts [of n 0] hex_zero by (auto simp: format_016x_def int_of_hex_pad Let_def)
qed

definition generation_ok :: "fabric_generation_id \<Rightarrow> bool" where
  "generation_ok g \<longleftrightarrow> FabricGenerationId (gen_high g) (gen_low g) = Inr g"

lemma generation_ok_iff:
  "generation_ok g \<longleftrightarrow> 0 \<le> gen_high g \<and> gen_high g < 16 ^ 16 \<and> 0 \<le> gen_low g \<and> gen_low g < 16 ^ 16
     \<and> \<not> (gen_high g = 0 \<and> gen_low g = 0)"
  by (auto simp: generation_ok_def FabricGenerationId_def rbind_Inr_iff ensure_uint64_Inr_iff UINT64_MAX_def
           split: if_splits)

lemma FabricGenerationId_Inr: "FabricGenerationId h l = Inr g \<Longrightarrow> gen_high g = h \<and> gen_low g = l \<and> generation_ok g"
  by (auto simp: generation_ok_def FabricGenerationId_def rbind_Inr_iff split: if_splits)

lemma parse_format_generation:
  assumes "generation_ok g"
  shows "parse_generation (format_generation g) = Inr g"
proof -
  have bounds: "nat (gen_high g) < 16 ^ 16" "nat (gen_low g) < 16 ^ 16" "0 \<le> gen_high g" "0 \<le> gen_low g"
    using assms by (auto simp: generation_ok_iff)
  note h = format_016x_facts [OF bounds(1)] and l = format_016x_facts [OF bounds(2)]
  have "parse_generation (format_generation g) = FabricGenerationId (gen_high g) (gen_low g)"
    using h l bounds by (auto simp: parse_generation_def format_generation_def)
  then show ?thesis using assms by (simp add: generation_ok_def)
qed

lemma format_parse_generation:
  assumes "parse_generation s = Inr g"
  shows "format_generation g = s \<and> generation_ok g"
proof -
  have s: "length s = 32" "\<forall>c\<in>set s. is_hex c"
    and id: "FabricGenerationId (int (int_of_hex (take 16 s))) (int (int_of_hex (drop 16 s))) = Inr g"
    using assms by (auto simp: parse_generation_def split: if_splits)
  note g = FabricGenerationId_Inr [OF id]
  have hex: "\<forall>c\<in>set (take 16 s). is_hex c" "\<forall>c\<in>set (drop 16 s). is_hex c"
    using s(2) by (auto dest: in_set_takeD in_set_dropD)
  have part: "format_016x (int_of_hex t) = t" if "length t = 16" "\<forall>c\<in>set t. is_hex c" for t
    using int_of_hex_bound [OF that(2)] that format_016x_facts [of "int_of_hex t"] by (intro int_of_hex_inj) auto
  have "format_016x (int_of_hex (take 16 s)) = take 16 s" "format_016x (int_of_hex (drop 16 s)) = drop 16 s"
    using part hex s(1) by simp_all
  then show ?thesis using g by (simp add: format_generation_def)
qed

text \<open>
  C35: Formatting and parsing generation identities are mutually inverse: every valid identity is parsed
  back from its 32 lowercase hexadecimal characters, and every accepted text is the text of the identity
  it denotes, so a generation has exactly one spelling on the wire.
\<close>

theorem generation_text_roundtrip:
  "(generation_ok g \<longrightarrow> parse_generation (format_generation g) = Inr g)
   \<and> (parse_generation s = Inr g \<longrightarrow> format_generation g = s)"
  using parse_format_generation format_parse_generation by blast

theorem generation_text_roundtrip_witness:
  "generation_ok \<lparr>gen_high = 0, gen_low = 31\<rparr> \<and>
   parse_generation (format_generation \<lparr>gen_high = 0, gen_low = 31\<rparr>) = Inr \<lparr>gen_high = 0, gen_low = 31\<rparr>"
proof -
  have "generation_ok \<lparr>gen_high = 0, gen_low = 31\<rparr>" by (simp add: generation_ok_iff)
  then show ?thesis
    using generation_text_roundtrip [of "\<lparr>gen_high = 0, gen_low = 31\<rparr>" "[]"] by blast
qed

end
