(* ===== verification/Wire.thy ===== *)
theory Wire
  imports Fabric
begin

section \<open>Wire models of the control plane\<close>

text \<open>
  Models the records of \<^verbatim>\<open>src/xpool/service/wire.py\<close>, \<^verbatim>\<open>src/xpool/runtime/transport.py\<close> and
  \<^verbatim>\<open>src/xpool/transport.py\<close> the daemon validates and stores, with their validators. The length of a
  CUDA IPC handle is a native constant and a parameter; the URL check of a serving listener is
  \<^verbatim>\<open>httpx\<close>'s and a parameter as well. The readiness models are in theory Readiness.
\<close>

subsection \<open>Transport profiles and handles\<close>

record instance_rank_transport_profile =
  tp_hidden_size :: int
  payload_row_capacity :: int
  atn_tp_rank :: int
  atn_tp_size :: int
  atn_dp_rank :: int
  atn_dp_size :: int

definition validate_geometry :: "instance_rank_transport_profile \<Rightarrow> instance_rank_transport_profile result" where
  "validate_geometry t =
     (if tp_hidden_size t < 1 \<or> payload_row_capacity t < 1 \<or> atn_tp_rank t < 0 \<or> atn_tp_size t < 1
         \<or> atn_dp_rank t < 0 \<or> atn_dp_size t < 1
      then Inl (ValueError ''field constraint'')
      else if atn_tp_rank t \<ge> atn_tp_size t
      then Inl (ValueError ''transport atn_tp_rank must be smaller than atn_tp_size'')
      else if atn_dp_rank t \<ge> atn_dp_size t
      then Inl (ValueError ''transport atn_dp_rank must be smaller than atn_dp_size'')
      else if atn_tp_size t > 1 \<and> atn_dp_size t > 1
      then Inl (ValueError ''transport does not support combined attention TP-by-DP'')
      else Inr t)"

type_synonym transport_arena_handle = string

definition TransportArenaHandle :: "nat \<Rightarrow> string \<Rightarrow> transport_arena_handle result" where
  "TransportArenaHandle handle_hex_length handle =
     (if length handle \<noteq> handle_hex_length
      then Inl (ValueError ''transport arena handle must contain the exact count of lowercase hex characters'')
      else if \<exists>c\<in>set handle. \<not> is_hex c
      then Inl (ValueError ''transport arena handle must contain only lowercase hex characters'')
      else Inr handle)"

subsection \<open>Identities and requests\<close>

record instance_rank_id =
  iri_model_id :: model_id
  iri_rank :: int

record agent_startup_admission =
  sa_pid :: int
  sa_create_time :: real
  sa_abi_version :: int
  sa_role :: fabric_role
  sa_device :: int

record arena_binding =
  ab_model_id :: model_id
  ab_rank :: int
  ab_handle :: transport_arena_handle

datatype warning_kind = Stale_atnagent | Stale_ffnagent | Stale_instance | Quiescing_atnagent

record control_plane_warning =
  warn_kind :: warning_kind
  warn_device :: int

subsection \<open>Failures and participant reports\<close>

record fabric_invocation_failure =
  result_code :: int
  origin_pe :: int
  failed_instance_index :: int
  invocation_sequence :: int
  layer_ordinal :: int

datatype fabric_owner_failure_reason = Owner_EXITED | Owner_STALE | Owner_REPLACED

datatype fabric_owner_failure =
    FabricPeOwnerFailure fabric_role nat fabric_owner_failure_reason
  | FabricInstanceRankOwnerFailure model_id int fabric_owner_failure_reason

record fabric_participant_report =
  rep_owner :: process_ref
  rep_generation :: fabric_generation_id
  rep_pe :: int
  rep_phase :: fabric_participant_phase
  rep_invocation_failure :: "fabric_invocation_failure option"
  rep_control_failure :: "string option"

text \<open>The field constraints of the two wire models that carry participant state.\<close>

definition invocation_failure_fields_ok :: "fabric_invocation_failure \<Rightarrow> bool" where
  "invocation_failure_fields_ok f \<longleftrightarrow>
     0 \<le> origin_pe f \<and> 0 \<le> failed_instance_index f \<and> 1 \<le> invocation_sequence f \<and> 0 \<le> layer_ordinal f"

definition report_fields_ok :: "fabric_participant_report \<Rightarrow> bool" where
  "report_fields_ok r \<longleftrightarrow>
     0 \<le> rep_pe r \<and> 1 \<le> ref_pid (rep_owner r) \<and> 1 \<le> ref_abi_version (rep_owner r)
     \<and> (case rep_invocation_failure r of None \<Rightarrow> True | Some f \<Rightarrow> invocation_failure_fields_ok f)
     \<and> rep_control_failure r \<noteq> Some []"

record fabric_quiesce_request =
  qr_owner :: process_ref
  qr_generation :: fabric_generation_id

record heartbeat_response =
  hb_warnings :: "control_plane_warning list"
  hb_generation :: "fabric_generation_id option"
  hb_fabric_phase :: "fabric_generation_phase option"

subsection \<open>Elastic context state bounds\<close>

record ecs_partition_profile =
  floor_bytes :: int
  reservation_bytes :: int

definition validate_byte_bounds :: "ecs_partition_profile \<Rightarrow> ecs_partition_profile result" where
  "validate_byte_bounds p =
     (if floor_bytes p < 0 \<or> UINT64_MAX < floor_bytes p \<or> reservation_bytes p < 0
         \<or> UINT64_MAX < reservation_bytes p
      then Inl (ValueError ''field constraint'')
      else if floor_bytes p > reservation_bytes p
      then Inl (ValueError ''elastic context state backing floor exceeds its reservation'')
      else Inr p)"

definition partition_profile_ok :: "ecs_partition_profile \<Rightarrow> bool" where
  "partition_profile_ok p \<longleftrightarrow> 0 \<le> floor_bytes p \<and> floor_bytes p \<le> reservation_bytes p \<and> reservation_bytes p \<le> UINT64_MAX"

lemma validate_byte_bounds_Inr_iff: "validate_byte_bounds p = Inr q \<longleftrightarrow> q = p \<and> partition_profile_ok p"
  by (auto simp: validate_byte_bounds_def partition_profile_ok_def)

record ecs_control_channel_ref =
  cr_generation :: fabric_generation_id
  cr_name :: string

subsection \<open>Registration views\<close>

record atnagent_view =
  av_process :: process_ref
  av_device :: int

record ffnagent_view =
  fv_process :: process_ref
  fv_device :: int
  fv_device_free_memory_bytes :: int
  fv_device_total_memory_bytes :: int
  fv_model_specs :: "ffn_model_spec list"

definition FfnAgentView :: "ffnagent_view \<Rightarrow> ffnagent_view result" where
  "FfnAgentView v =
     (if ref_pid (fv_process v) < 1 \<or> ref_abi_version (fv_process v) < 1 \<or> fv_device v < 0
         \<or> fv_device_free_memory_bytes v < 1 \<or> fv_device_total_memory_bytes v < 1 \<or> fv_model_specs v = []
      then Inl (ValueError ''field constraint'')
      else if fv_device_free_memory_bytes v > fv_device_total_memory_bytes v
      then Inl (ValueError ''FfnAgent free CUDA memory exceeds total CUDA memory'')
      else if \<not> distinct (map spec_model_id (fv_model_specs v))
      then Inl (ValueError ''FfnAgent Model Specs must have unique Model IDs'')
      else Inr v)"

record ffnagent_registration =
  far_view :: ffnagent_view
  far_execution_contract :: ffn_execution_contract
  far_calibration_environment :: "memory_calibration_environment option"

definition FfnAgentRegistration :: "ffnagent_registration \<Rightarrow> ffnagent_registration result" where
  "FfnAgentRegistration r =
     rbind (FfnAgentView (far_view r)) (\<lambda>_.
       case far_calibration_environment r of
         None \<Rightarrow> Inr r
       | Some environment \<Rightarrow>
           if env_total_memory_bytes environment \<noteq> fv_device_total_memory_bytes (far_view r)
           then Inl (ValueError ''FfnAgent device memory observations disagree'') else Inr r)"

record instance_rank_ref =
  irr_process :: process_ref
  irr_model_id :: model_id
  irr_rank :: int

record instance_rank_registration =
  ir_ref :: instance_rank_ref
  ir_transport :: instance_rank_transport_profile
  ir_ffn_profile :: instance_ffn_profile
  ir_context_state_profile :: ecs_partition_profile
  ir_atn_runtime_headroom_bytes :: int

record serving_listener =
  listener_host :: string
  listener_port :: int

definition ServingListener :: "(string \<Rightarrow> bool) \<Rightarrow> serving_listener \<Rightarrow> serving_listener result" where
  "ServingListener url_host_valid l =
     (if listener_host l = [] \<or> listener_port l < 1 \<or> 65535 < listener_port l
      then Inl (ValueError ''field constraint'')
      else if \<not> url_host_valid (listener_host l) then Inl (ValueError ''invalid serving listener host'')
      else Inr l)"

record instance_rank_initialized_publication =
  init_owner :: process_ref
  init_generation :: fabric_generation_id
  init_serving_listener :: serving_listener

datatype readiness_status = ONLINE | STALE | OFFLINE

end
