(* ===== verification/Registration.thy ===== *)
theory Registration
  imports Wire
begin

section \<open>Process registrations\<close>

text \<open>
  Models \<^verbatim>\<open>src/xpool/service/daemon/registration.py\<close>. A registration object is a record with the field
  \<open>reg_oid\<close> for its Python identity: \<^verbatim>\<open>is\<close> compares that field, and the fields the daemon mutates
  (\<^verbatim>\<open>alive\<close>, \<^verbatim>\<open>last_seen_at\<close>) are read from the table's copy. A table is an insertion ordered
  dictionary; its generic operations take the role's \<^verbatim>\<open>key\<close> and \<^verbatim>\<open>conflicts_with\<close> as arguments, the way
  the methods are dispatched. Process observations (\<open>observe\<close>, \<open>is_alive\<close>) are the operating
  system's answers.
\<close>

definition HEARTBEAT_WARNING_WATERMARK_S :: real where
  "HEARTBEAT_WARNING_WATERMARK_S = 15"

subsection \<open>One registration\<close>

record common_registration =
  reg_oid :: nat
  reg_proc :: proc_uniq_id
  reg_alive :: bool
  last_seen_at :: real
  reg_abi_version :: int

definition CommonRegistration ::
    "(int \<Rightarrow> proc_uniq_id option) \<Rightarrow> nat \<Rightarrow> int \<Rightarrow> int \<Rightarrow> real \<Rightarrow> common_registration result" where
  "CommonRegistration observe oid pid abi now =
     (case observe pid of
        None \<Rightarrow> Inl (XpoolDaemonError Conflict ''registering pid is not live'')
      | Some proc \<Rightarrow>
          Inr \<lparr>reg_oid = oid, reg_proc = proc, reg_alive = True, last_seen_at = now, reg_abi_version = abi\<rparr>)"

definition readiness_status :: "real \<Rightarrow> 'm common_registration_scheme \<Rightarrow> readiness_status" where
  "readiness_status now r =
     (if \<not> reg_alive r then OFFLINE
      else if now - last_seen_at r > HEARTBEAT_WARNING_WATERMARK_S then STALE
      else ONLINE)"

definition require_online :: "real \<Rightarrow> 'm common_registration_scheme \<Rightarrow> unit result" where
  "require_online now r =
     (case readiness_status now r of
        ONLINE \<Rightarrow> Inr ()
      | OFFLINE \<Rightarrow> Inl (XpoolDaemonError NotReady ''process is not live'')
      | STALE \<Rightarrow> Inl (XpoolDaemonError NotReady ''heartbeat is stale''))"

definition validate_process_ref ::
    "(proc_uniq_id \<Rightarrow> bool) \<Rightarrow> 'm common_registration_scheme \<Rightarrow> process_ref \<Rightarrow> unit result" where
  "validate_process_ref is_alive r p =
     (if ref_abi_version p \<noteq> reg_abi_version r
      then Inl (XpoolDaemonError Conflict ''ABI version does not match registration ABI'')
      else if ref_pid p \<noteq> proc_pid (reg_proc r)
      then Inl (XpoolDaemonError Conflict ''pid does not match registration pid'')
      else if \<not> is_alive (reg_proc r)
      then Inl (XpoolDaemonError Conflict ''process identity no longer matches registration'')
      else Inr ())"

definition common_conflicts ::
    "'m common_registration_scheme \<Rightarrow> 'm common_registration_scheme \<Rightarrow> bool" where
  "common_conflicts r candidate = (reg_proc r \<noteq> reg_proc candidate)"

subsection \<open>The three roles\<close>

record instance_rank_registration_state = common_registration +
  reg_instance :: instance_rank_id
  reg_transport :: instance_rank_transport_profile
  reg_ffn_profile :: instance_ffn_profile
  reg_context_state_profile :: ecs_partition_profile
  atn_runtime_headroom_bytes :: int

record atnagent_registration_state = common_registration +
  atn_device :: int
  atn_calibration_environment :: "memory_calibration_environment option"

record ffnagent_registration_state = common_registration +
  ffn_device :: int
  ffn_calibration_environment :: "memory_calibration_environment option"
  device_free_memory_bytes :: int
  device_total_memory_bytes :: int
  execution_contract :: ffn_execution_contract

definition instance_conflicts ::
    "instance_rank_registration_state \<Rightarrow> instance_rank_registration_state \<Rightarrow> bool" where
  "instance_conflicts r candidate \<longleftrightarrow>
     common_conflicts r candidate
     \<or> reg_instance r \<noteq> reg_instance candidate
     \<or> reg_abi_version r \<noteq> reg_abi_version candidate
     \<or> reg_transport r \<noteq> reg_transport candidate
     \<or> reg_ffn_profile r \<noteq> reg_ffn_profile candidate
     \<or> reg_context_state_profile r \<noteq> reg_context_state_profile candidate
     \<or> atn_runtime_headroom_bytes r \<noteq> atn_runtime_headroom_bytes candidate"

definition atnagent_conflicts :: "atnagent_registration_state \<Rightarrow> atnagent_registration_state \<Rightarrow> bool" where
  "atnagent_conflicts r candidate \<longleftrightarrow>
     common_conflicts r candidate
     \<or> atn_device r \<noteq> atn_device candidate
     \<or> reg_abi_version r \<noteq> reg_abi_version candidate
     \<or> atn_calibration_environment r \<noteq> atn_calibration_environment candidate"

definition ffnagent_conflicts :: "ffnagent_registration_state \<Rightarrow> ffnagent_registration_state \<Rightarrow> bool" where
  "ffnagent_conflicts r candidate \<longleftrightarrow>
     common_conflicts r candidate
     \<or> ffn_device r \<noteq> ffn_device candidate
     \<or> reg_abi_version r \<noteq> reg_abi_version candidate
     \<or> ffn_calibration_environment r \<noteq> ffn_calibration_environment candidate
     \<or> device_free_memory_bytes r \<noteq> device_free_memory_bytes candidate
     \<or> device_total_memory_bytes r \<noteq> device_total_memory_bytes candidate
     \<or> execution_contract r \<noteq> execution_contract candidate"

subsection \<open>Registration tables\<close>

type_synonym ('k, 'm) table = "('k, 'm common_registration_scheme) dict"

text \<open>\<^verbatim>\<open>a is b\<close> for optional registration objects.\<close>

definition same_object ::
    "'m common_registration_scheme option \<Rightarrow> 'm common_registration_scheme option \<Rightarrow> bool" where
  "same_object a b \<longleftrightarrow> map_option reg_oid a = map_option reg_oid b"

definition query :: "'k \<Rightarrow> ('k, 'm) table \<Rightarrow> 'm common_registration_scheme option" where
  "query k t = dict_get t k"

definition install_snapshot ::
    "('m common_registration_scheme \<Rightarrow> 'k)
     \<Rightarrow> ('m common_registration_scheme \<Rightarrow> 'm common_registration_scheme \<Rightarrow> bool)
     \<Rightarrow> 'm common_registration_scheme \<Rightarrow> 'm common_registration_scheme option \<Rightarrow> bool
     \<Rightarrow> (('k, 'm) table, bool) op" where
  "install_snapshot key conflicts registration existing existing_alive t =
     (let k = key registration
      in if \<not> same_object (dict_get t k) existing
         then raise (XpoolDaemonError NotReady ''registration changed during liveness validation'') t
         else case existing of
                None \<Rightarrow> ret True (dict_set k registration t)
              | Some old \<Rightarrow>
                  if \<not> existing_alive
                  then ret (reg_proc old \<noteq> reg_proc registration) (dict_set k registration t)
                  else if conflicts old registration
                  then raise (XpoolDaemonError Conflict ''registration is already owned by another live process'') t
                  else (case dict_get t k of
                          None \<Rightarrow> ret False t
                        | Some cur \<Rightarrow>
                            ret False (dict_set k (cur\<lparr>last_seen_at := last_seen_at registration\<rparr>) t)))"

definition commit_heartbeat ::
    "'k \<Rightarrow> 'm common_registration_scheme \<Rightarrow> real \<Rightarrow> (('k, 'm) table, unit) op" where
  "commit_heartbeat k registration now t =
     (if \<not> same_object (dict_get t k) (Some registration)
      then raise (XpoolDaemonError NotReady ''registration changed during heartbeat'') t
      else case dict_get t k of
             None \<Rightarrow> ret () t
           | Some cur \<Rightarrow> ret () (dict_set k (cur\<lparr>last_seen_at := now\<rparr>) t))"

definition remove_snapshot ::
    "'k \<Rightarrow> 'm common_registration_scheme \<Rightarrow> (('k, 'm) table, unit) op" where
  "remove_snapshot k registration t =
     (if \<not> same_object (dict_get t k) (Some registration)
      then raise (XpoolDaemonError NotReady ''registration changed during deregistration'') t
      else ret () (dict_del k t))"

text \<open>
  The watchdog's write \<^verbatim>\<open>registration.alive = liveness[...]\<close> through the objects it captured: only
  objects still in the table are observable afterwards.
\<close>

definition write_alive :: "(nat \<times> bool) list \<Rightarrow> ('k, 'm) table \<Rightarrow> ('k, 'm) table" where
  "write_alive marks t =
     map (\<lambda>(k, r). (k, case map_of marks (reg_oid r) of None \<Rightarrow> r | Some a \<Rightarrow> r\<lparr>reg_alive := a\<rparr>)) t"

subsection \<open>The registration book\<close>

record registration_book =
  book_instances :: "(instance_rank_id, instance_rank_registration_state) dict"
  book_atnagents :: "(int, atnagent_registration_state) dict"
  book_ffnagents :: "(int, ffnagent_registration_state) dict"
  ffn_model_specs :: "ffn_model_spec list option"
  agent_startups :: "(fabric_role \<times> int, proc_uniq_id) dict"

definition RegistrationBook :: registration_book where
  "RegistrationBook =
     \<lparr>book_instances = [], book_atnagents = [], book_ffnagents = [], ffn_model_specs = None, agent_startups = []\<rparr>"

definition all_values :: "registration_book \<Rightarrow> common_registration list" where
  "all_values b =
     map common_registration.truncate (dict_values (book_atnagents b))
     @ map common_registration.truncate (dict_values (book_ffnagents b))
     @ map common_registration.truncate (dict_values (book_instances b))"

definition process_view :: "'m common_registration_scheme \<Rightarrow> process_ref" where
  "process_view r = \<lparr>ref_pid = proc_pid (reg_proc r), ref_abi_version = reg_abi_version r\<rparr>"

definition instance_views :: "registration_book \<Rightarrow> instance_rank_registration list" where
  "instance_views b =
     map (\<lambda>r. \<lparr>ir_ref = \<lparr>irr_process = process_view r, irr_model_id = iri_model_id (reg_instance r),
                           irr_rank = iri_rank (reg_instance r)\<rparr>,
                ir_transport = reg_transport r, ir_ffn_profile = reg_ffn_profile r,
                ir_context_state_profile = reg_context_state_profile r,
                ir_atn_runtime_headroom_bytes = atn_runtime_headroom_bytes r\<rparr>)
         (dict_values (book_instances b))"

definition atnagent_views :: "registration_book \<Rightarrow> atnagent_view list" where
  "atnagent_views b =
     map (\<lambda>r. \<lparr>av_process = process_view r, av_device = atn_device r\<rparr>) (dict_values (book_atnagents b))"

definition ffnagent_views :: "registration_book \<Rightarrow> ffnagent_view list result" where
  "ffnagent_views b =
     (if ffn_model_specs b = None \<and> dict_values (book_ffnagents b) \<noteq> []
      then Inl (RuntimeError ''FfnAgent registrations exist without canonical Model Specs'')
      else rmap (\<lambda>r. FfnAgentView
             \<lparr>fv_process = process_view r, fv_device = ffn_device r,
              fv_device_free_memory_bytes = device_free_memory_bytes r,
              fv_device_total_memory_bytes = device_total_memory_bytes r,
              fv_model_specs = (case ffn_model_specs b of None \<Rightarrow> [] | Some specs \<Rightarrow> specs)\<rparr>)
           (dict_values (book_ffnagents b)))"

section \<open>The contract of an owned table\<close>

lemmas table_op_defs = install_snapshot_def commit_heartbeat_def remove_snapshot_def same_object_def
  ret_def raise_def Let_def

definition table_ok :: "('m common_registration_scheme \<Rightarrow> 'k) \<Rightarrow> ('k, 'm) table \<Rightarrow> bool" where
  "table_ok key t \<longleftrightarrow> distinct (dict_keys t) \<and> (\<forall>(k, r)\<in>set t. key r = k)"

lemma table_ok_get: "table_ok key t \<Longrightarrow> dict_get t k = Some r \<Longrightarrow> key r = k"
  by (auto simp: table_ok_def dest: map_of_SomeD)

lemma table_ok_set: "table_ok key t \<Longrightarrow> key r = k \<Longrightarrow> table_ok key (dict_set k r t)"
proof -
  assume ok: "table_ok key t" and k: "key r = k"
  have "set (dict_set k r t) \<subseteq> insert (k, r) (set t)" by (induction t) auto
  then show ?thesis using ok k unfolding table_ok_def by (auto simp: distinct_update)
qed

lemma table_ok_del: "table_ok key t \<Longrightarrow> table_ok key (dict_del k t)"
proof -
  assume ok: "table_ok key t"
  have "set (dict_del k t) \<subseteq> set t" by (auto simp: AList.delete_eq)
  then show ?thesis using ok unfolding table_ok_def by (auto simp: distinct_delete)
qed

lemma dict_get_write_alive:
  "dict_get (write_alive marks t) k =
     map_option (\<lambda>r. case map_of marks (reg_oid r) of None \<Rightarrow> r | Some a \<Rightarrow> r\<lparr>reg_alive := a\<rparr>) (dict_get t k)"
  by (induction t) (auto simp: write_alive_def split: option.splits)

text \<open>
  What a role contributes: its key, and a conflict test that never accepts another owner. From
  these the table operations protect live owners, whatever happened between the caller's snapshot and
  its commit.
\<close>

locale owned_table =
  fixes key :: "'m common_registration_scheme \<Rightarrow> 'k"
    and conflicts :: "'m common_registration_scheme \<Rightarrow> 'm common_registration_scheme \<Rightarrow> bool"
  assumes no_conflict_owner: "\<not> conflicts a b \<Longrightarrow> reg_proc a = reg_proc b \<and> reg_abi_version a = reg_abi_version b"
    and no_conflict_key: "\<not> conflicts a b \<Longrightarrow> key a = key b"
    and key_seen: "key (a\<lparr>last_seen_at := x\<rparr>) = key a"
    and key_alive: "key (a\<lparr>reg_alive := y\<rparr>) = key a"
begin

lemma install_ok: "table_ok key t \<Longrightarrow> table_ok key (snd (install_snapshot key conflicts r existing alive t))"
  by (auto simp: table_op_defs key_seen dest: table_ok_get intro!: table_ok_set split: option.splits)

lemma heartbeat_ok: "table_ok key t \<Longrightarrow> table_ok key (snd (commit_heartbeat k r now t))"
  by (auto simp: table_op_defs key_seen dest: table_ok_get intro!: table_ok_set split: option.splits)

lemma remove_ok: "table_ok key t \<Longrightarrow> table_ok key (snd (remove_snapshot k r t))"
  by (auto simp: table_op_defs intro!: table_ok_del)

lemma write_alive_ok: "table_ok key t \<Longrightarrow> table_ok key (write_alive marks t)"
  by (auto simp: table_ok_def write_alive_def key_alive comp_def case_prod_unfold split: option.splits)

lemma install_other: "k \<noteq> key r \<Longrightarrow> dict_get (snd (install_snapshot key conflicts r existing alive t)) k = dict_get t k"
  by (auto simp: table_op_defs split: option.splits)

lemma install_installed:
  assumes "fst (install_snapshot key conflicts r existing alive t) = Inr b"
  shows "\<exists>new. dict_get (snd (install_snapshot key conflicts r existing alive t)) (key r) = Some new"
  using assms by (auto simp: table_op_defs split: option.splits if_splits)

lemma live_owner_kept:
  assumes "dict_get t (key r) = Some cur" and "reg_oid old = reg_oid cur \<Longrightarrow> reg_proc old = reg_proc cur"
  shows "case install_snapshot key conflicts r (Some old) True t of
           (Inl e, t') \<Rightarrow> t' = t
         | (Inr changed, t') \<Rightarrow>
             \<not> changed \<and> reg_proc r = reg_proc cur \<and> (\<exists>new. dict_get t' (key r) = Some new \<and> reg_proc new = reg_proc cur)"
  using assms no_conflict_owner [of old r] by (auto simp: table_op_defs split: option.splits)

end

interpretation instance_table: owned_table reg_instance instance_conflicts
  by unfold_locales (auto simp: instance_conflicts_def common_conflicts_def)

interpretation atnagent_table: owned_table atn_device atnagent_conflicts
  by unfold_locales (auto simp: atnagent_conflicts_def common_conflicts_def)

interpretation ffnagent_table: owned_table ffn_device ffnagent_conflicts
  by unfold_locales (auto simp: ffnagent_conflicts_def common_conflicts_def)

definition book_ok :: "registration_book \<Rightarrow> bool" where
  "book_ok b \<longleftrightarrow> table_ok reg_instance (book_instances b) \<and> table_ok atn_device (book_atnagents b)
     \<and> table_ok ffn_device (book_ffnagents b)"

definition sample_registration :: "nat \<Rightarrow> int \<Rightarrow> atnagent_registration_state" where
  "sample_registration oid pid =
     \<lparr>reg_oid = oid, reg_proc = \<lparr>proc_pid = pid, proc_create_time = 1\<rparr>, reg_alive = True, last_seen_at = 0,
      reg_abi_version = 1, atn_device = 0, atn_calibration_environment = None\<rparr>"

text \<open>
  C23: A registration whose owner was observed alive cannot be taken over: whatever candidate is offered, an
  accepted installation reports no change, the candidate is the same process, and the
  stored owner is unchanged; a refused one leaves the table untouched. This holds for Instance ranks,
  AtnAgents and FfnAgents.
\<close>

theorem live_owner_keeps_registration:
  assumes "dict_get instances (reg_instance r1) = Some cur1" and "dict_get atns (atn_device r2) = Some cur2"
    and "dict_get ffns (ffn_device r3) = Some cur3"
  shows "(case install_snapshot reg_instance instance_conflicts r1 (Some cur1) True instances of
            (Inl e, t') \<Rightarrow> t' = instances
          | (Inr changed, t') \<Rightarrow> \<not> changed \<and> reg_proc r1 = reg_proc cur1
              \<and> (\<exists>new. dict_get t' (reg_instance r1) = Some new \<and> reg_proc new = reg_proc cur1))
       \<and> (case install_snapshot atn_device atnagent_conflicts r2 (Some cur2) True atns of
            (Inl e, t') \<Rightarrow> t' = atns
          | (Inr changed, t') \<Rightarrow> \<not> changed \<and> reg_proc r2 = reg_proc cur2
              \<and> (\<exists>new. dict_get t' (atn_device r2) = Some new \<and> reg_proc new = reg_proc cur2))
       \<and> (case install_snapshot ffn_device ffnagent_conflicts r3 (Some cur3) True ffns of
            (Inl e, t') \<Rightarrow> t' = ffns
          | (Inr changed, t') \<Rightarrow> \<not> changed \<and> reg_proc r3 = reg_proc cur3
              \<and> (\<exists>new. dict_get t' (ffn_device r3) = Some new \<and> reg_proc new = reg_proc cur3))"
  using instance_table.live_owner_kept [OF assms(1), of cur1] atnagent_table.live_owner_kept [OF assms(2), of cur2]
    ffnagent_table.live_owner_kept [OF assms(3), of cur3]
  by (intro conjI) simp_all

definition sample_ffn_registration :: "nat \<Rightarrow> ffnagent_registration_state" where
  "sample_ffn_registration oid =
     \<lparr>reg_oid = oid, reg_proc = \<lparr>proc_pid = 9, proc_create_time = 1\<rparr>, reg_alive = True, last_seen_at = 0,
      reg_abi_version = 1, ffn_device = 1, ffn_calibration_environment = None, device_free_memory_bytes = 1,
      device_total_memory_bytes = 2, execution_contract = \<lparr>lane_resources = [], shared_resources = []\<rparr>\<rparr>"

definition sample_instance_registration :: "nat \<Rightarrow> instance_rank_registration_state" where
  "sample_instance_registration oid =
     \<lparr>reg_oid = oid, reg_proc = \<lparr>proc_pid = 10, proc_create_time = 1\<rparr>, reg_alive = True, last_seen_at = 0,
      reg_abi_version = 1, reg_instance = \<lparr>iri_model_id = ''a/b'', iri_rank = 0\<rparr>,
      reg_transport = \<lparr>tp_hidden_size = 1, payload_row_capacity = 1, atn_tp_rank = 0, atn_tp_size = 1,
                         atn_dp_rank = 0, atn_dp_size = 1\<rparr>,
      reg_ffn_profile = \<lparr>payload_dtype = torch_bfloat16, hidden_size = 1,
                           profile_layers = [\<lparr>lp_layer_id = 0, lp_kind = DENSE\<rparr>],
                           decode_payload_row_capacity = 1, prefill_payload_row_capacity = 1,
                           group_sum_complete_admitted = True\<rparr>,
      reg_context_state_profile = \<lparr>floor_bytes = 0, reservation_bytes = 0\<rparr>, atn_runtime_headroom_bytes = 0\<rparr>"

theorem live_owner_keeps_registration_witness:
  "case install_snapshot atn_device atnagent_conflicts (sample_registration 2 8) (Some (sample_registration 1 7)) True
          [(0, sample_registration 1 7)] of
     (Inl e, t') \<Rightarrow> t' = [(0, sample_registration 1 7)] | (Inr changed, t') \<Rightarrow> False"
proof -
  have "dict_get [(reg_instance (sample_instance_registration 3), sample_instance_registration 3)]
          (reg_instance (sample_instance_registration 3)) = Some (sample_instance_registration 3)"
    and a: "dict_get [(0, sample_registration 1 7)] (atn_device (sample_registration 2 8)) =
          Some (sample_registration 1 7)"
    and "dict_get [(1, sample_ffn_registration 4)] (ffn_device (sample_ffn_registration 5)) =
          Some (sample_ffn_registration 4)"
    by (simp_all add: sample_registration_def sample_ffn_registration_def)
  from live_owner_keeps_registration [OF this]
  show ?thesis by (auto simp: sample_registration_def split: prod.splits sum.splits)
qed

end
