(* ===== verification/Transport.thy ===== *)
theory Transport
  imports Registration
begin

section \<open>Transport publications and leases\<close>

text \<open>
  Models \<^verbatim>\<open>src/xpool/service/daemon/transport.py\<close>: the arenas each AtnAgent generation published and the
  lease each Instance rank holds. The lemmas show that an arena handle names one Instance rank, that a
  publication is never replaced in place and that every operation keeps the tables well-formed; what quiescing
  guarantees across operations is shown in \<^verbatim>\<open>Control_Leases\<close>.
\<close>

record transport_arena_lease =
  lease_device :: int
  lease_handle :: transport_arena_handle
  lease_publisher :: proc_uniq_id

record transport_arena_publication =
  pub_instance :: instance_rank_id
  pub_handle :: transport_arena_handle
  pub_transport :: instance_rank_transport_profile

record atnagent_transport_state =
  ts_owner :: proc_uniq_id
  ts_publications :: "(instance_rank_id, transport_arena_publication) dict"
  accepting_leases :: bool

definition AtnAgentTransportState :: "proc_uniq_id \<Rightarrow> atnagent_transport_state" where
  "AtnAgentTransportState owner = \<lparr>ts_owner = owner, ts_publications = [], accepting_leases = True\<rparr>"

record transport_broker =
  tb_atnagents :: "(int, atnagent_transport_state) dict"
  tb_leases :: "(instance_rank_id, transport_arena_lease) dict"

definition TransportBroker :: transport_broker where
  "TransportBroker = \<lparr>tb_atnagents = [], tb_leases = []\<rparr>"

definition install_atnagent :: "int \<Rightarrow> proc_uniq_id \<Rightarrow> (transport_broker, unit) op" where
  "install_atnagent device owner b =
     (case dict_get (tb_atnagents b) device of
        Some current \<Rightarrow>
          if ts_owner current \<noteq> owner
          then ret () (b\<lparr>tb_atnagents := dict_set device (AtnAgentTransportState owner) (tb_atnagents b)\<rparr>)
          else ret () b
      | None \<Rightarrow> ret () (b\<lparr>tb_atnagents := dict_set device (AtnAgentTransportState owner) (tb_atnagents b)\<rparr>))"

definition require_owner :: "int \<Rightarrow> proc_uniq_id \<Rightarrow> transport_broker \<Rightarrow> atnagent_transport_state result" where
  "require_owner device owner b =
     (case dict_get (tb_atnagents b) device of
        Some state \<Rightarrow>
          if ts_owner state \<noteq> owner
          then Inl (XpoolDaemonError NotReady ''atnagent registration changed during transport operation'')
          else Inr state
      | None \<Rightarrow> Inl (XpoolDaemonError NotReady ''atnagent registration changed during transport operation''))"

fun check_publications ::
    "(instance_rank_id, transport_arena_publication) dict \<Rightarrow> (transport_arena_handle, instance_rank_id) dict
     \<Rightarrow> transport_arena_publication list \<Rightarrow> unit result" where
  "check_publications published by_handle [] = Inr ()"
| "check_publications published by_handle (p # ps) =
     (if (case dict_get published (pub_instance p) of None \<Rightarrow> False | Some existing \<Rightarrow> existing \<noteq> p)
      then Inl (XpoolDaemonError Conflict ''published transport arena cannot be replaced in place'')
      else if (case dict_get by_handle (pub_handle p) of None \<Rightarrow> False | Some owner \<Rightarrow> owner \<noteq> pub_instance p)
      then Inl (XpoolDaemonError Conflict ''atnagent transport arenas contain duplicate arena handle'')
      else check_publications published by_handle ps)"

definition publish ::
    "int \<Rightarrow> proc_uniq_id \<Rightarrow> transport_arena_publication list \<Rightarrow> (transport_broker, unit) op" where
  "publish device owner publications b =
     (if publications = []
      then raise (XpoolDaemonError Conflict ''atnagent transport arena upsert must not be empty'') b
      else case require_owner device owner b of
             Inl e \<Rightarrow> raise e b
           | Inr state \<Rightarrow>
               if \<not> accepting_leases state
               then raise (XpoolDaemonError NotReady ''atnagent transport leases are quiescing'') b
               else let by_handle = dict_of (map (\<lambda>(instance, p). (pub_handle p, instance)) (ts_publications state)) []
                    in case check_publications (ts_publications state) by_handle publications of
                         Inl e \<Rightarrow> raise e b
                       | Inr _ \<Rightarrow>
                           ret () (b\<lparr>tb_atnagents := dict_set device
                             (state\<lparr>ts_publications :=
                                 dict_of (map (\<lambda>p. (pub_instance p, p)) publications) (ts_publications state)\<rparr>)
                             (tb_atnagents b)\<rparr>))"

definition quiesce_leases :: "int \<Rightarrow> proc_uniq_id \<Rightarrow> (transport_broker, unit) op" where
  "quiesce_leases device owner b =
     (case require_owner device owner b of
        Inl e \<Rightarrow> raise e b
      | Inr state \<Rightarrow>
          ret () (b\<lparr>tb_atnagents := dict_set device (state\<lparr>accepting_leases := False\<rparr>) (tb_atnagents b)\<rparr>))"

definition publication ::
    "int \<Rightarrow> instance_rank_id \<Rightarrow> proc_uniq_id \<Rightarrow> transport_broker \<Rightarrow> transport_arena_publication result" where
  "publication device instance_id owner b =
     rbind (require_owner device owner b) (\<lambda>state.
       if \<not> accepting_leases state
       then Inl (XpoolDaemonError NotReady ''local attention atnagent transport leases are quiescing'')
       else case dict_get (ts_publications state) instance_id of
              None \<Rightarrow> Inl (XpoolDaemonError NotReady
                        ''local attention atnagent has no transport arena handle for instance rank'')
            | Some p \<Rightarrow> Inr p)"

definition acquire :: "instance_rank_id \<Rightarrow> transport_arena_lease \<Rightarrow> (transport_broker, unit) op" where
  "acquire instance_id lease b =
     (case dict_get (tb_leases b) instance_id of
        Some existing \<Rightarrow>
          if lease_device existing = lease_device lease \<and> lease_handle existing = lease_handle lease
             \<and> lease_publisher existing = lease_publisher lease
          then ret () b
          else raise (XpoolDaemonError Conflict ''instance rank already holds different transport arena handle'') b
      | None \<Rightarrow> ret () (b\<lparr>tb_leases := dict_set instance_id lease (tb_leases b)\<rparr>))"

definition remove_instance :: "instance_rank_id \<Rightarrow> (transport_broker, transport_arena_lease option) op" where
  "remove_instance instance_id b =
     ret (dict_get (tb_leases b) instance_id) (b\<lparr>tb_leases := dict_del instance_id (tb_leases b)\<rparr>)"

definition leased_instances :: "int \<Rightarrow> proc_uniq_id option \<Rightarrow> transport_broker \<Rightarrow> instance_rank_id list" where
  "leased_instances device publisher b =
     map fst (filter (\<lambda>(instance, lease). lease_device lease = device
                        \<and> (publisher = None \<or> Some (lease_publisher lease) = publisher)) (tb_leases b))"

definition is_quiescing :: "int \<Rightarrow> transport_broker \<Rightarrow> bool" where
  "is_quiescing device b =
     (case dict_get (tb_atnagents b) device of None \<Rightarrow> False | Some state \<Rightarrow> \<not> accepting_leases state)"

definition published_for :: "int \<Rightarrow> instance_rank_id \<Rightarrow> transport_broker \<Rightarrow> transport_arena_publication option" where
  "published_for device instance_id b =
     (case dict_get (tb_atnagents b) device of
        None \<Rightarrow> None | Some state \<Rightarrow> dict_get (ts_publications state) instance_id)"

section \<open>Handles name one Instance rank\<close>

lemmas broker_op_defs = install_atnagent_def publish_def quiesce_leases_def acquire_def remove_instance_def
  require_owner_def ret_def raise_def

text \<open>
  Every publication is stored under its own Instance rank, no two ranks of one AtnAgent share a handle,
  and dictionaries have one entry per key.
\<close>

definition publications_ok :: "(instance_rank_id, transport_arena_publication) dict \<Rightarrow> bool" where
  "publications_ok d \<longleftrightarrow> distinct (dict_keys d)
     \<and> (\<forall>i p. dict_get d i = Some p \<longrightarrow> pub_instance p = i)
     \<and> (\<forall>i p j q. dict_get d i = Some p \<longrightarrow> dict_get d j = Some q \<longrightarrow> pub_handle p = pub_handle q \<longrightarrow> i = j)"

definition broker_ok :: "transport_broker \<Rightarrow> bool" where
  "broker_ok b \<longleftrightarrow> distinct (dict_keys (tb_atnagents b)) \<and> distinct (dict_keys (tb_leases b))
     \<and> (\<forall>d s. dict_get (tb_atnagents b) d = Some s \<longrightarrow> publications_ok (ts_publications s))"

text \<open>
  What the caller of \<^verbatim>\<open>publish\<close> establishes about one batch: ranks and handles are pairwise distinct
  (\<^verbatim>\<open>validate_atnagent_transport_arenas\<close> rejects any other batch).
\<close>

definition batch_ok :: "transport_arena_publication list \<Rightarrow> bool" where
  "batch_ok ps \<longleftrightarrow> distinct (map pub_instance ps) \<and> distinct (map pub_handle ps)"

text \<open>A publication agrees with a table: its rank is free or holds it, and its handle is free or its own.\<close>

definition agrees :: "(instance_rank_id, transport_arena_publication) dict \<Rightarrow> transport_arena_publication \<Rightarrow> bool" where
  "agrees d p \<longleftrightarrow> (\<forall>q. dict_get d (pub_instance p) = Some q \<longrightarrow> q = p)
     \<and> (\<forall>j q. dict_get d j = Some q \<longrightarrow> pub_handle q = pub_handle p \<longrightarrow> j = pub_instance p)"

lemma publications_ok_set:
  "publications_ok d \<Longrightarrow> agrees d p \<Longrightarrow> publications_ok (dict_set (pub_instance p) p d)"
  unfolding publications_ok_def agrees_def by (simp add: distinct_update)

lemma agrees_after_set:
  "agrees d p' \<Longrightarrow> pub_instance p' \<noteq> pub_instance p \<Longrightarrow> pub_handle p' \<noteq> pub_handle p \<Longrightarrow>
   agrees (dict_set (pub_instance p) p d) p'"
  unfolding agrees_def by auto

lemma publications_ok_batch:
  "publications_ok d \<Longrightarrow> batch_ok ps \<Longrightarrow> \<forall>p\<in>set ps. agrees d p \<Longrightarrow>
   publications_ok (dict_of (map (\<lambda>p. (pub_instance p, p)) ps) d)"
proof (induction ps arbitrary: d)
  case (Cons p ps)
  have "publications_ok (dict_set (pub_instance p) p d)" using Cons.prems by (simp add: publications_ok_set)
  moreover have "batch_ok ps" using Cons.prems(2) by (simp add: batch_ok_def)
  moreover have "agrees (dict_set (pub_instance p) p d) p'" if "p' \<in> set ps" for p'
  proof (rule agrees_after_set)
    show "agrees d p'" using Cons.prems(3) that by simp
    show "pub_instance p' \<noteq> pub_instance p" "pub_handle p' \<noteq> pub_handle p"
      using Cons.prems(2) that by (metis batch_ok_def distinct.simps(2) image_eqI list.set_map list.simps(9))+
  qed
  ultimately show ?case using Cons.IH by simp
qed simp

lemma check_publications_Inr:
  "check_publications published by_handle ps = Inr u \<longleftrightarrow>
     (\<forall>p\<in>set ps. (\<forall>existing. dict_get published (pub_instance p) = Some existing \<longrightarrow> existing = p)
        \<and> (\<forall>owner. dict_get by_handle (pub_handle p) = Some owner \<longrightarrow> owner = pub_instance p))"
  by (induction ps) (auto split: option.splits)

lemma by_handle_get:
  assumes ok: "publications_ok d" and get: "dict_get d i = Some p"
  shows "dict_get (dict_of (map (\<lambda>(instance, p). (pub_handle p, instance)) d) []) (pub_handle p) = Some i"
proof -
  let ?m = "rev (map (\<lambda>(instance, p). (pub_handle p, instance)) d)"
  have "(pub_handle p, i) \<in> set ?m" using map_of_SomeD [OF get] by force
  then obtain j where j: "map_of ?m (pub_handle p) = Some j"
    by (metis weak_map_of_SomeI)
  from map_of_SomeD [OF this] obtain q where "(j, q) \<in> set d" and h: "pub_handle q = pub_handle p" by auto
  then have "dict_get d j = Some q" using ok by (simp add: publications_ok_def)
  then have "j = i" using ok get h unfolding publications_ok_def by metis
  with j show ?thesis by (simp add: map_of_dict_of)
qed

lemma check_publications_agrees:
  assumes "publications_ok d"
    and "check_publications d (dict_of (map (\<lambda>(instance, p). (pub_handle p, instance)) d) []) ps = Inr u"
  shows "\<forall>p\<in>set ps. agrees d p"
proof
  fix p
  assume "p \<in> set ps"
  then have inst: "\<forall>q. dict_get d (pub_instance p) = Some q \<longrightarrow> q = p"
    and handle: "\<forall>owner. dict_get (dict_of (map (\<lambda>(instance, p). (pub_handle p, instance)) d) []) (pub_handle p)
                  = Some owner \<longrightarrow> owner = pub_instance p"
    using assms(2) unfolding check_publications_Inr by blast+
  have "j = pub_instance p" if "dict_get d j = Some q" "pub_handle q = pub_handle p" for j q
    using by_handle_get [OF assms(1) that(1)] handle that(2) by simp
  with inst show "agrees d p" by (simp add: agrees_def)
qed

lemma broker_ok_set_state:
  "broker_ok b \<Longrightarrow> publications_ok (ts_publications s) \<Longrightarrow>
   broker_ok (b\<lparr>tb_atnagents := dict_set device s (tb_atnagents b)\<rparr>)"
  by (auto simp: broker_ok_def distinct_update)

lemma require_owner_Inr:
  "require_owner device owner b = Inr s \<longleftrightarrow> dict_get (tb_atnagents b) device = Some s \<and> ts_owner s = owner"
  by (auto simp: require_owner_def split: option.splits)

lemma install_atnagent_ok: "broker_ok b \<Longrightarrow> broker_ok (snd (install_atnagent device owner b))"
  by (auto simp: install_atnagent_def ret_def AtnAgentTransportState_def publications_ok_def
           intro!: broker_ok_set_state split: option.splits)

lemma quiesce_leases_ok: "broker_ok b \<Longrightarrow> broker_ok (snd (quiesce_leases device owner b))"
proof (cases "require_owner device owner b")
  case (Inr s)
  assume ok: "broker_ok b"
  from Inr have "publications_ok (ts_publications s)" using ok by (metis require_owner_Inr broker_ok_def)
  then show ?thesis using ok Inr by (simp add: quiesce_leases_def ret_def broker_ok_set_state)
qed (simp add: quiesce_leases_def raise_def)

lemma acquire_ok: "broker_ok b \<Longrightarrow> broker_ok (snd (acquire i lease b))"
  by (auto simp: acquire_def ret_def raise_def broker_ok_def distinct_update split: option.splits)

lemma remove_instance_ok: "broker_ok b \<Longrightarrow> broker_ok (snd (remove_instance i b))"
  by (auto simp: remove_instance_def ret_def broker_ok_def distinct_delete)

lemma publish_Inr:
  assumes "publish device owner ps b = (Inr u, b')"
  obtains s where "dict_get (tb_atnagents b) device = Some s" and "ts_owner s = owner" and "accepting_leases s"
    and "check_publications (ts_publications s)
           (dict_of (map (\<lambda>(instance, p). (pub_handle p, instance)) (ts_publications s)) []) ps = Inr ()"
    and "b' = b\<lparr>tb_atnagents := dict_set device
           (s\<lparr>ts_publications := dict_of (map (\<lambda>p. (pub_instance p, p)) ps) (ts_publications s)\<rparr>) (tb_atnagents b)\<rparr>"
  using assms
  by (auto simp: publish_def ret_def raise_def require_owner_Inr Let_def split: if_splits sum.splits)

lemma publish_Inl: "publish device owner ps b = (Inl e, b') \<Longrightarrow> b' = b"
  by (auto simp: publish_def ret_def raise_def Let_def split: if_splits sum.splits)

lemma publish_ok:
  assumes "broker_ok b" and "batch_ok ps"
  shows "broker_ok (snd (publish device owner ps b))"
proof (cases "publish device owner ps b")
  case (Pair r b')
  show ?thesis
  proof (cases r)
    case (Inl e)
    then show ?thesis using Pair publish_Inl assms by fastforce
  next
    case (Inr u)
    with Pair obtain s where s: "dict_get (tb_atnagents b) device = Some s"
      and check: "check_publications (ts_publications s)
           (dict_of (map (\<lambda>(instance, p). (pub_handle p, instance)) (ts_publications s)) []) ps = Inr ()"
      and b': "b' = b\<lparr>tb_atnagents := dict_set device
           (s\<lparr>ts_publications := dict_of (map (\<lambda>p. (pub_instance p, p)) ps) (ts_publications s)\<rparr>) (tb_atnagents b)\<rparr>"
      by (auto elim: publish_Inr)
    have "publications_ok (ts_publications s)" using assms(1) s by (simp add: broker_ok_def)
    then have "publications_ok (dict_of (map (\<lambda>p. (pub_instance p, p)) ps) (ts_publications s))"
      using check assms(2) by (intro publications_ok_batch check_publications_agrees) auto
    then show ?thesis using Pair b' assms(1) by (simp add: broker_ok_set_state)
  qed
qed

lemma batch_keeps:
  assumes "dict_get d i = Some p" and "check_publications d by_handle ps = Inr u"
  shows "dict_get (dict_of (map (\<lambda>p. (pub_instance p, p)) ps) d) i = Some p"
proof -
  have "q = p" if "map_of (rev (map (\<lambda>p. (pub_instance p, p)) ps)) i = Some q" for q
  proof -
    have "q \<in> set ps" "pub_instance q = i" using map_of_SomeD [OF that] by auto
    then show ?thesis using assms unfolding check_publications_Inr by blast
  qed
  then show ?thesis using assms(1) by (auto simp: map_of_dict_of split: option.splits)
qed

text \<open>
  C33: Publishing never replaces an arena: whether the batch is accepted or rejected, every publication
  already recorded for an Instance rank on any device is still there unchanged, so a lease granted for it
  keeps pointing at a published arena.
\<close>

theorem publication_is_permanent:
  assumes "published_for d i b = Some p" and "batch_ok ps" and "broker_ok b"
  shows "published_for d i (snd (publish device owner ps b)) = Some p"
proof (cases "publish device owner ps b")
  case (Pair r b')
  show ?thesis
  proof (cases r)
    case (Inl e)
    then show ?thesis using Pair publish_Inl assms by fastforce
  next
    case (Inr u)
    with Pair obtain s where s: "dict_get (tb_atnagents b) device = Some s"
      and check: "check_publications (ts_publications s)
           (dict_of (map (\<lambda>(instance, p). (pub_handle p, instance)) (ts_publications s)) []) ps = Inr ()"
      and b': "b' = b\<lparr>tb_atnagents := dict_set device
           (s\<lparr>ts_publications := dict_of (map (\<lambda>p. (pub_instance p, p)) ps) (ts_publications s)\<rparr>) (tb_atnagents b)\<rparr>"
      by (auto elim: publish_Inr)
    have "dict_get (dict_of (map (\<lambda>p. (pub_instance p, p)) ps) (ts_publications s)) i = Some p"
      if "dict_get (ts_publications s) i = Some p"
      using that check by (rule batch_keeps)
    then show ?thesis using Pair b' s assms(1) by (auto simp: published_for_def split: option.splits if_splits)
  qed
qed

definition sample_publication :: transport_arena_publication where
  "sample_publication =
     \<lparr>pub_instance = \<lparr>iri_model_id = ''a/b'', iri_rank = 0\<rparr>, pub_handle = ''ab'',
      pub_transport = reg_transport (sample_instance_registration 0)\<rparr>"

definition sample_broker :: transport_broker where
  "sample_broker =
     \<lparr>tb_atnagents = [(0, \<lparr>ts_owner = \<lparr>proc_pid = 7, proc_create_time = 1\<rparr>,
                        ts_publications = [(pub_instance sample_publication, sample_publication)],
                        accepting_leases = True\<rparr>)],
      tb_leases = []\<rparr>"

theorem publication_is_permanent_witness:
  "published_for 0 (pub_instance sample_publication)
     (snd (publish 0 \<lparr>proc_pid = 7, proc_create_time = 1\<rparr>
             [sample_publication\<lparr>pub_handle := ''cd''\<rparr>] sample_broker)) = Some sample_publication"
proof (rule publication_is_permanent)
  show "published_for 0 (pub_instance sample_publication) sample_broker = Some sample_publication"
    by (simp add: published_for_def sample_broker_def)
  show "batch_ok [sample_publication\<lparr>pub_handle := ''cd''\<rparr>]" by (simp add: batch_ok_def)
  show "broker_ok sample_broker"
    by (auto simp: broker_ok_def sample_broker_def publications_ok_def split: if_splits)
qed

end
