(* ===== verification/Fabric_Controller.thy ===== *)
theory Fabric_Controller
  imports Transport
begin

section \<open>The Fabric generation controller\<close>

text \<open>
  Models \<^verbatim>\<open>src/xpool/service/daemon/fabric.py\<close>: capturing a complete membership, the state of one
  generation and the controller operations on it. An operation returns its result together with the
  state it leaves, because a rejected report records the failure and aborts the generation before it
  raises. The generation object's identity is \<open>gs_oid\<close>. The second half states the barrier
  protocol abstractly, as a step relation on the generation phase and the participants' phases, and shows
  that every controller operation refines it.
\<close>

subsection \<open>Membership\<close>

record fabric_membership =
  fm_revision :: nat
  fm_model_specs :: "ffn_model_spec list"
  fm_instance_plans :: "fabric_instance_plan list"
  fm_ffnagent_free_memory_bytes :: "int list"
  fm_memory_context :: fabric_memory_context
  fm_pe_placements :: "fabric_pe_placement list"
  fm_agent_owners :: "(int \<times> proc_uniq_id) list"
  fm_instance_owners :: "(instance_rank_id \<times> proc_uniq_id) list"

definition rank_ids :: "xpool_config \<Rightarrow> model_id \<Rightarrow> instance_rank_id list" where
  "rank_ids config m = map (\<lambda>rank. \<lparr>iri_model_id = m, iri_rank = int rank\<rparr>) [0..<nat (atn_world_size config)]"

text \<open>One iteration of the loop over configured Instances: \<open>None\<close> is the early \<^verbatim>\<open>return None\<close>.\<close>

definition capture_instance ::
    "xpool_config \<Rightarrow> (instance_rank_id, instance_rank_registration_state) dict \<Rightarrow> instance_config
     \<Rightarrow> (fabric_instance_plan \<times> (instance_rank_id \<times> proc_uniq_id) list) option result" where
  "capture_instance config instance_by_rank inst =
     rbind (dict_item (model_by_id config) (inst_model_id inst)) (\<lambda>model.
     rbind (atn_tp_size_of config (inst_model_id inst)) (\<lambda>tp.
       let dp = cfg_atn_dp_size model;
           ranks = map (dict_get instance_by_rank) (rank_ids config (inst_model_id inst))
       in if None \<in> set ranks then Inr None
          else let complete = map the ranks
          in rbind (index_at complete 0) (\<lambda>first.
             if \<exists>r\<in>set (tl complete). reg_ffn_profile r \<noteq> reg_ffn_profile first
             then Inl (XpoolDaemonError Conflict ''FFN ffn_profile disagrees across instance ranks'')
             else if set (map (\<lambda>r. (atn_tp_rank (reg_transport r), atn_dp_rank (reg_transport r))) complete)
                     \<noteq> set (List.product (map int [0..<nat tp]) (map int [0..<nat dp]))
             then Inl (XpoolDaemonError Conflict ''instance ranks do not cover each TP-fastest coordinate once'')
             else rbind (InstanceRankTopology
                          \<lparr>topo_atn_tp_size = tp, topo_atn_dp_size = dp,
                           atnagent_indices = map int [0..<nat (atn_world_size config)]\<rparr>) (\<lambda>topology.
                  Inr (Some (\<lparr>ip_model_id = inst_model_id inst, ip_ffn_profile = reg_ffn_profile first,
                              ip_topology = topology\<rparr>,
                             map (\<lambda>r. (reg_instance r, reg_proc r)) complete))))))"

fun capture_instances ::
    "xpool_config \<Rightarrow> (instance_rank_id, instance_rank_registration_state) dict \<Rightarrow> instance_config list
     \<Rightarrow> (fabric_instance_plan list \<times> (instance_rank_id \<times> proc_uniq_id) list) option result" where
  "capture_instances config table [] = Inr (Some ([], []))"
| "capture_instances config table (inst # insts) =
     rbind (capture_instance config table inst) (\<lambda>captured.
       case captured of
         None \<Rightarrow> Inr None
       | Some (plan, owners) \<Rightarrow>
           rbind (capture_instances config table insts) (\<lambda>rest.
             case rest of
               None \<Rightarrow> Inr None
             | Some (plans, rest_owners) \<Rightarrow> Inr (Some (plan # plans, owners @ rest_owners))))"

definition membership_placements :: "xpool_config \<Rightarrow> fabric_pe_placement list" where
  "membership_placements config =
     map (\<lambda>d. \<lparr>pe_role = Role_ATNAGENT, pe_device = d\<rparr>) (atn_devices (cfg_atn config))
     @ map (\<lambda>d. \<lparr>pe_role = Role_FFNAGENT, pe_device = d\<rparr>) (ffn_devices (cfg_ffn config))"

definition capture_membership ::
    "xpool_config \<Rightarrow> registration_book \<Rightarrow> nat \<Rightarrow> fabric_membership option result" where
  "capture_membership config book revision =
     (let instance_by_rank = dict_of (map (\<lambda>r. (reg_instance r, r)) (dict_values (book_instances book))) [];
          atn_by_device = dict_of (map (\<lambda>r. (atn_device r, r)) (dict_values (book_atnagents book))) [];
          ffn_by_device = dict_of (map (\<lambda>r. (ffn_device r, r)) (dict_values (book_ffnagents book))) [];
          atns = atn_devices (cfg_atn config);
          ffns = ffn_devices (cfg_ffn config);
          placements = membership_placements config
      in if \<exists>d\<in>set atns. dict_get atn_by_device d = None then Inr None
         else if \<exists>d\<in>set ffns. dict_get ffn_by_device d = None then Inr None
         else case ffn_model_specs book of
                None \<Rightarrow> Inr None
              | Some model_specs \<Rightarrow>
         rbind (capture_instances config instance_by_rank (config_instances config)) (\<lambda>captured.
         case captured of
           None \<Rightarrow> Inr None
         | Some (iplans, iowners) \<Rightarrow>
         rbind (rmap (\<lambda>(pe, placement).
                  case pe_role placement of
                    Role_ATNAGENT \<Rightarrow> rbind (dict_item atn_by_device (pe_device placement)) (\<lambda>r. Inr (int pe, reg_proc r))
                  | Role_FFNAGENT \<Rightarrow> rbind (dict_item ffn_by_device (pe_device placement)) (\<lambda>r. Inr (int pe, reg_proc r)))
                (enumerate 0 placements)) (\<lambda>agent_owners.
         rbind (rmap (\<lambda>d. rbind (dict_item atn_by_device d) (\<lambda>r. Inr (atn_calibration_environment r))) atns) (\<lambda>obs1.
         rbind (rmap (dict_item ffn_by_device) ffns) (\<lambda>ffn_regs.
           let observations = obs1 @ map ffn_calibration_environment ffn_regs;
               participants = map the (filter (\<lambda>o1. o1 \<noteq> None) observations)
           in if participants \<noteq> [] \<and> length participants \<noteq> length observations
              then Inl (XpoolDaemonError Conflict ''Fabric membership has partial memory compatibility observations'')
              else rbind (FabricMemoryContext
                           \<lparr>ctx_participants = (if participants \<noteq> [] then Some participants else None),
                            ctx_ffn_execution = map execution_contract ffn_regs\<rparr>) (\<lambda>context.
                   Inr (Some \<lparr>fm_revision = revision, fm_model_specs = model_specs,
                              fm_instance_plans = iplans,
                              fm_ffnagent_free_memory_bytes = map device_free_memory_bytes ffn_regs,
                              fm_memory_context = context, fm_pe_placements = placements,
                              fm_agent_owners = agent_owners, fm_instance_owners = iowners\<rparr>)))))))"

definition membership_owners :: "fabric_membership \<Rightarrow> proc_uniq_id list" where
  "membership_owners m = dedup (map snd (fm_agent_owners m) @ map snd (fm_instance_owners m))"

subsection \<open>One generation\<close>

record fabric_generation_state =
  gs_oid :: nat
  gs_plan :: fabric_deployment_plan
  gs_phase :: fabric_generation_phase
  gs_phase_started_at :: real
  gs_invocation_failure :: "fabric_invocation_failure option"
  gs_owner_failure :: "fabric_owner_failure option"
  gs_control_failure :: "string option"
  gs_agent_owners :: "(int, proc_uniq_id) dict"
  gs_instance_owners :: "(instance_rank_id, proc_uniq_id) dict"
  gs_participants :: "(int, fabric_participant_report) dict"
  gs_initialized_instances :: "(instance_rank_id, proc_uniq_id) dict"

definition record_control_failure :: "string \<Rightarrow> (fabric_generation_state, unit) op" where
  "record_control_failure failure g =
     (if failure = [] then raise (ValueError ''Fabric control failure must be nonempty'') g
      else if gs_control_failure g = None then ret () (g\<lparr>gs_control_failure := Some failure\<rparr>)
      else ret () g)"

definition record_invocation_failure :: "fabric_invocation_failure \<Rightarrow> (fabric_generation_state, unit) op" where
  "record_invocation_failure failure g =
     (case gs_invocation_failure g of
        None \<Rightarrow> ret () (g\<lparr>gs_invocation_failure := Some failure\<rparr>)
      | Some f \<Rightarrow>
          if f \<noteq> failure
          then record_control_failure ''participants reported conflicting canonical invocation failures'' g
          else ret () g)"

definition record_owner_failure :: "fabric_owner_failure \<Rightarrow> fabric_generation_state \<Rightarrow> fabric_generation_state" where
  "record_owner_failure failure g =
     (if gs_owner_failure g = None then g\<lparr>gs_owner_failure := Some failure\<rparr> else g)"

definition transition :: "fabric_generation_phase \<Rightarrow> real \<Rightarrow> (fabric_generation_state, unit) op" where
  "transition phase now g =
     (if gs_phase g = phase then ret () g
      else if \<not> generation_allows (gs_phase g) phase
      then raise (XpoolDaemonError Conflict ''Fabric generation cannot transition'') g
      else ret () (g\<lparr>gs_phase := phase, gs_phase_started_at := now\<rparr>))"

subsection \<open>The controller\<close>

type_synonym fabric_controller = "fabric_generation_state option"

definition on_generation :: "(fabric_generation_state, 'a) op \<Rightarrow> fabric_generation_state \<Rightarrow> 'a result \<times> fabric_controller" where
  "on_generation m g = (case m g of (r, g') \<Rightarrow> (r, Some g'))"

definition require_plan :: "fabric_controller \<Rightarrow> fabric_deployment_plan result" where
  "require_plan c =
     (case c of
        None \<Rightarrow> Inl (XpoolDaemonError NotReady ''fabric plan requires every configured owner and ffn_profile'')
      | Some g \<Rightarrow> Inr (gs_plan g))"

definition install_generation :: "fabric_generation_state \<Rightarrow> (fabric_controller, fabric_deployment_plan) op" where
  "install_generation g c =
     (case c of Some current \<Rightarrow> ret (gs_plan current) c | None \<Rightarrow> ret (gs_plan g) (Some g))"

definition quiesce :: "real \<Rightarrow> (fabric_controller, unit) op" where
  "quiesce now c =
     (case c of
        None \<Rightarrow> raise (XpoolDaemonError Conflict ''fabric quiesce requires a retained generation'') c
      | Some g \<Rightarrow>
          if gs_phase g \<in> {Gen_PREPARING_JOIN, Gen_JOINING, Gen_PREPARING_EXECUTION, Gen_ACTIVATING}
          then on_generation (transition Gen_ABORTING now) g
          else if gs_phase g = Gen_EXECUTABLE then on_generation (transition Gen_QUIESCING now) g
          else ret () c)"

definition abort :: "real \<Rightarrow> (fabric_controller, unit) op" where
  "abort now c =
     (case c of
        None \<Rightarrow> ret () c
      | Some g \<Rightarrow>
          if gs_phase g \<in> {Gen_ABORTING, Gen_STOPPED} then ret () c
          else on_generation (transition Gen_ABORTING now) g)"

definition instance_departed ::
    "instance_rank_id \<Rightarrow> fabric_owner_failure \<Rightarrow> bool \<Rightarrow> real \<Rightarrow> (fabric_controller, unit) op" where
  "instance_departed instance_id failure leases_quiescing now c =
     (case c of
        None \<Rightarrow> ret () c
      | Some g0 \<Rightarrow>
          let g = g0\<lparr>gs_initialized_instances := dict_del instance_id (gs_initialized_instances g0)\<rparr>
          in if gs_phase g = Gen_QUIESCING \<and> leases_quiescing then ret () (Some g)
             else if gs_phase g \<in> {Gen_DRAINING, Gen_FINALIZING, Gen_ABORTING, Gen_STOPPED} then ret () (Some g)
             else quiesce now (Some (record_owner_failure failure g)))"

definition record_initialized ::
    "instance_rank_id \<Rightarrow> proc_uniq_id \<Rightarrow> fabric_generation_id \<Rightarrow> (fabric_controller, unit) op" where
  "record_initialized instance_id owner generation c =
     (case c of
        None \<Rightarrow> raise (XpoolDaemonError NotReady ''fabric generation retired during initialization'') c
      | Some g \<Rightarrow>
          if generation \<noteq> fp_generation (gs_plan g)
          then raise (XpoolDaemonError Conflict ''instance initialized generation differs'') c
          else if gs_phase g \<noteq> Gen_EXECUTABLE
          then raise (XpoolDaemonError Conflict ''instance initialization requires executable Fabric'') c
          else if dict_get (gs_instance_owners g) instance_id \<noteq> Some owner
          then raise (XpoolDaemonError Conflict ''instance initialization owner differs from Fabric plan'') c
          else ret () (Some (g\<lparr>gs_initialized_instances :=
                                 dict_set instance_id owner (gs_initialized_instances g)\<rparr>)))"

definition reject_report :: "string \<Rightarrow> real \<Rightarrow> (fabric_controller, 'a) op" where
  "reject_report message now c =
     (case c of
        None \<Rightarrow> raise (XpoolDaemonError Conflict message) c
      | Some g \<Rightarrow>
          (case record_control_failure message g of
             (Inl e, g') \<Rightarrow> (Inl e, Some g')
           | (Inr _, g') \<Rightarrow>
               (case abort now (Some g') of
                  (Inl e, c') \<Rightarrow> (Inl e, c')
                | (Inr _, c') \<Rightarrow> raise (XpoolDaemonError Conflict message) c')))"

definition validate_enrichment ::
    "fabric_participant_report option \<Rightarrow> fabric_participant_report \<Rightarrow> real \<Rightarrow> (fabric_controller, unit) op" where
  "validate_enrichment previous report now c =
     (case previous of
        None \<Rightarrow> ret () c
      | Some old \<Rightarrow>
          if rep_invocation_failure old \<noteq> None \<and> rep_invocation_failure report \<noteq> rep_invocation_failure old
          then reject_report ''participant cannot clear or replace invocation_failure'' now c
          else if rep_control_failure old \<noteq> None \<and> rep_control_failure report \<noteq> rep_control_failure old
          then reject_report ''participant cannot clear or replace control_failure'' now c
          else ret () c)"

fun allowed_phases :: "fabric_generation_phase \<Rightarrow> fabric_participant_phase set" where
  "allowed_phases Gen_PREPARING_JOIN = {Part_JOIN_READY}"
| "allowed_phases Gen_JOINING = {Part_JOINING, Part_JOINED}"
| "allowed_phases Gen_PREPARING_EXECUTION = {Part_EXECUTION_READY}"
| "allowed_phases Gen_ACTIVATING = {Part_ACTIVE}"
| "allowed_phases Gen_QUIESCING = {Part_QUIESCED}"
| "allowed_phases Gen_DRAINING = {Part_DRAINING, Part_DRAINED}"
| "allowed_phases Gen_FINALIZING = {Part_FINALIZED}"
| "allowed_phases Gen_ABORTING = {Part_QUIESCED, Part_DRAINING, Part_DRAINED}"
| "allowed_phases Gen_EXECUTABLE = {}"
| "allowed_phases Gen_STOPPED = {}"

fun barrier_of :: "fabric_generation_phase \<Rightarrow> (fabric_participant_phase \<times> fabric_generation_phase) option" where
  "barrier_of Gen_PREPARING_JOIN = Some (Part_JOIN_READY, Gen_JOINING)"
| "barrier_of Gen_JOINING = Some (Part_JOINED, Gen_PREPARING_EXECUTION)"
| "barrier_of Gen_PREPARING_EXECUTION = Some (Part_EXECUTION_READY, Gen_ACTIVATING)"
| "barrier_of Gen_ACTIVATING = Some (Part_ACTIVE, Gen_EXECUTABLE)"
| "barrier_of Gen_QUIESCING = Some (Part_QUIESCED, Gen_DRAINING)"
| "barrier_of Gen_DRAINING = Some (Part_DRAINED, Gen_FINALIZING)"
| "barrier_of Gen_FINALIZING = Some (Part_FINALIZED, Gen_STOPPED)"
| "barrier_of Gen_EXECUTABLE = None"
| "barrier_of Gen_ABORTING = None"
| "barrier_of Gen_STOPPED = None"

definition pe_count :: "fabric_generation_state \<Rightarrow> nat" where
  "pe_count g = length (pe_placements (gs_plan g))"

definition advance_barrier :: "real \<Rightarrow> (fabric_controller, unit) op" where
  "advance_barrier now c =
     (case c of
        None \<Rightarrow> ret () c
      | Some g \<Rightarrow>
          if set (dict_keys (gs_participants g)) \<noteq> set (map int [0..<pe_count g]) then ret () c
          else case barrier_of (gs_phase g) of
                 None \<Rightarrow> ret () c
               | Some (required, successor) \<Rightarrow>
                   if rep_phase ` set (dict_values (gs_participants g)) = {required}
                   then on_generation (transition successor now) g
                   else ret () c)"

definition commit_report :: "fabric_participant_report \<Rightarrow> real \<Rightarrow> fabric_generation_state \<Rightarrow> unit result \<times> fabric_controller" where
  "commit_report report now g =
     (let g1 = g\<lparr>gs_participants := dict_set (rep_pe report) report (gs_participants g)\<rparr>;
          failures = bind (case rep_invocation_failure report of
                             None \<Rightarrow> ret () | Some f \<Rightarrow> record_invocation_failure f)
                       (\<lambda>_. case rep_control_failure report of
                             None \<Rightarrow> ret () | Some f \<Rightarrow> record_control_failure f)
      in case failures g1 of
           (Inl e, g2) \<Rightarrow> (Inl e, Some g2)
         | (Inr _, g2) \<Rightarrow>
             if gs_control_failure g2 \<noteq> None then abort now (Some g2)
             else if gs_invocation_failure g2 \<noteq> None
                     \<and> gs_phase g2 \<notin> {Gen_QUIESCING, Gen_DRAINING, Gen_FINALIZING}
             then quiesce now (Some g2)
             else advance_barrier now (Some g2))"

definition record_participant :: "fabric_participant_report \<Rightarrow> real \<Rightarrow> (fabric_controller, unit) op" where
  "record_participant report now c =
     (case c of
        None \<Rightarrow> raise (XpoolDaemonError Conflict ''participant reported a retired Fabric generation'') c
      | Some g \<Rightarrow>
          let previous = dict_get (gs_participants g) (rep_pe report);
              phase_changed = (case previous of None \<Rightarrow> True | Some old \<Rightarrow> rep_phase report \<noteq> rep_phase old)
          in if previous = Some report then ret () c
             else if rep_generation report \<noteq> fp_generation (gs_plan g)
             then reject_report ''participant reported a different Fabric generation'' now c
             else if rep_pe report < 0 \<or> rep_pe report \<ge> int (pe_count g)
             then reject_report ''participant reported an unknown Fabric PE'' now c
             else if gs_phase g = Gen_STOPPED
             then raise (XpoolDaemonError Conflict ''terminal Fabric generation accepts only an exact report retry'') c
             else if previous = None \<and> rep_phase report \<noteq> Part_JOIN_READY
             then reject_report ''first participant report must be join_ready'' now c
             else if (case previous of
                        None \<Rightarrow> False
                      | Some old \<Rightarrow> rep_phase report \<noteq> rep_phase old
                          \<and> \<not> participant_allows (gs_phase g = Gen_ABORTING) (rep_phase old) (rep_phase report))
             then reject_report ''participant phase cannot transition'' now c
             else (case validate_enrichment previous report now c of
                     (Inl e, c') \<Rightarrow> (Inl e, c')
                   | (Inr _, _) \<Rightarrow>
                       if phase_changed \<and> rep_phase report \<notin> allowed_phases (gs_phase g)
                       then reject_report ''participant phase is invalid in this generation phase'' now c
                       else commit_report report now g))"

section \<open>The barrier protocol\<close>

text \<open>
  The abstract specification: a generation phase and, for each PE that has reported, its last
  acknowledged phase. A PE moves alone inside the window its generation phase allows; the generation
  moves only when every PE stands at the barrier, or falls to retirement.
\<close>

type_synonym barrier_state = "fabric_generation_phase \<times> (int \<rightharpoonup> fabric_participant_phase)"

inductive barrier_step :: "nat \<Rightarrow> barrier_state \<Rightarrow> barrier_state \<Rightarrow> bool" for n :: nat where
  report: "0 \<le> pe \<Longrightarrow> pe < int n \<Longrightarrow> ph \<noteq> Gen_STOPPED \<Longrightarrow>
     m pe = None \<and> q = Part_JOIN_READY \<or> (\<exists>p. m pe = Some p \<and> participant_allows (ph = Gen_ABORTING) p q) \<Longrightarrow>
     q \<in> allowed_phases ph \<Longrightarrow> barrier_step n (ph, m) (ph, m(pe \<mapsto> q))"
| advance: "dom m = {0 ..< int n} \<Longrightarrow> ran m = {required} \<Longrightarrow> barrier_of ph = Some (required, ph') \<Longrightarrow>
     barrier_step n (ph, m) (ph', m)"
| stop_admission: "barrier_step n (Gen_EXECUTABLE, m) (Gen_QUIESCING, m)"
| fail: "generation_allows ph Gen_ABORTING \<Longrightarrow> barrier_step n (ph, m) (Gen_ABORTING, m)"
| retire: "barrier_step n (Gen_ABORTING, m) (Gen_STOPPED, m)"

inductive_cases barrier_stepE: "barrier_step n s s'"

text \<open>The phases participants may have while the generation is in a given phase.\<close>

fun window :: "fabric_generation_phase \<Rightarrow> fabric_participant_phase set" where
  "window Gen_PREPARING_JOIN = {Part_JOIN_READY}"
| "window Gen_JOINING = {Part_JOIN_READY, Part_JOINING, Part_JOINED}"
| "window Gen_PREPARING_EXECUTION = {Part_JOINED, Part_EXECUTION_READY}"
| "window Gen_ACTIVATING = {Part_EXECUTION_READY, Part_ACTIVE}"
| "window Gen_EXECUTABLE = {Part_ACTIVE}"
| "window Gen_QUIESCING = {Part_ACTIVE, Part_QUIESCED}"
| "window Gen_DRAINING = {Part_QUIESCED, Part_DRAINING, Part_DRAINED}"
| "window Gen_FINALIZING = {Part_DRAINED, Part_FINALIZED}"
| "window Gen_ABORTING = UNIV"
| "window Gen_STOPPED = UNIV"

definition barrier_inv :: "nat \<Rightarrow> barrier_state \<Rightarrow> bool" where
  "barrier_inv n s \<longleftrightarrow> dom (snd s) \<subseteq> {0 ..< int n} \<and> ran (snd s) \<subseteq> window (fst s)
     \<and> (fst s \<notin> {Gen_PREPARING_JOIN, Gen_ABORTING, Gen_STOPPED} \<longrightarrow> dom (snd s) = {0 ..< int n})"

lemma allowed_in_window: "allowed_phases ph \<subseteq> window ph"
  by (cases ph) auto

lemma barrier_window: "barrier_of ph = Some (required, ph') \<Longrightarrow> required \<in> window ph'"
  by (cases ph) auto

lemma barrier_allowed: "barrier_of ph = Some (required, ph') \<Longrightarrow> generation_allows ph ph'"
  by (cases ph) (auto simp: generation_allows_def)

lemma ran_upd_subset: "ran m \<subseteq> A \<Longrightarrow> q \<in> A \<Longrightarrow> ran (m(pe \<mapsto> q)) \<subseteq> A"
  by (auto simp: ran_def split: if_splits)

lemma barrier_step_inv: "barrier_step n s s' \<Longrightarrow> barrier_inv n s \<Longrightarrow> barrier_inv n s'"
proof (induction rule: barrier_step.induct)
  case (report pe ph m q)
  then have "q \<in> window ph" using allowed_in_window by blast
  moreover have "ran m \<subseteq> window ph" using report by (simp add: barrier_inv_def)
  ultimately have "ran (m(pe \<mapsto> q)) \<subseteq> window ph" by (intro ran_upd_subset)
  with report show ?case by (auto simp: barrier_inv_def)
next
  case (advance m required ph ph')
  then show ?case using barrier_window [of ph required ph'] by (auto simp: barrier_inv_def)
qed (auto simp: barrier_inv_def)

lemma barrier_steps_inv: "(barrier_step n)\<^sup>*\<^sup>* s s' \<Longrightarrow> barrier_inv n s \<Longrightarrow> barrier_inv n s'"
  by (induction rule: rtranclp_induct) (auto intro: barrier_step_inv)

lemma barrier_initial: "barrier_inv n (Gen_PREPARING_JOIN, Map.empty)"
  by (simp add: barrier_inv_def)

text \<open>Abstract steps follow the lifecycle edges of generations and of every participant.\<close>

lemma barrier_step_phase: "barrier_step n s s' \<Longrightarrow> fst s' = fst s \<or> generation_allows (fst s) (fst s')"
  by (induction rule: barrier_step.induct) (auto simp: barrier_allowed, auto simp: generation_allows_def)

lemma barrier_steps_phase: "(barrier_step n)\<^sup>*\<^sup>* s s' \<Longrightarrow> generation_allows\<^sup>*\<^sup>* (fst s) (fst s')"
proof (induction rule: rtranclp_induct)
  case (step s' s'')
  then show ?case using barrier_step_phase [OF step(2)] by (metis rtranclp.rtrancl_into_rtrancl)
qed simp

lemma barrier_step_participant:
  "barrier_step n s s' \<Longrightarrow> snd s pe = Some p \<Longrightarrow> \<exists>q. snd s' pe = Some q \<and> (q = p \<or> participant_edge p q)"
  by (induction rule: barrier_step.induct) (auto simp: participant_edge_def, metis)

lemma barrier_steps_participant:
  "(barrier_step n)\<^sup>*\<^sup>* s s' \<Longrightarrow> snd s pe = Some p \<Longrightarrow> \<exists>q. snd s' pe = Some q \<and> participant_edge\<^sup>*\<^sup>* p q"
proof (induction rule: rtranclp_induct)
  case (step s' s'')
  then obtain q where q: "snd s' pe = Some q" "participant_edge\<^sup>*\<^sup>* p q" by blast
  then show ?case using barrier_step_participant [OF step(2) q(1)] by (metis rtranclp.rtrancl_into_rtrancl)
qed auto

section \<open>The controller refines the barrier protocol\<close>

definition barrier_abs :: "fabric_generation_state \<Rightarrow> barrier_state" where
  "barrier_abs g = (gs_phase g, \<lambda>pe. map_option rep_phase (dict_get (gs_participants g) pe))"

text \<open>
  How an operation may change a generation: the plan, the owners and the identity stay, recorded
  failures stay, and the abstract state makes zero or more protocol steps.
\<close>

definition evolves :: "fabric_generation_state \<Rightarrow> fabric_generation_state \<Rightarrow> bool" where
  "evolves g g' \<longleftrightarrow> gs_oid g' = gs_oid g \<and> gs_plan g' = gs_plan g \<and> gs_agent_owners g' = gs_agent_owners g
     \<and> gs_instance_owners g' = gs_instance_owners g
     \<and> (gs_control_failure g \<noteq> None \<longrightarrow> gs_control_failure g' = gs_control_failure g)
     \<and> (gs_owner_failure g \<noteq> None \<longrightarrow> gs_owner_failure g' = gs_owner_failure g)
     \<and> (gs_invocation_failure g \<noteq> None \<longrightarrow> gs_invocation_failure g' = gs_invocation_failure g)
     \<and> (barrier_step (pe_count g))\<^sup>*\<^sup>* (barrier_abs g) (barrier_abs g')"

text \<open>
  Well-formed generations: reports are filed under their PE and belong to this generation, an
  initialized rank is initialized by its planned owner, and a control failure has selected retirement.
\<close>

definition failure_retires :: "fabric_generation_state \<Rightarrow> bool" where
  "failure_retires g \<longleftrightarrow> (gs_control_failure g \<noteq> None \<longrightarrow> gs_phase g \<in> {Gen_ABORTING, Gen_STOPPED})"

definition gen_tables_ok :: "fabric_generation_state \<Rightarrow> bool" where
  "gen_tables_ok g \<longleftrightarrow> distinct (dict_keys (gs_participants g))
     \<and> (\<forall>pe r. dict_get (gs_participants g) pe = Some r \<longrightarrow>
           rep_pe r = pe \<and> rep_generation r = fp_generation (gs_plan g))
     \<and> (\<forall>i owner. dict_get (gs_initialized_instances g) i = Some owner \<longrightarrow>
           dict_get (gs_instance_owners g) i = Some owner)"

definition gen_ok :: "fabric_generation_state \<Rightarrow> bool" where
  "gen_ok g \<longleftrightarrow> gen_tables_ok g \<and> failure_retires g \<and> barrier_inv (pe_count g) (barrier_abs g)"

lemma evolves_refl [simp]: "evolves g g"
  by (simp add: evolves_def)

lemma evolves_trans: "evolves g g' \<Longrightarrow> evolves g' g'' \<Longrightarrow> evolves g g''"
  by (auto simp: evolves_def pe_count_def intro: rtranclp_trans)

lemma evolves_inv: "evolves g g' \<Longrightarrow> barrier_inv (pe_count g) (barrier_abs g) \<Longrightarrow> barrier_inv (pe_count g') (barrier_abs g')"
  by (auto simp: evolves_def pe_count_def intro: barrier_steps_inv)

text \<open>The outcome of an operation on a retained generation, and the sequencing of two of them.\<close>

definition fine :: "fabric_generation_state \<Rightarrow> fabric_controller \<Rightarrow> bool" where
  "fine g c \<longleftrightarrow> (\<exists>g'. c = Some g' \<and> evolves g g' \<and> (gen_tables_ok g \<longrightarrow> gen_tables_ok g')
     \<and> (failure_retires g \<longrightarrow> failure_retires g'))"

lemma fine_refl [simp]: "fine g (Some g)"
  by (simp add: fine_def)

lemma fine_gen_ok: "fine g c \<Longrightarrow> gen_ok g \<Longrightarrow> \<exists>g'. c = Some g' \<and> evolves g g' \<and> gen_ok g'"
  by (auto simp: fine_def gen_ok_def intro: evolves_inv)

lemma gen_tables_ok_phase [simp]:
  "gen_tables_ok (g\<lparr>gs_phase := ph, gs_phase_started_at := now\<rparr>) = gen_tables_ok g"
  "gen_tables_ok (g\<lparr>gs_control_failure := f1\<rparr>) = gen_tables_ok g"
  "gen_tables_ok (g\<lparr>gs_owner_failure := f2\<rparr>) = gen_tables_ok g"
  "gen_tables_ok (g\<lparr>gs_invocation_failure := f3\<rparr>) = gen_tables_ok g"
  by (simp_all add: gen_tables_ok_def)

lemma barrier_abs_simps [simp]:
  "barrier_abs (g\<lparr>gs_phase := ph, gs_phase_started_at := now\<rparr>) = (ph, snd (barrier_abs g))"
  "barrier_abs (g\<lparr>gs_control_failure := f1\<rparr>) = barrier_abs g"
  "barrier_abs (g\<lparr>gs_owner_failure := f2\<rparr>) = barrier_abs g"
  "barrier_abs (g\<lparr>gs_invocation_failure := f3\<rparr>) = barrier_abs g"
  "barrier_abs (g\<lparr>gs_initialized_instances := f4\<rparr>) = barrier_abs g"
  by (simp_all add: barrier_abs_def)

lemma barrier_abs_phase: "fst (barrier_abs g) = gs_phase g"
  by (simp add: barrier_abs_def)

lemma transition_fine:
  assumes "barrier_step (pe_count g) (barrier_abs g) (phase, snd (barrier_abs g))"
    and "failure_retires g \<Longrightarrow> gs_control_failure g \<noteq> None \<Longrightarrow> phase \<in> {Gen_ABORTING, Gen_STOPPED}"
  shows "fine g (snd (on_generation (transition phase now) g))"
proof -
  have "evolves g (g\<lparr>gs_phase := phase, gs_phase_started_at := now\<rparr>)"
    using assms(1) by (simp add: evolves_def r_into_rtranclp)
  then show ?thesis
    using assms(2) by (auto simp: fine_def on_generation_def transition_def ret_def raise_def failure_retires_def)
qed

lemma abort_fine: "fine g (snd (abort now (Some g)))"
proof (cases "gs_phase g \<in> {Gen_ABORTING, Gen_STOPPED}")
  case False
  then have "barrier_step (pe_count g) (barrier_abs g) (Gen_ABORTING, snd (barrier_abs g))"
    unfolding barrier_abs_def by (auto simp: generation_allows_def intro!: barrier_step.fail)
  then have "fine g (snd (on_generation (transition Gen_ABORTING now) g))"
    by (rule transition_fine) auto
  with False show ?thesis by (simp add: abort_def)
qed (auto simp: abort_def ret_def)

lemma abort_result:
  "\<exists>g'. abort now (Some g) = (Inr (), Some g') \<and> gs_phase g' \<in> {Gen_ABORTING, Gen_STOPPED}"
  by (auto simp: abort_def ret_def on_generation_def transition_def generation_allows_def raise_def)

lemma quiesce_fine: "fine g (snd (quiesce now (Some g)))"
proof -
  let ?s = "snd (barrier_abs g)"
  consider (early) "gs_phase g \<in> {Gen_PREPARING_JOIN, Gen_JOINING, Gen_PREPARING_EXECUTION, Gen_ACTIVATING}"
    | (admitting) "gs_phase g = Gen_EXECUTABLE"
    | (late) "gs_phase g \<notin> {Gen_PREPARING_JOIN, Gen_JOINING, Gen_PREPARING_EXECUTION, Gen_ACTIVATING, Gen_EXECUTABLE}"
    by blast
  then show ?thesis
  proof cases
    case early
    then have "barrier_step (pe_count g) (barrier_abs g) (Gen_ABORTING, ?s)"
      unfolding barrier_abs_def by (auto simp: generation_allows_def intro!: barrier_step.fail)
    then have "fine g (snd (on_generation (transition Gen_ABORTING now) g))" by (rule transition_fine) auto
    with early show ?thesis by (simp add: quiesce_def)
  next
    case admitting
    then have "barrier_step (pe_count g) (barrier_abs g) (Gen_QUIESCING, ?s)"
      unfolding barrier_abs_def by (auto intro: barrier_step.stop_admission)
    then have "fine g (snd (on_generation (transition Gen_QUIESCING now) g))"
      by (rule transition_fine) (simp add: failure_retires_def admitting)
    with admitting show ?thesis by (simp add: quiesce_def)
  next
    case late
    then show ?thesis by (simp add: quiesce_def ret_def)
  qed
qed

lemma fine_trans: "fine g (Some g1) \<Longrightarrow> fine g1 c \<Longrightarrow> fine g c"
  by (auto simp: fine_def intro: evolves_trans)

text \<open>Recording a control failure breaks the failure clause until the abort that follows.\<close>

lemma record_control_failure_evolves:
  "evolves g (snd (record_control_failure f g)) \<and>
   gen_tables_ok (snd (record_control_failure f g)) = gen_tables_ok g \<and>
   gs_phase (snd (record_control_failure f g)) = gs_phase g"
  by (auto simp: record_control_failure_def ret_def raise_def evolves_def pe_count_def)

lemma record_invocation_failure_evolves:
  "evolves g (snd (record_invocation_failure f g)) \<and>
   gen_tables_ok (snd (record_invocation_failure f g)) = gen_tables_ok g \<and>
   gs_phase (snd (record_invocation_failure f g)) = gs_phase g"
  using record_control_failure_evolves
  by (auto simp: record_invocation_failure_def ret_def evolves_def pe_count_def split: option.splits)

lemma then_abort_fine:
  assumes "evolves g g1" and "gen_tables_ok g \<Longrightarrow> gen_tables_ok g1"
  shows "fine g (snd (abort now (Some g1)))"
  using assms abort_fine [of g1 now] abort_result [of now g1]
  by (auto simp: fine_def failure_retires_def intro: evolves_trans)

lemma reject_report_fine:
  assumes "message \<noteq> []"
  shows "fine g (snd (reject_report message now (Some g))) \<and>
         fst (reject_report message now (Some g)) = Inl (XpoolDaemonError Conflict message)"
proof -
  obtain g1 where g1: "record_control_failure message g = (Inr (), g1)"
    using assms by (cases "gs_control_failure g") (auto simp: record_control_failure_def ret_def)
  obtain g2 where g2: "abort now (Some g1) = (Inr (), Some g2)" using abort_result by blast
  have "fine g (snd (abort now (Some g1)))"
    using record_control_failure_evolves [of g message] g1 by (intro then_abort_fine) auto
  then show ?thesis using g1 g2 by (simp add: reject_report_def raise_def)
qed

lemma rejected_fine [simp]: "fine g (snd (reject_report (ch # message) now (Some g)))"
  using reject_report_fine by blast

lemma rejected_raises [simp]:
  "fst (reject_report (ch # message) now (Some g)) = Inl (XpoolDaemonError Conflict (ch # message))"
  using reject_report_fine by blast

lemma reject_not_Inr [simp]: "reject_report (ch # message) now (Some g) \<noteq> (Inr u, c')"
  using rejected_raises by (metis fst_conv sum.distinct(1))

lemma validate_enrichment_fine: "fine g (snd (validate_enrichment previous report now (Some g)))"
  by (simp add: validate_enrichment_def ret_def split: option.splits)

lemma validate_enrichment_Inr:
  "validate_enrichment previous report now (Some g) = (Inr u, c') \<Longrightarrow> c' = Some g"
  by (auto simp: validate_enrichment_def ret_def split: option.splits if_splits)

lemma dict_ran_singleton:
  assumes "f ` set (dict_values d) = {x}"
  shows "ran (\<lambda>k. map_option f (dict_get d k)) = {x}"
proof -
  have "ran (\<lambda>k. map_option f (dict_get d k)) \<subseteq> {x}"
    using assms by (auto simp: ran_def dest!: map_of_SomeD) (metis image_eqI singletonD snd_conv)
  moreover obtain k v where "(k, v) \<in> set d" using assms by (cases d) auto
  then obtain w where "dict_get d k = Some w" by (metis weak_map_of_SomeI)
  then have "f w \<in> ran (\<lambda>k. map_option f (dict_get d k))" by (auto simp: ran_def)
  ultimately show ?thesis by blast
qed

lemma dict_dom: "dom (\<lambda>k. map_option f (dict_get d k)) = set (dict_keys d)"
  using dom_map_of_conv_image_fst [of d] by (simp add: dom_def)

lemma int_upt_set: "set (map int [0..<n]) = {0 ..< int n}"
  by (auto simp: image_iff) (metis atLeastLessThan_iff nonneg_int_cases of_nat_less_iff zero_le)

lemma advance_barrier_fine:
  assumes "failure_retires g \<Longrightarrow> gs_control_failure g = None"
  shows "fine g (snd (advance_barrier now (Some g)))"
proof (cases "set (dict_keys (gs_participants g)) = set (map int [0..<pe_count g]) \<and>
    (\<exists>required successor. barrier_of (gs_phase g) = Some (required, successor) \<and>
       rep_phase ` set (dict_values (gs_participants g)) = {required})")
  case True
  then obtain required successor where b: "barrier_of (gs_phase g) = Some (required, successor)"
    and reps: "rep_phase ` set (dict_values (gs_participants g)) = {required}"
    and keys: "set (dict_keys (gs_participants g)) = set (map int [0..<pe_count g])" by blast
  have "barrier_step (pe_count g) (barrier_abs g) (successor, snd (barrier_abs g))"
    unfolding barrier_abs_def snd_conv
    using b dict_ran_singleton [OF reps] keys [unfolded int_upt_set] by (intro barrier_step.advance) (simp_all add: dict_dom)
  then have "fine g (snd (on_generation (transition successor now) g))"
    using assms by (intro transition_fine) auto
  then show ?thesis using b reps keys by (simp add: advance_barrier_def)
next
  case False
  then have "advance_barrier now (Some g) = (Inr (), Some g)"
    by (auto simp: advance_barrier_def ret_def split: option.splits)
  then show ?thesis by simp
qed

text \<open>Filing an accepted report is one protocol step, or none when only failures were added.\<close>

definition acceptable :: "fabric_participant_report \<Rightarrow> fabric_generation_state \<Rightarrow> bool" where
  "acceptable report g \<longleftrightarrow>
     rep_generation report = fp_generation (gs_plan g) \<and> 0 \<le> rep_pe report \<and> rep_pe report < int (pe_count g)
     \<and> gs_phase g \<noteq> Gen_STOPPED
     \<and> (case dict_get (gs_participants g) (rep_pe report) of
          None \<Rightarrow> rep_phase report = Part_JOIN_READY \<and> rep_phase report \<in> allowed_phases (gs_phase g)
        | Some old \<Rightarrow> rep_phase report = rep_phase old
            \<or> (participant_allows (gs_phase g = Gen_ABORTING) (rep_phase old) (rep_phase report)
               \<and> rep_phase report \<in> allowed_phases (gs_phase g)))"

lemma file_report_evolves:
  assumes "acceptable report g"
  defines "g1 \<equiv> g\<lparr>gs_participants := dict_set (rep_pe report) report (gs_participants g)\<rparr>"
  shows "evolves g g1" and "gen_tables_ok g \<Longrightarrow> gen_tables_ok g1"
proof -
  let ?m = "snd (barrier_abs g)"
  have abs1: "barrier_abs g1 = (gs_phase g, ?m(rep_pe report \<mapsto> rep_phase report))"
    by (auto simp: g1_def barrier_abs_def fun_eq_iff)
  have "barrier_abs g1 = barrier_abs g \<or> barrier_step (pe_count g) (barrier_abs g) (barrier_abs g1)"
  proof (cases "\<exists>old. dict_get (gs_participants g) (rep_pe report) = Some old \<and> rep_phase report = rep_phase old")
    case True
    then show ?thesis unfolding abs1 by (auto simp: barrier_abs_def fun_eq_iff)
  next
    case False
    then have "barrier_step (pe_count g) (gs_phase g, ?m) (gs_phase g, ?m(rep_pe report \<mapsto> rep_phase report))"
      using assms(1) by (intro barrier_step.report) (auto simp: acceptable_def barrier_abs_def split: option.splits)
    then show ?thesis unfolding abs1 by (simp add: barrier_abs_def)
  qed
  then show "evolves g g1" by (auto simp: evolves_def g1_def)
  show "gen_tables_ok g \<Longrightarrow> gen_tables_ok g1"
    using assms(1) by (auto simp: gen_tables_ok_def g1_def acceptable_def distinct_update simp del: map_of_eq_None_iff)
qed

text \<open>Recording the failures a report carries keeps the phase, so retirement is still to be selected.\<close>

definition report_failures :: "fabric_participant_report \<Rightarrow> (fabric_generation_state, unit) op" where
  "report_failures report =
     bind (case rep_invocation_failure report of None \<Rightarrow> ret () | Some f \<Rightarrow> record_invocation_failure f)
       (\<lambda>_. case rep_control_failure report of None \<Rightarrow> ret () | Some f \<Rightarrow> record_control_failure f)"

lemma report_failures_keeps:
  "hoare (\<lambda>g. evolves g0 g \<and> gen_tables_ok g = gen_tables_ok g0 \<and> gs_phase g = gs_phase g0) (report_failures report)
     (\<lambda>_ g. evolves g0 g \<and> gen_tables_ok g = gen_tables_ok g0 \<and> gs_phase g = gs_phase g0)
     (\<lambda>_ g. evolves g0 g \<and> gen_tables_ok g = gen_tables_ok g0 \<and> gs_phase g = gs_phase g0)"
  unfolding report_failures_def
proof (rule hoare_bind)
  show "hoare (\<lambda>g. evolves g0 g \<and> gen_tables_ok g = gen_tables_ok g0 \<and> gs_phase g = gs_phase g0)
     (case rep_invocation_failure report of None \<Rightarrow> ret () | Some f \<Rightarrow> record_invocation_failure f)
     (\<lambda>_ g. evolves g0 g \<and> gen_tables_ok g = gen_tables_ok g0 \<and> gs_phase g = gs_phase g0)
     (\<lambda>_ g. evolves g0 g \<and> gen_tables_ok g = gen_tables_ok g0 \<and> gs_phase g = gs_phase g0)"
    using record_invocation_failure_evolves
    by (cases "rep_invocation_failure report") (auto intro!: keepsI simp: ret_def intro: evolves_trans)
  show "hoare (\<lambda>g. evolves g0 g \<and> gen_tables_ok g = gen_tables_ok g0 \<and> gs_phase g = gs_phase g0)
     (case rep_control_failure report of None \<Rightarrow> ret () | Some f \<Rightarrow> record_control_failure f)
     (\<lambda>_ g. evolves g0 g \<and> gen_tables_ok g = gen_tables_ok g0 \<and> gs_phase g = gs_phase g0)
     (\<lambda>_ g. evolves g0 g \<and> gen_tables_ok g = gen_tables_ok g0 \<and> gs_phase g = gs_phase g0)" for u :: unit
    using record_control_failure_evolves
    by (cases "rep_control_failure report") (auto intro!: keepsI simp: ret_def intro: evolves_trans)
qed

lemma report_failures_Inl:
  assumes "report_failures report g = (Inl e, g')"
  shows "rep_control_failure report = Some []"
  using assms
  by (auto simp: report_failures_def bind_def ret_def raise_def record_invocation_failure_def record_control_failure_def
           split: option.splits if_splits prod.splits sum.splits)

lemma commit_report_alt:
  "commit_report report now g =
     (case report_failures report (g\<lparr>gs_participants := dict_set (rep_pe report) report (gs_participants g)\<rparr>) of
        (Inl e, g2) \<Rightarrow> (Inl e, Some g2)
      | (Inr _, g2) \<Rightarrow>
          if gs_control_failure g2 \<noteq> None then abort now (Some g2)
          else if gs_invocation_failure g2 \<noteq> None \<and> gs_phase g2 \<notin> {Gen_QUIESCING, Gen_DRAINING, Gen_FINALIZING}
          then quiesce now (Some g2)
          else advance_barrier now (Some g2))"
  by (simp add: commit_report_def report_failures_def Let_def)

lemma commit_report_fine:
  assumes "acceptable report g" and "report_fields_ok report"
  shows "fine g (snd (commit_report report now g))"
proof -
  define g1 where "g1 = g\<lparr>gs_participants := dict_set (rep_pe report) report (gs_participants g)\<rparr>"
  note filed = file_report_evolves [OF assms(1), folded g1_def]
  obtain r g2 where r: "report_failures report g1 = (r, g2)" by (cases "report_failures report g1") auto
  have "r \<noteq> Inl e" for e using report_failures_Inl [of report g1 e g2] r assms(2) by (auto simp: report_fields_ok_def)
  then obtain u where u: "report_failures report g1 = (Inr u, g2)" using r by (cases r) auto
  have g2: "evolves g1 g2" "gen_tables_ok g2 = gen_tables_ok g1" "gs_phase g2 = gs_phase g1"
    using hoare_returns [OF report_failures_keeps _ u, of g1] by auto
  have step: "evolves g g2" "gen_tables_ok g \<Longrightarrow> gen_tables_ok g2" using filed g2 by (auto intro: evolves_trans)
  show ?thesis
  proof (cases "gs_control_failure g2 = None")
    case False
    then show ?thesis using u step then_abort_fine by (simp add: commit_report_alt g1_def)
  next
    case True
    then have "fine g (Some g2)" using step by (simp add: fine_def failure_retires_def)
    moreover have "fine g2 (snd (quiesce now (Some g2)))" "fine g2 (snd (advance_barrier now (Some g2)))"
      using True by (auto intro: quiesce_fine advance_barrier_fine)
    ultimately show ?thesis using u True by (auto simp: commit_report_alt g1_def intro: fine_trans)
  qed
qed

lemma record_participant_fine:
  assumes "report_fields_ok report"
  shows "fine g (snd (record_participant report now (Some g)))"
proof -
  let ?previous = "dict_get (gs_participants g) (rep_pe report)"
  obtain r c' where ve: "validate_enrichment ?previous report now (Some g) = (r, c')" by force
  show ?thesis
  proof (cases r)
    case (Inl e)
    then show ?thesis
      using ve validate_enrichment_fine [of g ?previous report now]
      by (simp add: record_participant_def Let_def ret_def raise_def split: option.splits)
  next
    case (Inr u)
    have "fine g (snd (commit_report report now g))" if "acceptable report g"
      using commit_report_fine [OF that assms] .
    then show ?thesis using ve Inr
      by (auto simp: record_participant_def Let_def ret_def raise_def acceptable_def split: option.splits)
  qed
qed

lemma instance_departed_fine: "fine g (snd (instance_departed i failure q now (Some g)))"
proof -
  define g1 where "g1 = g\<lparr>gs_initialized_instances := dict_del i (gs_initialized_instances g)\<rparr>"
  have g1: "fine g (Some g1)"
    by (auto simp: fine_def g1_def evolves_def gen_tables_ok_def failure_retires_def simp del: map_of_eq_None_iff)
  have g2: "fine g1 (Some (record_owner_failure failure g1))"
    by (auto simp: fine_def record_owner_failure_def evolves_def failure_retires_def)
  show ?thesis
    using g1 fine_trans [OF g1 fine_trans [OF g2 quiesce_fine]]
    by (simp add: instance_departed_def ret_def g1_def [symmetric] Let_def)
qed

lemma record_initialized_fine: "fine g (snd (record_initialized i owner gen (Some g)))"
  by (auto simp: record_initialized_def ret_def raise_def fine_def evolves_def gen_tables_ok_def failure_retires_def
           simp del: map_of_eq_None_iff)

section \<open>Sequences of controller operations\<close>

text \<open>
  The watchdog moves an aborted generation to its final phase once its owners are gone; the remaining
  operations are the controller's methods. Any interleaving of requests is a list of such calls.
\<close>

definition agent_drained :: "(proc_uniq_id \<Rightarrow> bool) \<Rightarrow> fabric_generation_state \<Rightarrow> int \<times> proc_uniq_id \<Rightarrow> bool" where
  "agent_drained alive g entry =
     (case entry of (pe, owner) \<Rightarrow>
        \<not> alive owner
        \<or> (case dict_get (gs_participants g) pe of
             None \<Rightarrow> False | Some report \<Rightarrow> rep_phase report \<in> {Part_DRAINED, Part_FINALIZED}))"

definition watchdog_stop :: "(proc_uniq_id \<Rightarrow> bool) \<Rightarrow> real \<Rightarrow> (fabric_controller, unit) op" where
  "watchdog_stop alive now c =
     (case c of
        None \<Rightarrow> ret () c
      | Some g \<Rightarrow>
          if gs_phase g = Gen_ABORTING
             \<and> \<not> (\<exists>owner\<in>set (dict_values (gs_instance_owners g)). alive owner)
             \<and> (\<forall>entry\<in>set (gs_agent_owners g). agent_drained alive g entry)
          then on_generation (transition Gen_STOPPED now) g
          else ret () c)"

lemma watchdog_stop_fine: "fine g (snd (watchdog_stop alive now (Some g)))"
proof (cases "gs_phase g = Gen_ABORTING")
  case True
  then have "barrier_step (pe_count g) (barrier_abs g) (Gen_STOPPED, snd (barrier_abs g))"
    unfolding barrier_abs_def by (auto intro: barrier_step.retire)
  then have "fine g (snd (on_generation (transition Gen_STOPPED now) g))" by (rule transition_fine) auto
  then show ?thesis by (simp add: watchdog_stop_def ret_def)
qed (simp add: watchdog_stop_def ret_def)

datatype controller_call =
    Report fabric_participant_report real
  | Quiesce real
  | Abort real
  | Departed instance_rank_id fabric_owner_failure bool real
  | Initialized instance_rank_id proc_uniq_id fabric_generation_id
  | StopAborted "proc_uniq_id \<Rightarrow> bool" real

fun controller_step :: "controller_call \<Rightarrow> fabric_controller \<Rightarrow> fabric_controller" where
  "controller_step (Report report now) c = snd (record_participant report now c)"
| "controller_step (Quiesce now) c = snd (quiesce now c)"
| "controller_step (Abort now) c = snd (abort now c)"
| "controller_step (Departed i failure q now) c = snd (instance_departed i failure q now c)"
| "controller_step (Initialized i owner gen) c = snd (record_initialized i owner gen c)"
| "controller_step (StopAborted alive now) c = snd (watchdog_stop alive now c)"

fun controller_run :: "controller_call list \<Rightarrow> fabric_controller \<Rightarrow> fabric_controller" where
  "controller_run [] c = c"
| "controller_run (call # calls) c = controller_run calls (controller_step call c)"

fun call_fields_ok :: "controller_call \<Rightarrow> bool" where
  "call_fields_ok (Report report _) = report_fields_ok report"
| "call_fields_ok _ = True"

lemma controller_step_fine: "call_fields_ok call \<Longrightarrow> fine g (controller_step call (Some g))"
  by (cases call) (simp_all add: record_participant_fine quiesce_fine abort_fine instance_departed_fine
       record_initialized_fine watchdog_stop_fine)

lemma controller_run_ok:
  "\<forall>call\<in>set calls. call_fields_ok call \<Longrightarrow> gen_ok g \<Longrightarrow>
   \<exists>g'. controller_run calls (Some g) = Some g' \<and> evolves g g' \<and> gen_ok g'"
proof (induction calls arbitrary: g)
  case (Cons call calls)
  obtain g1 where g1: "controller_step call (Some g) = Some g1" "evolves g g1" "gen_ok g1"
    using fine_gen_ok [OF controller_step_fine] Cons.prems by force
  then show ?case using Cons.IH [of g1] Cons.prems by (auto intro: evolves_trans)
qed simp

text \<open>The state \<^verbatim>\<open>ensure_fabric_plan\<close> installs.\<close>

definition FabricGenerationState ::
    "nat \<Rightarrow> fabric_deployment_plan \<Rightarrow> real \<Rightarrow> (int, proc_uniq_id) dict \<Rightarrow> (instance_rank_id, proc_uniq_id) dict
     \<Rightarrow> fabric_generation_state" where
  "FabricGenerationState oid plan now agents instances =
     \<lparr>gs_oid = oid, gs_plan = plan, gs_phase = Gen_PREPARING_JOIN, gs_phase_started_at = now,
      gs_invocation_failure = None, gs_owner_failure = None, gs_control_failure = None,
      gs_agent_owners = agents, gs_instance_owners = instances, gs_participants = [],
      gs_initialized_instances = []\<rparr>"

lemma fresh_generation_ok: "gen_ok (FabricGenerationState oid plan now agents instances)"
  using barrier_initial
  by (simp add: FabricGenerationState_def gen_ok_def gen_tables_ok_def failure_retires_def barrier_abs_def)

definition sample_plan :: fabric_deployment_plan where
  "sample_plan =
     \<lparr>fp_generation = \<lparr>gen_high = 0, gen_low = 1\<rparr>, fp_uid = [], ffn_execution_contracts = [],
      pe_placements = [\<lparr>pe_role = Role_ATNAGENT, pe_device = 0\<rparr>, \<lparr>pe_role = Role_FFNAGENT, pe_device = 1\<rparr>],
      executor_lane_count = 1, fp_scheduler = FifoSchedulerPolicy, model_plans = [], instance_plans = [],
      ffn_memory_estimates = []\<rparr>"

definition sample_report :: "int \<Rightarrow> fabric_participant_phase \<Rightarrow> fabric_participant_report" where
  "sample_report pe phase =
     \<lparr>rep_owner = \<lparr>ref_pid = 7, ref_abi_version = 1\<rparr>, rep_generation = fp_generation sample_plan, rep_pe = pe,
      rep_phase = phase, rep_invocation_failure = None, rep_control_failure = None\<rparr>"

definition sample_startup :: "controller_call list" where
  "sample_startup =
     concat (map (\<lambda>phase. [Report (sample_report 0 phase) 1, Report (sample_report 1 phase) 1])
       [Part_JOIN_READY, Part_JOINING, Part_JOINED, Part_EXECUTION_READY, Part_ACTIVE])"

definition sample_generation :: fabric_generation_state where
  "sample_generation = FabricGenerationState 0 sample_plan 0 [] []"

definition sample_executable :: fabric_generation_state where
  "sample_executable =
     sample_generation\<lparr>gs_phase := Gen_EXECUTABLE, gs_phase_started_at := 1,
       gs_participants := [(0, sample_report 0 Part_ACTIVE), (1, sample_report 1 Part_ACTIVE)]\<rparr>"

lemma sample_startup_fields: "\<forall>call\<in>set sample_startup. call_fields_ok call"
  by (simp add: sample_startup_def sample_report_def report_fields_ok_def)

lemma sample_startup_run: "controller_run sample_startup (Some sample_generation) = Some sample_executable"
  by code_simp

text \<open>
  C4: A generation is executable only after a complete barrier: whatever requests arrive in whatever order
  after installation, in the executable phase every PE of the plan has a report for this generation
  whose phase is active, and no control failure is recorded.
\<close>

theorem executable_requires_every_pe_active:
  assumes "\<forall>call\<in>set calls. call_fields_ok call"
    and "controller_run calls (Some (FabricGenerationState oid plan now agents instances)) = Some g"
    and "gs_phase g = Gen_EXECUTABLE"
  shows "gs_control_failure g = None \<and>
    (\<forall>pe. 0 \<le> pe \<and> pe < int (length (pe_placements plan)) \<longrightarrow>
       (\<exists>r. dict_get (gs_participants g) pe = Some r \<and> rep_pe r = pe \<and> rep_phase r = Part_ACTIVE
            \<and> rep_generation r = fp_generation plan))"
proof -
  have ok: "gen_ok g" and ev: "evolves (FabricGenerationState oid plan now agents instances) g"
    using controller_run_ok [OF assms(1) fresh_generation_ok, of oid plan now agents instances] assms(2) by auto
  have plan: "gs_plan g = plan" using ev by (simp add: evolves_def FabricGenerationState_def)
  let ?m = "\<lambda>pe. map_option rep_phase (dict_get (gs_participants g) pe)"
  have dom: "dom ?m = {0 ..< int (length (pe_placements plan))}" and ran: "ran ?m \<subseteq> {Part_ACTIVE}"
    using ok assms(3) plan by (auto simp: gen_ok_def barrier_inv_def barrier_abs_def pe_count_def)
  have "\<exists>r. dict_get (gs_participants g) pe = Some r \<and> rep_phase r = Part_ACTIVE"
    if "0 \<le> pe" "pe < int (length (pe_placements plan))" for pe
  proof -
    have "pe \<in> dom ?m" using that dom by simp
    then obtain r where "dict_get (gs_participants g) pe = Some r" by auto
    moreover from this have "rep_phase r \<in> ran ?m" by (auto simp: ran_def)
    ultimately show ?thesis using ran by auto
  qed
  then show ?thesis using ok assms(3) plan unfolding gen_ok_def gen_tables_ok_def failure_retires_def by fastforce
qed

theorem executable_requires_every_pe_active_witness:
  "controller_run sample_startup (Some sample_generation) = Some sample_executable \<and>
   gs_phase sample_executable = Gen_EXECUTABLE \<and>
   (\<exists>r. dict_get (gs_participants sample_executable) 1 = Some r \<and> rep_phase r = Part_ACTIVE)"
proof -
  have ph: "gs_phase sample_executable = Gen_EXECUTABLE" by (simp add: sample_executable_def)
  have "length (pe_placements sample_plan) = 2" by (simp add: sample_plan_def)
  then have "\<exists>r. dict_get (gs_participants sample_executable) 1 = Some r \<and> rep_phase r = Part_ACTIVE"
    using executable_requires_every_pe_active
      [OF sample_startup_fields sample_startup_run [unfolded sample_generation_def] ph,
       THEN conjunct2, THEN spec, of 1] by auto
  with ph show ?thesis using sample_startup_run by blast
qed

text \<open>
  C7: The controller refines the barrier protocol and never moves back: along any sequence of requests the
  generation phase follows lifecycle edges, every participant's phase follows its own edges, the
  plan and the planned owners stay, and the first recorded failure of each kind is retained.
\<close>

theorem generation_never_regresses:
  assumes "gen_ok g" and "\<forall>call\<in>set calls. call_fields_ok call"
  shows "\<exists>g'. controller_run calls (Some g) = Some g'
     \<and> (barrier_step (pe_count g))\<^sup>*\<^sup>* (barrier_abs g) (barrier_abs g')
     \<and> generation_allows\<^sup>*\<^sup>* (gs_phase g) (gs_phase g')
     \<and> (\<forall>pe r. dict_get (gs_participants g) pe = Some r \<longrightarrow>
          (\<exists>r'. dict_get (gs_participants g') pe = Some r' \<and> participant_edge\<^sup>*\<^sup>* (rep_phase r) (rep_phase r')))
     \<and> gs_plan g' = gs_plan g \<and> gs_agent_owners g' = gs_agent_owners g \<and> gs_instance_owners g' = gs_instance_owners g
     \<and> (\<forall>f. gs_control_failure g = Some f \<longrightarrow> gs_control_failure g' = Some f)
     \<and> (\<forall>f. gs_owner_failure g = Some f \<longrightarrow> gs_owner_failure g' = Some f)
     \<and> (\<forall>f. gs_invocation_failure g = Some f \<longrightarrow> gs_invocation_failure g' = Some f)"
proof -
  obtain g' where run: "controller_run calls (Some g) = Some g'" and ev: "evolves g g'"
    using controller_run_ok [OF assms(2,1)] by blast
  then have steps: "(barrier_step (pe_count g))\<^sup>*\<^sup>* (barrier_abs g) (barrier_abs g')" by (simp add: evolves_def)
  have "\<exists>r'. dict_get (gs_participants g') pe = Some r' \<and> participant_edge\<^sup>*\<^sup>* (rep_phase r) (rep_phase r')"
    if "dict_get (gs_participants g) pe = Some r" for pe r
    using barrier_steps_participant [OF steps, of pe "rep_phase r"] that by (auto simp: barrier_abs_def)
  moreover have "generation_allows\<^sup>*\<^sup>* (gs_phase g) (gs_phase g')"
    using barrier_steps_phase [OF steps] by (simp add: barrier_abs_phase)
  ultimately show ?thesis using run ev steps unfolding evolves_def
    by (intro exI [of _ g'] conjI) simp_all
qed

theorem generation_never_regresses_witness:
  "\<exists>g'. controller_run sample_startup (Some sample_generation) = Some g' \<and>
     generation_allows\<^sup>*\<^sup>* Gen_PREPARING_JOIN (gs_phase g')"
proof -
  have ok: "gen_ok sample_generation" by (simp add: sample_generation_def fresh_generation_ok)
  have "gs_phase sample_generation = Gen_PREPARING_JOIN"
    by (simp add: sample_generation_def FabricGenerationState_def)
  then show ?thesis using generation_never_regresses [OF ok sample_startup_fields] by metis
qed

section \<open>Rejection, progress and membership\<close>

lemma quiesce_result: "\<exists>g'. quiesce now (Some g) = (Inr (), Some g')"
  by (auto simp: quiesce_def on_generation_def transition_def generation_allows_def ret_def raise_def)

lemma advance_barrier_result: "\<exists>g'. advance_barrier now (Some g) = (Inr (), Some g')"
  by (auto simp: advance_barrier_def on_generation_def transition_def ret_def raise_def
           split: option.splits dest: barrier_allowed)

lemma commit_report_result:
  assumes "report_fields_ok report"
  shows "\<exists>g'. commit_report report now g = (Inr (), Some g')"
proof -
  define g1 where "g1 = g\<lparr>gs_participants := dict_set (rep_pe report) report (gs_participants g)\<rparr>"
  obtain r g2 where r: "report_failures report g1 = (r, g2)" by force
  have "r \<noteq> Inl e" for e using report_failures_Inl [of report g1 e g2] r assms by (auto simp: report_fields_ok_def)
  then show ?thesis
    using r abort_result [of now g2] quiesce_result [of now g2] advance_barrier_result [of now g2]
    by (cases r) (auto simp: commit_report_alt g1_def)
qed

lemma reject_report_outcome:
  assumes "gs_phase g \<noteq> Gen_STOPPED"
  shows "\<exists>g'. reject_report (ch # message) now (Some g) = (Inl (XpoolDaemonError Conflict (ch # message)), Some g')
              \<and> gs_phase g' = Gen_ABORTING \<and> gs_control_failure g' \<noteq> None"
  using assms
  by (auto simp: reject_report_def record_control_failure_def abort_def on_generation_def transition_def ret_def
        raise_def generation_allows_def)

definition is_rejection :: "real \<Rightarrow> fabric_generation_state \<Rightarrow> unit result \<times> fabric_controller \<Rightarrow> bool" where
  "is_rejection now g outcome \<longleftrightarrow> (\<exists>ch msg. outcome = reject_report (ch # msg) now (Some g))"

lemma is_rejectionI [simp]: "is_rejection now g (reject_report (ch # msg) now (Some g))"
  by (auto simp: is_rejection_def)

lemma enrichment_rejection:
  "validate_enrichment previous report now (Some g) = (Inl e, d) \<Longrightarrow> is_rejection now g (Inl e, d)"
  by (auto simp: validate_enrichment_def ret_def split: option.splits if_splits dest!: sym [of "reject_report _ _ _"])

lemma refused_by_rejection:
  assumes "record_participant report now (Some g) = (Inl e, c')"
    and "report_fields_ok report" and "gs_phase g \<noteq> Gen_STOPPED"
  shows "is_rejection now g (Inl e, c')"
  using assms(1,3) commit_report_result [OF assms(2), of now g] enrichment_rejection
  by (auto simp: record_participant_def Let_def ret_def raise_def
        split: if_splits sum.splits prod.splits dest!: sym [of "reject_report _ _ _"])

text \<open>
  C29: Report rejection is fail-stop: when the controller refuses a well-formed report of a generation that is
  not yet stopped, the caller gets the conflict error, the generation has been moved to the
  aborting phase and a control failure explains why.
\<close>

theorem rejected_report_is_fail_stop:
  assumes "record_participant report now (Some g) = (Inl e, c')"
    and "report_fields_ok report" and "gs_phase g \<noteq> Gen_STOPPED"
  shows "(\<exists>message. e = XpoolDaemonError Conflict message) \<and>
    (\<exists>g'. c' = Some g' \<and> gs_phase g' = Gen_ABORTING \<and> gs_control_failure g' \<noteq> None)"
proof -
  obtain ch msg where "reject_report (ch # msg) now (Some g) = (Inl e :: unit result, c')"
    using refused_by_rejection [OF assms] by (metis is_rejection_def)
  moreover obtain g' where "reject_report (ch # msg) now (Some g) =
      (Inl (XpoolDaemonError Conflict (ch # msg)) :: unit result, Some g')"
    and "gs_phase g' = Gen_ABORTING" "gs_control_failure g' \<noteq> None"
    using reject_report_outcome [OF assms(3)] by blast
  ultimately show ?thesis by auto
qed

definition early_report :: fabric_participant_report where
  "early_report = sample_report 0 Part_ACTIVE"

theorem rejected_report_is_fail_stop_witness:
  "\<exists>g'. snd (record_participant early_report 1 (Some sample_generation)) = Some g' \<and> gs_phase g' = Gen_ABORTING"
proof -
  obtain e c' where r: "record_participant early_report 1 (Some sample_generation) = (Inl e, c')"
    by (simp add: record_participant_def early_report_def sample_report_def sample_generation_def
          FabricGenerationState_def sample_plan_def pe_count_def reject_report_def record_control_failure_def abort_def
          on_generation_def transition_def generation_allows_def ret_def raise_def)
  have "report_fields_ok early_report" "gs_phase sample_generation \<noteq> Gen_STOPPED"
    by (simp_all add: early_report_def sample_report_def report_fields_ok_def sample_generation_def
          FabricGenerationState_def)
  from rejected_report_is_fail_stop [OF r this] show ?thesis by (auto simp: r)
qed

lemma barrier_required_allowed: "barrier_of ph = Some (required, ph') \<Longrightarrow> required \<in> allowed_phases ph"
  by (cases ph) auto

lemma barrier_moves: "barrier_of ph = Some (required, ph') \<Longrightarrow> ph \<noteq> ph'"
  by (cases ph) auto

lemma dict_values_get: "distinct (dict_keys d) \<Longrightarrow> set (dict_values d) = ran (dict_get d)"
  by (simp add: ran_distinct)

lemma dict_set_values:
  assumes "distinct (dict_keys d)"
  shows "set (dict_values (dict_set k v d)) = insert v {w. \<exists>k'. k' \<noteq> k \<and> dict_get d k' = Some w}"
  unfolding dict_values_get [OF distinct_update [OF assms]] by (auto simp: ran_def)

text \<open>
  C24: Barriers complete. In a generation without a recorded control or invocation failure, when every other PE stands at the
  phase the current barrier requires and the last PE reports it without a failure, coming from a failure-free report
  that leads there (or from none, at the first barrier), the report is accepted and the generation enters
  exactly the successor phase of that barrier.
\<close>

theorem last_report_opens_barrier:
  assumes "gen_ok g" and "gs_control_failure g = None" and "gs_invocation_failure g = None"
    and "barrier_of (gs_phase g) = Some (required, successor)"
    and "rep_generation report = fp_generation (gs_plan g)" and "rep_phase report = required"
    and "rep_invocation_failure report = None" and "rep_control_failure report = None"
    and "0 \<le> rep_pe report" and "rep_pe report < int (pe_count g)"
    and "case dict_get (gs_participants g) (rep_pe report) of
           None \<Rightarrow> required = Part_JOIN_READY
         | Some old \<Rightarrow> participant_allows False (rep_phase old) required
             \<and> rep_invocation_failure old = None \<and> rep_control_failure old = None"
    and "\<forall>pe. 0 \<le> pe \<and> pe < int (pe_count g) \<and> pe \<noteq> rep_pe report \<longrightarrow>
           (\<exists>r. dict_get (gs_participants g) pe = Some r \<and> rep_phase r = required)"
  shows "\<exists>g'. record_participant report now (Some g) = (Inr (), Some g') \<and> gs_phase g' = successor"
proof -
  define g1 where "g1 = g\<lparr>gs_participants := dict_set (rep_pe report) report (gs_participants g)\<rparr>"
  have dist: "distinct (dict_keys (gs_participants g))"
    and dom: "dom (\<lambda>pe. map_option rep_phase (dict_get (gs_participants g) pe)) \<subseteq> {0 ..< int (pe_count g)}"
    using assms(1) by (auto simp: gen_ok_def gen_tables_ok_def barrier_inv_def barrier_abs_def)
  have phase: "gs_phase g \<noteq> Gen_STOPPED" "gs_phase g \<noteq> Gen_ABORTING" using assms(4) by auto
  have keys: "set (dict_keys (gs_participants g1)) = set (map int [0..<pe_count g])"
  proof -
    have "{0 ..< int (pe_count g)} - {rep_pe report} \<subseteq> set (dict_keys (gs_participants g))"
      using assms(12) by (force dest: map_of_SomeD)
    then show ?thesis
      using dom assms(9,10) dict_keys_set [of "rep_pe report" report "gs_participants g"]
      unfolding int_upt_set g1_def dict_dom by auto
  qed
  have "rep_phase ` set (dict_values (gs_participants g1)) = {required}"
  proof -
    have "rep_phase w = required" if "k \<noteq> rep_pe report" "dict_get (gs_participants g) k = Some w" for k w
    proof -
      have "k \<in> dom (\<lambda>pe. map_option rep_phase (dict_get (gs_participants g) pe))" using that by auto
      then show ?thesis using dom assms(12) that by (metis atLeastLessThan_iff option.inject subsetD)
    qed
    moreover have "set (dict_values (gs_participants g1)) =
        insert report {w. \<exists>k. k \<noteq> rep_pe report \<and> dict_get (gs_participants g) k = Some w}"
      using dict_set_values [OF dist, of "rep_pe report" report] by (simp add: g1_def)
    ultimately show ?thesis using assms(6) by (auto simp del: set_map)
  qed
  then have "advance_barrier now (Some g1) = (Inr (), Some (g1\<lparr>gs_phase := successor, gs_phase_started_at := now\<rparr>))"
    using keys assms(4) barrier_allowed [OF assms(4)] barrier_moves [OF assms(4)]
    by (simp add: advance_barrier_def on_generation_def transition_def ret_def g1_def pe_count_def)
  then have "commit_report report now g = (Inr (), Some (g1\<lparr>gs_phase := successor, gs_phase_started_at := now\<rparr>))"
    using assms(2,3,7,8) by (simp add: commit_report_def bind_def ret_def g1_def Let_def)
  moreover have "\<not> participant_allows False p p" for p
    using participant_lifecycle.edge_raises_rank [of p p] by (auto simp: participant_edge_def)
  then have "record_participant report now (Some g) = commit_report report now g"
    using assms(5,6,9,10,11) phase barrier_required_allowed [OF assms(4)]
    by (auto simp: record_participant_def validate_enrichment_def ret_def Let_def split: option.splits)
  ultimately show ?thesis by simp
qed

theorem last_report_opens_barrier_witness:
  "\<exists>g'. record_participant (sample_report 1 Part_JOIN_READY) 1
          (controller_run [Report (sample_report 0 Part_JOIN_READY) 1] (Some sample_generation)) = (Inr (), Some g')
        \<and> gs_phase g' = Gen_JOINING"
proof -
  define g where "g = sample_generation\<lparr>gs_participants := [(0, sample_report 0 Part_JOIN_READY)]\<rparr>"
  have calls: "\<forall>call\<in>set [Report (sample_report 0 Part_JOIN_READY) 1]. call_fields_ok call"
    by (simp add: sample_report_def report_fields_ok_def)
  have run: "controller_run [Report (sample_report 0 Part_JOIN_READY) 1] (Some sample_generation) = Some g"
    unfolding g_def by code_simp
  have ok: "gen_ok g"
    using controller_run_ok [OF calls, of sample_generation] run fresh_generation_ok by (auto simp: sample_generation_def)
  have "\<exists>g'. record_participant (sample_report 1 Part_JOIN_READY) 1 (Some g) = (Inr (), Some g') \<and> gs_phase g' = Gen_JOINING"
    by (rule last_report_opens_barrier [OF ok])
       (auto simp: g_def sample_generation_def FabricGenerationState_def sample_report_def sample_plan_def pe_count_def)
  then show ?thesis by (simp only: run)
qed

subsection \<open>A captured membership is complete\<close>

lemma table_by_key:
  assumes "table_ok key t"
  shows "dict_get (dict_of (map (\<lambda>r. (key r, r)) (dict_values t)) []) k = dict_get t k"
proof -
  have "map (\<lambda>r. (key r, r)) (dict_values t) = t"
    using assms by (intro nth_equalityI) (auto simp: table_ok_def dest!: nth_mem)
  moreover have "map_of (rev t) k = map_of t k" using assms by (simp add: table_ok_def map_of_rev_distinct)
  ultimately show ?thesis by (simp add: map_of_dict_of split: option.splits)
qed

lemma capture_instance_owners:
  assumes "capture_instance config table inst = Inr (Some (plan, owners))"
    and "\<And>i r. dict_get table i = Some r \<Longrightarrow> reg_instance r = i"
  shows "map fst owners = rank_ids config (inst_model_id inst) \<and> ip_model_id plan = inst_model_id inst
     \<and> (\<forall>(i, p)\<in>set owners. \<exists>r. dict_get table i = Some r \<and> reg_proc r = p)"
proof -
  let ?ids = "rank_ids config (inst_model_id inst)"
  from assms(1) have some: "None \<notin> set (map (dict_get table) ?ids)"
    and owners: "owners = map (\<lambda>r. (reg_instance r, reg_proc r)) (map the (map (dict_get table) ?ids))"
    and plan: "ip_model_id plan = inst_model_id inst"
    by (auto simp: capture_instance_def rbind_Inr_iff Let_def simp del: list.map_comp map_map split: if_splits)
  have got: "\<exists>r. dict_get table i = Some r \<and> reg_instance r = i" if "i \<in> set ?ids" for i
  proof -
    have "dict_get table i \<noteq> None" using some that by (metis image_eqI list.set_map)
    then show ?thesis using assms(2) by blast
  qed
  have "map fst owners = map (\<lambda>i. reg_instance (the (dict_get table i))) ?ids" using owners by simp
  also have "\<dots> = ?ids" using got by (intro map_idI) force
  finally have "map fst owners = ?ids" .
  moreover have "\<forall>(i, p)\<in>set owners. \<exists>r. dict_get table i = Some r \<and> reg_proc r = p"
    using got owners by fastforce
  ultimately show ?thesis using plan by blast
qed

lemma capture_instances_owners:
  assumes "capture_instances config table insts = Inr (Some (plans, owners))"
    and "\<And>i r. dict_get table i = Some r \<Longrightarrow> reg_instance r = i"
  shows "map fst owners = concat (map (rank_ids config \<circ> inst_model_id) insts)
     \<and> map ip_model_id plans = map inst_model_id insts
     \<and> (\<forall>(i, p)\<in>set owners. \<exists>r. dict_get table i = Some r \<and> reg_proc r = p)"
  using assms(1)
proof (induction insts arbitrary: plans owners)
  case (Cons inst insts)
  from Cons.prems obtain plan own ps os where
      one: "capture_instance config table inst = Inr (Some (plan, own))"
    and rest: "capture_instances config table insts = Inr (Some (ps, os))"
    and eq: "plans = plan # ps" "owners = own @ os"
    by (auto simp: rbind_Inr_iff split: option.splits)
  show ?case using capture_instance_owners [OF one assms(2)] Cons.IH [OF rest] eq by auto
qed simp

lemma captured_agent_owner:
  assumes "book_ok book" and "capture_membership config book revision = Inr (Some m)"
  shows "length (fm_agent_owners m) = length (membership_placements config)
    \<and> (\<forall>pe<length (membership_placements config). \<exists>p. fm_agent_owners m ! pe = (int pe, p) \<and>
        (case pe_role (membership_placements config ! pe) of
           Role_ATNAGENT \<Rightarrow> \<exists>r. dict_get (book_atnagents book) (pe_device (membership_placements config ! pe)) = Some r \<and> reg_proc r = p
         | Role_FFNAGENT \<Rightarrow> \<exists>r. dict_get (book_ffnagents book) (pe_device (membership_placements config ! pe)) = Some r \<and> reg_proc r = p))"
proof -
  let ?atn = "dict_of (map (\<lambda>r. (atn_device r, r)) (dict_values (book_atnagents book))) []"
  let ?ffn = "dict_of (map (\<lambda>r. (ffn_device r, r)) (dict_values (book_ffnagents book))) []"
  let ?ps = "membership_placements config"
  have tables: "dict_get ?atn d = dict_get (book_atnagents book) d" "dict_get ?ffn d = dict_get (book_ffnagents book) d" for d
    using assms(1) by (simp_all only: book_ok_def table_by_key)
  have "rmap (\<lambda>(pe, placement).
                  case pe_role placement of
                    Role_ATNAGENT \<Rightarrow> rbind (dict_item ?atn (pe_device placement)) (\<lambda>r. Inr (int pe, reg_proc r))
                  | Role_FFNAGENT \<Rightarrow> rbind (dict_item ?ffn (pe_device placement)) (\<lambda>r. Inr (int pe, reg_proc r)))
                (enumerate 0 ?ps) = Inr (fm_agent_owners m)"
    using assms(2) unfolding capture_membership_def Let_def
    by (auto simp: rbind_Inr_iff split: if_splits option.splits)
  then have len: "length (fm_agent_owners m) = length ?ps"
    and each: "\<And>pe. pe < length ?ps \<Longrightarrow>
        (case pe_role (?ps ! pe) of
           Role_ATNAGENT \<Rightarrow> rbind (dict_item ?atn (pe_device (?ps ! pe))) (\<lambda>r. Inr (int pe, reg_proc r))
         | Role_FFNAGENT \<Rightarrow> rbind (dict_item ?ffn (pe_device (?ps ! pe))) (\<lambda>r. Inr (int pe, reg_proc r))) =
        Inr (fm_agent_owners m ! pe)"
    by (simp_all add: rmap_Inr_iff nth_enumerate_eq)
  show ?thesis
  proof (intro conjI allI impI)
    fix pe
    assume "pe < length ?ps"
    from each [OF this] show "\<exists>p. fm_agent_owners m ! pe = (int pe, p) \<and>
        (case pe_role (?ps ! pe) of
           Role_ATNAGENT \<Rightarrow> \<exists>r. dict_get (book_atnagents book) (pe_device (?ps ! pe)) = Some r \<and> reg_proc r = p
         | Role_FFNAGENT \<Rightarrow> \<exists>r. dict_get (book_ffnagents book) (pe_device (?ps ! pe)) = Some r \<and> reg_proc r = p)"
      by (cases "pe_role (?ps ! pe)") (auto simp: rbind_Inr_iff dict_item_Inr_iff tables simp del: map_map)
  qed (rule len)
qed

lemma membership_placements_order:
  assumes "config_ok config"
  shows "validate_order (membership_placements config) =
     Inr (length (atn_devices (cfg_atn config)), length (ffn_devices (cfg_ffn config)))"
  using assms
  by (simp add: validate_order_def membership_placements_def config_ok_def comp_def map_replicate_const Let_def)

lemma config_instances_ids: "map inst_model_id (config_instances config) = map cfg_id (cfg_models config)"
  by (rule nth_equalityI) (simp_all add: config_instances_def nth_enumerate_eq)

lemma capture_membership_parts:
  assumes "capture_membership config book revision = Inr (Some m)"
  obtains plans where "capture_instances config
      (dict_of (map (\<lambda>r. (reg_instance r, r)) (dict_values (book_instances book))) []) (config_instances config) =
      Inr (Some (plans, fm_instance_owners m))"
    and "fm_instance_plans m = plans" and "fm_pe_placements m = membership_placements config"
    and "fm_revision m = revision"
  using assms unfolding capture_membership_def Let_def
  by (auto simp: rbind_Inr_iff split: if_splits option.splits)

lemma captured_instance_owners:
  assumes "book_ok book" and "capture_membership config book revision = Inr (Some m)"
  shows "map ip_model_id (fm_instance_plans m) = map cfg_id (cfg_models config)
     \<and> map fst (fm_instance_owners m) = concat (map (rank_ids config) (map cfg_id (cfg_models config)))
     \<and> (\<forall>(i, p)\<in>set (fm_instance_owners m). \<exists>r. dict_get (book_instances book) i = Some r \<and> reg_proc r = p)
     \<and> fm_pe_placements m = membership_placements config"
proof -
  let ?table = "dict_of (map (\<lambda>r. (reg_instance r, r)) (dict_values (book_instances book))) []"
  obtain plans where cap: "capture_instances config ?table (config_instances config) =
      Inr (Some (plans, fm_instance_owners m))"
    and m: "fm_instance_plans m = plans" "fm_pe_placements m = membership_placements config"
    using capture_membership_parts [OF assms(2)] .
  have table: "dict_get ?table i = dict_get (book_instances book) i" for i
    using assms(1) by (simp only: book_ok_def table_by_key)
  have "reg_instance r = i" if "dict_get ?table i = Some r" for i r
    using that assms(1) unfolding table book_ok_def by (metis table_ok_get)
  from capture_instances_owners [OF cap this]
  have "map fst (fm_instance_owners m) = concat (map (rank_ids config) (map inst_model_id (config_instances config)))"
    "map ip_model_id plans = map inst_model_id (config_instances config)"
    "\<forall>(i, p)\<in>set (fm_instance_owners m). \<exists>r. dict_get (book_instances book) i = Some r \<and> reg_proc r = p"
    unfolding table by simp_all
  then show ?thesis unfolding m config_instances_ids by blast
qed

text \<open>
  C31: A captured membership is complete and truthful: for a validated configuration it plans exactly the
  configured models in order, owns every (model, rank) pair once by the process registered for it, and
  its PEs are the attention devices followed by the FFN devices, each owned by the agent registered for
  that device.
\<close>

theorem membership_is_complete:
  assumes "config_ok config" and "book_ok book" and "capture_membership config book revision = Inr (Some m)"
  shows "map ip_model_id (fm_instance_plans m) = map cfg_id (cfg_models config)
     \<and> map fst (fm_instance_owners m) = concat (map (rank_ids config) (map cfg_id (cfg_models config)))
     \<and> (\<forall>(i, p)\<in>set (fm_instance_owners m). \<exists>r. dict_get (book_instances book) i = Some r \<and> reg_proc r = p)
     \<and> validate_order (fm_pe_placements m) =
          Inr (length (atn_devices (cfg_atn config)), length (ffn_devices (cfg_ffn config)))
     \<and> length (fm_agent_owners m) = length (fm_pe_placements m)
     \<and> (\<forall>pe<length (fm_pe_placements m). \<exists>p. fm_agent_owners m ! pe = (int pe, p) \<and>
          (case pe_role (fm_pe_placements m ! pe) of
             Role_ATNAGENT \<Rightarrow> \<exists>r. dict_get (book_atnagents book) (pe_device (fm_pe_placements m ! pe)) = Some r \<and> reg_proc r = p
           | Role_FFNAGENT \<Rightarrow> \<exists>r. dict_get (book_ffnagents book) (pe_device (fm_pe_placements m ! pe)) = Some r \<and> reg_proc r = p))"
proof -
  have placements: "fm_pe_placements m = membership_placements config"
    using captured_instance_owners [OF assms(2,3)] by blast
  note inst = captured_instance_owners [OF assms(2,3), unfolded placements]
  show ?thesis
    unfolding placements
    using inst captured_agent_owner [OF assms(2,3)] membership_placements_order [OF assms(1)]
    by (elim conjE, intro conjI) assumption+
qed

definition sample_book :: registration_book where
  "sample_book =
     \<lparr>book_instances = map (\<lambda>rank. let i = \<lparr>iri_model_id = ''a/b'', iri_rank = rank\<rparr> in
          (i, (sample_instance_registration (nat rank))\<lparr>reg_instance := i, reg_transport :=
             \<lparr>tp_hidden_size = 1, payload_row_capacity = 1, atn_tp_rank = rank, atn_tp_size = 2,
              atn_dp_rank = 0, atn_dp_size = 1\<rparr>\<rparr>)) [0, 1],
      book_atnagents = [(0, sample_registration 5 20), (1, (sample_registration 6 21)\<lparr>atn_device := 1\<rparr>)],
      book_ffnagents = [(2, (sample_ffn_registration 7)\<lparr>ffn_device := 2\<rparr>)],
      ffn_model_specs = Some [], agent_startups = []\<rparr>"

theorem membership_is_complete_witness:
  "\<exists>m. capture_membership sample_config sample_book 3 = Inr (Some m) \<and>
     map fst (fm_instance_owners m) =
       [\<lparr>iri_model_id = ''a/b'', iri_rank = 0\<rparr>, \<lparr>iri_model_id = ''a/b'', iri_rank = 1\<rparr>]"
proof -
  have "is_ok (capture_membership sample_config sample_book 3) \<and>
        (case capture_membership sample_config sample_book 3 of Inr (Some _) \<Rightarrow> True | _ \<Rightarrow> False)"
    by code_simp
  then obtain m where m: "capture_membership sample_config sample_book 3 = Inr (Some m)"
    by (auto split: sum.splits option.splits)
  have ok: "config_ok sample_config" using XpoolConfig_ok [OF sample_config_valid] .
  have book: "book_ok sample_book" by code_simp
  have "concat (map (rank_ids sample_config) (map cfg_id (cfg_models sample_config))) =
       [\<lparr>iri_model_id = ''a/b'', iri_rank = 0\<rparr>, \<lparr>iri_model_id = ''a/b'', iri_rank = 1\<rparr>]"
    by code_simp
  with membership_is_complete [OF ok book m] m show ?thesis by auto
qed

end
