(* ===== verification/Readiness.thy ===== *)
theory Readiness
  imports Fabric_Controller Transport
begin

section \<open>Readiness and warnings\<close>

text \<open>
  Models \<^verbatim>\<open>ControlPlaneProjection.capture\<close> of \<^verbatim>\<open>src/xpool/service/daemon/readiness.py\<close>: the readiness
  snapshot and the warnings derived from one consistent view of registrations, Transport and Fabric.
  The theorems state the snapshot's \<^verbatim>\<open>ready\<close> flag as what it promises to operators, without the
  intermediate tables the code builds. The human-readable text of a warning is left out: kind and device
  determine it up to the rank named in it.
\<close>

subsection \<open>The projection\<close>

record readiness_entry =
  re_pid :: "int option"
  re_status :: readiness_status

record readiness_agent = readiness_entry +
  ra_device :: int

record readiness_instance_rank = readiness_entry +
  ri_model_id :: model_id
  ri_device :: int
  ri_rank :: nat

record readiness_snapshot =
  snap_ready :: bool
  snap_generation :: "fabric_generation_id option"
  snap_fabric_phase :: "fabric_generation_phase option"
  snap_invocation_failure :: "fabric_invocation_failure option"
  snap_owner_failure :: "fabric_owner_failure option"
  snap_control_failure :: "string option"
  snap_transport_ready :: bool
  snap_instances_initialized :: bool
  snap_mps_status :: "readiness_status option"
  snap_devices :: "int list"
  snap_atnagents :: "readiness_agent list"
  snap_ffnagents :: "readiness_agent list"
  snap_instances :: "readiness_instance_rank list"

definition status_of :: "real \<Rightarrow> 'm common_registration_scheme option \<Rightarrow> readiness_status" where
  "status_of now r = (case r of None \<Rightarrow> OFFLINE | Some registration \<Rightarrow> readiness_status now registration)"

definition pid_of :: "'m common_registration_scheme option \<Rightarrow> int option" where
  "pid_of r = map_option (\<lambda>registration. proc_pid (reg_proc registration)) r"

text \<open>The rank slots: the configured ones before a generation exists, then the planned ones.\<close>

definition instance_slots :: "xpool_config \<Rightarrow> fabric_controller \<Rightarrow> (model_id \<times> nat \<times> int) list result" where
  "instance_slots config fabric =
     (case fabric of
        None \<Rightarrow>
          Inr (concat (map (\<lambda>inst. map (\<lambda>(rank, device). (inst_model_id inst, rank, device))
                 (enumerate 0 (atn_devices (cfg_atn config)))) (config_instances config)))
      | Some g \<Rightarrow>
          rbind (rmap (\<lambda>plan. rmap (\<lambda>(rank, index).
                     rbind (index_at (atn_devices (cfg_atn config)) (nat index)) (\<lambda>device.
                       Inr (ip_model_id plan, rank, device)))
                   (enumerate 0 (atnagent_indices (ip_topology plan)))) (instance_plans (gs_plan g)))
            (\<lambda>slots. Inr (concat slots)))"

definition slot_rank :: "model_id \<times> nat \<times> int \<Rightarrow> instance_rank_id" where
  "slot_rank slot = (case slot of (model_id, rank, device) \<Rightarrow> \<lparr>iri_model_id = model_id, iri_rank = int rank\<rparr>)"

definition agent_entries ::
    "real \<Rightarrow> agent_config list \<Rightarrow> (int \<Rightarrow> 'm common_registration_scheme option) \<Rightarrow> readiness_agent list" where
  "agent_entries now agents lookup_reg =
     map (\<lambda>agent. \<lparr>re_pid = pid_of (lookup_reg (agent_device agent)), re_status = status_of now (lookup_reg (agent_device agent)),
                     ra_device = agent_device agent\<rparr>) agents"

definition instance_entries ::
    "real \<Rightarrow> (model_id \<times> nat \<times> int) list \<Rightarrow> (instance_rank_id \<Rightarrow> 'm common_registration_scheme option)
     \<Rightarrow> readiness_instance_rank list" where
  "instance_entries now slots lookup_reg =
     map (\<lambda>slot. case slot of (model_id, rank, device) \<Rightarrow>
            \<lparr>re_pid = pid_of (lookup_reg (slot_rank slot)), re_status = status_of now (lookup_reg (slot_rank slot)),
             ri_model_id = model_id, ri_device = device, ri_rank = rank\<rparr>) slots"

definition projection_warnings ::
    "int set \<Rightarrow> readiness_agent list \<Rightarrow> readiness_agent list \<Rightarrow> readiness_instance_rank list
     \<Rightarrow> control_plane_warning list" where
  "projection_warnings quiescing atns ffns ranks =
     concat (map (\<lambda>entry.
        if re_status entry \<noteq> ONLINE
        then [\<lparr>warn_kind = Stale_atnagent, warn_device = ra_device entry\<rparr>]
        else if ra_device entry \<in> quiescing
        then [\<lparr>warn_kind = Quiescing_atnagent, warn_device = ra_device entry\<rparr>]
        else []) atns)
     @ map (\<lambda>entry. \<lparr>warn_kind = Stale_ffnagent, warn_device = ra_device entry\<rparr>)
         (filter (\<lambda>entry. re_status entry \<noteq> ONLINE) ffns)
     @ map (\<lambda>entry. \<lparr>warn_kind = Stale_instance, warn_device = ri_device entry\<rparr>)
         (filter (\<lambda>entry. re_status entry \<noteq> ONLINE) ranks)"

definition slot_transport_ready ::
    "(instance_rank_id \<Rightarrow> instance_rank_registration_state option) \<Rightarrow> (int \<Rightarrow> atnagent_registration_state option)
     \<Rightarrow> int set \<Rightarrow> transport_broker \<Rightarrow> model_id \<times> nat \<times> int \<Rightarrow> bool" where
  "slot_transport_ready find_rank find_atn quiescing transport slot =
     (case slot of (model_id, rank, device) \<Rightarrow>
        case find_rank (slot_rank slot) of
          None \<Rightarrow> False
        | Some registration \<Rightarrow>
            find_atn device \<noteq> None \<and> device \<notin> quiescing
            \<and> (case published_for device (slot_rank slot) transport of
                 None \<Rightarrow> False
               | Some p \<Rightarrow> pub_transport p = reg_transport registration))"

definition capture_projection ::
    "xpool_config \<Rightarrow> real \<Rightarrow> bool option \<Rightarrow> registration_book \<Rightarrow> transport_broker \<Rightarrow> fabric_controller
     \<Rightarrow> (readiness_snapshot \<times> control_plane_warning list) result" where
  "capture_projection config now mps_online book transport fabric =
     rbind (instance_slots config fabric) (\<lambda>slots.
       let find_atn = dict_get (dict_of (map (\<lambda>r. (atn_device r, r)) (dict_values (book_atnagents book))) []);
           find_ffn = dict_get (dict_of (map (\<lambda>r. (ffn_device r, r)) (dict_values (book_ffnagents book))) []);
           find_rank = dict_get (dict_of (map (\<lambda>r. (reg_instance r, r)) (dict_values (book_instances book))) []);
           atns = agent_entries now (atnagents config) find_atn;
           ffns = agent_entries now (ffnagents config) find_ffn;
           ranks = instance_entries now slots find_rank;
           quiescing = set (filter (\<lambda>device. is_quiescing device transport) (atn_devices (cfg_atn config)));
           warnings = projection_warnings quiescing atns ffns ranks;
           transport_ready = (\<forall>slot\<in>set slots. slot_transport_ready find_rank find_atn quiescing transport slot);
           expected = set (map slot_rank slots);
           initialized = (case fabric of None \<Rightarrow> False
                          | Some g \<Rightarrow> set (dict_keys (gs_initialized_instances g)) = expected);
           invocation_failure = Option.bind fabric gs_invocation_failure;
           owner_failure = Option.bind fabric gs_owner_failure;
           control_failure = Option.bind fabric gs_control_failure;
           processes_ready = ((\<forall>e\<in>set atns. re_status e = ONLINE) \<and> (\<forall>e\<in>set ffns. re_status e = ONLINE)
                              \<and> (\<forall>e\<in>set ranks. re_status e = ONLINE));
           executable = (case fabric of None \<Rightarrow> False | Some g \<Rightarrow> gs_phase g = Gen_EXECUTABLE);
           is_ready = (processes_ready \<and> transport_ready \<and> executable \<and> initialized \<and> mps_online = Some True
                    \<and> invocation_failure = None \<and> owner_failure = None \<and> control_failure = None)
       in Inr (\<lparr>snap_ready = is_ready, snap_generation = map_option (\<lambda>g. fp_generation (gs_plan g)) fabric,
                snap_fabric_phase = map_option gs_phase fabric, snap_invocation_failure = invocation_failure,
                snap_owner_failure = owner_failure, snap_control_failure = control_failure,
                snap_transport_ready = transport_ready, snap_instances_initialized = initialized,
                snap_mps_status = map_option (\<lambda>up. if up then ONLINE else OFFLINE) mps_online,
                snap_devices = config_devices config, snap_atnagents = atns, snap_ffnagents = ffns,
                snap_instances = ranks\<rparr>, warnings))"

section \<open>What readiness promises\<close>

text \<open>A registered process that answered its heartbeats in time.\<close>

definition online :: "real \<Rightarrow> 'm common_registration_scheme option \<Rightarrow> bool" where
  "online now r \<longleftrightarrow> (\<exists>registration. r = Some registration \<and> reg_alive registration
     \<and> now - last_seen_at registration \<le> HEARTBEAT_WARNING_WATERMARK_S)"

lemma status_of_online: "status_of now r = ONLINE \<longleftrightarrow> online now r"
  by (auto simp: status_of_def online_def readiness_status_def split: option.splits)

definition slot_served :: "real \<Rightarrow> registration_book \<Rightarrow> transport_broker \<Rightarrow> model_id \<times> nat \<times> int \<Rightarrow> bool" where
  "slot_served now book transport slot \<longleftrightarrow>
     (case slot of (model_id, rank, device) \<Rightarrow>
        online now (dict_get (book_instances book) (slot_rank slot)) \<and> \<not> is_quiescing device transport
        \<and> (\<exists>r p. dict_get (book_instances book) (slot_rank slot) = Some r
             \<and> published_for device (slot_rank slot) transport = Some p \<and> pub_transport p = reg_transport r))"

lemma slots_configured:
  assumes "instance_slots config fabric = Inr slots" and "(m, rank, device) \<in> set slots"
  shows "device \<in> set (atn_devices (cfg_atn config))"
proof (cases fabric)
  case None
  then show ?thesis using assms by (auto simp: instance_slots_def in_set_enumerate_eq)
next
  case (Some g)
  let ?row = "\<lambda>plan. rmap (\<lambda>(rank, index). rbind (index_at (atn_devices (cfg_atn config)) (nat index)) (\<lambda>device.
       Inr (ip_model_id plan, rank, device))) (enumerate 0 (atnagent_indices (ip_topology plan)))"
  obtain rows where rows: "rmap ?row (instance_plans (gs_plan g)) = Inr rows" and slots: "slots = concat rows"
    using assms(1) Some by (auto simp: instance_slots_def rbind_Inr_iff)
  obtain row where "row \<in> set rows" "(m, rank, device) \<in> set row" using assms(2) slots by auto
  then obtain k j where k: "k < length rows" "rows ! k = row" and j: "j < length row" "row ! j = (m, rank, device)"
    by (metis in_set_conv_nth)
  have "?row (instance_plans (gs_plan g) ! k) = Inr row" using rows k unfolding rmap_Inr_iff by auto
  then have "(\<lambda>(rank, index). rbind (index_at (atn_devices (cfg_atn config)) (nat index)) (\<lambda>device.
       Inr (ip_model_id (instance_plans (gs_plan g) ! k), rank, device)))
       (enumerate 0 (atnagent_indices (ip_topology (instance_plans (gs_plan g) ! k))) ! j) = Inr (m, rank, device)"
    using j unfolding rmap_Inr_iff by auto
  then show ?thesis by (auto simp: rbind_Inr_iff index_at_def case_prod_unfold split: if_splits)
qed

lemma agents_ready:
  "(\<forall>e\<in>set (agent_entries now (agents_of devices) lookup_reg). re_status e = ONLINE) \<longleftrightarrow> (\<forall>d\<in>set devices. online now (lookup_reg d))"
proof -
  have "map agent_device (agents_of devices) = devices"
    by (rule nth_equalityI) (simp_all add: agents_of_def nth_enumerate_eq)
  then have "agent_device ` set (agents_of devices) = set devices" by (metis list.set_map)
  then show ?thesis by (force simp: agent_entries_def status_of_online)
qed

lemma ranks_ready:
  "(\<forall>e\<in>set (instance_entries now slots lookup_reg). re_status e = ONLINE) \<longleftrightarrow> (\<forall>slot\<in>set slots. online now (lookup_reg (slot_rank slot)))"
  by (auto simp: instance_entries_def status_of_online)

lemma table_by_key_fun:
  "table_ok key t \<Longrightarrow> dict_get (dict_of (map (\<lambda>r. (key r, r)) (dict_values t)) []) = dict_get t"
  using table_by_key [of key t] by (intro ext)

text \<open>
  C39: The readiness flag means what operators rely on: the system is reported ready exactly when a
  generation is executable without any recorded failure, MPS is up, every configured agent process is
  registered, alive and heartbeating, and every planned rank is too, has a published arena of its own
  geometry on an AtnAgent that still grants leases, and has completed initialization while no other
  rank has.
\<close>

theorem ready_means_serving:
  assumes "capture_projection config now mps_online book transport fabric = Inr (snapshot, warnings)"
    and "book_ok book"
  shows "snap_ready snapshot \<longleftrightarrow>
     (\<exists>g slots. fabric = Some g \<and> instance_slots config fabric = Inr slots \<and> gs_phase g = Gen_EXECUTABLE
        \<and> gs_invocation_failure g = None \<and> gs_owner_failure g = None \<and> gs_control_failure g = None
        \<and> mps_online = Some True
        \<and> (\<forall>d\<in>set (atn_devices (cfg_atn config)). online now (dict_get (book_atnagents book) d))
        \<and> (\<forall>d\<in>set (ffn_devices (cfg_ffn config)). online now (dict_get (book_ffnagents book) d))
        \<and> (\<forall>slot\<in>set slots. slot_served now book transport slot)
        \<and> set (dict_keys (gs_initialized_instances g)) = slot_rank ` set slots)"
proof -
  obtain slots where slots: "instance_slots config fabric = Inr slots"
    using assms(1) by (auto simp: capture_projection_def rbind_Inr_iff)
  have tables: "dict_get (dict_of (map (\<lambda>r. (atn_device r, r)) (dict_values (book_atnagents book))) []) = dict_get (book_atnagents book)"
    "dict_get (dict_of (map (\<lambda>r. (ffn_device r, r)) (dict_values (book_ffnagents book))) []) = dict_get (book_ffnagents book)"
    "dict_get (dict_of (map (\<lambda>r. (reg_instance r, r)) (dict_values (book_instances book))) []) = dict_get (book_instances book)"
    using assms(2) unfolding book_ok_def by (simp_all only: table_by_key_fun)
  let ?quiescing = "set (filter (\<lambda>device. is_quiescing device transport) (atn_devices (cfg_atn config)))"
  let ?atns = "\<forall>d\<in>set (atn_devices (cfg_atn config)). online now (dict_get (book_atnagents book) d)"
  have served: "(online now (dict_get (book_instances book) (slot_rank slot))
        \<and> slot_transport_ready (dict_get (book_instances book)) (dict_get (book_atnagents book)) ?quiescing transport slot)
      \<longleftrightarrow> slot_served now book transport slot" if "?atns" "slot \<in> set slots" for slot
  proof -
    obtain m rank device where slot: "slot = (m, rank, device)" by (cases slot)
    have "device \<in> set (atn_devices (cfg_atn config))" using slots_configured [OF slots] that(2) slot by blast
    then show ?thesis using that(1) slot
      by (auto simp: slot_transport_ready_def slot_served_def online_def split: option.splits)
  qed
  have flag: "snap_ready snapshot \<longleftrightarrow> ?atns \<and> (\<forall>d\<in>set (ffn_devices (cfg_ffn config)). online now (dict_get (book_ffnagents book) d))
      \<and> (\<forall>slot\<in>set slots. online now (dict_get (book_instances book) (slot_rank slot)))
      \<and> (\<forall>slot\<in>set slots. slot_transport_ready (dict_get (book_instances book)) (dict_get (book_atnagents book)) ?quiescing transport slot)
      \<and> (case fabric of None \<Rightarrow> False | Some g \<Rightarrow> gs_phase g = Gen_EXECUTABLE)
      \<and> (case fabric of None \<Rightarrow> False | Some g \<Rightarrow> set (dict_keys (gs_initialized_instances g)) = set (map slot_rank slots))
      \<and> mps_online = Some True \<and> Option.bind fabric gs_invocation_failure = None
      \<and> Option.bind fabric gs_owner_failure = None \<and> Option.bind fabric gs_control_failure = None"
  proof -
    have "snapshot = fst (projr (capture_projection config now mps_online book transport fabric))" using assms(1) by simp
    then show ?thesis
      unfolding capture_projection_def slots rbind_simps Let_def tables atnagents_def ffnagents_def sum.sel fst_conv
        agents_ready ranks_ready by (simp only: readiness_snapshot.select_convs conj_assoc)
  qed
  show ?thesis
  proof (cases fabric)
    case None
    then show ?thesis unfolding flag by simp
  next
    case (Some g)
    have each: "((\<forall>slot\<in>set slots. online now (dict_get (book_instances book) (slot_rank slot)))
        \<and> (\<forall>slot\<in>set slots. slot_transport_ready (dict_get (book_instances book)) (dict_get (book_atnagents book)) ?quiescing transport slot))
      \<longleftrightarrow> (\<forall>slot\<in>set slots. slot_served now book transport slot)" if "?atns"
      using served [OF that] by blast
    show ?thesis
    proof (cases "?atns")
      case True
      then show ?thesis unfolding flag conj_assoc [symmetric] using Some slots by (simp add: each [OF True, symmetric] conj_ac)
    next
      case False
      then show ?thesis unfolding flag using Some by blast
    qed
  qed
qed

definition serving_rank :: "int \<Rightarrow> instance_rank_id" where
  "serving_rank rank = \<lparr>iri_model_id = ''a/b'', iri_rank = rank\<rparr>"

definition serving_generation :: fabric_generation_state where
  "serving_generation = sample_executable
     \<lparr>gs_plan := sample_plan\<lparr>instance_plans := [\<lparr>ip_model_id = ''a/b'', ip_ffn_profile = reg_ffn_profile (sample_instance_registration 0),
         ip_topology = \<lparr>topo_atn_tp_size = 2, topo_atn_dp_size = 1, atnagent_indices = [0, 1]\<rparr>\<rparr>]\<rparr>,
      gs_initialized_instances := map (\<lambda>rank. (serving_rank rank, reg_proc (sample_instance_registration 0))) [0, 1]\<rparr>"

definition serving_broker :: transport_broker where
  "serving_broker = \<lparr>tb_atnagents = map (\<lambda>rank. (rank, \<lparr>ts_owner = reg_proc (sample_registration 5 20),
       ts_publications = [(serving_rank rank, \<lparr>pub_instance = serving_rank rank, pub_handle = pub_handle sample_publication,
          pub_transport = reg_transport (the (dict_get (book_instances sample_book) (serving_rank rank)))\<rparr>)],
       accepting_leases = True\<rparr>)) [0, 1], tb_leases = []\<rparr>"

theorem ready_means_serving_witness:
  "\<exists>snapshot warnings. capture_projection sample_config 1 (Some True) sample_book serving_broker (Some serving_generation) =
     Inr (snapshot, warnings) \<and> snap_ready snapshot
     \<and> slot_served 1 sample_book serving_broker (''a/b'', 1, 1)"
proof -
  let ?capture = "capture_projection sample_config 1 (Some True) sample_book serving_broker (Some serving_generation)"
  have "is_ok ?capture \<and> snap_ready (fst (projr ?capture))" by code_simp
  then obtain snapshot warnings where c: "?capture = Inr (snapshot, warnings)" and r: "snap_ready snapshot"
    by (auto simp: is_ok_iff)
  have slots: "instance_slots sample_config (Some serving_generation) = Inr [(''a/b'', 0, 0), (''a/b'', 1, 1)]" by code_simp
  have "book_ok sample_book" by code_simp
  from ready_means_serving [OF c this] r slots have "slot_served 1 sample_book serving_broker (''a/b'', 1, 1)" by auto
  then show ?thesis using c r by blast
qed

end
