(* ===== verification/Ecs_Channel.thy ===== *)
theory Ecs_Channel
  imports Prelude
begin

section \<open>The elastic context state control channel\<close>

text \<open>
  Models the native channel of \<^verbatim>\<open>src/cext/ecs/channel.cpp\<close> at the level of its committed publications:
  a seqlock protected slot is its committed value, a reader gets that value or nothing (a revision that
  is odd or moved while reading). The daemon publishes commands and ceilings, the participants publish
  backing, device memory, completions and demands. \<^verbatim>\<open>TORCH_CHECK\<close> raises \<^verbatim>\<open>RuntimeError\<close>. The shared
  memory mapping and the layout validation at attach are not modelled.
\<close>

record quota_command =
  qc_sequence :: int
  qc_quota_bytes :: "int list"

record quota_completion =
  qn_sequence :: int
  backed_bytes :: int

record quota_demand =
  evaluated_sequence :: int
  required_bytes :: "int list option"
  deadline_monotonic_ns :: "int option"

record device_memory_report =
  total_bytes :: int
  free_bytes :: int

record ecs_channel =
  ch_group_first :: "nat list"
  ch_group_count :: "nat list"
  ch_commands :: "quota_command option list"
  ch_ceilings :: "int list option list"
  ch_completions :: "quota_completion option list"
  ch_demands :: "quota_demand option list"
  ch_initial_backing :: "int option list"
  ch_device_memory :: "device_memory_report option list"

definition UINT32_MAX :: int where
  "UINT32_MAX = 2 ^ 32 - 1"

fun first_partitions :: "nat \<Rightarrow> nat list \<Rightarrow> nat list" where
  "first_partitions start [] = []"
| "first_partitions start (count # counts) = start # first_partitions (start + count) counts"

definition create_channel :: "nat \<Rightarrow> nat list \<Rightarrow> ecs_channel result" where
  "create_channel device_count counts =
     (if 0 \<in> set counts
      then Inl (RuntimeError ''xpool elastic context state group partition count is invalid'')
      else Inr \<lparr>ch_group_first = first_partitions 0 counts, ch_group_count = counts,
                ch_commands = replicate (length counts) None, ch_ceilings = replicate (length counts) None,
                ch_completions = replicate (sum_list counts) None, ch_demands = replicate (length counts) None,
                ch_initial_backing = replicate (sum_list counts) None,
                ch_device_memory = replicate device_count None\<rparr>)"

definition group_partitions :: "ecs_channel \<Rightarrow> nat \<Rightarrow> nat list" where
  "group_partitions ch g = [ch_group_first ch ! g ..< ch_group_first ch ! g + ch_group_count ch ! g]"

definition publish_service_ceiling :: "nat \<Rightarrow> int list \<Rightarrow> (ecs_channel, unit) op" where
  "publish_service_ceiling g quota ch =
     (if g \<ge> length (ch_ceilings ch)
      then raise (RuntimeError ''xpool elastic context state service ceiling group is invalid'') ch
      else if length quota \<noteq> ch_group_count ch ! g
      then raise (RuntimeError ''xpool elastic context state ceiling vector extent is invalid'') ch
      else case ch_ceilings ch ! g of
             Some published \<Rightarrow>
               if published \<noteq> quota
               then raise (RuntimeError ''xpool elastic context state service ceiling is immutable'') ch
               else ret () ch
           | None \<Rightarrow> ret () (ch\<lparr>ch_ceilings := (ch_ceilings ch)[g := Some quota]\<rparr>))"

definition publish_command :: "nat \<Rightarrow> quota_command \<Rightarrow> (ecs_channel, unit) op" where
  "publish_command g command ch =
     (if \<not> (g < length (ch_commands ch) \<and> qc_sequence command \<noteq> 0)
      then raise (RuntimeError ''xpool elastic context state command identity is invalid'') ch
      else if length (qc_quota_bytes command) \<noteq> ch_group_count ch ! g
      then raise (RuntimeError ''xpool elastic context state command vector extent is invalid'') ch
      else let previous = ch_commands ch ! g;
               sequence = (case previous of None \<Rightarrow> 0 | Some c \<Rightarrow> qc_sequence c)
      in if previous \<noteq> None \<and> sequence = qc_sequence command
         then (if previous \<noteq> Some command
               then raise (RuntimeError ''xpool elastic context state command mutates an existing sequence'') ch
               else ret () ch)
         else if \<not> (sequence \<noteq> UINT32_MAX \<and> qc_sequence command = sequence + 1)
         then raise (RuntimeError ''xpool elastic context state command sequence is not the next publication'') ch
         else if sequence \<noteq> 0
                 \<and> (\<exists>i\<in>set (group_partitions ch g).
                       (case ch_completions ch ! i of None \<Rightarrow> True | Some c \<Rightarrow> qn_sequence c \<noteq> sequence))
         then raise (RuntimeError ''xpool elastic context state command supersedes an unfinished group operation'') ch
         else ret () (ch\<lparr>ch_commands := (ch_commands ch)[g := Some command]\<rparr>))"

subsection \<open>The participants' side\<close>

definition publish_device_memory :: "nat \<Rightarrow> int \<Rightarrow> int \<Rightarrow> (ecs_channel, unit) op" where
  "publish_device_memory device total_mem free_mem ch =
     (if \<not> (total_mem \<noteq> 0 \<and> free_mem \<le> total_mem)
      then raise (RuntimeError ''xpool elastic context state device-memory observation is invalid'') ch
      else case ch_device_memory ch ! device of
             Some r \<Rightarrow>
               if r \<noteq> \<lparr>total_bytes = total_mem, free_bytes = free_mem\<rparr>
               then raise (RuntimeError ''xpool elastic context state device-memory observation was already published'') ch
               else ret () ch
           | None \<Rightarrow>
               ret () (ch\<lparr>ch_device_memory := (ch_device_memory ch)[device := Some \<lparr>total_bytes = total_mem, free_bytes = free_mem\<rparr>]\<rparr>))"

definition publish_initial_backing :: "nat \<Rightarrow> int \<Rightarrow> (ecs_channel, unit) op" where
  "publish_initial_backing partition_index bytes ch =
     (case ch_initial_backing ch ! partition_index of
        Some b \<Rightarrow>
          if b \<noteq> bytes then raise (RuntimeError ''xpool elastic context state initial backing is immutable'') ch
          else ret () ch
      | None \<Rightarrow> ret () (ch\<lparr>ch_initial_backing := (ch_initial_backing ch)[partition_index := Some bytes]\<rparr>))"

definition publish_completion :: "nat \<Rightarrow> nat \<Rightarrow> quota_completion \<Rightarrow> (ecs_channel, unit) op" where
  "publish_completion g partition_index completion ch =
     (if qn_sequence completion = 0
      then raise (RuntimeError ''xpool elastic context state completion sequence is invalid'') ch
      else let previous = ch_completions ch ! partition_index
      in if (case previous of None \<Rightarrow> False | Some p \<Rightarrow> qn_sequence p = qn_sequence completion)
         then (if previous \<noteq> Some completion
               then raise (RuntimeError ''xpool elastic context state completion mutates an existing sequence'') ch
               else ret () ch)
         else if \<not> (case ch_commands ch ! g of
                      None \<Rightarrow> False
                    | Some c \<Rightarrow> qc_sequence c = qn_sequence completion
                        \<and> (case previous of None \<Rightarrow> True | Some p \<Rightarrow> qn_sequence p < qn_sequence completion))
         then raise (RuntimeError ''xpool elastic context state completion does not match the current command'') ch
         else ret () (ch\<lparr>ch_completions := (ch_completions ch)[partition_index := Some completion]\<rparr>))"

definition publish_demand :: "nat \<Rightarrow> nat \<Rightarrow> quota_demand \<Rightarrow> (ecs_channel, unit) op" where
  "publish_demand g partition_index demand ch =
     (if partition_index \<noteq> ch_group_first ch ! g
      then raise (RuntimeError ''xpool elastic context state demand publisher must be the TP leader'') ch
      else if \<not> (evaluated_sequence demand \<noteq> 0
                 \<and> (required_bytes demand \<noteq> None) = (deadline_monotonic_ns demand \<noteq> None))
      then raise (RuntimeError ''xpool elastic context state demand presence is invalid'') ch
      else if (case required_bytes demand of None \<Rightarrow> False | Some r \<Rightarrow> length r \<noteq> ch_group_count ch ! g)
      then raise (RuntimeError ''xpool elastic context state demand vector extent is invalid'') ch
      else if (case ch_demands ch ! g of None \<Rightarrow> False | Some d \<Rightarrow> evaluated_sequence demand < evaluated_sequence d)
      then raise (RuntimeError ''xpool elastic context state demand evaluated sequence regressed'') ch
      else ret () (ch\<lparr>ch_demands := (ch_demands ch)[g := Some demand]\<rparr>))"

section \<open>Directory and sequence facts\<close>

lemma first_partitions_length [simp]: "length (first_partitions start counts) = length counts"
  by (induction counts arbitrary: start) auto

lemma first_partitions_nth:
  "i < length counts \<Longrightarrow> first_partitions start counts ! i = start + sum_list (take i counts)"
proof (induction counts arbitrary: start i)
  case (Cons count counts)
  then show ?case by (cases i) auto
qed simp

text \<open>Commands of a group are consecutive, and a new one needs every completion of the previous one.\<close>

lemma publish_command_Inr:
  assumes "publish_command g command ch = (Inr u, ch')"
  shows "g < length (ch_commands ch) \<and> length (qc_quota_bytes command) = ch_group_count ch ! g
     \<and> ch' = ch\<lparr>ch_commands := (ch_commands ch)[g := Some command]\<rparr>
     \<and> (ch_commands ch ! g = Some command
        \<or> qc_sequence command = (case ch_commands ch ! g of None \<Rightarrow> 0 | Some c \<Rightarrow> qc_sequence c) + 1)"
proof -
  have "ch\<lparr>ch_commands := (ch_commands ch)[g := Some command]\<rparr> = ch"
    if "g < length (ch_commands ch)" "ch_commands ch ! g = Some command"
    using that by (metis ecs_channel.surjective ecs_channel.update_convs(3) list_update_id)
  then show ?thesis
    using assms by (auto simp: publish_command_def ret_def raise_def Let_def split: if_splits option.splits)
qed

lemma publish_command_Inl: "publish_command g command ch = (Inl e, ch') \<Longrightarrow> ch' = ch"
  by (auto simp: publish_command_def ret_def raise_def Let_def split: if_splits)

lemma publish_service_ceiling_Inl: "publish_service_ceiling g q ch = (Inl e, ch') \<Longrightarrow> ch' = ch"
  by (auto simp: publish_service_ceiling_def ret_def raise_def Let_def split: if_splits option.splits)

end
