(* ===== verification/Capacity_Policy.thy ===== *)
theory Capacity_Policy
  imports Fabric_Controller Ecs_Channel "HOL-Library.Product_Lexorder"
begin

section \<open>The capacity policy of the daemon\<close>

text \<open>
  Models \<^verbatim>\<open>src/xpool/service/daemon/ecs.py\<close>: one generation's byte permissions. The pure helpers return a
  value or the exception they raise, the mutating methods are operations on the policy record. What the
  channel reads return at a step, the clock and the configuration are arguments. Capacity groups are
  enumerated in directory order; device indices are ranks of the attention World. The product
  \<^verbatim>\<open>int(total_bytes * utilization)\<close> is taken over the reals.
\<close>

record funding_attempt =
  fa_borrower_index :: nat
  fa_evaluated_sequence :: int
  fa_target_quota_bytes :: "int list"
  fa_deadline_monotonic_ns :: int
  fa_attempted_donors :: "nat list"
  fa_donor_index :: "nat option"

record capacity_policy =
  cp_generation :: fabric_generation_id
  cp_channel :: ecs_channel
  cp_applied_sequences :: "int list"
  cp_active_quotas :: "int list option list"
  cp_operations :: "quota_command option list"
  cp_demands :: "quota_demand option list"
  cp_completed_grant_orders :: "int option list"
  cp_service_ceilings :: "int list option list"
  cp_next_grant_order :: int
  cp_funding_attempt :: "funding_attempt option"
  cp_pool_capacity_bytes :: "int list option"

text \<open>\<^verbatim>\<open>CapacityPolicy.create\<close> with \<^verbatim>\<open>__post_init__\<close>.\<close>

definition group_partition_counts :: "xpool_config \<Rightarrow> nat list result" where
  "group_partition_counts config =
     rbind (rmap (\<lambda>m. rbind (atn_tp_size_of config (cfg_id m)) (\<lambda>tp.
                        Inr (replicate (nat (cfg_atn_dp_size m)) (nat tp)))) (cfg_models config))
       (\<lambda>counts. Inr (concat counts))"

definition create_policy :: "xpool_config \<Rightarrow> fabric_generation_id \<Rightarrow> capacity_policy result" where
  "create_policy config generation =
     rbind (group_partition_counts config) (\<lambda>counts.
     rbind (create_channel (nat (atn_world_size config)) counts) (\<lambda>channel.
       let group_count = nat (\<Sum>m\<leftarrow>cfg_models config. cfg_atn_dp_size m)
       in Inr \<lparr>cp_generation = generation, cp_channel = channel,
               cp_applied_sequences = replicate group_count 0, cp_active_quotas = replicate group_count None,
               cp_operations = replicate group_count None, cp_demands = replicate group_count None,
               cp_completed_grant_orders = replicate group_count None,
               cp_service_ceilings = replicate group_count None, cp_next_grant_order = 0,
               cp_funding_attempt = None, cp_pool_capacity_bytes = None\<rparr>))"

subsection \<open>Groups and profiles\<close>

definition partition_of :: "registration_book \<Rightarrow> model_id \<Rightarrow> nat \<Rightarrow> instance_rank_registration_state result" where
  "partition_of book model_id rank =
     (case query \<lparr>iri_model_id = model_id, iri_rank = int rank\<rparr> (book_instances book) of
        None \<Rightarrow> Inl (RuntimeError ''elastic context state quota policy lost registration'')
      | Some registration \<Rightarrow> Inr registration)"

definition capacity_groups :: "fabric_instance_plan list \<Rightarrow> (nat \<times> nat \<times> nat) list" where
  "capacity_groups plans =
     map (\<lambda>(group_index, instance_index, dp_rank). (group_index, instance_index, dp_rank))
       (enumerate 0 (concat (map (\<lambda>(instance_index, plan).
            map (\<lambda>dp_rank. (instance_index, dp_rank)) [0..<nat (topo_atn_dp_size (ip_topology plan))])
          (enumerate 0 plans))))"

definition group_profiles ::
    "registration_book \<Rightarrow> fabric_instance_plan list \<Rightarrow> nat \<Rightarrow> nat \<Rightarrow> (nat \<times> ecs_partition_profile) list result" where
  "group_profiles book plans instance_idx dp_rank =
     rbind (index_at plans instance_idx) (\<lambda>plan.
       let width = nat (topo_atn_tp_size (ip_topology plan));
           start_rank = dp_rank * width
       in rmap (\<lambda>rank. rbind (partition_of book (ip_model_id plan) rank) (\<lambda>registration.
                         Inr (rank, reg_context_state_profile registration)))
            [start_rank..<start_rank + width])"

definition group_partition_indices ::
    "xpool_config \<Rightarrow> fabric_instance_plan list \<Rightarrow> nat \<Rightarrow> nat \<Rightarrow> nat list result" where
  "group_partition_indices config plans instance_idx dp_rank =
     rbind (index_at plans instance_idx) (\<lambda>plan.
       let width = nat (topo_atn_tp_size (ip_topology plan));
           row = instance_idx * nat (atn_world_size config)
       in Inr (map (\<lambda>rank. row + dp_rank * width + rank) [0..<width]))"

text \<open>The floors of one device over every planned Instance.\<close>

definition device_floors :: "registration_book \<Rightarrow> fabric_instance_plan list \<Rightarrow> nat \<Rightarrow> int list result" where
  "device_floors book plans device =
     rmap (\<lambda>plan. rbind (partition_of book (ip_model_id plan) device) (\<lambda>registration.
                    Inr (floor_bytes (reg_context_state_profile registration)))) plans"

subsection \<open>Freezing the pools\<close>

definition device_budget ::
    "xpool_config \<Rightarrow> registration_book \<Rightarrow> fabric_instance_plan list \<Rightarrow> int option list
     \<Rightarrow> nat \<times> device_memory_report option \<Rightarrow> int result" where
  "device_budget config book plans initial_backing entry =
     (case entry of
        (device, None) \<Rightarrow> Inl (RuntimeError ''elastic context state quota freezing requires every device report'')
      | (device, Some report) \<Rightarrow>
          rbind (rmap (\<lambda>(instance_idx, plan).
                   rbind (index_at initial_backing (instance_idx * nat (atn_world_size config) + device)) (\<lambda>backing.
                   rbind (partition_of book (ip_model_id plan) device) (\<lambda>registration.
                     let profile = reg_context_state_profile registration
                     in if backing \<noteq> Some (floor_bytes profile)
                        then Inl (RuntimeError ''elastic context state startup backing differs from its registered floor'')
                        else Inr (the backing, floor_bytes profile, atn_runtime_headroom_bytes registration))))
                 (enumerate 0 plans)) (\<lambda>rows.
            let mapped = (\<Sum>(b, f, h)\<leftarrow>rows. b);
                floors = (\<Sum>(b, f, h)\<leftarrow>rows. f);
                headroom = (\<Sum>(b, f, h)\<leftarrow>rows. h);
                utilization_reserve =
                  total_bytes report - \<lfloor>real_of_int (total_bytes report) * device_memory_utilization (cfg_atn config)\<rfloor>;
                reserve = max utilization_reserve headroom;
                budget = free_bytes report + mapped - reserve
            in if budget < floors
               then Inl (RuntimeError ''attention device cannot retain all backing floors'')
               else Inr budget))"

definition initial_target ::
    "registration_book \<Rightarrow> fabric_instance_plan list \<Rightarrow> int list option \<Rightarrow> nat \<Rightarrow> nat \<Rightarrow> int list result" where
  "initial_target book plans pool instance_idx dp_rank =
     (case pool of
        None \<Rightarrow> Inl (RuntimeError ''attention device budgets are not frozen'')
      | Some budgets \<Rightarrow>
          rbind (group_profiles book plans instance_idx dp_rank) (\<lambda>profiles.
            rmap (\<lambda>(device, profile).
              rbind (device_floors book plans device) (\<lambda>floors.
              rbind (index_at budgets device) (\<lambda>budget.
                let extra = (budget - sum_list floors) div int (length plans)
                in Inr (min (reservation_bytes profile) (floor_bytes profile + extra))))) profiles))"

definition service_ceiling ::
    "registration_book \<Rightarrow> fabric_instance_plan list \<Rightarrow> int list option \<Rightarrow> nat \<Rightarrow> nat \<Rightarrow> int list result" where
  "service_ceiling book plans pool instance_idx dp_rank =
     (case pool of
        None \<Rightarrow> Inl (RuntimeError ''attention device budgets are not frozen'')
      | Some budgets \<Rightarrow>
          rbind (group_profiles book plans instance_idx dp_rank) (\<lambda>profiles.
            rmap (\<lambda>(device, profile).
              rbind (rmap (\<lambda>(index, plan). rbind (partition_of book (ip_model_id plan) device) (\<lambda>registration.
                             Inr (floor_bytes (reg_context_state_profile registration))))
                      (filter (\<lambda>(index, plan). index \<noteq> instance_idx) (enumerate 0 plans))) (\<lambda>other_floors.
              rbind (index_at budgets device) (\<lambda>budget.
                Inr (min (reservation_bytes profile) (budget - sum_list other_floors))))) profiles))"

definition on_channel :: "(ecs_channel, unit) op \<Rightarrow> (capacity_policy, unit) op" where
  "on_channel m p = (case m (cp_channel p) of (r, ch) \<Rightarrow> (r, p\<lparr>cp_channel := ch\<rparr>))"

text \<open>\<^verbatim>\<open>xs[i] = v\<close> on a list of the policy.\<close>

definition set_item :: "'a list \<Rightarrow> nat \<Rightarrow> 'a \<Rightarrow> 'a list result" where
  "set_item xs i v = (if i < length xs then Inr (xs[i := v]) else Inl IndexError)"

definition freeze_group ::
    "registration_book \<Rightarrow> fabric_instance_plan list \<Rightarrow> nat \<times> nat \<times> nat \<Rightarrow> (capacity_policy, unit) op" where
  "freeze_group book plans grp p =
     (case grp of (group_index, instance_idx, dp_rank) \<Rightarrow>
        case rbind (group_profiles book plans instance_idx dp_rank) (\<lambda>profiles.
             set_item (cp_active_quotas p) group_index (Some (map (\<lambda>(_, profile). floor_bytes profile) profiles))) of
          Inl e \<Rightarrow> raise e p
        | Inr active \<Rightarrow>
            let p1 = p\<lparr>cp_active_quotas := active\<rparr>
            in case rbind (service_ceiling book plans (cp_pool_capacity_bytes p1) instance_idx dp_rank) (\<lambda>caps.
                    rbind (set_item (cp_service_ceilings p1) group_index (Some caps)) (\<lambda>ceilings.
                      Inr (caps, ceilings))) of
                 Inl e \<Rightarrow> raise e p1
               | Inr (caps, ceilings) \<Rightarrow>
                   on_channel (publish_service_ceiling group_index caps) (p1\<lparr>cp_service_ceilings := ceilings\<rparr>))"

definition freeze_pools ::
    "xpool_config \<Rightarrow> registration_book \<Rightarrow> fabric_instance_plan list \<Rightarrow> int option list
     \<Rightarrow> device_memory_report option list \<Rightarrow> (capacity_policy, unit) op" where
  "freeze_pools config book plans initial_backing device_reports p =
     (case rmap (device_budget config book plans initial_backing) (enumerate 0 device_reports) of
        Inl e \<Rightarrow> raise e p
      | Inr budgets \<Rightarrow>
          for_each (freeze_group book plans) (capacity_groups plans) (p\<lparr>cp_pool_capacity_bytes := Some budgets\<rparr>))"

subsection \<open>Accounting\<close>

text \<open>One group's subtraction from the free vector; a group without a quota is skipped.\<close>

fun charge_rows :: "(((nat \<times> ecs_partition_profile) \<times> int) \<times> int) list \<Rightarrow> int list \<Rightarrow> int list result" where
  "charge_rows [] free = Inr free"
| "charge_rows ((((device, _), old), new) # rows) free =
     rbind (index_at free device) (\<lambda>v. charge_rows rows (free[device := v - max old new]))"

definition charge_group ::
    "registration_book \<Rightarrow> fabric_instance_plan list \<Rightarrow> capacity_policy \<Rightarrow> nat \<times> nat \<times> nat \<Rightarrow> int list \<Rightarrow> int list result" where
  "charge_group book plans p grp free =
     (case grp of (group_index, instance_idx, dp_rank) \<Rightarrow>
        rbind (index_at (cp_active_quotas p) group_index) (\<lambda>quota.
          case quota of
            None \<Rightarrow> Inr free
          | Some active \<Rightarrow>
              rbind (index_at (cp_operations p) group_index) (\<lambda>operation.
              let target = (case operation of Some command \<Rightarrow> qc_quota_bytes command | None \<Rightarrow> active)
              in rbind (group_profiles book plans instance_idx dp_rank) (\<lambda>profiles.
                 rbind (zip_strict profiles active) (\<lambda>with_old.
                 rbind (zip_strict with_old target) (\<lambda>rows. charge_rows rows free))))))"

fun charge_groups ::
    "registration_book \<Rightarrow> fabric_instance_plan list \<Rightarrow> capacity_policy \<Rightarrow> (nat \<times> nat \<times> nat) list \<Rightarrow> int list
     \<Rightarrow> int list result" where
  "charge_groups book plans p [] free = Inr free"
| "charge_groups book plans p (grp # grps) free =
     rbind (charge_group book plans p grp free) (\<lambda>free'. charge_groups book plans p grps free')"

definition pool_free_bytes ::
    "registration_book \<Rightarrow> fabric_instance_plan list \<Rightarrow> capacity_policy \<Rightarrow> int list result" where
  "pool_free_bytes book plans p =
     (case cp_pool_capacity_bytes p of
        None \<Rightarrow> Inl (RuntimeError ''attention device budgets are not frozen'')
      | Some budgets \<Rightarrow>
          rbind (charge_groups book plans p (capacity_groups plans) budgets) (\<lambda>free.
            if \<exists>value\<in>set free. value < 0
            then Inl (RuntimeError ''elastic context state quota accounting exceeded a physical device budget'')
            else Inr free))"

definition growth_bytes ::
    "registration_book \<Rightarrow> fabric_instance_plan list \<Rightarrow> nat \<Rightarrow> nat \<Rightarrow> int list \<Rightarrow> int list \<Rightarrow> (nat \<times> int) list result" where
  "growth_bytes book plans instance_idx dp_rank start target =
     rbind (group_profiles book plans instance_idx dp_rank) (\<lambda>profiles.
     rbind (zip_strict profiles start) (\<lambda>with_old.
     rbind (zip_strict with_old target) (\<lambda>rows.
       Inr (dict_of (map (\<lambda>(((device, _), old), new). (device, new - old)) rows) []))))"

subsection \<open>Operations\<close>

definition publish_operation :: "nat \<Rightarrow> int list \<Rightarrow> (capacity_policy, unit) op" where
  "publish_operation group_index quota p =
     (case rbind (index_at (cp_active_quotas p) group_index) (\<lambda>active.
           rbind (index_at (cp_operations p) group_index) (\<lambda>operation.
           if active = None \<or> operation \<noteq> None
           then Inl (RuntimeError ''elastic context state quota operation requires one initialized idle group'')
           else index_at (cp_applied_sequences p) group_index)) of
        Inl e \<Rightarrow> raise e p
      | Inr applied \<Rightarrow>
          let command = \<lparr>qc_sequence = applied + 1, qc_quota_bytes = quota\<rparr>
          in bind (on_channel (publish_command group_index command))
               (\<lambda>_. modify (\<lambda>p. p\<lparr>cp_operations := (cp_operations p)[group_index := Some command]\<rparr>)) p)"

text \<open>\<^verbatim>\<open>any(new > old for old, new in zip(olds, news, strict=True))\<close> with its short circuit.\<close>

fun any_grows :: "int list \<Rightarrow> int list \<Rightarrow> bool result" where
  "any_grows [] [] = Inr False"
| "any_grows (old # olds) (new # news) = (if new > old then Inr True else any_grows olds news)"
| "any_grows _ _ = Inl (ValueError ''zip() arguments have different lengths'')"

text \<open>The replies of a group, when every partition has answered the operation's sequence.\<close>

definition group_replies ::
    "xpool_config \<Rightarrow> fabric_instance_plan list \<Rightarrow> quota_completion option list \<Rightarrow> nat \<Rightarrow> nat \<Rightarrow> int
     \<Rightarrow> quota_completion list option result" where
  "group_replies config plans completions instance_idx dp_rank sequence =
     rbind (group_partition_indices config plans instance_idx dp_rank) (\<lambda>indices.
     rbind (rmap (index_at completions) indices) (\<lambda>replies.
       Inr (if \<forall>reply\<in>set replies. (case reply of None \<Rightarrow> False | Some c \<Rightarrow> qn_sequence c = sequence)
            then Some (map the replies) else None)))"

definition retire_group ::
    "xpool_config \<Rightarrow> registration_book \<Rightarrow> fabric_instance_plan list \<Rightarrow> quota_completion option list
     \<Rightarrow> nat \<times> nat \<times> nat \<Rightarrow> (capacity_policy, bool) op" where
  "retire_group config book plans completions grp p =
     (case grp of (group_index, instance_idx, dp_rank) \<Rightarrow>
        case index_at (cp_operations p) group_index of
          Inl e \<Rightarrow> raise e p
        | Inr None \<Rightarrow> ret False p
        | Inr (Some operation) \<Rightarrow>
            let sequence = qc_sequence operation;
                target = qc_quota_bytes operation
            in case group_replies config plans completions instance_idx dp_rank sequence of
                 Inl e \<Rightarrow> raise e p
               | Inr None \<Rightarrow> ret False p
               | Inr (Some replies) \<Rightarrow>
                   (case rbind (group_profiles book plans instance_idx dp_rank) (\<lambda>profiles.
                         rbind (zip_strict replies profiles) (\<lambda>rows.
                         rbind (zip_strict rows target) (\<lambda>rows.
                         if \<exists>((reply, (_, profile)), quota)\<in>set rows.
                              \<not> (floor_bytes profile \<le> backed_bytes reply \<and> backed_bytes reply \<le> quota)
                         then Inl (RuntimeError ''elastic context state quota completion is outside its floor and adopted grant'')
                         else rbind (index_at (cp_active_quotas p) group_index) (\<lambda>old_quota.
                              rbind (set_item (cp_active_quotas p) group_index (Some target)) (\<lambda>active.
                              rbind (set_item (cp_applied_sequences p) group_index sequence) (\<lambda>applied.
                                Inr (old_quota, active, applied))))))) of
                      Inl e \<Rightarrow> raise e p
                    | Inr (old_quota, active, applied) \<Rightarrow>
                        let p1 = p\<lparr>cp_active_quotas := active, cp_applied_sequences := applied,
                                   cp_operations := (cp_operations p)[group_index := None]\<rparr>
                        in if sequence = 1 then ret True p1
                           else case (case old_quota of None \<Rightarrow> Inl (TypeError ''NoneType is not iterable'')
                                                      | Some old \<Rightarrow> any_grows old target) of
                                  Inl e \<Rightarrow> raise e p1
                                | Inr False \<Rightarrow> ret True p1
                                | Inr True \<Rightarrow>
                                    (case set_item (cp_completed_grant_orders p1) group_index
                                            (Some (cp_next_grant_order p1)) of
                                       Inl e \<Rightarrow> raise e p1
                                     | Inr orders \<Rightarrow>
                                         ret True (p1\<lparr>cp_completed_grant_orders := orders,
                                                      cp_next_grant_order := cp_next_grant_order p1 + 1\<rparr>))))"

fun retire_loop ::
    "xpool_config \<Rightarrow> registration_book \<Rightarrow> fabric_instance_plan list \<Rightarrow> quota_completion option list
     \<Rightarrow> (nat \<times> nat \<times> nat) list \<Rightarrow> (capacity_policy, nat list) op" where
  "retire_loop config book plans completions [] = ret []"
| "retire_loop config book plans completions (grp # grps) =
     bind (retire_group config book plans completions grp) (\<lambda>retired.
     bind (retire_loop config book plans completions grps) (\<lambda>rest.
       ret (if retired then fst grp # rest else rest)))"

definition retire_operations ::
    "xpool_config \<Rightarrow> registration_book \<Rightarrow> fabric_instance_plan list \<Rightarrow> quota_completion option list
     \<Rightarrow> (capacity_policy, nat list) op" where
  "retire_operations config book plans completions =
     retire_loop config book plans completions (capacity_groups plans)"

fun publish_first_initial ::
    "registration_book \<Rightarrow> fabric_instance_plan list \<Rightarrow> (nat \<times> nat \<times> nat) list \<Rightarrow> (capacity_policy, bool) op" where
  "publish_first_initial book plans [] = ret False"
| "publish_first_initial book plans ((group_index, instance_idx, dp_rank) # grps) =
     bind (reading (\<lambda>p. index_at (cp_applied_sequences p) group_index)) (\<lambda>applied.
       if applied = 0
       then bind (reading (\<lambda>p. initial_target book plans (cp_pool_capacity_bytes p) instance_idx dp_rank)) (\<lambda>target.
            bind (publish_operation group_index target) (\<lambda>_. ret True))
       else publish_first_initial book plans grps)"

definition publish_next_initial_operation ::
    "registration_book \<Rightarrow> fabric_instance_plan list \<Rightarrow> (capacity_policy, bool) op" where
  "publish_next_initial_operation book plans p =
     (if \<exists>operation\<in>set (cp_operations p). operation \<noteq> None then ret False p
      else publish_first_initial book plans (capacity_groups plans) p)"

subsection \<open>Demands\<close>

definition consume_demand :: "quota_demand option list \<Rightarrow> nat \<times> nat \<times> nat \<Rightarrow> (capacity_policy, unit) op" where
  "consume_demand publications grp p =
     (case rbind (index_at publications (fst grp)) (\<lambda>publication.
           case publication of
             None \<Rightarrow> Inr None
           | Some demand \<Rightarrow>
               rbind (index_at (cp_operations p) (fst grp)) (\<lambda>operation.
               rbind (index_at (cp_applied_sequences p) (fst grp)) (\<lambda>applied.
               let last_issued = (case operation of None \<Rightarrow> applied | Some command \<Rightarrow> qc_sequence command)
               in if evaluated_sequence demand > last_issued
                  then Inl (RuntimeError ''elastic context state demand refers to an unpublished operation'')
                  else rbind (index_at (cp_active_quotas p) (fst grp)) (\<lambda>quota.
                       case (required_bytes demand, quota) of
                         (Some required, Some active) \<Rightarrow>
                           if length required \<noteq> length active
                           then Inl (RuntimeError ''elastic context state demand vector differs from group membership'')
                           else if evaluated_sequence demand = applied
                                   \<and> (\<exists>(old, new)\<in>set (zip active required). new < old)
                           then Inl (RuntimeError ''elastic context state demand requests an implicit partition shrink'')
                           else rbind (set_item (cp_demands p) (fst grp) (Some demand)) (\<lambda>demands. Inr (Some demands))
                       | _ \<Rightarrow> rbind (set_item (cp_demands p) (fst grp) (Some demand)) (\<lambda>demands. Inr (Some demands)))))) of
        Inl e \<Rightarrow> raise e p
      | Inr None \<Rightarrow> ret () p
      | Inr (Some demands) \<Rightarrow> ret () (p\<lparr>cp_demands := demands\<rparr>))"

definition consume_demands ::
    "fabric_instance_plan list \<Rightarrow> quota_demand option list \<Rightarrow> (capacity_policy, unit) op" where
  "consume_demands plans publications = for_each (consume_demand publications) (capacity_groups plans)"

text \<open>\<^verbatim>\<open>all(old <= new <= cap for ... in zip(active, required, ceiling, strict=True))\<close>.\<close>

fun all_between :: "int list \<Rightarrow> int list \<Rightarrow> int list \<Rightarrow> bool result" where
  "all_between [] [] [] = Inr True"
| "all_between (old # olds) (new # news) (cap # caps) =
     (if old \<le> new \<and> new \<le> cap then all_between olds news caps else Inr False)"
| "all_between _ _ _ = Inl (ValueError ''zip() arguments have different lengths'')"

definition eligible_demand :: "capacity_policy \<Rightarrow> nat \<Rightarrow> quota_demand option result" where
  "eligible_demand p g =
     rbind (index_at (cp_demands p) g) (\<lambda>publication.
     rbind (index_at (cp_active_quotas p) g) (\<lambda>quota.
     rbind (index_at (cp_service_ceilings p) g) (\<lambda>service.
     rbind (index_at (cp_operations p) g) (\<lambda>operation.
     rbind (index_at (cp_applied_sequences p) g) (\<lambda>applied.
       case (publication, quota, service) of
         (Some demand, Some active, Some caps) \<Rightarrow>
           (case (required_bytes demand, deadline_monotonic_ns demand) of
              (Some required, Some deadline) \<Rightarrow>
                if operation \<noteq> None \<or> evaluated_sequence demand \<noteq> applied then Inr None
                else rbind (all_between active required caps) (\<lambda>fits.
                     if \<not> fits \<or> required = active then Inr None else Inr (Some demand))
            | _ \<Rightarrow> Inr None)
       | _ \<Rightarrow> Inr None)))))"

definition borrower_candidate ::
    "registration_book \<Rightarrow> fabric_instance_plan list \<Rightarrow> capacity_policy \<Rightarrow> nat \<times> nat \<times> nat
     \<Rightarrow> (nat \<times> int \<times> nat set) option result" where
  "borrower_candidate book plans p grp =
     (case grp of (group_index, instance_idx, dp_rank) \<Rightarrow>
        rbind (eligible_demand p group_index) (\<lambda>eligible.
          case eligible of
            None \<Rightarrow> Inr None
          | Some demand \<Rightarrow>
              (case deadline_monotonic_ns demand of
                 None \<Rightarrow> Inr None
               | Some deadline \<Rightarrow>
                   rbind (group_profiles book plans instance_idx dp_rank) (\<lambda>profiles.
                     Inr (Some (group_index, deadline, set (map fst profiles)))))))"

definition ordered_borrowers ::
    "registration_book \<Rightarrow> fabric_instance_plan list \<Rightarrow> int \<Rightarrow> capacity_policy \<Rightarrow> nat list result" where
  "ordered_borrowers book plans now_ns p =
     rbind (rmap (borrower_candidate book plans p) (capacity_groups plans)) (\<lambda>found.
       let candidates = map the (filter (\<lambda>c. c \<noteq> None) found);
           overdue = filter (\<lambda>(g, deadline, devices). deadline \<le> now_ns) candidates;
           protected = \<Union> (set (map (\<lambda>(g, deadline, devices). devices) overdue))
       in rbind (rmap (\<lambda>(g, deadline, devices). rbind (index_at (cp_completed_grant_orders p) g) (\<lambda>order.
                         Inr ((order \<noteq> None, case order of None \<Rightarrow> 0 | Some n \<Rightarrow> n, deadline, g)))) overdue) (\<lambda>keyed.
            Inr (map (\<lambda>(granted, order, deadline, g). g) (sort keyed)
                 @ map snd (sort (map (\<lambda>(g, deadline, devices). (deadline, g))
                     (filter (\<lambda>(g, deadline, devices). deadline > now_ns \<and> devices \<inter> protected = {}) candidates))))))"

subsection \<open>Funding\<close>

definition attempt_is_current :: "capacity_policy \<Rightarrow> funding_attempt \<Rightarrow> bool result" where
  "attempt_is_current p attempt =
     rbind (eligible_demand p (fa_borrower_index attempt)) (\<lambda>eligible.
       Inr (case eligible of
              None \<Rightarrow> False
            | Some demand \<Rightarrow>
                evaluated_sequence demand = fa_evaluated_sequence attempt
                \<and> required_bytes demand = Some (fa_target_quota_bytes attempt)
                \<and> deadline_monotonic_ns demand = Some (fa_deadline_monotonic_ns attempt)))"

definition group_locations :: "fabric_instance_plan list \<Rightarrow> (nat, nat \<times> nat) dict" where
  "group_locations plans = dict_of (map (\<lambda>(g, i, dp). (g, (i, dp))) (capacity_groups plans)) []"

definition covers :: "int list \<Rightarrow> (nat \<times> int) list \<Rightarrow> bool result" where
  "covers free required =
     rbind (rmap (\<lambda>(device, count). rbind (index_at free device) (\<lambda>v. Inr (v \<ge> count))) required)
       (\<lambda>checks. Inr (\<forall>c\<in>set checks. c))"

definition shortages :: "int list \<Rightarrow> (nat \<times> int) list \<Rightarrow> (nat, int) dict result" where
  "shortages free required =
     rbind (rmap (\<lambda>(device, count). rbind (index_at free device) (\<lambda>v. Inr (device, count, v))) required)
       (\<lambda>rows. Inr (map (\<lambda>(device, count, v). (device, count - v)) (filter (\<lambda>(device, count, v). count > v) rows)))"

definition donor_candidate ::
    "registration_book \<Rightarrow> fabric_instance_plan list \<Rightarrow> capacity_policy \<Rightarrow> funding_attempt \<Rightarrow> (nat, int) dict
     \<Rightarrow> nat \<times> nat \<times> nat \<Rightarrow> ((int \<times> int \<times> int \<times> nat) \<times> nat \<times> int list) option result" where
  "donor_candidate book plans p attempt short grp =
     (case grp of (donor_index, donor_instance, donor_dp) \<Rightarrow>
        if donor_index = fa_borrower_index attempt \<or> donor_index \<in> set (fa_attempted_donors attempt) then Inr None
        else rbind (index_at (cp_active_quotas p) donor_index) (\<lambda>quota.
             rbind (index_at (cp_demands p) donor_index) (\<lambda>publication.
             rbind (index_at (cp_operations p) donor_index) (\<lambda>operation.
             rbind (index_at (cp_applied_sequences p) donor_index) (\<lambda>applied.
               case (quota, publication) of
                 (Some donor_active, Some demand) \<Rightarrow>
                   if operation \<noteq> None \<or> evaluated_sequence demand \<noteq> applied then Inr None
                   else rbind (group_profiles book plans donor_instance donor_dp) (\<lambda>profiles.
                        rbind (zip_strict profiles donor_active) (\<lambda>rows.
                        let target = map (\<lambda>((device, profile), current).
                              max (floor_bytes profile)
                                  (current - (case dict_get short device of None \<Rightarrow> 0 | Some s \<Rightarrow> s))) rows
                        in if target = donor_active then Inr None
                           else rbind (index_at (cp_completed_grant_orders p) donor_index) (\<lambda>order.
                             let has_demand = (required_bytes demand \<noteq> None);
                                 priority = (if has_demand then 1 else 0,
                                             if has_demand
                                             then - (case deadline_monotonic_ns demand of None \<Rightarrow> 0 | Some d \<Rightarrow> d) else 0,
                                             - (case order of None \<Rightarrow> -1 | Some n \<Rightarrow> n), donor_index)
                             in Inr (Some (priority, donor_index, target)))))
               | _ \<Rightarrow> Inr None)))))"

text \<open>What the borrower needs now: the free vector, its growth per device and whether it is covered.\<close>

definition funding_need ::
    "registration_book \<Rightarrow> fabric_instance_plan list \<Rightarrow> nat \<Rightarrow> int list \<Rightarrow> capacity_policy
     \<Rightarrow> (int list \<times> (nat \<times> int) list \<times> bool) result" where
  "funding_need book plans g target p =
     rbind (pool_free_bytes book plans p) (\<lambda>free.
     rbind (dict_item (group_locations plans) g) (\<lambda>(instance_idx, dp_rank).
     rbind (index_at (cp_active_quotas p) g) (\<lambda>quota.
       case quota of
         None \<Rightarrow> Inl (RuntimeError ''elastic context state funding borrower is uninitialized'')
       | Some active \<Rightarrow>
           rbind (growth_bytes book plans instance_idx dp_rank active target) (\<lambda>required.
           rbind (covers free required) (\<lambda>covered. Inr (free, required, covered))))))"

definition advance_attempt ::
    "registration_book \<Rightarrow> fabric_instance_plan list \<Rightarrow> funding_attempt \<Rightarrow> (capacity_policy, bool) op" where
  "advance_attempt book plans attempt p =
     (if fa_donor_index attempt \<noteq> None then ret False p
      else case attempt_is_current p attempt of
             Inl e \<Rightarrow> raise e p
           | Inr False \<Rightarrow> ret False (p\<lparr>cp_funding_attempt := None\<rparr>)
           | Inr True \<Rightarrow>
               (case funding_need book plans (fa_borrower_index attempt) (fa_target_quota_bytes attempt) p of
                  Inl e \<Rightarrow> raise e p
                | Inr (free, required, covered) \<Rightarrow>
                    if covered
                    then bind (publish_operation (fa_borrower_index attempt) (fa_target_quota_bytes attempt)) (\<lambda>_.
                         bind (modify (\<lambda>p. p\<lparr>cp_funding_attempt := None\<rparr>)) (\<lambda>_. ret True)) p
                    else (case rbind (shortages free required) (\<lambda>short.
                               rmap (donor_candidate book plans p attempt short) (capacity_groups plans)) of
                            Inl e \<Rightarrow> raise e p
                          | Inr found \<Rightarrow>
                              let candidates = map the (filter (\<lambda>c. c \<noteq> None) found)
                              in if candidates = [] then ret False (p\<lparr>cp_funding_attempt := None\<rparr>)
                                 else (case hd (sort candidates) of (priority, donor_index, target) \<Rightarrow>
                                   bind (publish_operation donor_index target) (\<lambda>_.
                                   bind (modify (\<lambda>p. p\<lparr>cp_funding_attempt :=
                                           Some (attempt\<lparr>fa_donor_index := Some donor_index\<rparr>)\<rparr>)) (\<lambda>_. ret True)) p))))"

definition note_retired_donor :: "nat \<Rightarrow> (capacity_policy, unit) op" where
  "note_retired_donor g p =
     (case cp_funding_attempt p of
        None \<Rightarrow> ret () p
      | Some attempt \<Rightarrow>
          if fa_donor_index attempt = Some g
          then ret () (p\<lparr>cp_funding_attempt := Some (attempt\<lparr>fa_donor_index := None,
                                                     fa_attempted_donors := List.insert g (fa_attempted_donors attempt)\<rparr>)\<rparr>)
          else ret () p)"

subsection \<open>One step\<close>

record channel_reads =
  rd_backing :: "int option list"
  rd_reports :: "device_memory_report option list"
  rd_completions :: "quota_completion option list"
  rd_demands :: "quota_demand option list"
  rd_now_ns :: int

text \<open>While a donor is being negotiated, borrowers on unrelated devices may still be served.\<close>

fun serve_unreserved ::
    "registration_book \<Rightarrow> fabric_instance_plan list \<Rightarrow> nat set \<Rightarrow> nat list \<Rightarrow> (capacity_policy, unit) op" where
  "serve_unreserved book plans reserved [] p = ret () p"
| "serve_unreserved book plans reserved (g # gs) p =
     (case rbind (dict_item (group_locations plans) g) (\<lambda>(instance_idx, dp_rank).
           rbind (group_profiles book plans instance_idx dp_rank) (\<lambda>profiles.
           if \<exists>(device, _)\<in>set profiles. device \<in> reserved then Inr None
           else rbind (eligible_demand p g) (\<lambda>eligible.
                case eligible of
                  None \<Rightarrow> Inr None
                | Some demand \<Rightarrow>
                    (case required_bytes demand of
                       None \<Rightarrow> Inr None
                     | Some required \<Rightarrow>
                         rbind (funding_need book plans g required p) (\<lambda>(free, growth, covered).
                           Inr (if covered then Some required else None)))))) of
        Inl e \<Rightarrow> raise e p
      | Inr None \<Rightarrow> serve_unreserved book plans reserved gs p
      | Inr (Some required) \<Rightarrow> publish_operation g required p)"

definition group_devices ::
    "registration_book \<Rightarrow> fabric_instance_plan list \<Rightarrow> nat \<Rightarrow> nat list result" where
  "group_devices book plans g =
     rbind (dict_item (group_locations plans) g) (\<lambda>(instance_idx, dp_rank).
     rbind (group_profiles book plans instance_idx dp_rank) (\<lambda>profiles. Inr (map fst profiles)))"

definition wait_for_donor ::
    "registration_book \<Rightarrow> fabric_instance_plan list \<Rightarrow> int \<Rightarrow> funding_attempt \<Rightarrow> nat \<Rightarrow> (capacity_policy, unit) op" where
  "wait_for_donor book plans now_ns attempt donor =
     bind (reading (\<lambda>p. rbind (group_devices book plans (fa_borrower_index attempt)) (\<lambda>a.
                        rbind (group_devices book plans donor) (\<lambda>b.
                        rbind (pool_free_bytes book plans p) (\<lambda>_.
                        rbind (ordered_borrowers book plans now_ns p) (\<lambda>order. Inr (set (a @ b), order)))))))
       (\<lambda>(reserved, order). serve_unreserved book plans reserved order)"

fun fund_borrowers ::
    "registration_book \<Rightarrow> fabric_instance_plan list \<Rightarrow> nat list \<Rightarrow> (capacity_policy, unit) op" where
  "fund_borrowers book plans [] p = ret () p"
| "fund_borrowers book plans (g # gs) p =
     (case eligible_demand p g of
        Inl e \<Rightarrow> raise e p
      | Inr None \<Rightarrow> fund_borrowers book plans gs p
      | Inr (Some demand) \<Rightarrow>
          (case (required_bytes demand, deadline_monotonic_ns demand) of
             (Some required, Some deadline) \<Rightarrow>
               let attempt = \<lparr>fa_borrower_index = g, fa_evaluated_sequence = evaluated_sequence demand,
                              fa_target_quota_bytes = required, fa_deadline_monotonic_ns = deadline,
                              fa_attempted_donors = [], fa_donor_index = None\<rparr>
               in (case advance_attempt book plans attempt (p\<lparr>cp_funding_attempt := Some attempt\<rparr>) of
                     (Inl e, p') \<Rightarrow> (Inl e, p')
                   | (Inr True, p') \<Rightarrow> ret () p'
                   | (Inr False, p') \<Rightarrow> fund_borrowers book plans gs p')
           | _ \<Rightarrow> fund_borrowers book plans gs p))"

definition start_funding ::
    "registration_book \<Rightarrow> fabric_instance_plan list \<Rightarrow> int \<Rightarrow> (capacity_policy, unit) op" where
  "start_funding book plans now_ns =
     bind (reading (ordered_borrowers book plans now_ns)) (fund_borrowers book plans)"

definition step_demands ::
    "registration_book \<Rightarrow> fabric_instance_plan list \<Rightarrow> int \<Rightarrow> (capacity_policy, unit) op" where
  "step_demands book plans now_ns p =
     (case cp_funding_attempt p of
        None \<Rightarrow> start_funding book plans now_ns p
      | Some attempt \<Rightarrow>
          (case advance_attempt book plans attempt p of
             (Inl e, p') \<Rightarrow> (Inl e, p')
           | (Inr True, p') \<Rightarrow> ret () p'
           | (Inr False, p') \<Rightarrow>
               (case fa_donor_index attempt of
                  Some donor \<Rightarrow> wait_for_donor book plans now_ns attempt donor p'
                | None \<Rightarrow> start_funding book plans now_ns p')))"

definition policy_step ::
    "xpool_config \<Rightarrow> registration_book \<Rightarrow> fabric_instance_plan list \<Rightarrow> channel_reads \<Rightarrow> (capacity_policy, unit) op" where
  "policy_step config book plans reads p =
     (if None \<in> set (rd_backing reads) \<or> None \<in> set (rd_reports reads) then ret () p
      else bind (if cp_pool_capacity_bytes p = None
                 then freeze_pools config book plans (rd_backing reads) (rd_reports reads) else ret ()) (\<lambda>_.
           bind (retire_operations config book plans (rd_completions reads)) (\<lambda>retired.
           bind (for_each note_retired_donor retired) (\<lambda>_.
           bind (reading (\<lambda>p. rmap (\<lambda>(g, _, _). index_at (cp_applied_sequences p) g) (capacity_groups plans))) (\<lambda>applied.
             if 0 \<in> set applied
             then bind (publish_next_initial_operation book plans) (\<lambda>_. ret ())
             else bind (consume_demands plans (rd_demands reads)) (\<lambda>_. step_demands book plans (rd_now_ns reads)))))) p)"

end
