(* ===== verification/Control_State.thy ===== *)
theory Control_State
  imports Readiness Capacity_Policy
begin

section \<open>State of the daemon control plane\<close>

text \<open>
  The state of \<^verbatim>\<open>ControlPlane\<close> in \<^verbatim>\<open>src/xpool/service/daemon/control.py\<close> and the parts its handlers
  share. A handler of the code takes the domain lock several times and observes processes in between;
  here every lock-protected section is a definition of its own, which takes what the handler captured
  before as arguments, and the handler is their composition. An argument \<open>alive\<close> of a handler numbers its
  liveness observations in program order, \<open>now\<close> is \<^verbatim>\<open>monotonic()\<close>, and answers of external
  processes (the MPS controller, the calibration file, the placement solver, the native identifier) are
  arguments. The timestamp minus infinity of an empty cache is \<open>None\<close>.
\<close>

subsection \<open>Records\<close>

record serving_startup_state =
  ss_generation :: "fabric_generation_id option"
  ss_listeners :: "(model_id, serving_listener) dict"
  ss_confirmed :: bool

definition ServingStartupState :: "fabric_generation_id option \<Rightarrow> serving_startup_state" where
  "ServingStartupState generation = \<lparr>ss_generation = generation, ss_listeners = [], ss_confirmed = False\<rparr>"

record serving_health_targets =
  sh_generation :: fabric_generation_id
  sh_listeners :: "(model_id \<times> serving_listener) list"

text \<open>The retained MPS scope: its object identity and the deadline the control plane writes into it.\<close>

record mps_scope =
  scope_oid :: nat
  scope_cleanup_deadline :: "real option"

record control_state =
  cs_registrations :: registration_book
  cs_transport :: transport_broker
  cs_fabric :: fabric_controller
  cs_policy :: "capacity_policy option"
  cs_serving :: serving_startup_state
  cs_revision :: nat
  cs_warning_cache_at :: "real option"
  cs_warning_cache :: "control_plane_warning list"
  cs_mps_cache_at :: "real option"
  cs_mps_cache_result :: "bool option option"
  cs_mps_scope :: "mps_scope option"
  cs_device_uuids :: "string list option"
  cs_admission_closed :: bool
  cs_cleanup_deadline :: "real option"
  cs_closed :: bool

definition ControlPlane :: control_state where
  "ControlPlane =
     \<lparr>cs_registrations = RegistrationBook, cs_transport = TransportBroker, cs_fabric = None, cs_policy = None,
      cs_serving = ServingStartupState None, cs_revision = 0, cs_warning_cache_at = None, cs_warning_cache = [],
      cs_mps_cache_at = None, cs_mps_cache_result = None, cs_mps_scope = None, cs_device_uuids = None,
      cs_admission_closed = False, cs_cleanup_deadline = None, cs_closed = False\<rparr>"

definition MPS_CLEANUP_TIMEOUT_S :: real where
  "MPS_CLEANUP_TIMEOUT_S = 300"

definition GLOBAL_WARNING_CACHE_S :: real where
  "GLOBAL_WARNING_CACHE_S = 1"

definition MPS_READINESS_CACHE_S :: real where
  "MPS_READINESS_CACHE_S = 1"

subsection \<open>Component calls\<close>

definition on_fabric :: "(fabric_controller, 'a) op \<Rightarrow> (control_state, 'a) op" where
  "on_fabric m s = (case m (cs_fabric s) of (r, c) \<Rightarrow> (r, s\<lparr>cs_fabric := c\<rparr>))"

text \<open>A method of the generation object the controller retains.\<close>

definition on_retained :: "(fabric_generation_state, unit) op \<Rightarrow> (fabric_controller, unit) op" where
  "on_retained m c = (case c of None \<Rightarrow> ret () c | Some g \<Rightarrow> on_generation m g)"

definition on_transport :: "(transport_broker, 'a) op \<Rightarrow> (control_state, 'a) op" where
  "on_transport m s = (case m (cs_transport s) of (r, b) \<Rightarrow> (r, s\<lparr>cs_transport := b\<rparr>))"

definition on_instances ::
    "((instance_rank_id, instance_rank_registration_state) dict, 'a) op \<Rightarrow> (control_state, 'a) op" where
  "on_instances m s =
     (case m (book_instances (cs_registrations s)) of
        (r, t) \<Rightarrow> (r, s\<lparr>cs_registrations := (cs_registrations s)\<lparr>book_instances := t\<rparr>\<rparr>))"

definition on_atnagents :: "((int, atnagent_registration_state) dict, 'a) op \<Rightarrow> (control_state, 'a) op" where
  "on_atnagents m s =
     (case m (book_atnagents (cs_registrations s)) of
        (r, t) \<Rightarrow> (r, s\<lparr>cs_registrations := (cs_registrations s)\<lparr>book_atnagents := t\<rparr>\<rparr>))"

definition on_ffnagents :: "((int, ffnagent_registration_state) dict, 'a) op \<Rightarrow> (control_state, 'a) op" where
  "on_ffnagents m s =
     (case m (book_ffnagents (cs_registrations s)) of
        (r, t) \<Rightarrow> (r, s\<lparr>cs_registrations := (cs_registrations s)\<lparr>book_ffnagents := t\<rparr>\<rparr>))"

definition bump_revision :: "(control_state, unit) op" where
  "bump_revision = modify (\<lambda>s. s\<lparr>cs_revision := cs_revision s + 1\<rparr>)"

text \<open>\<^verbatim>\<open>if c: raise ...\<close> on a condition of the current state.\<close>

definition guard_not :: "('s \<Rightarrow> bool) \<Rightarrow> exn \<Rightarrow> ('s, unit) op" where
  "guard_not c e s = (if c s then raise e s else ret () s)"

text \<open>\<^verbatim>\<open>a is b\<close> for optional generation objects.\<close>

definition same_generation :: "fabric_controller \<Rightarrow> fabric_controller \<Rightarrow> bool" where
  "same_generation a b \<longleftrightarrow> map_option gs_oid a = map_option gs_oid b"

definition generation_owners :: "fabric_generation_state \<Rightarrow> proc_uniq_id list" where
  "generation_owners g = dedup (dict_values (gs_agent_owners g) @ dict_values (gs_instance_owners g))"

text \<open>The registration of the Agent planned for one PE.\<close>

definition pe_registration :: "registration_book \<Rightarrow> fabric_pe_placement \<Rightarrow> common_registration option" where
  "pe_registration book placement =
     (case pe_role placement of
        Role_ATNAGENT \<Rightarrow> map_option common_registration.truncate (query (pe_device placement) (book_atnagents book))
      | Role_FFNAGENT \<Rightarrow> map_option common_registration.truncate (query (pe_device placement) (book_ffnagents book)))"

text \<open>\<^verbatim>\<open>validate_instance_rank\<close>.\<close>

definition validate_instance_rank :: "xpool_config \<Rightarrow> model_id \<Rightarrow> int \<Rightarrow> unit result" where
  "validate_instance_rank config model_id rank =
     (if dict_get (instance_by_model_id config) model_id = None
      then Inl (XpoolDaemonError NotFound ''unknown instance'')
      else if rank < 0 \<or> rank \<ge> atn_world_size config
      then Inl (XpoolDaemonError Conflict ''instance rank is outside atn_world_size'')
      else Inr ())"

section \<open>Startup and resource ownership\<close>

text \<open>
  \<^verbatim>\<open>start\<close>: the device visibility is recorded first, the scope object is retained before its controller
  starts. \<open>uuids\<close> is the answer of \<^verbatim>\<open>visible_uuids\<close>, \<open>started\<close> that of \<^verbatim>\<open>MpsScope.start\<close>; an
  interruption of the latter is only raised while admission is open.
\<close>

definition start_visibility :: "xpool_config \<Rightarrow> string list result \<Rightarrow> (control_state, bool) op" where
  "start_visibility config uuids s =
     (if cs_closed s \<or> cs_device_uuids s \<noteq> None
      then raise (RuntimeError ''daemon resource startup was already attempted'') s
      else if cs_admission_closed s then ret False s
      else case uuids of
             Inl e \<Rightarrow> raise e s
           | Inr us \<Rightarrow>
               let s' = s\<lparr>cs_device_uuids := Some us\<rparr>
               in if \<exists>device\<in>set (config_devices config). device \<ge> int (length us)
                  then raise (ValueError ''daemon placement exceeds original device visibility'') s'
                  else ret True s')"

definition start_scope :: "nat \<Rightarrow> (control_state, bool) op" where
  "start_scope oid s =
     (if cs_admission_closed s then ret False s
      else ret True (s\<lparr>cs_mps_scope := Some \<lparr>scope_oid = oid, scope_cleanup_deadline = None\<rparr>\<rparr>))"

definition start_controller :: "unit result option \<Rightarrow> (control_state, unit) op" where
  "start_controller started s =
     (if cs_admission_closed s then ret () s
      else case started of
             None \<Rightarrow> raise (OSError ''InterruptedError'') s
           | Some r \<Rightarrow> lift_result r s)"

definition start :: "xpool_config \<Rightarrow> string list result \<Rightarrow> nat \<Rightarrow> unit result option \<Rightarrow> (control_state, unit) op" where
  "start config uuids oid started =
     bind (start_visibility config uuids) (\<lambda>visible.
       if \<not> visible then ret ()
       else bind (start_scope oid) (\<lambda>retained. if retained then start_controller started else ret ()))"

subsection \<open>Agent startup admission\<close>

text \<open>What the host tells about the process that asks for admission.\<close>

record startup_observation =
  so_identity :: "proc_uniq_id option"
  so_alive :: bool
  so_same_user :: bool
  so_same_namespace :: bool
  so_mps_online :: "bool option"

definition planned_owner :: "fabric_generation_state \<Rightarrow> agent_startup_admission \<Rightarrow> bool result" where
  "planned_owner g request =
     rany (\<lambda>(pe, placement).
        if pe_role placement = sa_role request \<and> pe_device placement = sa_device request
        then rbind (dict_item (gs_agent_owners g) (int pe)) (\<lambda>owner.
               Inr (proc_pid owner = sa_pid request \<and> proc_create_time owner = sa_create_time request))
        else Inr False) (enumerate 0 (pe_placements (gs_plan g)))"

definition admit_check ::
    "xpool_config \<Rightarrow> int \<Rightarrow> agent_startup_admission \<Rightarrow> (control_state, mps_scope \<times> fabric_controller) op" where
  "admit_check config abi request s =
     (case (cs_mps_scope s, cs_device_uuids s) of
        (Some scope, Some visibility) \<Rightarrow>
          if cs_admission_closed s
          then raise (XpoolDaemonError NotReady ''Agent startup admission is unavailable'') s
          else if sa_abi_version request \<noteq> abi
          then raise (XpoolDaemonError Conflict ''Agent startup ABI version does not match daemon ABI'') s
          else if sa_device request \<notin> set (case sa_role request of
                    Role_ATNAGENT \<Rightarrow> atn_devices (cfg_atn config) | Role_FFNAGENT \<Rightarrow> ffn_devices (cfg_ffn config))
          then raise (XpoolDaemonError Conflict ''Agent startup role placement does not match daemon'') s
          else (case cs_fabric s of
                  None \<Rightarrow> ret (scope, None) s
                | Some g \<Rightarrow>
                    (case planned_owner g request of
                       Inl e \<Rightarrow> raise e s
                     | Inr False \<Rightarrow>
                         raise (XpoolDaemonError NotReady ''retained Fabric generation forbids new Agent startup'') s
                     | Inr True \<Rightarrow> ret (scope, Some g) s))
      | _ \<Rightarrow> raise (XpoolDaemonError NotReady ''Agent startup admission is unavailable'') s)"

definition observed_identity :: "agent_startup_admission \<Rightarrow> startup_observation \<Rightarrow> proc_uniq_id result" where
  "observed_identity request host =
     (case so_identity host of
        None \<Rightarrow> Inl (XpoolDaemonError Conflict ''Agent startup process is absent'')
      | Some identity \<Rightarrow>
          if proc_create_time identity \<noteq> sa_create_time request \<or> \<not> so_alive host
          then Inl (XpoolDaemonError Conflict ''Agent startup process identity does not match'')
          else if \<not> so_same_user host
          then Inl (XpoolDaemonError Conflict ''Agent startup belongs to another user'')
          else if \<not> so_same_namespace host
          then Inl (XpoolDaemonError Conflict ''Agent startup requires the daemon PID namespace'')
          else if so_mps_online host \<noteq> Some True
          then Inl (XpoolDaemonError NotReady ''owned MPS controller is unavailable for Agent startup'')
          else Inr identity)"

definition admit_commit ::
    "(proc_uniq_id \<Rightarrow> bool) \<Rightarrow> agent_startup_admission \<Rightarrow> mps_scope \<Rightarrow> fabric_controller \<Rightarrow> proc_uniq_id
     \<Rightarrow> (control_state, unit) op" where
  "admit_commit alive request scope fabric identity s =
     (if cs_admission_closed s \<or> map_option scope_oid (cs_mps_scope s) \<noteq> Some (scope_oid scope)
         \<or> \<not> same_generation (cs_fabric s) fabric
      then raise (XpoolDaemonError NotReady ''Agent startup admission changed during validation'') s
      else let key = (sa_role request, sa_device request);
               startups = agent_startups (cs_registrations s)
      in if (case dict_get startups key of None \<Rightarrow> False | Some existing \<Rightarrow> existing \<noteq> identity \<and> alive existing)
         then raise (XpoolDaemonError Conflict ''Agent startup device is owned by another live process'') s
         else ret () (s\<lparr>cs_registrations := (cs_registrations s)\<lparr>agent_startups := dict_set key identity startups\<rparr>\<rparr>))"

definition admit_agent_startup ::
    "xpool_config \<Rightarrow> int \<Rightarrow> startup_observation \<Rightarrow> (proc_uniq_id \<Rightarrow> bool) \<Rightarrow> agent_startup_admission
     \<Rightarrow> (control_state, unit) op" where
  "admit_agent_startup config abi host alive request =
     bind (admit_check config abi request) (\<lambda>(scope, fabric).
     bind (lift_result (observed_identity request host)) (\<lambda>identity.
       admit_commit alive request scope fabric identity))"

subsection \<open>MPS clients and readiness\<close>

record mps_client_termination =
  mt_pid :: int
  mt_create_time :: real
  mt_abi_version :: int
  mt_deadline :: real

text \<open>
  The decision of \<^verbatim>\<open>terminate_serving_client\<close>: which identity the scope is told to terminate and by when.
  \<open>observed\<close> is the identity of the pid now and whether it is alive, or \<open>None\<close> when it is absent;
  \<open>terminated\<close> says whether the scope confirmed.
\<close>

definition termination_target ::
    "int \<Rightarrow> (proc_uniq_id \<times> bool) option \<Rightarrow> mps_client_termination \<Rightarrow> control_state \<Rightarrow> (proc_uniq_id \<times> real) result" where
  "termination_target abi observed request s =
     (if cs_mps_scope s = None \<or> cs_closed s
      then Inl (XpoolDaemonError NotReady ''owned MPS client termination is unavailable'')
      else if mt_abi_version request \<noteq> abi
      then Inl (XpoolDaemonError Conflict ''MPS termination ABI version does not match daemon ABI'')
      else case observed of
             None \<Rightarrow> Inl (XpoolDaemonError Conflict ''MPS termination target is absent'')
           | Some (identity, is_alive) \<Rightarrow>
               if proc_create_time identity \<noteq> mt_create_time request \<or> \<not> is_alive
               then Inl (XpoolDaemonError Conflict ''MPS termination target identity does not match'')
               else Inr (identity,
                         case cs_cleanup_deadline s of
                           None \<Rightarrow> mt_deadline request
                         | Some deadline \<Rightarrow> min (mt_deadline request) deadline))"

definition terminate_serving_client ::
    "int \<Rightarrow> (proc_uniq_id \<times> bool) option \<Rightarrow> (proc_uniq_id \<Rightarrow> real \<Rightarrow> bool) \<Rightarrow> mps_client_termination
     \<Rightarrow> (control_state, unit) op" where
  "terminate_serving_client abi observed terminated request =
     bind (reading (termination_target abi observed request)) (\<lambda>(identity, deadline).
       if terminated identity deadline then ret ()
       else raise (XpoolDaemonError NotReady ''owned MPS client termination is unconfirmed''))"

text \<open>
  The outcome of one probe of the MPS controller: its answer, an expired management command, a timeout of
  the scope itself, which is only swallowed once the cleanup deadline of the scope has passed, or another
  exception.
\<close>

datatype mps_probe = Probed "bool option" | CommandExpired | ProbeTimeout | ProbeRaised exn

definition probe_result :: "mps_scope option \<Rightarrow> mps_probe \<Rightarrow> real \<Rightarrow> bool option result" where
  "probe_result scope probe now =
     (case scope of
        None \<Rightarrow> Inr (Some False)
      | Some sc \<Rightarrow>
          (case probe of
             Probed answer \<Rightarrow> Inr answer
           | ProbeRaised e \<Rightarrow> Inl e
           | CommandExpired \<Rightarrow> Inr (Some False)
           | ProbeTimeout \<Rightarrow>
               (case scope_cleanup_deadline sc of
                  None \<Rightarrow> Inl (TimeoutError ''MPS observation'')
                | Some deadline \<Rightarrow> if now < deadline then Inl (TimeoutError ''MPS observation'') else Inr None)))"

definition mps_cache_fresh :: "real \<Rightarrow> control_state \<Rightarrow> bool" where
  "mps_cache_fresh now s \<longleftrightarrow> cs_mps_cache_result s \<noteq> None
     \<and> (case cs_mps_cache_at s of None \<Rightarrow> False | Some cached_at \<Rightarrow> now - cached_at < MPS_READINESS_CACHE_S)"

definition store_mps_status :: "real \<Rightarrow> bool option \<Rightarrow> (control_state, unit) op" where
  "store_mps_status now result = modify (\<lambda>s. s\<lparr>cs_mps_cache_at := Some now, cs_mps_cache_result := Some result\<rparr>)"

definition refresh_mps_status :: "real \<Rightarrow> mps_probe \<Rightarrow> real \<Rightarrow> (control_state, unit) op" where
  "refresh_mps_status now probe later s =
     (if mps_cache_fresh now s then ret () s
      else bind (lift_result (probe_result (cs_mps_scope s) probe later)) (store_mps_status now) s)"

subsection \<open>Warnings and views\<close>

definition current_projection ::
    "xpool_config \<Rightarrow> real \<Rightarrow> control_state \<Rightarrow> (readiness_snapshot \<times> control_plane_warning list) result" where
  "current_projection config now s =
     capture_projection config now (Option.bind (cs_mps_cache_result s) id) (cs_registrations s) (cs_transport s)
       (cs_fabric s)"

definition global_warnings :: "xpool_config \<Rightarrow> real \<Rightarrow> (control_state, control_plane_warning list) op" where
  "global_warnings config now s =
     (if (case cs_warning_cache_at s of None \<Rightarrow> False | Some cached_at \<Rightarrow> now - cached_at < GLOBAL_WARNING_CACHE_S)
      then ret (cs_warning_cache s) s
      else case current_projection config now s of
             Inl e \<Rightarrow> raise e s
           | Inr (snapshot, warnings) \<Rightarrow>
               ret warnings (s\<lparr>cs_warning_cache_at := Some now, cs_warning_cache := warnings\<rparr>))"

definition readiness_snapshot_of :: "xpool_config \<Rightarrow> real \<Rightarrow> control_state \<Rightarrow> readiness_snapshot result" where
  "readiness_snapshot_of config now s = rbind (current_projection config now s) (\<lambda>p. Inr (fst p))"

definition list_atnagents :: "control_state \<Rightarrow> atnagent_view list" where
  "list_atnagents s = atnagent_views (cs_registrations s)"

definition list_ffnagents :: "control_state \<Rightarrow> ffnagent_view list result" where
  "list_ffnagents s = ffnagent_views (cs_registrations s)"

definition list_instances :: "control_state \<Rightarrow> instance_rank_registration list" where
  "list_instances s = instance_views (cs_registrations s)"

definition heartbeat_response_of :: "xpool_config \<Rightarrow> real \<Rightarrow> (control_state, heartbeat_response) op" where
  "heartbeat_response_of config now =
     bind get_state (\<lambda>captured. bind (global_warnings config now) (\<lambda>warnings.
       ret \<lparr>hb_warnings = warnings,
            hb_generation = map_option (\<lambda>g. fp_generation (gs_plan g)) (cs_fabric captured),
            hb_fabric_phase = map_option gs_phase (cs_fabric captured)\<rparr>))"

end
