(* ===== verification/Control_Plane.thy ===== *)
theory Control_Plane
  imports Control_State
begin

section \<open>Registration, Fabric formation and supervision\<close>

text \<open>
  The handlers of \<^verbatim>\<open>ControlPlane\<close> that change registrations, form and retire generations, supervise owners
  and broker Transport arenas, in the order of \<^verbatim>\<open>src/xpool/service/daemon/control.py\<close>. Names ending in
  \<open>_check\<close>, \<open>_commit\<close> and the like are the lock-protected sections of the handler named before.
\<close>

subsection \<open>Retiring a terminal generation\<close>

definition terminal_generation :: "control_state \<Rightarrow> fabric_generation_state option" where
  "terminal_generation s =
     (case cs_fabric s of None \<Rightarrow> None | Some g \<Rightarrow> if gs_phase g = Gen_STOPPED then Some g else None)"

definition retire_commit :: "fabric_generation_state \<Rightarrow> bool \<Rightarrow> (control_state, unit) op" where
  "retire_commit g any_alive s =
     (if same_generation (cs_fabric s) (Some g) \<and> \<not> any_alive
      then ret () (s\<lparr>cs_policy := None, cs_fabric := None, cs_serving := ServingStartupState None\<rparr>)
      else ret () s)"

definition retire_terminal_generation :: "(proc_uniq_id \<Rightarrow> bool) \<Rightarrow> (control_state, unit) op" where
  "retire_terminal_generation alive s =
     (case terminal_generation s of
        None \<Rightarrow> ret () s
      | Some g \<Rightarrow> retire_commit g (\<exists>owner\<in>set (generation_owners g). alive owner) s)"

subsection \<open>Fabric formation\<close>

text \<open>
  What formation observes outside the lock: two liveness probes, the random words for the scheduler seed and
  the generation, the calibration file, the native identifier and the clock at installation.
\<close>

record formation =
  fo_alive_before :: "proc_uniq_id \<Rightarrow> bool"
  fo_alive_after :: "proc_uniq_id \<Rightarrow> bool"
  fo_seed_draws :: "int list"
  fo_generation_draws :: "int list"
  fo_calibration :: "xpool_memory_calibration_profile option result"
  fo_uid :: fabric_uid
  fo_now :: real
  fo_oid :: nat

record ffn_placement_result =
  pr_memory_estimates :: "device_memory_estimate list"
  pr_model_plans :: "ffn_model_plan list"

type_synonym placement_solver =
  "ffn_model_spec list \<Rightarrow> fabric_instance_plan list \<Rightarrow> int list \<Rightarrow> ffn_execution_contract list
   \<Rightarrow> ffn_memory_calibration_coefficients option \<Rightarrow> ffn_placement_result result"

text \<open>\<^verbatim>\<open>while seed is None or seed == 0: seed = secrets.randbits(64)\<close>.\<close>

definition seed_accepted :: "int option \<Rightarrow> bool" where
  "seed_accepted seed \<longleftrightarrow> seed \<noteq> None \<and> seed \<noteq> Some 0"

fun nonzero_seed :: "int option \<Rightarrow> int list \<Rightarrow> int result" where
  "nonzero_seed seed [] = (if seed_accepted seed then Inr (the seed) else Inl OutOfDraws)"
| "nonzero_seed seed (draw # draws) = (if seed_accepted seed then Inr (the seed) else nonzero_seed (Some draw) draws)"

definition form_scheduler :: "xpool_config \<Rightarrow> int list \<Rightarrow> ffn_scheduler_policy result" where
  "form_scheduler config draws =
     (case ffn_policy (cfg_scheduler config) of
        FIFO \<Rightarrow> Inr FifoSchedulerPolicy
      | RANDOM \<Rightarrow> rbind (nonzero_seed (ffn_random_seed (cfg_scheduler config)) draws)
                    (\<lambda>seed. Inr (RandomSchedulerPolicy seed)))"

text \<open>A \<^verbatim>\<open>RuntimeError\<close> of the calibration profile becomes a conflict of the request.\<close>

definition calibration_coefficients ::
    "xpool_config \<Rightarrow> fabric_membership \<Rightarrow> xpool_memory_calibration_profile option result
     \<Rightarrow> ffn_memory_calibration_coefficients option result" where
  "calibration_coefficients config membership loaded =
     (case rbind loaded (\<lambda>profile.
             case profile of
               None \<Rightarrow> Inr None
             | Some p \<Rightarrow> rbind (require_compatible p (fm_memory_context membership)
                                  (ffn_concurrency (cfg_scheduler config))) (\<lambda>_. Inr (Some p))) of
        Inl (RuntimeError message) \<Rightarrow> Inl (XpoolDaemonError Conflict message)
      | Inl e \<Rightarrow> Inl e
      | Inr profile \<Rightarrow> Inr (map_option (\<lambda>p. cal_coefficients (profile_ffn p)) profile))"

definition form_generation :: "int list \<Rightarrow> fabric_generation_id result" where
  "form_generation draws = (case create_generation draws of None \<Rightarrow> Inl OutOfDraws | Some r \<Rightarrow> r)"

text \<open>The work outside the lock: \<open>None\<close> when some owner is no longer alive.\<close>

definition form_plan ::
    "xpool_config \<Rightarrow> placement_solver \<Rightarrow> formation \<Rightarrow> fabric_membership
     \<Rightarrow> (fabric_deployment_plan \<times> capacity_policy) option result" where
  "form_plan config place_ffn_models fo membership =
     (if \<not> (\<forall>owner\<in>set (membership_owners membership). fo_alive_before fo owner) then Inr None
      else rbind (form_scheduler config (fo_seed_draws fo)) (\<lambda>scheduler.
           rbind (calibration_coefficients config membership (fo_calibration fo)) (\<lambda>coefficients.
           rbind (place_ffn_models (fm_model_specs membership) (fm_instance_plans membership)
                    (fm_ffnagent_free_memory_bytes membership) (ctx_ffn_execution (fm_memory_context membership))
                    coefficients) (\<lambda>placement.
           if \<not> (\<forall>owner\<in>set (membership_owners membership). fo_alive_after fo owner) then Inr None
           else rbind (form_generation (fo_generation_draws fo)) (\<lambda>generation.
                rbind (FabricDeploymentPlan
                         \<lparr>fp_generation = generation, fp_uid = fo_uid fo,
                          ffn_execution_contracts = ctx_ffn_execution (fm_memory_context membership),
                          pe_placements = fm_pe_placements membership,
                          executor_lane_count = ffn_concurrency (cfg_scheduler config), fp_scheduler = scheduler,
                          model_plans = pr_model_plans placement, instance_plans = fm_instance_plans membership,
                          ffn_memory_estimates = pr_memory_estimates placement\<rparr>) (\<lambda>plan.
                rbind (create_policy config generation) (\<lambda>policy. Inr (Some (plan, policy)))))))))"

text \<open>
  The commit: a generation that appeared meanwhile wins, closed admission or a moved membership revision
  discards the candidate.
\<close>

definition install_commit ::
    "formation \<Rightarrow> fabric_membership \<Rightarrow> fabric_deployment_plan \<Rightarrow> capacity_policy
     \<Rightarrow> (control_state, fabric_deployment_plan option) op" where
  "install_commit fo membership plan policy s =
     (case cs_fabric s of
        Some g \<Rightarrow> ret (Some (gs_plan g)) s
      | None \<Rightarrow>
          if cs_admission_closed s \<or> cs_revision s \<noteq> fm_revision membership then ret None s
          else bind (on_fabric (install_generation
                       (FabricGenerationState (fo_oid fo) plan (fo_now fo) (dict_of (fm_agent_owners membership) [])
                          (dict_of (fm_instance_owners membership) [])))) (\<lambda>installed.
               bind (modify (\<lambda>s. s\<lparr>cs_policy := Some policy,
                                   cs_serving := ServingStartupState (Some (fp_generation installed))\<rparr>)) (\<lambda>_.
                 ret (Some installed))) s)"

definition ensure_fabric_plan ::
    "xpool_config \<Rightarrow> placement_solver \<Rightarrow> formation \<Rightarrow> (control_state, fabric_deployment_plan option) op" where
  "ensure_fabric_plan config place_ffn_models fo s =
     (case cs_fabric s of
        Some g \<Rightarrow> ret (Some (gs_plan g)) s
      | None \<Rightarrow>
          if cs_admission_closed s then ret None s
          else (case rbind (capture_membership config (cs_registrations s) (cs_revision s)) (\<lambda>captured.
                       case captured of
                         None \<Rightarrow> Inr None
                       | Some membership \<Rightarrow>
                           rbind (form_plan config place_ffn_models fo membership) (\<lambda>formed.
                             Inr (map_option (\<lambda>(plan, policy). (membership, plan, policy)) formed))) of
                  Inl e \<Rightarrow> raise e s
                | Inr None \<Rightarrow> ret None s
                | Inr (Some (membership, plan, policy)) \<Rightarrow> install_commit fo membership plan policy s))"

definition require_fabric_plan :: "control_state \<Rightarrow> fabric_deployment_plan result" where
  "require_fabric_plan s = require_plan (cs_fabric s)"

definition context_state_control_channel ::
    "(capacity_policy \<Rightarrow> string) \<Rightarrow> fabric_generation_id \<Rightarrow> control_state \<Rightarrow> ecs_control_channel_ref result" where
  "context_state_control_channel channel_name generation s =
     (case (cs_fabric s, cs_policy s) of
        (Some g, Some policy) \<Rightarrow>
          if fp_generation (gs_plan g) \<noteq> generation
          then Inl (XpoolDaemonError NotFound ''elastic context state control channel generation is not retained'')
          else Inr \<lparr>cr_generation = cp_generation policy, cr_name = channel_name policy\<rparr>
      | _ \<Rightarrow> Inl (XpoolDaemonError NotFound ''elastic context state control channel generation is not retained''))"

definition step_context_state_capacity ::
    "xpool_config \<Rightarrow> channel_reads \<Rightarrow> real \<Rightarrow> (control_state, unit) op" where
  "step_context_state_capacity config reads now s =
     (case (cs_fabric s, cs_policy s) of
        (Some g, Some policy) \<Rightarrow>
          if gs_phase g \<noteq> Gen_EXECUTABLE then ret () s
          else (case policy_step config (cs_registrations s) (instance_plans (gs_plan g)) reads policy of
                  (Inr _, policy') \<Rightarrow> ret () (s\<lparr>cs_policy := Some policy'\<rparr>)
                | (Inl e, policy') \<Rightarrow>
                    bind (on_fabric (bind (on_retained (record_control_failure
                                             ''elastic context state capacity policy failed''))
                                          (\<lambda>_. abort now))) (\<lambda>_. raise e)
                      (s\<lparr>cs_policy := Some policy'\<rparr>))
      | _ \<Rightarrow> ret () s)"

subsection \<open>Registering Agents\<close>

definition find_pe :: "fabric_role \<Rightarrow> int \<Rightarrow> fabric_pe_placement list \<Rightarrow> nat result" where
  "find_pe role device placements =
     (case List.find (\<lambda>(pe, item). pe_role item = role \<and> pe_device item = device) (enumerate 0 placements) of
        None \<Rightarrow> Inl StopIteration
      | Some (pe, _) \<Rightarrow> Inr pe)"

text \<open>
  The first section of both Agent registrations: the process must be the admitted one, and while a
  generation is retained it must be the planned owner of its PE; any other process fails the generation.
\<close>

definition agent_register_check ::
    "fabric_role \<Rightarrow> int \<Rightarrow> proc_uniq_id \<Rightarrow> real \<Rightarrow> (control_state, unit) op" where
  "agent_register_check role device proc now s =
     (if dict_get (agent_startups (cs_registrations s)) (role, device) \<noteq> Some proc
      then (if cs_admission_closed s
            then raise (XpoolDaemonError NotReady ''participant admission is closed'') s
            else raise (XpoolDaemonError Conflict ''Agent registration requires its admitted startup identity'') s)
      else case cs_fabric s of
             None \<Rightarrow> ret () s
           | Some g \<Rightarrow>
               (case rbind (find_pe role device (pe_placements (gs_plan g))) (\<lambda>pe.
                       rbind (dict_item (gs_agent_owners g) (int pe)) (\<lambda>owner. Inr (pe, owner))) of
                  Inl e \<Rightarrow> raise e s
                | Inr (pe, owner) \<Rightarrow>
                    if owner \<noteq> proc
                    then bind (on_fabric (bind (on_retained (modify (record_owner_failure
                                  (FabricPeOwnerFailure role pe Owner_REPLACED)))) (\<lambda>_. abort now))) (\<lambda>_.
                           raise (XpoolDaemonError Conflict ''retained Fabric generation forbids Agent replacement'')) s
                    else ret () s))"

definition query_atnagent :: "int \<Rightarrow> (control_state, atnagent_registration_state option) op" where
  "query_atnagent device s = ret (query device (book_atnagents (cs_registrations s))) s"

definition query_ffnagent :: "int \<Rightarrow> (control_state, ffnagent_registration_state option) op" where
  "query_ffnagent device s = ret (query device (book_ffnagents (cs_registrations s))) s"

definition query_instance :: "instance_rank_id \<Rightarrow> (control_state, instance_rank_registration_state option) op" where
  "query_instance i s = ret (query i (book_instances (cs_registrations s))) s"

text \<open>The users of the arenas of a departed AtnAgent process.\<close>

definition arena_users :: "int \<Rightarrow> proc_uniq_id option \<Rightarrow> control_state \<Rightarrow> instance_rank_registration_state list" where
  "arena_users device publisher s =
     concat (map (\<lambda>i. case query i (book_instances (cs_registrations s)) of None \<Rightarrow> [] | Some owner \<Rightarrow> [owner])
       (leased_instances device publisher (cs_transport s)))"

definition atnagent_cleanup ::
    "(proc_uniq_id \<Rightarrow> bool) \<Rightarrow> int \<Rightarrow> atnagent_registration_state \<Rightarrow> (control_state, unit) op" where
  "atnagent_cleanup alive device existing =
     bind (reading (\<lambda>s. Inr (arena_users device (Some (reg_proc existing)) s))) (\<lambda>owners.
       if \<exists>owner\<in>set owners. alive (reg_proc owner)
       then raise (XpoolDaemonError NotReady ''previous AtnAgent still has live arena users'')
       else guard_not (\<lambda>s. \<not> same_object (query device (book_atnagents (cs_registrations s))) (Some existing))
              (XpoolDaemonError NotReady ''atnagent registration changed during generation cleanup''))"

definition atnagent_commit ::
    "atnagent_registration_state \<Rightarrow> atnagent_registration_state option \<Rightarrow> bool \<Rightarrow> (control_state, unit) op" where
  "atnagent_commit registration existing existing_alive =
     bind (guard_not (\<lambda>s. dict_get (agent_startups (cs_registrations s)) (Role_ATNAGENT, atn_device registration)
                            \<noteq> Some (reg_proc registration))
             (XpoolDaemonError Conflict ''AtnAgent startup ownership changed during registration'')) (\<lambda>_.
     bind (on_atnagents (install_snapshot atn_device atnagent_conflicts registration existing existing_alive)) (\<lambda>changed.
     bind (query_atnagent (atn_device registration)) (\<lambda>installed.
       case installed of
         None \<Rightarrow> raise (RuntimeError ''AtnAgent registration disappeared during installation'')
       | Some r \<Rightarrow>
           bind (on_transport (install_atnagent (atn_device registration) (reg_proc r))) (\<lambda>_.
             if changed then bump_revision else ret ()))))"

definition register_atnagent ::
    "xpool_config \<Rightarrow> int \<Rightarrow> placement_solver \<Rightarrow> formation \<Rightarrow> (nat \<Rightarrow> proc_uniq_id \<Rightarrow> bool) \<Rightarrow> real
     \<Rightarrow> atnagent_registration_state \<Rightarrow> (control_state, unit) op" where
  "register_atnagent config abi place_ffn_models fo alive now registration =
     bind (retire_terminal_generation (alive 0)) (\<lambda>_.
       if dict_get (atnagent_by_device config) (atn_device registration) = None
       then raise (XpoolDaemonError NotFound ''unknown AtnAgent'')
       else if reg_abi_version registration \<noteq> abi
       then raise (XpoolDaemonError Conflict ''atnagent ABI version does not match daemon ABI'')
       else bind (query_atnagent (atn_device registration)) (\<lambda>existing.
            bind (agent_register_check Role_ATNAGENT (atn_device registration) (reg_proc registration) now) (\<lambda>_.
              let existing_alive = (case existing of None \<Rightarrow> False | Some r \<Rightarrow> alive 1 (reg_proc r))
              in bind (case existing of
                         Some r \<Rightarrow> if reg_proc r \<noteq> reg_proc registration \<and> \<not> existing_alive
                                   then atnagent_cleanup (alive 2) (atn_device registration) r else ret ()
                       | None \<Rightarrow> ret ()) (\<lambda>_.
                 bind (atnagent_commit registration existing existing_alive) (\<lambda>_.
                 bind (ensure_fabric_plan config place_ffn_models fo) (\<lambda>_. ret ()))))))"

definition ffnagent_commit ::
    "ffnagent_registration_state \<Rightarrow> ffn_model_spec list \<Rightarrow> ffnagent_registration_state option \<Rightarrow> bool
     \<Rightarrow> (control_state, unit) op" where
  "ffnagent_commit registration model_specs existing existing_alive =
     bind (guard_not (\<lambda>s. dict_get (agent_startups (cs_registrations s)) (Role_FFNAGENT, ffn_device registration)
                            \<noteq> Some (reg_proc registration))
             (XpoolDaemonError Conflict ''FfnAgent startup ownership changed during registration'')) (\<lambda>_.
     bind (guard_not (\<lambda>s. case ffn_model_specs (cs_registrations s) of
                            None \<Rightarrow> False | Some canonical \<Rightarrow> model_specs \<noteq> canonical)
             (XpoolDaemonError Conflict ''FfnAgent Model Specs disagree with the canonical declaration'')) (\<lambda>_.
     bind (on_ffnagents (install_snapshot ffn_device ffnagent_conflicts registration existing existing_alive)) (\<lambda>changed.
     bind (modify (\<lambda>s. if ffn_model_specs (cs_registrations s) = None
                        then s\<lparr>cs_registrations := (cs_registrations s)\<lparr>ffn_model_specs := Some model_specs\<rparr>\<rparr>
                        else s)) (\<lambda>_.
       if changed then bump_revision else ret ()))))"

definition register_ffnagent ::
    "xpool_config \<Rightarrow> int \<Rightarrow> placement_solver \<Rightarrow> formation \<Rightarrow> (nat \<Rightarrow> proc_uniq_id \<Rightarrow> bool) \<Rightarrow> real
     \<Rightarrow> ffnagent_registration_state \<Rightarrow> ffn_model_spec list \<Rightarrow> (control_state, unit) op" where
  "register_ffnagent config abi place_ffn_models fo alive now registration model_specs =
     bind (retire_terminal_generation (alive 0)) (\<lambda>_.
       if dict_get (ffnagent_by_device config) (ffn_device registration) = None
       then raise (XpoolDaemonError NotFound ''unknown FfnAgent'')
       else if reg_abi_version registration \<noteq> abi
       then raise (XpoolDaemonError Conflict ''ffnagent ABI version does not match daemon ABI'')
       else bind (query_ffnagent (ffn_device registration)) (\<lambda>existing.
            bind (agent_register_check Role_FFNAGENT (ffn_device registration) (reg_proc registration) now) (\<lambda>_.
            bind (ffnagent_commit registration model_specs existing
                    (case existing of None \<Rightarrow> False | Some r \<Rightarrow> alive 1 (reg_proc r))) (\<lambda>_.
            bind (ensure_fabric_plan config place_ffn_models fo) (\<lambda>_. ret ())))))"

subsection \<open>Registering and removing Instance ranks\<close>

definition validate_instance_geometry ::
    "xpool_config \<Rightarrow> int \<Rightarrow> instance_rank_registration_state \<Rightarrow> unit result" where
  "validate_instance_geometry config abi registration =
     (let model_id = iri_model_id (reg_instance registration);
          rank = iri_rank (reg_instance registration);
          transport = reg_transport registration
      in if reg_abi_version registration \<noteq> abi
         then Inl (XpoolDaemonError Conflict ''instance ABI version does not match daemon ABI'')
         else rbind (validate_instance_rank config model_id rank) (\<lambda>_.
              rbind (dict_item (model_by_id config) model_id) (\<lambda>model.
              rbind (atn_tp_size_of config model_id) (\<lambda>tp.
                if (atn_tp_size transport, atn_dp_size transport) \<noteq> (tp, cfg_atn_dp_size model)
                then Inl (XpoolDaemonError Conflict
                            ''instance transport TP-by-DP topology disagrees with configured model geometry'')
                else if atn_dp_rank transport * atn_tp_size transport + atn_tp_rank transport \<noteq> rank
                then Inl (XpoolDaemonError Conflict ''instance transport coordinates do not use TP-fastest rank order'')
                else Inr ()))))"

definition instance_register_check ::
    "instance_rank_registration_state \<Rightarrow> real \<Rightarrow> (control_state, instance_rank_registration_state option) op" where
  "instance_register_check registration now s =
     (if cs_admission_closed s
      then raise (XpoolDaemonError NotReady ''participant admission is closed'') s
      else let existing = query (reg_instance registration) (book_instances (cs_registrations s))
      in case cs_fabric s of
           None \<Rightarrow> ret existing s
         | Some g \<Rightarrow>
             if dict_get (gs_instance_owners g) (reg_instance registration) \<noteq> Some (reg_proc registration)
             then bind (on_fabric (bind (on_retained (modify (record_owner_failure
                           (FabricInstanceRankOwnerFailure (iri_model_id (reg_instance registration))
                              (iri_rank (reg_instance registration)) Owner_REPLACED)))) (\<lambda>_. quiesce now))) (\<lambda>_.
                    raise (XpoolDaemonError Conflict ''retained Fabric generation forbids Instance-rank replacement'')) s
             else ret existing s)"

definition contract_of :: "instance_rank_registration_state \<Rightarrow> int \<times> int \<times> int \<times> int" where
  "contract_of r = (let t = reg_transport r in
     (tp_hidden_size t, payload_row_capacity t, atn_tp_size t, atn_dp_size t))"

fun check_peers ::
    "instance_rank_registration_state \<Rightarrow> instance_rank_registration_state list \<Rightarrow> unit result" where
  "check_peers registration [] = Inr ()"
| "check_peers registration (peer # peers) =
     (if iri_model_id (reg_instance peer) \<noteq> iri_model_id (reg_instance registration)
         \<or> reg_instance peer = reg_instance registration
      then check_peers registration peers
      else if contract_of peer \<noteq> contract_of registration
      then Inl (XpoolDaemonError Conflict ''instance transport attributes disagree across ranks'')
      else if reg_ffn_profile peer \<noteq> reg_ffn_profile registration
      then Inl (XpoolDaemonError Conflict ''FFN ffn_profile disagrees across instance ranks'')
      else check_peers registration peers)"

definition instance_commit ::
    "instance_rank_registration_state \<Rightarrow> instance_rank_registration_state option \<Rightarrow> bool \<Rightarrow> (control_state, unit) op" where
  "instance_commit registration existing existing_alive =
     bind (guard_not cs_admission_closed (XpoolDaemonError NotReady ''participant admission is closed'')) (\<lambda>_.
     bind (guard_not (\<lambda>s. \<not> same_object (query (reg_instance registration) (book_instances (cs_registrations s))) existing)
             (XpoolDaemonError NotReady ''instance registration changed during validation'')) (\<lambda>_.
     bind (guard_not (\<lambda>s. cs_mps_scope s = None)
             (XpoolDaemonError NotReady ''owned attention MPS scope is unavailable'')) (\<lambda>_.
     bind (reading (\<lambda>s. check_peers registration (dict_values (book_instances (cs_registrations s))))) (\<lambda>_.
     bind (on_instances (install_snapshot reg_instance instance_conflicts registration existing existing_alive)) (\<lambda>changed.
       if changed
       then bind (on_transport (remove_instance (reg_instance registration))) (\<lambda>_. bump_revision)
       else ret ())))))"

definition register_instance ::
    "xpool_config \<Rightarrow> int \<Rightarrow> placement_solver \<Rightarrow> formation \<Rightarrow> (nat \<Rightarrow> proc_uniq_id \<Rightarrow> bool) \<Rightarrow> real
     \<Rightarrow> instance_rank_registration_state \<Rightarrow> (control_state, unit) op" where
  "register_instance config abi place_ffn_models fo alive now registration =
     bind (retire_terminal_generation (alive 0)) (\<lambda>_.
     bind (lift_result (validate_instance_geometry config abi registration)) (\<lambda>_.
     bind (instance_register_check registration now) (\<lambda>existing.
     bind (instance_commit registration existing
             (case existing of None \<Rightarrow> False | Some r \<Rightarrow> alive 1 (reg_proc r))) (\<lambda>_.
     bind (ensure_fabric_plan config place_ffn_models fo) (\<lambda>_. ret ())))))"

definition deregister_commit ::
    "instance_rank_id \<Rightarrow> instance_rank_registration_state \<Rightarrow> real \<Rightarrow> (control_state, unit) op" where
  "deregister_commit i registration now =
     bind (on_instances (remove_snapshot i registration)) (\<lambda>_.
     bind (on_transport (remove_instance i)) (\<lambda>lease.
     bind bump_revision (\<lambda>_.
     bind get_state (\<lambda>s.
       on_fabric (instance_departed i (FabricInstanceRankOwnerFailure (iri_model_id i) (iri_rank i) Owner_EXITED)
         (case lease of None \<Rightarrow> False | Some l \<Rightarrow> is_quiescing (lease_device l) (cs_transport s)) now)))))"

definition deregister_instance ::
    "xpool_config \<Rightarrow> (proc_uniq_id \<Rightarrow> bool) \<Rightarrow> real \<Rightarrow> model_id \<Rightarrow> int \<Rightarrow> process_ref \<Rightarrow> (control_state, unit) op" where
  "deregister_instance config alive now model_id rank owner =
     (let i = \<lparr>iri_model_id = model_id, iri_rank = rank\<rparr>
      in bind (lift_result (validate_instance_rank config model_id rank)) (\<lambda>_.
         bind (query_instance i) (\<lambda>registration.
           case registration of
             None \<Rightarrow> raise (XpoolDaemonError NotFound ''registration is not registered'')
           | Some r \<Rightarrow>
               bind (lift_result (validate_process_ref alive r owner)) (\<lambda>_. deregister_commit i r now))))"

subsection \<open>Shutdown\<close>

definition begin_close :: "real option \<Rightarrow> real \<Rightarrow> (control_state, real) op" where
  "begin_close deadline now s =
     (let final = (case cs_cleanup_deadline s of
                     Some first_deadline \<Rightarrow> first_deadline
                   | None \<Rightarrow> (case deadline of None \<Rightarrow> now + MPS_CLEANUP_TIMEOUT_S | Some d \<Rightarrow> d));
          scope = map_option (\<lambda>sc. if scope_cleanup_deadline sc = None
                                   then sc\<lparr>scope_cleanup_deadline := Some final\<rparr> else sc) (cs_mps_scope s)
      in ret final (s\<lparr>cs_admission_closed := True, cs_cleanup_deadline := Some final, cs_mps_scope := scope\<rparr>))"

text \<open>
  What one round of the cleanup loop observes: the clock, process liveness, whether a signal could be
  delivered, whether the MPS controller still runs and how stopping the scope ended.
\<close>

record close_observation =
  co_now :: real
  co_alive :: "proc_uniq_id \<Rightarrow> bool"
  co_signal_ok :: "proc_uniq_id \<Rightarrow> bool"
  co_controller_running :: bool
  co_stop_ok :: bool

definition known_owners :: "control_state \<Rightarrow> proc_uniq_id list" where
  "known_owners s =
     map reg_proc (all_values (cs_registrations s)) @ dict_values (agent_startups (cs_registrations s))
     @ (case cs_fabric s of None \<Rightarrow> [] | Some g \<Rightarrow> dict_values (gs_agent_owners g) @ dict_values (gs_instance_owners g))"

definition known_instance_owners :: "control_state \<Rightarrow> proc_uniq_id list" where
  "known_instance_owners s =
     map reg_proc (dict_values (book_instances (cs_registrations s)))
     @ (case cs_fabric s of None \<Rightarrow> [] | Some g \<Rightarrow> dict_values (gs_instance_owners g))"

definition pre_join_agents :: "control_state \<Rightarrow> proc_uniq_id list" where
  "pre_join_agents s =
     (case cs_fabric s of
        Some _ \<Rightarrow> []
      | None \<Rightarrow> map reg_proc (dict_values (book_atnagents (cs_registrations s)))
                @ map reg_proc (dict_values (book_ffnagents (cs_registrations s))))"

text \<open>\<^verbatim>\<open>SIGTERM\<close> for agents not yet notified: the notified ones, and whether every signal was delivered.\<close>

fun notify_agents :: "(proc_uniq_id \<Rightarrow> bool) \<Rightarrow> proc_uniq_id list \<Rightarrow> proc_uniq_id list \<Rightarrow> bool \<times> proc_uniq_id list" where
  "notify_agents signal_ok [] notified = (True, notified)"
| "notify_agents signal_ok (p # ps) notified =
     (if p \<in> set notified then notify_agents signal_ok ps notified
      else if signal_ok p then notify_agents signal_ok ps (p # notified)
      else (False, notified))"

text \<open>The two locked sections a round may enter after its liveness probes.\<close>

definition close_quiesce :: "fabric_controller \<Rightarrow> real \<Rightarrow> real \<Rightarrow> (control_state, unit) op" where
  "close_quiesce fabric now deadline s =
     (if fabric \<noteq> None \<and> same_generation (cs_fabric s) fabric \<and> now < deadline
      then on_fabric (quiesce now) s else ret () s)"

definition close_complete :: "(control_state, unit) op" where
  "close_complete = modify (\<lambda>s. s\<lparr>cs_policy := None, cs_closed := True\<rparr>)"

text \<open>One round: whether cleanup completed, and the agents notified so far. Exceptions end the round only.\<close>

definition close_round ::
    "real \<Rightarrow> close_observation \<Rightarrow> proc_uniq_id list \<Rightarrow> control_state \<Rightarrow> (bool \<times> proc_uniq_id list) \<times> control_state" where
  "close_round deadline host notified s =
     (let now = co_now host;
          owners = known_owners s;
          instance_owners = known_instance_owners s;
          (delivered, notified') = (if now < deadline then notify_agents (co_signal_ok host) (pre_join_agents s) notified
                                    else (True, notified))
      in if \<not> delivered then ((False, notified'), s)
         else if \<exists>owner\<in>set instance_owners. co_alive host owner then ((False, notified'), s)
         else case close_quiesce (cs_fabric s) now deadline s of
                (Inl _, s') \<Rightarrow> ((False, notified'), s')
              | (Inr _, s') \<Rightarrow>
                  if \<exists>owner\<in>set owners. co_alive host owner then ((False, notified'), s')
                  else if cs_mps_scope s \<noteq> None \<and> now \<ge> deadline \<and> co_controller_running host
                  then ((False, notified'), s')
                  else if cs_mps_scope s \<noteq> None \<and> \<not> co_stop_ok host then ((False, notified'), s')
                  else ((True, notified'), snd (close_complete s')))"

text \<open>
  The loop over the observations of successive rounds: \<open>False\<close> while it has not returned after the
  supplied rounds.
\<close>

fun close_loop :: "real \<Rightarrow> close_observation list \<Rightarrow> proc_uniq_id list \<Rightarrow> control_state \<Rightarrow> bool \<times> control_state" where
  "close_loop deadline [] notified s = (False, s)"
| "close_loop deadline (host # hosts) notified s =
     (case close_round deadline host notified s of
        ((True, notified'), s') \<Rightarrow> (True, s')
      | ((False, notified'), s') \<Rightarrow> close_loop deadline hosts notified' s')"

definition close :: "real option \<Rightarrow> real \<Rightarrow> close_observation list \<Rightarrow> control_state \<Rightarrow> bool \<times> control_state" where
  "close deadline now rounds s =
     (case begin_close deadline now s of
        (Inr final, s') \<Rightarrow> if cs_closed s' then (True, s') else close_loop final rounds [] s'
      | (Inl _, s') \<Rightarrow> (False, s'))"

subsection \<open>Fabric requests\<close>

definition quiesce_owner_matches ::
    "registration_book \<Rightarrow> fabric_generation_state \<Rightarrow> process_ref \<Rightarrow> nat \<times> fabric_pe_placement \<Rightarrow> bool result" where
  "quiesce_owner_matches book g owner entry =
     (case entry of (pe, placement) \<Rightarrow>
        case pe_registration book placement of
          None \<Rightarrow> Inr False
        | Some r \<Rightarrow>
            rbind (dict_item (gs_agent_owners g) (int pe)) (\<lambda>planned.
              Inr (reg_proc r = planned \<and> proc_pid (reg_proc r) = ref_pid owner
                   \<and> reg_abi_version r = ref_abi_version owner)))"

definition request_fabric_quiesce :: "fabric_quiesce_request \<Rightarrow> real \<Rightarrow> (control_state, unit) op" where
  "request_fabric_quiesce request now s =
     (case cs_fabric s of
        None \<Rightarrow> raise (XpoolDaemonError Conflict ''fabric quiesce generation is not retained'') s
      | Some g \<Rightarrow>
          if qr_generation request \<noteq> fp_generation (gs_plan g)
          then raise (XpoolDaemonError Conflict ''fabric quiesce generation is not retained'') s
          else (case rmap (quiesce_owner_matches (cs_registrations s) g (qr_owner request))
                       (enumerate 0 (pe_placements (gs_plan g))) of
                  Inl e \<Rightarrow> raise e s
                | Inr matches \<Rightarrow>
                    if length (filter id matches) \<noteq> 1
                    then raise (XpoolDaemonError Conflict ''fabric quiesce owner is not a current Agent participant'') s
                    else on_fabric (quiesce now) s))"

definition record_fabric_participant ::
    "(proc_uniq_id \<Rightarrow> bool) \<Rightarrow> fabric_participant_report \<Rightarrow> real \<Rightarrow> (control_state, unit) op" where
  "record_fabric_participant alive report now s =
     (case cs_fabric s of
        None \<Rightarrow> raise (XpoolDaemonError Conflict ''participant reported a retired Fabric generation'') s
      | Some g \<Rightarrow>
          if rep_pe report < 0 \<or> rep_pe report \<ge> int (pe_count g)
          then on_fabric (reject_report ''participant reported an unknown Fabric PE'' now) s
          else let placement = pe_placements (gs_plan g) ! nat (rep_pe report)
          in case pe_registration (cs_registrations s) placement of
               None \<Rightarrow> on_fabric (reject_report ''Fabric participant report owner does not match its PE'' now) s
             | Some r \<Rightarrow>
                 (case dict_item (gs_agent_owners g) (rep_pe report) of
                    Inl e \<Rightarrow> raise e s
                  | Inr owner \<Rightarrow>
                      if reg_proc r \<noteq> owner \<or> \<not> is_ok (validate_process_ref alive r (rep_owner report))
                      then on_fabric (reject_report ''Fabric participant report owner does not match its PE'' now) s
                      else on_fabric (record_participant report now) s))"

definition initialized_commit ::
    "instance_rank_registration_state \<Rightarrow> instance_rank_initialized_publication \<Rightarrow> instance_rank_id \<Rightarrow> (control_state, unit) op" where
  "initialized_commit registration ready i =
     bind (guard_not (\<lambda>s. cs_fabric s = None)
             (XpoolDaemonError NotReady ''fabric generation retired during initialization'')) (\<lambda>_.
     bind (guard_not (\<lambda>s. \<not> same_object (query i (book_instances (cs_registrations s))) (Some registration))
             (XpoolDaemonError NotReady ''instance registration changed during initialization'')) (\<lambda>_.
     bind (guard_not (\<lambda>s. case dict_get (ss_listeners (cs_serving s)) (iri_model_id i) of
                            None \<Rightarrow> False | Some listener \<Rightarrow> listener \<noteq> init_serving_listener ready)
             (XpoolDaemonError Conflict ''serving listener disagrees across instance ranks'')) (\<lambda>_.
     bind (on_fabric (record_initialized (reg_instance registration) (reg_proc registration)
                        (init_generation ready))) (\<lambda>_.
       modify (\<lambda>s. if dict_get (ss_listeners (cs_serving s)) (iri_model_id i) = None
                    then s\<lparr>cs_serving := (cs_serving s)\<lparr>ss_listeners :=
                             dict_set (iri_model_id i) (init_serving_listener ready) (ss_listeners (cs_serving s))\<rparr>\<rparr>
                    else s)))))"

definition publish_instance_initialized ::
    "xpool_config \<Rightarrow> (proc_uniq_id \<Rightarrow> bool) \<Rightarrow> model_id \<Rightarrow> int \<Rightarrow> instance_rank_initialized_publication
     \<Rightarrow> (control_state, unit) op" where
  "publish_instance_initialized config alive model_id rank ready =
     (let i = \<lparr>iri_model_id = model_id, iri_rank = rank\<rparr>
      in bind (lift_result (validate_instance_rank config model_id rank)) (\<lambda>_.
         bind (query_instance i) (\<lambda>registration.
           case registration of
             None \<Rightarrow> raise (XpoolDaemonError NotReady ''instance rank must register before initialization barrier'')
           | Some r \<Rightarrow>
               bind (lift_result (validate_process_ref alive r (init_owner ready))) (\<lambda>_.
                 initialized_commit r ready i))))"

subsection \<open>Heartbeats\<close>

definition heartbeat_atnagent ::
    "xpool_config \<Rightarrow> (proc_uniq_id \<Rightarrow> bool) \<Rightarrow> real \<Rightarrow> int \<Rightarrow> process_ref \<Rightarrow> (control_state, heartbeat_response) op" where
  "heartbeat_atnagent config alive now device heartbeat =
     bind (query_atnagent device) (\<lambda>registration.
       case registration of
         None \<Rightarrow> raise (XpoolDaemonError NotReady ''registration is not registered'')
       | Some r \<Rightarrow>
           bind (lift_result (validate_process_ref alive r heartbeat)) (\<lambda>_.
           bind (on_atnagents (commit_heartbeat device r now)) (\<lambda>_. heartbeat_response_of config now)))"

definition heartbeat_ffnagent ::
    "xpool_config \<Rightarrow> (proc_uniq_id \<Rightarrow> bool) \<Rightarrow> real \<Rightarrow> int \<Rightarrow> process_ref \<Rightarrow> (control_state, heartbeat_response) op" where
  "heartbeat_ffnagent config alive now device heartbeat =
     bind (query_ffnagent device) (\<lambda>registration.
       case registration of
         None \<Rightarrow> raise (XpoolDaemonError NotReady ''registration is not registered'')
       | Some r \<Rightarrow>
           bind (lift_result (validate_process_ref alive r heartbeat)) (\<lambda>_.
           bind (on_ffnagents (commit_heartbeat device r now)) (\<lambda>_. heartbeat_response_of config now)))"

definition heartbeat_instance ::
    "xpool_config \<Rightarrow> (proc_uniq_id \<Rightarrow> bool) \<Rightarrow> real \<Rightarrow> model_id \<Rightarrow> int \<Rightarrow> process_ref
     \<Rightarrow> (control_state, heartbeat_response) op" where
  "heartbeat_instance config alive now model_id rank heartbeat =
     (let i = \<lparr>iri_model_id = model_id, iri_rank = rank\<rparr>
      in bind (query_instance i) (\<lambda>registration.
           case registration of
             None \<Rightarrow> raise (XpoolDaemonError NotReady ''registration is not registered'')
           | Some r \<Rightarrow>
               bind (lift_result (validate_process_ref alive r heartbeat)) (\<lambda>_.
               bind (on_instances (commit_heartbeat i r now)) (\<lambda>_. heartbeat_response_of config now))))"

subsection \<open>The watchdog\<close>

definition INSTANCE_STARTUP_TIMEOUT_S :: real where
  "INSTANCE_STARTUP_TIMEOUT_S = 600"

fun FABRIC_PHASE_TIMEOUT_S :: "fabric_generation_phase \<Rightarrow> real option" where
  "FABRIC_PHASE_TIMEOUT_S Gen_JOINING = Some 60"
| "FABRIC_PHASE_TIMEOUT_S Gen_QUIESCING = Some 60"
| "FABRIC_PHASE_TIMEOUT_S Gen_DRAINING = Some 60"
| "FABRIC_PHASE_TIMEOUT_S Gen_FINALIZING = Some 60"
| "FABRIC_PHASE_TIMEOUT_S _ = None"

text \<open>Why an owner is lost, given its current registration.\<close>

definition owner_failure_reason ::
    "(proc_uniq_id \<Rightarrow> bool) \<Rightarrow> real \<Rightarrow> proc_uniq_id \<Rightarrow> 'm common_registration_scheme option
     \<Rightarrow> fabric_owner_failure_reason option" where
  "owner_failure_reason alive now owner registration =
     (case registration of
        None \<Rightarrow> Some Owner_EXITED
      | Some r \<Rightarrow>
          if \<not> alive owner then Some Owner_EXITED
          else if reg_proc r \<noteq> owner then Some Owner_REPLACED
          else if readiness_status now r \<noteq> ONLINE then Some Owner_STALE
          else None)"

text \<open>The loop over PEs: the first lost owner of an Agent that has not finalized ends it.\<close>

fun first_lost_agent ::
    "(proc_uniq_id \<Rightarrow> bool) \<Rightarrow> real \<Rightarrow> registration_book \<Rightarrow> fabric_generation_state
     \<Rightarrow> (nat \<times> fabric_pe_placement) list \<Rightarrow> fabric_owner_failure option result" where
  "first_lost_agent alive now book g [] = Inr None"
| "first_lost_agent alive now book g ((pe, placement) # entries) =
     (if (case dict_get (gs_participants g) (int pe) of
            None \<Rightarrow> False | Some participant \<Rightarrow> rep_phase participant = Part_FINALIZED)
      then first_lost_agent alive now book g entries
      else rbind (dict_item (gs_agent_owners g) (int pe)) (\<lambda>owner.
           case owner_failure_reason alive now owner (pe_registration book placement) of
             None \<Rightarrow> first_lost_agent alive now book g entries
           | Some reason \<Rightarrow> Inr (Some (FabricPeOwnerFailure (pe_role placement) pe reason))))"

definition watchdog_agents ::
    "(proc_uniq_id \<Rightarrow> bool) \<Rightarrow> real \<Rightarrow> registration_book \<Rightarrow> (fabric_controller, unit) op" where
  "watchdog_agents alive now book c =
     (case c of
        None \<Rightarrow> ret () c
      | Some g \<Rightarrow>
          (case first_lost_agent alive now book g (enumerate 0 (pe_placements (gs_plan g))) of
             Inl e \<Rightarrow> raise e c
           | Inr None \<Rightarrow> ret () c
           | Inr (Some failure) \<Rightarrow> abort now (Some (record_owner_failure failure g))))"

text \<open>
  The loop over Instance ranks, skipped once draining has begun: a lost rank whose lease is on a
  quiescing AtnAgent departs without failure.
\<close>

definition lost_rank ::
    "(proc_uniq_id \<Rightarrow> bool) \<Rightarrow> real \<Rightarrow> registration_book \<Rightarrow> transport_broker \<Rightarrow> fabric_generation_state
     \<Rightarrow> instance_rank_id \<times> proc_uniq_id \<Rightarrow> fabric_owner_failure option" where
  "lost_rank alive now book transport g entry =
     (case entry of (i, owner) \<Rightarrow>
        case owner_failure_reason alive now owner (query i (book_instances book)) of
          None \<Rightarrow> None
        | Some reason \<Rightarrow>
            if gs_phase g = Gen_QUIESCING
               \<and> (case dict_get (tb_leases transport) i of None \<Rightarrow> False | Some lease \<Rightarrow> is_quiescing (lease_device lease) transport)
            then None
            else Some (FabricInstanceRankOwnerFailure (iri_model_id i) (iri_rank i) reason))"

fun first_lost_rank ::
    "(proc_uniq_id \<Rightarrow> bool) \<Rightarrow> real \<Rightarrow> registration_book \<Rightarrow> transport_broker \<Rightarrow> fabric_generation_state
     \<Rightarrow> (instance_rank_id \<times> proc_uniq_id) list \<Rightarrow> fabric_owner_failure option" where
  "first_lost_rank alive now book transport g [] = None"
| "first_lost_rank alive now book transport g (entry # entries) =
     (case lost_rank alive now book transport g entry of
        None \<Rightarrow> first_lost_rank alive now book transport g entries
      | Some failure \<Rightarrow> Some failure)"

definition watchdog_ranks ::
    "(proc_uniq_id \<Rightarrow> bool) \<Rightarrow> real \<Rightarrow> registration_book \<Rightarrow> transport_broker \<Rightarrow> (fabric_controller, unit) op" where
  "watchdog_ranks alive now book transport c =
     (case c of
        None \<Rightarrow> ret () c
      | Some g \<Rightarrow>
          if gs_phase g \<in> {Gen_DRAINING, Gen_FINALIZING, Gen_ABORTING, Gen_STOPPED} then ret () c
          else (case first_lost_rank alive now book transport g (gs_instance_owners g) of
                  None \<Rightarrow> ret () c
                | Some failure \<Rightarrow> quiesce now (Some (record_owner_failure failure g))))"

definition watchdog_timeouts :: "xpool_config \<Rightarrow> real \<Rightarrow> (fabric_controller, unit) op" where
  "watchdog_timeouts config now c =
     (case c of
        None \<Rightarrow> ret () c
      | Some g \<Rightarrow>
          if gs_phase g = Gen_EXECUTABLE
             \<and> int (length (gs_initialized_instances g))
                 < int (length (config_instances config)) * atn_world_size config
             \<and> now - gs_phase_started_at g > INSTANCE_STARTUP_TIMEOUT_S
          then bind (on_retained (record_control_failure ''SGLang initialization barrier timed out'')) (\<lambda>_. abort now) c
          else (case FABRIC_PHASE_TIMEOUT_S (gs_phase g) of
                  None \<Rightarrow> ret () c
                | Some phase_timeout \<Rightarrow>
                    if now - gs_phase_started_at g > phase_timeout
                    then bind (on_retained (record_control_failure ''Fabric transition timed out'')) (\<lambda>_. abort now) c
                    else ret () c))"

definition reconcile ::
    "xpool_config \<Rightarrow> (proc_uniq_id \<Rightarrow> bool) \<Rightarrow> real \<Rightarrow> registration_book \<Rightarrow> transport_broker \<Rightarrow> (fabric_controller, unit) op" where
  "reconcile config alive now book transport =
     bind (watchdog_agents alive now book) (\<lambda>_.
     bind (watchdog_ranks alive now book transport) (\<lambda>_.
     bind (watchdog_timeouts config now) (\<lambda>_. watchdog_stop alive now)))"

text \<open>
  The three sections of an iteration: the captured registrations receive their observed liveness, the
  captured generation is reconciled unless it was replaced, and a terminal generation may be retired.
\<close>

definition liveness_marks :: "(proc_uniq_id \<Rightarrow> bool) \<Rightarrow> control_state \<Rightarrow> (nat \<times> bool) list" where
  "liveness_marks alive s = map (\<lambda>r. (reg_oid r, alive (reg_proc r))) (all_values (cs_registrations s))"

definition watchdog_mark :: "(nat \<times> bool) list \<Rightarrow> (control_state, unit) op" where
  "watchdog_mark marks = modify (\<lambda>s. s\<lparr>cs_registrations := (cs_registrations s)
     \<lparr>book_atnagents := write_alive marks (book_atnagents (cs_registrations s)),
      book_ffnagents := write_alive marks (book_ffnagents (cs_registrations s)),
      book_instances := write_alive marks (book_instances (cs_registrations s))\<rparr>\<rparr>)"

text \<open>The locked part returns whether the iteration goes on to retirement.\<close>

definition watchdog_reconcile ::
    "xpool_config \<Rightarrow> (proc_uniq_id \<Rightarrow> bool) \<Rightarrow> real \<Rightarrow> fabric_controller \<Rightarrow> (control_state, bool) op" where
  "watchdog_reconcile config alive now captured s =
     (if cs_fabric s = None \<or> \<not> same_generation (cs_fabric s) captured then ret False s
      else bind (on_fabric (reconcile config alive now (cs_registrations s) (cs_transport s))) (\<lambda>_. ret True) s)"

definition watchdog ::
    "xpool_config \<Rightarrow> mps_probe \<Rightarrow> real \<Rightarrow> (nat \<Rightarrow> proc_uniq_id \<Rightarrow> bool) \<Rightarrow> real \<Rightarrow> (control_state, unit) op" where
  "watchdog config probe later alive now =
     bind (refresh_mps_status now probe later) (\<lambda>_.
     bind get_state (\<lambda>captured.
     bind (watchdog_mark (liveness_marks (alive 0) captured)) (\<lambda>_.
     bind (watchdog_reconcile config (alive 0) now (cs_fabric captured)) (\<lambda>continued.
       if continued then retire_terminal_generation (alive 1) else ret ()))))"

subsection \<open>Transport arenas\<close>

fun collect_arenas ::
    "xpool_config \<Rightarrow> registration_book \<Rightarrow> int \<Rightarrow> instance_rank_id list \<Rightarrow> transport_arena_handle list
     \<Rightarrow> arena_binding list \<Rightarrow> transport_arena_publication list result" where
  "collect_arenas config book device seen seen_handles [] = Inr []"
| "collect_arenas config book device seen seen_handles (binding # bindings) =
     (let i = \<lparr>iri_model_id = ab_model_id binding, iri_rank = ab_rank binding\<rparr>
      in if ab_handle binding \<in> set seen_handles
         then Inl (XpoolDaemonError Conflict ''atnagent transport arenas contain duplicate arena handle'')
         else if dict_get (instance_by_model_id config) (ab_model_id binding) = None
         then Inl (XpoolDaemonError Conflict ''atnagent transport arena handle references unknown instance'')
         else rbind (validate_instance_rank config (ab_model_id binding) (ab_rank binding)) (\<lambda>_.
              rbind (index_at (atn_devices (cfg_atn config)) (nat (ab_rank binding))) (\<lambda>expected_device.
              if expected_device \<noteq> device
              then Inl (XpoolDaemonError Conflict ''atnagent transport arena handle rank belongs to another device'')
              else if i \<in> set seen
              then Inl (XpoolDaemonError Conflict ''atnagent transport arenas contain duplicate instance-rank handle'')
              else case query i (book_instances book) of
                     None \<Rightarrow> Inl (XpoolDaemonError NotReady
                               ''atnagent transport arena handle references an instance rank that is not registered'')
                   | Some registration \<Rightarrow>
                       rbind (collect_arenas config book device (i # seen) (ab_handle binding # seen_handles) bindings)
                         (\<lambda>rest. Inr (\<lparr>pub_instance = i, pub_handle = ab_handle binding,
                                        pub_transport = reg_transport registration\<rparr> # rest)))))"

definition validate_atnagent_transport_arenas ::
    "xpool_config \<Rightarrow> registration_book \<Rightarrow> int \<Rightarrow> arena_binding list \<Rightarrow> transport_arena_publication list result" where
  "validate_atnagent_transport_arenas config book device bindings = collect_arenas config book device [] [] bindings"

definition arenas_commit ::
    "xpool_config \<Rightarrow> int \<Rightarrow> arena_binding list \<Rightarrow> atnagent_registration_state \<Rightarrow> (control_state, unit) op" where
  "arenas_commit config device bindings registration =
     bind (guard_not (\<lambda>s. \<not> same_object (query device (book_atnagents (cs_registrations s))) (Some registration))
             (XpoolDaemonError NotReady ''atnagent registration changed during arena publication'')) (\<lambda>_.
     bind (reading (\<lambda>s. validate_atnagent_transport_arenas config (cs_registrations s) device bindings)) (\<lambda>publications.
       on_transport (publish device (reg_proc registration) publications)))"

definition upsert_atnagent_transport_arenas ::
    "xpool_config \<Rightarrow> (proc_uniq_id \<Rightarrow> bool) \<Rightarrow> real \<Rightarrow> int \<Rightarrow> arena_binding list \<Rightarrow> process_ref \<Rightarrow> (control_state, unit) op" where
  "upsert_atnagent_transport_arenas config alive now device bindings publisher =
     (if dict_get (atnagent_by_device config) device = None
      then raise (XpoolDaemonError NotFound ''unknown AtnAgent'')
      else bind (query_atnagent device) (\<lambda>registration.
           case registration of
             None \<Rightarrow> raise (XpoolDaemonError NotReady ''atnagent must register before upserting transport arenas'')
           | Some r \<Rightarrow>
               bind (lift_result (validate_process_ref alive r publisher)) (\<lambda>_.
               bind (lift_result (require_online now r)) (\<lambda>_.
                 arenas_commit config device bindings r))))"

definition lease_quiesce_commit ::
    "int \<Rightarrow> atnagent_registration_state \<Rightarrow> (control_state, instance_rank_registration_state list) op" where
  "lease_quiesce_commit device registration =
     bind (guard_not (\<lambda>s. \<not> same_object (query device (book_atnagents (cs_registrations s))) (Some registration))
             (XpoolDaemonError NotReady ''atnagent registration changed during lease quiesce'')) (\<lambda>_.
     bind (on_transport (quiesce_leases device (reg_proc registration))) (\<lambda>_.
       reading (\<lambda>s. Inr (arena_users device None s))))"

definition quiesce_atnagent_transport_leases ::
    "xpool_config \<Rightarrow> (nat \<Rightarrow> proc_uniq_id \<Rightarrow> bool) \<Rightarrow> real \<Rightarrow> int \<Rightarrow> process_ref \<Rightarrow> (control_state, instance_rank_ref list) op" where
  "quiesce_atnagent_transport_leases config alive now device publisher =
     (if dict_get (atnagent_by_device config) device = None
      then raise (XpoolDaemonError NotFound ''unknown AtnAgent'')
      else bind (query_atnagent device) (\<lambda>registration.
           case registration of
             None \<Rightarrow> raise (XpoolDaemonError NotReady ''atnagent must register before quiescing transport leases'')
           | Some r \<Rightarrow>
               bind (lift_result (validate_process_ref (alive 0) r publisher)) (\<lambda>_.
                 if readiness_status now r = OFFLINE
                 then raise (XpoolDaemonError NotReady ''local attention atnagent process is not live'')
                 else bind (lease_quiesce_commit device r) (\<lambda>candidates.
                        ret (map (\<lambda>owner. \<lparr>irr_process = process_view owner,
                                            irr_model_id = iri_model_id (reg_instance owner),
                                            irr_rank = iri_rank (reg_instance owner)\<rparr>)
                               (filter (\<lambda>owner. alive 1 (reg_proc owner)) candidates))))))"

definition lease_fabric_check ::
    "fabric_controller \<Rightarrow> instance_rank_registration_state \<Rightarrow> instance_rank_id \<Rightarrow> unit result" where
  "lease_fabric_check c registration i =
     (case c of
        None \<Rightarrow> Inl (XpoolDaemonError NotReady ''Fabric generation is not executable'')
      | Some g \<Rightarrow>
          if gs_phase g \<in> {Gen_QUIESCING, Gen_DRAINING, Gen_FINALIZING, Gen_ABORTING, Gen_STOPPED}
          then Inl (XpoolDaemonError NotReady ''Fabric generation is not accepting Instance-rank arena leases'')
          else if gs_phase g \<noteq> Gen_EXECUTABLE
          then Inl (XpoolDaemonError NotReady ''Fabric generation is not executable'')
          else if dict_get (gs_instance_owners g) i \<noteq> Some (reg_proc registration)
          then Inl (XpoolDaemonError Conflict ''Fabric generation owner does not match Instance-rank registration'')
          else Inr ())"

text \<open>
  The last section of an acquisition. The captured registrations are compared by identity, so what is read
  from them is read from the objects in the tables.
\<close>

definition lease_commit ::
    "real \<Rightarrow> int \<Rightarrow> instance_rank_id \<Rightarrow> instance_rank_registration_state \<Rightarrow> atnagent_registration_state
     \<Rightarrow> (control_state, transport_arena_handle) op" where
  "lease_commit now device i captured captured_atn s =
     (let registration = query i (book_instances (cs_registrations s));
          atnagent = query device (book_atnagents (cs_registrations s))
      in if \<not> same_object registration (Some captured)
         then raise (XpoolDaemonError NotReady ''instance registration changed during arena acquisition'') s
         else if \<not> same_object atnagent (Some captured_atn)
         then raise (XpoolDaemonError NotReady ''atnagent registration changed during arena acquisition'') s
         else (case (registration, atnagent) of
                 (Some r, Some a) \<Rightarrow>
                   (case rbind (require_online now r) (\<lambda>_.
                         rbind (require_online now a) (\<lambda>_.
                         rbind (lease_fabric_check (cs_fabric s) r i) (\<lambda>_.
                         rbind (publication device i (reg_proc a) (cs_transport s)) (\<lambda>p.
                           if pub_transport p \<noteq> reg_transport r
                           then Inl (XpoolDaemonError NotReady ''published transport arena geometry is stale'')
                           else Inr p)))) of
                      Inl e \<Rightarrow> raise e s
                    | Inr p \<Rightarrow>
                        bind (on_transport (acquire i \<lparr>lease_device = device, lease_handle = pub_handle p,
                                                      lease_publisher = reg_proc a\<rparr>)) (\<lambda>_. ret (pub_handle p)) s)
               | _ \<Rightarrow> raise (XpoolDaemonError NotReady ''instance registration changed during arena acquisition'') s))"

definition acquire_instance_transport_arena ::
    "xpool_config \<Rightarrow> (proc_uniq_id \<Rightarrow> bool) \<Rightarrow> real \<Rightarrow> model_id \<Rightarrow> int \<Rightarrow> process_ref
     \<Rightarrow> (control_state, transport_arena_handle) op" where
  "acquire_instance_transport_arena config alive now model_id rank owner =
     (let i = \<lparr>iri_model_id = model_id, iri_rank = rank\<rparr>
      in bind (lift_result (validate_instance_rank config model_id rank)) (\<lambda>_.
         bind (lift_result (index_at (atn_devices (cfg_atn config)) (nat rank))) (\<lambda>device.
         bind (query_instance i) (\<lambda>registration.
           case registration of
             None \<Rightarrow> raise (XpoolDaemonError NotReady ''instance rank is not registered'')
           | Some r \<Rightarrow>
               bind (lift_result (validate_process_ref alive r owner)) (\<lambda>_.
               bind (query_atnagent device) (\<lambda>atnagent.
                 case atnagent of
                   None \<Rightarrow> raise (XpoolDaemonError NotReady ''local attention atnagent is not registered'')
                 | Some a \<Rightarrow> lease_commit now device i r a))))))"

subsection \<open>Serving health\<close>

definition ordered_listeners ::
    "xpool_config \<Rightarrow> serving_startup_state \<Rightarrow> (model_id \<times> serving_listener) list option result" where
  "ordered_listeners config startup =
     (let model_ids = map inst_model_id (config_instances config)
      in if set (dict_keys (ss_listeners startup)) \<noteq> set model_ids then Inr None
         else rbind (rmap (\<lambda>m. rbind (dict_item (ss_listeners startup) m) (\<lambda>l. Inr (m, l))) model_ids)
                (\<lambda>listeners. Inr (Some listeners)))"

definition capture_serving_health_targets ::
    "xpool_config \<Rightarrow> real \<Rightarrow> control_state \<Rightarrow> serving_health_targets option result" where
  "capture_serving_health_targets config now s =
     (case cs_fabric s of
        None \<Rightarrow> Inr None
      | Some g \<Rightarrow>
          if ss_generation (cs_serving s) \<noteq> Some (fp_generation (gs_plan g)) \<or> ss_confirmed (cs_serving s)
          then Inr None
          else rbind (readiness_snapshot_of config now s) (\<lambda>snapshot.
               if \<not> snap_ready snapshot then Inr None
               else rbind (ordered_listeners config (cs_serving s)) (\<lambda>listeners.
                    Inr (map_option (\<lambda>ls. \<lparr>sh_generation = fp_generation (gs_plan g), sh_listeners = ls\<rparr>) listeners))))"

definition confirm_serving_health :: "xpool_config \<Rightarrow> serving_health_targets \<Rightarrow> (control_state, bool) op" where
  "confirm_serving_health config targets s =
     (case cs_fabric s of
        None \<Rightarrow> ret False s
      | Some g \<Rightarrow>
          if gs_phase g \<noteq> Gen_EXECUTABLE \<or> fp_generation (gs_plan g) \<noteq> sh_generation targets
             \<or> ss_generation (cs_serving s) \<noteq> Some (sh_generation targets) \<or> ss_confirmed (cs_serving s)
          then ret False s
          else (case ordered_listeners config (cs_serving s) of
                  Inl e \<Rightarrow> raise e s
                | Inr None \<Rightarrow> ret False s
                | Inr (Some listeners) \<Rightarrow>
                    if listeners \<noteq> sh_listeners targets then ret False s
                    else ret True (s\<lparr>cs_serving := (cs_serving s)\<lparr>ss_confirmed := True\<rparr>\<rparr>)))"

end
