(* ===== verification/Control_Invariant.thy ===== *)
theory Control_Invariant
  imports Control_Plane
begin

section \<open>The invariant of the control plane\<close>

text \<open>
  What the components' tables promise to each other under the domain lock. Every lock-protected section
  keeps it, so it holds in every interleaving of handlers, and each handler, being a sequence of sections,
  keeps it as well.
\<close>

text \<open>An operation of the controller on a retained generation: it keeps the generation and its initialized ranks.\<close>

definition steady :: "fabric_generation_state \<Rightarrow> fabric_controller \<Rightarrow> bool" where
  "steady g c \<longleftrightarrow> fine g c
     \<and> (\<forall>g'. c = Some g' \<longrightarrow> set (dict_keys (gs_initialized_instances g')) \<subseteq> set (dict_keys (gs_initialized_instances g)))"

lemma steady_refl [simp]: "steady g (Some g)"
  by (simp add: steady_def)

lemma steady_trans: "steady g (Some g1) \<Longrightarrow> steady g1 c \<Longrightarrow> steady g c"
  unfolding steady_def by (blast intro: fine_trans)

lemma same_initialized_steady:
  "fine g c \<Longrightarrow> (\<And>g'. c = Some g' \<Longrightarrow> gs_initialized_instances g' = gs_initialized_instances g) \<Longrightarrow> steady g c"
  by (auto simp: steady_def)

lemma transition_initialized:
  "on_generation (transition phase now) g = (r, Some g') \<Longrightarrow> gs_initialized_instances g' = gs_initialized_instances g"
  by (auto simp: on_generation_def transition_def ret_def raise_def split: if_splits)

lemma abort_initialized: "snd (abort now (Some g)) = Some g' \<Longrightarrow> gs_initialized_instances g' = gs_initialized_instances g"
  by (auto simp: abort_def ret_def on_generation_def transition_def raise_def split: if_splits)

lemma quiesce_initialized: "snd (quiesce now (Some g)) = Some g' \<Longrightarrow> gs_initialized_instances g' = gs_initialized_instances g"
  by (auto simp: quiesce_def ret_def on_generation_def transition_def raise_def split: if_splits)

lemma abort_steady: "steady g (snd (abort now (Some g)))"
  by (rule same_initialized_steady [OF abort_fine abort_initialized])

lemma quiesce_steady: "steady g (snd (quiesce now (Some g)))"
  by (rule same_initialized_steady [OF quiesce_fine quiesce_initialized])

lemma record_control_failure_initialized:
  "gs_initialized_instances (snd (record_control_failure f g)) = gs_initialized_instances g"
  by (simp add: record_control_failure_def ret_def raise_def)

lemma record_invocation_failure_initialized:
  "gs_initialized_instances (snd (record_invocation_failure f g)) = gs_initialized_instances g"
  by (simp add: record_invocation_failure_def record_control_failure_initialized ret_def split: option.splits)

lemma report_failures_initialized:
  "gs_initialized_instances (snd (report_failures report g)) = gs_initialized_instances g"
  using record_control_failure_initialized record_invocation_failure_initialized
  by (auto simp: report_failures_def bind_def ret_def split: option.splits prod.splits sum.splits) (metis snd_conv)+

lemma reject_report_initialized:
  "snd (reject_report message now (Some g)) = Some g' \<Longrightarrow> gs_initialized_instances g' = gs_initialized_instances g"
  using record_control_failure_initialized [of message g] abort_initialized
  by (auto simp: reject_report_def raise_def split: prod.splits sum.splits) (metis snd_conv)+

lemma reject_report_steady: "message \<noteq> [] \<Longrightarrow> steady g (snd (reject_report message now (Some g)))"
  using reject_report_fine [of message g now] by (intro same_initialized_steady reject_report_initialized) auto

lemma advance_barrier_initialized:
  "snd (advance_barrier now (Some g)) = Some g' \<Longrightarrow> gs_initialized_instances g' = gs_initialized_instances g"
  by (auto simp: advance_barrier_def ret_def on_generation_def transition_def raise_def split: if_splits option.splits)

lemma commit_report_initialized:
  assumes "snd (commit_report report now g) = Some g'"
  shows "gs_initialized_instances g' = gs_initialized_instances g"
proof -
  define g1 where "g1 = g\<lparr>gs_participants := dict_set (rep_pe report) report (gs_participants g)\<rparr>"
  obtain r g2 where r: "report_failures report g1 = (r, g2)" by force
  have "gs_initialized_instances g2 = gs_initialized_instances g"
    using report_failures_initialized [of report g1] r by (simp add: g1_def)
  then show ?thesis
    using assms r abort_initialized [of now g2] quiesce_initialized [of now g2] advance_barrier_initialized [of now g2]
    by (auto simp: commit_report_alt simp flip: g1_def split: sum.splits if_splits)
qed

lemma validate_enrichment_initialized:
  "snd (validate_enrichment previous report now (Some g)) = Some g' \<Longrightarrow>
   gs_initialized_instances g' = gs_initialized_instances g"
  by (auto simp: validate_enrichment_def ret_def split: option.splits if_splits dest!: reject_report_initialized)

lemma record_participant_initialized:
  assumes "snd (record_participant report now (Some g)) = Some g'"
  shows "gs_initialized_instances g' = gs_initialized_instances g"
proof -
  let ?previous = "dict_get (gs_participants g) (rep_pe report)"
  obtain r c where ve: "validate_enrichment ?previous report now (Some g) = (r, c)" by force
  then show ?thesis
    using assms commit_report_initialized [of report now g g'] reject_report_initialized [of _ now g g']
      validate_enrichment_initialized [of ?previous report now g g']
    by (auto simp: record_participant_def Let_def ret_def raise_def split: if_splits sum.splits)
qed

lemma record_participant_steady:
  "report_fields_ok report \<Longrightarrow> steady g (snd (record_participant report now (Some g)))"
  by (rule same_initialized_steady [OF record_participant_fine record_participant_initialized])

lemma record_owner_failure_steady: "steady g (Some (record_owner_failure failure g))"
  by (auto simp: steady_def fine_def record_owner_failure_def evolves_def failure_retires_def)

subsection \<open>The parts of the invariant\<close>

text \<open>
  Registrations and Transport: well-formed tables, canonical Model Specs as soon as an FfnAgent is
  registered, one Transport record per registered AtnAgent process, leases of registered ranks only.
\<close>

definition tables_ok :: "registration_book \<Rightarrow> transport_broker \<Rightarrow> bool" where
  "tables_ok book transport \<longleftrightarrow> book_ok book \<and> broker_ok transport
     \<and> (book_ffnagents book \<noteq> [] \<longrightarrow> ffn_model_specs book \<noteq> None)
     \<and> (\<forall>device. map_option ts_owner (dict_get (tb_atnagents transport) device)
                   = map_option reg_proc (dict_get (book_atnagents book) device))
     \<and> set (dict_keys (tb_leases transport)) \<subseteq> set (dict_keys (book_instances book))"

text \<open>The plan of a retained generation: the configured PEs and ranks, each with its owner.\<close>

definition owners_complete :: "xpool_config \<Rightarrow> fabric_generation_state \<Rightarrow> bool" where
  "owners_complete config g \<longleftrightarrow> pe_placements (gs_plan g) = membership_placements config
     \<and> dict_keys (gs_agent_owners g) = map int [0..<pe_count g]
     \<and> set (dict_keys (gs_instance_owners g)) = set (concat (map (rank_ids config) (map cfg_id (cfg_models config))))"

text \<open>
  The generation and what is scoped to it: without a generation there is neither capacity policy nor
  serving state; with one, both belong to it, only the completed shutdown has dropped the policy, and the
  ranks it counts as initialized are registered.
\<close>

definition generation_scope_ok ::
    "xpool_config \<Rightarrow> registration_book \<Rightarrow> fabric_controller \<Rightarrow> capacity_policy option \<Rightarrow> serving_startup_state \<Rightarrow> bool \<Rightarrow> bool" where
  "generation_scope_ok config book fabric policy serving is_closed \<longleftrightarrow>
     (case fabric of
        None \<Rightarrow> policy = None \<and> serving = ServingStartupState None
      | Some g \<Rightarrow> gen_ok g \<and> owners_complete config g
          \<and> ss_generation serving = Some (fp_generation (gs_plan g)) \<and> (policy = None \<longrightarrow> is_closed)
          \<and> (ss_confirmed serving \<longrightarrow> set (dict_keys (ss_listeners serving)) = set (map cfg_id (cfg_models config)))
          \<and> set (dict_keys (ss_listeners serving)) \<subseteq> set (map cfg_id (cfg_models config))
          \<and> set (dict_keys (gs_initialized_instances g)) \<subseteq> set (dict_keys (book_instances book)))"

definition shutdown_ok :: "bool \<Rightarrow> real option \<Rightarrow> bool \<Rightarrow> bool" where
  "shutdown_ok admission_closed deadline is_closed \<longleftrightarrow>
     admission_closed = (deadline \<noteq> None) \<and> (is_closed \<longrightarrow> admission_closed)"

definition ctrl_ok :: "xpool_config \<Rightarrow> control_state \<Rightarrow> bool" where
  "ctrl_ok config s \<longleftrightarrow> tables_ok (cs_registrations s) (cs_transport s)
     \<and> shutdown_ok (cs_admission_closed s) (cs_cleanup_deadline s) (cs_closed s)
     \<and> generation_scope_ok config (cs_registrations s) (cs_fabric s) (cs_policy s) (cs_serving s) (cs_closed s)"

lemma ctrl_ok_initial: "ctrl_ok config ControlPlane"
  by (simp add: ctrl_ok_def ControlPlane_def tables_ok_def book_ok_def table_ok_def RegistrationBook_def broker_ok_def
        TransportBroker_def shutdown_ok_def generation_scope_ok_def)

lemma steady_owners_complete: "steady g (Some g') \<Longrightarrow> owners_complete config g \<Longrightarrow> owners_complete config g'"
  by (auto simp: steady_def fine_def evolves_def owners_complete_def pe_count_def)

lemma steady_scope:
  assumes "steady g c"
    and "generation_scope_ok config book (Some g) policy serving is_closed"
  shows "\<exists>g'. c = Some g' \<and> evolves g g' \<and> generation_scope_ok config book (Some g') policy serving is_closed"
proof -
  obtain g' where g': "c = Some g'" "evolves g g'" "gen_ok g'"
    using fine_gen_ok [of g c] assms by (auto simp: steady_def generation_scope_ok_def)
  moreover have "owners_complete config g'"
    using steady_owners_complete assms g'(1) by (auto simp: generation_scope_ok_def)
  moreover have "gs_plan g' = gs_plan g" using g'(2) by (simp add: evolves_def)
  moreover have "set (dict_keys (gs_initialized_instances g')) \<subseteq> set (dict_keys (book_instances book))"
    using assms(1) subset_trans [of _ "set (dict_keys (gs_initialized_instances g))"] assms(2) g'(1)
    by (simp add: generation_scope_ok_def steady_def)
  ultimately show ?thesis using assms(2) by (simp add: generation_scope_ok_def)
qed

text \<open>Sections that only call the controller on the retained generation.\<close>

lemma on_fabric_keeps:
  assumes "\<And>g. steady g (snd (m (Some g)))" and "snd (m None) = None"
  shows "keeps (ctrl_ok config) (on_fabric m)"
proof (rule keepsI)
  fix s
  assume ok: "ctrl_ok config s"
  obtain r c where m: "m (cs_fabric s) = (r, c)" by force
  have "generation_scope_ok config (cs_registrations s) c (cs_policy s) (cs_serving s) (cs_closed s)"
  proof (cases "cs_fabric s")
    case None
    then show ?thesis using assms(2) m ok by (simp add: ctrl_ok_def)
  next
    case (Some g)
    have "generation_scope_ok config (cs_registrations s) (Some g) (cs_policy s) (cs_serving s) (cs_closed s)"
      using ok Some by (simp add: ctrl_ok_def)
    from steady_scope [OF assms(1) this] show ?thesis using m Some by auto
  qed
  then show "ctrl_ok config (snd (on_fabric m s))"
    using ok m by (simp add: on_fabric_def ctrl_ok_def)
qed

lemma ret_keeps [simp]: "keeps I (ret x)"
  by (rule hoare_ret)

lemma raise_keeps [simp]: "keeps I (raise e)"
  by (rule hoare_raise)

lemma reading_keeps [simp]: "keeps I (reading f)"
  by (rule hoare_reading)

lemma lift_result_keeps [simp]: "keeps I (lift_result r)"
  by (rule hoare_lift_result)

lemma get_state_keeps [simp]: "keeps I get_state"
  by (simp add: hoare_def get_state_def)

lemma guard_not_keeps [simp]: "keeps I (guard_not c e)"
  by (simp add: hoare_def guard_not_def ret_def raise_def)

lemma bind_keeps: "keeps I m \<Longrightarrow> (\<And>x. keeps I (f x)) \<Longrightarrow> keeps I (bind m f)"
  by (rule hoare_bind)

lemma keeps_at: "(\<And>s. I s \<Longrightarrow> \<exists>m'. m s = m' s \<and> keeps I m') \<Longrightarrow> keeps I m"
  unfolding hoare_def by metis

lemma query_keeps [simp]: "keeps I (query_atnagent device)" "keeps I (query_ffnagent device)" "keeps I (query_instance i)"
  by (simp_all add: hoare_def query_atnagent_def query_ffnagent_def query_instance_def ret_def)

subsection \<open>Sections outside the tables\<close>

lemmas frame_simps = ctrl_ok_def ret_def raise_def

lemma start_visibility_keeps: "keeps (ctrl_ok config) (start_visibility cfg uuids)"
  by (rule keepsI) (auto simp: start_visibility_def frame_simps Let_def split: sum.splits)

lemma start_scope_keeps: "keeps (ctrl_ok config) (start_scope oid)"
  by (rule keepsI) (auto simp: start_scope_def frame_simps)

lemma start_controller_keeps: "keeps (ctrl_ok config) (start_controller started)"
  by (rule keepsI) (auto simp: start_controller_def frame_simps lift_result_def split: option.splits)

lemma store_mps_status_keeps: "keeps (ctrl_ok config) (store_mps_status now result)"
  by (rule keepsI) (auto simp: store_mps_status_def modify_def frame_simps)

lemma global_warnings_keeps: "keeps (ctrl_ok config) (global_warnings cfg now)"
  by (rule keepsI) (auto simp: global_warnings_def frame_simps split: sum.splits)

lemma bump_revision_keeps: "keeps (ctrl_ok config) bump_revision"
  by (rule keepsI) (auto simp: bump_revision_def modify_def frame_simps)

lemma admit_commit_keeps: "keeps (ctrl_ok config) (admit_commit alive request scope fabric identity)"
  by (rule keepsI)
     (auto simp: admit_commit_def frame_simps Let_def tables_ok_def book_ok_def generation_scope_ok_def split: option.splits)

lemma begin_close_keeps: "keeps (ctrl_ok config) (begin_close deadline now)"
  by (rule keepsI) (auto simp: begin_close_def frame_simps Let_def shutdown_ok_def)

lemma scope_without_generation: "generation_scope_ok config book None None (ServingStartupState None) is_closed"
  by (simp add: generation_scope_ok_def)

lemma retire_commit_keeps: "keeps (ctrl_ok config) (retire_commit g any_alive)"
  by (rule keepsI) (auto simp: retire_commit_def frame_simps scope_without_generation)

lemma configured_models: "set (map inst_model_id (config_instances config)) = set (map cfg_id (cfg_models config))"
  unfolding config_instances_ids ..

lemma confirm_serving_health_keeps: "keeps (ctrl_ok config) (confirm_serving_health config targets)"
proof (rule keepsI)
  fix s
  assume ok: "ctrl_ok config s"
  have "ctrl_ok config (s\<lparr>cs_serving := (cs_serving s)\<lparr>ss_confirmed := True\<rparr>\<rparr>)"
    if "cs_fabric s = Some g" "ordered_listeners config (cs_serving s) = Inr (Some listeners)" for g listeners
    using ok that configured_models [of config]
    by (auto simp: ctrl_ok_def generation_scope_ok_def ordered_listeners_def Let_def split: if_splits)
  then show "ctrl_ok config (snd (confirm_serving_health config targets s))"
    using ok by (simp add: confirm_serving_health_def ret_def raise_def split: option.splits sum.splits)
qed

subsection \<open>Sections that call the controller\<close>

lemma on_retained_None [simp]: "snd (on_retained m None) = None"
  by (simp add: on_retained_def ret_def)

lemma quiesce_None [simp]: "snd (quiesce now None) = None"
  by (simp add: quiesce_def raise_def)

lemma abort_None [simp]: "abort now None = (Inr (), None)"
  by (simp add: abort_def ret_def)

lemma quiesce_keeps: "keeps (ctrl_ok config) (on_fabric (quiesce now))"
  by (rule on_fabric_keeps) (simp_all add: quiesce_steady)

lemma abort_keeps: "keeps (ctrl_ok config) (on_fabric (abort now))"
  by (rule on_fabric_keeps) (simp_all add: abort_steady)

text \<open>Recording the loss of an owner and leaving service.\<close>

definition fail_owner :: "fabric_owner_failure \<Rightarrow> (fabric_controller, unit) op \<Rightarrow> (fabric_controller, unit) op" where
  "fail_owner failure leave = bind (on_retained (modify (record_owner_failure failure))) (\<lambda>_. leave)"

lemma fail_owner_Some: "fail_owner failure leave (Some g) = leave (Some (record_owner_failure failure g))"
  by (simp add: fail_owner_def bind_def on_retained_def on_generation_def modify_def)

lemma fail_owner_None: "fail_owner failure leave None = leave None"
  by (simp add: fail_owner_def bind_def on_retained_def ret_def)

lemma fail_owner_keeps:
  assumes "\<And>g. steady g (snd (leave (Some g)))" and "snd (leave None) = None"
  shows "keeps (ctrl_ok config) (on_fabric (fail_owner failure leave))"
proof (rule on_fabric_keeps)
  show "steady g (snd (fail_owner failure leave (Some g)))" for g
    unfolding fail_owner_Some by (rule steady_trans [OF record_owner_failure_steady assms(1)])
qed (simp add: fail_owner_None assms(2))

lemma agent_register_check_keeps: "keeps (ctrl_ok config) (agent_register_check role device proc now)"
proof (rule keepsI)
  fix s
  assume ok: "ctrl_ok config s"
  let ?fail = "\<lambda>pe. bind (on_fabric (fail_owner (FabricPeOwnerFailure role pe Owner_REPLACED) (abort now)))
     (\<lambda>_. raise (XpoolDaemonError Conflict ''retained Fabric generation forbids Agent replacement''))"
  have failed: "ctrl_ok config (snd (?fail pe s))" for pe
    by (rule keeps_snd [of "ctrl_ok config"], intro bind_keeps fail_owner_keeps) (simp_all add: abort_steady ok)
  show "ctrl_ok config (snd (agent_register_check role device proc now s))"
    using ok failed [unfolded fail_owner_def]
    by (auto simp: agent_register_check_def ret_def raise_def split: option.splits sum.splits)
qed

lemma instance_register_check_keeps: "keeps (ctrl_ok config) (instance_register_check registration now)"
proof (rule keepsI)
  fix s
  assume ok: "ctrl_ok config s"
  let ?fail = "bind (on_fabric (fail_owner (FabricInstanceRankOwnerFailure (iri_model_id (reg_instance registration))
        (iri_rank (reg_instance registration)) Owner_REPLACED) (quiesce now)))
     (\<lambda>_. raise (XpoolDaemonError Conflict ''retained Fabric generation forbids Instance-rank replacement''))
     :: (control_state, instance_rank_registration_state option) op"
  have "ctrl_ok config (snd (?fail s))"
    by (rule keeps_snd [of "ctrl_ok config"], intro bind_keeps fail_owner_keeps) (simp_all add: quiesce_steady ok)
  then show "ctrl_ok config (snd (instance_register_check registration now s))"
    using ok by (simp add: instance_register_check_def ret_def raise_def fail_owner_def Let_def split: option.splits)
qed

text \<open>Recording a control failure and aborting.\<close>

lemma fail_control_steady:
  "steady g (snd (bind (on_retained (record_control_failure failure)) (\<lambda>_. abort now) (Some g)))"
proof -
  obtain r g1 where r: "record_control_failure failure g = (r, g1)" by force
  have e: "evolves g g1" "gen_tables_ok g1 = gen_tables_ok g" "gs_initialized_instances g1 = gs_initialized_instances g"
    using record_control_failure_evolves [of g failure] record_control_failure_initialized [of failure g] r by simp_all
  have "steady g (snd (abort now (Some g1)))"
    by (rule same_initialized_steady) (use e abort_initialized [of now g1] in \<open>auto intro: then_abort_fine\<close>)
  moreover have "steady g (Some g1)" if "r = Inl ex" for ex
    using that r by (auto simp: record_control_failure_def ret_def raise_def split: if_splits)
  ultimately show ?thesis using r by (cases r) (auto simp: bind_def on_retained_def on_generation_def)
qed

lemma fail_control_None [simp]: "bind (on_retained (record_control_failure failure)) (\<lambda>_. abort now) None = (Inr (), None)"
  by (simp add: bind_def on_retained_def ret_def)

lemma request_fabric_quiesce_keeps: "keeps (ctrl_ok config) (request_fabric_quiesce request now)"
proof (rule keepsI)
  fix s
  assume ok: "ctrl_ok config s"
  then show "ctrl_ok config (snd (request_fabric_quiesce request now s))"
    using keeps_snd [OF quiesce_keeps ok]
    by (simp add: request_fabric_quiesce_def ret_def raise_def split: option.splits sum.splits)
qed

lemma close_quiesce_keeps: "keeps (ctrl_ok config) (close_quiesce fabric now deadline)"
proof (rule keepsI)
  fix s
  assume ok: "ctrl_ok config s"
  then show "ctrl_ok config (snd (close_quiesce fabric now deadline s))"
    using keeps_snd [OF quiesce_keeps ok] by (simp add: close_quiesce_def ret_def)
qed

lemma reject_report_None [simp]: "snd (reject_report message now None) = None"
  by (simp add: reject_report_def raise_def)

lemma record_participant_None [simp]: "snd (record_participant report now None) = None"
  by (simp add: record_participant_def raise_def)

lemma reject_report_keeps: "keeps (ctrl_ok config) (on_fabric (reject_report (ch # message) now))"
  by (rule on_fabric_keeps) (simp_all add: reject_report_steady)

lemma record_participant_keeps:
  "report_fields_ok report \<Longrightarrow> keeps (ctrl_ok config) (on_fabric (record_participant report now))"
  by (rule on_fabric_keeps) (simp_all add: record_participant_steady)

lemma record_fabric_participant_keeps:
  assumes "report_fields_ok report"
  shows "keeps (ctrl_ok config) (record_fabric_participant alive report now)"
proof (rule keepsI)
  fix s
  assume ok: "ctrl_ok config s"
  have rejected: "ctrl_ok config (snd (on_fabric (reject_report (ch # message) now) s))" for ch message
    by (rule keeps_snd [OF reject_report_keeps ok])
  have accepted: "ctrl_ok config (snd (on_fabric (record_participant report now) s))"
    by (rule keeps_snd [OF record_participant_keeps [OF assms] ok])
  show "ctrl_ok config (snd (record_fabric_participant alive report now s))"
    using ok by (simp add: rejected accepted record_fabric_participant_def ret_def raise_def Let_def split: option.splits sum.splits)
qed

lemma step_context_state_capacity_keeps: "keeps (ctrl_ok config) (step_context_state_capacity cfg reads now)"
proof (rule keepsI)
  fix s
  assume ok: "ctrl_ok config s"
  have with_policy: "ctrl_ok config (s\<lparr>cs_policy := Some p\<rparr>)" if "cs_fabric s = Some g" for p g
    using ok that by (auto simp: ctrl_ok_def generation_scope_ok_def split: option.splits)
  have fail: "keeps (ctrl_ok config) (bind (on_fabric (bind (on_retained (record_control_failure f)) (\<lambda>_. abort now)))
       (\<lambda>_. raise e))" for f and e
    by (intro bind_keeps on_fabric_keeps) (simp_all add: fail_control_steady fail_control_None)
  show "ctrl_ok config (snd (step_context_state_capacity cfg reads now s))"
    using ok by (auto simp: with_policy keeps_snd [OF fail with_policy] step_context_state_capacity_def ret_def split: option.splits prod.splits sum.splits)
qed

subsection \<open>Sections that change the tables\<close>

lemma install_snapshot_returns:
  assumes "install_snapshot key conflicts r existing alive t = (Inr changed, t')"
  shows "dict_get t' (key r) \<noteq> None" and "set (dict_keys t') = insert (key r) (set (dict_keys t))"
    and "\<And>k. k \<noteq> key r \<Longrightarrow> dict_get t' k = dict_get t k"
proof -
  have "key r \<in> set (dict_keys t)" if "dict_get t (key r) \<noteq> None" using that by (metis domI dom_map_of_conv_image_fst list.set_map map_of_eq_None_iff)
  then show "set (dict_keys t') = insert (key r) (set (dict_keys t))"
    using assms by (auto simp: table_op_defs dict_keys_set simp del: map_of_eq_None_iff set_map split: if_splits option.splits)
  show "dict_get t' (key r) \<noteq> None"
    using assms by (auto simp: table_op_defs simp del: map_of_eq_None_iff split: if_splits option.splits)
  show "dict_get t' k = dict_get t k" if "k \<noteq> key r" for k
    using assms that by (auto simp: table_op_defs split: if_splits option.splits)
qed

lemma install_snapshot_raises: "install_snapshot key conflicts r existing alive t = (Inl e, t') \<Longrightarrow> t' = t"
  by (auto simp: table_op_defs split: if_splits option.splits)

lemma heartbeat_keys: "set (dict_keys (snd (commit_heartbeat k r now t))) = set (dict_keys t)"
proof -
  have "k \<in> set (dict_keys t)" if "dict_get t k = Some cur" for cur using map_of_SomeD [OF that] by force
  then show ?thesis by (auto simp: table_op_defs dict_keys_set simp del: set_map split: option.splits)
qed

lemma heartbeat_proc: "map_option reg_proc (dict_get (snd (commit_heartbeat k r now t)) k') = map_option reg_proc (dict_get t k')"
  by (auto simp: table_op_defs split: option.splits)

lemma heartbeat_empty: "snd (commit_heartbeat k r now []) = []"
  by (simp add: table_op_defs)

lemma write_alive_keys: "dict_keys (write_alive marks t) = dict_keys t"
  by (simp add: write_alive_def comp_def case_prod_unfold)

lemma write_alive_proc: "map_option reg_proc (dict_get (write_alive marks t) k) = map_option reg_proc (dict_get t k)"
  by (cases "dict_get t k") (auto simp: dict_get_write_alive split: option.splits)

lemma install_atnagent_owner:
  "map_option ts_owner (dict_get (tb_atnagents (snd (install_atnagent device owner b))) d) =
     (if d = device then Some owner else map_option ts_owner (dict_get (tb_atnagents b) d))"
  "tb_leases (snd (install_atnagent device owner b)) = tb_leases b"
  by (auto simp: install_atnagent_def ret_def AtnAgentTransportState_def split: option.splits)

lemma scope_book:
  assumes "generation_scope_ok config book fabric policy serving is_closed"
    and "set (dict_keys (book_instances book)) \<subseteq> set (dict_keys (book_instances book'))"
  shows "generation_scope_ok config book' fabric policy serving is_closed"
proof (cases fabric)
  case (Some g)
  have "set (dict_keys (gs_initialized_instances g)) \<subseteq> set (dict_keys (book_instances book))"
    using assms(1) Some by (simp add: generation_scope_ok_def)
  from subset_trans [OF this assms(2)] show ?thesis using assms(1) Some by (simp add: generation_scope_ok_def)
qed (use assms(1) in \<open>simp add: generation_scope_ok_def\<close>)

lemma atnagent_commit_keeps: "keeps (ctrl_ok config) (atnagent_commit registration existing existing_alive)"
proof (rule keepsI)
  fix s
  assume ok: "ctrl_ok config s"
  let ?install = "install_snapshot atn_device atnagent_conflicts registration existing existing_alive"
  obtain res t' where t': "?install (book_atnagents (cs_registrations s)) = (res, t')" by force
  show "ctrl_ok config (snd (atnagent_commit registration existing existing_alive s))"
  proof (cases res)
    case (Inl e)
    with t' have "t' = book_atnagents (cs_registrations s)" using install_snapshot_raises by blast
    with Inl show ?thesis using ok t'
      by (auto simp: atnagent_commit_def bind_def guard_not_def on_atnagents_def ret_def raise_def)
  next
    case (Inr changed)
    note installed = install_snapshot_returns [OF t' [unfolded Inr]]
    obtain r where r: "dict_get t' (atn_device registration) = Some r" using installed(1) by auto
    define b where "b = snd (install_atnagent (atn_device registration) (reg_proc r) (cs_transport s))"
    have "table_ok atn_device t'"
      using atnagent_table.install_ok [of "book_atnagents (cs_registrations s)" registration existing existing_alive] ok t'
      by (simp add: ctrl_ok_def tables_ok_def book_ok_def)
    moreover have "broker_ok b" using ok by (simp add: b_def ctrl_ok_def tables_ok_def install_atnagent_ok)
    moreover have "map_option ts_owner (dict_get (tb_atnagents b) d) = map_option reg_proc (dict_get t' d)" for d
      using ok r installed(3) by (simp add: b_def install_atnagent_owner ctrl_ok_def tables_ok_def)
    ultimately have tables: "tables_ok ((cs_registrations s)\<lparr>book_atnagents := t'\<rparr>) b"
      using ok by (simp add: tables_ok_def book_ok_def ctrl_ok_def b_def install_atnagent_owner)
    have "ctrl_ok config (s\<lparr>cs_registrations := (cs_registrations s)\<lparr>book_atnagents := t'\<rparr>, cs_transport := b\<rparr>)"
      using ok tables scope_book [of config "cs_registrations s" _ _ _ _ "(cs_registrations s)\<lparr>book_atnagents := t'\<rparr>"]
      by (simp add: ctrl_ok_def)
    then have "ctrl_ok config (snd ((if changed then bump_revision else ret ())
        (s\<lparr>cs_registrations := (cs_registrations s)\<lparr>book_atnagents := t'\<rparr>, cs_transport := b\<rparr>)))"
      by (simp add: bump_revision_def modify_def ret_def ctrl_ok_def)
    moreover have "install_atnagent (atn_device registration) (reg_proc r) (cs_transport s) = (Inr (), b)"
      by (auto simp: b_def install_atnagent_def ret_def split: option.splits)
    ultimately show ?thesis using ok t' Inr r
      by (simp add: atnagent_commit_def bind_def guard_not_def on_atnagents_def on_transport_def query_atnagent_def
            query_def ret_def raise_def)
  qed
qed

lemma ffnagent_commit_keeps: "keeps (ctrl_ok config) (ffnagent_commit registration model_specs existing existing_alive)"
proof (rule keepsI)
  fix s
  assume ok: "ctrl_ok config s"
  let ?install = "install_snapshot ffn_device ffnagent_conflicts registration existing existing_alive"
  obtain res t' where t': "?install (book_ffnagents (cs_registrations s)) = (res, t')" by force
  show "ctrl_ok config (snd (ffnagent_commit registration model_specs existing existing_alive s))"
  proof (cases res)
    case (Inl e)
    with t' have "t' = book_ffnagents (cs_registrations s)" using install_snapshot_raises by blast
    with Inl show ?thesis using ok t'
      by (auto simp: ffnagent_commit_def bind_def guard_not_def on_ffnagents_def ret_def raise_def)
  next
    case (Inr changed)
    define book where "book = (if ffn_model_specs (cs_registrations s) = None
      then (cs_registrations s)\<lparr>book_ffnagents := t', ffn_model_specs := Some model_specs\<rparr>
      else (cs_registrations s)\<lparr>book_ffnagents := t'\<rparr>)"
    have "table_ok ffn_device t'"
      using ffnagent_table.install_ok [of "book_ffnagents (cs_registrations s)" registration existing existing_alive] ok t'
      by (simp add: ctrl_ok_def tables_ok_def book_ok_def)
    then have "tables_ok book (cs_transport s)"
      using ok by (auto simp: book_def tables_ok_def book_ok_def ctrl_ok_def split: option.splits)
    then have "ctrl_ok config (s\<lparr>cs_registrations := book\<rparr>)"
      using ok scope_book [of config "cs_registrations s" _ _ _ _ book] by (simp add: ctrl_ok_def book_def)
    then have "ctrl_ok config (snd ((if changed then bump_revision else ret ()) (s\<lparr>cs_registrations := book\<rparr>)))"
      by (simp add: bump_revision_def modify_def ret_def ctrl_ok_def)
    then show ?thesis using ok t' Inr
      by (auto simp: ffnagent_commit_def bind_def guard_not_def on_ffnagents_def modify_def book_def
            ret_def raise_def split: option.splits)
  qed
qed

end
