(* ===== verification/Control_Sections.thy ===== *)
theory Control_Sections
  imports Control_Invariant
begin

section \<open>The remaining sections keep the invariant\<close>

text \<open>
  Instance ranks, generations, arenas and the watchdog. Together with theory Control_Invariant this covers
  every lock-protected section of the control plane.
\<close>

subsection \<open>Instance ranks\<close>

lemma dict_del_keys: "set (dict_keys (dict_del k d)) = set (dict_keys d) - {k}"
  by (simp add: delete_keys del: set_map)

lemma leases_after_remove: "tb_leases (snd (remove_instance i b)) = dict_del i (tb_leases b)"
  "tb_atnagents (snd (remove_instance i b)) = tb_atnagents b"
  by (simp_all add: remove_instance_def ret_def)

lemma ctrl_okD:
  assumes "ctrl_ok config s"
  shows "book_ok (cs_registrations s)" and "broker_ok (cs_transport s)"
    and "set (dict_keys (tb_leases (cs_transport s))) \<subseteq> set (dict_keys (book_instances (cs_registrations s)))"
    and "generation_scope_ok config (cs_registrations s) (cs_fabric s) (cs_policy s) (cs_serving s) (cs_closed s)"
  using assms by (simp_all add: ctrl_ok_def tables_ok_def)

lemma tables_with_instances:
  assumes "ctrl_ok config s" and "table_ok reg_instance t" and "broker_ok b"
    and "tb_atnagents b = tb_atnagents (cs_transport s)" and "set (dict_keys (tb_leases b)) \<subseteq> set (dict_keys t)"
  shows "tables_ok ((cs_registrations s)\<lparr>book_instances := t\<rparr>) b"
  using assms by (simp add: ctrl_ok_def tables_ok_def book_ok_def)

lemma instance_commit_keeps: "keeps (ctrl_ok config) (instance_commit registration existing existing_alive)"
proof (rule keepsI)
  fix s
  assume ok: "ctrl_ok config s"
  let ?install = "install_snapshot reg_instance instance_conflicts registration existing existing_alive"
  let ?i = "reg_instance registration"
  obtain res t' where t': "?install (book_instances (cs_registrations s)) = (res, t')" by force
  show "ctrl_ok config (snd (instance_commit registration existing existing_alive s))"
  proof (cases res)
    case (Inl e)
    with t' have "t' = book_instances (cs_registrations s)" using install_snapshot_raises by blast
    with Inl show ?thesis using ok t'
      by (auto simp: instance_commit_def bind_def guard_not_def reading_def on_instances_def ret_def raise_def
            split: sum.splits)
  next
    case (Inr changed)
    define book where "book = (cs_registrations s)\<lparr>book_instances := t'\<rparr>"
    define b where "b = (if changed then snd (remove_instance ?i (cs_transport s)) else cs_transport s)"
    have keys: "set (dict_keys t') = insert ?i (set (dict_keys (book_instances (cs_registrations s))))"
      using install_snapshot_returns(2) [OF t' [unfolded Inr]] .
    have "table_ok reg_instance t'"
      using instance_table.install_ok [of "book_instances (cs_registrations s)" registration existing existing_alive] ok t'
      by (simp add: ctrl_ok_def tables_ok_def book_ok_def)
    moreover have "set (dict_keys (tb_leases b)) \<subseteq> set (dict_keys t')"
      unfolding keys b_def leases_after_remove if_distrib [of snd] if_distrib [of tb_leases]
      using ctrl_okD(3) [OF ok] dict_del_keys [of ?i "tb_leases (cs_transport s)"] by (simp del: set_map) blast
    ultimately have "tables_ok book b"
      unfolding book_def using ctrl_okD(2) [OF ok]
      by (intro tables_with_instances [OF ok]) (simp_all add: b_def remove_instance_ok leases_after_remove del: set_map)
    moreover have "generation_scope_ok config book (cs_fabric s) (cs_policy s) (cs_serving s) (cs_closed s)"
      by (rule scope_book [OF ctrl_okD(4) [OF ok]]) (simp add: book_def keys subset_insertI del: set_map)
    ultimately have new_state: "ctrl_ok config (s\<lparr>cs_registrations := book, cs_transport := b, cs_revision := n\<rparr>)" for n
      using ok by (simp add: ctrl_ok_def)
    have unchanged: "s\<lparr>cs_registrations := book\<rparr> = s\<lparr>cs_registrations := book, cs_transport := b, cs_revision := cs_revision s\<rparr>"
      if "\<not> changed" using that by (simp add: b_def)
    show ?thesis
    proof (cases changed)
      case True
      then show ?thesis using ok new_state t' Inr
        by (auto simp: instance_commit_def bind_def guard_not_def reading_def on_instances_def on_transport_def
              remove_instance_def bump_revision_def modify_def book_def b_def ret_def raise_def split: sum.splits)
    next
      case False
      with new_state unchanged have "ctrl_ok config (s\<lparr>cs_registrations := book\<rparr>)" by metis
      then show ?thesis using ok t' Inr False
        by (auto simp: instance_commit_def bind_def guard_not_def reading_def on_instances_def book_def ret_def raise_def
              split: sum.splits)
    qed
  qed
qed

lemma instance_departed_initialized:
  "snd (instance_departed i failure q now (Some g)) = Some g' \<Longrightarrow>
   gs_initialized_instances g' = dict_del i (gs_initialized_instances g)"
  using quiesce_initialized [of now "record_owner_failure failure (g\<lparr>gs_initialized_instances := dict_del i (gs_initialized_instances g)\<rparr>)" g']
  by (auto simp: instance_departed_def Let_def ret_def record_owner_failure_def split: if_splits)

lemma instance_departed_steady: "steady g (snd (instance_departed i failure q now (Some g)))"
  using instance_departed_fine [of g i failure q now] instance_departed_initialized [of i failure q now g]
  by (simp add: steady_def dict_del_keys Diff_subset del: set_map)

lemma departed_scope:
  assumes "generation_scope_ok config book (Some g) policy serving is_closed"
    and "snd (instance_departed i failure q now (Some g)) = c"
    and "set (dict_keys (book_instances book')) = set (dict_keys (book_instances book)) - {i}"
  shows "generation_scope_ok config book' c policy serving is_closed"
proof -
  obtain g' where g': "c = Some g'" "generation_scope_ok config book (Some g') policy serving is_closed"
    using steady_scope [OF instance_departed_steady assms(1)] assms(2) by blast
  have "set (dict_keys (gs_initialized_instances g')) \<subseteq> set (dict_keys (book_instances book'))"
  proof -
    have "gs_initialized_instances g' = dict_del i (gs_initialized_instances g)"
      using instance_departed_initialized assms(2) g'(1) by blast
    moreover have "set (dict_keys (gs_initialized_instances g)) \<subseteq> set (dict_keys (book_instances book))"
      using assms(1) by (simp add: generation_scope_ok_def)
    ultimately show ?thesis unfolding assms(3) by (simp add: dict_del_keys Diff_mono del: set_map)
  qed
  with g' show ?thesis by (simp add: generation_scope_ok_def)
qed

lemma deregister_commit_keeps: "keeps (ctrl_ok config) (deregister_commit i registration now)"
proof (rule keepsI)
  fix s
  assume ok: "ctrl_ok config s"
  let ?t = "book_instances (cs_registrations s)"
  show "ctrl_ok config (snd (deregister_commit i registration now s))"
  proof (cases "same_object (dict_get ?t i) (Some registration)")
    case False
    then show ?thesis using ok
      by (simp add: deregister_commit_def bind_def on_instances_def remove_snapshot_def raise_def)
  next
    case True
    define book where "book = (cs_registrations s)\<lparr>book_instances := dict_del i ?t\<rparr>"
    define b where "b = snd (remove_instance i (cs_transport s))"
    define lease where "lease = dict_get (tb_leases (cs_transport s)) i"
    obtain r c where dep: "instance_departed i (FabricInstanceRankOwnerFailure (iri_model_id i) (iri_rank i) Owner_EXITED)
         (case lease of None \<Rightarrow> False | Some l \<Rightarrow> is_quiescing (lease_device l) b) now (cs_fabric s) = (r, c)" by force
    have keys: "set (dict_keys (book_instances book)) = set (dict_keys ?t) - {i}"
      by (simp add: book_def dict_del_keys del: set_map)
    have "table_ok reg_instance (dict_del i ?t)" using ok by (simp add: ctrl_ok_def tables_ok_def book_ok_def table_ok_del)
    moreover have "set (dict_keys (tb_leases b)) \<subseteq> set (dict_keys (dict_del i ?t))"
      using ctrl_okD(3) [OF ok] by (simp add: b_def leases_after_remove dict_del_keys Diff_mono del: set_map)
    ultimately have "tables_ok book b"
      unfolding book_def using ctrl_okD(2) [OF ok]
      by (intro tables_with_instances [OF ok]) (simp_all add: b_def remove_instance_ok leases_after_remove del: set_map)
    moreover have "generation_scope_ok config book c (cs_policy s) (cs_serving s) (cs_closed s)"
    proof (cases "cs_fabric s")
      case None
      then show ?thesis using ok dep by (auto simp: ctrl_ok_def generation_scope_ok_def instance_departed_def ret_def)
    next
      case (Some g)
      from dep [unfolded Some] have "snd (instance_departed i
         (FabricInstanceRankOwnerFailure (iri_model_id i) (iri_rank i) Owner_EXITED)
         (case lease of None \<Rightarrow> False | Some l \<Rightarrow> is_quiescing (lease_device l) b) now (Some g)) = c" by simp
      from departed_scope [OF ctrl_okD(4) [OF ok, unfolded Some] this keys] show ?thesis .
    qed
    ultimately have "ctrl_ok config (s\<lparr>cs_registrations := book, cs_transport := b, cs_revision := n, cs_fabric := c\<rparr>)" for n
      using ok by (simp add: ctrl_ok_def)
    moreover have "snd (deregister_commit i registration now s) =
        s\<lparr>cs_registrations := book, cs_transport := b, cs_revision := cs_revision s + 1, cs_fabric := c\<rparr>"
      using True dep [unfolded b_def remove_instance_def ret_def snd_conv]
      by (simp add: deregister_commit_def bind_def on_instances_def remove_snapshot_def on_transport_def remove_instance_def
            bump_revision_def modify_def get_state_def on_fabric_def ret_def book_def b_def lease_def cong: option.case_cong)
    ultimately show ?thesis by simp
  qed
qed

lemma record_initialized_result:
  "record_initialized i owner gen (Some g) = (r, c) \<Longrightarrow> \<exists>g'. c = Some g' \<and>
     set (dict_keys (gs_initialized_instances g')) \<subseteq> insert i (set (dict_keys (gs_initialized_instances g)))"
  by (auto simp: record_initialized_def ret_def raise_def dict_keys_set subset_insertI simp del: set_map split: if_splits)

lemma initialized_scope:
  assumes "generation_scope_ok config book (Some g) policy serving is_closed"
    and "record_initialized i owner gen (Some g) = (r, c)" and "i \<in> set (dict_keys (book_instances book))"
  shows "generation_scope_ok config book c policy serving is_closed"
proof -
  obtain g' where g': "c = Some g'"
    "set (dict_keys (gs_initialized_instances g')) \<subseteq> insert i (set (dict_keys (gs_initialized_instances g)))"
    using record_initialized_result [OF assms(2)] by blast
  have fine: "fine g (Some g')" using record_initialized_fine [of g i owner gen] assms(2) g'(1) by simp
  have "gen_ok g'" using fine_gen_ok [OF fine] assms(1) by (auto simp: generation_scope_ok_def)
  moreover have "owners_complete config g'" "gs_plan g' = gs_plan g"
    using fine assms(1) by (auto simp: generation_scope_ok_def fine_def evolves_def owners_complete_def pe_count_def)
  moreover have "set (dict_keys (gs_initialized_instances g')) \<subseteq> set (dict_keys (book_instances book))"
  proof (rule subset_trans [OF g'(2)])
    have "set (dict_keys (gs_initialized_instances g)) \<subseteq> set (dict_keys (book_instances book))"
      using assms(1) by (simp add: generation_scope_ok_def)
    with assms(3) show "insert i (set (dict_keys (gs_initialized_instances g))) \<subseteq> set (dict_keys (book_instances book))"
      by blast
  qed
  ultimately show ?thesis using assms(1) g'(1) by (simp add: generation_scope_ok_def)
qed

lemma with_listener_keeps:
  assumes "m \<in> set (map cfg_id (cfg_models config))"
  shows "hoare (\<lambda>s. ctrl_ok config s \<and> cs_fabric s \<noteq> None)
    (modify (\<lambda>s. if dict_get (ss_listeners (cs_serving s)) m = None
        then s\<lparr>cs_serving := (cs_serving s)\<lparr>ss_listeners := dict_set m listener (ss_listeners (cs_serving s))\<rparr>\<rparr> else s))
    (\<lambda>_. ctrl_ok config) (\<lambda>_. ctrl_ok config)"
proof (rule hoare_modify)
  fix s
  assume ok: "ctrl_ok config s \<and> cs_fabric s \<noteq> None"
  let ?set = "set (dict_keys (dict_set m listener (ss_listeners (cs_serving s)))) = insert m (set (dict_keys (ss_listeners (cs_serving s))))"
  have "?set" by (rule dict_keys_set)
  then show "ctrl_ok config (if dict_get (ss_listeners (cs_serving s)) m = None
        then s\<lparr>cs_serving := (cs_serving s)\<lparr>ss_listeners := dict_set m listener (ss_listeners (cs_serving s))\<rparr>\<rparr> else s)"
    using ok assms by (cases "cs_fabric s") (auto simp: ctrl_ok_def generation_scope_ok_def simp del: set_map map_of_eq_None_iff)
qed

lemma initialized_commit_keeps:
  assumes "reg_instance registration = i" and "iri_model_id i \<in> set (map cfg_id (cfg_models config))"
  shows "keeps (ctrl_ok config) (initialized_commit registration ready i)"
proof -
  let ?kept = "\<lambda>s. same_object (query i (book_instances (cs_registrations s))) (Some registration)"
  let ?P1 = "\<lambda>s. ctrl_ok config s \<and> cs_fabric s \<noteq> None"
  let ?P2 = "\<lambda>s. ctrl_ok config s \<and> cs_fabric s \<noteq> None \<and> ?kept s"
  have recorded: "hoare ?P2 (on_fabric (record_initialized (reg_instance registration) (reg_proc registration) gen))
      (\<lambda>_. ?P1) (\<lambda>_. ctrl_ok config)" for gen
  proof -
    have "?P1 (snd (on_fabric (record_initialized (reg_instance registration) (reg_proc registration) gen) s))" if pre: "?P2 s" for s
    proof -
      obtain g where g: "cs_fabric s = Some g" using pre by auto
      obtain r c where r: "record_initialized i (reg_proc registration) gen (Some g) = (r, c)" by force
      have "i \<in> set (dict_keys (book_instances (cs_registrations s)))"
        using pre by (auto simp: same_object_def query_def dest!: map_of_SomeD) force
      with pre g r initialized_scope [OF _ r] record_initialized_result [OF r] assms(1) show ?thesis
        by (auto simp: on_fabric_def ctrl_ok_def simp del: set_map)
    qed
    then show ?thesis unfolding hoare_def by (fastforce split: sum.splits prod.splits)
  qed
  have guard1: "hoare (ctrl_ok config) (guard_not (\<lambda>s. cs_fabric s = None) e) (\<lambda>_. ?P1) (\<lambda>_. ctrl_ok config)" for e
    by (simp add: hoare_def guard_not_def ret_def raise_def)
  have guard2: "hoare ?P1 (guard_not (\<lambda>s. \<not> ?kept s) e) (\<lambda>_. ?P2) (\<lambda>_. ctrl_ok config)" for e
    by (simp add: hoare_def guard_not_def ret_def raise_def)
  have guard3: "hoare ?P2 (guard_not d e) (\<lambda>_. ?P2) (\<lambda>_. ctrl_ok config)" for d e
    by (simp add: hoare_def guard_not_def ret_def raise_def)
  show ?thesis unfolding initialized_commit_def
    by (rule hoare_bind [OF guard1], rule hoare_bind [OF guard2], rule hoare_bind [OF guard3], rule hoare_bind [OF recorded],
        rule with_listener_keeps [OF assms(2)])
qed

subsection \<open>Heartbeats and liveness marks\<close>

lemma heartbeat_atnagent_section_keeps: "keeps (ctrl_ok config) (on_atnagents (commit_heartbeat device r now))"
proof (rule keepsI)
  fix s
  assume ok: "ctrl_ok config s"
  define t where "t = snd (commit_heartbeat device r now (book_atnagents (cs_registrations s)))"
  have "table_ok atn_device t" using atnagent_table.heartbeat_ok ctrl_okD(1) [OF ok] by (simp add: t_def book_ok_def)
  moreover have "map_option reg_proc (dict_get t d) = map_option reg_proc (dict_get (book_atnagents (cs_registrations s)) d)" for d
    unfolding t_def by (rule heartbeat_proc)
  ultimately have "tables_ok ((cs_registrations s)\<lparr>book_atnagents := t\<rparr>) (cs_transport s)"
    using ok by (simp add: ctrl_ok_def tables_ok_def book_ok_def)
  moreover have "generation_scope_ok config ((cs_registrations s)\<lparr>book_atnagents := t\<rparr>) (cs_fabric s) (cs_policy s)
      (cs_serving s) (cs_closed s)"
    by (rule scope_book [OF ctrl_okD(4) [OF ok]]) simp
  ultimately show "ctrl_ok config (snd (on_atnagents (commit_heartbeat device r now) s))"
    using ok by (simp add: on_atnagents_def t_def ctrl_ok_def case_prod_unfold)
qed

lemma heartbeat_ffnagent_section_keeps: "keeps (ctrl_ok config) (on_ffnagents (commit_heartbeat device r now))"
proof (rule keepsI)
  fix s
  assume ok: "ctrl_ok config s"
  define t where "t = snd (commit_heartbeat device r now (book_ffnagents (cs_registrations s)))"
  have "table_ok ffn_device t" using ffnagent_table.heartbeat_ok ctrl_okD(1) [OF ok] by (simp add: t_def book_ok_def)
  moreover have "t \<noteq> [] \<Longrightarrow> book_ffnagents (cs_registrations s) \<noteq> []" by (auto simp: t_def heartbeat_empty)
  ultimately have "tables_ok ((cs_registrations s)\<lparr>book_ffnagents := t\<rparr>) (cs_transport s)"
    using ok by (simp add: ctrl_ok_def tables_ok_def book_ok_def)
  moreover have "generation_scope_ok config ((cs_registrations s)\<lparr>book_ffnagents := t\<rparr>) (cs_fabric s) (cs_policy s)
      (cs_serving s) (cs_closed s)"
    by (rule scope_book [OF ctrl_okD(4) [OF ok]]) simp
  ultimately show "ctrl_ok config (snd (on_ffnagents (commit_heartbeat device r now) s))"
    using ok by (simp add: on_ffnagents_def t_def ctrl_ok_def case_prod_unfold)
qed

lemma heartbeat_instance_section_keeps: "keeps (ctrl_ok config) (on_instances (commit_heartbeat i r now))"
proof (rule keepsI)
  fix s
  assume ok: "ctrl_ok config s"
  define t where "t = snd (commit_heartbeat i r now (book_instances (cs_registrations s)))"
  have keys: "set (dict_keys t) = set (dict_keys (book_instances (cs_registrations s)))"
    unfolding t_def by (rule heartbeat_keys)
  have "table_ok reg_instance t" using instance_table.heartbeat_ok ctrl_okD(1) [OF ok] by (simp add: t_def book_ok_def)
  then have "tables_ok ((cs_registrations s)\<lparr>book_instances := t\<rparr>) (cs_transport s)"
    using ctrl_okD(2,3) [OF ok] by (intro tables_with_instances [OF ok]) (simp_all add: keys del: set_map)
  moreover have "generation_scope_ok config ((cs_registrations s)\<lparr>book_instances := t\<rparr>) (cs_fabric s) (cs_policy s)
      (cs_serving s) (cs_closed s)"
    by (rule scope_book [OF ctrl_okD(4) [OF ok]]) (simp add: keys del: set_map)
  ultimately show "ctrl_ok config (snd (on_instances (commit_heartbeat i r now) s))"
    using ok by (simp add: on_instances_def t_def ctrl_ok_def case_prod_unfold)
qed

lemma watchdog_mark_keeps: "keeps (ctrl_ok config) (watchdog_mark marks)"
  unfolding watchdog_mark_def
proof (rule hoare_modify)
  fix s
  assume ok: "ctrl_ok config s"
  let ?book = "(cs_registrations s)\<lparr>book_atnagents := write_alive marks (book_atnagents (cs_registrations s)),
      book_ffnagents := write_alive marks (book_ffnagents (cs_registrations s)),
      book_instances := write_alive marks (book_instances (cs_registrations s))\<rparr>"
  have "book_ok ?book"
    using ctrl_okD(1) [OF ok] atnagent_table.write_alive_ok ffnagent_table.write_alive_ok instance_table.write_alive_ok
    by (simp add: book_ok_def)
  moreover have "write_alive marks (book_ffnagents (cs_registrations s)) \<noteq> [] \<longleftrightarrow> book_ffnagents (cs_registrations s) \<noteq> []"
    by (simp add: write_alive_def)
  ultimately have "tables_ok ?book (cs_transport s)"
    using ok by (simp add: ctrl_ok_def tables_ok_def write_alive_keys write_alive_proc del: set_map)
  moreover have "generation_scope_ok config ?book (cs_fabric s) (cs_policy s) (cs_serving s) (cs_closed s)"
    by (rule scope_book [OF ctrl_okD(4) [OF ok]]) (simp add: write_alive_keys del: set_map)
  ultimately show "ctrl_ok config (s\<lparr>cs_registrations := ?book\<rparr>)" using ok by (simp add: ctrl_ok_def)
qed

subsection \<open>The watchdog\<close>

text \<open>An operation that is steady on every retained generation and leaves an empty controller empty.\<close>

definition steady_op :: "(fabric_controller, 'a) op \<Rightarrow> bool" where
  "steady_op m \<longleftrightarrow> (\<forall>g. steady g (snd (m (Some g)))) \<and> snd (m None) = None"

lemma steady_op_keeps: "steady_op m \<Longrightarrow> keeps (ctrl_ok config) (on_fabric m)"
  by (rule on_fabric_keeps) (simp_all add: steady_op_def)

lemma steady_opI: "(\<And>g. steady g (snd (m (Some g)))) \<Longrightarrow> snd (m None) = None \<Longrightarrow> steady_op m"
  by (simp add: steady_op_def)

lemma steady_op_bind:
  assumes "steady_op m" and "\<And>x. steady_op (f x)"
  shows "steady_op (bind m f)"
proof (rule steady_opI)
  fix g
  obtain r c where m: "m (Some g) = (r, c)" by force
  then have c: "steady g c" using assms(1) unfolding steady_op_def by (metis snd_conv)
  then obtain g' where "c = Some g'" by (auto simp: steady_def fine_def)
  with c m assms(2) show "steady g (snd (bind m f (Some g)))"
    unfolding steady_op_def by (cases r) (auto simp: bind_def intro: steady_trans)
next
  obtain r c where m: "m None = (r, c)" by force
  then have "c = None" using assms(1) by (simp add: steady_op_def)
  with m assms(2) show "snd (bind m f None) = None" unfolding steady_op_def by (cases r) (auto simp: bind_def)
qed

lemma watchdog_agents_steady: "steady_op (watchdog_agents alive now book)"
proof (rule steady_opI)
  show "steady g (snd (watchdog_agents alive now book (Some g)))" for g
    using steady_trans [OF record_owner_failure_steady abort_steady]
    by (auto simp: watchdog_agents_def ret_def raise_def split: sum.splits option.splits)
qed (simp add: watchdog_agents_def ret_def)

lemma watchdog_ranks_steady: "steady_op (watchdog_ranks alive now book transport)"
proof (rule steady_opI)
  show "steady g (snd (watchdog_ranks alive now book transport (Some g)))" for g
    using steady_trans [OF record_owner_failure_steady quiesce_steady]
    by (auto simp: watchdog_ranks_def ret_def split: option.splits)
qed (simp add: watchdog_ranks_def ret_def)

lemma watchdog_timeouts_steady: "steady_op (watchdog_timeouts config now)"
proof (rule steady_opI)
  show "steady g (snd (watchdog_timeouts config now (Some g)))" for g
    by (simp add: watchdog_timeouts_def ret_def fail_control_steady split: option.splits)
qed (simp add: watchdog_timeouts_def ret_def)

lemma watchdog_stop_steady: "steady_op (watchdog_stop alive now)"
proof (rule steady_opI)
  show "steady g (snd (watchdog_stop alive now (Some g)))" for g
  proof (cases "gs_phase g = Gen_ABORTING")
    case True
    then have "barrier_step (pe_count g) (barrier_abs g) (Gen_STOPPED, snd (barrier_abs g))"
      unfolding barrier_abs_def by (auto intro: barrier_step.retire)
    then have "fine g (snd (on_generation (transition Gen_STOPPED now) g))" by (rule transition_fine) auto
    then have "steady g (snd (on_generation (transition Gen_STOPPED now) g))"
      by (rule same_initialized_steady) (metis prod.collapse transition_initialized)
    then show ?thesis by (simp add: watchdog_stop_def ret_def)
  qed (simp add: watchdog_stop_def ret_def)
qed (simp add: watchdog_stop_def ret_def)

lemma reconcile_steady: "steady_op (reconcile config alive now book transport)"
  unfolding reconcile_def
  by (intro steady_op_bind watchdog_agents_steady watchdog_ranks_steady watchdog_timeouts_steady watchdog_stop_steady)

lemma watchdog_reconcile_keeps: "keeps (ctrl_ok config) (watchdog_reconcile cfg alive now captured)"
proof (rule keepsI)
  fix s
  assume ok: "ctrl_ok config s"
  have "keeps (ctrl_ok config) (bind (on_fabric (reconcile cfg alive now (cs_registrations s) (cs_transport s))) (\<lambda>_. ret True))"
    by (intro bind_keeps steady_op_keeps reconcile_steady) simp
  from keeps_snd [OF this ok] show "ctrl_ok config (snd (watchdog_reconcile cfg alive now captured s))"
    using ok by (simp add: watchdog_reconcile_def ret_def)
qed

subsection \<open>Arenas and leases\<close>

text \<open>A validated batch names every rank and every handle once, all on the publishing device.\<close>

lemma collect_arenas_batch:
  assumes "collect_arenas config book device seen seen_handles bindings = Inr ps"
  shows "distinct (map pub_instance ps) \<and> distinct (map pub_handle ps)
     \<and> set (map pub_instance ps) \<inter> set seen = {} \<and> set (map pub_handle ps) \<inter> set seen_handles = {}
     \<and> (\<forall>p\<in>set ps. 0 \<le> iri_rank (pub_instance p) \<and> iri_rank (pub_instance p) < atn_world_size config
          \<and> atn_devices (cfg_atn config) ! nat (iri_rank (pub_instance p)) = device
          \<and> (\<exists>r. dict_get (book_instances book) (pub_instance p) = Some r \<and> pub_transport p = reg_transport r))"
  using assms
proof (induction bindings arbitrary: seen seen_handles ps)
  case (Cons binding bindings)
  let ?i = "\<lparr>iri_model_id = ab_model_id binding, iri_rank = ab_rank binding\<rparr>"
  obtain r rest where r: "query ?i (book_instances book) = Some r"
    and rest: "collect_arenas config book device (?i # seen) (ab_handle binding # seen_handles) bindings = Inr rest"
    and ps: "ps = \<lparr>pub_instance = ?i, pub_handle = ab_handle binding, pub_transport = reg_transport r\<rparr> # rest"
    and new: "?i \<notin> set seen" "ab_handle binding \<notin> set seen_handles"
    and rank: "0 \<le> ab_rank binding" "ab_rank binding < atn_world_size config"
      "atn_devices (cfg_atn config) ! nat (ab_rank binding) = device"
    using Cons.prems
    by (auto simp: Let_def rbind_Inr_iff validate_instance_rank_def index_at_def split: if_splits option.splits)
  from Cons.IH [OF rest] show ?case using new r rank unfolding ps by (auto simp: query_def)
qed simp

lemma publish_owner:
  "map_option ts_owner (dict_get (tb_atnagents (snd (publish device owner ps b))) d) = map_option ts_owner (dict_get (tb_atnagents b) d)"
  "tb_leases (snd (publish device owner ps b)) = tb_leases b"
  by (auto simp: publish_def require_owner_def ret_def raise_def Let_def split: sum.splits option.splits if_splits)

lemma quiesce_leases_owner:
  "map_option ts_owner (dict_get (tb_atnagents (snd (quiesce_leases device owner b))) d) = map_option ts_owner (dict_get (tb_atnagents b) d)"
  "tb_leases (snd (quiesce_leases device owner b)) = tb_leases b"
  by (auto simp: quiesce_leases_def require_owner_def ret_def raise_def split: option.splits)

lemma on_transport_keeps:
  assumes "ctrl_ok config s" and "broker_ok (snd (m (cs_transport s)))"
    and "\<And>d. map_option ts_owner (dict_get (tb_atnagents (snd (m (cs_transport s)))) d)
          = map_option ts_owner (dict_get (tb_atnagents (cs_transport s)) d)"
    and "set (dict_keys (tb_leases (snd (m (cs_transport s))))) \<subseteq> set (dict_keys (book_instances (cs_registrations s)))"
  shows "ctrl_ok config (snd (on_transport m s))"
  using assms by (simp add: on_transport_def ctrl_ok_def tables_ok_def case_prod_unfold)

lemma arenas_commit_keeps: "keeps (ctrl_ok config) (arenas_commit cfg device bindings registration)"
proof -
  have publish: "keeps (ctrl_ok config) (on_transport (publish device owner ps))" if "batch_ok ps" for owner ps
  proof (rule keepsI)
    fix s
    assume ok: "ctrl_ok config s"
    show "ctrl_ok config (snd (on_transport (publish device owner ps) s))"
      by (rule on_transport_keeps [OF ok])
         (use ctrl_okD(2,3) [OF ok] that in \<open>simp_all add: publish_ok publish_owner del: set_map\<close>)
  qed
  have validated: "hoare (ctrl_ok config) (reading (\<lambda>s. validate_atnagent_transport_arenas cfg (cs_registrations s) device bindings))
      (\<lambda>ps s. ctrl_ok config s \<and> batch_ok ps) (\<lambda>_. ctrl_ok config)"
    by (rule hoare_reading)
       (auto simp: validate_atnagent_transport_arenas_def batch_ok_def dest: collect_arenas_batch)
  show ?thesis unfolding arenas_commit_def
  proof (intro hoare_bind [OF guard_not_keeps] hoare_bind [OF validated])
    show "hoare (\<lambda>s. ctrl_ok config s \<and> batch_ok ps) (on_transport (publish device (reg_proc registration) ps))
        (\<lambda>_. ctrl_ok config) (\<lambda>_. ctrl_ok config)" for ps
      using publish [of ps "reg_proc registration"] by (cases "batch_ok ps") (simp_all add: hoare_def)
  qed
qed

lemma lease_quiesce_commit_keeps: "keeps (ctrl_ok config) (lease_quiesce_commit device registration)"
proof -
  have "keeps (ctrl_ok config) (on_transport (quiesce_leases device owner))" for owner
  proof (rule keepsI)
    fix s
    assume ok: "ctrl_ok config s"
    show "ctrl_ok config (snd (on_transport (quiesce_leases device owner) s))"
      by (rule on_transport_keeps [OF ok])
         (use ctrl_okD(2,3) [OF ok] in \<open>simp_all add: quiesce_leases_ok quiesce_leases_owner del: set_map\<close>)
  qed
  then show ?thesis unfolding lease_quiesce_commit_def by (intro bind_keeps) simp_all
qed

text \<open>What a granted lease rests on.\<close>

lemma lease_commit_returns:
  assumes "lease_commit now device i captured captured_atn s = (Inr handle, s')"
  obtains r a g p where "query i (book_instances (cs_registrations s)) = Some r" and "reg_oid r = reg_oid captured"
    and "query device (book_atnagents (cs_registrations s)) = Some a" and "reg_oid a = reg_oid captured_atn"
    and "readiness_status now r = ONLINE" and "readiness_status now a = ONLINE"
    and "cs_fabric s = Some g" and "gs_phase g = Gen_EXECUTABLE" and "dict_get (gs_instance_owners g) i = Some (reg_proc r)"
    and "publication device i (reg_proc a) (cs_transport s) = Inr p" and "pub_transport p = reg_transport r"
    and "handle = pub_handle p"
    and "acquire i \<lparr>lease_device = device, lease_handle = handle, lease_publisher = reg_proc a\<rparr> (cs_transport s)
           = (Inr (), cs_transport s')"
    and "s' = s\<lparr>cs_transport := cs_transport s'\<rparr>"
proof -
  let ?r = "query i (book_instances (cs_registrations s))" and ?a = "query device (book_atnagents (cs_registrations s))"
  obtain r a where r: "?r = Some r" "reg_oid r = reg_oid captured" and a: "?a = Some a" "reg_oid a = reg_oid captured_atn"
    using assms by (auto simp: lease_commit_def same_object_def Let_def raise_def split: if_splits option.splits)
  have checks: "same_object ?r (Some captured)" "same_object ?a (Some captured_atn)"
    using r a by (simp_all add: same_object_def)
  obtain p where p: "require_online now r = Inr ()" "require_online now a = Inr ()"
      "lease_fabric_check (cs_fabric s) r i = Inr ()" "publication device i (reg_proc a) (cs_transport s) = Inr p"
      "pub_transport p = reg_transport r"
    and acq: "bind (on_transport (acquire i \<lparr>lease_device = device, lease_handle = pub_handle p, lease_publisher = reg_proc a\<rparr>))
        (\<lambda>_. ret (pub_handle p)) s = (Inr handle, s')"
    using assms checks unfolding lease_commit_def Let_def r(1) a(1)
    by (auto simp: raise_def rbind_Inr_iff split: sum.splits if_splits)
  have online: "readiness_status now r = ONLINE" "readiness_status now a = ONLINE"
    using p(1,2) by (auto simp: require_online_def split: readiness_status.splits)
  obtain g where g: "cs_fabric s = Some g" "gs_phase g = Gen_EXECUTABLE" "dict_get (gs_instance_owners g) i = Some (reg_proc r)"
    using p(3) by (auto simp: lease_fabric_check_def split: option.splits if_splits)
  obtain b where b: "acquire i \<lparr>lease_device = device, lease_handle = pub_handle p, lease_publisher = reg_proc a\<rparr> (cs_transport s) = (Inr (), b)"
      and s': "handle = pub_handle p" "s' = s\<lparr>cs_transport := b\<rparr>"
    using acq by (auto simp: bind_def on_transport_def ret_def split: prod.splits sum.splits)
  show thesis by (rule that [OF r a online g p(4,5) s'(1)]) (use b s' in simp_all)
qed

lemma lease_commit_raises: "lease_commit now device i captured captured_atn s = (Inl e, s') \<Longrightarrow> s' = s"
proof -
  have "b = cs_transport s" if "acquire i lease (cs_transport s) = (Inl e, b)" for lease b e
    using that by (auto simp: acquire_def ret_def raise_def split: option.splits if_splits)
  then show "lease_commit now device i captured captured_atn s = (Inl e, s') \<Longrightarrow> s' = s"
    by (auto simp: lease_commit_def Let_def raise_def bind_def on_transport_def ret_def
          split: if_splits option.splits sum.splits prod.splits)
qed

lemma acquire_leases:
  "acquire i lease b = (r, b') \<Longrightarrow> tb_atnagents b' = tb_atnagents b \<and>
     set (dict_keys (tb_leases b')) \<subseteq> insert i (set (dict_keys (tb_leases b)))"
  by (auto simp: acquire_def ret_def raise_def dict_keys_set subset_insertI simp del: set_map split: option.splits if_splits)

lemma lease_commit_keeps: "keeps (ctrl_ok config) (lease_commit now device i captured captured_atn)"
proof (rule hoareI)
  fix s handle s'
  assume ok: "ctrl_ok config s" and ret: "lease_commit now device i captured captured_atn s = (Inr handle, s')"
  from ret show "ctrl_ok config s'"
  proof (rule lease_commit_returns)
    fix r a g p
    assume r: "query i (book_instances (cs_registrations s)) = Some r"
      and acq: "acquire i \<lparr>lease_device = device, lease_handle = handle, lease_publisher = reg_proc a\<rparr> (cs_transport s)
           = (Inr (), cs_transport s')"
      and s': "s' = s\<lparr>cs_transport := cs_transport s'\<rparr>"
    let ?m = "acquire i \<lparr>lease_device = device, lease_handle = handle, lease_publisher = reg_proc a\<rparr>"
    have "i \<in> set (dict_keys (book_instances (cs_registrations s)))" using r by (force simp: query_def dest: map_of_SomeD)
    with acquire_leases [OF acq] ctrl_okD(3) [OF ok]
    have "set (dict_keys (tb_leases (cs_transport s'))) \<subseteq> set (dict_keys (book_instances (cs_registrations s)))" by blast
    moreover have "broker_ok (cs_transport s')" using acquire_ok [OF ctrl_okD(2) [OF ok], of i] acq by (metis snd_conv)
    ultimately have "ctrl_ok config (snd (on_transport ?m s))"
      using acquire_leases [OF acq] by (intro on_transport_keeps [OF ok]) (simp_all add: acq del: set_map)
    then show "ctrl_ok config s'" using s' acq by (simp add: on_transport_def)
  qed
qed (use lease_commit_raises in blast)

subsection \<open>Installing a generation and completing shutdown\<close>

lemma dict_set_new: "k \<notin> set (dict_keys d) \<Longrightarrow> dict_set k v d = d @ [(k, v)]"
  by (induction d) auto

lemma dict_of_append: "distinct (dict_keys kvs) \<Longrightarrow> set (dict_keys d) \<inter> set (dict_keys kvs) = {} \<Longrightarrow> dict_of kvs d = d @ kvs"
proof (induction kvs d rule: dict_of.induct)
  case (2 k v kvs d)
  then have "dict_set k v d = d @ [(k, v)]" by (intro dict_set_new) auto
  with 2 show ?case by auto
qed simp

lemma captured_owner_keys:
  assumes "book_ok book" and "capture_membership config book revision = Inr (Some m)"
  shows "dict_keys (dict_of (fm_agent_owners m) []) = map int [0..<length (membership_placements config)]"
    and "set (dict_keys (dict_of (fm_instance_owners m) [])) = set (concat (map (rank_ids config) (map cfg_id (cfg_models config))))"
proof -
  have keys: "dict_keys (fm_agent_owners m) = map int [0..<length (membership_placements config)]"
    using captured_agent_owner [OF assms] by (auto intro!: nth_equalityI)
  then have "dict_of (fm_agent_owners m) [] = fm_agent_owners m"
    by (subst dict_of_append) (simp_all add: distinct_map)
  with keys show "dict_keys (dict_of (fm_agent_owners m) []) = map int [0..<length (membership_placements config)]" by simp
  have sets: "set (dict_keys (dict_of kvs d)) = set (dict_keys kvs) \<union> set (dict_keys d)"
    for kvs d :: "(instance_rank_id \<times> proc_uniq_id) list"
    by (induction kvs d rule: dict_of.induct) (auto simp: dict_keys_set simp del: set_map)
  show "set (dict_keys (dict_of (fm_instance_owners m) [])) = set (concat (map (rank_ids config) (map cfg_id (cfg_models config))))"
    using captured_instance_owners [OF assms] unfolding sets by auto
qed

text \<open>A candidate plan that formation could have produced from registrations of an earlier state.\<close>

definition formed :: "xpool_config \<Rightarrow> placement_solver \<Rightarrow> formation \<Rightarrow> registration_book \<Rightarrow> nat \<Rightarrow> fabric_membership
    \<Rightarrow> fabric_deployment_plan \<Rightarrow> capacity_policy \<Rightarrow> bool" where
  "formed config place_ffn_models fo book revision membership plan policy \<longleftrightarrow>
     capture_membership config book revision = Inr (Some membership)
     \<and> form_plan config place_ffn_models fo membership = Inr (Some (plan, policy))"

lemma formed_placements:
  assumes "formed config place fo book revision membership plan policy"
  shows "pe_placements plan = fm_pe_placements membership" and "instance_plans plan = fm_instance_plans membership"
  using assms by (auto simp: formed_def form_plan_def rbind_Inr_iff FabricDeploymentPlan_def split: if_splits)

lemma fresh_scope:
  assumes "formed config place fo book0 revision membership plan policy" and "book_ok book0"
  shows "generation_scope_ok config book
     (Some (FabricGenerationState oid plan now (dict_of (fm_agent_owners membership) []) (dict_of (fm_instance_owners membership) [])))
     (Some policy) (ServingStartupState (Some (fp_generation plan))) is_closed"
proof -
  have capture: "capture_membership config book0 revision = Inr (Some membership)" using assms(1) by (simp add: formed_def)
  have "pe_placements plan = membership_placements config"
    using formed_placements [OF assms(1)] captured_instance_owners [OF assms(2) capture] by simp
  then show ?thesis
    using captured_owner_keys [OF assms(2) capture] fresh_generation_ok
    by (simp add: generation_scope_ok_def owners_complete_def FabricGenerationState_def pe_count_def ServingStartupState_def
          del: set_map set_concat)
qed

lemma install_commit_keeps:
  assumes "formed config place fo book0 revision membership plan policy" and "book_ok book0"
  shows "keeps (ctrl_ok config) (install_commit fo membership plan policy)"
proof (rule keepsI)
  fix s
  assume ok: "ctrl_ok config s"
  let ?g = "FabricGenerationState (fo_oid fo) plan (fo_now fo) (dict_of (fm_agent_owners membership) [])
     (dict_of (fm_instance_owners membership) [])"
  have plan: "gs_plan ?g = plan" by (simp add: FabricGenerationState_def)
  have "ctrl_ok config (s\<lparr>cs_fabric := Some ?g, cs_policy := Some policy,
      cs_serving := ServingStartupState (Some (fp_generation plan))\<rparr>)"
    using ok fresh_scope [OF assms, of "cs_registrations s" "fo_oid fo" "fo_now fo" "cs_closed s"] by (simp add: ctrl_ok_def)
  then show "ctrl_ok config (snd (install_commit fo membership plan policy s))"
    using ok plan
    by (simp add: install_commit_def bind_def on_fabric_def install_generation_def modify_def ret_def split: option.splits)
qed

lemma close_complete_keeps:
  "hoare (\<lambda>s. ctrl_ok config s \<and> cs_admission_closed s) close_complete (\<lambda>_. ctrl_ok config) (\<lambda>_. ctrl_ok config)"
  unfolding close_complete_def
proof (rule hoare_modify)
  fix s
  assume "ctrl_ok config s \<and> cs_admission_closed s"
  then show "ctrl_ok config (s\<lparr>cs_policy := None, cs_closed := True\<rparr>)"
    by (cases "cs_fabric s") (auto simp: ctrl_ok_def shutdown_ok_def generation_scope_ok_def simp del: set_map)
qed

end
