(* ===== verification/Control_Traces.thy ===== *)
theory Control_Traces
  imports Control_Sections
begin

section \<open>Interleavings of the control plane\<close>

text \<open>
  Handlers run on the threads of the HTTP server beside the watchdog, the capacity stepper and the signal
  handler; the domain lock makes their sections atomic. A trace is a sequence of sections of any handlers
  in any order: it keeps every state so far, newest first, so that a section may use what its handler
  captured in some earlier state. What a section relies on from the lock-free part before it (validated
  input, captured objects, fresh object identities) is the condition under which it may occur.
\<close>

datatype control_event =
    Start_Visibility "string list result"
  | Start_Scope nat
  | Start_Controller "unit result option"
  | Admit_Commit "proc_uniq_id \<Rightarrow> bool" agent_startup_admission mps_scope fabric_controller proc_uniq_id
  | Store_Mps real "bool option"
  | Warnings real
  | Retire fabric_generation_state "proc_uniq_id \<Rightarrow> bool"
  | Install formation fabric_membership fabric_deployment_plan capacity_policy
  | Capacity_Step channel_reads real
  | Agent_Check fabric_role int proc_uniq_id real
  | Atnagent_Commit atnagent_registration_state "atnagent_registration_state option" bool
  | Ffnagent_Commit ffnagent_registration_state "ffn_model_spec list" "ffnagent_registration_state option" bool
  | Instance_Check instance_rank_registration_state real
  | Instance_Commit instance_rank_registration_state "instance_rank_registration_state option" bool
  | Deregister instance_rank_id instance_rank_registration_state real
  | Begin_Close "real option" real
  | Close_Quiesce fabric_controller real real
  | Close_Complete
  | Quiesce_Request fabric_quiesce_request real
  | Participant_Report "proc_uniq_id \<Rightarrow> bool" fabric_participant_report real
  | Rank_Initialized instance_rank_registration_state instance_rank_initialized_publication instance_rank_id
  | Heartbeat_Atnagent int atnagent_registration_state real
  | Heartbeat_Ffnagent int ffnagent_registration_state real
  | Heartbeat_Instance instance_rank_id instance_rank_registration_state real
  | Watchdog_Mark "(nat \<times> bool) list"
  | Watchdog_Reconcile "proc_uniq_id \<Rightarrow> bool" real fabric_controller
  | Publish_Arenas int "arena_binding list" atnagent_registration_state
  | Lease_Quiesce int atnagent_registration_state
  | Lease_Acquire real int instance_rank_id instance_rank_registration_state atnagent_registration_state
  | Confirm_Health serving_health_targets

fun event_step :: "xpool_config \<Rightarrow> control_event \<Rightarrow> control_state \<Rightarrow> control_state" where
  "event_step config (Start_Visibility uuids) s = snd (start_visibility config uuids s)"
| "event_step config (Start_Scope oid) s = snd (start_scope oid s)"
| "event_step config (Start_Controller started) s = snd (start_controller started s)"
| "event_step config (Admit_Commit alive request scope fabric identity) s = snd (admit_commit alive request scope fabric identity s)"
| "event_step config (Store_Mps now result) s = snd (store_mps_status now result s)"
| "event_step config (Warnings now) s = snd (global_warnings config now s)"
| "event_step config (Retire g alive) s = snd (retire_commit g (\<exists>owner\<in>set (generation_owners g). alive owner) s)"
| "event_step config (Install fo membership plan policy) s = snd (install_commit fo membership plan policy s)"
| "event_step config (Capacity_Step reads now) s = snd (step_context_state_capacity config reads now s)"
| "event_step config (Agent_Check role device proc now) s = snd (agent_register_check role device proc now s)"
| "event_step config (Atnagent_Commit r existing alive) s = snd (atnagent_commit r existing alive s)"
| "event_step config (Ffnagent_Commit r specs existing alive) s = snd (ffnagent_commit r specs existing alive s)"
| "event_step config (Instance_Check r now) s = snd (instance_register_check r now s)"
| "event_step config (Instance_Commit r existing alive) s = snd (instance_commit r existing alive s)"
| "event_step config (Deregister i r now) s = snd (deregister_commit i r now s)"
| "event_step config (Begin_Close deadline now) s = snd (begin_close deadline now s)"
| "event_step config (Close_Quiesce fabric now deadline) s = snd (close_quiesce fabric now deadline s)"
| "event_step config Close_Complete s = snd (close_complete s)"
| "event_step config (Quiesce_Request request now) s = snd (request_fabric_quiesce request now s)"
| "event_step config (Participant_Report alive report now) s = snd (record_fabric_participant alive report now s)"
| "event_step config (Rank_Initialized r ready i) s = snd (initialized_commit r ready i s)"
| "event_step config (Heartbeat_Atnagent device r now) s = snd (on_atnagents (commit_heartbeat device r now) s)"
| "event_step config (Heartbeat_Ffnagent device r now) s = snd (on_ffnagents (commit_heartbeat device r now) s)"
| "event_step config (Heartbeat_Instance i r now) s = snd (on_instances (commit_heartbeat i r now) s)"
| "event_step config (Watchdog_Mark marks) s = snd (watchdog_mark marks s)"
| "event_step config (Watchdog_Reconcile alive now captured) s = snd (watchdog_reconcile config alive now captured s)"
| "event_step config (Publish_Arenas device bindings r) s = snd (arenas_commit config device bindings r s)"
| "event_step config (Lease_Quiesce device r) s = snd (lease_quiesce_commit device r s)"
| "event_step config (Lease_Acquire now device i r a) s = snd (lease_commit now device i r a s)"
| "event_step config (Confirm_Health targets) s = snd (confirm_serving_health config targets s)"

text \<open>
  The conditions. A generation offered for retirement was captured as terminal; a candidate plan was formed from the registrations of an earlier state and its
  generation object is new; an initialized rank is a validated, captured registration; reports passed the
  wire validation; cleanup completes only after admission was closed.
\<close>

fun event_enabled :: "xpool_config \<Rightarrow> placement_solver \<Rightarrow> control_state list \<Rightarrow> control_event \<Rightarrow> bool" where
  "event_enabled config place history (Retire g alive) \<longleftrightarrow> (\<exists>s0\<in>set history. terminal_generation s0 = Some g)"
| "event_enabled config place history (Install fo membership plan policy) \<longleftrightarrow>
     (\<exists>s0\<in>set history. formed config place fo (cs_registrations s0) (cs_revision s0) membership plan policy)
     \<and> (\<forall>s0\<in>set history. \<forall>g. cs_fabric s0 = Some g \<longrightarrow> gs_oid g \<noteq> fo_oid fo)"
| "event_enabled config place history (Rank_Initialized r ready i) \<longleftrightarrow>
     (\<exists>s0\<in>set history. query i (book_instances (cs_registrations s0)) = Some r)
     \<and> validate_instance_rank config (iri_model_id i) (iri_rank i) = Inr ()"
| "event_enabled config place history (Participant_Report alive report now) \<longleftrightarrow> report_fields_ok report"
| "event_enabled config place history Close_Complete \<longleftrightarrow> (\<exists>s0\<in>set history. cs_admission_closed s0)"
| "event_enabled config place history _ \<longleftrightarrow> True"

inductive trace :: "xpool_config \<Rightarrow> placement_solver \<Rightarrow> control_state list \<Rightarrow> bool"
  for config :: xpool_config and place :: placement_solver where
  created: "trace config place [ControlPlane]"
| atomic_section: "trace config place (s # history) \<Longrightarrow> event_enabled config place (s # history) e \<Longrightarrow>
     trace config place (event_step config e s # s # history)"

inductive_cases trace_ConsE: "trace config place (s # history)"

subsection \<open>Invariants over traces\<close>

text \<open>Who is known to the daemon: the admitted Agent processes and the registered rank processes.\<close>

definition rank_objects :: "control_state \<Rightarrow> instance_rank_id \<Rightarrow> (nat \<times> proc_uniq_id) option" where
  "rank_objects s i = map_option (\<lambda>r. (reg_oid r, reg_proc r)) (dict_get (book_instances (cs_registrations s)) i)"

text \<open>After admission was closed: no process and no generation appears that was not there before.\<close>

definition sealed :: "control_state \<Rightarrow> control_state \<Rightarrow> bool" where
  "sealed s0 s \<longleftrightarrow> agent_startups (cs_registrations s) = agent_startups (cs_registrations s0)
     \<and> (\<forall>i. rank_objects s i \<noteq> None \<longrightarrow> rank_objects s i = rank_objects s0 i)
     \<and> (cs_fabric s \<noteq> None \<longrightarrow> map_option gs_oid (cs_fabric s) = map_option gs_oid (cs_fabric s0))"

text \<open>
  What connects the newest state with an earlier one: closed admission stays closed and seals the roster, the
  first cleanup deadline stays, and a generation object that is still retained has evolved along its lifecycle.
\<close>

definition follows :: "control_state \<Rightarrow> control_state \<Rightarrow> bool" where
  "follows s0 s \<longleftrightarrow> (cs_admission_closed s0 \<longrightarrow> cs_admission_closed s \<and> sealed s0 s)
     \<and> (cs_cleanup_deadline s0 \<noteq> None \<longrightarrow> cs_cleanup_deadline s = cs_cleanup_deadline s0)
     \<and> (\<forall>g0 g. cs_fabric s0 = Some g0 \<longrightarrow> cs_fabric s = Some g \<longrightarrow> gs_oid g = gs_oid g0 \<longrightarrow> evolves g0 g)"

lemma validated_model: "validate_instance_rank config m rank = Inr () \<Longrightarrow> m \<in> set (map cfg_id (cfg_models config))"
proof -
  assume "validate_instance_rank config m rank = Inr ()"
  then obtain inst where inst: "dict_get (instance_by_model_id config) m = Some inst"
    by (auto simp: validate_instance_rank_def split: if_splits)
  have "m \<in> set (map inst_model_id (config_instances config))"
    using inst by (force simp: instance_by_model_id_def map_of_dict_of dest: map_of_SomeD split: option.splits)
  then show ?thesis unfolding config_instances_ids .
qed

lemmas section_keeps =
  start_visibility_keeps start_scope_keeps start_controller_keeps admit_commit_keeps store_mps_status_keeps
  global_warnings_keeps retire_commit_keeps step_context_state_capacity_keeps agent_register_check_keeps
  atnagent_commit_keeps ffnagent_commit_keeps instance_register_check_keeps instance_commit_keeps
  deregister_commit_keeps begin_close_keeps close_quiesce_keeps request_fabric_quiesce_keeps
  record_fabric_participant_keeps heartbeat_atnagent_section_keeps heartbeat_ffnagent_section_keeps
  heartbeat_instance_section_keeps watchdog_mark_keeps watchdog_reconcile_keeps arenas_commit_keeps
  lease_quiesce_commit_keeps lease_commit_keeps confirm_serving_health_keeps

lemma event_keeps:
  assumes "ctrl_ok config s" and "event_enabled config place (s # history) e"
    and "\<forall>s0\<in>set (s # history). ctrl_ok config s0 \<and> follows s0 s"
  shows "ctrl_ok config (event_step config e s)"
proof (cases e)
  case (Install fo membership plan policy)
  then obtain s0 where s0: "s0 \<in> set (s # history)"
    and formed: "formed config place fo (cs_registrations s0) (cs_revision s0) membership plan policy"
    using assms(2) by (auto simp only: event_enabled.simps)
  then show ?thesis
    using keeps_snd [OF install_commit_keeps [OF formed] assms(1)] assms(3) ctrl_okD(1) [of config s0] Install by simp
next
  case (Rank_Initialized r ready i)
  then obtain s0 where s0: "s0 \<in> set (s # history)" "query i (book_instances (cs_registrations s0)) = Some r"
    and rank: "validate_instance_rank config (iri_model_id i) (iri_rank i) = Inr ()"
    using assms(2) by (auto simp only: event_enabled.simps)
  have "ctrl_ok config s0" using s0(1) assms(3) by blast
  then have "reg_instance r = i"
    using s0(2) ctrl_okD(1) [of config s0] table_ok_get by (fastforce simp: book_ok_def query_def)
  with keeps_snd [OF initialized_commit_keeps [OF _ validated_model [OF rank]] assms(1)] Rank_Initialized
  show ?thesis by simp
next
  case Close_Complete
  then have "cs_admission_closed s" using assms(2,3) by (auto simp: follows_def)
  with Close_Complete show ?thesis
    using assms(1) hoare_returns [OF close_complete_keeps [of config]] by (auto simp: close_complete_def modify_def)
next
  case (Participant_Report alive report now)
  then show ?thesis using assms(1,2) keeps_snd [OF record_fabric_participant_keeps] by simp
qed (simp_all add: section_keeps [THEN keeps_snd] assms(1))

subsection \<open>What sections leave alone\<close>

definition frame :: "('s \<Rightarrow> 'b) \<Rightarrow> ('s, 'a) op \<Rightarrow> bool" where
  "frame F m \<longleftrightarrow> (\<forall>s. F (snd (m s)) = F s)"

lemma frameD: "frame F m \<Longrightarrow> F (snd (m s)) = F s"
  by (simp add: frame_def)

lemma frame_bind:
  assumes "frame F m" and "\<And>x. frame F (f x)"
  shows "frame F (bind m f)"
  unfolding frame_def
proof
  fix s
  obtain r s' where m: "m s = (r, s')" by force
  then have "F s' = F s" using frameD [OF assms(1), of s] by simp
  then show "F (snd (bind m f s)) = F s" using m frameD [OF assms(2)] by (cases r) (simp_all add: bind_def)
qed

lemma frame_basic [simp]:
  "frame F (ret x)" "frame F (raise e)" "frame F (reading f)" "frame F (lift_result r)" "frame F get_state" "frame F (guard_not c e)"
  "frame F (query_atnagent device)" "frame F (query_ffnagent device)" "frame F (query_instance i)"
  by (simp_all add: frame_def ret_def raise_def reading_def lift_result_def get_state_def guard_not_def query_atnagent_def
        query_ffnagent_def query_instance_def)

lemma frame_modify: "(\<And>s. F (f s) = F s) \<Longrightarrow> frame F (modify f)"
  by (simp add: frame_def modify_def)

lemma frame_if: "(b \<Longrightarrow> frame F m) \<Longrightarrow> (\<not> b \<Longrightarrow> frame F m') \<Longrightarrow> frame F (if b then m else m')"
  by simp

abbreviation admission :: "control_state \<Rightarrow> bool \<times> real option" where
  "admission s \<equiv> (cs_admission_closed s, cs_cleanup_deadline s)"

lemma frame_calls [simp]:
  "frame admission (on_fabric m1)" "frame admission (on_transport m2)" "frame admission (on_instances m3)"
  "frame admission (on_atnagents m4)" "frame admission (on_ffnagents m5)" "frame admission bump_revision"
  "frame cs_fabric (on_transport m2)" "frame cs_fabric (on_instances m3)"
  "frame cs_fabric (on_atnagents m4)" "frame cs_fabric (on_ffnagents m5)" "frame cs_fabric bump_revision"
  by (simp_all add: frame_def on_fabric_def on_transport_def on_instances_def on_atnagents_def on_ffnagents_def
        bump_revision_def modify_def case_prod_unfold)

lemma frame_startup:
  "frame admission (start_visibility config uuids)" "frame cs_fabric (start_visibility config uuids)"
  "frame admission (start_scope oid)" "frame cs_fabric (start_scope oid)"
  "frame admission (start_controller started)" "frame cs_fabric (start_controller started)"
  "frame admission (admit_commit alive request scope fabric identity)"
  "frame cs_fabric (admit_commit alive request scope fabric identity)"
  "frame admission (store_mps_status now result)" "frame cs_fabric (store_mps_status now result)"
  "frame admission (global_warnings config now)" "frame cs_fabric (global_warnings config now)"
  by (auto simp: frame_def start_visibility_def start_scope_def start_controller_def admit_commit_def store_mps_status_def
        global_warnings_def ret_def raise_def modify_def lift_result_def Let_def split: sum.splits option.splits)

lemma frame_registration:
  "frame admission (atnagent_commit a ea alive)" "frame cs_fabric (atnagent_commit a ea alive)"
  "frame admission (ffnagent_commit f specs ef alive)" "frame cs_fabric (ffnagent_commit f specs ef alive)"
  "frame admission (instance_commit i ei alive)" "frame cs_fabric (instance_commit i ei alive)"
  unfolding atnagent_commit_def ffnagent_commit_def instance_commit_def
  by (auto intro!: frame_bind frame_modify split: option.split if_split_asm)

lemma frame_transport:
  "frame admission (arenas_commit config device bindings r)" "frame cs_fabric (arenas_commit config device bindings r)"
  "frame admission (lease_quiesce_commit device r)" "frame cs_fabric (lease_quiesce_commit device r)"
  "frame admission (watchdog_mark marks)" "frame cs_fabric (watchdog_mark marks)"
  unfolding arenas_commit_def lease_quiesce_commit_def watchdog_mark_def
  by (auto intro!: frame_bind frame_modify)

lemma lease_commit_state: "\<exists>b. snd (lease_commit now device i r a s) = s\<lparr>cs_transport := b\<rparr>"
proof (cases "lease_commit now device i r a s")
  case (Pair res s')
  show ?thesis
  proof (cases res)
    case (Inl e)
    with Pair have "s' = s" using lease_commit_raises by blast
    with Pair show ?thesis by (intro exI [of _ "cs_transport s"]) simp
  next
    case (Inr handle)
    from Pair [unfolded Inr] show ?thesis by (rule lease_commit_returns) (metis Pair snd_conv)
  qed
qed

lemma frame_lease_commit: "(\<And>s b. F (s\<lparr>cs_transport := b\<rparr>) = F s) \<Longrightarrow> frame F (lease_commit now device i r a)"
  unfolding frame_def by (metis lease_commit_state)

lemma frame_lease:
  "frame admission (lease_commit now device i r a)" "frame cs_fabric (lease_commit now device i r a)"
  by (rule frame_lease_commit, simp)+

subsection \<open>The retained generation only moves forward\<close>

definition fabric_step :: "fabric_controller \<Rightarrow> fabric_controller \<Rightarrow> bool" where
  "fabric_step c c' \<longleftrightarrow> (case c of None \<Rightarrow> c' = None | Some g \<Rightarrow> \<exists>g'. c' = Some g' \<and> evolves g g')"

lemma fabric_step_refl [simp]: "fabric_step c c"
  by (simp add: fabric_step_def split: option.splits)

lemma fabric_step_trans: "fabric_step a b \<Longrightarrow> fabric_step b c \<Longrightarrow> fabric_step a c"
  by (auto simp: fabric_step_def split: option.splits intro: evolves_trans)

definition evolving :: "(control_state, 'a) op \<Rightarrow> bool" where
  "evolving m \<longleftrightarrow> (\<forall>s. fabric_step (cs_fabric s) (cs_fabric (snd (m s))))"

lemma evolvingD: "evolving m \<Longrightarrow> fabric_step (cs_fabric s) (cs_fabric (snd (m s)))"
  by (simp add: evolving_def)

lemma evolving_at: "evolving m \<Longrightarrow> cs_fabric s = Some g \<Longrightarrow> fabric_step (Some g) (cs_fabric (snd (m s)))"
  by (metis evolvingD)

lemma frame_evolving: "frame cs_fabric m \<Longrightarrow> evolving m"
  by (simp add: frame_def evolving_def)

lemma evolving_bind:
  assumes "evolving m" and "\<And>x. evolving (f x)"
  shows "evolving (bind m f)"
  unfolding evolving_def
proof
  fix s
  obtain r s' where m: "m s = (r, s')" by force
  then have "fabric_step (cs_fabric s) (cs_fabric s')" using evolvingD [OF assms(1), of s] by simp
  then show "fabric_step (cs_fabric s) (cs_fabric (snd (bind m f s)))"
    using m by (cases r) (auto simp: bind_def intro: fabric_step_trans evolvingD [OF assms(2)])
qed

lemma evolving_on_fabric:
  assumes "\<And>g. fine g (snd (m (Some g)))" and "snd (m None) = None"
  shows "evolving (on_fabric m)"
  unfolding evolving_def
proof
  fix s
  show "fabric_step (cs_fabric s) (cs_fabric (snd (on_fabric m s)))"
  proof (cases "cs_fabric s")
    case None
    then show ?thesis using assms(2) by (simp add: fabric_step_def on_fabric_def case_prod_unfold)
  next
    case (Some g)
    then show ?thesis using assms(1) [of g] by (auto simp: fabric_step_def on_fabric_def fine_def case_prod_unfold)
  qed
qed

lemma steady_evolving: "steady_op m \<Longrightarrow> evolving (on_fabric m)"
  by (rule evolving_on_fabric) (simp_all add: steady_op_def steady_def)

lemma abort_steady_op: "steady_op (abort now)"
  by (rule steady_opI) (simp_all add: abort_steady)

lemma quiesce_steady_op: "steady_op (quiesce now)"
  by (rule steady_opI) (simp_all add: quiesce_steady)

lemma fail_owner_steady_op: "steady_op leave \<Longrightarrow> steady_op (fail_owner failure leave)"
  by (auto simp: steady_op_def fail_owner_Some fail_owner_None intro: steady_trans [OF record_owner_failure_steady])

lemma fail_control_steady_op: "steady_op (bind (on_retained (record_control_failure failure)) (\<lambda>_. abort now))"
  by (rule steady_opI) (simp_all add: fail_control_steady)

lemma reject_report_steady_op: "steady_op (reject_report (ch # message) now)"
  by (rule steady_opI) (simp_all add: reject_report_steady)

lemma agent_register_check_evolving: "evolving (agent_register_check role device proc now)"
proof -
  have "evolving (bind (on_fabric (fail_owner f (abort now))) (\<lambda>_. raise e))"
    for f e by (intro evolving_bind steady_evolving fail_owner_steady_op abort_steady_op frame_evolving) simp
  note failed = evolving_at [OF this, unfolded fail_owner_def]
  show ?thesis unfolding evolving_def
    by (auto simp: agent_register_check_def ret_def raise_def failed split: option.splits sum.splits)
qed

lemma instance_register_check_evolving: "evolving (instance_register_check registration now)"
proof -
  have "evolving (bind (on_fabric (fail_owner f (quiesce now))) (\<lambda>_. raise e))"
    for f e by (intro evolving_bind steady_evolving fail_owner_steady_op quiesce_steady_op frame_evolving) simp
  note failed = evolving_at [OF this, unfolded fail_owner_def]
  show ?thesis unfolding evolving_def
    by (auto simp: instance_register_check_def ret_def raise_def Let_def failed split: option.splits)
qed

lemma capacity_evolving: "evolving (step_context_state_capacity config reads now)"
proof -
  have "evolving (bind (on_fabric (bind (on_retained (record_control_failure f)) (\<lambda>_. abort now))) (\<lambda>_. raise e))" for f e
    by (intro evolving_bind steady_evolving fail_control_steady_op frame_evolving) simp
  note failed = evolving_at [OF this]
  show ?thesis unfolding evolving_def
    by (auto simp: step_context_state_capacity_def ret_def failed split: option.splits prod.splits sum.splits)
qed

lemma deregister_evolving: "evolving (deregister_commit i r now)"
  unfolding deregister_commit_def
proof (intro evolving_bind evolving_on_fabric)
  show "snd (instance_departed i f q now None) = None" for f q by (simp add: instance_departed_def ret_def)
qed (simp_all add: frame_evolving instance_departed_fine)

lemma close_quiesce_evolving: "evolving (close_quiesce fabric now deadline)"
  using evolvingD [OF steady_evolving [OF quiesce_steady_op]] by (auto simp: evolving_def close_quiesce_def ret_def)

lemma request_quiesce_evolving: "evolving (request_fabric_quiesce request now)"
  by (auto simp: evolving_at [OF steady_evolving [OF quiesce_steady_op]] evolving_def request_fabric_quiesce_def ret_def raise_def split: option.splits sum.splits)

lemma report_evolving: "report_fields_ok report \<Longrightarrow> evolving (record_fabric_participant alive report now)"
proof -
  assume "report_fields_ok report"
  then have "steady_op (record_participant report now)" by (intro steady_opI) (simp_all add: record_participant_steady)
  note accepted = evolving_at [OF steady_evolving [OF this]] and rejected = evolving_at [OF steady_evolving [OF reject_report_steady_op]]
  show ?thesis unfolding evolving_def
    by (auto simp: record_fabric_participant_def raise_def Let_def accepted rejected split: option.splits sum.splits)
qed

lemma initialized_evolving: "evolving (initialized_commit r ready i)"
  unfolding initialized_commit_def
proof (intro evolving_bind evolving_on_fabric)
  show "snd (record_initialized j owner gen None) = None" for j owner gen by (simp add: record_initialized_def raise_def)
qed (auto intro!: frame_evolving frame_modify simp: record_initialized_fine split: if_split_asm)

lemma watchdog_reconcile_evolving: "evolving (watchdog_reconcile config alive now captured)"
proof -
  have "evolving (bind (on_fabric (reconcile config alive now book transport)) (\<lambda>_. ret True))" for book transport
    by (intro evolving_bind steady_evolving reconcile_steady frame_evolving) simp
  then show ?thesis unfolding evolving_def by (auto simp: watchdog_reconcile_def ret_def)
qed

lemma frame_at: "frame admission m \<Longrightarrow> admission (snd (m s)) = admission s"
  by (rule frameD)

lemma frame_admission_fabric:
  "frame admission (agent_register_check role device proc now)" "frame admission (instance_register_check registration now)"
  "frame admission (close_quiesce fabric now deadline)" "frame admission (request_fabric_quiesce request now)"
  "frame admission (record_fabric_participant alive report now)"
  "frame admission (watchdog_reconcile config alive now captured)"
  by (auto simp: frame_def agent_register_check_def instance_register_check_def close_quiesce_def request_fabric_quiesce_def
        record_fabric_participant_def watchdog_reconcile_def on_fabric_def bind_def ret_def raise_def Let_def
        split: option.splits sum.splits prod.splits)

lemma frame_admission_others:
  "frame admission (retire_commit g any_alive)" "frame admission (install_commit fo membership plan policy)"
  "frame admission (step_context_state_capacity config reads now)" "frame admission (confirm_serving_health config targets)"
  "frame admission (deregister_commit i r now)" "frame admission (initialized_commit r ready i)"
  "frame admission close_complete" "frame cs_fabric close_complete" "frame cs_fabric (confirm_serving_health config targets)"
  "frame cs_fabric (begin_close d now)"
  by (auto simp: frame_def retire_commit_def install_commit_def step_context_state_capacity_def confirm_serving_health_def
        deregister_commit_def initialized_commit_def close_complete_def begin_close_def on_fabric_def on_instances_def
        on_transport_def bump_revision_def modify_def get_state_def guard_not_def bind_def ret_def raise_def Let_def
        split: option.splits sum.splits prod.splits if_splits)

lemmas admission_frames = frame_startup frame_registration frame_transport frame_lease frame_admission_fabric
  frame_admission_others frame_calls

lemmas untouched_fabric = frame_startup(2,4,6,8,10,12) frame_registration(2,4,6) frame_transport(2,4,6) frame_lease(2)
  frame_admission_others(8,9,10) frame_calls(7,8,9,10,11)

lemma event_admission:
  assumes "\<And>d now. e \<noteq> Begin_Close d now"
  shows "admission (event_step config e s) = admission s"
proof (cases e)
  case (Begin_Close d now)
  with assms show ?thesis by blast
qed (simp_all add: admission_frames [THEN frameD, simplified])

lemma event_fabric:
  assumes "event_enabled config place history e"
    and "\<And>g any. e \<noteq> Retire g any" and "\<And>fo m plan policy. e \<noteq> Install fo m plan policy"
  shows "fabric_step (cs_fabric s) (cs_fabric (event_step config e s))"
proof (cases e)
  case (Retire g any)
  with assms(2) show ?thesis by blast
next
  case (Install fo m plan policy)
  with assms(3) show ?thesis by blast
qed (use assms(1) in \<open>simp_all add: untouched_fabric [THEN frame_evolving, THEN evolvingD] agent_register_check_evolving [THEN evolvingD]
       instance_register_check_evolving [THEN evolvingD] capacity_evolving [THEN evolvingD] deregister_evolving [THEN evolvingD]
       close_quiesce_evolving [THEN evolvingD] request_quiesce_evolving [THEN evolvingD] report_evolving [THEN evolvingD]
       initialized_evolving [THEN evolvingD] watchdog_reconcile_evolving [THEN evolvingD]\<close>)

subsection \<open>Sealing\<close>

abbreviation roster :: "control_state \<Rightarrow> (fabric_role \<times> int, proc_uniq_id) dict \<times> (instance_rank_id \<Rightarrow> (nat \<times> proc_uniq_id) option)" where
  "roster s \<equiv> (agent_startups (cs_registrations s), rank_objects s)"

lemma rank_objects_cong:
  "book_instances (cs_registrations s') = book_instances (cs_registrations s) \<Longrightarrow> rank_objects s' = rank_objects s"
  by (simp add: rank_objects_def fun_eq_iff)

lemma roster_calls [simp]:
  "frame roster (on_fabric m1)" "frame roster (on_transport m2)" "frame roster (on_atnagents m4)"
  "frame roster (on_ffnagents m5)" "frame roster bump_revision"
  by (simp_all add: frame_def on_fabric_def on_transport_def on_atnagents_def on_ffnagents_def bump_revision_def modify_def
        rank_objects_def fun_eq_iff case_prod_unfold)

lemma heartbeat_object:
  "map_option (\<lambda>r. (reg_oid r, reg_proc r)) (dict_get (snd (commit_heartbeat k r now t)) k')
     = map_option (\<lambda>r. (reg_oid r, reg_proc r)) (dict_get t k')"
  by (auto simp: table_op_defs split: option.splits)

lemma write_alive_object:
  "map_option (\<lambda>r. (reg_oid r, reg_proc r)) (dict_get (write_alive marks t) k) = map_option (\<lambda>r. (reg_oid r, reg_proc r)) (dict_get t k)"
  by (cases "dict_get t k") (auto simp: dict_get_write_alive split: option.splits)

lemma roster_startup:
  "frame roster (start_visibility config uuids)" "frame roster (start_scope oid)" "frame roster (start_controller started)"
  "frame roster (store_mps_status now result)" "frame roster (global_warnings config now)" "frame roster (begin_close d now)"
  "frame roster close_complete" "frame roster (retire_commit g any_alive)" "frame roster (confirm_serving_health config targets)"
  by (auto simp: frame_def start_visibility_def start_scope_def start_controller_def store_mps_status_def begin_close_def
        close_complete_def retire_commit_def confirm_serving_health_def global_warnings_def ret_def raise_def modify_def
        lift_result_def Let_def rank_objects_def fun_eq_iff split: sum.splits option.splits)

lemma roster_fabric:
  "frame roster (agent_register_check role device proc now)" "frame roster (instance_register_check registration now)"
  "frame roster (close_quiesce fabric now deadline)" "frame roster (request_fabric_quiesce request now)"
  "frame roster (record_fabric_participant alive report now)" "frame roster (watchdog_reconcile config alive now captured)"
  "frame roster (step_context_state_capacity config reads now)" "frame roster (install_commit fo membership plan policy)"
  by (auto simp: frame_def agent_register_check_def instance_register_check_def close_quiesce_def request_fabric_quiesce_def
        record_fabric_participant_def watchdog_reconcile_def step_context_state_capacity_def install_commit_def on_fabric_def
        modify_def bind_def ret_def raise_def Let_def rank_objects_def fun_eq_iff
        split: option.splits sum.splits prod.splits)

lemma roster_tables:
  "frame roster (atnagent_commit a ea alive)" "frame roster (ffnagent_commit f specs ef alive)"
  "frame roster (arenas_commit config device bindings r)" "frame roster (lease_quiesce_commit device r)"
  "frame roster (initialized_commit inst ready i)"
  unfolding atnagent_commit_def ffnagent_commit_def arenas_commit_def lease_quiesce_commit_def initialized_commit_def
  by (auto intro!: frame_bind frame_modify rank_objects_cong split: option.split if_splits)

lemma roster_marks:
  "frame roster (watchdog_mark marks)" "frame roster (on_instances (commit_heartbeat i r now))"
  by (simp_all add: frame_def watchdog_mark_def modify_def on_instances_def rank_objects_def fun_eq_iff case_prod_unfold
        heartbeat_object write_alive_object)

lemma roster_lease: "frame roster (lease_commit now device i r a)"
  by (rule frame_lease_commit) (simp add: rank_objects_def fun_eq_iff)

lemmas roster_frames = roster_startup roster_fabric roster_tables roster_marks roster_lease roster_calls

lemma instance_commit_sealed: "cs_admission_closed s \<Longrightarrow> snd (instance_commit r existing alive s) = s"
  by (simp add: instance_commit_def bind_def guard_not_def raise_def)

lemma admit_commit_sealed: "cs_admission_closed s \<Longrightarrow> snd (admit_commit alive request scope fabric identity s) = s"
  by (simp add: admit_commit_def raise_def)

lemma install_commit_sealed: "cs_admission_closed s \<Longrightarrow> snd (install_commit fo m plan policy s) = s"
  by (simp add: install_commit_def ret_def split: option.splits)

lemma deregister_roster:
  "agent_startups (cs_registrations (snd (deregister_commit i r now s))) = agent_startups (cs_registrations s)"
  "rank_objects (snd (deregister_commit i r now s)) j \<noteq> None \<Longrightarrow> rank_objects (snd (deregister_commit i r now s)) j = rank_objects s j"
  by (auto simp: deregister_commit_def bind_def on_instances_def remove_snapshot_def on_transport_def remove_instance_def
        bump_revision_def modify_def get_state_def on_fabric_def ret_def raise_def rank_objects_def case_prod_unfold
        simp del: map_of_eq_None_iff split: if_splits)

end
