(* ===== verification/Control_Guarantees.thy ===== *)
theory Control_Guarantees
  imports Control_Traces
begin

section \<open>What the control plane guarantees\<close>

text \<open>
  The invariant over every interleaving, the lifecycle of generations across sections, the finality of
  shutdown, and the behaviour of single operations that operators and clients rely on: leases, the
  watchdog, the capacity stepper and the cleanup loop.
\<close>

lemma install_commit_fabric:
  "cs_fabric (snd (install_commit fo m plan policy s)) = cs_fabric s \<or>
   cs_fabric s = None \<and> \<not> cs_admission_closed s \<and>
     (\<exists>g. cs_fabric (snd (install_commit fo m plan policy s)) = Some g \<and> gs_oid g = fo_oid fo)"
  by (auto simp: install_commit_def bind_def on_fabric_def install_generation_def modify_def ret_def
        FabricGenerationState_def split: option.splits)

lemma retire_commit_fabric:
  "cs_fabric (snd (retire_commit g any_alive s)) = cs_fabric s \<or>
   cs_fabric (snd (retire_commit g any_alive s)) = None \<and> same_generation (cs_fabric s) (Some g) \<and> \<not> any_alive"
  by (simp add: retire_commit_def ret_def)

lemma begin_close_admission:
  "cs_admission_closed (snd (begin_close d now s))"
  "cs_cleanup_deadline s \<noteq> None \<Longrightarrow> cs_cleanup_deadline (snd (begin_close d now s)) = cs_cleanup_deadline s"
  by (auto simp: begin_close_def Let_def ret_def)

lemma event_closes:
  "cs_admission_closed s \<Longrightarrow> cs_admission_closed (event_step config e s)"
  "cs_cleanup_deadline s \<noteq> None \<Longrightarrow> cs_cleanup_deadline (event_step config e s) = cs_cleanup_deadline s"
proof -
  have "(cs_admission_closed s \<longrightarrow> cs_admission_closed (event_step config e s)) \<and>
    (cs_cleanup_deadline s \<noteq> None \<longrightarrow> cs_cleanup_deadline (event_step config e s) = cs_cleanup_deadline s)"
  proof (cases "\<exists>d now. e = Begin_Close d now")
    case True
    then show ?thesis using begin_close_admission by auto
  next
    case False
    then have "admission (event_step config e s) = admission s" by (intro event_admission) blast
    then show ?thesis by simp
  qed
  then show "cs_admission_closed s \<Longrightarrow> cs_admission_closed (event_step config e s)"
    "cs_cleanup_deadline s \<noteq> None \<Longrightarrow> cs_cleanup_deadline (event_step config e s) = cs_cleanup_deadline s" by blast+
qed

lemma evolves_stopped:
  assumes "evolves g g'" and "gs_phase g = Gen_STOPPED"
  shows "gs_phase g' = Gen_STOPPED"
proof -
  have "generation_allows\<^sup>*\<^sup>* (gs_phase g) (gs_phase g')"
    using assms(1) barrier_steps_phase unfolding evolves_def by (metis barrier_abs_phase)
  then show ?thesis
  proof (cases rule: converse_rtranclpE)
    case (step phase)
    then show ?thesis using assms(2) by (cases phase) (simp_all add: generation_allows_def)
  qed (use assms(2) in simp)
qed

text \<open>How one section may change the retained generation object.\<close>

lemma event_generation:
  assumes "event_enabled config place history e" and "cs_fabric (event_step config e s) = Some g'"
  shows "(\<exists>g. cs_fabric s = Some g \<and> evolves g g')
     \<or> cs_fabric s = None \<and> \<not> cs_admission_closed s \<and> (\<forall>s0\<in>set history. \<forall>g0. cs_fabric s0 = Some g0 \<longrightarrow> gs_oid g0 \<noteq> gs_oid g')"
proof (cases "\<exists>fo m plan policy. e = Install fo m plan policy")
  case True
  then obtain fo m plan policy where e: "e = Install fo m plan policy" by blast
  show ?thesis
  proof (cases "cs_fabric (snd (install_commit fo m plan policy s)) = cs_fabric s")
    case True
    then have "cs_fabric s = Some g'" using assms(2) e by simp
    then show ?thesis by simp
  next
    case False
    then show ?thesis using install_commit_fabric [of fo m plan policy s] assms unfolding e by auto
  qed
next
  case not_install: False
  show ?thesis
  proof (cases "\<exists>g alive. e = Retire g alive")
    case True
    then obtain g alive where e: "e = Retire g alive" by blast
    have "cs_fabric s = Some g'"
      using retire_commit_fabric [of g "\<exists>owner\<in>set (generation_owners g). alive owner" s] assms(2) unfolding e by auto
    then show ?thesis by simp
  next
    case False
    then have "fabric_step (cs_fabric s) (cs_fabric (event_step config e s))"
      using not_install by (intro event_fabric [OF assms(1)]) blast+
    then show ?thesis using assms(2) by (auto simp: fabric_step_def split: option.splits)
  qed
qed

lemma event_roster:
  assumes "cs_admission_closed s"
  shows "agent_startups (cs_registrations (event_step config e s)) = agent_startups (cs_registrations s)"
    and "rank_objects (event_step config e s) i \<noteq> None \<Longrightarrow> rank_objects (event_step config e s) i = rank_objects s i"
proof -
  have "agent_startups (cs_registrations (event_step config e s)) = agent_startups (cs_registrations s) \<and>
    (rank_objects (event_step config e s) i \<noteq> None \<longrightarrow> rank_objects (event_step config e s) i = rank_objects s i)"
    using assms
    by (cases e)
       (simp_all add: roster_frames [THEN frameD, simplified] instance_commit_sealed admit_commit_sealed deregister_roster
         del: not_None_eq)
  then show "agent_startups (cs_registrations (event_step config e s)) = agent_startups (cs_registrations s)"
    "rank_objects (event_step config e s) i \<noteq> None \<Longrightarrow> rank_objects (event_step config e s) i = rank_objects s i" by blast+
qed

lemma event_sealed:
  assumes "cs_admission_closed s" and "event_enabled config place history e"
  shows "sealed s (event_step config e s)"
proof -
  have "map_option gs_oid (cs_fabric (event_step config e s)) = map_option gs_oid (cs_fabric s)"
    if "cs_fabric (event_step config e s) = Some g'" for g'
    using event_generation [OF assms(2) that] assms(1) that by (auto simp: evolves_def)
  then show ?thesis using event_roster [OF assms(1)] by (auto simp: sealed_def simp del: not_None_eq)
qed

lemma sealed_trans:
  assumes "sealed s0 s" and "sealed s s'"
  shows "sealed s0 s'"
  using assms unfolding sealed_def by (metis option.map_disc_iff)

lemma follows_step:
  assumes "follows s0 s" and "event_enabled config place history e" and "s0 \<in> set history"
  shows "follows s0 (event_step config e s)"
  unfolding follows_def
proof (intro conjI impI allI)
  show "cs_admission_closed (event_step config e s)" if "cs_admission_closed s0"
    using that assms(1) event_closes(1) by (simp add: follows_def)
  show "sealed s0 (event_step config e s)" if "cs_admission_closed s0"
    using that assms(1) event_sealed [OF _ assms(2)] by (auto simp: follows_def intro: sealed_trans)
  show "cs_cleanup_deadline (event_step config e s) = cs_cleanup_deadline s0" if "cs_cleanup_deadline s0 \<noteq> None"
    using that assms(1) event_closes(2) unfolding follows_def by metis
next
  fix g0 g'
  assume g0: "cs_fabric s0 = Some g0" and g': "cs_fabric (event_step config e s) = Some g'" and oid: "gs_oid g' = gs_oid g0"
  from event_generation [OF assms(2) g'] show "evolves g0 g'"
  proof
    assume "\<exists>g. cs_fabric s = Some g \<and> evolves g g'"
    then obtain g where g: "cs_fabric s = Some g" "evolves g g'" by blast
    then have "evolves g0 g" using assms(1) g0 oid by (simp add: follows_def evolves_def)
    with g show ?thesis by (blast intro: evolves_trans)
  qed (use assms(3) g0 oid in auto)
qed

lemma follows_refl: "follows s s"
  by (auto simp: follows_def sealed_def)

lemma trace_ok:
  "trace config place states \<Longrightarrow> \<exists>s history. states = s # history \<and> (\<forall>s0\<in>set states. ctrl_ok config s0 \<and> follows s0 s)"
proof (induction rule: trace.induct)
  case created
  then show ?case by (simp add: ctrl_ok_initial follows_refl)
next
  case (atomic_section s history e)
  then have all: "\<forall>s0\<in>set (s # history). ctrl_ok config s0 \<and> follows s0 s" by auto
  have "ctrl_ok config (event_step config e s)"
    using all atomic_section.hyps by (intro event_keeps [of config s place history e]) auto
  moreover have "follows s0 (event_step config e s)" if "s0 \<in> set (s # history)" for s0
    using follows_step [OF _ atomic_section.hyps(2) that] all that by blast
  ultimately show ?case using all follows_refl by auto
qed

text \<open>
  C10: In every interleaving of requests, background steps and signals, the control plane's tables agree
  with each other: AtnAgents and their Transport records are the same processes, only registered ranks
  hold leases, canonical Model Specs exist with the first FfnAgent, the capacity policy and the serving
  state belong to the retained generation, every planned PE and rank has an owner, initialized ranks are
  registered, and admission is closed exactly when a cleanup deadline was recorded.
\<close>

theorem control_plane_invariant:
  assumes "trace config place (s # history)"
  shows "ctrl_ok config s"
  using trace_ok [OF assms] by auto

text \<open>
  C8: A retained generation is only given up when it has stopped and every process that owned a PE or a
  rank was observed dead; until then any section of any handler leaves the same generation object in
  place, moved along the barrier protocol.
\<close>

theorem generation_kept_until_owners_exit:
  assumes "trace config place (s # history)" and "event_enabled config place (s # history) e"
    and "cs_fabric s = Some g"
  shows "(\<exists>g'. cs_fabric (event_step config e s) = Some g' \<and> gs_oid g' = gs_oid g
            \<and> (barrier_step (pe_count g))\<^sup>*\<^sup>* (barrier_abs g) (barrier_abs g'))
     \<or> cs_fabric (event_step config e s) = None \<and> gs_phase g = Gen_STOPPED
        \<and> (\<exists>g0 alive. e = Retire g0 alive \<and> (\<forall>owner\<in>set (generation_owners g). \<not> alive owner))"
proof (cases "cs_fabric (event_step config e s)")
  case (Some g')
  then show ?thesis using event_generation [OF assms(2) Some] assms(3) by (auto simp: evolves_def)
next
  case None
  have "\<exists>g0 alive. e = Retire g0 alive"
  proof (rule ccontr)
    assume not: "\<nexists>g0 alive. e = Retire g0 alive"
    have "\<nexists>fo m plan policy. e = Install fo m plan policy"
      using None assms(3) install_commit_fabric by (metis event_step.simps(8) option.distinct(1))
    then have "fabric_step (cs_fabric s) (cs_fabric (event_step config e s))"
      using not by (intro event_fabric [OF assms(2)]) blast+
    with None assms(3) show False by (simp add: fabric_step_def)
  qed
  then obtain g0 alive where e: "e = Retire g0 alive" by blast
  then obtain s0 where s0: "s0 \<in> set (s # history)" "terminal_generation s0 = Some g0"
    using assms(2) by (auto simp only: event_enabled.simps)
  have dead: "gs_oid g = gs_oid g0" "\<forall>owner\<in>set (generation_owners g0). \<not> alive owner"
    using None assms(3) retire_commit_fabric [of g0 "\<exists>owner\<in>set (generation_owners g0). alive owner" s] unfolding e
    by (auto simp: same_generation_def)
  have g0: "cs_fabric s0 = Some g0" "gs_phase g0 = Gen_STOPPED"
    using s0(2) by (auto simp: terminal_generation_def split: option.splits if_splits)
  have "follows s0 s" using trace_ok [OF assms(1)] s0(1) by auto
  then have ev: "evolves g0 g" using g0(1) assms(3) dead(1) by (simp add: follows_def)
  have "gs_phase g = Gen_STOPPED" using evolves_stopped [OF ev g0(2)] .
  moreover have "generation_owners g = generation_owners g0" using ev by (simp add: evolves_def generation_owners_def)
  ultimately show ?thesis using None dead(2) e by auto
qed

text \<open>
  C9: Shutdown is final. After any trigger closed admission, whatever runs afterwards in whatever order,
  admission stays closed, the first cleanup deadline is kept, no further Agent process is admitted, every
  registered rank is one that was registered before (the same registration object of the same process),
  and no new generation is installed. An Agent process that was admitted before may still register.
\<close>

theorem shutdown_is_final:
  assumes "trace config place (s # history)" and "s0 \<in> set history" and "cs_admission_closed s0"
  shows "cs_admission_closed s \<and> cs_cleanup_deadline s = cs_cleanup_deadline s0
     \<and> agent_startups (cs_registrations s) = agent_startups (cs_registrations s0)
     \<and> (\<forall>i r. dict_get (book_instances (cs_registrations s)) i = Some r \<longrightarrow>
          (\<exists>r0. dict_get (book_instances (cs_registrations s0)) i = Some r0 \<and> reg_oid r0 = reg_oid r \<and> reg_proc r0 = reg_proc r))
     \<and> (\<forall>g. cs_fabric s = Some g \<longrightarrow> (\<exists>g0. cs_fabric s0 = Some g0 \<and> gs_oid g0 = gs_oid g \<and> evolves g0 g))"
proof -
  have f: "follows s0 s" and ok: "ctrl_ok config s0" using trace_ok [OF assms(1)] assms(2) by auto
  then have sealed: "sealed s0 s" using assms(3) by (simp add: follows_def)
  have "cs_cleanup_deadline s0 \<noteq> None" using ok assms(3) by (simp add: ctrl_ok_def shutdown_ok_def)
  then have "cs_admission_closed s \<and> cs_cleanup_deadline s = cs_cleanup_deadline s0"
    using f assms(3) by (simp add: follows_def)
  moreover have "\<exists>r0. dict_get (book_instances (cs_registrations s0)) i = Some r0 \<and> reg_oid r0 = reg_oid r \<and> reg_proc r0 = reg_proc r"
    if "dict_get (book_instances (cs_registrations s)) i = Some r" for i r
  proof -
    have "rank_objects s i = Some (reg_oid r, reg_proc r)" using that by (simp add: rank_objects_def)
    then have "rank_objects s0 i = Some (reg_oid r, reg_proc r)" using sealed by (metis sealed_def option.distinct(1))
    then show ?thesis by (auto simp: rank_objects_def)
  qed
  moreover have "\<exists>g0. cs_fabric s0 = Some g0 \<and> gs_oid g0 = gs_oid g \<and> evolves g0 g" if "cs_fabric s = Some g" for g
  proof -
    have "map_option gs_oid (cs_fabric s0) = Some (gs_oid g)" using sealed that by (simp add: sealed_def)
    then obtain g0 where "cs_fabric s0 = Some g0" "gs_oid g0 = gs_oid g" by auto
    with f that show ?thesis by (simp add: follows_def)
  qed
  ultimately show ?thesis using sealed by (simp add: sealed_def)
qed

section \<open>A sample deployment\<close>

text \<open>
  Two attention devices, one FFN device and one model: startup, admission and registration of every process,
  then formation of the first generation. The witnesses of the properties run on it.
\<close>

definition sample_proc :: "int \<Rightarrow> proc_uniq_id" where
  "sample_proc pid = \<lparr>proc_pid = pid, proc_create_time = 1\<rparr>"

definition sample_scope :: mps_scope where
  "sample_scope = \<lparr>scope_oid = 1, scope_cleanup_deadline = None\<rparr>"

definition sample_admission :: "fabric_role \<Rightarrow> int \<Rightarrow> int \<Rightarrow> control_event" where
  "sample_admission role device pid = Admit_Commit (\<lambda>_. True)
     \<lparr>sa_pid = pid, sa_create_time = 1, sa_abi_version = 1, sa_role = role, sa_device = device\<rparr> sample_scope None (sample_proc pid)"

definition sample_rank :: "int \<Rightarrow> instance_rank_registration_state" where
  "sample_rank rank = (sample_instance_registration (nat rank + 10))\<lparr>reg_instance := \<lparr>iri_model_id = ''a/b'', iri_rank = rank\<rparr>,
     reg_transport := \<lparr>tp_hidden_size = 1, payload_row_capacity = 1, atn_tp_rank = rank, atn_tp_size = 2,
                        atn_dp_rank = 0, atn_dp_size = 1\<rparr>\<rparr>"

definition sample_ffn :: ffnagent_registration_state where
  "sample_ffn = (sample_ffn_registration 7)\<lparr>ffn_device := 2\<rparr>"

definition sample_setup :: "control_event list" where
  "sample_setup =
     [Start_Visibility (Inr [''u0'', ''u1'', ''u2'']), Start_Scope 1,
      sample_admission Role_ATNAGENT 0 20, sample_admission Role_ATNAGENT 1 21, sample_admission Role_FFNAGENT 2 9,
      Atnagent_Commit (sample_registration 5 20) None False,
      Atnagent_Commit ((sample_registration 6 21)\<lparr>atn_device := 1\<rparr>) None False,
      Ffnagent_Commit sample_ffn [] None False,
      Instance_Commit (sample_rank 0) None False, Instance_Commit (sample_rank 1) None False]"

definition sample_registered :: control_state where
  "sample_registered = foldl (\<lambda>s e. event_step sample_config e s) ControlPlane sample_setup"

definition sample_solver :: placement_solver where
  "sample_solver specs plans free contracts coefficients =
     Inr \<lparr>pr_memory_estimates = [\<lparr>retained_bytes = 1, peak_bytes = 1\<rparr>],
          pr_model_plans = [\<lparr>model_spec_digest = replicate 64 CHR ''0'',
             plan_layers = [DenseFfnLayerPlan \<lparr>ffnagent_indices = [0], local_intermediate_size = 1\<rparr>]\<rparr>]\<rparr>"

definition sample_formation :: formation where
  "sample_formation =
     \<lparr>fo_alive_before = (\<lambda>_. True), fo_alive_after = (\<lambda>_. True), fo_seed_draws = [], fo_generation_draws = [5],
      fo_calibration = Inr None, fo_uid = [], fo_now = 1, fo_oid = 100\<rparr>"

lemma enabled_anywhere: "event_enabled config place [] e \<Longrightarrow> event_enabled config place history e"
  by (cases e) auto

lemma quiet_event:
  assumes "event_enabled config place [] e" and "cs_fabric s = None"
  shows "cs_fabric (event_step config e s) = None"
proof -
  have "fabric_step (cs_fabric s) (cs_fabric (event_step config e s))"
    by (rule event_fabric [OF assms(1)]) (use assms(1) in auto)
  with assms(2) show ?thesis by (simp add: fabric_step_def)
qed

lemma trace_setup:
  assumes "\<forall>e\<in>set events. event_enabled config place [] e"
    and "trace config place (s # history)" and "\<forall>s0\<in>set (s # history). cs_fabric s0 = None"
  shows "\<exists>history'. trace config place (foldl (\<lambda>s e. event_step config e s) s events # history')
     \<and> (\<forall>s0\<in>set (foldl (\<lambda>s e. event_step config e s) s events # history'). cs_fabric s0 = None)"
  using assms
proof (induction events arbitrary: s history)
  case Nil
  then show ?case by auto
next
  case (Cons e events)
  have e: "event_enabled config place [] e" using Cons.prems(1) by simp
  have "trace config place (event_step config e s # s # history)"
    using trace.atomic_section [OF Cons.prems(2) enabled_anywhere [OF e]] .
  from Cons.IH [OF _ this] show ?case using Cons.prems(1,3) quiet_event [OF e] by auto
qed

lemma sample_setup_enabled: "\<forall>e\<in>set sample_setup. event_enabled config place [] e"
  by (simp add: sample_setup_def sample_admission_def)

lemma sample_formed_eval:
  "case capture_membership sample_config (cs_registrations sample_registered) (cs_revision sample_registered) of
     Inr (Some m) \<Rightarrow> (case form_plan sample_config sample_solver sample_formation m of Inr (Some _) \<Rightarrow> fm_revision m = cs_revision sample_registered | _ \<Rightarrow> False)
   | _ \<Rightarrow> False"
  by code_simp

lemma sample_candidate:
  obtains m plan policy where
    "capture_membership sample_config (cs_registrations sample_registered) (cs_revision sample_registered) = Inr (Some m)"
    and "form_plan sample_config sample_solver sample_formation m = Inr (Some (plan, policy))"
    and "fm_revision m = cs_revision sample_registered"
proof -
  let ?capture = "capture_membership sample_config (cs_registrations sample_registered) (cs_revision sample_registered)"
  obtain m where m: "?capture = Inr (Some m)"
    using sample_formed_eval by (cases ?capture) (auto split: option.splits)
  let ?form = "form_plan sample_config sample_solver sample_formation m"
  have "case ?form of Inr (Some _) \<Rightarrow> fm_revision m = cs_revision sample_registered | _ \<Rightarrow> False"
    using sample_formed_eval m by simp
  then obtain plan policy where "?form = Inr (Some (plan, policy))" "fm_revision m = cs_revision sample_registered"
    by (cases ?form) (auto split: option.splits)
  with m that show thesis by blast
qed

lemma sample_open: "\<not> cs_admission_closed sample_registered \<and> cs_fabric sample_registered = None"
  by code_simp

lemma sample_trace:
  obtains s g history where "trace sample_config sample_solver (s # history)" and "cs_fabric s = Some g"
    and "gs_phase g = Gen_PREPARING_JOIN" and "pe_count g = 3" and "\<not> cs_admission_closed s"
    and "gs_participants g = []"
proof -
  have start: "trace sample_config sample_solver (ControlPlane # [])" by (rule trace.created)
  obtain h where tr: "trace sample_config sample_solver (sample_registered # h)"
    and none: "\<forall>s0\<in>set (sample_registered # h). cs_fabric s0 = None"
    using trace_setup [OF sample_setup_enabled start] unfolding sample_registered_def by (auto simp: ControlPlane_def)
  obtain m plan policy where m: "capture_membership sample_config (cs_registrations sample_registered) (cs_revision sample_registered) = Inr (Some m)"
    and plan: "form_plan sample_config sample_solver sample_formation m = Inr (Some (plan, policy))"
    and rev: "fm_revision m = cs_revision sample_registered"
    by (rule sample_candidate)
  have formed: "formed sample_config sample_solver sample_formation (cs_registrations sample_registered)
      (cs_revision sample_registered) m plan policy" using m plan by (simp add: formed_def)
  define e where "e = Install sample_formation m plan policy"
  have "event_enabled sample_config sample_solver (sample_registered # h) e"
    using formed none unfolding e_def event_enabled.simps by auto
  from trace.atomic_section [OF tr this]
  have tr': "trace sample_config sample_solver (event_step sample_config e sample_registered # sample_registered # h)" .
  let ?g = "FabricGenerationState 100 plan 1 (dict_of (fm_agent_owners m) []) (dict_of (fm_instance_owners m) [])"
  have new: "cs_fabric (event_step sample_config e sample_registered) = Some ?g"
    "\<not> cs_admission_closed (event_step sample_config e sample_registered)"
    using sample_open rev
    by (simp_all add: e_def install_commit_def bind_def on_fabric_def install_generation_def modify_def ret_def sample_formation_def)
  have "ctrl_ok sample_config sample_registered" using trace_ok [OF tr] by auto
  then have "pe_placements plan = membership_placements sample_config"
    using formed_placements [OF formed] captured_instance_owners [OF _ m] ctrl_okD(1) by metis
  moreover have "length (membership_placements sample_config) = 3" by code_simp
  ultimately show thesis using that [OF tr' new(1)] new(2) by (simp add: FabricGenerationState_def pe_count_def)
qed

subsection \<open>Witnesses\<close>

theorem control_plane_invariant_witness:
  "\<exists>s history. trace sample_config sample_solver (s # history) \<and> cs_fabric s \<noteq> None \<and> ctrl_ok sample_config s"
proof -
  obtain s g history where tr: "trace sample_config sample_solver (s # history)" and g: "cs_fabric s = Some g"
    by (rule sample_trace)
  from control_plane_invariant [OF tr] tr g show ?thesis by blast
qed

theorem generation_kept_until_owners_exit_witness:
  "\<exists>s g g' history. trace sample_config sample_solver (s # history) \<and> cs_fabric s = Some g
     \<and> cs_fabric (event_step sample_config (Begin_Close None 1) s) = Some g' \<and> gs_oid g' = gs_oid g"
proof -
  obtain s g history where tr: "trace sample_config sample_solver (s # history)" and g: "cs_fabric s = Some g"
    by (rule sample_trace)
  have "event_enabled sample_config sample_solver (s # history) (Begin_Close None 1)" by simp
  from generation_kept_until_owners_exit [OF tr this g] tr g show ?thesis by auto
qed

theorem shutdown_is_final_witness:
  "\<exists>s s0 history. trace sample_config sample_solver (s # history) \<and> s0 \<in> set history \<and> cs_admission_closed s0
     \<and> cs_cleanup_deadline s = Some 301"
proof -
  obtain s g history where tr: "trace sample_config sample_solver (s # history)" and g: "cs_fabric s = Some g"
    and open_admission: "\<not> cs_admission_closed s" by (rule sample_trace)
  define s1 where "s1 = event_step sample_config (Begin_Close None 1) s"
  have "trace sample_config sample_solver (s1 # s # history)"
    unfolding s1_def by (rule trace.atomic_section [OF tr]) simp
  then have tr2: "trace sample_config sample_solver (event_step sample_config (Begin_Close (Some 7) 2) s1 # s1 # s # history)"
    by (rule trace.atomic_section) simp
  have "cs_cleanup_deadline s = None"
    using trace_ok [OF tr] open_admission by (auto simp: ctrl_ok_def shutdown_ok_def)
  then have closed: "cs_admission_closed s1" "cs_cleanup_deadline s1 = Some 301"
    by (simp_all add: s1_def begin_close_def Let_def ret_def MPS_CLEANUP_TIMEOUT_S_def)
  from shutdown_is_final [OF tr2 _ closed(1)] closed tr2 show ?thesis by fastforce
qed

end
