(* ===== verification/Control_Operations.thy ===== *)
theory Control_Operations
  imports Control_Guarantees
begin

section \<open>Guarantees of single operations\<close>

text \<open>
  Leases, supervision of owners, fail-stop of the capacity stepper, the cleanup loop, and whole handlers
  as sequences of sections.
\<close>

subsection \<open>Leases\<close>

text \<open>
  C26: An arena is leased only where it may be used: when acquisition returns a handle, the requesting live
  process owns the registered rank and its slot in an executable generation, rank and AtnAgent answered
  their heartbeats, the handle is the one that AtnAgent process published for this rank with the rank's
  own geometry, and the broker now holds exactly that lease.
\<close>

theorem lease_granted_safely:
  assumes "acquire_instance_transport_arena config alive now model_id rank owner s = (Inr handle, s')"
  shows "\<exists>r a g p device. let i = \<lparr>iri_model_id = model_id, iri_rank = rank\<rparr> in
     device = atn_devices (cfg_atn config) ! nat rank \<and> 0 \<le> rank \<and> rank < atn_world_size config
     \<and> dict_get (book_instances (cs_registrations s)) i = Some r
     \<and> proc_pid (reg_proc r) = ref_pid owner \<and> reg_abi_version r = ref_abi_version owner \<and> alive (reg_proc r)
     \<and> dict_get (book_atnagents (cs_registrations s)) device = Some a
     \<and> online now (Some r) \<and> online now (Some a)
     \<and> cs_fabric s = Some g \<and> gs_phase g = Gen_EXECUTABLE \<and> dict_get (gs_instance_owners g) i = Some (reg_proc r)
     \<and> published_for device i (cs_transport s) = Some p \<and> \<not> is_quiescing device (cs_transport s)
     \<and> pub_transport p = reg_transport r \<and> handle = pub_handle p
     \<and> dict_get (tb_leases (cs_transport s')) i
         = Some \<lparr>lease_device = device, lease_handle = handle, lease_publisher = reg_proc a\<rparr>"
proof -
  let ?i = "\<lparr>iri_model_id = model_id, iri_rank = rank\<rparr>"
  let ?device = "atn_devices (cfg_atn config) ! nat rank"
  obtain r0 a0 where rank: "0 \<le> rank" "rank < atn_world_size config"
    and r0: "query ?i (book_instances (cs_registrations s)) = Some r0" "validate_process_ref alive r0 owner = Inr ()"
    and a0: "query ?device (book_atnagents (cs_registrations s)) = Some a0"
    and commit: "lease_commit now ?device ?i r0 a0 s = (Inr handle, s')"
    using assms
    by (auto simp: acquire_instance_transport_arena_def Let_def bind_def lift_result_def validate_instance_rank_def
          index_at_def query_instance_def query_atnagent_def ret_def raise_def
          split: if_splits option.splits sum.splits)
  from commit show ?thesis
  proof (rule lease_commit_returns)
    fix r a g p
    assume lease: "query ?i (book_instances (cs_registrations s)) = Some r"
      "query ?device (book_atnagents (cs_registrations s)) = Some a"
      "readiness_status now r = ONLINE" "readiness_status now a = ONLINE"
      "cs_fabric s = Some g" "gs_phase g = Gen_EXECUTABLE" "dict_get (gs_instance_owners g) ?i = Some (reg_proc r)"
      "publication ?device ?i (reg_proc a) (cs_transport s) = Inr p" "pub_transport p = reg_transport r"
      "handle = pub_handle p"
      "acquire ?i \<lparr>lease_device = ?device, lease_handle = handle, lease_publisher = reg_proc a\<rparr> (cs_transport s)
         = (Inr (), cs_transport s')"
    have r: "r = r0" using lease(1) r0(1) by simp
    have owner: "proc_pid (reg_proc r) = ref_pid owner" "reg_abi_version r = ref_abi_version owner" "alive (reg_proc r)"
      using r0(2) r by (auto simp: validate_process_ref_def split: if_splits)
    have online: "online now (Some r)" "online now (Some a)"
      using lease(3,4) status_of_online [of now "Some r"] status_of_online [of now "Some a"] by (simp_all add: status_of_def)
    have p: "published_for ?device ?i (cs_transport s) = Some p" "\<not> is_quiescing ?device (cs_transport s)"
      using lease(8)
      by (auto simp: publication_def published_for_def is_quiescing_def rbind_Inr_iff require_owner_Inr split: option.splits if_splits)
    have "dict_get (tb_leases (cs_transport s')) ?i
        = Some \<lparr>lease_device = ?device, lease_handle = handle, lease_publisher = reg_proc a\<rparr>"
      using lease(11)
      by (auto simp: acquire_def ret_def raise_def split: option.splits if_splits dest!: sym [of _ "cs_transport s'"])
    with rank r0 lease owner online p show ?thesis unfolding Let_def r query_def by blast
  qed
qed

definition leasing :: control_state where
  "leasing = sample_registered\<lparr>
     cs_fabric := Some (sample_executable\<lparr>gs_instance_owners := [(\<lparr>iri_model_id = ''a/b'', iri_rank = 0\<rparr>, sample_proc 10)]\<rparr>),
     cs_transport := \<lparr>tb_atnagents = [(0, \<lparr>ts_owner = sample_proc 20,
       ts_publications = [(\<lparr>iri_model_id = ''a/b'', iri_rank = 0\<rparr>,
         \<lparr>pub_instance = \<lparr>iri_model_id = ''a/b'', iri_rank = 0\<rparr>, pub_handle = pub_handle sample_publication,
          pub_transport = reg_transport (sample_rank 0)\<rparr>)], accepting_leases = True\<rparr>)], tb_leases = []\<rparr>\<rparr>"

lemma leasing_succeeds:
  "fst (acquire_instance_transport_arena sample_config (\<lambda>_. True) 1 ''a/b'' 0 \<lparr>ref_pid = 10, ref_abi_version = 1\<rparr> leasing)
     = Inr (pub_handle sample_publication)"
  by code_simp

theorem lease_granted_safely_witness:
  "\<exists>s' r. acquire_instance_transport_arena sample_config (\<lambda>_. True) 1 ''a/b'' 0 \<lparr>ref_pid = 10, ref_abi_version = 1\<rparr> leasing
       = (Inr (pub_handle sample_publication), s')
     \<and> dict_get (book_instances (cs_registrations leasing)) \<lparr>iri_model_id = ''a/b'', iri_rank = 0\<rparr> = Some r \<and> online 1 (Some r)"
proof -
  obtain s' where s': "acquire_instance_transport_arena sample_config (\<lambda>_. True) 1 ''a/b'' 0 \<lparr>ref_pid = 10, ref_abi_version = 1\<rparr> leasing
       = (Inr (pub_handle sample_publication), s')"
    using leasing_succeeds by (metis prod.collapse)
  from lease_granted_safely [OF this] s' show ?thesis unfolding Let_def by blast
qed

subsection \<open>The watchdog\<close>

lemma first_lost_agent_found:
  assumes "\<forall>(pe, placement)\<in>set entries. \<exists>owner. dict_get (gs_agent_owners g) (int pe) = Some owner"
    and "(pe, placement) \<in> set entries" and "dict_get (gs_agent_owners g) (int pe) = Some owner"
    and "\<not> (\<exists>report. dict_get (gs_participants g) (int pe) = Some report \<and> rep_phase report = Part_FINALIZED)"
    and "owner_failure_reason alive now owner (pe_registration book placement) \<noteq> None"
  shows "\<exists>failure. first_lost_agent alive now book g entries = Inr (Some failure)"
  using assms(1,2)
proof (induction entries)
  case (Cons entry entries)
  obtain q pl where entry: "entry = (q, pl)" by (cases entry)
  obtain o1 where o1: "dict_get (gs_agent_owners g) (int q) = Some o1" using Cons.prems(1) entry by auto
  show ?case
  proof (cases "(pe, placement) = entry")
    case True
    then show ?thesis using assms(3-5) entry
      by (auto simp: dict_item_def split: option.splits)
  next
    case False
    then have "\<exists>failure. first_lost_agent alive now book g entries = Inr (Some failure)" using Cons by auto
    then show ?thesis using o1 entry by (auto simp: dict_item_def split: option.splits)
  qed
qed simp

lemma first_lost_agent_total:
  assumes "\<forall>(pe, placement)\<in>set entries. \<exists>owner. dict_get (gs_agent_owners g) (int pe) = Some owner"
  shows "\<exists>lost. first_lost_agent alive now book g entries = Inr lost"
  using assms by (induction entries) (auto simp: dict_item_def split: option.splits)

lemma planned_owner_exists:
  assumes "owners_complete config g" and "pe < pe_count g"
  shows "\<exists>owner. dict_get (gs_agent_owners g) (int pe) = Some owner"
proof -
  have "int pe \<in> set (dict_keys (gs_agent_owners g))" using assms by (simp add: owners_complete_def)
  then show ?thesis by (metis domD dom_map_of_conv_image_fst list.set_map)
qed

lemma planned_owners_exist:
  assumes "owners_complete config g"
  shows "\<forall>(pe, placement)\<in>set (enumerate 0 (pe_placements (gs_plan g))). \<exists>owner. dict_get (gs_agent_owners g) (int pe) = Some owner"
  using planned_owner_exists [OF assms] by (auto simp: in_set_enumerate_eq pe_count_def)

lemma aborted_evolves:
  assumes "evolves g g'" and "gs_phase g \<in> {Gen_ABORTING, Gen_STOPPED}"
  shows "gs_phase g' \<in> {Gen_ABORTING, Gen_STOPPED}"
proof -
  have steps: "generation_allows\<^sup>*\<^sup>* (gs_phase g) (gs_phase g')"
    using assms(1) barrier_steps_phase unfolding evolves_def by (metis barrier_abs_phase)
  have "ph' \<in> {Gen_ABORTING, Gen_STOPPED}" if "generation_allows ph ph'" "ph \<in> {Gen_ABORTING, Gen_STOPPED}" for ph ph'
    using that by (cases ph') (auto simp: generation_allows_def)
  with steps assms(2) show ?thesis by (induction rule: rtranclp_induct) blast+
qed

lemma owner_failure_evolves: "evolves g g' \<Longrightarrow> gs_owner_failure g \<noteq> None \<Longrightarrow> gs_owner_failure g' = gs_owner_failure g"
  by (simp add: evolves_def)

lemma steady_op_at: "steady_op m \<Longrightarrow> \<exists>g'. snd (m (Some g)) = Some g' \<and> evolves g g'"
  unfolding steady_op_def steady_def fine_def by blast

lemma reconcile_after_agents:
  assumes "watchdog_agents alive now book (Some g) = (Inr (), Some g1)"
  shows "\<exists>g'. snd (reconcile config alive now book transport (Some g)) = Some g' \<and> evolves g1 g'"
proof -
  let ?rest = "bind (watchdog_ranks alive now book transport) (\<lambda>_. bind (watchdog_timeouts config now) (\<lambda>_. watchdog_stop alive now))"
  have "steady_op ?rest" by (intro steady_op_bind watchdog_ranks_steady watchdog_timeouts_steady watchdog_stop_steady)
  from steady_op_at [OF this, of g1] show ?thesis using assms by (simp add: reconcile_def bind_def)
qed

lemma abort_after_failure:
  "\<exists>g'. abort now (Some (record_owner_failure failure g)) = (Inr (), Some g') \<and> gs_phase g' \<in> {Gen_ABORTING, Gen_STOPPED}
     \<and> gs_owner_failure g' \<noteq> None"
proof -
  obtain g' where g': "abort now (Some (record_owner_failure failure g)) = (Inr (), Some g')" "gs_phase g' \<in> {Gen_ABORTING, Gen_STOPPED}"
    using abort_result by blast
  have "evolves (record_owner_failure failure g) g'"
    using abort_fine [of "record_owner_failure failure g" now] g'(1) by (auto simp: fine_def)
  moreover have "gs_owner_failure (record_owner_failure failure g) \<noteq> None" by (simp add: record_owner_failure_def)
  ultimately show ?thesis using g' owner_failure_evolves by metis
qed

text \<open>
  C25: The watchdog detects every lost Agent. If the planned owner of a PE that has not finalized is not
  registered, is observed dead, was replaced in the registrations, or missed its heartbeats, one
  reconciliation leaves the generation aborting or stopped with an owner failure on record.
\<close>

theorem watchdog_detects_lost_agent:
  assumes "ctrl_ok config s" and "cs_fabric s = Some g" and "pe < pe_count g"
    and "dict_get (gs_agent_owners g) (int pe) = Some owner"
    and "\<not> (\<exists>report. dict_get (gs_participants g) (int pe) = Some report \<and> rep_phase report = Part_FINALIZED)"
    and "\<not> (\<exists>r. pe_registration (cs_registrations s) (pe_placements (gs_plan g) ! pe) = Some r
             \<and> alive owner \<and> reg_proc r = owner \<and> online now (Some r))"
  shows "\<exists>g'. cs_fabric (snd (watchdog_reconcile config alive now (Some g) s)) = Some g'
     \<and> gs_phase g' \<in> {Gen_ABORTING, Gen_STOPPED} \<and> gs_owner_failure g' \<noteq> None"
proof -
  let ?book = "cs_registrations s" and ?entries = "enumerate 0 (pe_placements (gs_plan g))"
  have complete: "owners_complete config g" using ctrl_okD(4) [OF assms(1)] assms(2) by (simp add: generation_scope_ok_def)
  have mem: "(pe, pe_placements (gs_plan g) ! pe) \<in> set ?entries"
    using assms(3) by (simp add: in_set_enumerate_eq pe_count_def)
  have "owner_failure_reason alive now owner (pe_registration ?book (pe_placements (gs_plan g) ! pe)) \<noteq> None"
    using assms(6) status_of_online [of now "pe_registration ?book (pe_placements (gs_plan g) ! pe)"]
    by (auto simp: owner_failure_reason_def status_of_def split: option.splits)
  from first_lost_agent_found [OF planned_owners_exist [OF complete] mem assms(4,5) this]
  obtain failure where "first_lost_agent alive now ?book g ?entries = Inr (Some failure)" by blast
  moreover obtain g1 where g1: "abort now (Some (record_owner_failure failure g)) = (Inr (), Some g1)"
    "gs_phase g1 \<in> {Gen_ABORTING, Gen_STOPPED}" "gs_owner_failure g1 \<noteq> None" using abort_after_failure by blast
  ultimately have "watchdog_agents alive now ?book (Some g) = (Inr (), Some g1)" by (simp add: watchdog_agents_def)
  from reconcile_after_agents [OF this] obtain g'
    where g': "snd (reconcile config alive now ?book (cs_transport s) (Some g)) = Some g'" "evolves g1 g'" by blast
  have "cs_fabric (snd (watchdog_reconcile config alive now (Some g) s)) = Some g'"
    using assms(2) g'(1)
    by (auto simp: watchdog_reconcile_def same_generation_def bind_def on_fabric_def ret_def split: prod.splits sum.splits)
  then show ?thesis using aborted_evolves [OF g'(2) g1(2)] owner_failure_evolves [OF g'(2) g1(3)] g1(3) by auto
qed

theorem watchdog_detects_lost_agent_witness:
  "\<exists>s g g'. ctrl_ok sample_config s \<and> cs_fabric s = Some g \<and> gs_phase g = Gen_PREPARING_JOIN
     \<and> cs_fabric (snd (watchdog_reconcile sample_config (\<lambda>_. False) 2 (Some g) s)) = Some g'
     \<and> gs_phase g' \<in> {Gen_ABORTING, Gen_STOPPED}"
proof -
  obtain s g history where tr: "trace sample_config sample_solver (s # history)" and g: "cs_fabric s = Some g"
    "gs_phase g = Gen_PREPARING_JOIN" "pe_count g = 3" "gs_participants g = []" by (rule sample_trace)
  have ok: "ctrl_ok sample_config s" using trace_ok [OF tr] by auto
  have "owners_complete sample_config g" using ctrl_okD(4) [OF ok] g(1) by (simp add: generation_scope_ok_def)
  then obtain owner where owner: "dict_get (gs_agent_owners g) (int 0) = Some owner"
    using planned_owner_exists [of sample_config g 0] g(3) by auto
  from watchdog_detects_lost_agent [OF ok g(1) _ owner, of "\<lambda>_. False" 2] g ok show ?thesis by auto
qed

end
