(* ===== verification/Control_Leases.thy ===== *)
theory Control_Leases
  imports Control_Operations
begin

section \<open>Draining the leases of an AtnAgent\<close>

text \<open>
  What \<^verbatim>\<open>quiesce_atnagent_transport_leases\<close> buys its caller: from the section that closes lease admission on, and
  for as long as that AtnAgent process stays registered for its device, the leases on the device only drain.
\<close>

definition quiesced :: "int \<Rightarrow> proc_uniq_id \<Rightarrow> transport_broker \<Rightarrow> bool" where
  "quiesced device owner b \<longleftrightarrow>
     (\<exists>state. dict_get (tb_atnagents b) device = Some state \<and> ts_owner state = owner \<and> \<not> accepting_leases state)"

text \<open>Every lease on the device after the step was there before.\<close>

definition leases_drain :: "int \<Rightarrow> transport_broker \<Rightarrow> transport_broker \<Rightarrow> bool" where
  "leases_drain device b b' \<longleftrightarrow>
     (\<forall>i l. dict_get (tb_leases b') i = Some l \<longrightarrow> lease_device l = device \<longrightarrow> dict_get (tb_leases b) i = Some l)"

lemma leases_drain_refl [simp]: "leases_drain device b b"
  by (simp add: leases_drain_def)

lemma leases_drain_trans: "leases_drain device b b' \<Longrightarrow> leases_drain device b' b'' \<Longrightarrow> leases_drain device b b''"
  by (simp add: leases_drain_def)

lemma leases_drain_same: "tb_leases b' = tb_leases b \<Longrightarrow> leases_drain device b b'"
  by (simp add: leases_drain_def)

lemma quiesced_is_quiescing: "quiesced device owner b \<Longrightarrow> is_quiescing device b"
  by (auto simp: quiesced_def is_quiescing_def)

lemma quiesced_refuses:
  assumes "quiesced device owner b"
  shows "\<exists>e. publication device i anyone b = Inl e \<and> daemon_error_is_recoverable e"
    and "\<exists>e. publish device anyone ps b = (Inl e, b)"
  using assms by (auto simp: quiesced_def publication_def publish_def require_owner_def raise_def)

subsection \<open>Sections that drain\<close>

text \<open>A section drains a quiesced owner: it leaves it quiesced and grants no lease on its device.\<close>

definition drains :: "int \<Rightarrow> proc_uniq_id \<Rightarrow> (control_state, 'a) op \<Rightarrow> bool" where
  "drains device owner m \<longleftrightarrow> (\<forall>s. quiesced device owner (cs_transport s) \<longrightarrow>
     quiesced device owner (cs_transport (snd (m s))) \<and> leases_drain device (cs_transport s) (cs_transport (snd (m s))))"

lemma drainsD:
  "drains device owner m \<Longrightarrow> quiesced device owner (cs_transport s) \<Longrightarrow>
     quiesced device owner (cs_transport (snd (m s))) \<and> leases_drain device (cs_transport s) (cs_transport (snd (m s)))"
  by (simp add: drains_def)

lemma frame_drains: "frame cs_transport m \<Longrightarrow> drains device owner m"
  by (simp add: frame_def drains_def)

lemma drains_bind:
  assumes "drains device owner m" and "\<And>x. drains device owner (f x)"
  shows "drains device owner (bind m f)"
  unfolding drains_def
proof (intro allI impI)
  fix s :: control_state assume q: "quiesced device owner (cs_transport s)"
  obtain r s' where m: "m s = (r, s')" by force
  note first = drainsD [OF assms(1) q, unfolded m snd_conv]
  show "quiesced device owner (cs_transport (snd (bind m f s))) \<and> leases_drain device (cs_transport s) (cs_transport (snd (bind m f s)))"
    using first drainsD [OF assms(2), of s'] m by (cases r) (auto simp: bind_def intro: leases_drain_trans)
qed

lemma drains_if: "drains device owner m \<Longrightarrow> drains device owner m' \<Longrightarrow> drains device owner (if c then m else m')"
  by simp

lemma drains_on_transport:
  assumes "\<And>b. quiesced device owner b \<Longrightarrow> quiesced device owner (snd (m b)) \<and> leases_drain device b (snd (m b))"
  shows "drains device owner (on_transport m)"
  using assms by (simp add: drains_def on_transport_def case_prod_unfold)

lemma transport_calls_drain:
  "drains device owner (on_transport (remove_instance i))"
  "drains device owner (on_transport (publish d anyone ps))"
  "drains device owner (on_transport (quiesce_leases d anyone))"
proof -
  show "drains device owner (on_transport (remove_instance i))"
    by (rule drains_on_transport) (auto simp: remove_instance_def ret_def quiesced_def leases_drain_def delete_conv' split: if_splits)
  show "drains device owner (on_transport (quiesce_leases d anyone))"
    by (rule drains_on_transport)
       (auto simp: quiesce_leases_def ret_def raise_def quiesced_def leases_drain_def require_owner_Inr split: sum.splits)
  show "drains device owner (on_transport (publish d anyone ps))"
  proof (rule drains_on_transport)
    fix b assume q: "quiesced device owner b"
    show "quiesced device owner (snd (publish d anyone ps b)) \<and> leases_drain device b (snd (publish d anyone ps b))"
    proof (cases "d = device")
      case True
      then show ?thesis using quiesced_refuses(2) [OF q, of anyone ps] q by auto
    next
      case False
      then show ?thesis using q
        by (auto simp: publish_def ret_def raise_def quiesced_def leases_drain_def Let_def split: sum.splits)
    qed
  qed
qed

lemma transport_frames:
  "frame cs_transport (start_visibility config uuids)" "frame cs_transport (start_scope oid)"
  "frame cs_transport (start_controller started)" "frame cs_transport (store_mps_status now result)"
  "frame cs_transport (global_warnings config now)" "frame cs_transport (begin_close d now)" "frame cs_transport close_complete"
  "frame cs_transport (retire_commit g any_alive)" "frame cs_transport (confirm_serving_health config targets)"
  "frame cs_transport (admit_commit alive request scope fabric identity)"
  by (auto simp: frame_def start_visibility_def start_scope_def start_controller_def store_mps_status_def begin_close_def
        close_complete_def retire_commit_def confirm_serving_health_def global_warnings_def admit_commit_def ret_def raise_def
        modify_def lift_result_def Let_def split: sum.splits option.splits)

lemma transport_fabric_frames:
  "frame cs_transport (agent_register_check role device proc now)" "frame cs_transport (instance_register_check registration now)"
  "frame cs_transport (close_quiesce fabric now deadline)" "frame cs_transport (request_fabric_quiesce request now)"
  "frame cs_transport (record_fabric_participant alive report now)" "frame cs_transport (watchdog_reconcile config alive now captured)"
  "frame cs_transport (step_context_state_capacity config reads now)" "frame cs_transport (install_commit fo membership plan policy)"
  by (auto simp: frame_def agent_register_check_def instance_register_check_def close_quiesce_def request_fabric_quiesce_def
        record_fabric_participant_def watchdog_reconcile_def step_context_state_capacity_def install_commit_def on_fabric_def
        modify_def bind_def ret_def raise_def Let_def
        split: option.splits sum.splits prod.splits)

lemma transport_call_frames [simp]:
  "frame cs_transport (on_fabric m1)" "frame cs_transport (on_instances m3)" "frame cs_transport (on_atnagents m4)"
  "frame cs_transport (on_ffnagents m5)" "frame cs_transport bump_revision" "frame cs_transport (watchdog_mark marks)"
  by (simp_all add: frame_def on_fabric_def on_instances_def on_atnagents_def on_ffnagents_def bump_revision_def watchdog_mark_def
        modify_def case_prod_unfold)

lemma transport_table_frames:
  "frame cs_transport (ffnagent_commit f specs ef alive)" "frame cs_transport (initialized_commit inst ready i)"
  unfolding ffnagent_commit_def initialized_commit_def
  by (auto intro!: frame_bind frame_modify split: option.split if_splits)

lemma instance_commit_drains: "drains device owner (instance_commit r existing alive)"
  unfolding instance_commit_def by (intro drains_bind drains_if transport_calls_drain) (simp_all add: frame_drains)

lemma deregister_commit_drains: "drains device owner (deregister_commit i r now)"
  unfolding deregister_commit_def by (intro drains_bind transport_calls_drain) (simp_all add: frame_drains)

lemma arenas_commit_drains: "drains device owner (arenas_commit config d bindings r)"
  unfolding arenas_commit_def by (intro drains_bind transport_calls_drain) (simp_all add: frame_drains)

lemma lease_quiesce_commit_drains: "drains device owner (lease_quiesce_commit d r)"
  unfolding lease_quiesce_commit_def by (intro drains_bind transport_calls_drain) (simp_all add: frame_drains)

text \<open>The lease section looks the publication up before it acquires: on the quiesced device it raises.\<close>

lemma lease_commit_drains: "drains device owner (lease_commit now d i r a)"
  unfolding drains_def
proof (intro allI impI)
  fix s :: control_state assume q: "quiesced device owner (cs_transport s)"
  obtain res s' where run: "lease_commit now d i r a s = (res, s')" by force
  show "quiesced device owner (cs_transport (snd (lease_commit now d i r a s)))
     \<and> leases_drain device (cs_transport s) (cs_transport (snd (lease_commit now d i r a s)))"
  proof (cases res)
    case (Inl e)
    then show ?thesis using run q lease_commit_raises [of now d i r a s] by auto
  next
    case (Inr handle)
    from run [unfolded Inr] show ?thesis
    proof (rule lease_commit_returns)
      fix a' p
      assume p: "publication d i (reg_proc a') (cs_transport s) = Inr p"
        and acq: "acquire i \<lparr>lease_device = d, lease_handle = handle, lease_publisher = reg_proc a'\<rparr> (cs_transport s) = (Inr (), cs_transport s')"
      have "d \<noteq> device" using quiesced_refuses(1) [OF q] p by (metis Inl_Inr_False)
      then show ?thesis using acq q run
        by (auto simp: acquire_def ret_def raise_def quiesced_def leases_drain_def split: option.splits if_splits
                 dest!: sym [of _ "cs_transport s'"])
    qed
  qed
qed

lemmas section_drains = transport_frames [THEN frame_drains] transport_fabric_frames [THEN frame_drains]
  transport_call_frames [THEN frame_drains] transport_table_frames [THEN frame_drains] instance_commit_drains
  deregister_commit_drains arenas_commit_drains lease_quiesce_commit_drains lease_commit_drains

text \<open>Registering an AtnAgent keeps the record of the same process and replaces that of another.\<close>

lemma install_atnagent_drains:
  assumes "quiesced device owner b" and "map_option ts_owner (dict_get (tb_atnagents (snd (install_atnagent d p b))) device) = Some owner"
  shows "quiesced device owner (snd (install_atnagent d p b))" and "leases_drain device b (snd (install_atnagent d p b))"
  using assms
  by (auto simp: install_atnagent_def ret_def quiesced_def AtnAgentTransportState_def leases_drain_def split: option.splits if_splits)

lemma atnagent_commit_transport:
  "cs_transport (snd (atnagent_commit r existing alive s)) = cs_transport s
   \<or> (\<exists>p. cs_transport (snd (atnagent_commit r existing alive s)) = snd (install_atnagent (atn_device r) p (cs_transport s)))"
  by (auto simp: atnagent_commit_def bind_def guard_not_def on_atnagents_def query_atnagent_def on_transport_def bump_revision_def
        modify_def ret_def raise_def split: sum.splits option.splits prod.splits) (metis snd_conv)+

lemma event_drains:
  assumes "quiesced device owner (cs_transport s)"
    and "map_option ts_owner (dict_get (tb_atnagents (cs_transport (event_step config e s))) device) = Some owner"
  shows "quiesced device owner (cs_transport (event_step config e s))
     \<and> leases_drain device (cs_transport s) (cs_transport (event_step config e s))"
proof (cases "\<exists>r existing alive. e = Atnagent_Commit r existing alive")
  case True
  then obtain r existing alive where e: "e = Atnagent_Commit r existing alive" by blast
  show ?thesis using atnagent_commit_transport [of r existing alive s] install_atnagent_drains [OF assms(1)] assms unfolding e
    by auto
next
  case False
  then show ?thesis by (cases e) (simp_all add: section_drains [THEN drainsD, OF assms(1)])
qed

subsection \<open>Quiescence over traces\<close>

lemma trace_suffix: "trace config place (later @ s # history) \<Longrightarrow> trace config place (s # history)"
proof (induction later)
  case (Cons t later)
  from Cons.prems [simplified] show ?case by (rule trace_ConsE) (use Cons.IH in auto)
qed simp

lemma drains_along:
  assumes "trace config place (later @ s0 # history)" and "quiesced device owner (cs_transport s0)"
    and "\<forall>s\<in>set later. map_option ts_owner (dict_get (tb_atnagents (cs_transport s)) device) = Some owner"
    and "s \<in> set (later @ [s0])"
  shows "quiesced device owner (cs_transport s) \<and> leases_drain device (cs_transport s0) (cs_transport s)"
  using assms(1,3,4)
proof (induction later arbitrary: s)
  case Nil
  then show ?case using assms(2) by simp
next
  case (Cons t later)
  from Cons.prems(1) [simplified] have "trace config place (later @ s0 # history)" by (rule trace_ConsE) auto
  note before = Cons.IH [OF this]
  from Cons.prems(1) [simplified] obtain s1 rest e where split: "later @ s0 # history = s1 # rest" "t = event_step config e s1"
    by (rule trace_ConsE) auto
  have s1: "s1 \<in> set (later @ [s0])" using split(1) by (cases later) auto
  have one: "quiesced device owner (cs_transport s1)" "leases_drain device (cs_transport s0) (cs_transport s1)"
    using before [OF _ s1] Cons.prems(2) by auto
  have "quiesced device owner (cs_transport t)" "leases_drain device (cs_transport s0) (cs_transport t)"
    using event_drains [OF one(1), of config e] one(2) Cons.prems(2) split(2) by (auto intro: leases_drain_trans)
  then show ?case using before Cons.prems(2,3) by auto
qed

lemma quiesced_sections_refuse:
  assumes "quiesced device owner (cs_transport s)"
  shows "\<exists>e. lease_commit now device i r a s = (Inl e, s)" and "\<exists>e. arenas_commit config device bindings a s = (Inl e, s)"
proof -
  have "\<exists>e. fst (lease_commit now device i r a s) = Inl e"
  proof (rule ccontr)
    assume "\<nexists>e. fst (lease_commit now device i r a s) = Inl e"
    then obtain handle s' where "lease_commit now device i r a s = (Inr handle, s')" by (cases "lease_commit now device i r a s") (metis fst_conv sum.exhaust)
    then show False by (rule lease_commit_returns) (use quiesced_refuses(1) [OF assms] in \<open>metis Inl_Inr_False\<close>)
  qed
  then show "\<exists>e. lease_commit now device i r a s = (Inl e, s)"
    using lease_commit_raises by (metis prod.collapse)
  obtain e where e: "publish device (reg_proc a) ps (cs_transport s) = (Inl (e ps), cs_transport s)" for ps
    using quiesced_refuses(2) [OF assms, of "reg_proc a"] by metis
  show "\<exists>e. arenas_commit config device bindings a s = (Inl e, s)"
    by (auto simp: arenas_commit_def bind_def guard_not_def reading_def on_transport_def raise_def ret_def e split: sum.splits)
qed

text \<open>
  C27: Quiesced leases only drain. From the section that closed lease admission of an AtnAgent on, whatever sections of
  whatever handlers run, and as long as that process stays the one registered for its device: the device stays quiescing, no
  section grants a lease on it or adds a publication to it, and every lease still held there was held before the section
  closed admission, by a rank the section collected (the response lists those of them that are alive). In particular, when
  the section collects nobody, the device stays free of leases. The trace lists states newest first; \<open>later\<close> are those after the section.
\<close>

theorem quiesced_leases_only_drain:
  assumes "lease_quiesce_commit device a before = (Inr users, s0)" and "trace config place (later @ s0 # before # history)"
    and "\<forall>s\<in>set later. map_option reg_proc (dict_get (book_atnagents (cs_registrations s)) device) = Some (reg_proc a)"
    and "s \<in> set (later @ [s0])"
  shows "is_quiescing device (cs_transport s)
     \<and> (\<forall>i l. dict_get (tb_leases (cs_transport s)) i = Some l \<longrightarrow> lease_device l = device \<longrightarrow>
          dict_get (tb_leases (cs_transport before)) i = Some l \<and> i \<in> reg_instance ` set users)
     \<and> (\<forall>now i r b. \<exists>e. lease_commit now device i r b s = (Inl e, s))
     \<and> (\<forall>bindings b. \<exists>e. arenas_commit config device bindings b s = (Inl e, s))"
proof -
  let ?owner = "reg_proc a"
  have ok: "ctrl_ok config t" if "t \<in> set (later @ s0 # before # history)" for t using trace_ok [OF assms(2)] that by auto
  have closed: "quiesced device ?owner (cs_transport s0)" "tb_leases (cs_transport s0) = tb_leases (cs_transport before)"
      "users = arena_users device None s0"
    using assms(1)
    by (auto simp: lease_quiesce_commit_def bind_def guard_not_def on_transport_def quiesce_leases_def reading_def raise_def ret_def
          quiesced_def require_owner_Inr split: if_splits sum.splits prod.splits)
  have owners: "\<forall>t\<in>set later. map_option ts_owner (dict_get (tb_atnagents (cs_transport t)) device) = Some ?owner"
  proof
    fix t assume "t \<in> set later"
    then show "map_option ts_owner (dict_get (tb_atnagents (cs_transport t)) device) = Some ?owner"
      using ok [of t] assms(3) by (simp add: ctrl_ok_def tables_ok_def)
  qed
  from drains_along [OF assms(2) closed(1) owners assms(4)]
  have q: "quiesced device ?owner (cs_transport s)" and drain: "leases_drain device (cs_transport s0) (cs_transport s)" by blast+
  have "i \<in> reg_instance ` set users" if l: "dict_get (tb_leases (cs_transport s0)) i = Some l" "lease_device l = device" for i l
  proof -
    have tables: "table_ok reg_instance (book_instances (cs_registrations s0))"
        "set (dict_keys (tb_leases (cs_transport s0))) \<subseteq> set (dict_keys (book_instances (cs_registrations s0)))"
      using ok [of s0] by (auto simp: ctrl_ok_def tables_ok_def book_ok_def)
    have "i \<in> set (dict_keys (tb_leases (cs_transport s0)))" using map_of_SomeD [OF l(1)] by force
    then obtain r where r: "dict_get (book_instances (cs_registrations s0)) i = Some r" 
      using tables(2) dom_map_of_conv_image_fst [of "book_instances (cs_registrations s0)"] by (force simp: dom_def)
    have "i \<in> set (leased_instances device None (cs_transport s0))" using map_of_SomeD [OF l(1)] l(2) by (force simp: leased_instances_def)
    then have "r \<in> set users" using r closed(3) by (force simp: arena_users_def query_def)
    then show ?thesis using table_ok_get [OF tables(1) r] by force
  qed
  then have "dict_get (tb_leases (cs_transport before)) i = Some l \<and> i \<in> reg_instance ` set users"
    if "dict_get (tb_leases (cs_transport s)) i = Some l" "lease_device l = device" for i l
    using drain that closed(2) unfolding leases_drain_def by metis
  then show ?thesis using quiesced_is_quiescing [OF q] quiesced_sections_refuse [OF q] by (intro conjI allI impI) simp_all
qed

definition sample_quiesced :: control_state where
  "sample_quiesced = event_step sample_config (Lease_Quiesce 0 (sample_registration 5 20)) sample_registered"

text \<open>The AtnAgent of device 0 quiesces its leases and then registers once more, as a retried request does.\<close>

definition sample_reregistered :: control_state where
  "sample_reregistered =
     event_step sample_config (Atnagent_Commit (sample_registration 7 20) (Some (sample_registration 5 20)) True) sample_quiesced"

lemma sample_quiesced_eval:
  "fst (lease_quiesce_commit 0 (sample_registration 5 20) sample_registered) = Inr []"
  "map_option reg_proc (dict_get (book_atnagents (cs_registrations sample_reregistered)) 0) = Some (reg_proc (sample_registration 5 20))"
  by code_simp+

theorem quiesced_leases_only_drain_witness:
  "is_quiescing 0 (cs_transport sample_reregistered) \<and> (\<exists>e. arenas_commit sample_config 0 [] (sample_registration 7 20) sample_reregistered = (Inl e, sample_reregistered))
     \<and> \<not> (\<exists>i l. dict_get (tb_leases (cs_transport sample_reregistered)) i = Some l \<and> lease_device l = 0)"
proof -
  have start: "trace sample_config sample_solver (ControlPlane # [])" by (rule trace.created)
  obtain h where "trace sample_config sample_solver (sample_registered # h)"
    using trace_setup [OF sample_setup_enabled start] unfolding sample_registered_def by (auto simp: ControlPlane_def)
  then have "trace sample_config sample_solver (sample_quiesced # sample_registered # h)"
    unfolding sample_quiesced_def by (rule trace.atomic_section) simp
  then have tr: "trace sample_config sample_solver ([sample_reregistered] @ sample_quiesced # sample_registered # h)"
    unfolding sample_reregistered_def append.simps by (rule trace.atomic_section) simp
  have run: "lease_quiesce_commit 0 (sample_registration 5 20) sample_registered = (Inr [], sample_quiesced)"
    using sample_quiesced_eval(1) by (simp add: sample_quiesced_def prod_eq_iff)
  from quiesced_leases_only_drain [OF run tr, of sample_reregistered] sample_quiesced_eval(2) show ?thesis by auto
qed

end
