(* ===== verification/Matching.thy ===== *)
theory Matching
  imports Prelude
begin

section \<open>Matchings in regular bipartite multigraphs\<close>

text \<open>
  The combinatorics behind the projection of aggregate FFN assignment counts (\<^verbatim>\<open>ffn_placement.py\<close>): a family
  of finite sets that satisfies Hall's condition has distinct representatives, hence a square matrix of
  nonnegative counts whose rows and columns all have the same positive sum contains a perfect matching, and
  taking one away leaves a matrix of the same kind. The second half relates perfect matchings to unit flows.
\<close>

subsection \<open>Distinct representatives\<close>

definition hall :: "'i set \<Rightarrow> ('i \<Rightarrow> 'a set) \<Rightarrow> bool" where
  "hall I A \<longleftrightarrow> (\<forall>J\<subseteq>I. card J \<le> card (\<Union> (A ` J)))"

lemma hall_violation:
  assumes "hall I A" and "\<not> hall I (A(i := A i - {y}))" and "finite I"
  obtains K where "K \<subseteq> I" and "i \<notin> K" and "card (\<Union> (A ` K) \<union> (A i - {y})) \<le> card K"
proof -
  let ?B = "A(i := A i - {y})"
  obtain J where J: "J \<subseteq> I" "card (\<Union> (?B ` J)) < card J" using assms(2) unfolding hall_def by (meson not_le)
  have "i \<in> J"
  proof (rule ccontr)
    assume "i \<notin> J"
    then have "\<Union> (?B ` J) = \<Union> (A ` J)" by auto
    then have "card J \<le> card (\<Union> (?B ` J))" using assms(1) J(1) by (simp only: hall_def)
    then show False using J(2) by simp
  qed
  then have "\<Union> (?B ` J) = \<Union> (A ` (J - {i})) \<union> (A i - {y})" by auto
  moreover have "card J = Suc (card (J - {i}))"
    using \<open>i \<in> J\<close> finite_subset [OF J(1) assms(3)] by (metis card_Suc_Diff1)
  ultimately have "card (\<Union> (A ` (J - {i})) \<union> (A i - {y})) \<le> card (J - {i})" using J(2) by simp
  then show thesis using J(1) that [of "J - {i}"] by blast
qed

lemma hall_shrinks:
  assumes "hall I A" and "finite I" and fin: "\<And>j. j \<in> I \<Longrightarrow> finite (A j)"
    and "i \<in> I" and "y \<in> A i" and "z \<in> A i" and "y \<noteq> z"
  shows "hall I (A(i := A i - {y})) \<or> hall I (A(i := A i - {z}))"
proof (rule ccontr)
  assume "\<not> ?thesis"
  then obtain K L where K: "K \<subseteq> I" "i \<notin> K" "card (\<Union> (A ` K) \<union> (A i - {y})) \<le> card K"
    and L: "L \<subseteq> I" "i \<notin> L" "card (\<Union> (A ` L) \<union> (A i - {z})) \<le> card L"
    using hall_violation assms(1,2) by (metis (no_types, lifting))
  let ?U = "\<Union> (A ` K) \<union> (A i - {y})" and ?V = "\<Union> (A ` L) \<union> (A i - {z})"
  have fins: "finite K" "finite L" using K(1) L(1) assms(2) finite_subset by auto
  have finite_sets: "finite ?U" "finite ?V" using fin K(1) L(1) fins assms(4) by (auto intro: finite_subset)
  have "?U \<union> ?V = \<Union> (A ` insert i (K \<union> L))" using assms(7) by auto
  moreover have "card (insert i (K \<union> L)) \<le> card (\<Union> (A ` insert i (K \<union> L)))"
    using assms(1,4) K(1) L(1) unfolding hall_def by (meson insert_subset Un_least)
  ultimately have union: "Suc (card (K \<union> L)) \<le> card (?U \<union> ?V)" using K(2) L(2) fins by simp
  have "card (K \<inter> L) \<le> card (\<Union> (A ` (K \<inter> L)))" using assms(1) K(1) unfolding hall_def by (meson inf.coboundedI1)
  also have "\<dots> \<le> card (?U \<inter> ?V)" by (rule card_mono) (use finite_sets in auto)
  finally have "Suc (card (K \<union> L)) + card (K \<inter> L) \<le> card ?U + card ?V"
    using union card_Un_Int [OF finite_sets] by simp
  then show False using K(3) L(3) card_Un_Int [OF fins] by simp
qed

lemma hall_singletons:
  assumes "hall I A" and "finite I" and "\<And>j. j \<in> I \<Longrightarrow> finite (A j)" and "\<And>j. j \<in> I \<Longrightarrow> card (A j) \<le> 1"
  shows "\<exists>f. inj_on f I \<and> (\<forall>i\<in>I. f i \<in> A i)"
proof -
  have one: "card (A j) = 1" if "j \<in> I" for j
  proof -
    have "card {j} \<le> card (\<Union> (A ` {j}))"
      using assms(1) that unfolding hall_def by (simp only: insert_subset empty_subsetI simp_thms)
    then show ?thesis using assms(4) [OF that] by simp
  qed
  define f where "f j = the_elem (A j)" for j
  have A: "A j = {f j}" if "j \<in> I" for j
  proof -
    from one [OF that] obtain y where "A j = {y}" by (rule card_1_singletonE)
    then show ?thesis by (simp add: f_def)
  qed
  have "inj_on f I"
  proof (rule inj_onI, rule ccontr)
    fix i j assume ij: "i \<in> I" "j \<in> I" "f i = f j" "i \<noteq> j"
    have "card {i, j} \<le> card (\<Union> (A ` {i, j}))"
      using assms(1) ij(1,2) unfolding hall_def by (simp only: insert_subset empty_subsetI simp_thms)
    moreover have "\<Union> (A ` {i, j}) = {f j}" using A [OF ij(1)] A [OF ij(2)] ij(3) by simp
    ultimately show False using ij(4) by simp
  qed
  moreover have "\<forall>i\<in>I. f i \<in> A i" by (intro ballI) (simp add: A)
  ultimately show ?thesis by blast
qed

theorem distinct_representatives:
  assumes "hall I A" and "finite I" and "\<And>j. j \<in> I \<Longrightarrow> finite (A j)"
  shows "\<exists>f. inj_on f I \<and> (\<forall>i\<in>I. f i \<in> A i)"
  using assms
proof (induction "\<Sum>i\<in>I. card (A i)" arbitrary: A rule: less_induct)
  case less
  show ?case
  proof (cases "\<forall>j\<in>I. card (A j) \<le> 1")
    case True
    then show ?thesis using hall_singletons less.prems by blast
  next
    case False
    then obtain i where i: "i \<in> I" "1 < card (A i)" by auto
    then obtain y z where yz: "y \<in> A i" "z \<in> A i" "y \<noteq> z"
      by (metis One_nat_def card_le_Suc0_iff_eq less.prems(3) not_le)
    from hall_shrinks [OF less.prems i(1) yz]
    obtain x where x: "x \<in> A i" "hall I (A(i := A i - {x}))" using yz by blast
    let ?B = "A(i := A i - {x})"
    have "(\<Sum>j\<in>I. card (?B j)) < (\<Sum>j\<in>I. card (A j))"
      by (rule sum_strict_mono_ex1) (use less.prems i x in \<open>auto intro!: card_mono bexI [of _ i] psubset_card_mono\<close>)
    moreover have "\<And>j. j \<in> I \<Longrightarrow> finite (?B j)" using less.prems(3) i(1) by auto
    ultimately obtain f where "inj_on f I" "\<forall>j\<in>I. f j \<in> ?B j"
      using less.hyps [of ?B] x(2) less.prems(2) by blast
    then show ?thesis by (auto split: if_splits intro!: exI [of _ f])
  qed
qed

subsection \<open>Regular count matrices\<close>

text \<open>A square matrix of nonnegative counts with row and column sums \<open>k\<close>.\<close>

definition regular :: "nat \<Rightarrow> int \<Rightarrow> (nat \<Rightarrow> nat \<Rightarrow> int) \<Rightarrow> bool" where
  "regular n k M \<longleftrightarrow> (\<forall>i<n. \<forall>j<n. 0 \<le> M i j) \<and> (\<forall>i<n. (\<Sum>j<n. M i j) = k) \<and> (\<forall>j<n. (\<Sum>i<n. M i j) = k)"

definition perfect :: "nat \<Rightarrow> (nat \<Rightarrow> nat \<Rightarrow> int) \<Rightarrow> (nat \<Rightarrow> nat) \<Rightarrow> bool" where
  "perfect n M f \<longleftrightarrow> bij_betw f {..<n} {..<n} \<and> (\<forall>i<n. M i (f i) \<noteq> 0)"

lemma regular_hall:
  assumes "regular n k M" and "0 < k"
  shows "hall {..<n} (\<lambda>i. {j. j < n \<and> M i j \<noteq> 0})"
  unfolding hall_def
proof (intro allI impI)
  fix J :: "nat set" assume J: "J \<subseteq> {..<n}"
  let ?N = "\<Union> ((\<lambda>i. {j. j < n \<and> M i j \<noteq> 0}) ` J)"
  have fin: "finite ?N" by (rule finite_subset [of _ "{..<n}"]) auto
  have "k * int (card J) = (\<Sum>i\<in>J. \<Sum>j<n. M i j)"
    using J assms(1) by (subst sum.cong [OF refl, of J _ "\<lambda>_. k"]) (auto simp: regular_def)
  also have "\<dots> = (\<Sum>i\<in>J. \<Sum>j\<in>?N. M i j)"
    by (intro sum.cong refl sum.mono_neutral_right) auto
  also have "\<dots> = (\<Sum>j\<in>?N. \<Sum>i\<in>J. M i j)" by (rule sum.swap)
  also have "\<dots> \<le> (\<Sum>j\<in>?N. \<Sum>i<n. M i j)"
    by (intro sum_mono sum_mono2) (use J assms(1) in \<open>auto simp: regular_def\<close>)
  also have "\<dots> = (\<Sum>j\<in>?N. k)" by (rule sum.cong) (use assms(1) in \<open>auto simp: regular_def\<close>)
  also have "\<dots> = k * int (card ?N)" by simp
  finally show "card J \<le> card ?N" using assms(2) by simp
qed

theorem regular_has_matching:
  assumes "regular n k M" and "0 < k"
  shows "\<exists>f. perfect n M f"
proof -
  obtain f where f: "inj_on f {..<n}" "\<forall>i\<in>{..<n}. f i \<in> {j. j < n \<and> M i j \<noteq> 0}"
    using distinct_representatives [OF regular_hall [OF assms]] by auto
  then have "f ` {..<n} \<subseteq> {..<n}" by auto
  then have "f ` {..<n} = {..<n}" using f(1) by (simp add: endo_inj_surj)
  with f show ?thesis by (auto simp: perfect_def bij_betw_def)
qed

lemma column_of_matching:
  fixes f :: "nat \<Rightarrow> nat"
  assumes "bij_betw f {..<n} {..<n}" and "j < n"
  shows "(\<Sum>i<n. if f i = j then (1::int) else 0) = 1"
proof -
  have "j \<in> f ` {..<n}" using assms by (simp add: bij_betw_def)
  then obtain i where i: "i < n" "f i = j" by auto
  have "f i' = j \<longleftrightarrow> i' = i" if "i' < n" for i'
    using that i assms(1) by (auto simp: bij_betw_def dest: inj_onD)
  then have "(\<Sum>i<n. if f i = j then (1::int) else 0) = (\<Sum>i'\<in>{..<n}. if i' = i then 1 else 0)"
    by (intro sum.cong) auto
  also have "\<dots> = 1" using i(1) by (subst sum.delta) auto
  finally show ?thesis .
qed

text \<open>Peeling one perfect matching off a regular matrix lowers its degree by one.\<close>

lemma regular_peel:
  assumes "regular n k M" and "perfect n M f"
  shows "regular n (k - 1) (\<lambda>i j. M i j - (if f i = j then 1 else 0))"
proof -
  have nonneg: "0 \<le> M i j - (if f i = j then 1 else 0)" if "i < n" "j < n" for i j
  proof -
    have "0 \<le> M i j" "f i = j \<Longrightarrow> M i j \<noteq> 0" using assms that by (auto simp: regular_def perfect_def)
    then show ?thesis by auto
  qed
  have "f i < n" if "i < n" for i using assms(2) that by (auto simp: perfect_def bij_betw_def)
  then have "(\<Sum>j<n. M i j - (if f i = j then 1 else 0)) = k - 1" if "i < n" for i
    using assms(1) that by (simp add: sum_subtractf regular_def)
  moreover have "(\<Sum>i<n. M i j - (if f i = j then 1 else 0)) = k - 1" if "j < n" for j
    using assms column_of_matching [of f n j] that by (simp add: sum_subtractf regular_def perfect_def)
  ultimately show ?thesis using nonneg by (simp add: regular_def)
qed

lemma regular_zero:
  assumes "regular n 0 M" and "i < n" and "j < n"
  shows "M i j = 0"
proof -
  have "(\<Sum>j<n. M i j) = 0" "\<forall>j<n. 0 \<le> M i j" using assms by (auto simp: regular_def)
  then have "\<forall>j\<in>{..<n}. M i j = 0" by (subst (asm) sum_nonneg_eq_0_iff) auto
  then show ?thesis using assms(3) by simp
qed

subsection \<open>Unit flows\<close>

text \<open>
  Where every capacity is one, an integral flow is a set of arcs that enters and leaves every inner node
  equally often. The value of a maximum flow is attained by one and exceeded by none.
\<close>

definition unit_flow :: "(nat \<times> nat) set \<Rightarrow> nat \<Rightarrow> nat \<Rightarrow> (nat \<times> nat) set \<Rightarrow> bool" where
  "unit_flow E s t F \<longleftrightarrow> F \<subseteq> E
     \<and> (\<forall>v. v \<noteq> s \<and> v \<noteq> t \<longrightarrow> card {e \<in> F. snd e = v} = card {e \<in> F. fst e = v})"

definition flow_value :: "nat \<Rightarrow> (nat \<times> nat) set \<Rightarrow> int" where
  "flow_value s F = int (card {e \<in> F. fst e = s}) - int (card {e \<in> F. snd e = s})"

definition max_unit_flow :: "(nat \<times> nat) set \<Rightarrow> nat \<Rightarrow> nat \<Rightarrow> int \<Rightarrow> bool" where
  "max_unit_flow E s t v \<longleftrightarrow> (\<exists>F. unit_flow E s t F \<and> flow_value s F = v)
     \<and> (\<forall>F. unit_flow E s t F \<longrightarrow> flow_value s F \<le> v)"

text \<open>The network of a bipartite graph: source \<open>0\<close>, left nodes \<open>1 + r\<close>, right nodes \<open>1 + n + a\<close>, sink \<open>1 + 2 n\<close>.\<close>

definition bipartite :: "nat \<Rightarrow> nat set \<Rightarrow> nat set \<Rightarrow> (nat \<Rightarrow> nat \<Rightarrow> bool) \<Rightarrow> (nat \<times> nat) set" where
  "bipartite n X Y P = (\<lambda>r. (0, 1 + r)) ` X \<union> {(1 + r, 1 + n + a) | r a. r \<in> X \<and> a \<in> Y \<and> P r a}
     \<union> (\<lambda>a. (1 + n + a, 1 + 2 * n)) ` Y"

lemma bipartite_source:
  assumes "F \<subseteq> bipartite n X Y P"
  shows "{e \<in> F. fst e = 0} \<subseteq> (\<lambda>r. (0, 1 + r)) ` X" and "{e \<in> F. snd e = 0} = {}"
  using assms by (auto simp: bipartite_def)

lemma bipartite_left:
  assumes "F \<subseteq> bipartite n X Y P" and "X \<subseteq> {..<n}" and "r < n"
  shows "{e \<in> F. snd e = 1 + r} = {(0, 1 + r)} \<inter> F"
    and "{e \<in> F. fst e = 1 + r} = (\<lambda>a. (1 + r, 1 + n + a)) ` {a \<in> Y. r \<in> X \<and> P r a \<and> (1 + r, 1 + n + a) \<in> F}"
  using assms by (auto simp: bipartite_def)

lemma bipartite_right:
  assumes "F \<subseteq> bipartite n X Y P" and "X \<subseteq> {..<n}" and "a < n"
  shows "{e \<in> F. fst e = 1 + n + a} = {(1 + n + a, 1 + 2 * n)} \<inter> F"
    and "{e \<in> F. snd e = 1 + n + a} = (\<lambda>r. (1 + r, 1 + n + a)) ` {r \<in> X. (1 + r, 1 + n + a) \<in> F}"
  using assms by (auto simp: bipartite_def)

lemma flow_value_bound:
  assumes "F \<subseteq> bipartite n X Y P" and "finite X"
  shows "flow_value 0 F \<le> int (card X)"
proof -
  have "card {e \<in> F. fst e = 0} \<le> card ((\<lambda>r. (0::nat, 1 + r)) ` X)"
    using bipartite_source(1) [OF assms(1)] assms(2) by (auto intro: card_mono)
  also have "\<dots> \<le> card X" using assms(2) by (rule card_image_le)
  finally show ?thesis by (simp add: flow_value_def)
qed

lemma saturated_flow_matches:
  assumes flow: "unit_flow (bipartite n X Y P) 0 (1 + 2 * n) F" and "flow_value 0 F = int (card X)"
    and sub: "X \<subseteq> {..<n}" "Y \<subseteq> {..<n}" and "card X = card Y"
  shows "\<exists>f. bij_betw f X Y \<and> (\<forall>r\<in>X. P r (f r))"
proof -
  have F: "F \<subseteq> bipartite n X Y P" and fin: "finite X" "finite Y"
    using flow sub finite_subset by (auto simp: unit_flow_def)
  have balance: "card {e \<in> F. snd e = v} = card {e \<in> F. fst e = v}" if "v \<noteq> 0" "v \<noteq> 1 + 2 * n" for v
    using flow that by (auto simp: unit_flow_def)
  have "card {e \<in> F. fst e = 0} = card ((\<lambda>r. (0::nat, 1 + r)) ` X)"
    using assms(2) bipartite_source(2) [OF F] by (simp add: flow_value_def card_image inj_on_def)
  then have source: "{e \<in> F. fst e = 0} = (\<lambda>r. (0, 1 + r)) ` X"
    using card_subset_eq [OF _ bipartite_source(1) [OF F]] fin by simp
  define out where "out r = {a \<in> Y. r \<in> X \<and> P r a \<and> (1 + r, 1 + n + a) \<in> F}" for r
  have "card (out r) = 1" if "r \<in> X" for r
  proof -
    have r: "r < n" using that sub by auto
    have "(0, 1 + r) \<in> F" using source that by blast
    then have "card {e \<in> F. snd e = 1 + r} = 1" using bipartite_left(1) [OF F sub(1) r] by simp
    moreover have "card {e \<in> F. fst e = 1 + r} = card (out r)"
      unfolding bipartite_left(2) [OF F sub(1) r] out_def by (rule card_image) (simp add: inj_on_def)
    ultimately show ?thesis using balance [of "1 + r"] r by simp
  qed
  then have "\<forall>r\<in>X. \<exists>a. out r = {a}" by (meson card_1_singletonE)
  then obtain f where f: "\<And>r. r \<in> X \<Longrightarrow> out r = {f r}" by metis
  have edge: "f r \<in> Y" "P r (f r)" "(1 + r, 1 + n + f r) \<in> F" if "r \<in> X" for r
  proof -
    have "f r \<in> out r" using f [OF that] by simp
    then show "f r \<in> Y" "P r (f r)" "(1 + r, 1 + n + f r) \<in> F" by (simp_all add: out_def)
  qed
  have "inj_on f X"
  proof (rule inj_onI)
    fix r q assume rq: "r \<in> X" "q \<in> X" "f r = f q"
    have a: "f r < n" using edge(1) [OF rq(1)] sub by auto
    let ?in = "{p \<in> X. (1 + p, 1 + n + f r) \<in> F}"
    have "card ?in = card {e \<in> F. snd e = 1 + n + f r}"
      unfolding bipartite_right(2) [OF F sub(1) a] by (rule card_image [symmetric]) (simp add: inj_on_def)
    also have "\<dots> = card ({(1 + n + f r, 1 + 2 * n)} \<inter> F)"
      using balance [of "1 + n + f r"] bipartite_right(1) [OF F sub(1) a] a by simp
    also have "\<dots> \<le> card {(1 + n + f r, 1 + 2 * n)}" by (rule card_mono) auto
    finally have "card ?in \<le> 1" by simp
    moreover have "r \<in> ?in" "q \<in> ?in" using rq edge(3) [OF rq(1)] edge(3) [OF rq(2)] by simp_all
    ultimately show "r = q" using fin(1) by (metis (no_types, lifting) One_nat_def card_le_Suc0_iff_eq finite_Collect_conjI finite_subset mem_Collect_eq subsetI)
  qed
  moreover have "f ` X \<subseteq> Y" using edge(1) by auto
  ultimately have "f ` X = Y" using fin assms(5) by (metis card_image card_subset_eq)
  then show ?thesis using \<open>inj_on f X\<close> edge(2) by (auto simp: bij_betw_def)
qed

lemma matching_balanced:
  assumes "bij_betw f X Y" and sub: "X \<subseteq> {..<n}" "Y \<subseteq> {..<n}" and v: "v \<noteq> 0" "v \<noteq> 1 + 2 * n"
  shows "card {e \<in> bipartite n X Y (\<lambda>r a. a = f r). snd e = v}
     = card {e \<in> bipartite n X Y (\<lambda>r a. a = f r). fst e = v}"
proof -
  let ?F = "bipartite n X Y (\<lambda>r a. a = f r)"
  have f: "inj_on f X" "f ` X = Y" using assms(1) by (auto simp: bij_betw_def)
  consider r where "v = 1 + r" "r < n" | a where "v = 1 + n + a" "a < n" | "v > 1 + 2 * n"
    using v by (metis (no_types, lifting) Suc_eq_plus1_left add.assoc add_less_cancel_left le_add_diff_inverse linorder_neqE_nat mult_2 not0_implies_Suc not_less)
  then show ?thesis
  proof cases
    case 1
    have "{a \<in> Y. r \<in> X \<and> a = f r \<and> (1 + r, 1 + n + a) \<in> ?F} = (if r \<in> X then {f r} else {})"
      using f by (auto simp: bipartite_def)
    moreover have "{(0, 1 + r)} \<inter> ?F = (if r \<in> X then {(0, 1 + r)} else {})" by (auto simp: bipartite_def)
    ultimately show ?thesis
      unfolding 1(1) bipartite_left [OF order_refl sub(1) 1(2)] by simp
  next
    case 2
    have "{(1 + n + a, 1 + 2 * n)} \<inter> ?F = (if a \<in> Y then {(1 + n + a, 1 + 2 * n)} else {})"
      using sub 2(2) by (auto simp: bipartite_def)
    moreover have "card {r \<in> X. (1 + r, 1 + n + a) \<in> ?F} = (if a \<in> Y then 1 else 0)"
    proof (cases "a \<in> Y")
      case True
      then obtain r where "r \<in> X" "a = f r" using f(2) by auto
      then have "{r \<in> X. (1 + r, 1 + n + a) \<in> ?F} = {r}"
        using f True sub by (auto simp: bipartite_def dest: inj_onD)
      then show ?thesis using True by simp
    next
      case False
      then have "{r \<in> X. (1 + r, 1 + n + a) \<in> ?F} = {}" using sub 2(2) by (auto simp: bipartite_def)
      then show ?thesis using False by (simp only: card.empty if_False)
    qed
    moreover have "card {e \<in> ?F. snd e = 1 + n + a} = card {r \<in> X. (1 + r, 1 + n + a) \<in> ?F}"
      unfolding bipartite_right(2) [OF order_refl sub(1) 2(2)] by (rule card_image) (simp add: inj_on_def)
    ultimately show ?thesis unfolding 2(1) bipartite_right(1) [OF order_refl sub(1) 2(2)] by simp
  next
    case 3
    then have "{e \<in> ?F. snd e = v} = {}" "{e \<in> ?F. fst e = v} = {}" using sub by (auto simp: bipartite_def)
    then show ?thesis by (simp only: card.empty)
  qed
qed

lemma matching_saturates:
  assumes "bij_betw f X Y" and "\<forall>r\<in>X. P r (f r)" and sub: "X \<subseteq> {..<n}" "Y \<subseteq> {..<n}"
  shows "\<exists>F. unit_flow (bipartite n X Y P) 0 (1 + 2 * n) F \<and> flow_value 0 F = int (card X)"
proof -
  let ?F = "bipartite n X Y (\<lambda>r a. a = f r)"
  have "?F \<subseteq> bipartite n X Y P" using assms(2) by (auto simp: bipartite_def)
  then have "unit_flow (bipartite n X Y P) 0 (1 + 2 * n) ?F"
    using matching_balanced [OF assms(1) sub] by (simp add: unit_flow_def)
  moreover have "{e \<in> ?F. fst e = 0} = (\<lambda>r. (0, 1 + r)) ` X" by (auto simp: bipartite_def)
  then have "flow_value 0 ?F = int (card X)"
    unfolding flow_value_def bipartite_source(2) [OF order_refl] by (simp add: card_image inj_on_def)
  ultimately show ?thesis by blast
qed

theorem max_flow_counts_matching:
  assumes "max_unit_flow (bipartite n X Y P) 0 (1 + 2 * n) v" and sub: "X \<subseteq> {..<n}" "Y \<subseteq> {..<n}" and "card X = card Y"
  shows "v = int (card Y) \<longleftrightarrow> (\<exists>f. bij_betw f X Y \<and> (\<forall>r\<in>X. P r (f r)))"
proof
  obtain F where F: "unit_flow (bipartite n X Y P) 0 (1 + 2 * n) F" "flow_value 0 F = v"
    and best: "\<And>F. unit_flow (bipartite n X Y P) 0 (1 + 2 * n) F \<Longrightarrow> flow_value 0 F \<le> v"
    using assms(1) by (auto simp: max_unit_flow_def)
  show "\<exists>f. bij_betw f X Y \<and> (\<forall>r\<in>X. P r (f r))" if "v = int (card Y)"
    using saturated_flow_matches [OF F(1) _ sub assms(4)] F(2) that assms(4) by simp
  show "v = int (card Y)" if "\<exists>f. bij_betw f X Y \<and> (\<forall>r\<in>X. P r (f r))"
  proof -
    have "int (card X) \<le> v" using that matching_saturates [OF _ _ sub] best by metis
    moreover have "v \<le> int (card X)"
      using flow_value_bound [of F n X Y P] F finite_subset [OF sub(1)] by (auto simp: unit_flow_def)
    ultimately show ?thesis using assms(4) by simp
  qed
qed

end
