(* ===== verification/Placement.thy ===== *)
theory Placement
  imports Matching
begin

section \<open>Projection of FFN assignment counts\<close>

text \<open>
  \<^verbatim>\<open>xpool/service/daemon/ffn_placement.py\<close>, the deterministic projection that follows the constraint solver: a
  rank-by-FfnAgent matrix of assignment counts is completed to a regular matrix by dummy ranks and peeled
  into lexicographically first perfect matchings, each of which names one tensor-parallel group. The
  maximum-flow solver the feasibility test calls is a library outside the repository: it is the parameter
  \<open>solve\<close>, and \<open>flow_correct\<close> states what its documentation promises for the unit networks built here. The
  monotonic clock is a function from the number of readings made so far, so an operation's state counts
  readings.
\<close>

datatype flow_status = Flow_OPTIMAL | Flow_POSSIBLE_OVERFLOW | Flow_BAD_INPUT | Flow_BAD_RESULT

type_synonym flow_solver = "(nat \<times> nat \<times> int) list \<Rightarrow> nat \<Rightarrow> nat \<Rightarrow> flow_status \<times> int"

type_synonym 'a timed = "(nat, 'a) op"

definition remaining_placement_seconds :: "(nat \<Rightarrow> real) \<Rightarrow> real \<Rightarrow> string \<Rightarrow> real timed" where
  "remaining_placement_seconds clock deadline phase n =
     (let remaining = deadline - clock n
      in if remaining \<le> 0
         then (Inl (XpoolDaemonError NotReady (''FFN Placement deadline expired during '' @ phase)), Suc n)
         else (Inr remaining, Suc n))"

definition entry :: "int list list \<Rightarrow> nat \<Rightarrow> nat \<Rightarrow> int result" where
  "entry counts rank agent = rbind (index_at counts rank) (\<lambda>row. index_at row agent)"

definition rank_arcs :: "int list list \<Rightarrow> nat list \<Rightarrow> nat \<Rightarrow> (nat \<times> nat \<times> int) list result" where
  "rank_arcs counts remaining_agents rank =
     rbind (rmap (\<lambda>agent. rbind (entry counts rank agent) (\<lambda>v. Inr (agent, v))) remaining_agents) (\<lambda>entries.
       Inr ((0, 1 + rank, 1)
            # map (\<lambda>(agent, _). (1 + rank, 1 + length counts + agent, 1)) (filter (\<lambda>(_, v). v \<noteq> 0) entries)))"

definition matching_arcs :: "int list list \<Rightarrow> nat list \<Rightarrow> nat list \<Rightarrow> (nat \<times> nat \<times> int) list result" where
  "matching_arcs counts prefix remaining_agents =
     rbind (rmap (rank_arcs counts remaining_agents) [length prefix..<length counts]) (\<lambda>arcs.
       Inr (concat arcs
            @ map (\<lambda>agent. (1 + length counts + agent, 1 + length counts + length counts, 1)) remaining_agents))"

definition perfect_matching_exists ::
    "(nat \<Rightarrow> real) \<Rightarrow> flow_solver \<Rightarrow> real \<Rightarrow> int list list \<Rightarrow> nat list \<Rightarrow> bool timed" where
  "perfect_matching_exists clock solve deadline counts prefix =
     bind (remaining_placement_seconds clock deadline ''matching projection'') (\<lambda>_.
       if card (set prefix) \<noteq> length prefix then ret False
       else bind (lift_result (rany (\<lambda>(rank, agent). rbind (entry counts rank agent) (\<lambda>v. Inr (v = 0)))
                                 (enumerate 0 prefix))) (\<lambda>missing.
         if missing then ret False
         else let remaining_agents = filter (\<lambda>agent. agent \<notin> set prefix) [0..<length counts]
              in if remaining_agents = [] then ret True
                 else bind (lift_result (matching_arcs counts prefix remaining_agents)) (\<lambda>arcs.
                        let (status, value) = solve arcs 0 (1 + length counts + length counts)
                        in bind (remaining_placement_seconds clock deadline ''matching projection'') (\<lambda>_.
                             if status \<noteq> Flow_OPTIMAL
                             then raise (RuntimeError ''FFN Placement matching flow returned an unexpected status'')
                             else ret (value = int (length remaining_agents))))))"

text \<open>One dummy rank takes its degree from the deficits, left to right.\<close>

fun dummy_row :: "int \<Rightarrow> int list \<Rightarrow> int list \<times> int \<times> int list" where
  "dummy_row remaining [] = ([], remaining, [])"
| "dummy_row remaining (deficit # deficits) =
     (let assigned = min remaining deficit;
          (row, rest, deficits') = dummy_row (remaining - assigned) deficits
      in (assigned # row, rest, (deficit - assigned) # deficits'))"

fun dummy_rows :: "int \<Rightarrow> nat \<Rightarrow> int list \<Rightarrow> (int list list \<times> int list) result" where
  "dummy_rows degree 0 deficits = Inr ([], deficits)"
| "dummy_rows degree (Suc n) deficits =
     (let (row, remaining, deficits') = dummy_row degree deficits
      in if remaining \<noteq> 0 then Inl (RuntimeError ''FFN Placement dummy-edge regularization failed'')
         else rbind (dummy_rows degree n deficits') (\<lambda>(rows, final). Inr (row # rows, final)))"

definition regularize :: "int list list \<Rightarrow> int list list result" where
  "regularize counts =
     rbind (index_at counts 0) (\<lambda>first.
       let tp_size = length counts; ffnagent_count = length first; degree = sum_list first
       in if tp_size > ffnagent_count \<or> (\<exists>row\<in>set counts. sum_list row \<noteq> degree)
          then Inl (RuntimeError ''FFN Placement aggregate counts are not rank regular'')
          else rbind (rmap (\<lambda>agent. rbind (rmap (\<lambda>rank. entry counts rank agent) [0..<tp_size])
                                      (\<lambda>column. Inr (degree - sum_list column))) [0..<ffnagent_count]) (\<lambda>deficits.
            if \<exists>deficit\<in>set deficits. deficit < 0
            then Inl (RuntimeError ''FFN Placement aggregate counts cannot be regularized'')
            else rbind (dummy_rows degree (ffnagent_count - tp_size) deficits) (\<lambda>(rows, final).
              let residual = counts @ rows
              in if (\<exists>deficit\<in>set final. deficit \<noteq> 0) \<or> (\<exists>row\<in>set residual. sum_list row \<noteq> degree)
                 then Inl (RuntimeError ''FFN Placement regularized graph has invalid degree'')
                 else Inr residual)))"

fun first_extension :: "(nat list \<Rightarrow> bool timed) \<Rightarrow> nat list \<Rightarrow> nat list \<Rightarrow> nat list option timed" where
  "first_extension feasible prefix [] = ret None"
| "first_extension feasible prefix (agent # agents) =
     bind (feasible (prefix @ [agent])) (\<lambda>ok.
       if ok then ret (Some (prefix @ [agent])) else first_extension feasible prefix agents)"

fun first_matching :: "(nat list \<Rightarrow> bool timed) \<Rightarrow> nat \<Rightarrow> nat \<Rightarrow> nat list \<Rightarrow> nat list timed" where
  "first_matching feasible count 0 prefix = ret prefix"
| "first_matching feasible count (Suc n) prefix =
     bind (first_extension feasible prefix [0..<count]) (\<lambda>extension.
       case extension of
         None \<Rightarrow> raise (RuntimeError ''FFN Placement has no matching extension'')
       | Some longer \<Rightarrow> first_matching feasible count n longer)"

text \<open>\<^verbatim>\<open>counts[rank][agent] += delta\<close> for every edge of a group.\<close>

fun shift_edges :: "int \<Rightarrow> int list list \<Rightarrow> (nat \<times> nat) list \<Rightarrow> int list list result" where
  "shift_edges delta counts [] = Inr counts"
| "shift_edges delta counts ((rank, agent) # edges) =
     rbind (index_at counts rank) (\<lambda>row.
     rbind (index_at row agent) (\<lambda>v.
       shift_edges delta (counts[rank := row[agent := v + delta]]) edges))"

fun peel_groups ::
    "(nat \<Rightarrow> real) \<Rightarrow> flow_solver \<Rightarrow> real \<Rightarrow> nat \<Rightarrow> nat \<Rightarrow> nat \<Rightarrow> int list list \<Rightarrow> (nat list list \<times> int list list) timed" where
  "peel_groups clock solve deadline tp_size ffnagent_count 0 residual = ret ([], residual)"
| "peel_groups clock solve deadline tp_size ffnagent_count (Suc degree) residual =
     bind (first_matching (perfect_matching_exists clock solve deadline residual) ffnagent_count ffnagent_count []) (\<lambda>prefix.
     bind (lift_result (shift_edges (-1) residual (enumerate 0 prefix))) (\<lambda>residual'.
     bind (peel_groups clock solve deadline tp_size ffnagent_count degree residual') (\<lambda>(groups, final).
       ret (take tp_size prefix # groups, final))))"

definition project_assignment_counts ::
    "(nat \<Rightarrow> real) \<Rightarrow> flow_solver \<Rightarrow> real \<Rightarrow> int list list \<Rightarrow> nat list list timed" where
  "project_assignment_counts clock solve deadline counts =
     bind (lift_result (regularize counts)) (\<lambda>residual.
     bind (lift_result (index_at counts 0)) (\<lambda>first.
     bind (peel_groups clock solve deadline (length counts) (length first) (nat (sum_list first)) residual) (\<lambda>(groups, final).
       if \<exists>row\<in>set final. \<exists>v\<in>set row. v \<noteq> 0
       then raise (RuntimeError ''FFN Placement matching projection left residual edges'')
       else ret groups)))"

section \<open>The feasibility test decides extendability\<close>

text \<open>
  What the library promises of \<^verbatim>\<open>SimpleMaxFlow\<close>: on a network of distinct unit arcs \<^verbatim>\<open>solve\<close> reports
  \<^verbatim>\<open>OPTIMAL\<close> and \<^verbatim>\<open>optimal_flow\<close> is the value of a maximum flow.
\<close>

definition flow_correct :: "flow_solver \<Rightarrow> bool" where
  "flow_correct solve \<longleftrightarrow>
     (\<forall>arcs s t. s \<noteq> t \<and> distinct arcs \<and> (\<forall>(u, v, c)\<in>set arcs. c = 1) \<longrightarrow>
        (\<exists>value. solve arcs s t = (Flow_OPTIMAL, value)
           \<and> max_unit_flow ((\<lambda>(u, v, c). (u, v)) ` set arcs) s t value))"

text \<open>A run either returns a value with the property, or stopped because the clock reached the deadline.\<close>

definition expired :: "(nat \<Rightarrow> real) \<Rightarrow> real \<Rightarrow> exn \<Rightarrow> bool" where
  "expired clock deadline e \<longleftrightarrow> (\<exists>k. deadline \<le> clock k)
     \<and> (\<exists>phase. e = XpoolDaemonError NotReady (''FFN Placement deadline expired during '' @ phase))"

abbreviation timely :: "(nat \<Rightarrow> real) \<Rightarrow> real \<Rightarrow> 'a timed \<Rightarrow> ('a \<Rightarrow> bool) \<Rightarrow> bool" where
  "timely clock deadline m Q \<equiv> hoare (\<lambda>_. True) m (\<lambda>x _. Q x) (\<lambda>e _. expired clock deadline e)"

abbreviation cell :: "int list list \<Rightarrow> nat \<Rightarrow> nat \<Rightarrow> int" where
  "cell counts i j \<equiv> counts ! i ! j"

definition square :: "nat \<Rightarrow> int list list \<Rightarrow> bool" where
  "square n counts \<longleftrightarrow> length counts = n \<and> (\<forall>row\<in>set counts. length row = n)"

definition extendable :: "nat \<Rightarrow> int list list \<Rightarrow> nat list \<Rightarrow> bool" where
  "extendable n counts p \<longleftrightarrow> (\<exists>f. perfect n (cell counts) f \<and> (\<forall>i<length p. f i = p ! i))"

lemma timely_bind:
  assumes "timely clock deadline m P" and "\<And>x. P x \<Longrightarrow> timely clock deadline (f x) Q"
  shows "timely clock deadline (bind m f) Q"
proof (rule hoare_bind [where R = "\<lambda>x _. P x"])
  show "timely clock deadline m P" by (rule assms(1))
  show "hoare (\<lambda>_. P x) (f x) (\<lambda>x _. Q x) (\<lambda>e _. expired clock deadline e)" for x
    using assms(2) [of x] by (auto simp: hoare_def)
qed

lemma timely_ret: "Q x \<Longrightarrow> timely clock deadline (ret x) Q"
  by (simp add: hoare_def ret_def)

lemma timely_lift: "Q x \<Longrightarrow> timely clock deadline (lift_result (Inr x)) Q"
  by (simp add: hoare_def lift_result_def)

lemma timely_weaken: "timely clock deadline m P \<Longrightarrow> (\<And>x. P x \<Longrightarrow> Q x) \<Longrightarrow> timely clock deadline m Q"
  by (erule hoare_weaken) auto

lemma bind_lift_Inr [simp]: "bind (lift_result (Inr x)) f = f x"
  by (rule ext) (simp add: bind_def lift_result_def)

lemma timely_remaining: "timely clock deadline (remaining_placement_seconds clock deadline phase) (\<lambda>_. True)"
  by (auto simp: hoare_def remaining_placement_seconds_def expired_def Let_def)

lemma timely_before_deadline:
  assumes "timely clock deadline m Q" and "\<forall>k. clock k < deadline"
  obtains x n' where "m n = (Inr x, n')" and "Q x"
proof -
  have no: "\<not> expired clock deadline e" for e using assms(2) by (metis expired_def not_le)
  show thesis
  proof (cases "m n")
    case (Pair r n')
    show thesis
    proof (cases r)
      case (Inl e)
      then show thesis using hoare_raises [OF assms(1)] Pair no by blast
    next
      case (Inr x)
      then show thesis using hoare_returns [OF assms(1)] Pair that by blast
    qed
  qed
qed

lemma timely_outcome:
  assumes "timely clock deadline m Q"
  shows "case fst (m t) of Inl e \<Rightarrow> expired clock deadline e | Inr x \<Rightarrow> Q x"
proof -
  obtain r t' where r: "m t = (r, t')" by (cases "m t")
  show ?thesis
  proof (cases r)
    case (Inl e)
    then show ?thesis using hoare_raises [OF assms TrueI, of t e t'] r by simp
  next
    case (Inr x)
    then show ?thesis using hoare_returns [OF assms TrueI, of t x t'] r by simp
  qed
qed

lemma entry_square [simp]:
  assumes "square n counts" and "i < n" and "j < n"
  shows "entry counts i j = Inr (cell counts i j)"
  using assms by (simp add: entry_def index_at_def square_def)

lemma rmap_const: "(\<And>x. x \<in> set xs \<Longrightarrow> f x = Inr (g x)) \<Longrightarrow> rmap f xs = Inr (map g xs)"
  by (induction xs) auto

lemma rany_const: "(\<And>x. x \<in> set xs \<Longrightarrow> f x = Inr (g x)) \<Longrightarrow> rany f xs = Inr (\<exists>x\<in>set xs. g x)"
  by (induction xs) auto

lemma matching_arcs_square:
  assumes "square n counts" and "set agents \<subseteq> {..<n}" and "distinct agents"
  obtains arcs where "matching_arcs counts p agents = Inr arcs" and "distinct arcs" and "\<forall>(u, v, c)\<in>set arcs. c = 1"
    and "(\<lambda>(u, v, c). (u, v)) ` set arcs = bipartite n {length p..<n} (set agents) (\<lambda>i j. cell counts i j \<noteq> 0)"
proof -
  have n: "length counts = n" using assms(1) by (simp add: square_def)
  define row where "row i = (0::nat, 1 + i, 1::int) # map (\<lambda>j. (1 + i, 1 + n + j, 1)) (filter (\<lambda>j. cell counts i j \<noteq> 0) agents)" for i
  have "rmap (\<lambda>j. rbind (entry counts i j) (\<lambda>v. Inr (j, v))) agents = Inr (map (\<lambda>j. (j, cell counts i j)) agents)" if "i < n" for i
    by (rule rmap_const) (use assms(1,2) that in auto)
  then have "rank_arcs counts agents i = Inr (row i)" if "i < n" for i
    using that by (simp add: rank_arcs_def row_def n filter_map comp_def case_prod_beta)
  then have "rmap (rank_arcs counts agents) [length p..<n] = Inr (map row [length p..<n])" by (intro rmap_const) simp
  then have arcs: "matching_arcs counts p agents
      = Inr (concat (map row [length p..<n]) @ map (\<lambda>j. (1 + n + j, 1 + 2 * n, 1)) agents)" (is "_ = Inr ?arcs")
    by (simp add: matching_arcs_def n mult_2)
  have row_distinct: "distinct (row i)" for i using assms(3) by (auto simp: row_def distinct_map inj_on_def)
  have disjoint: "set (row i) \<inter> set (row j) = {}" if "i \<noteq> j" for i j using that by (auto simp: row_def)
  have "distinct (concat (map row [length p..<n]))"
  proof (rule distinct_concat)
    have "inj_on row {length p..<n}" by (rule inj_onI) (simp add: row_def)
    then show "distinct (map row [length p..<n])" by (simp add: distinct_map)
    show "distinct ys" if "ys \<in> set (map row [length p..<n])" for ys using that row_distinct by auto
    show "set ys \<inter> set zs = {}" if members: "ys \<in> set (map row [length p..<n])" "zs \<in> set (map row [length p..<n])" "ys \<noteq> zs" for ys zs
    proof -
      obtain i j where "ys = row i" "zs = row j" using members by auto
      then show ?thesis using disjoint [of i j] members(3) by (cases "i = j") simp_all
    qed
  qed
  moreover have "distinct (map (\<lambda>j. (1 + n + j, 1 + 2 * n, 1::int)) agents)"
    using assms(3) by (simp add: distinct_map inj_on_def)
  ultimately have "distinct ?arcs" by (auto simp: row_def)
  moreover have "\<forall>(u, v, c)\<in>set ?arcs. c = 1" by (auto simp: row_def)
  moreover have "(\<lambda>(u, v, c). (u, v)) ` set ?arcs = bipartite n {length p..<n} (set agents) (\<lambda>i j. cell counts i j \<noteq> 0)"
  proof -
    have "(\<lambda>(u, v, c). (u, v)) ` set (row i) = insert (0, 1 + i) ((\<lambda>j. (1 + i, 1 + n + j)) ` {j \<in> set agents. cell counts i j \<noteq> 0})" for i
      by (simp add: row_def image_image)
    then show ?thesis by (simp add: image_Un image_UN image_image) (auto simp: bipartite_def)
  qed
  ultimately show thesis using that arcs by blast
qed

text \<open>A prefix extends to a perfect matching when it is one on its own ranks and the rest can be matched.\<close>

lemma extendable_iff:
  assumes "length p \<le> n" and "set p \<subseteq> {..<n}"
  shows "extendable n counts p \<longleftrightarrow> distinct p \<and> (\<forall>i<length p. cell counts i (p ! i) \<noteq> 0)
     \<and> (\<exists>g. bij_betw g {length p..<n} ({..<n} - set p) \<and> (\<forall>i\<in>{length p..<n}. cell counts i (g i) \<noteq> 0))"
    (is "_ = ?rhs")
proof
  have split: "{..<n} = {..<length p} \<union> {length p..<n}" using assms(1) by auto
  have image: "f ` {..<length p} = set p" if "\<forall>i<length p. f i = p ! i" for f :: "nat \<Rightarrow> nat"
    using that by (auto simp: set_conv_nth image_iff)
  show ?rhs if ext: "extendable n counts p"
  proof -
    obtain f where f: "bij_betw f {..<n} {..<n}" "\<forall>i<n. cell counts i (f i) \<noteq> 0" "\<forall>i<length p. f i = p ! i"
      using ext by (auto simp: extendable_def perfect_def)
    have inj: "inj_on f {..<n}" using f(1) by (simp add: bij_betw_def)
    have "distinct p" unfolding distinct_conv_nth
      using inj f(3) assms(1) by (metis inj_onD lessThan_iff order_less_le_trans)
    moreover have "f ` {length p..<n} = {..<n} - set p"
    proof -
      have "f ` {length p..<n} = f ` ({..<n} - {..<length p})" by (rule arg_cong [where f = "(`) f"]) auto
      also have "\<dots> = f ` {..<n} - f ` {..<length p}" using inj assms(1) by (intro inj_on_image_set_diff) auto
      finally show ?thesis using f(1) image [OF f(3)] by (simp add: bij_betw_def)
    qed
    then have "bij_betw f {length p..<n} ({..<n} - set p)" using inj split by (auto simp: bij_betw_def intro: inj_on_subset)
    ultimately show ?thesis using f assms(1) by (metis atLeastLessThan_iff order_less_le_trans)
  qed
  show "extendable n counts p" if rhs: ?rhs
  proof -
    obtain g where g: "bij_betw g {length p..<n} ({..<n} - set p)" "\<forall>i\<in>{length p..<n}. cell counts i (g i) \<noteq> 0"
      and p: "distinct p" "\<forall>i<length p. cell counts i (p ! i) \<noteq> 0" using rhs by blast
    define f where "f i = (if i < length p then p ! i else g i)" for i
    have "bij_betw f {..<length p} (set p)"
      using bij_betw_nth [OF p(1) refl refl] by (rule bij_betw_cong [THEN iffD1, rotated]) (simp add: f_def)
    moreover have "bij_betw f {length p..<n} ({..<n} - set p)"
      using g(1) by (rule bij_betw_cong [THEN iffD1, rotated]) (simp add: f_def)
    ultimately have "bij_betw f ({..<length p} \<union> {length p..<n}) (set p \<union> ({..<n} - set p))"
      by (rule bij_betw_combine) auto
    moreover have "set p \<union> ({..<n} - set p) = {..<n}" using assms(2) by auto
    ultimately have "bij_betw f {..<n} {..<n}" using split by simp
    moreover have "\<forall>i<n. cell counts i (f i) \<noteq> 0" using g(2) p(2) by (simp add: f_def)
    ultimately show ?thesis by (auto simp: extendable_def perfect_def f_def)
  qed
qed

abbreviation free_agents :: "nat \<Rightarrow> nat list \<Rightarrow> nat list" where
  "free_agents n p \<equiv> filter (\<lambda>agent. agent \<notin> set p) [0..<n]"

lemma free_agents_set: "set (free_agents n p) = {..<n} - set p"
  by auto

lemma prefix_missing:
  assumes "square n counts" and "length p \<le> n" and "set p \<subseteq> {..<n}"
  shows "rany (\<lambda>(rank, agent). rbind (entry counts rank agent) (\<lambda>v. Inr (v = 0))) (enumerate 0 p)
     = Inr (\<exists>i<length p. cell counts i (p ! i) = 0)"
proof -
  have p_lt: "p ! i < n" if "i < length p" for i using assms(3) nth_mem [OF that] by auto
  have "rany (\<lambda>(rank, agent). rbind (entry counts rank agent) (\<lambda>v. Inr (v = 0))) (enumerate 0 p)
      = Inr (\<exists>(i, j)\<in>set (enumerate 0 p). cell counts i j = 0)"
    by (rule rany_const) (use assms(2) p_lt in \<open>auto simp: in_set_enumerate_eq entry_square [OF assms(1)]\<close>)
  also have "(\<exists>(i, j)\<in>set (enumerate 0 p). cell counts i j = 0) \<longleftrightarrow> (\<exists>i<length p. cell counts i (p ! i) = 0)"
    by (auto simp: in_set_enumerate_eq)
  finally show ?thesis .
qed

lemma free_cards:
  assumes "distinct p" and "set p \<subseteq> {..<n}"
  shows "card {length p..<n} = card ({..<n} - set p)"
  using assms by (simp add: card_Diff_subset distinct_card)

lemma full_prefix:
  assumes "length p \<le> n" and "set p \<subseteq> {..<n}" and "free_agents n p = []"
    and "distinct p" and "\<not> (\<exists>i<length p. cell counts i (p ! i) = 0)"
  shows "extendable n counts p"
proof -
  have "{..<n} - set p = {}" using assms(3) free_agents_set by (metis empty_set)
  moreover from this have "{length p..<n} = {}"
    using free_cards [OF assms(4,2)] by (metis card.empty card_eq_0_iff finite_atLeastLessThan)
  ultimately show ?thesis using assms(4,5) extendable_iff [OF assms(1,2)] by (simp add: bij_betw_def)
qed

lemma flow_decides:
  assumes "flow_correct solve" and "square n counts" and len: "length p \<le> n" and sub: "set p \<subseteq> {..<n}"
  obtains arcs best where "matching_arcs counts p (free_agents n p) = Inr arcs"
    and "solve arcs 0 (1 + n + n) = (Flow_OPTIMAL, best)"
    and "distinct p \<and> \<not> (\<exists>i<length p. cell counts i (p ! i) = 0)
      \<longrightarrow> (best = int (length (free_agents n p)) \<longleftrightarrow> extendable n counts p)"
proof -
  obtain arcs where arcs: "matching_arcs counts p (free_agents n p) = Inr arcs" "distinct arcs" "\<forall>(u, v, c)\<in>set arcs. c = 1"
    "(\<lambda>(u, v, c). (u, v)) ` set arcs = bipartite n {length p..<n} (set (free_agents n p)) (\<lambda>i j. cell counts i j \<noteq> 0)"
    by (rule matching_arcs_square [OF assms(2), of "free_agents n p" p]) auto
  have "0 \<noteq> 1 + n + n" by simp
  then obtain best where best: "solve arcs 0 (1 + n + n) = (Flow_OPTIMAL, best)"
      "max_unit_flow ((\<lambda>(u, v, c). (u, v)) ` set arcs) 0 (1 + n + n) best"
    using assms(1) arcs(2,3) unfolding flow_correct_def by blast
  have flow: "max_unit_flow (bipartite n {length p..<n} ({..<n} - set p) (\<lambda>i j. cell counts i j \<noteq> 0)) 0 (1 + 2 * n) best"
    using best(2) unfolding arcs(4) free_agents_set by (simp add: mult_2)
  have "length (free_agents n p) = card (set (free_agents n p))" by (rule distinct_card [symmetric]) simp
  then have size: "length (free_agents n p) = card ({..<n} - set p)" by (simp only: free_agents_set)
  have "best = int (length (free_agents n p)) \<longleftrightarrow> extendable n counts p"
    if prefix: "distinct p" "\<not> (\<exists>i<length p. cell counts i (p ! i) = 0)"
  proof -
    have "best = int (card ({..<n} - set p)) \<longleftrightarrow>
        (\<exists>g. bij_betw g {length p..<n} ({..<n} - set p) \<and> (\<forall>i\<in>{length p..<n}. cell counts i (g i) \<noteq> 0))"
      by (rule max_flow_counts_matching [OF flow _ _ free_cards [OF prefix(1) sub]]) auto
    then show ?thesis using prefix extendable_iff [OF len sub, of counts] size by simp
  qed
  with arcs(1) best(1) that show thesis by blast
qed

lemma perfect_matching_exists_correct:
  assumes "flow_correct solve" and sq: "square n counts" and len: "length p \<le> n" and sub: "set p \<subseteq> {..<n}"
  shows "timely clock deadline (perfect_matching_exists clock solve deadline counts p) (\<lambda>b. b = extendable n counts p)"
proof -
  have n: "length counts = n" using sq by (simp add: square_def)
  obtain arcs best where arcs: "matching_arcs counts p (free_agents n p) = Inr arcs"
    and best: "solve arcs 0 (1 + n + n) = (Flow_OPTIMAL, best)"
    and answer: "distinct p \<and> \<not> (\<exists>i<length p. cell counts i (p ! i) = 0)
      \<longrightarrow> (best = int (length (free_agents n p)) \<longleftrightarrow> extendable n counts p)"
    by (rule flow_decides [OF assms])
  show ?thesis
    unfolding perfect_matching_exists_def prefix_missing [OF sq len sub] n bind_lift_Inr
  proof (rule timely_bind [OF timely_remaining])
    show "timely clock deadline
       (if card (set p) \<noteq> length p then ret False
        else if \<exists>i<length p. cell counts i (p ! i) = 0 then ret False
        else let remaining_agents = free_agents n p
             in if remaining_agents = [] then ret True
                else bind (lift_result (matching_arcs counts p remaining_agents)) (\<lambda>arcs.
                       let (status, v) = solve arcs 0 (1 + n + n)
                       in bind (remaining_placement_seconds clock deadline ''matching projection'') (\<lambda>_.
                            if status \<noteq> Flow_OPTIMAL
                            then raise (RuntimeError ''FFN Placement matching flow returned an unexpected status'')
                            else ret (v = int (length remaining_agents)))))
       (\<lambda>b. b = extendable n counts p)"
    proof (cases "distinct p \<and> \<not> (\<exists>i<length p. cell counts i (p ! i) = 0)")
      case False
      then have "\<not> extendable n counts p" using extendable_iff [OF len sub, of counts] by blast
      then show ?thesis using False by (auto simp: distinct_card intro: timely_ret dest: card_distinct)
    next
      case True
      then have size: "card (set p) = length p" by (simp add: distinct_card)
      show ?thesis
      proof (cases "free_agents n p = []")
        case empty: True
        then show ?thesis using True size full_prefix [OF len sub] by (auto intro: timely_ret)
      next
        case False
        have "timely clock deadline (bind (remaining_placement_seconds clock deadline ''matching projection'')
            (\<lambda>_. ret (best = int (length (free_agents n p))))) (\<lambda>b. b = extendable n counts p)"
          by (rule timely_bind [OF timely_remaining]) (use answer True in \<open>auto intro: timely_ret\<close>)
        then show ?thesis using True size False best by (simp add: Let_def arcs) auto
      qed
    qed
  qed
qed

section \<open>Peeling matchings\<close>

text \<open>A feasibility test that decides extendability, as the loops use it.\<close>

abbreviation decides :: "(nat \<Rightarrow> real) \<Rightarrow> real \<Rightarrow> nat \<Rightarrow> int list list \<Rightarrow> (nat list \<Rightarrow> bool timed) \<Rightarrow> bool" where
  "decides clock deadline n counts feasible \<equiv>
     \<forall>p. length p \<le> n \<longrightarrow> set p \<subseteq> {..<n} \<longrightarrow> timely clock deadline (feasible p) (\<lambda>b. b = extendable n counts p)"

lemma extendable_step:
  assumes "extendable n counts p" and "length p < n"
  shows "\<exists>a<n. extendable n counts (p @ [a])"
proof -
  obtain f where f: "perfect n (cell counts) f" "\<forall>i<length p. f i = p ! i" using assms(1) by (auto simp: extendable_def)
  have "f (length p) < n" using f(1) assms(2) by (auto simp: perfect_def bij_betw_def)
  moreover have "extendable n counts (p @ [f (length p)])"
    using f by (auto simp: extendable_def nth_append less_Suc_eq intro!: exI [of _ f])
  ultimately show ?thesis by blast
qed

lemma first_extension_finds:
  assumes "decides clock deadline n counts feasible" and "length p < n" and "set p \<subseteq> {..<n}"
    and "set agents \<subseteq> {..<n}"
  shows "timely clock deadline (first_extension feasible p agents)
     (\<lambda>r. case r of None \<Rightarrow> \<forall>a\<in>set agents. \<not> extendable n counts (p @ [a])
        | Some longer \<Rightarrow> \<exists>a\<in>set agents. longer = p @ [a] \<and> extendable n counts longer)"
  using assms(4)
proof (induction agents)
  case (Cons a agents)
  have test: "timely clock deadline (feasible (p @ [a])) (\<lambda>b. b = extendable n counts (p @ [a]))"
    using assms(1-3) Cons.prems by auto
  have rest: "timely clock deadline (first_extension feasible p agents)
     (\<lambda>r. case r of None \<Rightarrow> \<forall>a\<in>set agents. \<not> extendable n counts (p @ [a])
        | Some longer \<Rightarrow> \<exists>a\<in>set agents. longer = p @ [a] \<and> extendable n counts longer)"
    using Cons by simp
  show ?case unfolding first_extension.simps
  proof (rule timely_bind [OF test])
    fix ok assume ok: "ok = extendable n counts (p @ [a])"
    show "timely clock deadline (if ok then ret (Some (p @ [a])) else first_extension feasible p agents)
       (\<lambda>r. case r of None \<Rightarrow> \<forall>b\<in>set (a # agents). \<not> extendable n counts (p @ [b])
          | Some longer \<Rightarrow> \<exists>b\<in>set (a # agents). longer = p @ [b] \<and> extendable n counts longer)"
      by (cases ok) (use ok in \<open>auto intro!: timely_ret timely_weaken [OF rest] split: option.splits\<close>)
  qed
qed (simp add: timely_ret)

lemma first_matching_finds:
  assumes "decides clock deadline n counts feasible" and "extendable n counts p" and "set p \<subseteq> {..<n}"
    and "length p + k = n"
  shows "timely clock deadline (first_matching feasible n k p)
     (\<lambda>q. length q = n \<and> set q \<subseteq> {..<n} \<and> extendable n counts q)"
  using assms(2-4)
proof (induction k arbitrary: p)
  case 0
  then show ?case by (simp add: timely_ret)
next
  case (Suc k)
  have "length p < n" using Suc.prems(3) by simp
  note found = first_extension_finds [OF assms(1) this Suc.prems(2), of "[0..<n]"]
  show ?case unfolding first_matching.simps
  proof (rule timely_bind [OF found])
    fix r assume r: "case r of None \<Rightarrow> \<forall>a\<in>set [0..<n]. \<not> extendable n counts (p @ [a])
        | Some longer \<Rightarrow> \<exists>a\<in>set [0..<n]. longer = p @ [a] \<and> extendable n counts longer"
    then obtain a where a: "a < n" "r = Some (p @ [a])" "extendable n counts (p @ [a])"
      using extendable_step [OF Suc.prems(1) \<open>length p < n\<close>] by (auto split: option.splits)
    show "timely clock deadline (case r of None \<Rightarrow> raise (RuntimeError ''FFN Placement has no matching extension'')
         | Some longer \<Rightarrow> first_matching feasible n k longer)
       (\<lambda>q. length q = n \<and> set q \<subseteq> {..<n} \<and> extendable n counts q)"
      using Suc.IH [OF a(3)] a Suc.prems by simp
  qed auto
qed

definition rect :: "nat \<Rightarrow> nat \<Rightarrow> int list list \<Rightarrow> bool" where
  "rect m n counts \<longleftrightarrow> length counts = m \<and> (\<forall>row\<in>set counts. length row = n)"

lemma shift_edges_rect:
  assumes "rect m n counts" and "set q \<subseteq> {..<n}" and "k + length q = m"
  shows "\<exists>counts'. shift_edges delta counts (enumerate k q) = Inr counts' \<and> rect m n counts'
     \<and> (\<forall>i<m. \<forall>j<n. cell counts' i j = cell counts i j + (if k \<le> i \<and> q ! (i - k) = j then delta else 0))"
  using assms
proof (induction q arbitrary: counts k)
  case Nil
  then show ?case by auto
next
  case (Cons a q)
  have k: "k < m" "a < n" using Cons.prems by auto
  let ?counts = "counts[k := (counts ! k)[a := cell counts k a + delta]]"
  have sq: "rect m n ?counts" using Cons.prems(1) k
    by (auto simp: rect_def dest!: set_update_subset_insert [THEN subsetD])
  have step: "shift_edges delta counts (enumerate k (a # q)) = shift_edges delta ?counts (enumerate (Suc k) q)"
    using Cons.prems(1) k by (simp add: index_at_def rect_def)
  have row: "length (counts ! k) = n" "length counts = m" using Cons.prems(1) k by (auto simp: rect_def)
  obtain counts' where c: "shift_edges delta ?counts (enumerate (Suc k) q) = Inr counts'" "rect m n counts'"
    "\<And>i j. i < m \<Longrightarrow> j < n \<Longrightarrow> cell counts' i j = cell ?counts i j + (if Suc k \<le> i \<and> q ! (i - Suc k) = j then delta else 0)"
    using Cons.IH [OF sq, of "Suc k"] Cons.prems by auto
  have "cell counts' i j = cell counts i j + (if k \<le> i \<and> (a # q) ! (i - k) = j then delta else 0)" if "i < m" "j < n" for i j
    using c(3) [OF that] that k row
    by (cases "i = k"; cases "a = j") (auto simp: nth_list_update nth_Cons' not_le)
  then show ?case using c(1,2) step by auto
qed

lemma square_rect: "square n counts \<longleftrightarrow> rect n n counts"
  by (simp add: square_def rect_def)

lemma regular_cong:
  "regular n k M \<Longrightarrow> (\<And>i j. i < n \<Longrightarrow> j < n \<Longrightarrow> M' i j = M i j) \<Longrightarrow> regular n k M'"
  by (simp add: regular_def)

lemma extendable_full:
  assumes "extendable n counts q" and "length q = n"
  shows "perfect n (cell counts) (\<lambda>i. q ! i)"
proof -
  obtain f where f: "perfect n (cell counts) f" "\<forall>i<n. f i = q ! i" using assms by (auto simp: extendable_def)
  have "bij_betw f {..<n} {..<n} \<longleftrightarrow> bij_betw (\<lambda>i. q ! i) {..<n} {..<n}" by (rule bij_betw_cong) (use f(2) in simp)
  then show ?thesis using f by (simp add: perfect_def)
qed

text \<open>How often the groups assign rank \<open>i\<close> to agent \<open>j\<close>.\<close>

abbreviation assigned :: "nat list list \<Rightarrow> nat \<Rightarrow> nat \<Rightarrow> int" where
  "assigned groups i j \<equiv> int (length (filter (\<lambda>members. members ! i = j) groups))"

definition group_ok :: "nat \<Rightarrow> nat \<Rightarrow> nat list \<Rightarrow> bool" where
  "group_ok tp n members \<longleftrightarrow> length members = tp \<and> distinct members \<and> set members \<subseteq> {..<n}"

lemma matching_group:
  assumes "extendable n counts q" and "length q = n" and "set q \<subseteq> {..<n}" and "tp \<le> n"
  shows "group_ok tp n (take tp q)"
proof -
  have "distinct q" using assms extendable_iff [of q n counts] by simp
  then show ?thesis using assms set_take_subset [of tp q] by (auto simp: group_ok_def)
qed

definition peeled :: "nat \<Rightarrow> nat \<Rightarrow> nat \<Rightarrow> int list list \<Rightarrow> nat list list \<times> int list list \<Rightarrow> bool" where
  "peeled tp n k counts = (\<lambda>(groups, final). length groups = k \<and> (\<forall>members\<in>set groups. group_ok tp n members)
     \<and> square n final \<and> regular n 0 (cell final)
     \<and> (\<forall>i<tp. \<forall>j<n. cell counts i j = assigned groups i j + cell final i j))"

lemma peeled_Cons:
  assumes "peeled tp n k counts' (groups, final)" and "group_ok tp n (take tp q)" and "tp \<le> n"
    and "\<And>i j. i < n \<Longrightarrow> j < n \<Longrightarrow> cell counts' i j = cell counts i j - (if q ! i = j then 1 else 0)"
  shows "peeled tp n (Suc k) counts (take tp q # groups, final)"
proof -
  have "cell counts i j = assigned (take tp q # groups) i j + cell final i j" if "i < tp" "j < n" for i j
  proof -
    have "cell counts' i j = assigned groups i j + cell final i j" using assms(1) that by (simp add: peeled_def)
    then show ?thesis using assms(4) [of i j] that assms(3) by auto
  qed
  then show ?thesis using assms(1,2) by (simp add: peeled_def)
qed

lemma peel_groups_regular:
  assumes "flow_correct solve" and "square n counts" and "regular n (int k) (cell counts)" and "tp \<le> n"
  shows "timely clock deadline (peel_groups clock solve deadline tp n k counts) (peeled tp n k counts)"
  using assms(2,3)
proof (induction k arbitrary: counts)
  case 0
  then show ?case by (simp add: timely_ret peeled_def)
next
  case (Suc k)
  have decide: "decides clock deadline n counts (perfect_matching_exists clock solve deadline counts)"
    using perfect_matching_exists_correct [OF assms(1) Suc.prems(1)] by blast
  have start: "extendable n counts []" using regular_has_matching [OF Suc.prems(2)] by (simp add: extendable_def)
  note found = first_matching_finds [OF decide start, of n]
  show ?case unfolding peel_groups.simps
  proof (rule timely_bind [OF found])
    fix q assume q: "length q = n \<and> set q \<subseteq> {..<n} \<and> extendable n counts q"
    obtain counts' where c: "shift_edges (-1) counts (enumerate 0 q) = Inr counts'" "square n counts'"
      and shifted: "\<forall>i<n. \<forall>j<n. cell counts' i j = cell counts i j + (if q ! i = j then - 1 else 0)"
      using shift_edges_rect [of n n counts q 0 "- 1"] Suc.prems(1) q by (auto simp: square_rect)
    have c3: "cell counts' i j = cell counts i j - (if q ! i = j then 1 else 0)" if "i < n" "j < n" for i j
      using shifted that by simp
    have "regular n (int (Suc k) - 1) (\<lambda>i j. cell counts i j - (if q ! i = j then 1 else 0))"
      by (rule regular_peel [OF Suc.prems(2) extendable_full]) (use q in auto)
    then have "regular n (int k) (cell counts')" using c3 by (auto intro: regular_cong)
    note rest = Suc.IH [OF c(2) this]
    have group_q: "group_ok tp n (take tp q)" using matching_group [of n counts q tp] q assms(4) by simp
    have "timely clock deadline (bind (peel_groups clock solve deadline tp n k counts')
        (\<lambda>(groups, final). ret (take tp q # groups, final))) (peeled tp n (Suc k) counts)"
      by (rule timely_bind [OF rest]) (auto intro!: timely_ret peeled_Cons [OF _ group_q assms(4) c3])
    then show "timely clock deadline (bind (lift_result (shift_edges (-1) counts (enumerate 0 q)))
        (\<lambda>residual'. bind (peel_groups clock solve deadline tp n k residual')
          (\<lambda>(groups, final). ret (take tp q # groups, final)))) (peeled tp n (Suc k) counts)" using c(1) by simp
  qed auto
qed

section \<open>Regularization\<close>

text \<open>The matrices the solver's constraints describe: rank rows of one degree, no column above it.\<close>

definition rank_regular :: "nat \<Rightarrow> nat \<Rightarrow> int \<Rightarrow> int list list \<Rightarrow> bool" where
  "rank_regular tp n k counts \<longleftrightarrow> length counts = tp \<and> 0 < tp \<and> tp \<le> n
     \<and> (\<forall>row\<in>set counts. length row = n \<and> (\<forall>v\<in>set row. 0 \<le> v) \<and> sum_list row = k)
     \<and> (\<forall>j<n. (\<Sum>i<tp. cell counts i j) \<le> k)"

lemma dummy_row_facts:
  assumes "0 \<le> remaining" and "\<forall>d\<in>set ds. 0 \<le> d" and "dummy_row remaining ds = (row, rest, ds')"
  shows "length row = length ds \<and> length ds' = length ds \<and> (\<forall>v\<in>set row. 0 \<le> v) \<and> (\<forall>d\<in>set ds'. 0 \<le> d)
     \<and> (\<forall>j<length ds. row ! j + ds' ! j = ds ! j) \<and> sum_list row + rest = remaining
     \<and> sum_list row + sum_list ds' = sum_list ds \<and> (remaining \<le> sum_list ds \<longrightarrow> rest = 0)"
  using assms
proof (induction ds arbitrary: remaining row rest ds')
  case (Cons d ds)
  let ?a = "min remaining d"
  obtain row0 rest0 ds0 where rec: "dummy_row (remaining - ?a) ds = (row0, rest0, ds0)" by (metis prod.collapse)
  have eq: "row = ?a # row0" "rest = rest0" "ds' = (d - ?a) # ds0" using Cons.prems(3) rec by (auto simp: Let_def)
  have "0 \<le> remaining - ?a" "\<forall>d\<in>set ds. 0 \<le> d" using Cons.prems(2) by simp_all
  note IH = Cons.IH [OF this rec]
  have sums: "0 \<le> sum_list ds" "0 \<le> d" using Cons.prems(2) by (simp_all add: sum_list_nonneg)
  have "\<forall>j<length (d # ds). row ! j + ds' ! j = (d # ds) ! j"
    unfolding eq using IH by (simp add: All_less_Suc2)
  moreover have "remaining \<le> sum_list (d # ds) \<longrightarrow> rest = 0" unfolding eq using IH sums by (simp add: min_def)
  ultimately show ?case unfolding eq using IH Cons.prems(1) sums by simp
qed simp

lemma dummy_rows_regular:
  assumes "0 \<le> k" and "\<forall>d\<in>set ds. 0 \<le> d" and "sum_list ds = int m * k"
  shows "\<exists>rows final. dummy_rows k m ds = Inr (rows, final) \<and> length rows = m \<and> (\<forall>d\<in>set final. d = 0)
     \<and> (\<forall>row\<in>set rows. length row = length ds \<and> (\<forall>v\<in>set row. 0 \<le> v) \<and> sum_list row = k)
     \<and> (\<forall>j<length ds. (\<Sum>i<m. cell rows i j) = ds ! j)"
  using assms(2,3)
proof (induction m arbitrary: ds)
  case 0
  then have "\<forall>d\<in>set ds. d = 0" using sum_list_nonneg_eq_0_iff [of ds] by auto
  then show ?case by (auto simp: nth_mem)
next
  case (Suc m)
  obtain row rest ds' where row: "dummy_row k ds = (row, rest, ds')" by (metis prod.collapse)
  have enough: "k \<le> sum_list ds" using Suc.prems(2) assms(1) by (simp add: algebra_simps)
  note facts = dummy_row_facts [OF assms(1) Suc.prems(1) row]
  have "sum_list ds' = int m * k" using facts enough Suc.prems(2) by (simp add: algebra_simps)
  then obtain rows final where rows: "dummy_rows k m ds' = Inr (rows, final)" "length rows = m" "\<forall>d\<in>set final. d = 0"
    "\<forall>row\<in>set rows. length row = length ds' \<and> (\<forall>v\<in>set row. 0 \<le> v) \<and> sum_list row = k"
    "\<forall>j<length ds'. (\<Sum>i<m. cell rows i j) = ds' ! j"
    using Suc.IH [of ds'] facts by auto
  have "dummy_rows k (Suc m) ds = Inr (row # rows, final)" using row rows(1) facts enough by simp
  moreover have "(\<Sum>i<Suc m. cell (row # rows) i j) = ds ! j" if "j < length ds" for j
    unfolding sum.lessThan_Suc_shift using rows(5) facts that by simp
  ultimately show ?case using rows facts enough by auto
qed

lemma sum_lessThan_split: "(\<Sum>i<a + b. f i) = (\<Sum>i<a. f i) + (\<Sum>i<b. (f (a + i) :: int))" for a b :: nat
  by (induction b) (auto simp: add.assoc)

lemma sum_row: "length row = n \<Longrightarrow> (\<Sum>j<n. row ! j) = sum_list row"
  by (simp add: sum_list_sum_nth atLeast0LessThan)

lemma deficits_total:
  assumes "rank_regular tp n k counts"
  shows "sum_list (map (\<lambda>j. k - (\<Sum>i<tp. cell counts i j)) [0..<n]) = int (n - tp) * k"
proof -
  have row: "(\<Sum>j<n. cell counts i j) = k" if "i < tp" for i
    using assms that sum_row [of "counts ! i" n] by (auto simp: rank_regular_def)
  have "(\<Sum>j<n. \<Sum>i<tp. cell counts i j) = (\<Sum>i<tp. \<Sum>j<n. cell counts i j)" by (rule sum.swap)
  also have "\<dots> = int tp * k" using row by simp
  finally have "(\<Sum>j<n. k - (\<Sum>i<tp. cell counts i j)) = int n * k - int tp * k" by (simp add: sum_subtractf)
  moreover have "int (n - tp) = int n - int tp" using assms by (simp add: rank_regular_def of_nat_diff)
  ultimately show ?thesis
    by (simp add: interv_sum_list_conv_sum_set_nat atLeast0LessThan left_diff_distrib)
qed

lemma regularize_regular:
  assumes "rank_regular tp n k counts" and "0 \<le> k"
  obtains rows where "regularize counts = Inr (counts @ rows)" and "square n (counts @ rows)"
    and "regular n k (cell (counts @ rows))"
proof -
  note shape = assms(1) [unfolded rank_regular_def]
  let ?ds = "map (\<lambda>j. k - (\<Sum>i<tp. cell counts i j)) [0..<n]"
  obtain first rest where counts: "counts = first # rest" using shape by (cases counts) auto
  have first: "length first = n" "sum_list first = k" using shape counts by auto
  have column: "rmap (\<lambda>i. entry counts i j) [0..<tp] = Inr (map (\<lambda>i. cell counts i j) [0..<tp])" if "j < n" for j
    by (rule rmap_const) (use shape that in \<open>auto simp: entry_def index_at_def\<close>)
  have deficits: "rmap (\<lambda>j. rbind (rmap (\<lambda>i. entry counts i j) [0..<tp]) (\<lambda>column. Inr (k - sum_list column))) [0..<n] = Inr ?ds"
    by (rule rmap_const) (simp add: column interv_sum_list_conv_sum_set_nat atLeast0LessThan)
  have nonneg: "\<forall>d\<in>set ?ds. 0 \<le> d" using shape by auto
  obtain rows final where rows: "dummy_rows k (n - tp) ?ds = Inr (rows, final)" "length rows = n - tp" "\<forall>d\<in>set final. d = 0"
    "\<forall>row\<in>set rows. length row = n \<and> (\<forall>v\<in>set row. 0 \<le> v) \<and> sum_list row = k"
    "\<forall>j<n. (\<Sum>i<n - tp. cell rows i j) = ?ds ! j"
    using dummy_rows_regular [OF assms(2) nonneg deficits_total [OF assms(1)]] by auto
  have all: "length row = n \<and> (\<forall>v\<in>set row. 0 \<le> v) \<and> sum_list row = k" if "row \<in> set (counts @ rows)" for row
    using that shape rows(4) by auto
  have total: "length (counts @ rows) = n" using shape rows(2) by simp
  have each: "length ((counts @ rows) ! i) = n \<and> (\<forall>v\<in>set ((counts @ rows) ! i). 0 \<le> v) \<and> sum_list ((counts @ rows) ! i) = k"
    if "i < n" for i by (rule all, rule nth_mem) (use that total in simp)
  have reg: "regularize counts = Inr (counts @ rows)"
  proof -
    have "\<not> (\<exists>d\<in>set ?ds. d < 0)" using nonneg by (meson not_less)
    moreover have "\<not> (\<exists>row\<in>set (counts @ rows). sum_list row \<noteq> k)" using all by blast
    moreover have "\<not> (\<exists>row\<in>set counts. sum_list row \<noteq> k)" "\<not> n < tp" "index_at counts 0 = Inr first" "length counts = tp"
      using shape counts by (auto simp: index_at_def)
    ultimately show ?thesis
      using rows(1,3) by (simp only: regularize_def rbind_simps Let_def first deficits if_False simp_thms prod.case) auto
  qed
  have "(\<Sum>i<n. cell (counts @ rows) i j) = k" if "j < n" for j
  proof -
    have "(\<Sum>i<n. cell (counts @ rows) i j) = (\<Sum>i<tp + (n - tp). cell (counts @ rows) i j)" using shape by simp
    also have "\<dots> = (\<Sum>i<tp. cell (counts @ rows) i j) + (\<Sum>i<n - tp. cell (counts @ rows) (tp + i) j)"
      by (rule sum_lessThan_split)
    also have "(\<Sum>i<tp. cell (counts @ rows) i j) = (\<Sum>i<tp. cell counts i j)" using shape by (simp add: nth_append)
    also have "(\<Sum>i<n - tp. cell (counts @ rows) (tp + i) j) = (\<Sum>i<n - tp. cell rows i j)" using shape by (simp add: nth_append)
    finally show ?thesis using rows(5) that by simp
  qed
  moreover have "(\<Sum>j<n. cell (counts @ rows) i j) = k" if "i < n" for i
    using each [OF that] sum_row [of "(counts @ rows) ! i" n] by simp
  moreover have "0 \<le> cell (counts @ rows) i j" if "i < n" "j < n" for i j
    using each [OF that(1)] that(2) by simp
  ultimately have "regular n k (cell (counts @ rows))" by (simp add: regular_def)
  moreover have "square n (counts @ rows)" using all total by (simp add: square_def)
  ultimately show thesis using that reg by blast
qed

section \<open>The projection is exact\<close>

lemma projection_timely:
  assumes "flow_correct solve" and "rank_regular tp n k counts"
  shows "timely clock deadline (project_assignment_counts clock solve deadline counts)
     (\<lambda>groups. int (length groups) = k \<and> (\<forall>members\<in>set groups. group_ok tp n members)
        \<and> (\<forall>i<tp. \<forall>j<n. cell counts i j = assigned groups i j))"
proof -
  note shape = assms(2) [unfolded rank_regular_def]
  obtain first rest where counts: "counts = first # rest" using shape by (cases counts) auto
  have first: "index_at counts 0 = Inr first" "length first = n" "sum_list first = k" "length counts = tp"
    using shape counts by (auto simp: index_at_def)
  have k: "0 \<le> k" using shape counts sum_list_nonneg [of first] by auto
  obtain rows where reg: "regularize counts = Inr (counts @ rows)" and sq: "square n (counts @ rows)"
    and regular: "regular n k (cell (counts @ rows))"
    by (rule regularize_regular [OF assms(2) k])
  have "timely clock deadline (peel_groups clock solve deadline tp n (nat k) (counts @ rows)) (peeled tp n (nat k) (counts @ rows))"
    by (rule peel_groups_regular [OF assms(1) sq]) (use regular k shape in simp_all)
  then show ?thesis
    unfolding project_assignment_counts_def reg first bind_lift_Inr
  proof (rule timely_bind)
    fix r assume "peeled tp n (nat k) (counts @ rows) r"
    then obtain groups final where r: "r = (groups, final)" and p: "peeled tp n (nat k) (counts @ rows) (groups, final)"
      by (cases r) auto
    have zero: "cell final i j = 0" if "i < n" "j < n" for i j
      using p that by (auto simp: peeled_def intro: regular_zero)
    have empty: "\<not> (\<exists>row\<in>set final. \<exists>v\<in>set row. v \<noteq> 0)"
    proof -
      have "v = 0" if "row \<in> set final" "v \<in> set row" for row v
        using p that zero by (auto simp: peeled_def square_def in_set_conv_nth)
      then show ?thesis by blast
    qed
    have "cell counts i j = assigned groups i j" if "i < tp" "j < n" for i j
      using p that zero [of i j] shape by (auto simp: peeled_def nth_append)
    then have "timely clock deadline (ret groups) (\<lambda>groups. int (length groups) = k
        \<and> (\<forall>members\<in>set groups. group_ok tp n members) \<and> (\<forall>i<tp. \<forall>j<n. cell counts i j = assigned groups i j))"
      using p k by (intro timely_ret) (auto simp: peeled_def)
    then show "timely clock deadline (case r of (groups, final) \<Rightarrow>
        if \<exists>row\<in>set final. \<exists>v\<in>set row. v \<noteq> 0
        then raise (RuntimeError ''FFN Placement matching projection left residual edges'') else ret groups)
      (\<lambda>groups. int (length groups) = k \<and> (\<forall>members\<in>set groups. group_ok tp n members)
        \<and> (\<forall>i<tp. \<forall>j<n. cell counts i j = assigned groups i j))"
      unfolding r prod.case by (simp only: empty if_False)
  qed
qed

end
