(* ===== verification/Placement_Groups.thy ===== *)
theory Placement_Groups
  imports Placement
begin

section \<open>From solver values to tensor-parallel groups\<close>

text \<open>
  The parts of \<^verbatim>\<open>solve_placement\<close> around the constraint solver: layers with equal rank rows form one class, the
  solver chooses how many layers of a class put rank \<open>r\<close> on FfnAgent \<open>a\<close> and a primary group per model, and the
  projection turns these values into one group per layer and audits that it reproduces them. What a rank row
  holds does not matter here, so it is a type variable. CP-SAT is a library outside the repository: its
  answer is a record of values, and \<open>satisfies\<close> writes out the constraints the code adds on them.
\<close>

record 'r layer_class =
  lc_model :: nat
  lc_layers :: "nat list"
  lc_rank_rows :: "'r list"

text \<open>\<^verbatim>\<open>grouped.setdefault(rank_rows, []).append(layer_ordinal)\<close> for every layer in order.\<close>

fun group_layers :: "(nat \<times> 'r list) list \<Rightarrow> ('r list, nat list) dict \<Rightarrow> ('r list, nat list) dict" where
  "group_layers [] grouped = grouped"
| "group_layers ((layer_ordinal, rank_rows) # layers) grouped =
     group_layers layers
       (dict_set rank_rows ((case dict_get grouped rank_rows of None \<Rightarrow> [] | Some found \<Rightarrow> found) @ [layer_ordinal]) grouped)"

definition layer_classes :: "'r list list list \<Rightarrow> 'r layer_class list" where
  "layer_classes models =
     concat (map (\<lambda>(model_index, layers).
       map (\<lambda>(rank_rows, layer_indices). \<lparr>lc_model = model_index, lc_layers = layer_indices, lc_rank_rows = rank_rows\<rparr>)
         (group_layers (enumerate 0 layers) [])) (enumerate 0 models))"

text \<open>Values of the decision variables, by their coordinates in the code.\<close>

record placement_values =
  assignment_count :: "nat \<Rightarrow> nat \<Rightarrow> nat \<Rightarrow> int"
  primary_member :: "nat \<Rightarrow> nat \<Rightarrow> nat \<Rightarrow> int"
  primary_layer_count :: "nat \<Rightarrow> int"
  primary_assignment_count :: "nat \<Rightarrow> nat \<Rightarrow> nat \<Rightarrow> int"

definition assignment_constraints :: "nat \<Rightarrow> placement_values \<Rightarrow> nat \<Rightarrow> 'r layer_class \<Rightarrow> bool" where
  "assignment_constraints ffnagent_count pv c cls =
     (let layer_count = int (length (lc_layers cls)); tp_size = length (lc_rank_rows cls)
      in (\<forall>r<tp_size. \<forall>a<ffnagent_count. 0 \<le> assignment_count pv c a r \<and> assignment_count pv c a r \<le> layer_count)
         \<and> (\<forall>r<tp_size. (\<Sum>a<ffnagent_count. assignment_count pv c a r) = layer_count)
         \<and> (\<forall>a<ffnagent_count. (\<Sum>r<tp_size. assignment_count pv c a r) \<le> layer_count))"

definition member_constraints :: "nat \<Rightarrow> placement_values \<Rightarrow> nat \<Rightarrow> nat \<Rightarrow> bool" where
  "member_constraints ffnagent_count pv m tp_size =
     ((\<forall>r<tp_size. \<forall>a<ffnagent_count. primary_member pv m a r = 0 \<or> primary_member pv m a r = 1)
      \<and> (\<forall>r<tp_size. (\<Sum>a<ffnagent_count. primary_member pv m a r) = 1)
      \<and> (\<forall>a<ffnagent_count. (\<Sum>r<tp_size. primary_member pv m a r) \<le> 1))"

definition primary_constraints :: "nat \<Rightarrow> placement_values \<Rightarrow> nat \<Rightarrow> 'r layer_class \<Rightarrow> bool" where
  "primary_constraints ffnagent_count pv c cls =
     (let layer_count = int (length (lc_layers cls)); tp_size = length (lc_rank_rows cls)
      in 0 \<le> primary_layer_count pv c \<and> primary_layer_count pv c \<le> layer_count
         \<and> (\<forall>a<ffnagent_count. \<forall>r<tp_size.
              primary_assignment_count pv c a r = primary_layer_count pv c * primary_member pv (lc_model cls) a r
              \<and> assignment_count pv c a r \<ge> primary_assignment_count pv c a r)
         \<and> (\<forall>a<ffnagent_count.
              (\<Sum>r<tp_size. assignment_count pv c a r - primary_assignment_count pv c a r)
              \<le> layer_count - primary_layer_count pv c))"

definition satisfies :: "nat \<Rightarrow> placement_values \<Rightarrow> nat list \<Rightarrow> 'r layer_class list \<Rightarrow> bool" where
  "satisfies ffnagent_count pv tp_sizes classes =
     ((\<forall>(c, cls)\<in>set (enumerate 0 classes).
         assignment_constraints ffnagent_count pv c cls \<and> primary_constraints ffnagent_count pv c cls)
      \<and> (\<forall>(m, tp_size)\<in>set (enumerate 0 tp_sizes).
           member_constraints ffnagent_count pv m tp_size
           \<and> (\<Sum>c<length classes. if lc_model (classes ! c) = m then primary_layer_count pv c else 0) \<ge> 1))"

subsection \<open>Projection\<close>

type_synonym placed_groups = "(nat \<times> nat, nat list) dict"

definition primary_group :: "nat \<Rightarrow> placement_values \<Rightarrow> 'r layer_class \<Rightarrow> nat list result" where
  "primary_group ffnagent_count pv cls =
     rmap (\<lambda>r. case filter (\<lambda>a. primary_member pv (lc_model cls) a r \<noteq> 0) [0..<ffnagent_count] of
                 [] \<Rightarrow> Inl StopIteration | a # _ \<Rightarrow> Inr a) [0..<length (lc_rank_rows cls)]"

definition residual_counts :: "nat \<Rightarrow> placement_values \<Rightarrow> nat \<Rightarrow> 'r layer_class \<Rightarrow> int list list" where
  "residual_counts ffnagent_count pv c cls =
     map (\<lambda>r. map (\<lambda>a. assignment_count pv c a r - primary_assignment_count pv c a r) [0..<ffnagent_count])
       [0..<length (lc_rank_rows cls)]"

definition project_class ::
    "(nat \<Rightarrow> real) \<Rightarrow> flow_solver \<Rightarrow> real \<Rightarrow> nat \<Rightarrow> placement_values \<Rightarrow> nat \<times> 'r layer_class \<Rightarrow> placed_groups
     \<Rightarrow> placed_groups timed" where
  "project_class clock solve deadline ffnagent_count pv = (\<lambda>(c, cls) groups.
     bind (lift_result (primary_group ffnagent_count pv cls)) (\<lambda>primary.
       let primary_count = nat (primary_layer_count pv c);
           placed = dict_of (map (\<lambda>l. ((lc_model cls, l), primary)) (take primary_count (lc_layers cls))) groups
       in bind (project_assignment_counts clock solve deadline (residual_counts ffnagent_count pv c cls)) (\<lambda>projected.
          bind (lift_result (zip_strict (drop primary_count (lc_layers cls)) projected)) (\<lambda>pairs.
            ret (dict_of (map (\<lambda>(l, members). ((lc_model cls, l), members)) pairs) placed)))))"

fun project_classes ::
    "(nat \<Rightarrow> real) \<Rightarrow> flow_solver \<Rightarrow> real \<Rightarrow> nat \<Rightarrow> placement_values \<Rightarrow> (nat \<times> 'r layer_class) list \<Rightarrow> placed_groups
     \<Rightarrow> placed_groups timed" where
  "project_classes clock solve deadline ffnagent_count pv [] groups = ret groups"
| "project_classes clock solve deadline ffnagent_count pv (cls # classes) groups =
     bind (project_class clock solve deadline ffnagent_count pv cls groups) (\<lambda>groups'.
       project_classes clock solve deadline ffnagent_count pv classes groups')"

subsection \<open>Audit\<close>

fun count_layers :: "placed_groups \<Rightarrow> nat \<Rightarrow> nat list \<Rightarrow> int list list \<Rightarrow> int list list result" where
  "count_layers groups model_index [] counts = Inr counts"
| "count_layers groups model_index (layer_ordinal # layers) counts =
     rbind (dict_item groups (model_index, layer_ordinal)) (\<lambda>members.
     rbind (shift_edges 1 counts (enumerate 0 members)) (\<lambda>counts'.
       count_layers groups model_index layers counts'))"

definition audit_class :: "nat \<Rightarrow> placement_values \<Rightarrow> placed_groups \<Rightarrow> nat \<times> 'r layer_class \<Rightarrow> unit result" where
  "audit_class ffnagent_count pv groups = (\<lambda>(c, cls).
     let tp_size = length (lc_rank_rows cls)
     in rbind (count_layers groups (lc_model cls) (lc_layers cls) (replicate tp_size (replicate ffnagent_count 0))) (\<lambda>projected.
          if projected \<noteq> map (\<lambda>r. map (\<lambda>a. assignment_count pv c a r) [0..<ffnagent_count]) [0..<tp_size]
          then Inl (RuntimeError ''FFN Placement projection does not reproduce solved assignment counts'')
          else Inr ()))"

text \<open>
  The projection of all classes and then the audit of all classes; the plan records the code builds between them from the groups
  are left out.
\<close>

definition place_groups ::
    "(nat \<Rightarrow> real) \<Rightarrow> flow_solver \<Rightarrow> real \<Rightarrow> nat \<Rightarrow> placement_values \<Rightarrow> 'r layer_class list \<Rightarrow> placed_groups timed" where
  "place_groups clock solve deadline ffnagent_count pv classes =
     bind (project_classes clock solve deadline ffnagent_count pv (enumerate 0 classes) []) (\<lambda>groups.
     bind (lift_result (rmap (audit_class ffnagent_count pv groups) (enumerate 0 classes))) (\<lambda>_. ret groups))"

section \<open>The projection reproduces the solver's counts\<close>

subsection \<open>The primary group\<close>

lemma sum_zero_one:
  fixes f :: "nat \<Rightarrow> int"
  assumes "\<forall>a<n. f a = 0 \<or> f a = 1"
  shows "(\<Sum>a<n. f a) = int (card {a. a < n \<and> f a = 1})"
proof -
  have "(\<Sum>a<n. f a) = (\<Sum>a<n. if f a = 1 then 1 else 0)" by (rule sum.cong) (use assms in auto)
  also have "\<dots> = int (card ({..<n} \<inter> {a. f a = 1}))" by (simp add: sum.If_cases)
  also have "{..<n} \<inter> {a. f a = 1} = {a. a < n \<and> f a = 1}" by auto
  finally show ?thesis .
qed

lemma exactly_one:
  fixes f :: "nat \<Rightarrow> int"
  assumes "\<forall>a<n. f a = 0 \<or> f a = 1" and "(\<Sum>a<n. f a) = 1"
  shows "\<exists>a<n. \<forall>b<n. f b = (if a = b then 1 else 0)"
proof -
  have "card {b. b < n \<and> f b = 1} = 1" using sum_zero_one [OF assms(1)] assms(2) by simp
  then obtain a where a: "{b. b < n \<and> f b = 1} = {a}" by (rule card_1_singletonE)
  then have iff: "b < n \<and> f b = 1 \<longleftrightarrow> b = a" for b by blast
  then have "f b = (if a = b then 1 else 0)" if "b < n" for b using assms(1) iff [of b] that by auto
  then show ?thesis using iff [of a] by blast
qed

lemma at_most_one:
  fixes f :: "nat \<Rightarrow> int"
  assumes "\<forall>a<n. f a = 0 \<or> f a = 1" and "(\<Sum>a<n. f a) \<le> 1" and "a < n" and "b < n" and "f a = 1" and "f b = 1"
  shows "a = b"
proof (rule ccontr)
  assume "a \<noteq> b"
  then have "card {a, b} \<le> card {c. c < n \<and> f c = 1}" using assms(3-6) by (intro card_mono) auto
  then show False using \<open>a \<noteq> b\<close> sum_zero_one [OF assms(1)] assms(2) by simp
qed

lemma primary_group_members:
  assumes "member_constraints n pv (lc_model cls) (length (lc_rank_rows cls))"
  obtains p where "primary_group n pv cls = Inr p" and "group_ok (length (lc_rank_rows cls)) n p"
    and "\<forall>r<length (lc_rank_rows cls). \<forall>a<n. primary_member pv (lc_model cls) a r = (if p ! r = a then 1 else 0)"
proof -
  let ?tp = "length (lc_rank_rows cls)" and ?x = "primary_member pv (lc_model cls)"
  note rules = assms [unfolded member_constraints_def]
  have "\<exists>a<n. \<forall>b<n. ?x b r = (if a = b then 1 else 0)" if "r < ?tp" for r
    by (rule exactly_one) (use rules that in auto)
  then obtain f where f: "\<And>r. r < ?tp \<Longrightarrow> f r < n" "\<And>r b. r < ?tp \<Longrightarrow> b < n \<Longrightarrow> ?x b r = (if f r = b then 1 else 0)"
    by metis
  have "(case filter (\<lambda>a. ?x a r \<noteq> 0) [0..<n] of [] \<Rightarrow> Inl StopIteration | a # _ \<Rightarrow> Inr a) = Inr (f r)" if "r < ?tp" for r
  proof -
    have "filter (\<lambda>a. ?x a r \<noteq> 0) [0..<n] = filter (\<lambda>a. f r = a) [0..<n]"
      by (rule filter_cong) (use f(2) [OF that] in auto)
    moreover have "set (filter (\<lambda>a. f r = a) [0..<n]) = {f r}" using f(1) [OF that] by auto
    ultimately show ?thesis by (cases "filter (\<lambda>a. f r = a) [0..<n]") auto
  qed
  then have p: "primary_group n pv cls = Inr (map f [0..<?tp])" unfolding primary_group_def by (intro rmap_const) simp
  have "inj_on f {..<?tp}"
  proof (rule inj_onI)
    fix r q assume rq: "r \<in> {..<?tp}" "q \<in> {..<?tp}" "f r = f q"
    have bits: "\<forall>q<?tp. ?x (f r) q = 0 \<or> ?x (f r) q = 1" "(\<Sum>q<?tp. ?x (f r) q) \<le> 1" using rules f(1) rq(1) by auto
    show "r = q" by (rule at_most_one [OF bits]) (use rq f in auto)
  qed
  then have "group_ok ?tp n (map f [0..<?tp])"
    using f(1) by (auto simp: group_ok_def distinct_map atLeast0LessThan)
  then show thesis using p f(2) by (intro that [of "map f [0..<?tp]"]) auto
qed

lemma residual_rank_regular:
  fixes cls :: "'r layer_class"
  defines "tp \<equiv> length (lc_rank_rows cls)"
  assumes "assignment_constraints n pv c cls" and "primary_constraints n pv c cls"
    and "member_constraints n pv (lc_model cls) tp" and "0 < tp" and "tp \<le> n"
  shows "rank_regular tp n (int (length (lc_layers cls)) - primary_layer_count pv c) (residual_counts n pv c cls)"
proof -
  let ?M = "residual_counts n pv c cls" and ?k = "int (length (lc_layers cls)) - primary_layer_count pv c"
  note assign = assms(2) [unfolded assignment_constraints_def Let_def, folded tp_def]
    and primary = assms(3) [unfolded primary_constraints_def Let_def, folded tp_def]
  have cell: "cell ?M r a = assignment_count pv c a r - primary_assignment_count pv c a r" if "r < tp" "a < n" for r a
    using that by (simp add: residual_counts_def tp_def)
  have row: "sum_list (map (\<lambda>a. assignment_count pv c a r - primary_assignment_count pv c a r) [0..<n]) = ?k" if "r < tp" for r
  proof -
    have "(\<Sum>a<n. primary_assignment_count pv c a r) = (\<Sum>a<n. primary_layer_count pv c * primary_member pv (lc_model cls) a r)"
      by (rule sum.cong) (use primary that in auto)
    also have "\<dots> = primary_layer_count pv c"
      using assms(4) that by (simp add: sum_distrib_left [symmetric] member_constraints_def)
    finally show ?thesis using assign that
      by (simp add: interv_sum_list_conv_sum_set_nat atLeast0LessThan sum_subtractf)
  qed
  have "(\<Sum>r<tp. cell ?M r a) \<le> ?k" if "a < n" for a
  proof -
    have "(\<Sum>r<tp. cell ?M r a) = (\<Sum>r<tp. assignment_count pv c a r - primary_assignment_count pv c a r)"
      by (rule sum.cong) (use cell that in auto)
    also have "\<dots> \<le> ?k" using primary that by blast
    finally show ?thesis .
  qed
  moreover have fits: "primary_assignment_count pv c a r \<le> assignment_count pv c a r" if "a < n" "r < tp" for a r
    using primary that by blast
  moreover have "length r = n \<and> (\<forall>v\<in>set r. 0 \<le> v) \<and> sum_list r = ?k" if "r \<in> set ?M" for r
    using that row fits by (auto simp: residual_counts_def tp_def)
  ultimately show ?thesis using assms(5,6) by (simp add: rank_regular_def residual_counts_def tp_def)
qed

subsection \<open>One class\<close>

text \<open>What the projection of a class leaves in the dictionary.\<close>

definition class_placed :: "nat \<Rightarrow> placement_values \<Rightarrow> placed_groups \<Rightarrow> nat \<times> 'r layer_class \<Rightarrow> bool" where
  "class_placed n pv groups = (\<lambda>(c, cls). \<exists>gs. length gs = length (lc_layers cls)
     \<and> (\<forall>k<length gs. dict_get groups (lc_model cls, lc_layers cls ! k) = Some (gs ! k))
     \<and> (\<forall>members\<in>set gs. group_ok (length (lc_rank_rows cls)) n members)
     \<and> (\<forall>r<length (lc_rank_rows cls). \<forall>a<n. assignment_count pv c a r = assigned gs r a))"

abbreviation coordinates :: "'r layer_class \<Rightarrow> (nat \<times> nat) set" where
  "coordinates cls \<equiv> Pair (lc_model cls) ` set (lc_layers cls)"

text \<open>\<open>groups'\<close> extends \<open>groups\<close> by entries for the coordinates of a class only.\<close>

definition extends_by :: "(nat \<times> nat) set \<Rightarrow> placed_groups \<Rightarrow> placed_groups \<Rightarrow> bool" where
  "extends_by K groups groups' \<longleftrightarrow> (\<forall>k. k \<notin> K \<longrightarrow> dict_get groups' k = dict_get groups k)"

lemma dict_of_pairs:
  assumes "distinct ks" and "length vs = length ks"
  shows "dict_get (dict_of (zip ks vs) d) k = (case map_of (zip ks vs) k of None \<Rightarrow> dict_get d k | Some v \<Rightarrow> Some v)"
proof -
  have "map fst (zip ks vs) = ks" using assms(2) by (simp add: map_fst_zip)
  then show ?thesis using assms(1) by (simp add: map_of_dict_of map_of_rev_distinct)
qed

lemma dict_of_join: "dict_of ys (dict_of xs d) = dict_of (xs @ ys) d"
  by (induction xs d rule: dict_of.induct) auto

lemma assigned_primary: "assigned (replicate k p @ gs) r a = (if p ! r = a then int k else 0) + assigned gs r a"
  by simp

text \<open>Primary layers followed by projected ones are one assignment of groups to the layers in order.\<close>

lemma placed_pairs:
  assumes "k \<le> length layers"
  shows "dict_of (map (\<lambda>(l, members). ((m, l), members)) (zip (drop k layers) projected))
      (dict_of (map (\<lambda>l. ((m, l), p)) (take k layers)) groups)
    = dict_of (zip (map (Pair m) layers) (replicate k p @ projected)) groups"
  unfolding dict_of_join
proof (rule arg_cong [where f = "\<lambda>kvs. dict_of kvs groups"])
  have "map (Pair m) layers = map (Pair m) (take k layers) @ map (Pair m) (drop k layers)"
    unfolding map_append [symmetric] append_take_drop_id ..
  then have "zip (map (Pair m) layers) (replicate k p @ projected) = zip (map (Pair m) (take k layers)) (replicate k p)
      @ zip (map (Pair m) (drop k layers)) projected" using assms by (simp add: zip_append1)
  then show "map (\<lambda>l. ((m, l), p)) (take k layers)
      @ map (\<lambda>(l, members). ((m, l), members)) (zip (drop k layers) projected)
    = zip (map (Pair m) layers) (replicate k p @ projected)"
    using assms by (simp add: zip_map1 zip_replicate2 comp_def case_prod_beta)
qed

lemma zip_placed:
  fixes cls :: "'r layer_class" and groups :: placed_groups
  defines "groups' \<equiv> \<lambda>gs. dict_of (zip (map (Pair (lc_model cls)) (lc_layers cls)) gs) groups"
  assumes "distinct (lc_layers cls)" and "length gs = length (lc_layers cls)"
    and "\<forall>members\<in>set gs. group_ok (length (lc_rank_rows cls)) n members"
    and "\<forall>r<length (lc_rank_rows cls). \<forall>a<n. assignment_count pv c a r = assigned gs r a"
  shows "class_placed n pv (groups' gs) (c, cls) \<and> extends_by (coordinates cls) groups (groups' gs)"
proof
  let ?keys = "map (Pair (lc_model cls)) (lc_layers cls)"
  have keys: "distinct ?keys" using assms(2) by (simp add: distinct_map inj_on_def)
  note lookup = dict_of_pairs [OF this, of gs groups]
  show "class_placed n pv (groups' gs) (c, cls)"
    unfolding class_placed_def prod.case groups'_def
  proof (intro exI [of _ gs] conjI assms(3-5) allI impI)
    show "dict_get (dict_of (zip ?keys gs) groups) (lc_model cls, lc_layers cls ! k) = Some (gs ! k)" if "k < length gs" for k
      using that assms(3) lookup map_of_zip_nth [of ?keys gs k] keys by simp
  qed
  show "extends_by (coordinates cls) groups (groups' gs)"
    unfolding extends_by_def groups'_def using lookup assms(3)
    by (auto simp: map_of_zip_is_None image_iff split: option.splits dest!: map_of_SomeD set_zip_leftD)
qed

lemma project_class_places:
  fixes cls :: "'r layer_class"
  defines "tp \<equiv> length (lc_rank_rows cls)"
  assumes "flow_correct solve" and "assignment_constraints n pv c cls" and "primary_constraints n pv c cls"
    and "member_constraints n pv (lc_model cls) tp" and "0 < tp" and "tp \<le> n" and "distinct (lc_layers cls)"
  shows "timely clock deadline (project_class clock solve deadline n pv (c, cls) groups)
     (\<lambda>groups'. class_placed n pv groups' (c, cls) \<and> extends_by (coordinates cls) groups groups')"
proof -
  let ?m = "lc_model cls" and ?layers = "lc_layers cls" and ?pc = "nat (primary_layer_count pv c)"
  obtain p where p: "primary_group n pv cls = Inr p" "group_ok tp n p"
    "\<forall>r<tp. \<forall>a<n. primary_member pv ?m a r = (if p ! r = a then 1 else 0)"
    using primary_group_members [of n pv cls] assms(5) unfolding tp_def by blast
  have pc: "0 \<le> primary_layer_count pv c" "?pc \<le> length ?layers"
    and selected: "\<And>a r. a < n \<Longrightarrow> r < tp \<Longrightarrow> primary_assignment_count pv c a r = primary_layer_count pv c * primary_member pv ?m a r"
    using assms(4) by (auto simp: primary_constraints_def tp_def Let_def)
  have shape: "rank_regular tp n (int (length ?layers) - primary_layer_count pv c) (residual_counts n pv c cls)"
    unfolding tp_def by (rule residual_rank_regular) (use assms in \<open>simp_all add: tp_def\<close>)
  show ?thesis
    unfolding project_class_def prod.case p(1) bind_lift_Inr Let_def placed_pairs [OF pc(2)]
  proof (rule timely_bind [OF projection_timely [OF assms(2) shape]])
    fix projected
    assume "int (length projected) = int (length ?layers) - primary_layer_count pv c
        \<and> (\<forall>members\<in>set projected. group_ok tp n members)
        \<and> (\<forall>i<tp. \<forall>j<n. cell (residual_counts n pv c cls) i j = assigned projected i j)"
    then have proj: "length projected = length ?layers - ?pc" "\<forall>members\<in>set projected. group_ok tp n members"
      "\<forall>i<tp. \<forall>j<n. cell (residual_counts n pv c cls) i j = assigned projected i j" using pc by auto
    let ?gs = "replicate ?pc p @ projected"
    have pairs: "zip_strict (drop ?pc ?layers) projected = Inr (zip (drop ?pc ?layers) projected)"
      using proj(1) by (simp add: zip_strict_def)
    have "assignment_count pv c a r = assigned ?gs r a" if "r < tp" "a < n" for r a
    proof -
      have "assignment_count pv c a r - primary_assignment_count pv c a r = assigned projected r a"
        using proj(3) that by (simp add: residual_counts_def tp_def)
      then show ?thesis unfolding assigned_primary
        using selected [of a r] p(3) that pc(1) by (cases "p ! r = a") simp_all
    qed
    then have "class_placed n pv (dict_of (zip (map (Pair ?m) ?layers) ?gs) groups) (c, cls)
        \<and> extends_by (coordinates cls) groups (dict_of (zip (map (Pair ?m) ?layers) ?gs) groups)"
      using proj pc(2) p(2) by (intro zip_placed [OF assms(8)]) (auto simp: tp_def)
    then show "timely clock deadline
        (bind (lift_result (zip_strict (drop ?pc ?layers) projected)) (\<lambda>pairs.
          ret (dict_of (map (\<lambda>(l, members). ((?m, l), members)) pairs)
            (dict_of (map (\<lambda>l. ((?m, l), p)) (take ?pc ?layers)) groups))))
        (\<lambda>groups'. class_placed n pv groups' (c, cls) \<and> extends_by (coordinates cls) groups groups')"
      unfolding pairs bind_lift_Inr placed_pairs [OF pc(2)] by (rule timely_ret)
  qed
qed

subsection \<open>All classes\<close>

definition class_ok :: "nat \<Rightarrow> placement_values \<Rightarrow> nat \<times> 'r layer_class \<Rightarrow> bool" where
  "class_ok n pv = (\<lambda>(c, cls). assignment_constraints n pv c cls \<and> primary_constraints n pv c cls
     \<and> member_constraints n pv (lc_model cls) (length (lc_rank_rows cls))
     \<and> 0 < length (lc_rank_rows cls) \<and> length (lc_rank_rows cls) \<le> n \<and> distinct (lc_layers cls))"

lemma class_placed_extends:
  assumes "class_placed n pv groups (c, cls)" and "extends_by K groups groups'" and "coordinates cls \<inter> K = {}"
  shows "class_placed n pv groups' (c, cls)"
proof -
  obtain gs where gs: "length gs = length (lc_layers cls)"
    "\<forall>k<length gs. dict_get groups (lc_model cls, lc_layers cls ! k) = Some (gs ! k)"
    "\<forall>members\<in>set gs. group_ok (length (lc_rank_rows cls)) n members"
    "\<forall>r<length (lc_rank_rows cls). \<forall>a<n. assignment_count pv c a r = assigned gs r a"
    using assms(1) by (auto simp: class_placed_def)
  have "dict_get groups' (lc_model cls, lc_layers cls ! k) = Some (gs ! k)" if "k < length gs" for k
  proof -
    have "(lc_model cls, lc_layers cls ! k) \<in> coordinates cls" using that gs(1) by simp
    then have "(lc_model cls, lc_layers cls ! k) \<notin> K" using assms(3) by blast
    then show ?thesis using assms(2) gs(2) that by (simp add: extends_by_def)
  qed
  then show ?thesis using gs unfolding class_placed_def by auto
qed

lemma project_classes_place:
  assumes "flow_correct solve" and "\<forall>x\<in>set ics. class_ok n pv x"
    and "distinct ics" and "\<forall>x\<in>set ics. \<forall>y\<in>set ics. x \<noteq> y \<longrightarrow> coordinates (snd x) \<inter> coordinates (snd y) = {}"
  shows "timely clock deadline (project_classes clock solve deadline n pv ics groups)
     (\<lambda>groups'. (\<forall>x\<in>set ics. class_placed n pv groups' x)
        \<and> extends_by (\<Union>x\<in>set ics. coordinates (snd x)) groups groups')"
  using assms(2-4)
proof (induction ics arbitrary: groups)
  case Nil
  then show ?case by (simp add: timely_ret extends_by_def)
next
  case (Cons x ics)
  obtain c cls where x: "x = (c, cls)" by (cases x)
  have "class_ok n pv (c, cls)" using Cons.prems(1) x by simp
  then have first: "timely clock deadline (project_class clock solve deadline n pv x groups)
     (\<lambda>groups'. class_placed n pv groups' x \<and> extends_by (coordinates (snd x)) groups groups')"
    unfolding x snd_conv by (intro project_class_places [OF assms(1)]) (simp_all add: class_ok_def)
  show ?case unfolding project_classes.simps
  proof (rule timely_bind [OF first])
    fix groups1 assume g1: "class_placed n pv groups1 x \<and> extends_by (coordinates (snd x)) groups groups1"
    have "timely clock deadline (project_classes clock solve deadline n pv ics groups1)
       (\<lambda>groups'. (\<forall>x\<in>set ics. class_placed n pv groups' x)
          \<and> extends_by (\<Union>x\<in>set ics. coordinates (snd x)) groups1 groups')"
      using Cons.IH Cons.prems by simp
    then show "timely clock deadline (project_classes clock solve deadline n pv ics groups1)
       (\<lambda>groups'. (\<forall>y\<in>set (x # ics). class_placed n pv groups' y)
          \<and> extends_by (\<Union>y\<in>set (x # ics). coordinates (snd y)) groups groups')"
    proof (rule timely_weaken)
      fix groups2 assume g2: "(\<forall>y\<in>set ics. class_placed n pv groups2 y)
          \<and> extends_by (\<Union>y\<in>set ics. coordinates (snd y)) groups1 groups2"
      have "coordinates cls \<inter> coordinates (snd y) = {}" if "y \<in> set ics" for y
      proof -
        have "x \<noteq> y" "y \<in> set (x # ics)" "x \<in> set (x # ics)" using that Cons.prems(2) by auto
        then show ?thesis using Cons.prems(3) x by (metis snd_conv)
      qed
      then have apart: "coordinates cls \<inter> (\<Union>y\<in>set ics. coordinates (snd y)) = {}" by blast
      have "class_placed n pv groups2 x"
        unfolding x by (rule class_placed_extends [OF _ _ apart]) (use g1 g2 x in auto)
      then show "(\<forall>y\<in>set (x # ics). class_placed n pv groups2 y)
          \<and> extends_by (\<Union>y\<in>set (x # ics). coordinates (snd y)) groups groups2"
        using g1 g2 by (simp add: extends_by_def)
    qed
  qed
qed

subsection \<open>The audit accepts\<close>

lemma count_layers_placed:
  assumes "rect tp n counts" and "length gs = length layers"
    and "\<forall>k<length gs. dict_get groups (m, layers ! k) = Some (gs ! k)" and "\<forall>members\<in>set gs. group_ok tp n members"
  shows "\<exists>counts'. count_layers groups m layers counts = Inr counts' \<and> rect tp n counts'
     \<and> (\<forall>i<tp. \<forall>j<n. cell counts' i j = cell counts i j + assigned gs i j)"
  using assms
proof (induction layers arbitrary: gs counts)
  case (Cons l layers)
  then obtain g rest where gs: "gs = g # rest" by (cases gs) auto
  have g: "dict_item groups (m, l) = Inr g" using Cons.prems(3) gs by (auto simp: dict_item_def)
  have "group_ok tp n g" using Cons.prems(4) gs by simp
  then obtain counts1 where c1: "shift_edges 1 counts (enumerate 0 g) = Inr counts1" "rect tp n counts1"
    "\<forall>i<tp. \<forall>j<n. cell counts1 i j = cell counts i j + (if g ! i = j then 1 else 0)"
    using shift_edges_rect [OF Cons.prems(1), of g 0 1] by (auto simp: group_ok_def)
  have "\<forall>k<length rest. dict_get groups (m, layers ! k) = Some (rest ! k)" using Cons.prems(3) gs by auto
  then obtain counts2 where c2: "count_layers groups m layers counts1 = Inr counts2" "rect tp n counts2"
    "\<forall>i<tp. \<forall>j<n. cell counts2 i j = cell counts1 i j + assigned rest i j"
    using Cons.IH [OF c1(2), of rest] Cons.prems(2,4) gs by auto
  then show ?case using g c1 by (auto simp: gs)
qed auto

lemma rect_eqI:
  assumes "rect m n x" and "rect m n y" and "\<And>i j. i < m \<Longrightarrow> j < n \<Longrightarrow> cell x i j = cell y i j"
  shows "x = y"
  using assms by (auto simp: rect_def intro!: nth_equalityI)

lemma audit_placed:
  assumes "class_placed n pv groups (c, cls)"
  shows "audit_class n pv groups (c, cls) = Inr ()"
proof -
  let ?tp = "length (lc_rank_rows cls)"
  let ?solved = "map (\<lambda>r. map (\<lambda>a. assignment_count pv c a r) [0..<n]) [0..<?tp]"
  obtain gs where gs: "length gs = length (lc_layers cls)"
    "\<forall>k<length gs. dict_get groups (lc_model cls, lc_layers cls ! k) = Some (gs ! k)"
    "\<forall>members\<in>set gs. group_ok ?tp n members" "\<forall>r<?tp. \<forall>a<n. assignment_count pv c a r = assigned gs r a"
    using assms by (auto simp: class_placed_def)
  have zero: "rect ?tp n (replicate ?tp (replicate n 0))" by (auto simp: rect_def)
  obtain counts' where c: "count_layers groups (lc_model cls) (lc_layers cls) (replicate ?tp (replicate n 0)) = Inr counts'"
    "rect ?tp n counts'" "\<forall>i<?tp. \<forall>j<n. cell counts' i j = cell (replicate ?tp (replicate n 0)) i j + assigned gs i j"
    using count_layers_placed [OF zero gs(1-3)] by blast
  have "counts' = ?solved" by (rule rect_eqI [OF c(2)]) (use c(3) gs(4) in \<open>auto simp: rect_def\<close>)
  then show ?thesis using c(1) by (simp add: audit_class_def)
qed

subsection \<open>Layer classes partition the layers\<close>

text \<open>\<^verbatim>\<open>grouped\<close> after the layers with ordinals \<open>L\<close>: distinct row keys, distinct ordinals, and nothing else.\<close>

definition grouped_ok :: "(nat \<times> 'r list) set \<Rightarrow> ('r list, nat list) dict \<Rightarrow> bool" where
  "grouped_ok L grouped \<longleftrightarrow> distinct (dict_keys grouped)
     \<and> (\<forall>(rows, ls)\<in>set grouped. distinct ls \<and> (\<forall>l\<in>set ls. (l, rows) \<in> L))
     \<and> (\<forall>(l, rows)\<in>L. \<exists>ls. dict_get grouped rows = Some ls \<and> l \<in> set ls)"

lemma grouped_ok_insert:
  assumes "grouped_ok L grouped" and "l \<notin> fst ` L"
  shows "grouped_ok (insert (l, rows) L)
     (dict_set rows ((case dict_get grouped rows of None \<Rightarrow> [] | Some found \<Rightarrow> found) @ [l]) grouped)"
proof -
  define found where "found = (case dict_get grouped rows of None \<Rightarrow> [] | Some found \<Rightarrow> found)"
  let ?new = "dict_set rows (found @ [l]) grouped"
  have keys: "distinct (dict_keys ?new)" using assms(1) by (simp add: grouped_ok_def dict_set_distinct)
  have old: "distinct ls \<and> (\<forall>k\<in>set ls. (k, key) \<in> L)" if "dict_get grouped key = Some ls" for key ls
    using assms(1) that by (auto simp: grouped_ok_def dest: map_of_SomeD)
  have found: "distinct found" "\<forall>k\<in>set found. (k, rows) \<in> L" "l \<notin> set found"
    unfolding found_def using old [of rows] assms(2) by (cases "dict_get grouped rows"; auto intro: rev_image_eqI)+
  have entries: "distinct ls \<and> (\<forall>k\<in>set ls. (k, key) \<in> insert (l, rows) L)" if "(key, ls) \<in> set ?new" for key ls
  proof -
    have "dict_get ?new key = Some ls" by (rule map_of_is_SomeI [OF keys that])
    then show ?thesis using found old [of key] by (auto split: if_splits)
  qed
  have covered: "\<exists>ls. dict_get ?new key = Some ls \<and> k \<in> set ls" if mem: "(k, key) \<in> insert (l, rows) L" for k key
  proof (cases "(k, key) = (l, rows)")
    case False
    then have "(k, key) \<in> L" using mem by auto
    then obtain ls where ls: "dict_get grouped key = Some ls" "k \<in> set ls" using assms(1) unfolding grouped_ok_def by blast
    then show ?thesis by (cases "key = rows") (simp_all add: found_def)
  qed simp
  have "grouped_ok (insert (l, rows) L) ?new"
    unfolding grouped_ok_def
  proof (intro conjI ballI)
    show "distinct (dict_keys ?new)" by (rule keys)
    show "case x of (key, ls) \<Rightarrow> distinct ls \<and> (\<forall>k\<in>set ls. (k, key) \<in> insert (l, rows) L)" if "x \<in> set ?new" for x
      unfolding case_prod_beta by (rule entries) (use that in simp)
    show "case x of (k, key) \<Rightarrow> \<exists>ls. dict_get ?new key = Some ls \<and> k \<in> set ls" if "x \<in> insert (l, rows) L" for x
      unfolding case_prod_beta by (rule covered) (use that in simp)
  qed
  then show ?thesis unfolding found_def .
qed

lemma group_layers_ok:
  assumes "grouped_ok L grouped" and "distinct (map fst layers)" and "fst ` set layers \<inter> fst ` L = {}"
  shows "grouped_ok (L \<union> set layers) (group_layers layers grouped)"
  using assms
proof (induction layers grouped arbitrary: L rule: group_layers.induct)
  case (2 l rows layers grouped)
  have "l \<notin> fst ` L" using "2.prems"(3) by auto
  from "2.IH" [OF grouped_ok_insert [OF "2.prems"(1) this]] "2.prems" show ?case by auto
qed simp

lemma layer_class_mem:
  assumes "cls \<in> set (layer_classes models)"
  shows "lc_model cls < length models"
    and "(lc_rank_rows cls, lc_layers cls) \<in> set (group_layers (enumerate 0 (models ! lc_model cls)) [])"
  using assms by (auto simp: layer_classes_def in_set_enumerate_eq)

lemma grouped_model: "grouped_ok (set (enumerate 0 layers)) (group_layers (enumerate 0 layers) [])"
proof -
  have "grouped_ok {} []" by (simp add: grouped_ok_def)
  from group_layers_ok [OF this, of "enumerate 0 layers"] show ?thesis by simp
qed

lemma class_layers:
  assumes "cls \<in> set (layer_classes models)"
  shows "distinct (lc_layers cls)" and "\<forall>l\<in>set (lc_layers cls). l < length (models ! lc_model cls) \<and> models ! lc_model cls ! l = lc_rank_rows cls"
  using grouped_model [of "models ! lc_model cls"] layer_class_mem(2) [OF assms]
  by (auto simp: grouped_ok_def in_set_enumerate_eq)

lemma layer_has_class:
  assumes "m < length models" and "l < length (models ! m)"
  shows "\<exists>cls\<in>set (layer_classes models). lc_model cls = m \<and> l \<in> set (lc_layers cls)"
proof -
  have "(l, models ! m ! l) \<in> set (enumerate 0 (models ! m))" using assms(2) by (simp add: in_set_enumerate_eq)
  then obtain ls where ls: "dict_get (group_layers (enumerate 0 (models ! m)) []) (models ! m ! l) = Some ls" "l \<in> set ls"
    using grouped_model [of "models ! m"] unfolding grouped_ok_def by blast
  then have "(models ! m ! l, ls) \<in> set (group_layers (enumerate 0 (models ! m)) [])" by (simp add: map_of_SomeD)
  moreover have "(m, models ! m) \<in> set (enumerate 0 models)" using assms(1) by (simp add: in_set_enumerate_eq)
  ultimately have "\<lparr>lc_model = m, lc_layers = ls, lc_rank_rows = models ! m ! l\<rparr> \<in> set (layer_classes models)"
    unfolding layer_classes_def by force
  then show ?thesis using ls(2) by force
qed

lemma grouped_key_unique:
  assumes "cls \<in> set (layer_classes models)" and "cls' \<in> set (layer_classes models)"
    and "lc_model cls = lc_model cls'" and "lc_rank_rows cls = lc_rank_rows cls'"
  shows "lc_layers cls = lc_layers cls'"
proof -
  have "distinct (dict_keys (group_layers (enumerate 0 (models ! lc_model cls)) []))"
    using grouped_model by (auto simp: grouped_ok_def)
  then show ?thesis using layer_class_mem(2) [OF assms(1)] layer_class_mem(2) [OF assms(2)] assms(3,4)
    by (metis eq_key_imp_eq_value)
qed

lemma classes_disjoint:
  assumes "cls \<in> set (layer_classes models)" and "cls' \<in> set (layer_classes models)"
    and "coordinates cls \<inter> coordinates cls' \<noteq> {}"
  shows "cls = cls'"
proof -
  obtain l where "lc_model cls = lc_model cls'" "l \<in> set (lc_layers cls)" "l \<in> set (lc_layers cls')" using assms(3) by auto
  moreover from this have "lc_rank_rows cls = lc_rank_rows cls'"
    using class_layers(2) [OF assms(1)] class_layers(2) [OF assms(2)] by metis
  ultimately show ?thesis using grouped_key_unique [OF assms(1,2)] by (metis layer_class.equality unit.exhaust)
qed

lemma distinct_layer_classes: "distinct (layer_classes models)"
proof -
  have inner: "distinct (map (\<lambda>(rank_rows, layer_indices). \<lparr>lc_model = m, lc_layers = layer_indices, lc_rank_rows = rank_rows\<rparr>)
      (group_layers (enumerate 0 layers) []))" for m and layers :: "'a list list"
  proof -
    have "distinct (map lc_rank_rows (map (\<lambda>(rank_rows, layer_indices).
        \<lparr>lc_model = m, lc_layers = layer_indices, lc_rank_rows = rank_rows\<rparr>) (group_layers (enumerate 0 layers) [])))"
      using grouped_model [of layers] by (simp add: grouped_ok_def comp_def case_prod_beta)
    then show ?thesis by (metis distinct_map)
  qed
  have "distinct (concat (map (\<lambda>(m, layers). map (\<lambda>(rank_rows, layer_indices).
        \<lparr>lc_model = m, lc_layers = layer_indices, lc_rank_rows = rank_rows\<rparr>) (group_layers (enumerate 0 layers) []))
      (enumerate k models)))" for k and models :: "'a list list list"
    by (induction models arbitrary: k) (auto simp: inner in_set_enumerate_eq)
  then show ?thesis unfolding layer_classes_def .
qed

subsection \<open>The whole projection\<close>

text \<open>Every layer of a model has one rank row per tensor-parallel rank, and no more ranks than FfnAgents.\<close>

definition sized :: "nat \<Rightarrow> nat list \<Rightarrow> 'r list list list \<Rightarrow> bool" where
  "sized n tp_sizes models \<longleftrightarrow> length tp_sizes = length models
     \<and> (\<forall>m<length models. 0 < tp_sizes ! m \<and> tp_sizes ! m \<le> n \<and> (\<forall>rows\<in>set (models ! m). length rows = tp_sizes ! m))"

lemma update_entries: "set (AList.update k v d) \<subseteq> insert (k, v) (set d)"
  by (induction d) auto

lemma group_layers_nonempty:
  "\<forall>(rows, ls)\<in>set grouped. ls \<noteq> [] \<Longrightarrow> (rows, ls) \<in> set (group_layers layers grouped) \<Longrightarrow> ls \<noteq> []"
proof (induction layers grouped rule: group_layers.induct)
  case (2 l key layers grouped)
  let ?new = "dict_set key ((case dict_get grouped key of None \<Rightarrow> [] | Some found \<Rightarrow> found) @ [l]) grouped"
  have "\<forall>(rows, ls)\<in>set ?new. ls \<noteq> []"
    using "2.prems"(1) update_entries [of key "(case dict_get grouped key of None \<Rightarrow> [] | Some found \<Rightarrow> found) @ [l]" grouped]
    by blast
  then show ?case using "2.IH" "2.prems"(2) by simp
qed auto

lemma class_is_ok:
  assumes "sized n tp_sizes models" and "satisfies n pv tp_sizes (layer_classes models)"
    and "(c, cls) \<in> set (enumerate 0 (layer_classes models))"
  shows "class_ok n pv (c, cls)" and "length (lc_rank_rows cls) = tp_sizes ! lc_model cls"
proof -
  have cls: "cls \<in> set (layer_classes models)" using assms(3) by (auto simp: in_set_enumerate_eq)
  let ?m = "lc_model cls"
  have m: "?m < length models" by (rule layer_class_mem(1) [OF cls])
  have "lc_layers cls \<noteq> []"
    by (rule group_layers_nonempty [OF _ layer_class_mem(2) [OF cls]]) simp
  then obtain l where "l < length (models ! ?m)" "models ! ?m ! l = lc_rank_rows cls"
    using class_layers(2) [OF cls] by (cases "lc_layers cls") auto
  then show tp: "length (lc_rank_rows cls) = tp_sizes ! ?m" using assms(1) m by (auto simp: sized_def dest: nth_mem)
  have "(?m, tp_sizes ! ?m) \<in> set (enumerate 0 tp_sizes)" using assms(1) m by (simp add: in_set_enumerate_eq sized_def)
  then have "member_constraints n pv ?m (tp_sizes ! ?m)" using assms(2) unfolding satisfies_def by blast
  moreover have "assignment_constraints n pv c cls" "primary_constraints n pv c cls"
    using assms(2,3) unfolding satisfies_def by blast+
  moreover have "0 < length (lc_rank_rows cls)" "length (lc_rank_rows cls) \<le> n" using tp assms(1) m by (auto simp: sized_def)
  ultimately show "class_ok n pv (c, cls)"
    unfolding class_ok_def prod.case tp using class_layers(1) [OF cls] by (intro conjI)
qed

lemma enumerated_disjoint:
  assumes "x \<in> set (enumerate 0 (layer_classes models))" and "y \<in> set (enumerate 0 (layer_classes models))" and "x \<noteq> y"
  shows "coordinates (snd x) \<inter> coordinates (snd y) = {}"
proof (rule ccontr)
  assume "\<not> ?thesis"
  moreover have at: "layer_classes models ! fst x = snd x" "layer_classes models ! fst y = snd y"
    "fst x < length (layer_classes models)" "fst y < length (layer_classes models)"
    using assms(1,2) by (auto simp: in_set_enumerate_eq)
  moreover have "snd x \<in> set (layer_classes models)" "snd y \<in> set (layer_classes models)"
    unfolding at(1,2) [symmetric] using at(3,4) by simp_all
  ultimately have "snd x = snd y" using classes_disjoint by blast
  with at have "fst x = fst y" using distinct_layer_classes [of models] by (metis nth_eq_iff_index_eq)
  then show False using \<open>snd x = snd y\<close> assms(3) by (metis prod.collapse)
qed

text \<open>A placed layer finds its group, and the groups of a class add up to the solved counts.\<close>

lemma class_placed_results:
  assumes "class_placed n pv groups (c, cls)"
  shows "\<forall>l\<in>set (lc_layers cls). \<exists>members. dict_get groups (lc_model cls, l) = Some members \<and> group_ok (length (lc_rank_rows cls)) n members"
    and "\<forall>r<length (lc_rank_rows cls). \<forall>a<n.
      assignment_count pv c a r = assigned (map (\<lambda>l. the (dict_get groups (lc_model cls, l))) (lc_layers cls)) r a"
proof -
  obtain gs where gs: "length gs = length (lc_layers cls)"
    "\<forall>k<length gs. dict_get groups (lc_model cls, lc_layers cls ! k) = Some (gs ! k)"
    "\<forall>members\<in>set gs. group_ok (length (lc_rank_rows cls)) n members"
    "\<forall>r<length (lc_rank_rows cls). \<forall>a<n. assignment_count pv c a r = assigned gs r a"
    using assms by (auto simp: class_placed_def)
  then show "\<forall>l\<in>set (lc_layers cls). \<exists>members. dict_get groups (lc_model cls, l) = Some members \<and> group_ok (length (lc_rank_rows cls)) n members"
    by (metis in_set_conv_nth)
  have "map (\<lambda>l. the (dict_get groups (lc_model cls, l))) (lc_layers cls) = gs"
    by (rule nth_equalityI) (use gs(1,2) in auto)
  then show "\<forall>r<length (lc_rank_rows cls). \<forall>a<n.
      assignment_count pv c a r = assigned (map (\<lambda>l. the (dict_get groups (lc_model cls, l))) (lc_layers cls)) r a"
    using gs(4) by simp
qed

text \<open>The outcome promised for a solution: groups for all layers, with the solved totals per class.\<close>

definition reproduces :: "nat \<Rightarrow> placement_values \<Rightarrow> nat list \<Rightarrow> 'r list list list \<Rightarrow> placed_groups \<Rightarrow> bool" where
  "reproduces n pv tp_sizes models groups \<longleftrightarrow>
     (\<forall>m<length models. \<forall>l<length (models ! m).
        \<exists>members. dict_get groups (m, l) = Some members \<and> group_ok (tp_sizes ! m) n members)
     \<and> (\<forall>(c, cls)\<in>set (enumerate 0 (layer_classes models)). \<forall>r<tp_sizes ! lc_model cls. \<forall>a<n.
          assigned (map (\<lambda>l. the (dict_get groups (lc_model cls, l))) (lc_layers cls)) r a = assignment_count pv c a r)"

lemma placed_reproduces:
  assumes "sized n tp_sizes models" and "satisfies n pv tp_sizes (layer_classes models)"
    and "\<forall>x\<in>set (enumerate 0 (layer_classes models)). class_placed n pv groups x"
  shows "reproduces n pv tp_sizes models groups"
  unfolding reproduces_def
proof (intro conjI allI impI ballI)
  fix m l assume "m < length models" "l < length (models ! m)"
  then obtain cls where cls: "cls \<in> set (layer_classes models)" "lc_model cls = m" "l \<in> set (lc_layers cls)"
    using layer_has_class by blast
  then obtain c where c: "(c, cls) \<in> set (enumerate 0 (layer_classes models))"
    by (metis add_0 enumerate_eq_zip in_set_conv_nth nth_enumerate_eq length_enumerate)
  have "class_placed n pv groups (c, cls)" using assms(3) c by (rule bspec)
  from class_placed_results(1) [OF this] cls(3)
  show "\<exists>members. dict_get groups (m, l) = Some members \<and> group_ok (tp_sizes ! m) n members"
    unfolding class_is_ok(2) [OF assms(1,2) c] cls(2) by (rule bspec)
next
  fix x assume "x \<in> set (enumerate 0 (layer_classes models))"
  then have x: "(fst x, snd x) \<in> set (enumerate 0 (layer_classes models))" by simp
  have "class_placed n pv groups (fst x, snd x)" using assms(3) x by (rule bspec)
  from class_placed_results(2) [OF this]
  show "case x of (c, cls) \<Rightarrow> \<forall>r<tp_sizes ! lc_model cls. \<forall>a<n.
      assigned (map (\<lambda>l. the (dict_get groups (lc_model cls, l))) (lc_layers cls)) r a = assignment_count pv c a r"
    unfolding case_prod_beta class_is_ok(2) [OF assms(1,2) x] by simp
qed

text \<open>
  C19: The placement projection never fails on solver values. If they satisfy the constraints the code adds, the
  projection of all layer classes returns and passes its own audit unless the clock reached the deadline:
  every layer of every model has a group of distinct FfnAgents of its model's tensor-parallel size, and the
  groups of each class use every FfnAgent for every rank exactly as often as solved.
\<close>

theorem placement_reproduces_solution:
  assumes "flow_correct solve" and "sized n tp_sizes models" and "satisfies n pv tp_sizes (layer_classes models)"
  shows "case fst (place_groups clock solve deadline n pv (layer_classes models) t) of
       Inl e \<Rightarrow> expired clock deadline e
     | Inr groups \<Rightarrow> reproduces n pv tp_sizes models groups"
proof -
  let ?ics = "enumerate 0 (layer_classes models)"
  have ok: "\<forall>x\<in>set ?ics. class_ok n pv x"
  proof
    fix x assume "x \<in> set ?ics"
    then show "class_ok n pv x" using class_is_ok(1) [OF assms(2,3), of "fst x" "snd x"] by simp
  qed
  have apart: "\<forall>x\<in>set ?ics. \<forall>y\<in>set ?ics. x \<noteq> y \<longrightarrow> coordinates (snd x) \<inter> coordinates (snd y) = {}"
    by (intro ballI impI enumerated_disjoint)
  have "distinct ?ics" by (simp add: distinct_enumerate)
  note placed = project_classes_place [OF assms(1) ok this apart, of clock deadline "[]"]
  have "timely clock deadline (place_groups clock solve deadline n pv (layer_classes models))
      (reproduces n pv tp_sizes models)"
    unfolding place_groups_def
  proof (rule timely_bind [OF placed])
    fix groups assume groups: "(\<forall>x\<in>set ?ics. class_placed n pv groups x)
        \<and> extends_by (\<Union>x\<in>set ?ics. coordinates (snd x)) [] groups"
    have "rmap (audit_class n pv groups) ?ics = Inr (map (\<lambda>_. ()) ?ics)"
    proof (rule rmap_const)
      fix x assume "x \<in> set ?ics"
      then show "audit_class n pv groups x = Inr ()"
        using audit_placed [of n pv groups "fst x" "snd x"] groups by simp
    qed
    moreover have "reproduces n pv tp_sizes models groups" by (rule placed_reproduces [OF assms(2,3) conjunct1 [OF groups]])
    ultimately show "timely clock deadline (bind (lift_result (rmap (audit_class n pv groups) ?ics)) (\<lambda>_. ret groups))
        (reproduces n pv tp_sizes models)"
      by (simp only: bind_lift_Inr timely_ret)
  qed
  from timely_outcome [OF this] show ?thesis .
qed

subsection \<open>An instance\<close>

text \<open>A maximum-flow function that meets the contract, and a two-FfnAgent deployment.\<close>

definition search_flow :: flow_solver where
  "search_flow arcs s t =
     (Flow_OPTIMAL, Max (flow_value s ` {F. unit_flow ((\<lambda>(u, v, c). (u, v)) ` set arcs) s t F}))"

lemma search_flow_correct: "flow_correct search_flow"
  unfolding flow_correct_def
proof (intro allI impI)
  fix arcs :: "(nat \<times> nat \<times> int) list" and s t :: nat
  let ?E = "(\<lambda>(u, v, c). (u, v)) ` set arcs"
  have "{F. unit_flow ?E s t F} \<subseteq> Pow ?E" by (auto simp: unit_flow_def)
  then have fin: "finite {F. unit_flow ?E s t F}" by (rule finite_subset) simp
  have "unit_flow ?E s t {}" by (simp add: unit_flow_def)
  then have "Max (flow_value s ` {F. unit_flow ?E s t F}) \<in> flow_value s ` {F. unit_flow ?E s t F}"
    using fin by (intro Max_in) auto
  moreover have "flow_value s F \<le> Max (flow_value s ` {F. unit_flow ?E s t F})" if "unit_flow ?E s t F" for F
    using fin that by (intro Max_ge) auto
  ultimately show "\<exists>best. search_flow arcs s t = (Flow_OPTIMAL, best) \<and> max_unit_flow ?E s t best"
    unfolding search_flow_def max_unit_flow_def by auto
qed

text \<open>Three equal layers on two ranks: two layers on the primary group, one swapped.\<close>

definition sample_layers :: "nat list list list" where
  "sample_layers = [[[7, 8], [7, 8], [7, 8]]]"

definition sample_values :: placement_values where
  "sample_values =
     \<lparr>assignment_count = (\<lambda>c a r. if a = r then 2 else 1), primary_member = (\<lambda>m a r. if a = r then 1 else 0),
      primary_layer_count = (\<lambda>c. 2), primary_assignment_count = (\<lambda>c a r. if a = r then 2 else 0)\<rparr>"

lemma sample_classes: "layer_classes sample_layers = [\<lparr>lc_model = 0, lc_layers = [0, 1, 2], lc_rank_rows = [7, 8]\<rparr>]"
  by (simp add: layer_classes_def sample_layers_def)

lemma all_less_two: "(\<forall>i<2. P i) \<longleftrightarrow> P 0 \<and> P (Suc 0)"
  by (auto simp: numeral_2_eq_2 less_Suc_eq)

lemma sample_satisfies: "satisfies 2 sample_values [2] (layer_classes sample_layers)"
  unfolding sample_classes satisfies_def
  by (simp add: assignment_constraints_def member_constraints_def primary_constraints_def sample_values_def
      all_less_two numeral_2_eq_2 Let_def)

theorem placement_reproduces_solution_witness:
  "\<exists>groups. fst (place_groups (\<lambda>_. 0) search_flow 60 2 sample_values (layer_classes sample_layers) 0) = Inr groups
     \<and> reproduces 2 sample_values [2] sample_layers groups"
proof -
  have "sized 2 [2] sample_layers" by (simp add: sized_def sample_layers_def)
  from placement_reproduces_solution [OF search_flow_correct this sample_satisfies, of "\<lambda>_. 0" 60 0]
  show ?thesis by (auto simp: expired_def split: sum.splits)
qed

text \<open>
  C22: The decomposition of aggregate counts terminates with groups. For counts whose rank rows share one
  degree that no FfnAgent column exceeds, every feasibility test finds an extension, so before the deadline
  the projection returns: as many groups as the degree, each of distinct FfnAgents, which together contain
  FfnAgent \<open>j\<close> at rank \<open>i\<close> exactly as often as the matrix says.
\<close>

theorem projection_returns_exact_groups:
  assumes "flow_correct solve" and "rank_regular tp n k counts" and "\<forall>i. clock i < deadline"
  shows "\<exists>groups t'. project_assignment_counts clock solve deadline counts t = (Inr groups, t')
     \<and> int (length groups) = k \<and> (\<forall>members\<in>set groups. group_ok tp n members)
     \<and> (\<forall>i<tp. \<forall>j<n. assigned groups i j = cell counts i j)"
proof -
  obtain groups t' where "project_assignment_counts clock solve deadline counts t = (Inr groups, t')"
    and "int (length groups) = k \<and> (\<forall>members\<in>set groups. group_ok tp n members)
       \<and> (\<forall>i<tp. \<forall>j<n. cell counts i j = assigned groups i j)"
    by (rule timely_before_deadline [OF projection_timely [OF assms(1,2)] assms(3)])
  then show ?thesis by auto
qed

theorem projection_returns_exact_groups_witness:
  "\<exists>groups t'. project_assignment_counts (\<lambda>_. 0) search_flow 60 [[2, 1, 0], [0, 1, 2]] 0 = (Inr groups, t')
     \<and> length groups = 3 \<and> (\<forall>i<2. \<forall>j<3. assigned groups i j = cell [[2, 1, 0], [0, 1, 2]] i j)"
proof -
  have "rank_regular 2 3 3 [[2, 1, 0], [0, 1, 2]]"
    by (simp add: rank_regular_def numeral_2_eq_2 numeral_3_eq_3 less_Suc_eq)
  from projection_returns_exact_groups [OF search_flow_correct this, of "\<lambda>_. 0" 60 0]
  show ?thesis by fastforce
qed

end
