(* ===== verification/Kv_Vmm.thy ===== *)
theory Kv_Vmm
  imports Ecs_Quota
begin

section \<open>Physical backing of a KV pool\<close>

text \<open>
  \<^verbatim>\<open>xpool/integrations/sglang/ecs/vmm.py\<close>: the layout of one component, the bundles of physical memory mapped
  behind its virtual range, and the interval arithmetic between logical token pages and bundles. Every
  driver call may succeed or fail with a status; a record of answers per bundle stands for the driver.
  A backing charges the byte ledger its Instance rank shares among all components, so operations act on a
  backing together with that ledger. Tensor views and addresses carry no decision and are left out.
\<close>

subsection \<open>Layout\<close>

record kv_vmm_layout =
  lay_cuda_index :: "int option"
  itemsize :: int
  shape :: "int list"
  tokens_per_row :: int
  token_page_size :: int
  layer_count :: int
  buffers_per_layer :: int
  mapping_granularity_bytes :: int
  profile :: pool_profile

text \<open>\<^verbatim>\<open>lay_cuda_index\<close> is None for a device that is not an indexed CUDA device.\<close>

definition row_bytes :: "kv_vmm_layout \<Rightarrow> int" where
  "row_bytes lay = prod_list (tl (shape lay)) * itemsize lay"

definition token_capacity :: "kv_vmm_layout \<Rightarrow> int" where
  "token_capacity lay = hd (shape lay) * tokens_per_row lay - token_page_size lay"

definition KvVmmLayout :: "kv_vmm_layout \<Rightarrow> kv_vmm_layout result" where
  "KvVmmLayout lay =
     rbind (ensure_uint64 (shape lay @ [tokens_per_row lay, token_page_size lay, layer_count lay, buffers_per_layer lay,
                                        mapping_granularity_bytes lay])) (\<lambda>_.
     if lay_cuda_index lay = None
     then Inl (ValueError ''xpool elastic context state backing requires an indexed device'')
     else if shape lay = [] \<or> 0 \<in> set (shape lay)
     then Inl (ValueError ''xpool elastic context state backing requires positive component dimensions'')
     else if 0 \<in> {tokens_per_row lay, token_page_size lay, layer_count lay, buffers_per_layer lay, mapping_granularity_bytes lay}
     then Inl (ValueError ''xpool elastic context state backing requires positive storage geometry'')
     else if token_capacity lay < token_page_size lay
     then Inl (ValueError ''xpool elastic context state reservation requires a usable page after dummy storage'')
     else let granularity = mapping_granularity_bytes lay;
              floor_rows = (token_page_size lay + tokens_per_row lay - 1) div tokens_per_row lay
          in rbind (align_up (hd (shape lay) * row_bytes lay) granularity) (\<lambda>reserved.
             rbind (align_up (floor_rows * row_bytes lay) granularity) (\<lambda>pinned.
             rbind (PoolProfile (granularity * layer_count lay * buffers_per_layer lay) (reserved div granularity)
                      (pinned div granularity)) (\<lambda>p.
               Inr (lay\<lparr>profile := p\<rparr>)))))"

record kv_buffer_desc =
  desc_shape :: "int list"
  desc_row_bytes :: int
  desc_tokens_per_row :: int

text \<open>
  \<^verbatim>\<open>KvVmmBacking.describe\<close>; \<open>current\<close> is the selected device an unindexed one resolves to and \<open>granularity\<close> the
  driver's answer.
\<close>

definition describe ::
    "cu_result + int \<Rightarrow> int \<Rightarrow> bool \<Rightarrow> int option \<Rightarrow> int \<Rightarrow> int \<Rightarrow> kv_buffer_desc list \<Rightarrow> int \<Rightarrow> kv_vmm_layout result" where
  "describe granularity current is_cuda device_index item_bytes page_size descriptors buffers =
     (if \<not> is_cuda then Inl (ValueError ''xpool elastic context state backing requires a device'')
      else rbind (ensure_uint64 [page_size, buffers]) (\<lambda>_.
      if page_size = 0 \<or> buffers = 0 \<or> descriptors = []
      then Inl (ValueError ''xpool elastic context state backing requires positive storage geometry'')
      else if int (length descriptors) mod buffers \<noteq> 0
      then Inl (ValueError ''xpool elastic context state descriptors do not form complete layers'')
      else let first = hd descriptors
           in if \<exists>d\<in>set descriptors. d \<noteq> first
              then Inl (ValueError ''xpool elastic context state components require identical geometry'')
              else if prod_list (tl (desc_shape first)) * item_bytes \<noteq> desc_row_bytes first
              then Inl (ValueError ''xpool elastic context state row bytes disagree with component shape and dtype'')
              else case granularity of
                     Inl status \<Rightarrow> Inl (CudaDriverError status ''cuMemGetAllocationGranularity(xpool elastic context state)'')
                   | Inr bytes \<Rightarrow>
                       KvVmmLayout \<lparr>lay_cuda_index = Some (case device_index of None \<Rightarrow> current | Some i \<Rightarrow> i),
                         itemsize = item_bytes, shape = desc_shape first, tokens_per_row = desc_tokens_per_row first,
                         token_page_size = page_size, layer_count = int (length descriptors) div buffers,
                         buffers_per_layer = buffers, mapping_granularity_bytes = bytes,
                         profile = \<lparr>bundle_bytes = 0, bundle_capacity = 0, floor_bundles = 0\<rparr>\<rparr>))"

subsection \<open>Bundles\<close>

text \<open>A bundle handle that exists, with the progress of its mapping.\<close>

record kv_backing =
  kv_layout :: kv_vmm_layout
  kv_base :: int
  kv_bundles :: "(int, bool) dict"

record vmm =
  vm_backing :: kv_backing
  vm_quota :: memory_quota

text \<open>What the driver answers to the calls for one bundle; None is success.\<close>

record cu_driver =
  cu_create :: "int \<Rightarrow> cu_result option"
  cu_map :: "int \<Rightarrow> cu_result option"
  cu_access :: "int \<Rightarrow> cu_result option"
  cu_unmap :: "int \<Rightarrow> cu_result option"
  cu_release :: "int \<Rightarrow> cu_result option"

definition check_driver :: "cu_result option \<Rightarrow> string \<Rightarrow> ('s, unit) op" where
  "check_driver status operation =
     (case status of None \<Rightarrow> ret () | Some code \<Rightarrow> raise (CudaDriverError code operation))"

text \<open>\<^verbatim>\<open>is_terminal_device_error\<close> on an exception without a cause.\<close>

definition is_terminal_device_error :: "exn \<Rightarrow> bool" where
  "is_terminal_device_error e =
     (case e of
        CudaDriverError code _ \<Rightarrow>
          code \<in> {CUDA_ERROR_CONTAINED, CUDA_ERROR_ILLEGAL_ADDRESS, CUDA_ERROR_LAUNCH_TIMEOUT, CUDA_ERROR_ASSERT,
                  CUDA_ERROR_HARDWARE_STACK_ERROR, CUDA_ERROR_ILLEGAL_INSTRUCTION, CUDA_ERROR_MISALIGNED_ADDRESS,
                  CUDA_ERROR_INVALID_ADDRESS_SPACE, CUDA_ERROR_INVALID_PC, CUDA_ERROR_LAUNCH_FAILED,
                  CUDA_ERROR_MPS_CLIENT_TERMINATED}
      | _ \<Rightarrow> False)"

definition on_quota :: "(memory_quota, 'a) op \<Rightarrow> (vmm, 'a) op" where
  "on_quota m s = (case m (vm_quota s) of (r, q) \<Rightarrow> (r, s\<lparr>vm_quota := q\<rparr>))"

abbreviation bundles_of :: "vmm \<Rightarrow> (int, bool) dict" where
  "bundles_of s \<equiv> kv_bundles (vm_backing s)"

abbreviation profile_of :: "vmm \<Rightarrow> pool_profile" where
  "profile_of s \<equiv> profile (kv_layout (vm_backing s))"

definition set_bundles :: "((int, bool) dict \<Rightarrow> (int, bool) dict) \<Rightarrow> (vmm, unit) op" where
  "set_bundles f = modify (\<lambda>s. s\<lparr>vm_backing := (vm_backing s)\<lparr>kv_bundles := f (bundles_of s)\<rparr>\<rparr>)"

definition backed_bytes :: "vmm \<Rightarrow> int" where
  "backed_bytes s = int (length (bundles_of s)) * bundle_bytes (profile_of s)"

text \<open>\<^verbatim>\<open>KvVmmBundle.close\<close>: the mapping goes before the handle; a failure keeps what is left.\<close>

definition close_bundle :: "cu_driver \<Rightarrow> int \<Rightarrow> (vmm, unit) op" where
  "close_bundle drv bundle_id s =
     (case dict_get (bundles_of s) bundle_id of
        None \<Rightarrow> raise KeyError s
      | Some mapped \<Rightarrow>
          bind (if mapped
                then bind (check_driver (cu_unmap drv bundle_id) ''cuMemUnmap(xpool elastic context state bundle)'') (\<lambda>_.
                       set_bundles (dict_set bundle_id False))
                else ret ()) (\<lambda>_.
            check_driver (cu_release drv bundle_id) ''cuMemRelease(xpool elastic context state bundle)'') s)"

text \<open>Close, forget and refund one bundle.\<close>

definition drop_bundle :: "cu_driver \<Rightarrow> int \<Rightarrow> (vmm, unit) op" where
  "drop_bundle drv bundle_id =
     bind (close_bundle drv bundle_id) (\<lambda>_.
     bind (set_bundles (dict_del bundle_id)) (\<lambda>_.
     bind get_state (\<lambda>s. on_quota (release (bundle_bytes (profile_of s))))))"

subsection \<open>Mapping\<close>

text \<open>One iteration of the mapping loop. The flag tells whether the handle was retained when it raised.\<close>

definition acquire_bundle :: "cu_driver \<Rightarrow> int \<Rightarrow> vmm \<Rightarrow> unit result \<times> bool \<times> vmm" where
  "acquire_bundle drv bundle_id s =
     (case cu_create drv bundle_id of
        Some code \<Rightarrow> (Inl (CudaDriverError code ''cuMemCreate(xpool elastic context state bundle)''), False, s)
      | None \<Rightarrow>
          (case (bind (set_bundles (dict_set bundle_id False)) (\<lambda>_.
                 bind (check_driver (cu_map drv bundle_id) ''cuMemMap(xpool elastic context state bundle)'') (\<lambda>_.
                 bind (set_bundles (dict_set bundle_id True)) (\<lambda>_.
                   check_driver (cu_access drv bundle_id) ''cuMemSetAccess(xpool elastic context state bundle)'')))) s of
             (r, s') \<Rightarrow> (r, True, s')))"

fun acquire_bundles :: "cu_driver \<Rightarrow> int list \<Rightarrow> vmm \<Rightarrow> unit result \<times> int list \<times> vmm" where
  "acquire_bundles drv [] s = (Inr (), [], s)"
| "acquire_bundles drv (bundle_id # missing) s =
     (case acquire_bundle drv bundle_id s of
        (Inl e, retained, s') \<Rightarrow> (Inl e, if retained then [bundle_id] else [], s')
      | (Inr _, _, s') \<Rightarrow>
          (case acquire_bundles drv missing s' of (r, acquired, s'') \<Rightarrow> (r, bundle_id # acquired, s'')))"

definition missing_bundles :: "int list \<Rightarrow> vmm \<Rightarrow> int list" where
  "missing_bundles bundle_ids s = sorted_list_of_set (set bundle_ids - set (dict_keys (bundles_of s)))"

text \<open>The \<^verbatim>\<open>try\<close> block of \<^verbatim>\<open>try_map\<close> with its handler.\<close>

definition map_missing :: "cu_driver \<Rightarrow> int list \<Rightarrow> int \<Rightarrow> (vmm, bool) op" where
  "map_missing drv missing unit_bytes s =
     (case acquire_bundles drv missing s of
        (Inr _, _, s') \<Rightarrow> (Inr True, s')
      | (Inl e, acquired, s') \<Rightarrow>
          bind (on_quota (release ((int (length missing) - int (length acquired)) * unit_bytes))) (\<lambda>_.
            if is_terminal_device_error e then raise e
            else bind (for_each (drop_bundle drv) (rev acquired)) (\<lambda>_.
                   case e of
                     CudaDriverError CUDA_ERROR_OUT_OF_MEMORY _ \<Rightarrow> ret False
                   | _ \<Rightarrow> raise e)) s')"

definition try_map :: "cu_driver \<Rightarrow> int list \<Rightarrow> (vmm, bool) op" where
  "try_map drv bundle_ids s =
     (case ensure_uint64 bundle_ids of
        Inl e \<Rightarrow> raise e s
      | Inr _ \<Rightarrow>
          if \<exists>bundle_id\<in>set bundle_ids. bundle_id \<ge> bundle_capacity (profile_of s)
          then raise (ValueError ''xpool elastic context state bundle ID exceeds its reservation'') s
          else if kv_base (vm_backing s) = 0
          then raise (RuntimeError ''xpool elastic context state backing is closed'') s
          else let missing = missing_bundles bundle_ids s;
                   unit_bytes = bundle_bytes (profile_of s)
               in bind (on_quota (try_reserve (int (length missing) * unit_bytes))) (\<lambda>granted.
                    if \<not> granted then ret False else map_missing drv missing unit_bytes) s)"

definition unmap :: "cu_driver \<Rightarrow> int list \<Rightarrow> (vmm, int) op" where
  "unmap drv bundle_ids =
     bind (lift_result (ensure_uint64 bundle_ids)) (\<lambda>_.
     bind get_state (\<lambda>s.
       if \<exists>bundle_id\<in>set bundle_ids.
            \<not> (floor_bundles (profile_of s) \<le> bundle_id \<and> bundle_id < bundle_capacity (profile_of s))
       then raise (ValueError ''xpool elastic context state unmap requires unpinned bundle IDs within its reservation'')
       else if kv_base (vm_backing s) = 0
       then raise (RuntimeError ''xpool elastic context state backing is closed'')
       else let retired = sorted_list_of_set (set bundle_ids \<inter> set (dict_keys (bundles_of s)))
            in bind (for_each (drop_bundle drv) retired) (\<lambda>_.
                 ret (int (length retired) * bundle_bytes (profile_of s)))))"

definition close_backing :: "cu_driver \<Rightarrow> cu_result option \<Rightarrow> (vmm, unit) op" where
  "close_backing drv address_free =
     bind get_state (\<lambda>s.
       if kv_base (vm_backing s) = 0 then ret ()
       else bind (for_each (drop_bundle drv) (dict_keys (bundles_of s))) (\<lambda>_.
            bind (lift_result (bytes_for (profile_of s) (bundle_capacity (profile_of s)))) (\<lambda>_.
            bind (check_driver address_free ''cuMemAddressFree(xpool elastic context state)'') (\<lambda>_.
              modify (\<lambda>s. s\<lparr>vm_backing := (vm_backing s)\<lparr>kv_base := 0\<rparr>\<rparr>)))))"

text \<open>
  The constructor: reserve the range, then charge and map the dummy floor; a failure that left no bundle and
  is not terminal releases the range before it propagates.
\<close>

definition KvVmmBacking ::
    "cu_driver \<Rightarrow> cu_result + int \<Rightarrow> cu_result option \<Rightarrow> kv_vmm_layout \<Rightarrow> memory_quota \<Rightarrow> unit result \<times> vmm" where
  "KvVmmBacking drv reserve address_free lay q =
     (let s0 = \<lparr>vm_backing = \<lparr>kv_layout = lay, kv_base = 0, kv_bundles = []\<rparr>, vm_quota = q\<rparr>
      in case bytes_for (profile lay) (bundle_capacity (profile lay)) of
           Inl e \<Rightarrow> (Inl e, s0)
         | Inr _ \<Rightarrow>
             (case reserve of
                Inl code \<Rightarrow> (Inl (CudaDriverError code ''cuMemAddressReserve(xpool elastic context state)''), s0)
              | Inr base \<Rightarrow>
                  let s1 = s0\<lparr>vm_backing := (vm_backing s0)\<lparr>kv_base := base\<rparr>\<rparr>;
                      body = bind (try_map drv [0..floor_bundles (profile lay) - 1]) (\<lambda>mapped.
                               if mapped then ret ()
                               else raise (MemoryError ''xpool elastic context state bootstrap floor could not be backed''))
                  in case body s1 of
                       (Inr _, s2) \<Rightarrow> (Inr (), s2)
                     | (Inl e, s2) \<Rightarrow>
                         if bundles_of s2 = [] \<and> \<not> is_terminal_device_error e
                         then bind (close_backing drv address_free) (\<lambda>_. raise e) s2
                         else (Inl e, s2)))"

section \<open>The ledger charge is the physical inventory\<close>

text \<open>
  \<open>settled others s\<close>: the ledger charges exactly the bytes of the retained bundles of this backing besides
  \<open>others\<close>, the charge of the other components.
\<close>

definition settled :: "int \<Rightarrow> vmm \<Rightarrow> bool" where
  "settled others s \<longleftrightarrow> quota_ok (vm_quota s) \<and> pool_profile_ok (profile_of s) \<and> distinct (dict_keys (bundles_of s))
     \<and> (\<forall>b\<in>set (dict_keys (bundles_of s)). 0 \<le> b \<and> b < bundle_capacity (profile_of s))
     \<and> 0 \<le> others \<and> charged_bytes (vm_quota s) = others + backed_bytes s"

definition frame :: "vmm \<Rightarrow> vmm \<Rightarrow> bool" where
  "frame s s' \<longleftrightarrow> kv_layout (vm_backing s') = kv_layout (vm_backing s) \<and> kv_base (vm_backing s') = kv_base (vm_backing s)
     \<and> limit_bytes (vm_quota s') = limit_bytes (vm_quota s)"

lemma frame_refl: "frame s s"
  by (simp add: frame_def)

lemma frame_trans: "frame s s' \<Longrightarrow> frame s' s'' \<Longrightarrow> frame s s''"
  by (simp add: frame_def)

lemma check_driver_cases: "check_driver status operation s = (Inr (), s) \<or> (\<exists>e. check_driver status operation s = (Inl e, s))"
  by (cases status) (auto simp: check_driver_def ret_def raise_def)

lemma set_bundles_run: "set_bundles f s = (Inr (), s\<lparr>vm_backing := (vm_backing s)\<lparr>kv_bundles := f (bundles_of s)\<rparr>\<rparr>)"
  by (simp add: set_bundles_def modify_def)

lemma dict_set_length: "k \<in> set (dict_keys d) \<Longrightarrow> length (dict_set k v d) = length d"
  by (induction d) auto

lemma dict_set_keys_old: "k \<in> set (dict_keys d) \<Longrightarrow> dict_keys (dict_set k v d) = dict_keys d"
  by (induction d) auto

lemma dict_set_fresh: "k \<notin> set (dict_keys d) \<Longrightarrow> dict_set k v d = d @ [(k, v)]"
  by (induction d) auto

lemma dict_set_last: "k \<notin> set (dict_keys d) \<Longrightarrow> dict_set k v (d @ [(k, w)]) = d @ [(k, v)]"
  by (induction d) auto

lemma dict_del_length: "distinct (dict_keys d) \<Longrightarrow> k \<in> set (dict_keys d) \<Longrightarrow> Suc (length (dict_del k d)) = length d"
proof (induction d)
  case (Cons x d)
  have "k \<notin> set (dict_keys d) \<Longrightarrow> dict_del k d = d" by (simp add: AList.delete_idem)
  then show ?case using Cons by (cases x) auto
qed simp

text \<open>Closing a bundle changes its mapping flag at most.\<close>

lemma close_bundle_effect:
  assumes "b \<in> set (dict_keys (bundles_of s))"
  shows "frame s (snd (close_bundle drv b s)) \<and> vm_quota (snd (close_bundle drv b s)) = vm_quota s
     \<and> dict_keys (bundles_of (snd (close_bundle drv b s))) = dict_keys (bundles_of s)"
proof -
  have "dict_get (bundles_of s) b \<noteq> None" using assms by (simp only: map_of_eq_None_iff list.set_map) simp
  then obtain mapped where m: "dict_get (bundles_of s) b = Some mapped" by blast
  show ?thesis
    by (cases mapped; cases "cu_unmap drv b"; cases "cu_release drv b")
       (simp_all add: close_bundle_def m bind_def set_bundles_run check_driver_def ret_def raise_def frame_def
          dict_set_keys_old [OF assms])
qed

lemma delete_key_set: "set (dict_keys (dict_del b d)) = set (dict_keys d) - {b}"
  by (induction d) auto

text \<open>Dropping a bundle keeps the books: either it is gone and refunded, or it is still retained and charged.\<close>

lemma drop_bundle_settled:
  assumes "settled others s" and "b \<in> set (dict_keys (bundles_of s))" and "drop_bundle drv b s = (r, s')"
  shows "settled others s' \<and> frame s s'
     \<and> set (dict_keys (bundles_of s')) = (if r = Inr () then set (dict_keys (bundles_of s)) - {b} else set (dict_keys (bundles_of s)))"
proof -
  obtain r1 s1 where run1: "close_bundle drv b s = (r1, s1)" by (cases "close_bundle drv b s")
  then have s1: "frame s s1" "vm_quota s1 = vm_quota s" "dict_keys (bundles_of s1) = dict_keys (bundles_of s)"
    using close_bundle_effect [OF assms(2), of drv] by simp_all
  have len: "length (bundles_of s1) = length (bundles_of s)" using s1(3) by (metis length_map)
  have ok1: "settled others s1" using assms(1) s1 len by (simp add: settled_def backed_bytes_def frame_def)
  show ?thesis
  proof (cases r1)
    case (Inl e)
    then have "r = Inl e" "s' = s1" using assms(3) by (simp_all add: drop_bundle_def bind_def run1)
    then show ?thesis using ok1 s1 by simp
  next
    case (Inr u)
    let ?s2 = "s1\<lparr>vm_backing := (vm_backing s1)\<lparr>kv_bundles := dict_del b (bundles_of s1)\<rparr>\<rparr>"
    let ?unit = "bundle_bytes (profile_of s1)"
    have b: "b \<in> set (dict_keys (bundles_of s1))" using assms(2) s1(3) by simp
    have distinct1: "distinct (dict_keys (bundles_of s1))" using ok1 by (simp add: settled_def)
    have "int (length (bundles_of s1)) = int (length (bundles_of ?s2)) + 1"
      using dict_del_length [OF distinct1 b] by simp
    then have backed: "backed_bytes s1 = backed_bytes ?s2 + ?unit" by (simp add: backed_bytes_def algebra_simps)
    have pos: "0 \<le> ?unit" "0 \<le> backed_bytes ?s2" using ok1 by (auto simp: settled_def backed_bytes_def pool_profile_ok_def)
    have charge: "charged_bytes (vm_quota s1) = others + backed_bytes ?s2 + ?unit" "quota_ok (vm_quota s1)" "0 \<le> others"
      using ok1 backed by (auto simp: settled_def)
    obtain q where q: "release ?unit (vm_quota s1) = (Inr (), q)"
      using memory_ledger.refund_covered [OF charge(2) pos(1)] charge pos by auto
    note q' = memory_ledger.refund_returned [OF charge(2) q]
    have s': "r = Inr ()" "s' = ?s2\<lparr>vm_quota := q\<rparr>"
      using q assms(3) by (simp_all add: drop_bundle_def bind_def run1 Inr set_bundles_run get_state_def on_quota_def)
    have keys: "set (dict_keys (bundles_of ?s2)) = set (dict_keys (bundles_of s)) - {b}"
      using delete_key_set [of b "bundles_of s1"] s1(3) by simp
    have "settled others s'"
      using ok1 q' charge(1) dict_del_distinct [OF distinct1] keys s1(3) unfolding s' settled_def backed_bytes_def
      by (auto simp: backed_bytes_def)
    then show ?thesis using keys s' s1(1) q' by (simp add: frame_def)
  qed
qed

lemma drop_bundles_settled:
  assumes "settled others s" and "set ids \<subseteq> set (dict_keys (bundles_of s))" and "distinct ids"
    and "for_each (drop_bundle drv) ids s = (r, s')"
  shows "settled others s' \<and> frame s s' \<and> set (dict_keys (bundles_of s')) \<subseteq> set (dict_keys (bundles_of s))
     \<and> set (dict_keys (bundles_of s)) - set ids \<subseteq> set (dict_keys (bundles_of s'))
     \<and> (r = Inr () \<longrightarrow> set (dict_keys (bundles_of s')) = set (dict_keys (bundles_of s)) - set ids)"
  using assms
proof (induction ids arbitrary: s)
  case Nil
  then show ?case by (auto simp: frame_refl)
next
  case (Cons b ids)
  obtain r1 s1 where run: "drop_bundle drv b s = (r1, s1)" by (cases "drop_bundle drv b s")
  have b: "b \<in> set (dict_keys (bundles_of s))" using Cons.prems(2) by auto
  note one = drop_bundle_settled [OF Cons.prems(1) b run]
  show ?case
  proof (cases r1)
    case (Inl e)
    then have "r = Inl e" "s' = s1" using Cons.prems(4) run by simp_all
    then show ?thesis using one Inl by auto
  next
    case (Inr u)
    have keys: "set (dict_keys (bundles_of s1)) = set (dict_keys (bundles_of s)) - {b}" using one Inr by simp
    have rest: "for_each (drop_bundle drv) ids s1 = (r, s')" using Cons.prems(4) run Inr by simp
    have "set ids \<subseteq> set (dict_keys (bundles_of s1))" using Cons.prems(2,3) unfolding keys by auto
    note IH = Cons.IH [OF conjunct1 [OF one] this _ rest]
    have d: "distinct ids" using Cons.prems(3) by simp
    show ?thesis
    proof (intro conjI impI)
      show "settled others s'" using IH d by blast
      show "frame s s'" using IH d one frame_trans by blast
      show "set (dict_keys (bundles_of s')) \<subseteq> set (dict_keys (bundles_of s))" using IH d keys by blast
      show "set (dict_keys (bundles_of s)) - set (b # ids) \<subseteq> set (dict_keys (bundles_of s'))"
        using conjunct1 [OF conjunct2 [OF conjunct2 [OF conjunct2 [OF IH [OF d]]]]] unfolding keys list.set by blast
      show "set (dict_keys (bundles_of s')) = set (dict_keys (bundles_of s)) - set (b # ids)" if "r = Inr ()"
        using mp [OF conjunct2 [OF conjunct2 [OF conjunct2 [OF conjunct2 [OF IH [OF d]]]]] that] unfolding keys list.set by blast
    qed
  qed
qed

text \<open>The mapping loop retains a prefix of the missing bundles, all of them mapped when it succeeds.\<close>

lemma acquire_bundle_effect:
  assumes "b \<notin> set (dict_keys (bundles_of s))" and "acquire_bundle drv b s = (r, retained, s')"
  shows "vm_quota s' = vm_quota s \<and> frame s s' \<and> (r = Inr () \<longrightarrow> retained)
     \<and> (\<exists>flag. bundles_of s' = bundles_of s @ (if retained then [(b, flag)] else []) \<and> (r = Inr () \<longrightarrow> flag))"
proof -
  have fresh: "dict_set b v (bundles_of s) = bundles_of s @ [(b, v)]" for v by (rule dict_set_fresh [OF assms(1)])
  have again: "dict_set b True (bundles_of s @ [(b, False)]) = bundles_of s @ [(b, True)]"
    by (rule dict_set_last [OF assms(1)])
  show ?thesis using assms(2)
    by (cases "cu_create drv b"; cases "cu_map drv b"; cases "cu_access drv b")
       (auto simp: acquire_bundle_def bind_def set_bundles_run check_driver_def ret_def raise_def frame_def fresh again)
qed

lemma acquire_bundles_effect:
  assumes "distinct ids" and "set ids \<inter> set (dict_keys (bundles_of s)) = {}" and "acquire_bundles drv ids s = (r, acquired, s')"
  shows "vm_quota s' = vm_quota s \<and> frame s s' \<and> (\<exists>k. acquired = take k ids)
     \<and> (\<exists>flags. length flags = length acquired \<and> bundles_of s' = bundles_of s @ zip acquired flags
          \<and> (r = Inr () \<longrightarrow> acquired = ids \<and> (\<forall>flag\<in>set flags. flag)))"
  using assms
proof (induction ids arbitrary: s acquired)
  case Nil
  then show ?case by (auto simp: frame_refl)
next
  case (Cons b ids)
  obtain r1 retained s1 where run: "acquire_bundle drv b s = (r1, retained, s1)" by (metis prod.collapse)
  have b: "b \<notin> set (dict_keys (bundles_of s))" using Cons.prems(2) by auto
  have distinct_ids: "distinct ids" using Cons.prems(1) by simp
  note one = acquire_bundle_effect [OF b run]
  then obtain flag where flag: "bundles_of s1 = bundles_of s @ (if retained then [(b, flag)] else [])" "r1 = Inr () \<longrightarrow> flag"
    by blast
  show ?case
  proof (cases r1)
    case (Inl e)
    then have eq: "r = Inl e" "acquired = (if retained then [b] else [])" "s' = s1" using Cons.prems(3) run by simp_all
    have "\<exists>k. acquired = take k (b # ids)" by (rule exI [of _ "if retained then 1 else 0"]) (simp add: eq)
    moreover have "\<exists>flags. length flags = length acquired \<and> bundles_of s' = bundles_of s @ zip acquired flags"
      by (rule exI [of _ "if retained then [flag] else []"]) (simp add: eq flag)
    moreover have "r \<noteq> Inr ()" "vm_quota s' = vm_quota s" "frame s s'" using one eq by simp_all
    ultimately show ?thesis by blast
  next
    case (Inr u)
    then have retained: "retained" "flag" using one flag by simp_all
    obtain rest where rest: "acquire_bundles drv ids s1 = (r, rest, s')" "acquired = b # rest"
      using Cons.prems(3) run Inr by (auto split: prod.splits)
    have "set ids \<inter> set (dict_keys (bundles_of s1)) = {}" using Cons.prems(1,2) flag retained by auto
    note IH0 = Cons.IH [OF distinct_ids this rest(1)]
    have IH: "vm_quota s' = vm_quota s1" "frame s1 s'" using IH0 by simp_all
    obtain k where k: "rest = take k ids" using IH0 by blast
    obtain flags where flags: "length flags = length rest" "bundles_of s' = bundles_of s1 @ zip rest flags"
      "r = Inr () \<longrightarrow> rest = ids \<and> (\<forall>flag\<in>set flags. flag)" using IH0 by blast
    have "\<exists>k. acquired = take k (b # ids)" by (rule exI [of _ "Suc k"]) (simp add: rest(2) k)
    moreover have "\<exists>flags. length flags = length acquired \<and> bundles_of s' = bundles_of s @ zip acquired flags
        \<and> (r = Inr () \<longrightarrow> acquired = b # ids \<and> (\<forall>flag\<in>set flags. flag))"
      by (rule exI [of _ "True # flags"]) (use flags rest(2) flag(1) retained in auto)
    moreover have "vm_quota s' = vm_quota s" using one IH(1) by simp
    moreover have "frame s s'" using one IH(2) frame_trans by blast
    ultimately show ?thesis by (intro conjI)
  qed
qed

lemma missing_facts:
  "set (missing_bundles ids s) = set ids - set (dict_keys (bundles_of s))" "distinct (missing_bundles ids s)"
  by (simp_all add: missing_bundles_def)

text \<open>After the loop and the refund of bundles that were never created, the charge is settled again.\<close>

lemma acquired_settled:
  assumes "settled others s" and "set missing \<inter> set (dict_keys (bundles_of s)) = {}" and "distinct missing"
    and "\<forall>b\<in>set missing. 0 \<le> b \<and> b < bundle_capacity (profile_of s)"
    and "vm_quota s1 = q" and "vm_backing s1 = vm_backing s" and "quota_ok q" and "limit_bytes q = limit_bytes (vm_quota s)"
    and "charged_bytes q = charged_bytes (vm_quota s) + int (length missing) * bundle_bytes (profile_of s)"
    and "acquire_bundles drv missing s1 = (r, acquired, s2)"
    and "release ((int (length missing) - int (length acquired)) * bundle_bytes (profile_of s)) (vm_quota s2) = (rq, q2)"
  shows "rq = Inr () \<and> settled others (s2\<lparr>vm_quota := q2\<rparr>) \<and> frame s (s2\<lparr>vm_quota := q2\<rparr>)
     \<and> set acquired \<subseteq> set (dict_keys (bundles_of s2)) \<and> distinct acquired
     \<and> set (dict_keys (bundles_of s2)) - set acquired = set (dict_keys (bundles_of s))"
proof -
  have s1: "bundles_of s1 = bundles_of s" "profile_of s1 = profile_of s" using assms(6) by simp_all
  have disj: "set missing \<inter> set (dict_keys (bundles_of s1)) = {}" using assms(2) s1 by simp
  note effect = acquire_bundles_effect [OF assms(3) disj assms(10)]
  have quota: "vm_quota s2 = q" and fr: "frame s1 s2" using effect assms(5) by simp_all
  obtain k where k: "acquired = take k missing" using effect by blast
  obtain flags where flags: "length flags = length acquired" "bundles_of s2 = bundles_of s @ zip acquired flags"
    using effect s1(1) by auto
  have acq: "set acquired \<subseteq> set missing" "distinct acquired" "length acquired \<le> length missing"
    using k assms(3) set_take_subset [of k missing] by auto
  have keys: "dict_keys (bundles_of s2) = dict_keys (bundles_of s) @ acquired" using flags by simp
  let ?u = "bundle_bytes (profile_of s)"
  have u: "0 \<le> ?u" "0 \<le> others" and backed: "0 \<le> backed_bytes s"
    using assms(1) by (auto simp: settled_def pool_profile_ok_def backed_bytes_def)
  have same: "profile_of s2 = profile_of s" using fr s1(2) by (simp add: frame_def)
  have backed2: "backed_bytes s2 = backed_bytes s + int (length acquired) * ?u"
    using flags same by (simp add: backed_bytes_def algebra_simps)
  let ?rest = "(int (length missing) - int (length acquired)) * ?u"
  have rest: "0 \<le> ?rest" "?rest \<le> charged_bytes q"
    using acq(3) u assms(1,9) backed by (auto simp: settled_def algebra_simps mult_right_mono)
  obtain q' where "release ?rest q = (Inr (), q')" using memory_ledger.refund_covered [OF assms(7) rest] by blast
  then have rq: "rq = Inr ()" and rel: "release ?rest q = (Inr (), q2)" using assms(11) quota by auto
  note q2 = memory_ledger.refund_returned [OF assms(7) rel]
  have "charged_bytes q2 = others + backed_bytes s2"
    using q2 assms(1,9) backed2 by (simp add: settled_def algebra_simps)
  moreover have "distinct (dict_keys (bundles_of s2))" "\<forall>b\<in>set (dict_keys (bundles_of s2)). 0 \<le> b \<and> b < bundle_capacity (profile_of s2)"
    using assms(1,2,4) acq unfolding keys same by (auto simp: settled_def)
  ultimately have "settled others (s2\<lparr>vm_quota := q2\<rparr>)"
    using assms(1) q2 same by (simp add: settled_def backed_bytes_def)
  moreover have "frame s (s2\<lparr>vm_quota := q2\<rparr>)" using fr assms(6,8) q2 by (simp add: frame_def)
  ultimately show ?thesis using rq acq assms(2) keys by auto
qed

definition mapped_outcome :: "int list \<Rightarrow> vmm \<Rightarrow> bool result \<Rightarrow> vmm \<Rightarrow> bool" where
  "mapped_outcome ids s r s' \<longleftrightarrow> (case r of
       Inl _ \<Rightarrow> set (dict_keys (bundles_of s)) \<subseteq> set (dict_keys (bundles_of s'))
     | Inr True \<Rightarrow> set (dict_keys (bundles_of s')) = set (dict_keys (bundles_of s)) \<union> set ids
         \<and> (\<forall>b\<in>set ids - set (dict_keys (bundles_of s)). dict_get (bundles_of s') b = Some True)
     | Inr False \<Rightarrow> set (dict_keys (bundles_of s')) = set (dict_keys (bundles_of s)))"

lemma release_zero: "quota_ok q \<Longrightarrow> release 0 q = (Inr (), q)"
  by (simp add: release_def ensure_uint64_def UINT64_MAX_def quota_ok_def)

lemma acquired_all:
  assumes "distinct missing" and "set missing \<inter> set (dict_keys (bundles_of s)) = {}"
    and "acquire_bundles drv missing s = (Inr (), acquired, s')"
  shows "acquired = missing" and "\<forall>b\<in>set missing. dict_get (bundles_of s') b = Some True"
proof -
  obtain flags where flags: "length flags = length acquired" "bundles_of s' = bundles_of s @ zip acquired flags"
    "acquired = missing" "\<forall>flag\<in>set flags. flag" using acquire_bundles_effect [OF assms] by blast
  then show "acquired = missing" by blast
  show "\<forall>b\<in>set missing. dict_get (bundles_of s') b = Some True"
  proof
    fix b assume b: "b \<in> set missing"
    then have old: "dict_get (bundles_of s) b = None" using assms(2) by (auto simp: map_of_eq_None_iff)
    obtain i where i: "i < length missing" "missing ! i = b" using b by (auto simp: in_set_conv_nth)
    have "map_of (zip missing flags) b = Some (flags ! i)"
      using map_of_zip_nth [of missing flags i] flags assms(1) i by simp
    moreover have "flags ! i \<in> set flags" using flags(1,3) i(1) by simp
    then have "flags ! i" using flags(4) by blast
    ultimately show "dict_get (bundles_of s') b = Some True" using flags(2,3) old by (simp add: map_add_def)
  qed
qed

lemma map_missing_effect:
  assumes "settled others s" and "set missing \<inter> set (dict_keys (bundles_of s)) = {}" and "distinct missing"
    and "\<forall>b\<in>set missing. 0 \<le> b \<and> b < bundle_capacity (profile_of s)"
    and q: "vm_quota s1 = q" "vm_backing s1 = vm_backing s" "quota_ok q" "limit_bytes q = limit_bytes (vm_quota s)"
      "charged_bytes q = charged_bytes (vm_quota s) + int (length missing) * bundle_bytes (profile_of s)"
    and run: "map_missing drv missing (bundle_bytes (profile_of s)) s1 = (r, s')"
  shows "settled others s' \<and> frame s s' \<and> mapped_outcome missing s r s'"
proof -
  obtain r2 acquired s2 where acq: "acquire_bundles drv missing s1 = (r2, acquired, s2)" by (metis prod.collapse)
  let ?rest = "(int (length missing) - int (length acquired)) * bundle_bytes (profile_of s)"
  obtain rq q2 where rel: "release ?rest (vm_quota s2) = (rq, q2)" by (cases "release ?rest (vm_quota s2)")
  note books = acquired_settled [OF assms(1-4) q acq rel]
  have disj: "set missing \<inter> set (dict_keys (bundles_of s1)) = {}" using assms(2) q(2) by simp
  show ?thesis
  proof (cases r2)
    case (Inr u)
    have all: "acquired = missing" "\<forall>b\<in>set missing. dict_get (bundles_of s2) b = Some True"
      using acquired_all [OF assms(3) disj] acq Inr by simp_all
    have "vm_quota s2 = q" using acquire_bundles_effect [OF assms(3) disj acq] q(1) by simp
    then have "q2 = vm_quota s2" using rel all(1) release_zero [OF q(3)] by simp
    then have "s2\<lparr>vm_quota := q2\<rparr> = s2" by simp
    moreover have "r = Inr True" "s' = s2" using run acq Inr by (simp_all add: map_missing_def)
    ultimately show ?thesis using books all by (auto simp: mapped_outcome_def)
  next
    case (Inl e)
    let ?s3 = "s2\<lparr>vm_quota := q2\<rparr>"
    have s3: "settled others ?s3" "frame s ?s3" "set acquired \<subseteq> set (dict_keys (bundles_of ?s3))" "distinct acquired"
      "set (dict_keys (bundles_of ?s3)) - set acquired = set (dict_keys (bundles_of s))" "rq = Inr ()"
      using books by simp_all
    show ?thesis
    proof (cases "is_terminal_device_error e")
      case True
      then have "r = Inl e" "s' = ?s3" using run acq Inl rel s3(6) by (simp_all add: map_missing_def bind_def on_quota_def raise_def)
      then show ?thesis using s3 by (auto simp: mapped_outcome_def)
    next
      case False
      obtain r4 s4 where drop: "for_each (drop_bundle drv) (rev acquired) ?s3 = (r4, s4)"
        by (cases "for_each (drop_bundle drv) (rev acquired) ?s3")
      have undone: "settled others s4 \<and> frame ?s3 s4 \<and> set (dict_keys (bundles_of s4)) \<subseteq> set (dict_keys (bundles_of ?s3))
          \<and> set (dict_keys (bundles_of ?s3)) - set (rev acquired) \<subseteq> set (dict_keys (bundles_of s4))
          \<and> (r4 = Inr () \<longrightarrow> set (dict_keys (bundles_of s4)) = set (dict_keys (bundles_of ?s3)) - set (rev acquired))"
        by (rule drop_bundles_settled [OF s3(1) _ _ drop]) (use s3 in simp_all)
      have run': "map_missing drv missing (bundle_bytes (profile_of s)) s1
          = (case r4 of Inl e4 \<Rightarrow> (Inl e4, s4) | Inr _ \<Rightarrow> (case e of CudaDriverError CUDA_ERROR_OUT_OF_MEMORY _ \<Rightarrow> ret False | _ \<Rightarrow> raise e) s4)"
        using acq Inl rel s3(6) False drop by (simp add: map_missing_def bind_def on_quota_def split: sum.splits)
      have "s' = s4 \<and> (r = Inr False \<and> r4 = Inr () \<or> (\<exists>e'. r = Inl e'))"
        using run run' by (auto simp: ret_def raise_def split: sum.splits exn.splits cu_result.splits)
      then show ?thesis using undone s3(2,5) frame_trans by (auto simp: mapped_outcome_def)
    qed
  qed
qed

lemma try_map_effect:
  assumes "settled others s" and "try_map drv ids s = (r, s')"
  shows "settled others s' \<and> frame s s' \<and> mapped_outcome ids s r s'"
proof -
  let ?p = "profile_of s" and ?missing = "missing_bundles ids s"
  let ?bytes = "int (length ?missing) * bundle_bytes ?p"
  have refused: ?thesis if "r \<noteq> Inr True" "s' = s"
    using that assms(1) by (auto simp: frame_refl mapped_outcome_def split: sum.splits bool.splits)
  show ?thesis
  proof (cases "ensure_uint64 ids = Inr () \<and> (\<forall>b\<in>set ids. b < bundle_capacity ?p) \<and> kv_base (vm_backing s) \<noteq> 0")
    case False
    then show ?thesis using assms(2) by (intro refused) (auto simp: try_map_def raise_def not_le split: sum.splits if_splits)
  next
    case True
    then have run: "bind (on_quota (try_reserve ?bytes)) (\<lambda>granted.
        if \<not> granted then ret False else map_missing drv ?missing (bundle_bytes ?p)) s = (r, s')"
      using assms(2) by (auto simp: try_map_def Let_def not_le split: if_splits)
    obtain rr q where reserve: "try_reserve ?bytes (vm_quota s) = (rr, q)" by (cases "try_reserve ?bytes (vm_quota s)")
    have quota: "quota_ok (vm_quota s)" using assms(1) by (simp add: settled_def)
    show ?thesis
    proof (cases "rr = Inr True")
      case False
      then have "q = vm_quota s" using reserve memory_ledger.reserve_raised memory_ledger.reserve_refused [OF quota]
        by (cases rr) auto
      then show ?thesis using run reserve False
        by (intro refused) (auto simp: bind_def on_quota_def ret_def split: sum.splits if_splits)
    next
      case granted: True
      note q = memory_ledger.reserve_granted [OF quota reserve [unfolded granted]]
      have mapping: "map_missing drv ?missing (bundle_bytes ?p) (s\<lparr>vm_quota := q\<rparr>) = (r, s')"
        using run reserve granted by (simp add: bind_def on_quota_def)
      have range: "\<forall>b\<in>set ?missing. 0 \<le> b \<and> b < bundle_capacity ?p"
        using True by (auto simp: missing_facts ensure_uint64_Inr_iff)
      have apart: "set ?missing \<inter> set (dict_keys (bundles_of s)) = {}" by (auto simp: missing_facts)
      have "settled others s' \<and> frame s s' \<and> mapped_outcome ?missing s r s'"
        by (rule map_missing_effect [OF assms(1) apart missing_facts(2) range _ _ _ _ _ mapping, of q]) (use q in simp_all)
      then show ?thesis by (auto simp: mapped_outcome_def missing_facts split: sum.splits bool.splits)
    qed
  qed
qed

lemma retired_facts:
  "set (sorted_list_of_set (set ids \<inter> set (dict_keys d))) = set ids \<inter> set (dict_keys d)"
  "distinct (sorted_list_of_set (set ids \<inter> set (dict_keys d)))"
  by simp_all

lemma unmap_effect:
  assumes "settled others s" and "unmap drv ids s = (r, s')"
  shows "settled others s' \<and> frame s s' \<and> set (dict_keys (bundles_of s')) \<subseteq> set (dict_keys (bundles_of s))
     \<and> set (dict_keys (bundles_of s)) - set ids \<subseteq> set (dict_keys (bundles_of s'))
     \<and> (\<forall>released. r = Inr released \<longrightarrow> set (dict_keys (bundles_of s')) = set (dict_keys (bundles_of s)) - set ids
          \<and> charged_bytes (vm_quota s') = charged_bytes (vm_quota s) - released)"
proof -
  let ?retired = "sorted_list_of_set (set ids \<inter> set (dict_keys (bundles_of s)))"
  consider (refused) e where "r = Inl e" "s' = s"
    | (run) "bind (for_each (drop_bundle drv) ?retired) (\<lambda>_. ret (int (length ?retired) * bundle_bytes (profile_of s))) s = (r, s')"
    using assms(2) by (auto simp: unmap_def bind_def lift_result_def get_state_def raise_def Let_def split: sum.splits if_splits)
  then show ?thesis
  proof cases
    case refused
    then show ?thesis using assms(1) by (auto simp: frame_refl)
  next
    case run
    obtain r1 s1 where drop: "for_each (drop_bundle drv) ?retired s = (r1, s1)" by (cases "for_each (drop_bundle drv) ?retired s")
    have "set ?retired \<subseteq> set (dict_keys (bundles_of s))" unfolding retired_facts by simp
    note eff = drop_bundles_settled [OF assms(1) this retired_facts(2) drop]
    have s': "s' = s1" "\<And>released. r = Inr released \<Longrightarrow> r1 = Inr () \<and> released = int (length ?retired) * bundle_bytes (profile_of s)"
      using run drop by (auto simp: bind_def ret_def split: sum.splits)
    have keys: "set (dict_keys (bundles_of s1)) = set (dict_keys (bundles_of s)) - set ids" if "r1 = Inr ()"
      using eff that unfolding retired_facts by blast
    have charge: "charged_bytes (vm_quota s1) = charged_bytes (vm_quota s) - int (length ?retired) * bundle_bytes (profile_of s)"
      if "r1 = Inr ()"
    proof -
      have size: "length (bundles_of x) = card (set (dict_keys (bundles_of x)))" if "settled others x" for x
        using that by (metis (no_types, lifting) settled_def distinct_card length_map)
      have R: "set ?retired \<subseteq> set (dict_keys (bundles_of s))" "finite (set ?retired)" by auto
      have "set (dict_keys (bundles_of s1)) = set (dict_keys (bundles_of s)) - set ?retired" using eff that by blast
      then have "length (bundles_of s1) = card (set (dict_keys (bundles_of s)) - set ?retired)"
        using size eff by simp
      also have "\<dots> = length (bundles_of s) - length ?retired"
        using card_Diff_subset [OF R(2,1)] size [OF assms(1)] distinct_card [OF retired_facts(2) [of ids "bundles_of s"]] by simp
      finally have "int (length (bundles_of s1)) = int (length (bundles_of s)) - int (length ?retired)"
        using card_mono [OF _ R(1)] size [OF assms(1)] distinct_card [OF retired_facts(2) [of ids "bundles_of s"]] by simp
      moreover have "charged_bytes (vm_quota s1) = others + int (length (bundles_of s1)) * bundle_bytes (profile_of s)"
        "charged_bytes (vm_quota s) = others + int (length (bundles_of s)) * bundle_bytes (profile_of s)"
        using eff assms(1) by (simp_all add: settled_def backed_bytes_def frame_def)
      ultimately show ?thesis by (simp only: left_diff_distrib)
    qed
    show ?thesis using eff s' keys charge by (auto simp: retired_facts)
  qed
qed

lemma close_backing_effect:
  assumes "settled others s" and "close_backing drv address_free s = (r, s')"
  shows "settled others s' \<and> limit_bytes (vm_quota s') = limit_bytes (vm_quota s)
     \<and> (r = Inr () \<longrightarrow> kv_base (vm_backing s') = 0)
     \<and> (r = Inr () \<and> kv_base (vm_backing s) \<noteq> 0 \<longrightarrow> bundles_of s' = [] \<and> charged_bytes (vm_quota s') = others)"
proof (cases "kv_base (vm_backing s) = 0")
  case True
  then show ?thesis using assms by (simp add: close_backing_def bind_def get_state_def ret_def)
next
  case False
  obtain r1 s1 where drop: "for_each (drop_bundle drv) (dict_keys (bundles_of s)) s = (r1, s1)"
    by (cases "for_each (drop_bundle drv) (dict_keys (bundles_of s)) s")
  have "distinct (dict_keys (bundles_of s))" using assms(1) by (simp add: settled_def)
  note eff = drop_bundles_settled [OF assms(1) order_refl this drop]
  have empty: "bundles_of s1 = []" if "r1 = Inr ()" using eff that by auto
  have cases: "s' = s1 \<and> r \<noteq> Inr () \<or> r1 = Inr () \<and> r = Inr () \<and> s' = s1\<lparr>vm_backing := (vm_backing s1)\<lparr>kv_base := 0\<rparr>\<rparr>"
    using assms(2) False drop check_driver_cases [of address_free "''cuMemAddressFree(xpool elastic context state)''" s1]
    by (cases "bytes_for (profile_of s) (bundle_capacity (profile_of s))")
       (auto simp: close_backing_def bind_def get_state_def lift_result_def modify_def split: sum.splits)
  have s1: "settled others s1" "limit_bytes (vm_quota s1) = limit_bytes (vm_quota s)" using eff by (simp_all add: frame_def)
  from cases show ?thesis
  proof
    assume "s' = s1 \<and> r \<noteq> Inr ()"
    then show ?thesis using s1 by simp
  next
    assume done_close: "r1 = Inr () \<and> r = Inr () \<and> s' = s1\<lparr>vm_backing := (vm_backing s1)\<lparr>kv_base := 0\<rparr>\<rparr>"
    then show ?thesis using s1 empty by (simp add: settled_def backed_bytes_def)
  qed
qed

text \<open>Calls a rank makes on one backing; each call meets a driver of its own.\<close>

datatype backing_call = Try_Map cu_driver "int list" | Unmap cu_driver "int list" | Close cu_driver "cu_result option"

fun vmm_call :: "backing_call \<Rightarrow> vmm \<Rightarrow> vmm" where
  "vmm_call (Try_Map drv ids) s = snd (try_map drv ids s)"
| "vmm_call (Unmap drv ids) s = snd (unmap drv ids s)"
| "vmm_call (Close drv address_free) s = snd (close_backing drv address_free s)"

lemma vmm_call_settled:
  assumes "settled others s"
  shows "settled others (vmm_call call s) \<and> limit_bytes (vm_quota (vmm_call call s)) = limit_bytes (vm_quota s)"
proof (cases call)
  case (Try_Map drv ids)
  then show ?thesis using try_map_effect [OF assms, of drv ids] by (cases "try_map drv ids s") (simp add: frame_def)
next
  case (Unmap drv ids)
  then show ?thesis using unmap_effect [OF assms, of drv ids] by (cases "unmap drv ids s") (simp add: frame_def)
next
  case (Close drv address_free)
  then show ?thesis using close_backing_effect [OF assms, of drv address_free] by (cases "close_backing drv address_free s") simp
qed

lemma constructed_settled:
  assumes "KvVmmBacking drv reserve address_free lay q = (r, s)" and "quota_ok q" and "pool_profile_ok (profile lay)"
  shows "settled (charged_bytes q) s \<and> limit_bytes (vm_quota s) = limit_bytes q"
proof -
  let ?s0 = "\<lambda>base. \<lparr>vm_backing = \<lparr>kv_layout = lay, kv_base = base, kv_bundles = []\<rparr>, vm_quota = q\<rparr>"
  have s0: "settled (charged_bytes q) (?s0 base)" for base
    using assms(2,3) by (simp add: settled_def backed_bytes_def quota_ok_def)
  show ?thesis
  proof (cases "\<exists>base. s = ?s0 base")
    case True
    then show ?thesis using s0 by auto
  next
    case False
    let ?floor = "[0..floor_bundles (profile lay) - 1]"
    obtain base where base: "reserve = Inr base" using assms(1) False
      by (cases reserve) (auto simp: KvVmmBacking_def Let_def split: sum.splits)
    obtain r1 s1 where mapped: "try_map drv ?floor (?s0 base) = (r1, s1)" by (cases "try_map drv ?floor (?s0 base)")
    have s1: "settled (charged_bytes q) s1" "limit_bytes (vm_quota s1) = limit_bytes q"
      using try_map_effect [OF s0 mapped] by (simp_all add: frame_def)
    have "s = s1 \<or> (\<exists>r2. close_backing drv address_free s1 = (r2, s))"
      using assms(1) False base mapped
      by (cases "close_backing drv address_free s1")
         (auto simp: KvVmmBacking_def Let_def bind_def ret_def raise_def split: sum.splits if_splits)
    then show ?thesis using s1 close_backing_effect [OF s1(1)] by auto
  qed
qed

text \<open>
  C17: The byte ledger of a rank charges exactly its physical memory. From the construction of a backing on,
  whatever is mapped, unmapped or closed and however the driver answers, failed cleanup included, the
  charge stays within the limit and grows by exactly the bytes of the bundles the backing retains.
\<close>

theorem charge_is_physical_inventory:
  assumes "KvVmmBacking drv reserve address_free lay q = (r, s0)" and "quota_ok q" and "pool_profile_ok (profile lay)"
  shows "let s = foldl (\<lambda>s call. vmm_call call s) s0 calls
     in charged_bytes (vm_quota s) = charged_bytes q + int (length (bundles_of s)) * bundle_bytes (profile_of s)
        \<and> distinct (dict_keys (bundles_of s)) \<and> charged_bytes (vm_quota s) \<le> limit_bytes (vm_quota s)
        \<and> limit_bytes (vm_quota s) = limit_bytes q"
proof -
  have "settled others (foldl (\<lambda>s call. vmm_call call s) s calls)
      \<and> limit_bytes (vm_quota (foldl (\<lambda>s call. vmm_call call s) s calls)) = limit_bytes (vm_quota s)"
    if "settled others s" for others s
    using that by (induction calls arbitrary: s) (simp_all add: vmm_call_settled)
  from this [OF conjunct1 [OF constructed_settled [OF assms]]] constructed_settled [OF assms] show ?thesis
    by (simp add: settled_def backed_bytes_def quota_ok_def Let_def)
qed

lemma charge_is_physical_inventory_witness:
  "let lay = \<lparr>lay_cuda_index = Some 0, itemsize = 1, shape = [6, 2], tokens_per_row = 1, token_page_size = 1, layer_count = 1,
              buffers_per_layer = 1, mapping_granularity_bytes = 4, profile = \<lparr>bundle_bytes = 4, bundle_capacity = 3, floor_bundles = 1\<rparr>\<rparr>;
       good = \<lparr>cu_create = \<lambda>_. None, cu_map = \<lambda>_. None, cu_access = \<lambda>_. None, cu_unmap = \<lambda>_. None, cu_release = \<lambda>_. None\<rparr>;
       stuck = good\<lparr>cu_access := \<lambda>i. if i = 2 then Some CUDA_ERROR_OUT_OF_MEMORY else None, cu_release := \<lambda>_. Some (CUDA_ERROR_OTHER 999)\<rparr>;
       q = \<lparr>limit_bytes = 20, charged_bytes = 4\<rparr>;
       s = foldl (\<lambda>s call. vmm_call call s) (snd (KvVmmBacking good (Inr 4096) None lay q)) [Try_Map stuck [1, 2], Unmap good [1]]
   in charged_bytes (vm_quota s) = 4 + int (length (bundles_of s)) * 4 \<and> length (bundles_of s) = 2"
proof -
  let ?lay = "\<lparr>lay_cuda_index = Some 0, itemsize = 1, shape = [6, 2], tokens_per_row = 1, token_page_size = 1, layer_count = 1,
              buffers_per_layer = 1, mapping_granularity_bytes = 4, profile = \<lparr>bundle_bytes = 4, bundle_capacity = 3, floor_bundles = 1\<rparr>\<rparr>"
  let ?good = "\<lparr>cu_create = \<lambda>_. None, cu_map = \<lambda>_. None, cu_access = \<lambda>_. None, cu_unmap = \<lambda>_. None, cu_release = \<lambda>_. None\<rparr>"
  let ?stuck = "?good\<lparr>cu_access := \<lambda>i. if i = 2 then Some CUDA_ERROR_OUT_OF_MEMORY else None, cu_release := \<lambda>_. Some (CUDA_ERROR_OTHER 999)\<rparr>"
  let ?q = "\<lparr>limit_bytes = 20, charged_bytes = 4\<rparr>"
  let ?calls = "[Try_Map ?stuck [1, 2], Unmap ?good [1]]"
  let ?s = "foldl (\<lambda>s call. vmm_call call s) (snd (KvVmmBacking ?good (Inr 4096) None ?lay ?q)) ?calls"
  have "charged_bytes (vm_quota ?s) = 4 + int (length (bundles_of ?s)) * bundle_bytes (profile_of ?s)"
    using charge_is_physical_inventory [where drv = ?good and reserve = "Inr 4096" and address_free = None and lay = ?lay
        and q = ?q and calls = ?calls, OF prod.collapse [symmetric]]
    by (simp add: quota_ok_def pool_profile_ok_def UINT64_MAX_def Let_def)
  moreover have "length (bundles_of ?s) = 2 \<and> bundle_bytes (profile_of ?s) = 4" by code_simp
  ultimately show ?thesis by (simp add: Let_def)
qed

section \<open>Mapped bundles stay mapped\<close>

text \<open>An operation changes the mapping of the bundles it names only.\<close>

definition all_mapped :: "vmm \<Rightarrow> bool" where
  "all_mapped s \<longleftrightarrow> (\<forall>b\<in>set (dict_keys (bundles_of s)). dict_get (bundles_of s) b = Some True)"

lemma close_bundle_others: "b \<noteq> k \<Longrightarrow> dict_get (bundles_of (snd (close_bundle drv b s))) k = dict_get (bundles_of s) k"
  by (auto simp: close_bundle_def bind_def set_bundles_run check_driver_def ret_def raise_def split: option.splits)

lemma drop_bundle_others:
  assumes "b \<noteq> k"
  shows "dict_get (bundles_of (snd (drop_bundle drv b s))) k = dict_get (bundles_of s) k"
proof -
  obtain r s1 where run: "close_bundle drv b s = (r, s1)" by (cases "close_bundle drv b s")
  have "dict_get (bundles_of s1) k = dict_get (bundles_of s) k" using close_bundle_others [OF assms, of drv s] run by simp
  then show ?thesis using assms
    by (auto simp: drop_bundle_def bind_def run set_bundles_run get_state_def on_quota_def split: sum.splits prod.splits)
qed

lemma drop_bundles_others:
  "k \<notin> set ids \<Longrightarrow> dict_get (bundles_of (snd (for_each (drop_bundle drv) ids s))) k = dict_get (bundles_of s) k"
proof (induction ids arbitrary: s)
  case (Cons b ids)
  have "dict_get (bundles_of (snd (drop_bundle drv b s))) k = dict_get (bundles_of s) k"
    using Cons.prems by (intro drop_bundle_others) auto
  then show ?case using Cons by (auto split: prod.splits sum.splits)
qed simp

lemma map_missing_others:
  assumes "distinct missing" and "set missing \<inter> set (dict_keys (bundles_of s)) = {}" and "k \<in> set (dict_keys (bundles_of s))"
  shows "dict_get (bundles_of (snd (map_missing drv missing unit_bytes s))) k = dict_get (bundles_of s) k"
proof -
  obtain r acquired s1 where acq: "acquire_bundles drv missing s = (r, acquired, s1)" by (metis prod.collapse)
  note eff = acquire_bundles_effect [OF assms(1,2) acq]
  obtain flags where flags: "length flags = length acquired" "bundles_of s1 = bundles_of s @ zip acquired flags" using eff by blast
  obtain n where "acquired = take n missing" using eff by blast
  then have k: "k \<notin> set (rev acquired)" using assms(2,3) by (auto dest: in_set_takeD)
  have "k \<notin> set (dict_keys (zip acquired flags))" using k flags(1) by (auto dest: set_zip_leftD)
  then have "map_of (zip acquired flags) k = None" by (simp add: map_of_eq_None_iff)
  then have s1: "dict_get (bundles_of s1) k = dict_get (bundles_of s) k" using assms(3) flags(2)
    by (auto simp: map_add_def split: option.splits)
  have step: "dict_get (bundles_of (snd (for_each (drop_bundle drv) (rev acquired) t))) k = dict_get (bundles_of t) k" for t
    by (rule drop_bundles_others [OF k])
  show ?thesis
  proof (cases r)
    case (Inr u)
    then show ?thesis using s1 by (simp add: map_missing_def acq)
  next
    case (Inl e)
    let ?rest = "(int (length missing) - int (length acquired)) * unit_bytes"
    obtain rq q where rel: "release ?rest (vm_quota s1) = (rq, q)" by (cases "release ?rest (vm_quota s1)")
    obtain r4 s4 where drop: "for_each (drop_bundle drv) (rev acquired) (s1\<lparr>vm_quota := q\<rparr>) = (r4, s4)"
      by (cases "for_each (drop_bundle drv) (rev acquired) (s1\<lparr>vm_quota := q\<rparr>)")
    have s4: "dict_get (bundles_of s4) k = dict_get (bundles_of s) k" using step [of "s1\<lparr>vm_quota := q\<rparr>"] drop s1 by simp
    have "snd (map_missing drv missing unit_bytes s) = s1\<lparr>vm_quota := q\<rparr> \<or> snd (map_missing drv missing unit_bytes s) = s4"
      by (auto simp: map_missing_def acq Inl bind_def on_quota_def rel drop ret_def raise_def
          split: sum.splits exn.splits cu_result.splits)
    then show ?thesis using s1 s4 by auto
  qed
qed

lemma try_map_others:
  assumes "k \<in> set (dict_keys (bundles_of s))"
  shows "dict_get (bundles_of (snd (try_map drv ids s))) k = dict_get (bundles_of s) k"
proof -
  let ?bytes = "int (length (missing_bundles ids s)) * bundle_bytes (profile_of s)"
  obtain r q where reserve: "try_reserve ?bytes (vm_quota s) = (r, q)" by (cases "try_reserve ?bytes (vm_quota s)")
  have "dict_get (bundles_of (snd (map_missing drv (missing_bundles ids s) u (s\<lparr>vm_quota := q\<rparr>)))) k = dict_get (bundles_of s) k" for u
    using map_missing_others [of "missing_bundles ids s" "s\<lparr>vm_quota := q\<rparr>" k drv u] assms by (auto simp: missing_facts)
  then show ?thesis
    by (auto simp: try_map_def raise_def ret_def Let_def bind_def on_quota_def reserve split: sum.splits)
qed

lemma unmap_others:
  assumes "k \<notin> set ids"
  shows "dict_get (bundles_of (snd (unmap drv ids s))) k = dict_get (bundles_of s) k"
proof -
  let ?retired = "sorted_list_of_set (set ids \<inter> set (dict_keys (bundles_of s)))"
  have "k \<notin> set ?retired" using assms by simp
  then have "dict_get (bundles_of (snd (for_each (drop_bundle drv) ?retired s))) k = dict_get (bundles_of s) k"
    by (rule drop_bundles_others)
  then show ?thesis
    by (auto simp: unmap_def bind_def lift_result_def get_state_def raise_def ret_def Let_def split: sum.splits prod.splits)
qed

lemma try_map_all_mapped:
  assumes "settled others s" and "all_mapped s" and "try_map drv ids s = (Inr ok, s')"
  shows "all_mapped s'"
  unfolding all_mapped_def
proof
  fix b assume b: "b \<in> set (dict_keys (bundles_of s'))"
  have old: "dict_get (bundles_of s') k = Some True" if "k \<in> set (dict_keys (bundles_of s))" for k
    using try_map_others [OF that, of drv ids] assms(2,3) that by (auto simp: all_mapped_def)
  have out: "mapped_outcome ids s (Inr ok) s'" using try_map_effect [OF assms(1,3)] by simp
  show "dict_get (bundles_of s') b = Some True"
  proof (cases "b \<in> set (dict_keys (bundles_of s))")
    case False
    then show ?thesis using out b by (cases ok) (auto simp: mapped_outcome_def)
  qed (rule old)
qed

lemma unmap_all_mapped:
  assumes "settled others s" and "all_mapped s" and "unmap drv ids s = (Inr released, s')"
  shows "all_mapped s'"
proof -
  have "set (dict_keys (bundles_of s')) = set (dict_keys (bundles_of s)) - set ids"
    using unmap_effect [OF assms(1,3)] by blast
  then show ?thesis using unmap_others [of _ ids drv s] assms(2,3) unfolding all_mapped_def by (metis DiffE snd_conv)
qed

end
