(* ===== verification/Kv_Pages.thy ===== *)
theory Kv_Pages
  imports Kv_Vmm
begin

section \<open>Logical pages and physical bundles\<close>

text \<open>
  The interval arithmetic of \<^verbatim>\<open>KvVmmBacking\<close>: which bundles a logical token page touches, how many of them
  are missing, and which mapped bundles no owned page touches. The code answers all pages at once with prefix
  sums and difference arrays over tensors; here a tensor is a list, and \<open>gather\<close> and \<open>scatter_add\<close> raise where
  an index leaves the tensor.
\<close>

subsection \<open>Tensor operations\<close>

fun cumsum_from :: "int \<Rightarrow> int list \<Rightarrow> int list" where
  "cumsum_from acc [] = []"
| "cumsum_from acc (x # xs) = (acc + x) # cumsum_from (acc + x) xs"

abbreviation cumsum :: "int list \<Rightarrow> int list" where
  "cumsum \<equiv> cumsum_from 0"

text \<open>Tensor indices count from the end when negative; \<^verbatim>\<open>scatter_add_\<close> takes none of those.\<close>

definition tensor_item :: "int list \<Rightarrow> int \<Rightarrow> int result" where
  "tensor_item xs i =
     (if i < - int (length xs) then Inl IndexError
      else index_at xs (nat (if i < 0 then i + int (length xs) else i)))"

definition gather :: "int list \<Rightarrow> int list \<Rightarrow> int list result" where
  "gather xs is = rmap (tensor_item xs) is"

fun scatter_add :: "int list \<Rightarrow> (int \<times> int) list \<Rightarrow> int list result" where
  "scatter_add xs [] = Inr xs"
| "scatter_add xs ((i, v) # ivs) =
     (if i < 0 then Inl IndexError
      else rbind (tensor_item xs i) (\<lambda>x. scatter_add (xs[nat i := x + v]) ivs))"

text \<open>\<^verbatim>\<open>xs[indices] = v\<close>.\<close>

fun index_put :: "int list \<Rightarrow> int list \<Rightarrow> int \<Rightarrow> int list result" where
  "index_put xs [] v = Inr xs"
| "index_put xs (i # is) v =
     rbind (tensor_item xs i) (\<lambda>_.
       index_put (xs[nat (if i < 0 then i + int (length xs) else i) := v]) is v)"

definition clamp :: "int \<Rightarrow> int \<Rightarrow> int \<Rightarrow> int" where
  "clamp lowest highest x = min highest (max lowest x)"

subsection \<open>Spans\<close>

definition bundle_span :: "kv_vmm_layout \<Rightarrow> int \<Rightarrow> int \<times> int" where
  "bundle_span lay page_id =
     (let first_row = page_id * token_page_size lay div tokens_per_row lay;
          past_row = ((page_id + 1) * token_page_size lay + tokens_per_row lay - 1) div tokens_per_row lay
      in (first_row * row_bytes lay div mapping_granularity_bytes lay,
          (past_row * row_bytes lay + mapping_granularity_bytes lay - 1) div mapping_granularity_bytes lay))"

definition missing_bundle_counts :: "kv_backing \<Rightarrow> int list \<Rightarrow> int list result" where
  "missing_bundle_counts b page_ids =
     rbind (index_put (replicate (nat (bundle_capacity (profile (kv_layout b)))) 1) (dict_keys (kv_bundles b)) 0) (\<lambda>missing.
       let prefix = 0 # cumsum missing; spans = map (bundle_span (kv_layout b)) page_ids
       in rbind (gather prefix (map snd spans)) (\<lambda>at_ends.
          rbind (gather prefix (map fst spans)) (\<lambda>at_starts.
            Inr (map2 (-) at_ends at_starts))))"

text \<open>For every bundle the number of the given pages that touch it.\<close>

definition page_cover :: "kv_vmm_layout \<Rightarrow> int list \<Rightarrow> int list result" where
  "page_cover lay page_ids =
     (let spans = map (bundle_span lay) page_ids;
          zeros = replicate (nat (bundle_capacity (profile lay)) + 1) 0
      in rbind (scatter_add zeros (map (\<lambda>s. (fst s, 1)) spans)) (\<lambda>opened.
         rbind (scatter_add opened (map (\<lambda>s. (snd s, - 1)) spans)) (\<lambda>differences.
           Inr (butlast (cumsum differences)))))"

definition past_page :: "kv_vmm_layout \<Rightarrow> int" where
  "past_page lay = token_capacity lay div token_page_size lay + 1"

definition bundle_pages :: "kv_vmm_layout \<Rightarrow> int \<Rightarrow> int \<times> int" where
  "bundle_pages lay bundle_id =
     (let first_row = bundle_id * mapping_granularity_bytes lay div row_bytes lay;
          past_row = min (hd (shape lay))
                       (((bundle_id + 1) * mapping_granularity_bytes lay + row_bytes lay - 1) div row_bytes lay)
      in (clamp 1 (past_page lay) (first_row * tokens_per_row lay div token_page_size lay),
          clamp 1 (past_page lay)
            ((past_row * tokens_per_row lay + token_page_size lay - 1) div token_page_size lay)))"

definition empty_bundles :: "kv_backing \<Rightarrow> int list \<Rightarrow> int list result" where
  "empty_bundles b free_page_ids =
     (let lay = kv_layout b;
          bundle_ids = filter (\<lambda>i. i \<ge> floor_bundles (profile lay)) (dict_keys (kv_bundles b))
      in rbind (page_cover lay free_page_ids) (\<lambda>free_counts.
         rbind (gather free_counts bundle_ids) (\<lambda>covered.
           Inr (map fst (filter (\<lambda>(i, n). n = snd (bundle_pages lay i) - fst (bundle_pages lay i)) (zip bundle_ids covered))))))"

section \<open>Rounding\<close>

lemma le_div_pos: "0 < g \<Longrightarrow> b \<le> a div g \<longleftrightarrow> b * g \<le> (a::int)"
proof
  assume g: "0 < g"
  show "b * g \<le> a" if "b \<le> a div g"
  proof -
    have "b * g \<le> a div g * g" using that g by (simp add: mult_right_mono)
    also have "\<dots> \<le> a" using g by (metis add.commute div_mult_mod_eq le_add_same_cancel2 pos_mod_sign add_increasing2)
    finally show ?thesis .
  qed
  show "b \<le> a div g" if "b * g \<le> a"
    using zdiv_mono1 [OF that g] g by simp
qed

lemma div_lt_pos: "0 < g \<Longrightarrow> a div g < b \<longleftrightarrow> (a::int) < b * g"
  using le_div_pos [of g b a] by linarith

lemma lt_ceil_pos: "0 < g \<Longrightarrow> b < (a + g - 1) div g \<longleftrightarrow> b * g < (a::int)"
  using le_div_pos [of g "b + 1" "a + g - 1"] by (simp add: algebra_simps) linarith

lemma ceil_le_pos: "0 < g \<Longrightarrow> (a + g - 1) div g \<le> b \<longleftrightarrow> (a::int) \<le> b * g"
  using lt_ceil_pos [of g b a] by linarith

section \<open>A bundle and the pages that touch it\<close>

definition geometry_ok :: "kv_vmm_layout \<Rightarrow> bool" where
  "geometry_ok lay \<longleftrightarrow> 0 < tokens_per_row lay \<and> 0 < token_page_size lay \<and> 0 < mapping_granularity_bytes lay
     \<and> 0 < row_bytes lay \<and> 0 < hd (shape lay) \<and> token_page_size lay \<le> token_capacity lay
     \<and> bundle_capacity (profile lay)
         = (hd (shape lay) * row_bytes lay + mapping_granularity_bytes lay - 1) div mapping_granularity_bytes lay"

definition valid_page :: "kv_vmm_layout \<Rightarrow> int \<Rightarrow> bool" where
  "valid_page lay p \<longleftrightarrow> 1 \<le> p \<and> p < past_page lay"

definition touches :: "kv_vmm_layout \<Rightarrow> int \<Rightarrow> int \<Rightarrow> bool" where
  "touches lay p b \<longleftrightarrow> fst (bundle_span lay p) \<le> b \<and> b < snd (bundle_span lay p)"

lemma prod_list_pos: "\<forall>x\<in>set xs. 0 < (x::int) \<Longrightarrow> 0 < prod_list xs"
  by (induction xs) auto

lemma KvVmmLayout_ok:
  assumes "KvVmmLayout raw = Inr lay" and "0 < itemsize raw"
  shows "geometry_ok lay \<and> pool_profile_ok (profile lay)"
proof -
  have nonneg: "\<forall>x\<in>set (shape raw). 0 < x" "shape raw \<noteq> []" "0 < tokens_per_row raw" "0 < token_page_size raw"
    "0 < mapping_granularity_bytes raw" "token_page_size raw \<le> token_capacity raw"
    using assms(1) by (auto simp: KvVmmLayout_def rbind_Inr_iff ensure_uint64_Inr_iff less_le split: if_splits)
  have "\<forall>x\<in>set (tl (shape raw)). 0 < x" using nonneg(1,2) by (auto dest: list.set_sel(2))
  then have row: "0 < row_bytes raw" using prod_list_pos assms(2) by (simp add: row_bytes_def)
  obtain p where p: "PoolProfile (mapping_granularity_bytes raw * layer_count raw * buffers_per_layer raw)
        ((hd (shape raw) * row_bytes raw + mapping_granularity_bytes raw - 1) div mapping_granularity_bytes raw)
        (((token_page_size raw + tokens_per_row raw - 1) div tokens_per_row raw * row_bytes raw + mapping_granularity_bytes raw - 1)
           div mapping_granularity_bytes raw) = Inr p" and lay: "lay = raw\<lparr>profile := p\<rparr>"
    using assms(1) nonneg(5)
    by (auto simp: KvVmmLayout_def rbind_Inr_iff Let_def align_up_def split: if_splits)
  have same: "row_bytes lay = row_bytes raw" "token_capacity lay = token_capacity raw"
    by (simp_all add: lay row_bytes_def token_capacity_def)
  show ?thesis using PoolProfile_Inr [OF p] nonneg row same by (auto simp: lay geometry_ok_def row_bytes_def token_capacity_def)
qed

lemma valid_page_tokens:
  assumes "geometry_ok lay" and "valid_page lay p"
  shows "(p + 1) * token_page_size lay \<le> hd (shape lay) * tokens_per_row lay"
proof -
  have P: "0 < token_page_size lay" using assms(1) by (simp add: geometry_ok_def)
  have "p \<le> token_capacity lay div token_page_size lay" using assms(2) by (simp add: valid_page_def past_page_def)
  then have "p * token_page_size lay \<le> token_capacity lay" using le_div_pos [OF P] by blast
  then show ?thesis by (simp add: token_capacity_def algebra_simps)
qed

lemma span_bounds:
  assumes "geometry_ok lay" and "valid_page lay p"
  shows "0 \<le> fst (bundle_span lay p)" and "fst (bundle_span lay p) < snd (bundle_span lay p)"
    and "snd (bundle_span lay p) \<le> bundle_capacity (profile lay)"
proof -
  let ?T = "tokens_per_row lay" and ?P = "token_page_size lay" and ?G = "mapping_granularity_bytes lay" and ?R = "row_bytes lay"
  note pos = assms(1) [unfolded geometry_ok_def]
  have T: "0 < ?T" and P: "0 < ?P" and G: "0 < ?G" and R: "0 < ?R" using pos by simp_all
  have p: "1 \<le> p" using assms(2) by (simp add: valid_page_def)
  let ?f = "p * ?P div ?T" and ?l = "((p + 1) * ?P + ?T - 1) div ?T"
  have "0 \<le> ?f" using p P T by (simp add: pos_imp_zdiv_nonneg_iff)
  then show "0 \<le> fst (bundle_span lay p)" using R G by (simp add: bundle_span_def Let_def pos_imp_zdiv_nonneg_iff)
  have "?f < ?l"
  proof (subst lt_ceil_pos [OF T])
    have "?f * ?T \<le> p * ?P" using le_div_pos [OF T, of ?f "p * ?P"] by simp
    then show "?f * ?T < (p + 1) * ?P" using P by (simp add: algebra_simps)
  qed
  then have "?f * ?R < ?l * ?R" using R by simp
  moreover have "?f * ?R div ?G * ?G \<le> ?f * ?R" using le_div_pos [OF G, of "?f * ?R div ?G" "?f * ?R"] by simp
  ultimately show "fst (bundle_span lay p) < snd (bundle_span lay p)"
    by (simp add: bundle_span_def Let_def lt_ceil_pos [OF G])
  have "?l \<le> hd (shape lay)" using ceil_le_pos [OF T] valid_page_tokens [OF assms] by simp
  then have "?l * ?R \<le> hd (shape lay) * ?R" using R by (simp add: mult_right_mono)
  also have "\<dots> \<le> bundle_capacity (profile lay) * ?G"
    using pos ceil_le_pos [OF G, of "hd (shape lay) * ?R" "bundle_capacity (profile lay)"] by simp
  finally show "snd (bundle_span lay p) \<le> bundle_capacity (profile lay)"
    by (simp add: bundle_span_def Let_def ceil_le_pos [OF G])
qed

lemma clamp_le: "lowest \<le> p \<Longrightarrow> p < highest \<Longrightarrow> clamp lowest highest x \<le> p \<longleftrightarrow> x \<le> p"
  by (auto simp: clamp_def)

lemma lt_clamp: "lowest \<le> p \<Longrightarrow> p < highest \<Longrightarrow> p < clamp lowest highest x \<longleftrightarrow> p < x"
  by (auto simp: clamp_def)

text \<open>The page interval the code computes for a bundle holds exactly the pages whose span contains it.\<close>

lemma touches_iff:
  assumes "geometry_ok lay" and "valid_page lay p"
  shows "touches lay p b \<longleftrightarrow> fst (bundle_pages lay b) \<le> p \<and> p < snd (bundle_pages lay b)"
proof -
  let ?T = "tokens_per_row lay" and ?P = "token_page_size lay" and ?G = "mapping_granularity_bytes lay" and ?R = "row_bytes lay"
  let ?sh = "hd (shape lay)"
  note pos = assms(1) [unfolded geometry_ok_def]
  have T: "0 < ?T" and P: "0 < ?P" and G: "0 < ?G" and R: "0 < ?R" using pos by simp_all
  have p: "1 \<le> p" "p < past_page lay" using assms(2) by (simp_all add: valid_page_def)
  let ?c = "((b + 1) * ?G + ?R - 1) div ?R"
  have "fst (bundle_span lay p) \<le> b \<longleftrightarrow> p * ?P div ?T * ?R < (b + 1) * ?G"
    using div_lt_pos [OF G, of "p * ?P div ?T * ?R" "b + 1"] by (simp add: bundle_span_def Let_def)
  also have "\<dots> \<longleftrightarrow> p * ?P div ?T < ?c" by (simp only: lt_ceil_pos [OF R])
  also have "\<dots> \<longleftrightarrow> p * ?P < ?c * ?T" by (rule div_lt_pos [OF T])
  also have "\<dots> \<longleftrightarrow> p * ?P < min ?sh ?c * ?T"
  proof (cases "?c \<le> ?sh")
    case False
    have "p * ?P < ?sh * ?T" using valid_page_tokens [OF assms] P by (simp add: algebra_simps)
    moreover have "?sh * ?T \<le> ?c * ?T" using False T by (intro mult_right_mono) auto
    ultimately show ?thesis using False by (simp add: min_def)
  qed (simp add: min_def)
  also have "\<dots> \<longleftrightarrow> p < (min ?sh ?c * ?T + ?P - 1) div ?P" by (simp only: lt_ceil_pos [OF P])
  finally have upper: "fst (bundle_span lay p) \<le> b \<longleftrightarrow> p < snd (bundle_pages lay b)"
    by (simp add: bundle_pages_def Let_def lt_clamp [OF p])
  let ?l = "((p + 1) * ?P + ?T - 1) div ?T"
  have "b < snd (bundle_span lay p) \<longleftrightarrow> b * ?G < ?l * ?R" by (simp add: bundle_span_def Let_def lt_ceil_pos [OF G])
  also have "\<dots> \<longleftrightarrow> b * ?G div ?R < ?l" by (rule div_lt_pos [OF R, symmetric])
  also have "\<dots> \<longleftrightarrow> b * ?G div ?R * ?T < (p + 1) * ?P" by (rule lt_ceil_pos [OF T])
  also have "\<dots> \<longleftrightarrow> b * ?G div ?R * ?T div ?P < p + 1" by (rule div_lt_pos [OF P, symmetric])
  finally have "b < snd (bundle_span lay p) \<longleftrightarrow> fst (bundle_pages lay b) \<le> p"
    by (simp add: bundle_pages_def Let_def clamp_le [OF p])
  with upper show ?thesis by (auto simp: touches_def)
qed

section \<open>What the tensor operations compute\<close>

lemma length_cumsum_from [simp]: "length (cumsum_from acc xs) = length xs"
  by (induction xs arbitrary: acc) simp_all

lemma prefix_nth: "i \<le> length xs \<Longrightarrow> (acc # cumsum_from acc xs) ! i = acc + sum_list (take i xs)"
proof (induction xs arbitrary: acc i)
  case (Cons x xs)
  then show ?case by (cases i) (simp_all add: algebra_simps)
qed simp

lemma cumsum_nth: "i < length xs \<Longrightarrow> cumsum xs ! i = sum_list (take (Suc i) xs)"
  using prefix_nth [of "Suc i" xs 0] by simp

lemma tensor_item_nth: "0 \<le> i \<Longrightarrow> i < int (length xs) \<Longrightarrow> tensor_item xs i = Inr (xs ! nat i)"
  by (simp add: tensor_item_def index_at_def)

lemma gather_nth:
  "\<forall>i\<in>set is. 0 \<le> i \<and> i < int (length xs) \<Longrightarrow> gather xs is = Inr (map (\<lambda>i. xs ! nat i) is)"
  by (induction "is") (simp_all add: gather_def tensor_item_nth)

lemma index_put_nth:
  assumes "\<forall>i\<in>set ids. 0 \<le> i \<and> i < int (length xs)"
  shows "\<exists>ys. index_put xs ids v = Inr ys \<and> length ys = length xs
     \<and> (\<forall>j<length xs. ys ! j = (if int j \<in> set ids then v else xs ! j))"
  using assms
proof (induction ids arbitrary: xs)
  case (Cons i ids)
  then have i: "0 \<le> i" "i < int (length xs)" by auto
  obtain ys where ys: "index_put (xs[nat i := v]) ids v = Inr ys" "length ys = length xs"
    "\<forall>j<length xs. ys ! j = (if int j \<in> set ids then v else xs[nat i := v] ! j)"
    using Cons.IH [of "xs[nat i := v]"] Cons.prems by auto
  have "ys ! j = (if int j \<in> set (i # ids) then v else xs ! j)" if "j < length xs" for j
    using ys(3) that i by (cases "nat i = j") auto
  then show ?case using ys(1,2) i by (simp add: tensor_item_nth)
qed simp

lemma sum_take_update:
  "i < length xs \<Longrightarrow> sum_list (take n (xs[i := xs ! i + v])) = sum_list (take n xs) + (if i < n then v else (0::int))"
proof (induction xs arbitrary: i n)
  case (Cons x xs)
  then show ?case by (cases i; cases n) simp_all
qed simp

text \<open>Every prefix sum grows by the values scattered below it.\<close>

lemma scatter_add_prefix:
  assumes "\<forall>(i, v)\<in>set ivs. 0 \<le> i \<and> i < int (length xs)"
  shows "\<exists>ys. scatter_add xs ivs = Inr ys \<and> length ys = length xs
     \<and> (\<forall>n. sum_list (take n ys) = sum_list (take n xs) + sum_list (map (\<lambda>(i, v). if i < int n then v else 0) ivs))"
  using assms
proof (induction ivs arbitrary: xs)
  case (Cons iv ivs)
  obtain i v where iv: "iv = (i, v)" by (cases iv)
  then have i: "0 \<le> i" "i < int (length xs)" using Cons.prems by auto
  obtain ys where ys: "scatter_add (xs[nat i := xs ! nat i + v]) ivs = Inr ys" "length ys = length xs"
    "\<forall>n. sum_list (take n ys) = sum_list (take n (xs[nat i := xs ! nat i + v]))
        + sum_list (map (\<lambda>(i, v). if i < int n then v else 0) ivs)"
    using Cons.IH [of "xs[nat i := xs ! nat i + v]"] Cons.prems by auto
  have "nat i < n \<longleftrightarrow> i < int n" for n using i by linarith
  then show ?case using ys i by (simp add: iv tensor_item_nth sum_take_update)
qed simp

lemma sum_take_indicator:
  assumes "\<forall>j<length ys. ys ! j = (if P (int j) then (1::int) else 0)" and "n \<le> length ys"
  shows "sum_list (take n ys) = int (card {b. 0 \<le> b \<and> b < int n \<and> P b})"
  using assms(2)
proof (induction n)
  case 0
  show ?case by (auto simp: card_eq_0_iff)
next
  case (Suc n)
  have less: "b < int (Suc n) \<longleftrightarrow> b < int n \<or> b = int n" for b by linarith
  have "{b. 0 \<le> b \<and> b < int (Suc n) \<and> P b}
      = {b. 0 \<le> b \<and> b < int n \<and> P b} \<union> (if P (int n) then {int n} else {})"
    unfolding less by (rule set_eqI) auto
  moreover have "finite {b. 0 \<le> b \<and> b < int n \<and> P b}" by (rule finite_subset [of _ "{0..<int n}"]) auto
  ultimately show ?case using Suc assms(1) by (simp add: take_Suc_conv_app_nth card_insert_if)
qed

section \<open>Exact counts\<close>

definition bundles_in_range :: "kv_backing \<Rightarrow> bool" where
  "bundles_in_range b \<longleftrightarrow> (\<forall>i\<in>set (dict_keys (kv_bundles b)). 0 \<le> i \<and> i < bundle_capacity (profile (kv_layout b)))"

abbreviation spanned :: "kv_vmm_layout \<Rightarrow> int \<Rightarrow> int set" where
  "spanned lay p \<equiv> {fst (bundle_span lay p)..<snd (bundle_span lay p)}"

lemma capacity_pos:
  assumes "geometry_ok lay"
  shows "int (nat (bundle_capacity (profile lay))) = bundle_capacity (profile lay)" and "0 < bundle_capacity (profile lay)"
proof -
  show pos: "0 < bundle_capacity (profile lay)"
    using assms lt_ceil_pos [of "mapping_granularity_bytes lay" 0 "hd (shape lay) * row_bytes lay"] by (simp add: geometry_ok_def)
  then show "int (nat (bundle_capacity (profile lay))) = bundle_capacity (profile lay)" by simp
qed

lemma prefix_difference:
  assumes "\<forall>j<length ys. ys ! j = (if P (int j) then (1::int) else 0)" and "0 \<le> i" "i \<le> k" "k \<le> int (length ys)"
  shows "(0 # cumsum ys) ! nat k - (0 # cumsum ys) ! nat i = int (card {b\<in>{i..<k}. P b})"
proof -
  let ?below = "\<lambda>n. {b. 0 \<le> b \<and> b < int (nat n) \<and> P b}"
  have fin: "finite (?below n)" for n by (rule finite_subset [of _ "{0..<int (nat n)}"]) auto
  have prefix: "(0 # cumsum ys) ! nat n = int (card (?below n))" if "0 \<le> n" "n \<le> int (length ys)" for n
    using prefix_nth [of "nat n" ys 0] sum_take_indicator [OF assms(1), of "nat n"] that by simp
  have split: "?below k = ?below i \<union> {b\<in>{i..<k}. P b}" "?below i \<inter> {b\<in>{i..<k}. P b} = {}"
    using assms(2,3) by auto
  have "card (?below k) = card (?below i) + card {b\<in>{i..<k}. P b}"
    unfolding split(1) by (rule card_Un_disjoint [OF fin _ split(2)]) (rule finite_subset [of _ "{i..<k}"], auto)
  then show ?thesis using prefix [of k] prefix [of i] assms by simp
qed

text \<open>The counts the prefix sums give are the numbers of unmapped bundles in the spans.\<close>

lemma missing_bundle_counts_exact:
  assumes "geometry_ok (kv_layout b)" and "bundles_in_range b" and "\<forall>p\<in>set pages. valid_page (kv_layout b) p"
  shows "missing_bundle_counts b pages
     = Inr (map (\<lambda>p. int (card {i\<in>spanned (kv_layout b) p. i \<notin> set (dict_keys (kv_bundles b))})) pages)"
proof -
  let ?lay = "kv_layout b" and ?keys = "dict_keys (kv_bundles b)"
  let ?cap = "nat (bundle_capacity (profile ?lay))"
  have keys: "\<forall>i\<in>set ?keys. 0 \<le> i \<and> i < int (length (replicate ?cap (1::int)))"
    using assms(2) capacity_pos [OF assms(1)] by (simp add: bundles_in_range_def)
  obtain missing where missing: "index_put (replicate ?cap 1) ?keys 0 = Inr missing" "length missing = ?cap"
    "\<forall>j<?cap. missing ! j = (if int j \<notin> set ?keys then 1 else 0)"
    using index_put_nth [OF keys, of 0] by auto
  let ?prefix = "0 # cumsum missing"
  have bounds: "0 \<le> fst (bundle_span ?lay p)" "fst (bundle_span ?lay p) \<le> snd (bundle_span ?lay p)"
    "snd (bundle_span ?lay p) \<le> int ?cap" if "p \<in> set pages" for p
    using span_bounds [OF assms(1), of p] assms(3) that unfolding capacity_pos(1) [OF assms(1)] by auto
  have gathers: "gather ?prefix (map snd (map (bundle_span ?lay) pages)) = Inr (map (\<lambda>p. ?prefix ! nat (snd (bundle_span ?lay p))) pages)"
    "gather ?prefix (map fst (map (bundle_span ?lay) pages)) = Inr (map (\<lambda>p. ?prefix ! nat (fst (bundle_span ?lay p))) pages)"
    by (subst gather_nth; use bounds missing(2) in \<open>fastforce simp: comp_def\<close>)+
  have "?prefix ! nat (snd (bundle_span ?lay p)) - ?prefix ! nat (fst (bundle_span ?lay p))
      = int (card {i\<in>spanned ?lay p. i \<notin> set ?keys})" if "p \<in> set pages" for p
    by (rule prefix_difference) (use missing bounds [OF that] in simp_all)
  then show ?thesis
    unfolding missing_bundle_counts_def missing(1) Let_def rbind_simps gathers
    by (simp add: map2_map_map)
qed

lemma no_missing_bundles:
  "int (card {i\<in>spanned (kv_layout b) p. i \<notin> set (dict_keys (kv_bundles b))}) = 0
     \<longleftrightarrow> (\<forall>i. touches (kv_layout b) p i \<longrightarrow> i \<in> set (dict_keys (kv_bundles b)))"
proof -
  have "finite {i\<in>spanned (kv_layout b) p. i \<notin> set (dict_keys (kv_bundles b))}"
    by (rule finite_subset [of _ "spanned (kv_layout b) p"]) auto
  then show ?thesis by (auto simp: touches_def)
qed

lemma page_cover_exact:
  assumes "geometry_ok lay" and "\<forall>p\<in>set pages. valid_page lay p"
  shows "\<exists>cover. page_cover lay pages = Inr cover \<and> length cover = nat (bundle_capacity (profile lay))
     \<and> (\<forall>i<length cover. cover ! i = int (length (filter (\<lambda>p. touches lay p (int i)) pages)))"
proof -
  let ?cap = "nat (bundle_capacity (profile lay))" and ?spans = "map (bundle_span lay) pages"
  let ?zeros = "replicate (?cap + 1) (0::int)"
  have bounds: "0 \<le> fst (bundle_span lay p)" "fst (bundle_span lay p) < snd (bundle_span lay p)"
    "snd (bundle_span lay p) \<le> int ?cap" if "p \<in> set pages" for p
    using span_bounds [OF assms(1), of p] assms(2) that unfolding capacity_pos(1) [OF assms(1)] by auto
  obtain ys where ys: "scatter_add ?zeros (map (\<lambda>s. (fst s, 1)) ?spans) = Inr ys" "length ys = ?cap + 1"
    "\<forall>n. sum_list (take n ys) = sum_list (take n ?zeros)
       + sum_list (map (\<lambda>(i, v). if i < int n then v else 0) (map (\<lambda>s. (fst s, 1)) ?spans))"
    using scatter_add_prefix [of "map (\<lambda>s. (fst s, 1)) ?spans" ?zeros] bounds by fastforce
  obtain zs where zs: "scatter_add ys (map (\<lambda>s. (snd s, - 1)) ?spans) = Inr zs" "length zs = ?cap + 1"
    "\<forall>n. sum_list (take n zs) = sum_list (take n ys)
       + sum_list (map (\<lambda>(i, v). if i < int n then v else 0) (map (\<lambda>s. (snd s, - 1)) ?spans))"
    using scatter_add_prefix [of "map (\<lambda>s. (snd s, - 1)) ?spans" ys] bounds ys(2) by fastforce
  have count: "sum_list (map (\<lambda>p. if fst (bundle_span lay p) < int (Suc i) then 1 else 0) ps)
      + sum_list (map (\<lambda>p. if snd (bundle_span lay p) < int (Suc i) then - 1 else 0) ps)
      = int (length (filter (\<lambda>p. touches lay p (int i)) ps))" if "set ps \<subseteq> set pages" for i ps
    using that
  proof (induction ps)
    case (Cons p ps)
    then show ?case using bounds [of p] by (auto simp: touches_def)
  qed simp
  have "cumsum zs ! i = int (length (filter (\<lambda>p. touches lay p (int i)) pages))" if "i < ?cap" for i
    using cumsum_nth [of i zs] zs(2,3) ys(3) that count [OF order_refl, of i] by (simp add: comp_def sum_list_replicate)
  then have "\<forall>i<length (butlast (cumsum zs)). butlast (cumsum zs) ! i = int (length (filter (\<lambda>p. touches lay p (int i)) pages))"
    using zs(2) by (simp add: nth_butlast)
  then show ?thesis using ys(1) zs(1,2) by (simp add: page_cover_def)
qed

section \<open>Empty bundles\<close>

lemma bundle_pages_ordered:
  assumes "geometry_ok lay" and "0 \<le> b" and "b < bundle_capacity (profile lay)"
  shows "1 \<le> fst (bundle_pages lay b)" and "fst (bundle_pages lay b) \<le> snd (bundle_pages lay b)"
    and "snd (bundle_pages lay b) \<le> past_page lay"
proof -
  let ?T = "tokens_per_row lay" and ?P = "token_page_size lay" and ?G = "mapping_granularity_bytes lay" and ?R = "row_bytes lay"
  note pos = assms(1) [unfolded geometry_ok_def]
  have T: "0 < ?T" and P: "0 < ?P" and G: "0 < ?G" and R: "0 < ?R" using pos by simp_all
  have past: "1 \<le> past_page lay" using pos P by (auto simp: past_page_def pos_imp_zdiv_nonneg_iff)
  then show "1 \<le> fst (bundle_pages lay b)" "snd (bundle_pages lay b) \<le> past_page lay"
    by (simp_all add: bundle_pages_def Let_def clamp_def)
  let ?first = "b * ?G div ?R" and ?last = "min (hd (shape lay)) (((b + 1) * ?G + ?R - 1) div ?R)"
  have "b * ?G < hd (shape lay) * ?R" using assms(3) pos lt_ceil_pos [OF G, of b "hd (shape lay) * ?R"] by simp
  then have "?first < hd (shape lay)" using div_lt_pos [OF R] by blast
  moreover have "?first < ((b + 1) * ?G + ?R - 1) div ?R"
    using lt_ceil_pos [OF R, of ?first "(b + 1) * ?G"] le_div_pos [OF R, of ?first "b * ?G"] G by (simp add: algebra_simps)
  ultimately have "?first \<le> ?last" by simp
  then have "?first * ?T \<le> ?last * ?T + ?P - 1" using T P mult_right_mono [of ?first ?last ?T] by linarith
  then have "?first * ?T div ?P \<le> (?last * ?T + ?P - 1) div ?P" using P by (rule zdiv_mono1)
  then show "fst (bundle_pages lay b) \<le> snd (bundle_pages lay b)"
    unfolding bundle_pages_def Let_def fst_conv snd_conv clamp_def by (intro min.mono max.mono order_refl)
qed

text \<open>The number of free pages that touch a bundle reaches the width of its interval exactly when none is owned.\<close>

lemma free_count_full:
  assumes "geometry_ok lay" and "0 \<le> b" "b < bundle_capacity (profile lay)"
    and "distinct pages" and "\<forall>p\<in>set pages. valid_page lay p"
  shows "int (length (filter (\<lambda>p. touches lay p b) pages)) = snd (bundle_pages lay b) - fst (bundle_pages lay b)
     \<longleftrightarrow> (\<forall>p. valid_page lay p \<and> touches lay p b \<longrightarrow> p \<in> set pages)"
proof -
  let ?all = "{fst (bundle_pages lay b)..<snd (bundle_pages lay b)}" and ?free = "set (filter (\<lambda>p. touches lay p b) pages)"
  note ordered = bundle_pages_ordered [OF assms(1-3)]
  have valid: "valid_page lay p" if "p \<in> ?all" for p using that ordered by (auto simp: valid_page_def)
  have all: "p \<in> ?all \<longleftrightarrow> valid_page lay p \<and> touches lay p b" for p
    using valid [of p] touches_iff [OF assms(1), of p b] by auto
  have sub: "?free \<subseteq> ?all" using all assms(5) by auto
  have "int (length (filter (\<lambda>p. touches lay p b) pages)) = snd (bundle_pages lay b) - fst (bundle_pages lay b)
      \<longleftrightarrow> card ?free = card ?all"
    using distinct_card [of "filter (\<lambda>p. touches lay p b) pages"] assms(4) ordered(2) by simp linarith
  also have "\<dots> \<longleftrightarrow> ?free = ?all" using card_subset_eq [OF _ sub] by auto
  also have "\<dots> \<longleftrightarrow> (\<forall>p. valid_page lay p \<and> touches lay p b \<longrightarrow> p \<in> set pages)" using sub all by auto
  finally show ?thesis .
qed

lemma mem_filter_zip: "x \<in> set (map fst (filter P (zip xs (map f xs)))) \<longleftrightarrow> x \<in> set xs \<and> P (x, f x)"
  by (force simp: set_zip in_set_conv_nth)

lemma empty_bundles_correct:
  assumes geo: "geometry_ok (kv_layout b)" and keys: "bundles_in_range b" and unique: "distinct (dict_keys (kv_bundles b))"
    and pages: "distinct pages" "\<forall>p\<in>set pages. valid_page (kv_layout b) p"
  shows "\<exists>ids. empty_bundles b pages = Inr ids \<and> distinct ids
     \<and> (\<forall>i. i \<in> set ids \<longleftrightarrow> i \<in> set (dict_keys (kv_bundles b)) \<and> floor_bundles (profile (kv_layout b)) \<le> i
          \<and> (\<forall>p. valid_page (kv_layout b) p \<and> touches (kv_layout b) p i \<longrightarrow> p \<in> set pages))"
proof -
  let ?lay = "kv_layout b" and ?keys = "dict_keys (kv_bundles b)"
  let ?upper = "filter (\<lambda>i. i \<ge> floor_bundles (profile ?lay)) ?keys"
  obtain cover where cover: "page_cover ?lay pages = Inr cover" "length cover = nat (bundle_capacity (profile ?lay))"
    "\<forall>i<length cover. cover ! i = int (length (filter (\<lambda>p. touches ?lay p (int i)) pages))"
    using page_cover_exact [OF geo pages(2)] by blast
  have range: "0 \<le> i" "i < bundle_capacity (profile ?lay)" "i < int (length cover)" if "i \<in> set ?keys" for i
    using that keys cover(2) capacity_pos(1) [OF geo] unfolding bundles_in_range_def by auto
  have gathered: "gather cover ?upper = Inr (map (\<lambda>i. cover ! nat i) ?upper)"
    using range by (intro gather_nth) simp
  let ?full = "\<lambda>(i, n). n = snd (bundle_pages ?lay i) - fst (bundle_pages ?lay i)"
  let ?ids = "map fst (filter ?full (zip ?upper (map (\<lambda>i. cover ! nat i) ?upper)))"
  have "?full (i, cover ! nat i) \<longleftrightarrow> (\<forall>p. valid_page ?lay p \<and> touches ?lay p i \<longrightarrow> p \<in> set pages)" if "i \<in> set ?keys" for i
  proof -
    have "cover ! nat i = int (length (filter (\<lambda>p. touches ?lay p i) pages))" using cover(3) range [OF that] by simp
    then show ?thesis using free_count_full [OF geo range(1,2) [OF that] pages] by simp
  qed
  then have exact: "i \<in> set ?ids \<longleftrightarrow> i \<in> set ?keys \<and> floor_bundles (profile ?lay) \<le> i
      \<and> (\<forall>p. valid_page ?lay p \<and> touches ?lay p i \<longrightarrow> p \<in> set pages)" for i
    unfolding mem_filter_zip set_filter by blast
  have "distinct ?ids"
    using unique by (intro distinct_map_filter) simp
  moreover have "empty_bundles b pages = Inr ?ids"
    unfolding empty_bundles_def Let_def cover(1) rbind_simps gathered by simp
  ultimately show ?thesis using exact by blast
qed

text \<open>
  C18: Counting free pages on device finds exactly the reclaimable bundles. On a complete snapshot of distinct
  free pages the interval differences return the mapped bundles above the pinned floor whose every logical
  page is free, each once; a bundle one owned page still touches is never returned.
\<close>

theorem empty_bundles_exact:
  assumes "KvVmmLayout raw = Inr (kv_layout b)" and "0 < itemsize raw" and "bundles_in_range b"
    and "distinct (dict_keys (kv_bundles b))" and "distinct pages" and "\<forall>p\<in>set pages. valid_page (kv_layout b) p"
  shows "\<exists>ids. empty_bundles b pages = Inr ids \<and> distinct ids
     \<and> (\<forall>i. i \<in> set ids \<longleftrightarrow> i \<in> set (dict_keys (kv_bundles b)) \<and> floor_bundles (profile (kv_layout b)) \<le> i
          \<and> (\<forall>p. valid_page (kv_layout b) p \<and> touches (kv_layout b) p i \<longrightarrow> p \<in> set pages))"
  using KvVmmLayout_ok [OF assms(1,2)] assms(3-6) by (intro empty_bundles_correct) auto

lemma empty_bundles_exact_witness:
  "let raw = \<lparr>lay_cuda_index = Some 0, itemsize = 1, shape = [6, 2], tokens_per_row = 1, token_page_size = 1, layer_count = 1,
              buffers_per_layer = 1, mapping_granularity_bytes = 4, profile = \<lparr>bundle_bytes = 0, bundle_capacity = 0, floor_bundles = 0\<rparr>\<rparr>;
       b = \<lparr>kv_layout = raw\<lparr>profile := \<lparr>bundle_bytes = 4, bundle_capacity = 3, floor_bundles = 1\<rparr>\<rparr>, kv_base = 4096,
            kv_bundles = [(0, True), (2, True), (1, True)]\<rparr>
   in (\<exists>ids. empty_bundles b [5, 3, 2] = Inr ids \<and> set ids = {1})"
proof -
  let ?raw = "\<lparr>lay_cuda_index = Some 0, itemsize = 1, shape = [6, 2], tokens_per_row = 1, token_page_size = 1, layer_count = 1,
              buffers_per_layer = 1, mapping_granularity_bytes = 4, profile = \<lparr>bundle_bytes = 0, bundle_capacity = 0, floor_bundles = 0\<rparr>\<rparr>"
  let ?b = "\<lparr>kv_layout = ?raw\<lparr>profile := \<lparr>bundle_bytes = 4, bundle_capacity = 3, floor_bundles = 1\<rparr>\<rparr>, kv_base = 4096,
            kv_bundles = [(0, True), (2, True), (1, True)]\<rparr>"
  have a: "KvVmmLayout ?raw = Inr (kv_layout ?b)" by code_simp
  obtain ids where ids: "empty_bundles ?b [5, 3, 2] = Inr ids"
    using empty_bundles_exact [OF a, of "[5, 3, 2]"]
    by (auto simp: bundles_in_range_def valid_page_def past_page_def token_capacity_def)
  moreover have "empty_bundles ?b [5, 3, 2] = Inr [1]" by code_simp
  ultimately show ?thesis by (simp add: Let_def)
qed

end
