(* ===== verification/Kv_Allocator.thy ===== *)
theory Kv_Allocator
  imports Kv_Pages "HOL-Library.Multiset"
begin

section \<open>Resident free pages\<close>

text \<open>
  \<^verbatim>\<open>xpool/integrations/sglang/ecs/allocator.py\<close>: the free pages of one component, split into pages with complete
  backing and unavailable ones, with the pages a pending retirement withdrew. The serving engine owns
  allocation, sorting and deferred frees; its operations enter as the record \<open>engine_allocator\<close>, and
  \<open>engine_ok\<close> states what the elastic allocators rely on.
\<close>

datatype child_kind = TokenChild | PagedChild

text \<open>
  The fields of both children, \<open>pool_pages\<close> standing for \<^verbatim>\<open>size // page_size\<close>: the token allocator defers frees in \<^verbatim>\<open>release_pages\<close>, the paged one in
  \<^verbatim>\<open>staged_pages\<close>.
\<close>

record page_allocator =
  child_kind :: child_kind
  page_size :: int
  pool_pages :: int
  need_sort :: bool
  free_pages :: "int list"
  release_pages :: "int list"
  staged_pages :: "int list list"
  num_staged_pages :: int
  unavailable_pages :: "int list"
  retiring_pages :: "int list"

text \<open>The inherited methods of the engine.\<close>

record 'q engine_allocator =
  base_clear :: "page_allocator \<Rightarrow> page_allocator"
  get_all_free_pages :: "page_allocator \<Rightarrow> int list"
  free_page_ids :: "int list \<Rightarrow> page_allocator \<Rightarrow> page_allocator"
  available_size :: "page_allocator \<Rightarrow> int"
  merge_and_sort_free :: "page_allocator \<Rightarrow> page_allocator"
  base_alloc :: "'q \<Rightarrow> page_allocator \<Rightarrow> int list option \<times> page_allocator"

text \<open>Boolean masks and slices of tensors.\<close>

definition masked :: "bool list \<Rightarrow> 'a list \<Rightarrow> 'a list" where
  "masked marks xs = map snd (filter fst (zip marks xs))"

definition slice_upto :: "int \<Rightarrow> 'a list \<Rightarrow> 'a list" where
  "slice_upto n xs = take (nat (if n < 0 then n + int (length xs) else n)) xs"

subsection \<open>Operations\<close>

definition clear_pages :: "'q engine_allocator \<Rightarrow> kv_backing \<Rightarrow> (page_allocator, unit) op" where
  "clear_pages eng b a =
     (if retiring_pages a \<noteq> []
      then raise (RuntimeError ''xpool elastic context state cannot clear an allocator during retirement'') a
      else let a1 = base_clear eng a
           in case missing_bundle_counts b (free_pages a1) of
                Inl e \<Rightarrow> raise e a1
              | Inr counts \<Rightarrow>
                  let resident = map (\<lambda>n. n = 0) counts
                  in ret () (a1\<lparr>unavailable_pages := masked (map Not resident) (free_pages a1),
                                free_pages := masked resident (free_pages a1)\<rparr>))"

record page_plan =
  plan_page_ids :: "int list"
  missing_bundle_ids :: "int list"

text \<open>The unavailable pages that no pending retirement holds.\<close>

definition publishable :: "page_allocator \<Rightarrow> int list" where
  "publishable a = filter (\<lambda>p. p \<notin> set (retiring_pages a)) (unavailable_pages a)"

text \<open>Pages with some backing come first, in stable page order.\<close>

definition prefer_partial :: "kv_backing \<Rightarrow> int list \<Rightarrow> int list result" where
  "prefer_partial b candidates =
     (let ordered = sort candidates; spans = map (bundle_span (kv_layout b)) ordered
      in rbind (missing_bundle_counts b ordered) (\<lambda>counts.
           let partial = map2 (\<lambda>n s. n < snd s - fst s) counts spans
           in Inr (map snd (sort_key (\<lambda>(p, _). if p then (0::nat) else 1) (zip partial ordered)))))"

text \<open>The bundles the given pages touch and the backing lacks.\<close>

definition missing_ids :: "kv_backing \<Rightarrow> int list \<Rightarrow> int list result" where
  "missing_ids b page_ids =
     rbind (page_cover (kv_layout b) page_ids) (\<lambda>cover.
     rbind (index_put (map (\<lambda>n. if n > 0 then 1 else 0) cover) (dict_keys (kv_bundles b)) 0) (\<lambda>touched.
       Inr (map int (filter (\<lambda>i. touched ! i \<noteq> 0) [0..<length touched]))))"

definition plan_pages :: "'q engine_allocator \<Rightarrow> kv_backing \<Rightarrow> page_allocator \<Rightarrow> int \<Rightarrow> page_plan option result" where
  "plan_pages eng b a page_count =
     (let resident = get_all_free_pages eng a; candidates = publishable a
      in if page_count \<le> int (length resident)
         then Inr (Some \<lparr>plan_page_ids = slice_upto page_count resident, missing_bundle_ids = []\<rparr>)
         else if int (length resident) + int (length candidates) < page_count then Inr None
         else rbind (prefer_partial b candidates) (\<lambda>preferred.
                let selected = slice_upto (page_count - int (length resident)) preferred
                in rbind (missing_ids b selected) (\<lambda>missing.
                     Inr (Some \<lparr>plan_page_ids = resident @ selected, missing_bundle_ids = missing\<rparr>))))"

definition publish_pages :: "'q engine_allocator \<Rightarrow> kv_backing \<Rightarrow> int list \<Rightarrow> (page_allocator, unit) op" where
  "publish_pages eng b page_ids a =
     (let pages = filter (\<lambda>p. p \<in> set page_ids) (unavailable_pages a)
      in if pages = [] then ret () a
         else if \<exists>p\<in>set pages. p \<in> set (retiring_pages a)
         then raise (RuntimeError ''xpool elastic context state cannot publish retiring pages'') a
         else case missing_bundle_counts b pages of
                Inl e \<Rightarrow> raise e a
              | Inr counts \<Rightarrow>
                  if \<exists>n\<in>set counts. n \<noteq> 0
                  then raise (RuntimeError ''xpool elastic context state cannot publish incompletely backed pages'') a
                  else ret () (free_page_ids eng pages
                                 (a\<lparr>unavailable_pages := filter (\<lambda>p. p \<notin> set page_ids) (unavailable_pages a)\<rparr>)))"

definition intersecting_pages :: "kv_backing \<Rightarrow> int list \<Rightarrow> int list \<Rightarrow> bool list result" where
  "intersecting_pages b page_ids bundle_ids =
     rbind (index_put (replicate (nat (bundle_capacity (profile (kv_layout b)))) 0) bundle_ids 1) (\<lambda>selected.
       let prefix = 0 # cumsum selected; spans = map (bundle_span (kv_layout b)) page_ids
       in rbind (gather prefix (map snd spans)) (\<lambda>at_ends.
          rbind (gather prefix (map fst spans)) (\<lambda>at_starts.
            Inr (map2 (\<noteq>) at_ends at_starts))))"

text \<open>\<^verbatim>\<open>ElasticPageAllocator.begin_retirement\<close>.\<close>

definition withdraw_pages :: "'q engine_allocator \<Rightarrow> kv_backing \<Rightarrow> int list \<Rightarrow> (page_allocator, unit) op" where
  "withdraw_pages eng b bundle_ids a =
     (if retiring_pages a \<noteq> []
      then raise (RuntimeError ''xpool elastic context state allocator already has a pending retirement'') a
      else let exposed = get_all_free_pages eng a; pages = exposed @ unavailable_pages a
           in case intersecting_pages b pages bundle_ids of
                Inl e \<Rightarrow> raise e a
              | Inr marks \<Rightarrow>
                  (case intersecting_pages b exposed bundle_ids of
                     Inl e \<Rightarrow> raise e (a\<lparr>retiring_pages := masked marks pages\<rparr>)
                   | Inr hit \<Rightarrow>
                       ret () (a\<lparr>retiring_pages := masked marks pages,
                                 unavailable_pages := unavailable_pages a @ masked hit exposed\<rparr>)))"

text \<open>Both children then drop the withdrawn pages from their own containers.\<close>

definition without :: "kv_backing \<Rightarrow> int list \<Rightarrow> int list \<Rightarrow> int list result" where
  "without b bundle_ids pages = rbind (intersecting_pages b pages bundle_ids) (\<lambda>marks. Inr (masked (map Not marks) pages))"

definition begin_retirement :: "'q engine_allocator \<Rightarrow> kv_backing \<Rightarrow> int list \<Rightarrow> (page_allocator, unit) op" where
  "begin_retirement eng b bundle_ids =
     bind (withdraw_pages eng b bundle_ids) (\<lambda>_.
     bind (reading (\<lambda>a. without b bundle_ids (free_pages a))) (\<lambda>kept.
     bind (modify (\<lambda>a. a\<lparr>free_pages := kept\<rparr>)) (\<lambda>_.
     bind get_state (\<lambda>a.
       case child_kind a of
         TokenChild \<Rightarrow>
           bind (lift_result (without b bundle_ids (release_pages a))) (\<lambda>deferred.
             modify (\<lambda>a. a\<lparr>release_pages := deferred\<rparr>))
       | PagedChild \<Rightarrow>
           bind (lift_result (rmap (without b bundle_ids) (staged_pages a))) (\<lambda>staged.
             modify (\<lambda>a. a\<lparr>staged_pages := staged, num_staged_pages := int (sum_list (map length staged))\<rparr>))))))"

definition end_retirement :: "page_allocator \<Rightarrow> page_allocator" where
  "end_retirement a = a\<lparr>retiring_pages := []\<rparr>"

text \<open>
  The allocation entry points. \<open>threshold\<close> is the free-page count below which a method merges the deferred
  frees first: \<^verbatim>\<open>need_size\<close> for tokens, \<^verbatim>\<open>need_size // page_size\<close>, the extend estimate and the batch size for
  pages. The result holds the locations and the pages actually consumed.
\<close>

definition merges_first :: "page_allocator \<Rightarrow> int \<Rightarrow> bool" where
  "merges_first a threshold \<longleftrightarrow>
     (case child_kind a of TokenChild \<Rightarrow> need_sort a | PagedChild \<Rightarrow> True) \<and> threshold > int (length (free_pages a))"

definition record_acquisition :: "bool \<Rightarrow> int list \<Rightarrow> int list option \<Rightarrow> page_allocator \<Rightarrow> int list option" where
  "record_acquisition in_phase before locations a =
     (if locations \<noteq> None \<and> in_phase then Some (slice_upto (int (length before) - int (length (free_pages a))) before) else None)"

definition alloc_pages ::
    "'q engine_allocator \<Rightarrow> bool \<Rightarrow> int \<Rightarrow> 'q \<Rightarrow> page_allocator \<Rightarrow> int list option \<times> int list option \<times> page_allocator" where
  "alloc_pages eng in_phase threshold request a =
     (let a1 = (if merges_first a threshold then merge_and_sort_free eng a else a);
          before = free_pages a1
      in case base_alloc eng request a1 of
           (locations, a2) \<Rightarrow> (locations, record_acquisition in_phase before locations a2, a2))"

definition alloc_threshold :: "page_allocator \<Rightarrow> int \<Rightarrow> int" where
  "alloc_threshold a need_size = (case child_kind a of TokenChild \<Rightarrow> need_size | PagedChild \<Rightarrow> need_size div page_size a)"

definition extend_threshold :: "page_allocator \<Rightarrow> int \<Rightarrow> int \<Rightarrow> int" where
  "extend_threshold a extend_num_tokens prefixes = extend_num_tokens div page_size a + prefixes + 1"

section \<open>What the engine promises\<close>

text \<open>The pages the engine may hand out, immediately or after a merge.\<close>

definition exposed :: "page_allocator \<Rightarrow> int list" where
  "exposed a = free_pages a @ release_pages a @ concat (staged_pages a)"

definition elastic_part :: "page_allocator \<Rightarrow> child_kind \<times> int \<times> int \<times> bool \<times> int list \<times> int list" where
  "elastic_part a = (child_kind a, page_size a, pool_pages a, need_sort a, unavailable_pages a, retiring_pages a)"

text \<open>Each child has its own deferral container only.\<close>

definition child_shape :: "page_allocator \<Rightarrow> bool" where
  "child_shape a \<longleftrightarrow> 0 < page_size a
     \<and> (case child_kind a of TokenChild \<Rightarrow> staged_pages a = [] | PagedChild \<Rightarrow> release_pages a = [])"

text \<open>
  Documented behaviour of the engine's allocators: the free-page view lists the containers, released pages
  enter them, merging permutes them, an allocation takes a prefix of \<^verbatim>\<open>free_pages\<close> or nothing, and none of them
  touches the elastic fields.
\<close>

definition engine_ok :: "'q engine_allocator \<Rightarrow> bool" where
  "engine_ok eng \<longleftrightarrow>
     (\<forall>a. child_shape a \<longrightarrow>
        mset (get_all_free_pages eng a) = mset (exposed a)
        \<and> available_size eng a = int (length (exposed a)) * page_size a
        \<and> (\<forall>ps. mset (exposed (free_page_ids eng ps a)) = mset (exposed a) + mset ps
              \<and> elastic_part (free_page_ids eng ps a) = elastic_part a \<and> child_shape (free_page_ids eng ps a))
        \<and> free_pages (base_clear eng a) = [1..pool_pages a] \<and> exposed (base_clear eng a) = free_pages (base_clear eng a)
        \<and> elastic_part (base_clear eng a) = elastic_part a \<and> child_shape (base_clear eng a)
        \<and> mset (exposed (merge_and_sort_free eng a)) = mset (exposed a)
        \<and> elastic_part (merge_and_sort_free eng a) = elastic_part a \<and> child_shape (merge_and_sort_free eng a)
        \<and> (\<forall>req. case base_alloc eng req a of
               (None, a') \<Rightarrow> mset (exposed a') = mset (exposed a) \<and> elastic_part a' = elastic_part a \<and> child_shape a'
             | (Some _, a') \<Rightarrow> (\<exists>k\<le>length (free_pages a). a' = a\<lparr>free_pages := drop k (free_pages a)\<rparr>)))"

lemma engine_rules:
  assumes "engine_ok eng" and "child_shape a"
  shows "mset (get_all_free_pages eng a) = mset (exposed a)"
    and "available_size eng a = int (length (exposed a)) * page_size a"
    and "mset (exposed (free_page_ids eng ps a)) = mset (exposed a) + mset ps"
    and "elastic_part (free_page_ids eng ps a) = elastic_part a"
    and "child_shape (free_page_ids eng ps a)"
    and "free_pages (base_clear eng a) = [1..pool_pages a]"
    and "exposed (base_clear eng a) = free_pages (base_clear eng a)"
    and "elastic_part (base_clear eng a) = elastic_part a"
    and "child_shape (base_clear eng a)"
    and "mset (exposed (merge_and_sort_free eng a)) = mset (exposed a)"
    and "elastic_part (merge_and_sort_free eng a) = elastic_part a"
    and "child_shape (merge_and_sort_free eng a)"
    and "base_alloc eng req a = (None, a') \<Longrightarrow> mset (exposed a') = mset (exposed a) \<and> elastic_part a' = elastic_part a \<and> child_shape a'"
    and "base_alloc eng req a = (Some locations, a') \<Longrightarrow>
      \<exists>k\<le>length (free_pages a). a' = a\<lparr>free_pages := drop k (free_pages a)\<rparr>"
proof -
  note now = assms(1) [unfolded engine_ok_def, rule_format, OF assms(2)]
  show "mset (get_all_free_pages eng a) = mset (exposed a)" "available_size eng a = int (length (exposed a)) * page_size a"
    "mset (exposed (free_page_ids eng ps a)) = mset (exposed a) + mset ps"
    "elastic_part (free_page_ids eng ps a) = elastic_part a" "child_shape (free_page_ids eng ps a)"
    "free_pages (base_clear eng a) = [1..pool_pages a]" "exposed (base_clear eng a) = free_pages (base_clear eng a)"
    "elastic_part (base_clear eng a) = elastic_part a" "child_shape (base_clear eng a)"
    "mset (exposed (merge_and_sort_free eng a)) = mset (exposed a)"
    "elastic_part (merge_and_sort_free eng a) = elastic_part a" "child_shape (merge_and_sort_free eng a)"
    using now by blast+
  from now have each: "\<forall>req. case base_alloc eng req a of
               (None, a') \<Rightarrow> mset (exposed a') = mset (exposed a) \<and> elastic_part a' = elastic_part a \<and> child_shape a'
             | (Some _, a') \<Rightarrow> (\<exists>k\<le>length (free_pages a). a' = a\<lparr>free_pages := drop k (free_pages a)\<rparr>)"
    by (elim conjE) assumption
  show "mset (exposed a') = mset (exposed a) \<and> elastic_part a' = elastic_part a \<and> child_shape a'"
    if "base_alloc eng req a = (None, a')" using spec [OF each, of req] that by simp
  show "\<exists>k\<le>length (free_pages a). a' = a\<lparr>free_pages := drop k (free_pages a)\<rparr>"
    if "base_alloc eng req a = (Some locations, a')" using spec [OF each, of req] that by simp
qed

section \<open>Masks\<close>

lemma masked_map: "masked (map f xs) xs = filter f xs"
  by (induction xs) (simp_all add: masked_def)

lemma masked_not_map: "masked (map Not (map f xs)) xs = filter (\<lambda>x. \<not> f x) xs"
  using masked_map [of "\<lambda>x. \<not> f x" xs] by (simp add: comp_def)

text \<open>The pages marked are those touching a named bundle.\<close>

definition hits :: "kv_backing \<Rightarrow> int list \<Rightarrow> int \<Rightarrow> bool" where
  "hits b bundle_ids p \<longleftrightarrow> (\<exists>i\<in>set bundle_ids. touches (kv_layout b) p i)"

lemma intersecting_exact:
  assumes "geometry_ok (kv_layout b)" and "\<forall>i\<in>set ids. 0 \<le> i \<and> i < bundle_capacity (profile (kv_layout b))"
    and "\<forall>p\<in>set pages. valid_page (kv_layout b) p"
  shows "intersecting_pages b pages ids = Inr (map (hits b ids) pages)"
proof -
  let ?lay = "kv_layout b"
  let ?cap = "nat (bundle_capacity (profile ?lay))"
  have range: "\<forall>i\<in>set ids. 0 \<le> i \<and> i < int (length (replicate ?cap (0::int)))"
    using assms(2) capacity_pos [OF assms(1)] by simp
  obtain chosen where chosen: "index_put (replicate ?cap 0) ids 1 = Inr chosen" "length chosen = ?cap"
    "\<forall>j<length chosen. chosen ! j = (if int j \<in> set ids then 1 else 0)"
    using index_put_nth [OF range, of 1] by auto
  let ?prefix = "0 # cumsum chosen"
  have bounds: "0 \<le> fst (bundle_span ?lay p)" "fst (bundle_span ?lay p) \<le> snd (bundle_span ?lay p)"
    "snd (bundle_span ?lay p) \<le> int ?cap" if "p \<in> set pages" for p
    using span_bounds [OF assms(1), of p] assms(3) that unfolding capacity_pos(1) [OF assms(1)] by auto
  have gathers: "gather ?prefix (map snd (map (bundle_span ?lay) pages)) = Inr (map (\<lambda>p. ?prefix ! nat (snd (bundle_span ?lay p))) pages)"
    "gather ?prefix (map fst (map (bundle_span ?lay) pages)) = Inr (map (\<lambda>p. ?prefix ! nat (fst (bundle_span ?lay p))) pages)"
    by (subst gather_nth; use bounds chosen(2) in \<open>fastforce simp: comp_def\<close>)+
  have "?prefix ! nat (snd (bundle_span ?lay p)) \<noteq> ?prefix ! nat (fst (bundle_span ?lay p)) \<longleftrightarrow> hits b ids p"
    if "p \<in> set pages" for p
  proof -
    let ?in = "{i\<in>spanned ?lay p. i \<in> set ids}"
    have "?prefix ! nat (snd (bundle_span ?lay p)) - ?prefix ! nat (fst (bundle_span ?lay p)) = int (card ?in)"
      by (rule prefix_difference) (use chosen bounds [OF that] in simp_all)
    moreover have "finite ?in" by (rule finite_subset [of _ "spanned ?lay p"]) auto
    then have "card ?in = 0 \<longleftrightarrow> \<not> hits b ids p" by (auto simp: hits_def touches_def)
    ultimately show ?thesis by linarith
  qed
  then show ?thesis
    unfolding intersecting_pages_def chosen(1) Let_def rbind_simps gathers
    by (simp add: map2_map_map)
qed

lemma without_exact:
  assumes "geometry_ok (kv_layout b)" and "\<forall>i\<in>set ids. 0 \<le> i \<and> i < bundle_capacity (profile (kv_layout b))"
    and "\<forall>p\<in>set pages. valid_page (kv_layout b) p"
  shows "without b ids pages = Inr (filter (\<lambda>p. \<not> hits b ids p) pages)"
  unfolding without_def intersecting_exact [OF assms] rbind_simps masked_not_map ..

end
