(* ===== verification/Kv_Partition.thy ===== *)
theory Kv_Partition
  imports Kv_Allocator
begin

text \<open>
  Every logical page of a component is exposed, unavailable or owned, and each exposed or owned page is fully
  backed: the invariant of the elastic allocators, kept by planning, publication, retirement, allocation and
  release.
\<close>

section \<open>The partition of the logical pages\<close>

abbreviation bundle_keys :: "kv_backing \<Rightarrow> int set" where
  "bundle_keys b \<equiv> set (dict_keys (kv_bundles b))"

definition fully_backed :: "kv_backing \<Rightarrow> int \<Rightarrow> bool" where
  "fully_backed b p \<longleftrightarrow> (\<forall>i. touches (kv_layout b) p i \<longrightarrow> i \<in> bundle_keys b)"

definition backing_ok :: "kv_backing \<Rightarrow> bool" where
  "backing_ok b \<longleftrightarrow> geometry_ok (kv_layout b) \<and> bundles_in_range b \<and> distinct (dict_keys (kv_bundles b))"

text \<open>
  \<open>owned\<close> are the pages requests and the cache hold, \<open>pending\<close> the bundles of the retirement under way. Every
  valid page is free and exposed, unavailable, or owned, exactly one of these; exposed and owned pages are fully
  backed and clear of the pending bundles, whose remaining pages are all withdrawn.
\<close>

definition pages_inv :: "kv_backing \<Rightarrow> page_allocator \<Rightarrow> int list \<Rightarrow> int list \<Rightarrow> bool" where
  "pages_inv b a owned pending \<longleftrightarrow> backing_ok b \<and> child_shape a \<and> pool_pages a = past_page (kv_layout b) - 1
     \<and> distinct (exposed a @ unavailable_pages a @ owned)
     \<and> set (exposed a @ unavailable_pages a @ owned) = {p. valid_page (kv_layout b) p}
     \<and> set (retiring_pages a) \<subseteq> set (unavailable_pages a)
     \<and> (\<forall>p\<in>set (exposed a) \<union> set owned. fully_backed b p \<and> \<not> hits b pending p)
     \<and> (\<forall>p\<in>set (unavailable_pages a). hits b pending p \<longrightarrow> p \<in> set (retiring_pages a))
     \<and> (pending = [] \<longrightarrow> retiring_pages a = [])
     \<and> (\<forall>i\<in>set pending. floor_bundles (profile (kv_layout b)) \<le> i \<and> 0 \<le> i \<and> i < bundle_capacity (profile (kv_layout b)))"

lemma pages_invD:
  assumes "pages_inv b a owned pending"
  shows "backing_ok b" "geometry_ok (kv_layout b)" "bundles_in_range b" "child_shape a"
    "pool_pages a = past_page (kv_layout b) - 1"
    "distinct (exposed a @ unavailable_pages a @ owned)"
    "set (exposed a @ unavailable_pages a @ owned) = {p. valid_page (kv_layout b) p}"
    "set (retiring_pages a) \<subseteq> set (unavailable_pages a)"
    "p \<in> set (exposed a) \<union> set owned \<Longrightarrow> fully_backed b p \<and> \<not> hits b pending p"
    "p \<in> set (unavailable_pages a) \<Longrightarrow> hits b pending p \<Longrightarrow> p \<in> set (retiring_pages a)"
    "pending = [] \<Longrightarrow> retiring_pages a = []"
    "i \<in> set pending \<Longrightarrow> floor_bundles (profile (kv_layout b)) \<le> i \<and> 0 \<le> i \<and> i < bundle_capacity (profile (kv_layout b))"
  using assms unfolding pages_inv_def backing_ok_def by blast+

lemma valid_pages: "pages_inv b a owned pending \<Longrightarrow> p \<in> set (exposed a) \<union> set (unavailable_pages a) \<union> set owned \<Longrightarrow> valid_page (kv_layout b) p"
  using pages_invD(7) [of b a owned pending] by auto

lemma child_shape_elastic [simp]:
  "child_shape (a\<lparr>unavailable_pages := ps\<rparr>) = child_shape a" "child_shape (a\<lparr>retiring_pages := ps\<rparr>) = child_shape a"
  "child_shape (a\<lparr>free_pages := ps\<rparr>) = child_shape a"
  by (cases "child_kind a"; simp add: child_shape_def)+

lemma missing_counts_zero:
  assumes "backing_ok b" and "\<forall>p\<in>set pages. valid_page (kv_layout b) p"
  shows "\<exists>counts. missing_bundle_counts b pages = Inr counts \<and> map (\<lambda>n. n = 0) counts = map (fully_backed b) pages"
proof -
  have "geometry_ok (kv_layout b)" "bundles_in_range b" using assms(1) by (simp_all add: backing_ok_def)
  note exact = missing_bundle_counts_exact [OF this assms(2)]
  show ?thesis by (intro exI conjI, rule exact) (simp only: map_map comp_def no_missing_bundles fully_backed_def [abs_def])
qed

text \<open>Growing the backing keeps the partition.\<close>

lemma pages_inv_grow:
  assumes "pages_inv b a owned pending" and "backing_ok b'" and "kv_layout b' = kv_layout b" and "bundle_keys b \<subseteq> bundle_keys b'"
  shows "pages_inv b' a owned pending"
proof -
  have "hits b' = hits b" using assms(3) by (auto simp: hits_def fun_eq_iff)
  moreover have "fully_backed b p \<Longrightarrow> fully_backed b' p" for p using assms(3,4) unfolding fully_backed_def by auto
  ultimately show ?thesis using assms(1,2) unfolding pages_inv_def assms(3) by simp
qed

text \<open>Publishing moves unavailable pages with complete backing to the exposed ones, or changes nothing.\<close>

lemma publish_pages_effect:
  assumes "engine_ok eng" and "pages_inv b a owned pending" and "publish_pages eng b ids a = (r, a')"
  shows "pages_inv b a' owned pending \<and> page_size a' = page_size a \<and> retiring_pages a' = retiring_pages a
     \<and> (r \<noteq> Inr () \<longrightarrow> a' = a)
     \<and> (r = Inr () \<longrightarrow> set (unavailable_pages a') = set (unavailable_pages a) - set ids
          \<and> mset (exposed a') = mset (exposed a) + mset (filter (\<lambda>p. p \<in> set ids) (unavailable_pages a)))"
proof -
  define pages where "pages = filter (\<lambda>p. p \<in> set ids) (unavailable_pages a)"
  define rest where "rest = filter (\<lambda>p. p \<notin> set ids) (unavailable_pages a)"
  have pages: "p \<in> set pages \<Longrightarrow> p \<in> set (unavailable_pages a) \<and> p \<in> set ids" for p by (simp add: pages_def)
  have set_rest: "set rest = set (unavailable_pages a) - set ids" by (auto simp: rest_def)
  note inv = pages_invD [OF assms(2)]
  note run = assms(3) [unfolded publish_pages_def Let_def, folded pages_def rest_def]
  consider (none) "pages = []" "a' = a" "r = Inr ()" | (refused) "a' = a" "r \<noteq> Inr ()"
    | (published) "\<forall>p\<in>set pages. p \<notin> set (retiring_pages a)" "\<exists>counts. missing_bundle_counts b pages = Inr counts \<and> (\<forall>n\<in>set counts. n = 0)"
        "r = Inr ()" "a' = free_page_ids eng pages (a\<lparr>unavailable_pages := rest\<rparr>)"
  proof (cases "pages = [] \<or> (\<exists>p\<in>set pages. p \<in> set (retiring_pages a))")
    case True
    then show ?thesis using run that(1,2) by (auto simp: ret_def raise_def split: if_splits)
  next
    case False
    show ?thesis
    proof (cases "missing_bundle_counts b pages")
      case (Inl e)
      then show ?thesis using run False that(2) by (auto simp: raise_def)
    next
      case (Inr counts)
      show ?thesis
      proof (cases "\<exists>n\<in>set counts. n \<noteq> 0")
        case True
        then show ?thesis using run False Inr that(2) by (auto simp: raise_def)
      next
        case zero: False
        have "a' = free_page_ids eng pages (a\<lparr>unavailable_pages := rest\<rparr>)" "r = Inr ()"
          using run False Inr zero by (simp_all add: ret_def)
        then show ?thesis using that(3) False Inr zero by blast
      qed
    qed
  qed
  then show ?thesis
  proof cases
    case none
    then have "set (unavailable_pages a) \<inter> set ids = {}" by (auto simp: pages_def filter_empty_conv)
    then show ?thesis using assms(2) none unfolding pages_def [symmetric] by auto
  next
    case refused
    then show ?thesis using assms(2) by simp
  next
    case published
    let ?a1 = "a\<lparr>unavailable_pages := rest\<rparr>"
    have shape: "child_shape ?a1" using inv(4) by simp
    note eng = engine_rules [OF assms(1) shape]
    have fields: "unavailable_pages a' = rest" "retiring_pages a' = retiring_pages a" "pool_pages a' = pool_pages a"
      "page_size a' = page_size a"
      using eng(4) [of pages] published(4) by (auto simp: elastic_part_def)
    have ms: "mset (exposed a') = mset (exposed a) + mset pages"
      using eng(3) [of pages] published(4) by (simp add: exposed_def)
    have split: "mset (unavailable_pages a) = mset pages + mset rest" by (simp add: pages_def rest_def)
    have whole: "mset (exposed a' @ unavailable_pages a' @ owned) = mset (exposed a @ unavailable_pages a @ owned)"
      unfolding mset_append fields(1) ms by (subst split) (simp add: ac_simps)
    have set_exposed: "set (exposed a') = set (exposed a) \<union> set pages" using ms by (metis set_append set_mset_mset mset_append)
    have backed: "fully_backed b p" if "p \<in> set pages" for p
    proof -
      have "\<forall>p\<in>set pages. valid_page (kv_layout b) p" using valid_pages [OF assms(2)] pages by blast
      then obtain counts where counts: "missing_bundle_counts b pages = Inr counts" "map (\<lambda>n. n = 0) counts = map (fully_backed b) pages"
        using missing_counts_zero [OF inv(1)] by blast
      have "False \<notin> set (map (\<lambda>n. n = 0) counts)" using counts(1) published(2) by auto
      then show ?thesis unfolding counts(2) using that by force
    qed
    have hit: "\<not> hits b pending p" if "p \<in> set pages" for p
      using inv(10) [of p] pages that published(1) by blast
    have "pages_inv b a' owned pending"
      unfolding pages_inv_def fields set_exposed
    proof (intro conjI)
      show "child_shape a'" using eng(5) published(4) by simp
      show "distinct (exposed a' @ rest @ owned)"
        using inv(6) mset_eq_imp_distinct_iff [OF whole] fields(1) by simp
      show "set (exposed a' @ rest @ owned) = {p. valid_page (kv_layout b) p}"
        using inv(7) mset_eq_setD [OF whole] fields(1) by simp
      show "set (retiring_pages a) \<subseteq> set rest" using inv(8) published(1) unfolding set_rest by (auto simp: pages_def)
      show "\<forall>p\<in>set (exposed a) \<union> set pages \<union> set owned. fully_backed b p \<and> \<not> hits b pending p"
        using inv(9) backed hit by blast
      show "\<forall>p\<in>set rest. hits b pending p \<longrightarrow> p \<in> set (retiring_pages a)" using inv(10) unfolding set_rest by blast
    qed (use inv in simp_all)
    then show ?thesis using published(3) fields ms set_rest unfolding pages_def by simp
  qed
qed

section \<open>Retirement\<close>

lemma filter_mset_split: "mset (filter P xs) + mset (filter (\<lambda>x. \<not> P x) xs) = mset xs"
  by (simp add: multiset_partition [symmetric])

lemma exposed_filtered:
  assumes "child_shape a"
  shows "child_kind a = TokenChild \<Longrightarrow>
      exposed (a\<lparr>free_pages := filter P (free_pages a), release_pages := filter P (release_pages a)\<rparr>) = filter P (exposed a)"
    and "child_kind a = PagedChild \<Longrightarrow>
      exposed (a\<lparr>free_pages := filter P (free_pages a), staged_pages := map (filter P) (staged_pages a)\<rparr>) = filter P (exposed a)"
  using assms by (simp_all add: child_shape_def exposed_def filter_concat)

text \<open>Withdrawing succeeds and leaves every container of the engine clear of the chosen bundles.\<close>

lemma begin_retirement_run:
  assumes "engine_ok eng" and "pages_inv b a owned []"
    and "\<forall>i\<in>set ids. 0 \<le> i \<and> i < bundle_capacity (profile (kv_layout b))"
  shows "\<exists>a'. begin_retirement eng b ids a = (Inr (), a') \<and> exposed a' = filter (\<lambda>p. \<not> hits b ids p) (exposed a)
     \<and> unavailable_pages a' = unavailable_pages a @ filter (hits b ids) (get_all_free_pages eng a)
     \<and> retiring_pages a' = filter (hits b ids) (get_all_free_pages eng a @ unavailable_pages a)
     \<and> child_shape a' \<and> pool_pages a' = pool_pages a \<and> page_size a' = page_size a"
proof -
  note inv = pages_invD [OF assms(2)]
  let ?e = "get_all_free_pages eng a" and ?out = "\<lambda>p. \<not> hits b ids p"
  have e: "set ?e = set (exposed a)" using engine_rules(1) [OF assms(1) inv(4)] by (rule mset_eq_setD)
  have hit: "intersecting_pages b ps ids = Inr (map (hits b ids) ps)" if "set ps \<subseteq> set (exposed a) \<union> set (unavailable_pages a)" for ps
    using valid_pages [OF assms(2)] that by (intro intersecting_exact inv(2) assms(3)) blast
  have out: "without b ids ps = Inr (filter ?out ps)" if "set ps \<subseteq> set (exposed a)" for ps
    using valid_pages [OF assms(2)] that by (intro without_exact inv(2) assms(3)) blast
  let ?w = "a\<lparr>retiring_pages := filter (hits b ids) (?e @ unavailable_pages a),
              unavailable_pages := unavailable_pages a @ filter (hits b ids) ?e\<rparr>"
  have hits_e: "intersecting_pages b ?e ids = Inr (map (hits b ids) ?e)"
    "intersecting_pages b (?e @ unavailable_pages a) ids = Inr (map (hits b ids) (?e @ unavailable_pages a))"
    by (rule hit, simp add: e)+
  have w: "withdraw_pages eng b ids a = (Inr (), ?w)"
    using inv(11) unfolding withdraw_pages_def Let_def hits_e by (simp only: masked_map sum.case ret_def) simp
  have parts: "set (free_pages a) \<subseteq> set (exposed a)" "set (release_pages a) \<subseteq> set (exposed a)"
    "ps \<in> set (staged_pages a) \<Longrightarrow> set ps \<subseteq> set (exposed a)" for ps
    by (auto simp: exposed_def)
  have staged: "rmap (without b ids) (staged_pages a) = Inr (map (filter ?out) (staged_pages a))"
    using parts(3) by (intro rmap_all_Inr out)
  show ?thesis
  proof (cases "child_kind a")
    case TokenChild
    let ?a' = "?w\<lparr>free_pages := filter ?out (free_pages a), release_pages := filter ?out (release_pages a)\<rparr>"
    have "begin_retirement eng b ids a = (Inr (), ?a')"
      unfolding begin_retirement_def bind_def w
      by (simp add: reading_def modify_def get_state_def lift_result_def out [OF parts(1)] out [OF parts(2)] TokenChild)
    moreover have "exposed ?a' = filter ?out (exposed a)" "child_shape ?a'"
      using exposed_filtered(1) [OF inv(4) TokenChild, of ?out] inv(4) TokenChild by (simp_all add: exposed_def child_shape_def)
    ultimately show ?thesis by (intro exI [of _ ?a']) simp
  next
    case PagedChild
    let ?staged = "map (filter ?out) (staged_pages a)"
    let ?a' = "?w\<lparr>free_pages := filter ?out (free_pages a), staged_pages := ?staged, num_staged_pages := int (sum_list (map length ?staged))\<rparr>"
    have "begin_retirement eng b ids a = (Inr (), ?a')"
      unfolding begin_retirement_def bind_def w
      by (simp add: reading_def modify_def get_state_def lift_result_def out [OF parts(1)] staged PagedChild)
    moreover have "exposed ?a' = filter ?out (exposed a)" "child_shape ?a'"
      using exposed_filtered(2) [OF inv(4) PagedChild, of ?out] inv(4) PagedChild by (simp_all add: exposed_def child_shape_def)
    ultimately show ?thesis by (intro exI [of _ ?a']) simp
  qed
qed

lemma begin_retirement_effect:
  assumes "engine_ok eng" and "pages_inv b a owned []"
    and "\<forall>i\<in>set ids. floor_bundles (profile (kv_layout b)) \<le> i \<and> 0 \<le> i \<and> i < bundle_capacity (profile (kv_layout b))"
    and "\<forall>p\<in>set owned. \<not> hits b ids p" and "ids \<noteq> []"
  shows "\<exists>a'. begin_retirement eng b ids a = (Inr (), a') \<and> pages_inv b a' owned ids \<and> page_size a' = page_size a"
proof -
  note inv = pages_invD [OF assms(2)]
  let ?e = "get_all_free_pages eng a"
  obtain a' where a': "begin_retirement eng b ids a = (Inr (), a')" "exposed a' = filter (\<lambda>p. \<not> hits b ids p) (exposed a)"
    "unavailable_pages a' = unavailable_pages a @ filter (hits b ids) ?e"
    "retiring_pages a' = filter (hits b ids) (?e @ unavailable_pages a)" "child_shape a'" "pool_pages a' = pool_pages a"
    "page_size a' = page_size a"
    using begin_retirement_run [OF assms(1,2)] assms(3) by blast
  have e: "mset ?e = mset (exposed a)" using engine_rules(1) [OF assms(1) inv(4)] .
  have parts: "mset (exposed a) = mset (exposed a') + mset (filter (hits b ids) ?e)"
    using e filter_mset_split [of "hits b ids" "exposed a"] unfolding a'(2) by (simp add: add.commute)
  have whole: "mset (exposed a' @ unavailable_pages a' @ owned) = mset (exposed a @ unavailable_pages a @ owned)"
    unfolding a'(3) mset_append parts by (simp only: ac_simps)
  have "pages_inv b a' owned ids"
    unfolding pages_inv_def
  proof (intro conjI)
    show "distinct (exposed a' @ unavailable_pages a' @ owned)" using inv(6) mset_eq_imp_distinct_iff [OF whole] by blast
    show "set (exposed a' @ unavailable_pages a' @ owned) = {p. valid_page (kv_layout b) p}" using inv(7) mset_eq_setD [OF whole] by blast
    show "\<forall>p\<in>set (exposed a') \<union> set owned. fully_backed b p \<and> \<not> hits b ids p" using inv(9) assms(4) unfolding a'(2) by auto
    have "set ?e = set (exposed a)" using e by (rule mset_eq_setD)
    then show "set (retiring_pages a') \<subseteq> set (unavailable_pages a')" unfolding a'(3,4) by auto
    show "\<forall>p\<in>set (unavailable_pages a'). hits b ids p \<longrightarrow> p \<in> set (retiring_pages a')" unfolding a'(3,4) by auto
  qed (use inv(1,5) a'(5,6) assms(3,5) in auto)
  then show ?thesis using a' by blast
qed

text \<open>Once the bundles are unmapped the retirement ends; pages in use were clear of them.\<close>

lemma retirement_done:
  assumes "pages_inv b a owned pending" and "backing_ok b'" and "kv_layout b' = kv_layout b"
    and "bundle_keys b - set pending \<subseteq> bundle_keys b'"
  shows "pages_inv b' (end_retirement a) owned []"
proof -
  note inv = pages_invD [OF assms(1)]
  have "fully_backed b' p" if "p \<in> set (exposed a) \<union> set owned" for p
    using inv(9) [OF that] assms(3,4) unfolding fully_backed_def hits_def by auto
  then show ?thesis using inv assms(2,3) unfolding pages_inv_def
    by (auto simp: end_retirement_def exposed_def hits_def)
qed

text \<open>An unmap that stops half way keeps every page in use backed, with the retirement still pending.\<close>

lemma retirement_kept:
  assumes "pages_inv b a owned pending" and "backing_ok b'" and "kv_layout b' = kv_layout b"
    and "bundle_keys b - set pending \<subseteq> bundle_keys b'"
  shows "pages_inv b' a owned pending"
proof -
  note inv = pages_invD [OF assms(1)]
  have "fully_backed b' p" if "p \<in> set (exposed a) \<union> set owned" for p
    using inv(9) [OF that] assms(3,4) unfolding fully_backed_def hits_def by auto
  moreover have "hits b' = hits b" using assms(3) by (auto simp: hits_def fun_eq_iff)
  ultimately show ?thesis using assms(1,2) unfolding pages_inv_def assms(3) by simp
qed

section \<open>Allocation, release and reset\<close>

lemma pages_inv_exposed:
  assumes "pages_inv b a owned pending" and "elastic_part a' = elastic_part a" and "child_shape a'"
    and "mset (exposed a' @ owned') = mset (exposed a @ owned)"
  shows "pages_inv b a' owned' pending"
proof -
  note inv = pages_invD [OF assms(1)]
  have fields: "unavailable_pages a' = unavailable_pages a" "retiring_pages a' = retiring_pages a" "pool_pages a' = pool_pages a"
    using assms(2) by (auto simp: elastic_part_def)
  have whole: "mset (exposed a' @ unavailable_pages a @ owned') = mset (exposed a @ unavailable_pages a @ owned)"
    using assms(4) unfolding mset_append by (metis union_assoc union_commute)
  have used: "set (exposed a') \<union> set owned' = set (exposed a) \<union> set owned"
    using mset_eq_setD [OF assms(4)] by simp
  show ?thesis
    unfolding pages_inv_def fields used
  proof (intro conjI)
    show "distinct (exposed a' @ unavailable_pages a @ owned')" using inv(6) mset_eq_imp_distinct_iff [OF whole] by blast
    show "set (exposed a' @ unavailable_pages a @ owned') = {p. valid_page (kv_layout b) p}" using inv(7) mset_eq_setD [OF whole] by blast
  qed (use inv assms(3) in simp_all)
qed

text \<open>An allocation turns exposed pages into owned ones, and the journal receives exactly these.\<close>

lemma alloc_pages_effect:
  assumes "engine_ok eng" and "pages_inv b a owned pending" and "alloc_pages eng in_phase threshold req a = (locations, journal, a')"
  shows "\<exists>taken. pages_inv b a' (taken @ owned) pending \<and> mset (exposed a) = mset taken + mset (exposed a') \<and> (locations = None \<longrightarrow> taken = [])
     \<and> journal = (if locations \<noteq> None \<and> in_phase then Some taken else None)"
proof -
  define a1 where "a1 = (if merges_first a threshold then merge_and_sort_free eng a else a)"
  have shape: "child_shape a" using pages_invD(4) [OF assms(2)] .
  note merged = engine_rules(10-12) [OF assms(1) shape]
  have same: "mset (exposed a1) = mset (exposed a)" using merged(1) by (simp add: a1_def)
  have a1: "pages_inv b a1 owned pending"
    using pages_inv_exposed [OF assms(2) merged(2,3)] merged(1) assms(2) by (auto simp: a1_def)
  note shape1 = pages_invD(4) [OF a1]
  obtain a2 where alloc: "base_alloc eng req a1 = (locations, a2)" and a2: "a' = a2"
    and journal: "journal = record_acquisition in_phase (free_pages a1) locations a2"
    using assms(3) unfolding alloc_pages_def a1_def [symmetric] Let_def by (auto split: prod.splits)
  show ?thesis
  proof (cases locations)
    case None
    then show ?thesis
      using engine_rules(13) [OF assms(1) shape1, of req a2] alloc a2 journal pages_inv_exposed [OF a1, of a2 owned] same
      by (auto simp: record_acquisition_def)
  next
    case (Some locs)
    obtain k where k: "k \<le> length (free_pages a1)" "a2 = a1\<lparr>free_pages := drop k (free_pages a1)\<rparr>"
      using engine_rules(14) [OF assms(1) shape1, of req locs a2] alloc Some by auto
    let ?taken = "take k (free_pages a1)"
    have "mset (drop k (free_pages a1)) + mset ?taken = mset (free_pages a1)"
      by (metis append_take_drop_id mset_append union_commute)
    then have parts: "mset (exposed a1) = mset ?taken + mset (exposed a2)"
      unfolding k(2) exposed_def by (simp add: ac_simps)
    then have "mset (exposed a2 @ ?taken @ owned) = mset (exposed a1 @ owned)" by (simp add: ac_simps)
    then have "pages_inv b a2 (?taken @ owned) pending"
      using shape1 k(2) by (intro pages_inv_exposed [OF a1]) (simp_all add: elastic_part_def)
    moreover have "journal = (if locations \<noteq> None \<and> in_phase then Some ?taken else None)"
      using k Some by (simp add: journal record_acquisition_def slice_upto_def)
    ultimately show ?thesis using Some a2 parts same by (intro exI [of _ ?taken]) simp
  qed
qed

lemma free_pages_effect:
  assumes "engine_ok eng" and "pages_inv b a owned pending" and "mset owned = mset ps + mset rest"
  shows "pages_inv b (free_page_ids eng ps a) rest pending"
proof -
  note eng = engine_rules [OF assms(1) pages_invD(4) [OF assms(2)]]
  show ?thesis
    by (rule pages_inv_exposed [OF assms(2) eng(4,5)]) (simp add: eng(3) assms(3) ac_simps)
qed

text \<open>A reset splits all pages by their backing, for a new allocator as for a served one.\<close>

lemma clear_pages_run:
  assumes "engine_ok eng" and "backing_ok b" and "child_shape a" and "pool_pages a = past_page (kv_layout b) - 1" and "retiring_pages a = []"
    and "\<And>p. valid_page (kv_layout b) p \<Longrightarrow> \<not> hits b pending p"
    and "\<forall>i\<in>set pending. floor_bundles (profile (kv_layout b)) \<le> i \<and> 0 \<le> i \<and> i < bundle_capacity (profile (kv_layout b))"
  shows "\<exists>a'. clear_pages eng b a = (Inr (), a') \<and> pages_inv b a' [] pending"
proof -
  let ?a1 = "base_clear eng a"
  note reset = engine_rules(6-9) [OF assms(1,3)]
  have fields: "unavailable_pages ?a1 = unavailable_pages a" "retiring_pages ?a1 = retiring_pages a" "pool_pages ?a1 = pool_pages a"
    using reset(3) by (auto simp: elastic_part_def)
  have all: "set (free_pages ?a1) = {p. valid_page (kv_layout b) p}" "distinct (free_pages ?a1)"
    unfolding reset(1) assms(4) by (auto simp: valid_page_def)
  obtain counts where counts: "missing_bundle_counts b (free_pages ?a1) = Inr counts" "map (\<lambda>n. n = 0) counts = map (fully_backed b) (free_pages ?a1)"
    using missing_counts_zero [OF assms(2)] all(1) by blast
  let ?a' = "?a1\<lparr>unavailable_pages := filter (\<lambda>p. \<not> fully_backed b p) (free_pages ?a1), free_pages := filter (fully_backed b) (free_pages ?a1)\<rparr>"
  have run: "clear_pages eng b a = (Inr (), ?a')"
    unfolding clear_pages_def Let_def counts(1) sum.case counts(2) masked_map masked_not_map using assms(5) by (simp add: ret_def)
  have deferred: "release_pages ?a1 = []" "concat (staged_pages ?a1) = []" using reset(2) by (simp_all add: exposed_def)
  then have ex: "exposed ?a' = filter (fully_backed b) (free_pages ?a1)" by (simp add: exposed_def)
  have whole: "mset (exposed ?a' @ unavailable_pages ?a' @ []) = mset (free_pages ?a1)" unfolding ex
    using filter_mset_split [of "fully_backed b" "free_pages ?a1"] by simp
  have "pages_inv b ?a' [] pending" unfolding pages_inv_def
  proof (intro conjI)
    show "distinct (exposed ?a' @ unavailable_pages ?a' @ [])" using all(2) mset_eq_imp_distinct_iff [OF whole] by blast
    show "set (exposed ?a' @ unavailable_pages ?a' @ []) = {p. valid_page (kv_layout b) p}" using all(1) mset_eq_setD [OF whole] by blast
    show "\<forall>p\<in>set (exposed ?a') \<union> set []. fully_backed b p \<and> \<not> hits b pending p" unfolding ex using assms(6) all(1) by auto
    show "\<forall>p\<in>set (unavailable_pages ?a'). hits b pending p \<longrightarrow> p \<in> set (retiring_pages ?a')" using assms(6) all(1) by auto
  qed (use assms(2,4,5,7) reset(4) fields in simp_all)
  then show ?thesis using run by blast
qed

lemma clear_pages_effect:
  assumes "engine_ok eng" and "pages_inv b a owned pending" and "clear_pages eng b a = (r, a')"
  shows "r = Inr () \<longleftrightarrow> retiring_pages a = []" and "r \<noteq> Inr () \<Longrightarrow> a' = a" and "r = Inr () \<Longrightarrow> pages_inv b a' [] pending"
proof -
  note inv = pages_invD [OF assms(2)]
  have done_run: "\<exists>a'. clear_pages eng b a = (Inr (), a') \<and> pages_inv b a' [] pending" if none: "retiring_pages a = []"
  proof (rule clear_pages_run [OF assms(1) inv(1,4,5) none])
    show "\<not> hits b pending p" if "valid_page (kv_layout b) p" for p
      using inv(7,9,10) none that by (metis UnCI empty_iff list.set(1) mem_Collect_eq set_append Un_iff)
  qed (use inv(12) in blast)
  have refused: "a' = a \<and> r \<noteq> Inr ()" if "retiring_pages a \<noteq> []" using assms(3) that by (auto simp: clear_pages_def raise_def)
  show "r = Inr () \<longleftrightarrow> retiring_pages a = []" "r \<noteq> Inr () \<Longrightarrow> a' = a" "r = Inr () \<Longrightarrow> pages_inv b a' [] pending"
    using done_run refused assms(3) by auto
qed

section \<open>Plans\<close>

lemma missing_ids_exact:
  assumes "backing_ok b" and "\<forall>p\<in>set pages. valid_page (kv_layout b) p"
  shows "\<exists>ids. missing_ids b pages = Inr ids \<and> distinct ids
     \<and> set ids = {i. i \<notin> bundle_keys b \<and> (\<exists>p\<in>set pages. touches (kv_layout b) p i)}"
proof -
  let ?lay = "kv_layout b" and ?keys = "dict_keys (kv_bundles b)"
  have geo: "geometry_ok ?lay" and keys: "bundles_in_range b" using assms(1) by (simp_all add: backing_ok_def)
  obtain cover where cover: "page_cover ?lay pages = Inr cover" "length cover = nat (bundle_capacity (profile ?lay))"
    "\<forall>i<length cover. cover ! i = int (length (filter (\<lambda>p. touches ?lay p (int i)) pages))"
    using page_cover_exact [OF geo assms(2)] by blast
  let ?some = "map (\<lambda>n. if n > 0 then 1 else (0::int)) cover"
  have "\<forall>i\<in>set ?keys. 0 \<le> i \<and> i < int (length ?some)"
    using keys cover(2) capacity_pos(1) [OF geo] unfolding bundles_in_range_def by simp
  from index_put_nth [OF this, of 0] obtain touched where touched: "index_put ?some ?keys 0 = Inr touched" "length touched = length cover"
    "\<forall>j<length cover. touched ! j = (if int j \<in> set ?keys then 0 else ?some ! j)" by auto
  let ?ids = "map int (filter (\<lambda>i. touched ! i \<noteq> 0) [0..<length touched])"
  have "missing_ids b pages = Inr ?ids" unfolding missing_ids_def cover(1) rbind_simps touched(1) ..
  moreover have "distinct ?ids" by (simp add: distinct_map)
  moreover have "set ?ids = {i. i \<notin> bundle_keys b \<and> (\<exists>p\<in>set pages. touches ?lay p i)}"
  proof (intro set_eqI iffI)
    fix i assume "i \<in> set ?ids"
    then obtain j where j: "i = int j" "j < length cover" "touched ! j \<noteq> 0" using touched(2) by auto
    then have "int j \<notin> set ?keys" "cover ! j > 0" using touched(3) by (auto split: if_splits)
    then show "i \<in> {i. i \<notin> bundle_keys b \<and> (\<exists>p\<in>set pages. touches ?lay p i)}"
      using cover(3) j by (auto simp: filter_empty_conv)
  next
    fix i assume i: "i \<in> {i. i \<notin> bundle_keys b \<and> (\<exists>p\<in>set pages. touches ?lay p i)}"
    then obtain p where p: "p \<in> set pages" "touches ?lay p i" by blast
    have "0 \<le> i" "i < bundle_capacity (profile ?lay)"
      using span_bounds [OF geo, of p] assms(2) p by (auto simp: touches_def)
    then obtain j where j: "i = int j" "j < length cover" using cover(2) by (metis nat_less_eq_zless zero_le_imp_eq_int nat_int)
    have "0 < cover ! j" using cover(3) j p by (auto simp: filter_empty_conv)
    then have "touched ! j \<noteq> 0" using touched(3) j i by simp
    then show "i \<in> set ?ids" using j touched(2) by auto
  qed
  ultimately show ?thesis by blast
qed

lemma prefer_partial_permutes:
  assumes "backing_ok b" and "\<forall>p\<in>set pages. valid_page (kv_layout b) p"
  shows "\<exists>ps. prefer_partial b pages = Inr ps \<and> mset ps = mset pages"
proof -
  have geo: "geometry_ok (kv_layout b)" "bundles_in_range b" using assms(1) by (simp_all add: backing_ok_def)
  have "\<forall>p\<in>set (sort pages). valid_page (kv_layout b) p" using assms(2) by simp
  note counts = missing_bundle_counts_exact [OF geo this]
  let ?counts = "map (\<lambda>p. int (card {i\<in>spanned (kv_layout b) p. i \<notin> bundle_keys b})) (sort pages)"
  let ?partial = "map2 (\<lambda>n s. n < snd s - fst s) ?counts (map (bundle_span (kv_layout b)) (sort pages))"
  let ?ps = "map snd (sort_key (\<lambda>(p, _). if p then (0::nat) else 1) (zip ?partial (sort pages)))"
  have "mset ?ps = mset (map snd (zip ?partial (sort pages)))" by (simp only: mset_map mset_sort)
  also have "\<dots> = mset pages" by (simp add: map_snd_zip)
  finally show ?thesis unfolding prefer_partial_def Let_def counts rbind_simps by blast
qed

text \<open>
  A plan names distinct free pages, exactly as many as asked for, and exactly the bundles they still need; there
  is none only when fewer free pages exist outside the pending retirement.
\<close>

lemma plan_pages_exact:
  assumes "engine_ok eng" and "pages_inv b a owned pending" and "0 \<le> n"
  shows "\<exists>plan. plan_pages eng b a n = Inr plan \<and> (case plan of
       None \<Rightarrow> int (length (exposed a)) + int (length (publishable a)) < n
     | Some p \<Rightarrow> int (length (plan_page_ids p)) = n \<and> distinct (plan_page_ids p)
         \<and> set (plan_page_ids p) \<subseteq> set (exposed a) \<union> set (publishable a)
         \<and> distinct (missing_bundle_ids p)
         \<and> set (missing_bundle_ids p) = {i. i \<notin> bundle_keys b \<and> (\<exists>q\<in>set (plan_page_ids p). touches (kv_layout b) q i)})"
proof -
  note inv = pages_invD [OF assms(2)]
  let ?e = "get_all_free_pages eng a" and ?c = "publishable a"
  have ms: "mset ?e = mset (exposed a)" using engine_rules(1) [OF assms(1) inv(4)] .
  have e: "set ?e = set (exposed a)" "length ?e = length (exposed a)" "distinct ?e"
    using mset_eq_setD [OF ms] mset_eq_length [OF ms] mset_eq_imp_distinct_iff [OF ms] inv(6) by auto
  have c: "set ?c \<subseteq> set (unavailable_pages a)" "distinct ?c" using inv(6) by (auto simp: publishable_def)
  have none_missing: "i \<in> bundle_keys b" if "q \<in> set ?e" "touches (kv_layout b) q i" for q i
    using inv(9) [of q] that e(1) by (auto simp: fully_backed_def)
  consider (resident) "n \<le> int (length ?e)" | (short) "int (length ?e) + int (length ?c) < n"
    | (mixed) "int (length ?e) < n" "n \<le> int (length ?e) + int (length ?c)" by linarith
  then show ?thesis
  proof cases
    case resident
    let ?p = "\<lparr>plan_page_ids = slice_upto n ?e, missing_bundle_ids = []\<rparr>"
    have "plan_pages eng b a n = Inr (Some ?p)" using resident by (simp add: plan_pages_def Let_def)
    moreover have "int (length (plan_page_ids ?p)) = n" "distinct (plan_page_ids ?p)" "set (plan_page_ids ?p) \<subseteq> set ?e"
      using resident assms(3) e(3) by (auto simp: slice_upto_def dest: in_set_takeD)
    ultimately show ?thesis using none_missing e(1) by (intro exI [of _ "Some ?p"]) auto
  next
    case short
    then have "plan_pages eng b a n = Inr None" by (simp add: plan_pages_def Let_def)
    then show ?thesis using short e(2) by simp
  next
    case mixed
    have valid: "\<forall>p\<in>set ?c. valid_page (kv_layout b) p" using valid_pages [OF assms(2)] c(1) by blast
    obtain ps where ps: "prefer_partial b ?c = Inr ps" "mset ps = mset ?c" using prefer_partial_permutes [OF inv(1) valid] by blast
    have perm: "set ps = set ?c" "length ps = length ?c" "distinct ps"
      using mset_eq_setD [OF ps(2)] mset_eq_length [OF ps(2)] mset_eq_imp_distinct_iff [OF ps(2)] c(2) by auto
    let ?sel = "slice_upto (n - int (length ?e)) ps"
    have sel: "set ?sel \<subseteq> set ?c" "distinct ?sel" "int (length ?sel) = n - int (length ?e)"
      using mixed perm by (auto simp: slice_upto_def dest: in_set_takeD)
    obtain ids where ids: "missing_ids b ?sel = Inr ids" "distinct ids"
      "set ids = {i. i \<notin> bundle_keys b \<and> (\<exists>p\<in>set ?sel. touches (kv_layout b) p i)}"
      using missing_ids_exact [OF inv(1), of ?sel] valid sel(1) by blast
    let ?p = "\<lparr>plan_page_ids = ?e @ ?sel, missing_bundle_ids = ids\<rparr>"
    have run: "plan_pages eng b a n = Inr (Some ?p)" using mixed ps(1) ids(1) by (simp add: plan_pages_def Let_def)
    have "set ?e \<inter> set ?sel = {}" using sel(1) c(1) inv(6) unfolding e(1) by auto
    then have "distinct (plan_page_ids ?p)" "int (length (plan_page_ids ?p)) = n" "set (plan_page_ids ?p) \<subseteq> set (exposed a) \<union> set ?c"
      using e sel by auto
    moreover have "set (missing_bundle_ids ?p) = {i. i \<notin> bundle_keys b \<and> (\<exists>q\<in>set (plan_page_ids ?p). touches (kv_layout b) q i)}"
      using ids(3) none_missing by auto
    ultimately show ?thesis using run ids(2) by (intro exI [of _ "Some ?p"]) auto
  qed
qed

end
