(* ===== verification/Kv_State.thy ===== *)
theory Kv_State
  imports Kv_Partition
begin

section \<open>The elastic state of one Instance rank\<close>

text \<open>
  \<^verbatim>\<open>xpool/integrations/sglang/ecs/state.py\<close>: the components of a rank share one byte ledger. Pricing and planning
  read the state; preparation maps and publishes pages; reclamation withdraws empty bundles, waits for their
  device users and unmaps them. The radix cache, the sizing policy and the batch arithmetic of the engine
  are parameters.
\<close>

subsection \<open>Requirements\<close>

record memory_requirement =
  forecast_pages :: "int list"
  allocation_pages :: "int list"

definition SglangMemoryRequirement :: "int list \<Rightarrow> int list \<Rightarrow> memory_requirement result" where
  "SglangMemoryRequirement forecast allocation =
     rbind (ensure_uint64 (forecast @ allocation)) (\<lambda>_.
       if length forecast \<noteq> length allocation \<or> (\<exists>(f, n)\<in>set (zip forecast allocation). f < n)
       then Inl (ValueError ''xpool elastic context state forecast must cover each immediate allocation'')
       else Inr \<lparr>forecast_pages = forecast, allocation_pages = allocation\<rparr>)"

record 'admission prefill_proposal =
  admission :: 'admission
  proposal_memory :: memory_requirement
  preparation_pages :: "int list"

definition SglangPrefillProposal :: "'admission \<Rightarrow> memory_requirement \<Rightarrow> int list \<Rightarrow> 'admission prefill_proposal result" where
  "SglangPrefillProposal selected required preparation =
     rbind (ensure_uint64 preparation) (\<lambda>_.
       if length preparation \<noteq> length (forecast_pages required)
       then Inl (ValueError ''xpool Prefill preparation must cover acquisition within its forecast'')
       else rbind (zip_strict (forecast_pages required) (zip preparation (allocation_pages required))) (\<lambda>rows.
         if \<exists>(f, p, n)\<in>set rows. \<not> (n \<le> p \<and> p \<le> f)
         then Inl (ValueError ''xpool Prefill preparation must cover acquisition within its forecast'')
         else Inr \<lparr>admission = selected, proposal_memory = required, preparation_pages = preparation\<rparr>))"

subsection \<open>Components\<close>

datatype component_type = FULL | SWA

record kv_component =
  comp_type :: component_type
  comp_allocator :: page_allocator
  comp_backing :: kv_backing

record elastic_state =
  es_components :: "kv_component list"
  es_quota :: memory_quota

abbreviation comp_profile :: "kv_component \<Rightarrow> pool_profile" where
  "comp_profile c \<equiv> profile (kv_layout (comp_backing c))"

definition state_profile :: "elastic_state \<Rightarrow> pool_profile list result" where
  "state_profile s = ElasticContextStateProfile (map comp_profile (es_components s))"

definition logical_free_pages :: "'q engine_allocator \<Rightarrow> elastic_state \<Rightarrow> int list" where
  "logical_free_pages eng s =
     map (\<lambda>c. int (length (get_all_free_pages eng (comp_allocator c))) + int (length (unavailable_pages (comp_allocator c)))
              - int (length (retiring_pages (comp_allocator c)))) (es_components s)"

definition resident_free_pages :: "'q engine_allocator \<Rightarrow> elastic_state \<Rightarrow> int list" where
  "resident_free_pages eng s =
     map (\<lambda>c. available_size eng (comp_allocator c) div page_size (comp_allocator c)) (es_components s)"

definition eviction_page_targets :: "'q engine_allocator \<Rightarrow> int \<Rightarrow> int \<Rightarrow> elastic_state \<Rightarrow> int list" where
  "eviction_page_targets eng num_tokens swa_num_tokens s =
     map2 (\<lambda>c available.
        let requested = (case comp_type c of FULL \<Rightarrow> num_tokens | SWA \<Rightarrow> swa_num_tokens);
            unit_tokens = page_size (comp_allocator c)
        in if requested > 0 then available + (requested + unit_tokens - 1) div unit_tokens else 0)
       (es_components s) (resident_free_pages eng s)"

text \<open>The selector of the bound cache; None where no cache is bound.\<close>

fun first_eviction :: "(component_type \<Rightarrow> 'e option) \<Rightarrow> bool \<Rightarrow> (kv_component \<times> bool) list \<Rightarrow> 'e option" where
  "first_eviction select release_backing [] = None"
| "first_eviction select release_backing ((c, shortage) # rows) =
     (if shortage \<or> release_backing
      then case select (comp_type c) of None \<Rightarrow> first_eviction select release_backing rows | Some candidate \<Rightarrow> Some candidate
      else first_eviction select release_backing rows)"

definition select_cache_eviction ::
    "(component_type \<Rightarrow> 'e option) option \<Rightarrow> bool list \<Rightarrow> bool \<Rightarrow> elastic_state \<Rightarrow> 'e option result" where
  "select_cache_eviction cache shortages release_backing s =
     (case cache of
        None \<Rightarrow> Inl (RuntimeError ''xpool elastic context state cache reclamation requires a bound cache'')
      | Some select \<Rightarrow>
          rbind (zip_strict (es_components s) shortages) (\<lambda>rows. Inr (first_eviction select release_backing rows)))"

subsection \<open>Prices\<close>

text \<open>\<open>evictable\<close> is the evictable size per component of the bound cache, in tokens.\<close>

fun price_forecast ::
    "'q engine_allocator \<Rightarrow> (component_type \<Rightarrow> int) option \<Rightarrow> (kv_component \<times> int) list \<Rightarrow> int \<Rightarrow> int option result" where
  "price_forecast eng evictable [] required = Inr (Some required)"
| "price_forecast eng evictable ((c, page_count) # rows) required =
     (let wanted = (case evictable of
            None \<Rightarrow> page_count
          | Some sizes \<Rightarrow> max 0 (page_count - sizes (comp_type c) div page_size (comp_allocator c)))
      in rbind (plan_pages eng (comp_backing c) (comp_allocator c) wanted) (\<lambda>plan.
           case plan of
             None \<Rightarrow> Inr None
           | Some p \<Rightarrow>
               price_forecast eng evictable rows
                 (required + int (length (missing_bundle_ids p)) * bundle_bytes (comp_profile c))))"

definition required_bytes ::
    "'q engine_allocator \<Rightarrow> (component_type \<Rightarrow> int) option \<Rightarrow> memory_requirement \<Rightarrow> elastic_state \<Rightarrow> int option result" where
  "required_bytes eng evictable requirement s =
     (if length (forecast_pages requirement) \<noteq> length (es_components s)
      then Inl (ValueError ''xpool elastic context state requirement differs from its component count'')
      else rbind (price_forecast eng evictable (zip (es_components s) (forecast_pages requirement)) (charged_bytes (es_quota s))) (\<lambda>price.
           case price of
             None \<Rightarrow> Inr None
           | Some required \<Rightarrow> rbind (ensure_uint64 [required]) (\<lambda>_. Inr (Some required))))"

text \<open>\<open>new_pages\<close> is the engine's count of new pages for the sequence and prefix lengths.\<close>

definition batch_pages ::
    "(int list \<Rightarrow> int list \<Rightarrow> int) \<Rightarrow> int option \<Rightarrow> int list \<Rightarrow> int list \<Rightarrow> int option \<Rightarrow> elastic_state \<Rightarrow> int list result" where
  "batch_pages new_pages extend_num_tokens seq_lens prefix_lens token_per_req s =
     rbind (index_at (es_components s) 0) (\<lambda>first.
       let unit_tokens = page_size (comp_allocator first); spread = \<lambda>pages. Inr (replicate (length (es_components s)) pages)
       in case token_per_req of
            None \<Rightarrow>
              (case extend_num_tokens of
                 None \<Rightarrow> Inl (ValueError ''xpool elastic context state requires a prepared Extend batch'')
               | Some extended \<Rightarrow> spread (if unit_tokens = 1 then extended else new_pages seq_lens prefix_lens))
          | Some tokens \<Rightarrow>
              if tokens \<noteq> 1
              then Inl (ValueError ''xpool elastic context state Decode allocation requires one token per request'')
              else spread (if unit_tokens = 1 then int (length seq_lens)
                           else int (length (filter (\<lambda>n. n mod unit_tokens = 0) seq_lens))))"

subsection \<open>Allocation\<close>

definition plan_allocation :: "'q engine_allocator \<Rightarrow> int list \<Rightarrow> elastic_state \<Rightarrow> page_plan list option result" where
  "plan_allocation eng page_counts s =
     rbind (ensure_uint64 page_counts) (\<lambda>_.
       if length page_counts \<noteq> length (es_components s)
       then Inl (ValueError ''xpool elastic context state allocation differs from its component count'')
       else rbind (rmap (\<lambda>(c, n). plan_pages eng (comp_backing c) (comp_allocator c) n) (zip (es_components s) page_counts)) (\<lambda>plans.
         Inr (if None \<in> set plans then None else Some (map the plans))))"

definition plans_cost :: "page_plan list \<Rightarrow> elastic_state \<Rightarrow> int" where
  "plans_cost plans s =
     sum_list (map2 (\<lambda>c p. int (length (missing_bundle_ids p)) * bundle_bytes (comp_profile c)) (es_components s) plans)"

definition allocation_bytes :: "'q engine_allocator \<Rightarrow> int list \<Rightarrow> elastic_state \<Rightarrow> int option result" where
  "allocation_bytes eng page_counts s =
     rbind (plan_allocation eng page_counts s) (\<lambda>plans.
       Inr (case plans of None \<Rightarrow> None | Some realized \<Rightarrow> Some (charged_bytes (es_quota s) + plans_cost realized s)))"

text \<open>An operation on the backing of a component acts on it together with the shared ledger.\<close>

definition on_backing :: "nat \<Rightarrow> (vmm, 'a) op \<Rightarrow> (elastic_state, 'a) op" where
  "on_backing i m s =
     (let c = es_components s ! i
      in case m \<lparr>vm_backing = comp_backing c, vm_quota = es_quota s\<rparr> of
           (r, v) \<Rightarrow> (r, s\<lparr>es_components := (es_components s)[i := c\<lparr>comp_backing := vm_backing v\<rparr>], es_quota := vm_quota v\<rparr>))"

definition on_allocator :: "nat \<Rightarrow> (kv_backing \<Rightarrow> (page_allocator, 'a) op) \<Rightarrow> (elastic_state, 'a) op" where
  "on_allocator i m s =
     (let c = es_components s ! i
      in case m (comp_backing c) (comp_allocator c) of
           (r, a) \<Rightarrow> (r, s\<lparr>es_components := (es_components s)[i := c\<lparr>comp_allocator := a\<rparr>]\<rparr>))"

text \<open>\<open>drivers i\<close> answers the calls for component \<open>i\<close>.\<close>

fun map_plans :: "(nat \<Rightarrow> cu_driver) \<Rightarrow> nat \<Rightarrow> page_plan list \<Rightarrow> (elastic_state, bool) op" where
  "map_plans drivers i [] s = ret True s"
| "map_plans drivers i (p # plans) s =
     bind (on_backing i (try_map (drivers i) (missing_bundle_ids p))) (\<lambda>mapped.
       if mapped then map_plans drivers (Suc i) plans else ret False) s"

definition publish_backed :: "'q engine_allocator \<Rightarrow> kv_backing \<Rightarrow> (page_allocator, unit) op" where
  "publish_backed eng b =
     bind (reading (\<lambda>a. missing_bundle_counts b (publishable a))) (\<lambda>counts.
     bind get_state (\<lambda>a.
       publish_pages eng b (masked (map (\<lambda>n. n = 0) counts) (publishable a))))"

definition prepare_allocation :: "'q engine_allocator \<Rightarrow> (nat \<Rightarrow> cu_driver) \<Rightarrow> int list \<Rightarrow> (elastic_state, bool) op" where
  "prepare_allocation eng drivers page_counts =
     bind (reading (plan_allocation eng page_counts)) (\<lambda>plans.
       case plans of
         None \<Rightarrow> ret False
       | Some realized \<Rightarrow>
           bind get_state (\<lambda>s.
             if plans_cost realized s > limit_bytes (es_quota s) - charged_bytes (es_quota s) then ret False
             else bind (map_plans drivers 0 realized) (\<lambda>mapped.
                    if \<not> mapped then ret False
                    else bind (for_each (\<lambda>i. on_allocator i (publish_backed eng)) [0..<length (es_components s)]) (\<lambda>_.
                           reading (\<lambda>s. rbind (zip_strict (resident_free_pages eng s) page_counts) (\<lambda>rows.
                             Inr (\<forall>(available, n)\<in>set rows. available \<ge> n))))))) "

subsection \<open>References\<close>

text \<open>The token counts of an engine configuration per component type.\<close>

definition reference_bytes :: "(component_type \<Rightarrow> int option) \<Rightarrow> elastic_state \<Rightarrow> int option result" where
  "reference_bytes tokens s =
     foldl (\<lambda>acc c. rbind acc (\<lambda>so_far. case so_far of
         None \<Rightarrow> Inr None
       | Some sum_bytes \<Rightarrow>
           let lay = kv_layout (comp_backing c)
           in case tokens (comp_type c) of
                None \<Rightarrow> Inr None
              | Some n \<Rightarrow>
                  if \<not> (0 < n \<and> n \<le> token_capacity lay) then Inr None
                  else let rows = (n + token_page_size lay + tokens_per_row lay - 1) div tokens_per_row lay
                       in rbind (align_up (rows * row_bytes lay) (mapping_granularity_bytes lay)) (\<lambda>aligned.
                          rbind (bytes_for (profile lay) (aligned div mapping_granularity_bytes lay)) (\<lambda>byte_count.
                            Inr (Some (sum_bytes + byte_count))))))
       (Inr (Some 0)) (es_components s)"

text \<open>
  The correction search: the largest probed page count whose configuration fits. \<open>cost pages\<close> is the price of the
  configuration the sizing policy computes for that many pages.
\<close>

function search_reference :: "(int \<Rightarrow> int option result) \<Rightarrow> int \<Rightarrow> int \<Rightarrow> int \<Rightarrow> int option \<Rightarrow> int option result" where
  "search_reference cost ceiling_bytes lower upper best =
     (if lower > upper then Inr best
      else let middle = (lower + upper) div 2
           in rbind (cost middle) (\<lambda>price.
                case price of
                  Some byte_count \<Rightarrow>
                    if byte_count \<le> ceiling_bytes then search_reference cost ceiling_bytes (middle + 1) upper (Some middle)
                    else search_reference cost ceiling_bytes lower (middle - 1) best
                | None \<Rightarrow> search_reference cost ceiling_bytes lower (middle - 1) best))"
  by pat_completeness auto
termination
  by (relation "measure (\<lambda>(cost, ceiling_bytes, lower, upper, best). nat (upper + 1 - lower))") auto

text \<open>
  \<open>minimum_pages\<close> is the smallest page count the engine accepts; \<open>sized_pages\<close> the page count of the engine's
  own sizing of the ceiling. \<^verbatim>\<open>Kv_Reference\<close> has the computation of both and the agreement of the ranks.
\<close>

definition reference_pages :: "(int \<Rightarrow> int option result) \<Rightarrow> int \<Rightarrow> int \<Rightarrow> int \<Rightarrow> elastic_state \<Rightarrow> int result" where
  "reference_pages cost minimum_pages sized_pages ceiling_bytes s =
     rbind (ensure_uint64 [ceiling_bytes]) (\<lambda>_.
     rbind (state_profile s) (\<lambda>pools.
       if ceiling_bytes < profile_floor_bytes pools
       then Inl (MemoryError ''xpool elastic context state service ceiling cannot hold its bootstrap floors'')
       else if minimum_pages > sized_pages
       then Inl (MemoryError ''xpool elastic context state service ceiling cannot hold a legal engine reference'')
       else rbind (search_reference cost ceiling_bytes minimum_pages sized_pages None) (\<lambda>best.
              case best of
                None \<Rightarrow> Inl (MemoryError ''xpool elastic context state service ceiling cannot hold a legal engine reference'')
              | Some pages \<Rightarrow> Inr pages)))"

subsection \<open>Reclamation\<close>

text \<open>The free pages of a component that no retirement holds.\<close>

definition reclaimable_pages :: "'q engine_allocator \<Rightarrow> page_allocator \<Rightarrow> int list" where
  "reclaimable_pages eng a =
     filter (\<lambda>p. p \<notin> set (retiring_pages a)) (get_all_free_pages eng a @ unavailable_pages a)"

fun select_empty :: "'q engine_allocator \<Rightarrow> kv_component list \<Rightarrow> int \<Rightarrow> int list list result" where
  "select_empty eng [] remaining = Inr []"
| "select_empty eng (c # cs) remaining =
     (let unit_bytes = bundle_bytes (comp_profile c)
      in rbind (empty_bundles (comp_backing c) (reclaimable_pages eng (comp_allocator c))) (\<lambda>empty.
           let wanted = (remaining + unit_bytes - 1) div unit_bytes;
               bundles = slice_upto wanted (sort empty)
           in rbind (select_empty eng cs (max 0 (remaining - int (length bundles) * unit_bytes))) (\<lambda>rest.
                Inr (bundles # rest))))"

definition empty_bundle_ids :: "'q engine_allocator \<Rightarrow> int \<Rightarrow> elastic_state \<Rightarrow> int list list result" where
  "empty_bundle_ids eng release_bytes s =
     (if release_bytes = 0 then Inr (map (\<lambda>_. []) (es_components s))
      else select_empty eng (es_components s) release_bytes)"

record 'e reclaim_plan =
  plan_release_bytes :: int
  plan_eviction :: "'e option"
  plan_bundle_ids :: "int list list"
  plan_event :: bool
  plan_applied :: bool
  plan_completed :: bool

text \<open>
  The cache: \<^verbatim>\<open>resolve\<close> tells whether the agreed effect still has its endpoint, \<^verbatim>\<open>evict\<close> consumes it and lists the
  pages freed per component.
\<close>

record 'e cache_owner =
  cache_resolve :: "'e \<Rightarrow> bool"
  cache_evict :: "'e \<Rightarrow> int list list result"

definition prepare_reclaim ::
    "'q engine_allocator \<Rightarrow> 'e cache_owner option \<Rightarrow> int \<Rightarrow> 'e option \<Rightarrow> elastic_state \<Rightarrow> 'e reclaim_plan option result" where
  "prepare_reclaim eng cache release_bytes eviction s =
     rbind (ensure_uint64 [release_bytes]) (\<lambda>_.
       case eviction of
         Some e \<Rightarrow>
           (case cache of
              None \<Rightarrow> Inl (RuntimeError ''xpool elastic context state cache reclamation requires a bound cache'')
            | Some owner \<Rightarrow>
                Inr (if cache_resolve owner e
                     then Some \<lparr>plan_release_bytes = release_bytes, plan_eviction = Some e,
                                plan_bundle_ids = map (\<lambda>_. []) (es_components s), plan_event = False, plan_applied = False,
                                plan_completed = False\<rparr>
                     else None))
       | None \<Rightarrow>
           rbind (empty_bundle_ids eng release_bytes s) (\<lambda>bundles.
             Inr (if \<forall>ids\<in>set bundles. ids = [] then None
                  else Some \<lparr>plan_release_bytes = release_bytes, plan_eviction = None, plan_bundle_ids = bundles,
                             plan_event = False, plan_applied = False, plan_completed = False\<rparr>)))"

definition drain_frees :: "'q engine_allocator \<Rightarrow> int list list \<Rightarrow> (elastic_state, unit) op" where
  "drain_frees eng frees =
     for_each (\<lambda>i. on_allocator i (\<lambda>_. modify (free_page_ids eng (frees ! i)))) [0..<length frees]"

definition withdraw_all :: "'q engine_allocator \<Rightarrow> int list list \<Rightarrow> (elastic_state, unit) op" where
  "withdraw_all eng bundles =
     for_each (\<lambda>i. if bundles ! i \<noteq> [] then on_allocator i (\<lambda>b. begin_retirement eng b (bundles ! i)) else ret ())
       [0..<length bundles]"

text \<open>\<^verbatim>\<open>apply_reclaim\<close> mutates the plan; the result is the plan it leaves.\<close>

definition apply_reclaim ::
    "'q engine_allocator \<Rightarrow> 'e cache_owner option \<Rightarrow> 'e reclaim_plan \<Rightarrow> (elastic_state, 'e reclaim_plan) op" where
  "apply_reclaim eng cache plan =
     (if plan_applied plan then raise (RuntimeError ''xpool elastic context state reclaim operation was already applied'')
      else bind (case plan_eviction plan of
                   None \<Rightarrow> ret (plan_bundle_ids plan)
                 | Some e \<Rightarrow>
                     (case cache of
                        None \<Rightarrow> raise (RuntimeError ''xpool elastic context state reclaim lost its prepared cache owner'')
                      | Some owner \<Rightarrow>
                          bind (lift_result (cache_evict owner e)) (\<lambda>frees.
                          bind (drain_frees eng frees) (\<lambda>_.
                            reading (empty_bundle_ids eng (plan_release_bytes plan)))))) (\<lambda>bundles.
           bind (withdraw_all eng bundles) (\<lambda>_.
             let withdrawn = (\<exists>ids\<in>set bundles. ids \<noteq> [])
             in ret (plan\<lparr>plan_bundle_ids := bundles, plan_applied := True, plan_event := withdrawn,
                          plan_completed := \<not> withdrawn\<rparr>))))"

definition retire_component :: "cu_driver \<Rightarrow> int list \<Rightarrow> nat \<Rightarrow> (elastic_state, int) op" where
  "retire_component drv ids i =
     (if ids = [] then ret 0
      else bind (on_backing i (unmap drv ids)) (\<lambda>released.
           bind (on_allocator i (\<lambda>_. modify end_retirement)) (\<lambda>_. ret released)))"

fun retire_all :: "(nat \<Rightarrow> cu_driver) \<Rightarrow> nat \<Rightarrow> int list list \<Rightarrow> (elastic_state, int) op" where
  "retire_all drivers i [] s = ret 0 s"
| "retire_all drivers i (ids # bundles) s =
     bind (retire_component (drivers i) ids i) (\<lambda>released.
     bind (retire_all drivers (Suc i) bundles) (\<lambda>more. ret (released + more))) s"

text \<open>\<open>finished\<close> is the answer of the event query.\<close>

definition finish_retirement ::
    "(nat \<Rightarrow> cu_driver) \<Rightarrow> bool \<Rightarrow> 'e reclaim_plan \<Rightarrow> (elastic_state, int \<times> 'e reclaim_plan) op" where
  "finish_retirement drivers finished plan =
     (if \<not> plan_applied plan
      then raise (RuntimeError ''xpool elastic context state cannot retire an unapplied reclaim operation'')
      else if plan_completed plan \<or> \<not> plan_event plan \<or> \<not> finished then ret (0, plan)
      else bind (retire_all drivers 0 (plan_bundle_ids plan)) (\<lambda>released.
             ret (released, plan\<lparr>plan_completed := True\<rparr>)))"

end
