(* ===== verification/Kv_Safety.thy ===== *)
theory Kv_Safety
  imports Kv_State
begin

text \<open>
  The invariant of a rank: the ledger charges exactly the bundles of all components, every page in use is fully
  backed, and a pending retirement holds no page in use. Every operation that returns keeps it; an operation
  that raises still leaves every page in use mapped.
\<close>

declare search_reference.simps [simp del]

section \<open>The invariant\<close>

definition component_bytes :: "kv_component \<Rightarrow> int" where
  "component_bytes c = int (length (kv_bundles (comp_backing c))) * bundle_bytes (comp_profile c)"

definition component_inv :: "kv_component \<Rightarrow> int list \<Rightarrow> int list \<Rightarrow> bool" where
  "component_inv c owned pending \<longleftrightarrow> pages_inv (comp_backing c) (comp_allocator c) owned pending
     \<and> pool_profile_ok (comp_profile c) \<and> kv_base (comp_backing c) \<noteq> 0
     \<and> (\<forall>i\<in>bundle_keys (comp_backing c). dict_get (kv_bundles (comp_backing c)) i = Some True)"

definition state_inv :: "elastic_state \<Rightarrow> int list list \<Rightarrow> int list list \<Rightarrow> bool" where
  "state_inv s owned pending \<longleftrightarrow> length owned = length (es_components s) \<and> length pending = length (es_components s)
     \<and> quota_ok (es_quota s) \<and> charged_bytes (es_quota s) = sum_list (map component_bytes (es_components s))
     \<and> (\<forall>i<length (es_components s). component_inv (es_components s ! i) (owned ! i) (pending ! i))"

text \<open>Every page the engine may hand out or a request holds lies on mapped bundles.\<close>

definition in_use_mapped :: "elastic_state \<Rightarrow> int list list \<Rightarrow> bool" where
  "in_use_mapped s owned \<longleftrightarrow> (\<forall>i<length (es_components s). let c = es_components s ! i in
     \<forall>p\<in>set (exposed (comp_allocator c)) \<union> set (owned ! i). \<forall>b. touches (kv_layout (comp_backing c)) p b \<longrightarrow>
       dict_get (kv_bundles (comp_backing c)) b = Some True)"

lemma component_in_use:
  assumes "component_inv c owned pending" and "p \<in> set (exposed (comp_allocator c)) \<union> set owned"
    and "touches (kv_layout (comp_backing c)) p b"
  shows "b \<in> bundle_keys (comp_backing c)" "dict_get (kv_bundles (comp_backing c)) b = Some True" "b \<notin> set pending"
proof -
  have inv: "pages_inv (comp_backing c) (comp_allocator c) owned pending" using assms(1) by (simp add: component_inv_def)
  note facts = pages_invD(9) [OF inv assms(2)]
  show "b \<in> bundle_keys (comp_backing c)" "b \<notin> set pending"
    using facts assms(3) by (auto simp: fully_backed_def hits_def)
  then show "dict_get (kv_bundles (comp_backing c)) b = Some True" using assms(1) by (auto simp: component_inv_def)
qed

lemma state_inv_in_use: "state_inv s owned pending \<Longrightarrow> in_use_mapped s owned"
  unfolding in_use_mapped_def state_inv_def Let_def using component_in_use(2) by blast

abbreviation view :: "nat \<Rightarrow> elastic_state \<Rightarrow> vmm" where
  "view i s \<equiv> \<lparr>vm_backing = comp_backing (es_components s ! i), vm_quota = es_quota s\<rparr>"

abbreviation others :: "nat \<Rightarrow> elastic_state \<Rightarrow> int" where
  "others i s \<equiv> charged_bytes (es_quota s) - component_bytes (es_components s ! i)"

lemma sum_list_member_le:
  "i < length xs \<Longrightarrow> \<forall>x\<in>set xs. 0 \<le> f x \<Longrightarrow> f (xs ! i) \<le> (sum_list (map f xs) :: int)"
  by (rule member_le_sum_list) auto

lemma sum_list_replace:
  "i < length xs \<Longrightarrow> sum_list (map f (xs[i := x])) = sum_list (map f xs) - f (xs ! i) + (f x :: int)"
proof (induction xs arbitrary: i)
  case (Cons y ys)
  then show ?case by (cases i) simp_all
qed simp

lemma component_bytes_nonneg: "component_inv c owned pending \<Longrightarrow> 0 \<le> component_bytes c"
  by (simp add: component_inv_def component_bytes_def pool_profile_ok_def)

lemma view_settled:
  assumes "state_inv s owned pending" and "i < length (es_components s)"
  shows "settled (others i s) (view i s)" "all_mapped (view i s)"
proof -
  let ?c = "es_components s ! i"
  have c: "component_inv ?c (owned ! i) (pending ! i)" using assms by (simp add: state_inv_def)
  have "\<forall>c\<in>set (es_components s). 0 \<le> component_bytes c"
  proof
    fix c assume "c \<in> set (es_components s)"
    then obtain j where "j < length (es_components s)" "es_components s ! j = c" by (auto simp: in_set_conv_nth)
    then show "0 \<le> component_bytes c" using assms(1) component_bytes_nonneg unfolding state_inv_def by blast
  qed
  then have "component_bytes ?c \<le> charged_bytes (es_quota s)"
    using sum_list_member_le [OF assms(2), of component_bytes] assms(1) by (simp add: state_inv_def)
  moreover have "backing_ok (comp_backing ?c)" using c pages_invD(1) by (auto simp: component_inv_def)
  ultimately show "settled (others i s) (view i s)"
    using c assms(1) unfolding settled_def backing_ok_def bundles_in_range_def
    by (simp add: state_inv_def component_inv_def backed_bytes_def component_bytes_def)
  show "all_mapped (view i s)" using c by (simp add: all_mapped_def component_inv_def)
qed

text \<open>Replacing one component and settling its charge.\<close>

lemma state_inv_replace:
  assumes "state_inv s owned pending" and "i < length (es_components s)" and "component_inv c' owned' pending'"
    and "quota_ok q" and "charged_bytes q = others i s + component_bytes c'"
  shows "state_inv (s\<lparr>es_components := (es_components s)[i := c'], es_quota := q\<rparr>) (owned[i := owned']) (pending[i := pending'])"
  using assms unfolding state_inv_def by (auto simp: sum_list_replace nth_list_update)

lemma backing_ok_settled:
  assumes "settled n v" and "geometry_ok (kv_layout (vm_backing v))"
  shows "backing_ok (vm_backing v)"
  using assms by (simp add: settled_def backing_ok_def bundles_in_range_def)

lemma state_inv_backing:
  assumes "state_inv s owned pending" and "i < length (es_components s)"
    and "settled (others i s) v" and "frame (view i s) v" and "all_mapped v"
    and "pages_inv (vm_backing v) a owned' pending'"
  shows "state_inv (s\<lparr>es_components := (es_components s)[i := (es_components s ! i)\<lparr>comp_backing := vm_backing v, comp_allocator := a\<rparr>],
            es_quota := vm_quota v\<rparr>) (owned[i := owned']) (pending[i := pending'])"
proof (rule state_inv_replace [OF assms(1,2)])
  have c: "component_inv (es_components s ! i) (owned ! i) (pending ! i)" using assms(1,2) by (simp add: state_inv_def)
  show "component_inv ((es_components s ! i)\<lparr>comp_backing := vm_backing v, comp_allocator := a\<rparr>) owned' pending'"
    using assms(4,5,6) c by (auto simp: component_inv_def frame_def all_mapped_def)
  show "quota_ok (vm_quota v)" using assms(3) by (simp add: settled_def)
  show "charged_bytes (vm_quota v) = others i s
      + component_bytes ((es_components s ! i)\<lparr>comp_backing := vm_backing v, comp_allocator := a\<rparr>)"
    using assms(3) by (simp add: settled_def backed_bytes_def component_bytes_def)
qed

section \<open>Mapping\<close>

text \<open>\<open>grows s s'\<close>: the same components with the same allocators and limit, each with at least its former bundles.\<close>

definition grows :: "elastic_state \<Rightarrow> elastic_state \<Rightarrow> bool" where
  "grows s s' \<longleftrightarrow> length (es_components s') = length (es_components s) \<and> limit_bytes (es_quota s') = limit_bytes (es_quota s)
     \<and> (\<forall>j<length (es_components s). comp_allocator (es_components s' ! j) = comp_allocator (es_components s ! j)
          \<and> kv_layout (comp_backing (es_components s' ! j)) = kv_layout (comp_backing (es_components s ! j))
          \<and> bundle_keys (comp_backing (es_components s ! j)) \<subseteq> bundle_keys (comp_backing (es_components s' ! j)))"

lemma grows_refl: "grows s s"
  by (simp add: grows_def)

lemma grows_component:
  assumes "grows s s'" and "j < length (es_components s)"
  shows "comp_allocator (es_components s' ! j) = comp_allocator (es_components s ! j)"
    and "kv_layout (comp_backing (es_components s' ! j)) = kv_layout (comp_backing (es_components s ! j))"
    and "bundle_keys (comp_backing (es_components s ! j)) \<subseteq> bundle_keys (comp_backing (es_components s' ! j))"
  using assms unfolding grows_def by (blast+)

lemma grows_trans:
  assumes "grows s s'" and "grows s' s''"
  shows "grows s s''"
proof -
  have len: "length (es_components s') = length (es_components s)" using assms(1) unfolding grows_def by (elim conjE)
  have j': "j < length (es_components s')" if "j < length (es_components s)" for j using that len by simp
  note one = grows_component [OF assms(1)] and two = grows_component [OF assms(2) j']
  show ?thesis unfolding grows_def
  proof (intro conjI allI impI)
    show "length (es_components s'') = length (es_components s)" "limit_bytes (es_quota s'') = limit_bytes (es_quota s)"
      using assms unfolding grows_def by (elim conjE, metis)+
    fix j assume j: "j < length (es_components s)"
    show "comp_allocator (es_components s'' ! j) = comp_allocator (es_components s ! j)" using one(1) [OF j] two(1) [OF j] by (rule trans [rotated])
    show "kv_layout (comp_backing (es_components s'' ! j)) = kv_layout (comp_backing (es_components s ! j))"
      using one(2) [OF j] two(2) [OF j] by (rule trans [rotated])
    show "bundle_keys (comp_backing (es_components s ! j)) \<subseteq> bundle_keys (comp_backing (es_components s'' ! j))"
      by (rule subset_trans [OF one(3) [OF j] two(3) [OF j]])
  qed
qed

lemma on_backing_run:
  assumes "m (view i s) = (r, v)"
  shows "on_backing i m s = (r, s\<lparr>es_components := (es_components s)[i := (es_components s ! i)\<lparr>comp_backing := vm_backing v\<rparr>],
     es_quota := vm_quota v\<rparr>)"
  using assms by (simp add: on_backing_def Let_def)

text \<open>Pages in use survive whatever an operation does to bundles they do not touch.\<close>

lemma in_use_untouched:
  assumes "state_inv s owned pending" and "i < length (es_components s)" and "kv_layout b = kv_layout (comp_backing (es_components s ! i))"
    and "\<forall>p\<in>set (exposed (comp_allocator (es_components s ! i))) \<union> set (owned ! i). \<forall>k. touches (kv_layout b) p k \<longrightarrow>
      dict_get (kv_bundles b) k = dict_get (kv_bundles (comp_backing (es_components s ! i))) k"
  shows "in_use_mapped (s\<lparr>es_components := (es_components s)[i := (es_components s ! i)\<lparr>comp_backing := b\<rparr>], es_quota := q\<rparr>) owned"
  unfolding in_use_mapped_def Let_def
proof (intro allI impI ballI)
  let ?s = "s\<lparr>es_components := (es_components s)[i := (es_components s ! i)\<lparr>comp_backing := b\<rparr>], es_quota := q\<rparr>"
  fix j p k
  assume j: "j < length (es_components ?s)" and p: "p \<in> set (exposed (comp_allocator (es_components ?s ! j))) \<union> set (owned ! j)"
    and t: "touches (kv_layout (comp_backing (es_components ?s ! j))) p k"
  have c: "component_inv (es_components s ! j) (owned ! j) (pending ! j)" using assms(1) j by (simp add: state_inv_def)
  show "dict_get (kv_bundles (comp_backing (es_components ?s ! j))) k = Some True"
  proof (cases "j = i")
    case True
    then have p': "p \<in> set (exposed (comp_allocator (es_components s ! i))) \<union> set (owned ! i)" and t': "touches (kv_layout b) p k"
      using p t assms(2) by simp_all
    then have "dict_get (kv_bundles b) k = dict_get (kv_bundles (comp_backing (es_components s ! i))) k" using assms(4) by blast
    moreover have "dict_get (kv_bundles (comp_backing (es_components s ! i))) k = Some True"
      using component_in_use(2) [OF c [unfolded True] p'] t' assms(3) by simp
    ultimately show ?thesis using True assms(2) by simp
  next
    case False
    then show ?thesis using component_in_use(2) [OF c] p t by simp
  qed
qed

lemma map_component:
  assumes "state_inv s owned pending" and "i < length (es_components s)" and "on_backing i (try_map drv ids) s = (r, s')"
  shows "in_use_mapped s' owned" and "\<forall>j. j \<noteq> i \<longrightarrow> es_components s' ! j = es_components s ! j"
    and "r = Inr ok \<Longrightarrow> state_inv s' owned pending \<and> grows s s'"
    and "r = Inr True \<Longrightarrow> bundle_keys (comp_backing (es_components s' ! i)) = bundle_keys (comp_backing (es_components s ! i)) \<union> set ids"
proof -
  let ?c = "es_components s ! i"
  have c: "component_inv ?c (owned ! i) (pending ! i)" using assms(1,2) by (simp add: state_inv_def)
  then have pinv: "pages_inv (comp_backing ?c) (comp_allocator ?c) (owned ! i) (pending ! i)" by (simp add: component_inv_def)
  note base = view_settled [OF assms(1,2)]
  obtain v where run: "try_map drv ids (view i s) = (r, v)" by (cases "try_map drv ids (view i s)") (use assms(3) in \<open>auto simp: on_backing_def Let_def\<close>)
  have s': "s' = s\<lparr>es_components := (es_components s)[i := ?c\<lparr>comp_backing := vm_backing v\<rparr>], es_quota := vm_quota v\<rparr>"
    using on_backing_run [of "try_map drv ids", OF run] assms(3) by simp
  note eff = try_map_effect [OF base(1) run]
  have lay: "kv_layout (vm_backing v) = kv_layout (comp_backing ?c)" using eff by (simp add: frame_def)
  show "in_use_mapped s' owned" unfolding s'
  proof (rule in_use_untouched [OF assms(1,2) lay], intro ballI allI impI)
    fix p k assume p: "p \<in> set (exposed (comp_allocator ?c)) \<union> set (owned ! i)" "touches (kv_layout (vm_backing v)) p k"
    then have "k \<in> bundle_keys (comp_backing ?c)" using component_in_use(1) [OF c] lay by simp
    then show "dict_get (kv_bundles (vm_backing v)) k = dict_get (kv_bundles (comp_backing ?c)) k"
      using try_map_others [of k "view i s" drv ids] run by simp
  qed
  show "\<forall>j. j \<noteq> i \<longrightarrow> es_components s' ! j = es_components s ! j" unfolding s' by simp
  show "bundle_keys (comp_backing (es_components s' ! i)) = bundle_keys (comp_backing ?c) \<union> set ids" if "r = Inr True"
    using eff that assms(2) unfolding s' mapped_outcome_def by simp
  show "state_inv s' owned pending \<and> grows s s'" if "r = Inr ok"
  proof -
    have out: "mapped_outcome ids (view i s) (Inr ok) v" using eff that by simp
    have keys: "bundle_keys (comp_backing ?c) \<subseteq> bundle_keys (vm_backing v)" using out by (cases ok) (auto simp: mapped_outcome_def)
    have ok: "backing_ok (vm_backing v)" using eff lay pages_invD(2) [OF pinv] by (intro backing_ok_settled) auto
    have mapped: "all_mapped v" using try_map_all_mapped [OF base] run that by simp
    have fr: "settled (others i s) v" "frame (view i s) v" using eff by simp_all
    have "state_inv s' (owned[i := owned ! i]) (pending[i := pending ! i])"
      using state_inv_backing [OF assms(1,2) fr mapped pages_inv_grow [OF pinv ok lay keys]] unfolding s' by simp
    moreover have "grows s s'" using fr(2) keys assms(2) unfolding s' grows_def frame_def by (auto simp: nth_list_update)
    ultimately show ?thesis by simp
  qed
qed

lemma map_plans_effect:
  assumes "state_inv s owned pending" and "i + length plans = length (es_components s)" and "map_plans drivers i plans s = (r, s')"
  shows "in_use_mapped s' owned \<and> (\<forall>j<i. es_components s' ! j = es_components s ! j)
     \<and> (\<forall>ok. r = Inr ok \<longrightarrow> state_inv s' owned pending \<and> grows s s')
     \<and> (r = Inr True \<longrightarrow> (\<forall>k<length plans. bundle_keys (comp_backing (es_components s' ! (i + k)))
          = bundle_keys (comp_backing (es_components s ! (i + k))) \<union> set (missing_bundle_ids (plans ! k))))"
  using assms
proof (induction plans arbitrary: i s)
  case Nil
  then show ?case by (auto simp: ret_def grows_refl intro: state_inv_in_use)
next
  case (Cons p plans)
  have i: "i < length (es_components s)" using Cons.prems(2) by simp
  obtain r1 s1 where run: "on_backing i (try_map (drivers i) (missing_bundle_ids p)) s = (r1, s1)"
    by (cases "on_backing i (try_map (drivers i) (missing_bundle_ids p)) s")
  note one = map_component [OF Cons.prems(1) i run]
  show ?case
  proof (cases "r1 = Inr True")
    case False
    then have "s' = s1 \<and> (r = Inr False \<and> r1 = Inr False \<or> (\<exists>e. r = Inl e))"
      using Cons.prems(3) run by (auto simp: bind_def ret_def split: sum.splits)
    then show ?thesis using one(1,2) one(3) [of False] by auto
  next
    case True
    have inv1: "state_inv s1 owned pending" and grown: "grows s s1" using one(3) [OF True] by simp_all
    have rest: "map_plans drivers (Suc i) plans s1 = (r, s')" using Cons.prems(3) run True by (simp add: bind_def)
    have len: "Suc i + length plans = length (es_components s1)" using Cons.prems(2) grown by (simp add: grows_def)
    note IH = Cons.IH [OF inv1 len rest]
    have later: "es_components s1 ! (Suc i + k) = es_components s ! (Suc i + k)" for k using one(2) by simp
    have "bundle_keys (comp_backing (es_components s' ! (i + k)))
        = bundle_keys (comp_backing (es_components s ! (i + k))) \<union> set (missing_bundle_ids ((p # plans) ! k))"
      if "r = Inr True" "k < Suc (length plans)" for k
    proof (cases k)
      case 0
      have "es_components s' ! i = es_components s1 ! i" using IH by simp
      then show ?thesis using one(4) [OF True] 0 by simp
    next
      case (Suc k')
      then show ?thesis using IH that later [of k'] by simp
    qed
    moreover have "\<forall>j<i. es_components s' ! j = es_components s ! j" using IH one(2) by simp
    ultimately show ?thesis using IH grows_trans [OF grown] by auto
  qed
qed

section \<open>Publication\<close>

lemma publish_backed_effect:
  assumes "engine_ok eng" and "pages_inv b a owned pending"
  shows "\<exists>a'. publish_backed eng b a = (Inr (), a') \<and> pages_inv b a' owned pending \<and> page_size a' = page_size a
     \<and> mset (exposed a') = mset (exposed a) + mset (filter (fully_backed b) (publishable a))"
proof -
  note inv = pages_invD [OF assms(2)]
  let ?ids = "filter (fully_backed b) (publishable a)"
  have sub: "set (publishable a) \<subseteq> set (unavailable_pages a)" by (auto simp: publishable_def)
  have "\<forall>p\<in>set (publishable a). valid_page (kv_layout b) p" using valid_pages [OF assms(2)] sub by blast
  then obtain counts where counts: "missing_bundle_counts b (publishable a) = Inr counts"
    "map (\<lambda>n. n = 0) counts = map (fully_backed b) (publishable a)" using missing_counts_zero [OF inv(1)] by blast
  have run: "publish_backed eng b a = publish_pages eng b ?ids a"
    unfolding publish_backed_def bind_def reading_def get_state_def counts(1) by (simp add: counts(2) masked_map)
  obtain r a' where run': "publish_pages eng b ?ids a = (r, a')" by (cases "publish_pages eng b ?ids a")
  have chosen: "filter (\<lambda>p. p \<in> set ?ids) (unavailable_pages a) = ?ids"
    by (auto simp: publishable_def filter_filter intro!: filter_cong)
  have "r = Inr ()"
  proof (cases "?ids = []")
    case True
    then show ?thesis using run' by (simp add: publish_pages_def ret_def)
  next
    case False
    have valid: "\<forall>p\<in>set ?ids. valid_page (kv_layout b) p" using valid_pages [OF assms(2)] sub by auto
    then obtain cs where cs: "missing_bundle_counts b ?ids = Inr cs" "map (\<lambda>n. n = 0) cs = map (fully_backed b) ?ids"
      using missing_counts_zero [OF inv(1)] by blast
    have "False \<notin> set (map (\<lambda>n. n = 0) cs)" unfolding cs(2) by auto
    then have "\<not> (\<exists>n\<in>set cs. n \<noteq> 0)" by auto
    moreover have "\<not> (\<exists>p\<in>set ?ids. p \<in> set (retiring_pages a))" by (auto simp: publishable_def)
    ultimately show ?thesis using run' False unfolding publish_pages_def Let_def chosen cs(1) by (auto simp: ret_def)
  qed
  then show ?thesis using publish_pages_effect [OF assms run'] run run' unfolding chosen by auto
qed

lemma publish_component:
  assumes "engine_ok eng" and "state_inv s owned pending" and "i < length (es_components s)"
  shows "\<exists>a'. on_allocator i (publish_backed eng) s = (Inr (), s\<lparr>es_components := (es_components s)[i := (es_components s ! i)\<lparr>comp_allocator := a'\<rparr>]\<rparr>)
     \<and> state_inv (s\<lparr>es_components := (es_components s)[i := (es_components s ! i)\<lparr>comp_allocator := a'\<rparr>]\<rparr>) owned pending
     \<and> mset (exposed a') = mset (exposed (comp_allocator (es_components s ! i)))
          + mset (filter (fully_backed (comp_backing (es_components s ! i))) (publishable (comp_allocator (es_components s ! i))))"
proof -
  let ?c = "es_components s ! i"
  have c: "component_inv ?c (owned ! i) (pending ! i)" using assms(2,3) by (simp add: state_inv_def)
  obtain a' where a': "publish_backed eng (comp_backing ?c) (comp_allocator ?c) = (Inr (), a')"
    "pages_inv (comp_backing ?c) a' (owned ! i) (pending ! i)"
    "mset (exposed a') = mset (exposed (comp_allocator ?c)) + mset (filter (fully_backed (comp_backing ?c)) (publishable (comp_allocator ?c)))"
    using publish_backed_effect [OF assms(1)] c unfolding component_inv_def by blast
  let ?c' = "?c\<lparr>comp_allocator := a'\<rparr>"
  have "component_inv ?c' (owned ! i) (pending ! i)" using c a'(2) by (simp add: component_inv_def)
  moreover have "component_bytes ?c' = component_bytes ?c" by (simp add: component_bytes_def)
  moreover have "quota_ok (es_quota s)" using assms(2) by (simp add: state_inv_def)
  ultimately have "state_inv (s\<lparr>es_components := (es_components s)[i := ?c'], es_quota := es_quota s\<rparr>)
      (owned[i := owned ! i]) (pending[i := pending ! i])"
    by (intro state_inv_replace [OF assms(2,3)]) simp_all
  then show ?thesis using a'(1,3) by (intro exI [of _ a']) (simp add: on_allocator_def Let_def)
qed

text \<open>Publishing component by component only enlarges the exposed pages, by the backed ones of each.\<close>

lemma publish_all:
  assumes "engine_ok eng" and "state_inv s owned pending" and "distinct is" and "set is \<subseteq> {..<length (es_components s)}"
  shows "\<exists>s'. for_each (\<lambda>i. on_allocator i (publish_backed eng)) is s = (Inr (), s') \<and> state_inv s' owned pending
     \<and> es_quota s' = es_quota s \<and> length (es_components s') = length (es_components s)
     \<and> (\<forall>j. j \<notin> set is \<longrightarrow> es_components s' ! j = es_components s ! j)
     \<and> (\<forall>j\<in>set is. comp_backing (es_components s' ! j) = comp_backing (es_components s ! j)
          \<and> mset (exposed (comp_allocator (es_components s' ! j))) = mset (exposed (comp_allocator (es_components s ! j)))
            + mset (filter (fully_backed (comp_backing (es_components s ! j))) (publishable (comp_allocator (es_components s ! j)))))"
  using assms(2-4)
proof (induction "is" arbitrary: s)
  case Nil
  then show ?case by simp
next
  case (Cons i rest)
  let ?c = "es_components s ! i"
  have i: "i < length (es_components s)" using Cons.prems by simp
  obtain a' where a': "on_allocator i (publish_backed eng) s = (Inr (), s\<lparr>es_components := (es_components s)[i := ?c\<lparr>comp_allocator := a'\<rparr>]\<rparr>)"
    "state_inv (s\<lparr>es_components := (es_components s)[i := ?c\<lparr>comp_allocator := a'\<rparr>]\<rparr>) owned pending"
    "mset (exposed a') = mset (exposed (comp_allocator ?c)) + mset (filter (fully_backed (comp_backing ?c)) (publishable (comp_allocator ?c)))"
    using publish_component [OF assms(1) Cons.prems(1) i] by blast
  define s1 where "s1 = s\<lparr>es_components := (es_components s)[i := ?c\<lparr>comp_allocator := a'\<rparr>]\<rparr>"
  have len: "length (es_components s1) = length (es_components s)" by (simp add: s1_def)
  have other: "es_components s1 ! j = es_components s ! j" if "j \<noteq> i" for j using that by (simp add: s1_def)
  obtain s' where s': "for_each (\<lambda>i. on_allocator i (publish_backed eng)) rest s1 = (Inr (), s')" "state_inv s' owned pending"
    "es_quota s' = es_quota s1" "length (es_components s') = length (es_components s1)"
    "\<forall>j. j \<notin> set rest \<longrightarrow> es_components s' ! j = es_components s1 ! j"
    "\<forall>j\<in>set rest. comp_backing (es_components s' ! j) = comp_backing (es_components s1 ! j)
          \<and> mset (exposed (comp_allocator (es_components s' ! j))) = mset (exposed (comp_allocator (es_components s1 ! j)))
            + mset (filter (fully_backed (comp_backing (es_components s1 ! j))) (publishable (comp_allocator (es_components s1 ! j))))"
    using Cons.IH [of s1] Cons.prems(2,3) a'(2) len by (auto simp: s1_def)
  have ne: "j \<noteq> i" if "j \<in> set rest" for j using that Cons.prems(2) by auto
  have "es_components s' ! i = ?c\<lparr>comp_allocator := a'\<rparr>" using s'(5) Cons.prems(2) i by (simp add: s1_def)
  moreover have "es_components s' ! j = es_components s ! j" if "j \<notin> set (i # rest)" for j using s'(5) other that by auto
  moreover have run: "for_each (\<lambda>i. on_allocator i (publish_backed eng)) (i # rest) s = (Inr (), s')"
    using a'(1) s'(1) by (simp add: s1_def)
  moreover have "es_quota s' = es_quota s" using s'(3) by (simp add: s1_def)
  ultimately show ?case using s'(2,4,6) len other ne a'(3) by (intro exI [of _ s']) auto
qed

section \<open>Preparation\<close>

lemma plan_allocation_Some:
  assumes "plan_allocation eng counts s = Inr (Some plans)"
  shows "length plans = length (es_components s)" "length counts = length (es_components s)" "\<forall>n\<in>set counts. 0 \<le> n"
    "i < length (es_components s) \<Longrightarrow>
       plan_pages eng (comp_backing (es_components s ! i)) (comp_allocator (es_components s ! i)) (counts ! i) = Inr (Some (plans ! i))"
proof -
  obtain ps where ps: "rmap (\<lambda>(c, n). plan_pages eng (comp_backing c) (comp_allocator c) n) (zip (es_components s) counts) = Inr ps"
    "None \<notin> set ps" "plans = map the ps" "length counts = length (es_components s)" "ensure_uint64 counts = Inr ()"
    using assms by (auto simp: plan_allocation_def rbind_Inr_iff split: if_splits)
  note rows = ps(1) [unfolded rmap_Inr_iff]
  show "length counts = length (es_components s)" using ps(4) .
  show "\<forall>n\<in>set counts. 0 \<le> n" using ps(5) by (simp add: ensure_uint64_Inr_iff)
  show len: "length plans = length (es_components s)" using rows ps(3,4) by simp
  show "plan_pages eng (comp_backing (es_components s ! i)) (comp_allocator (es_components s ! i)) (counts ! i) = Inr (Some (plans ! i))"
    if "i < length (es_components s)"
  proof -
    have "ps ! i \<noteq> None" using ps(2,3) len that by (metis length_map nth_mem)
    then show ?thesis using rows ps(3,4) that by auto
  qed
qed

lemma prepare_allocation_effect:
  assumes "engine_ok eng" and "state_inv s owned pending" and "prepare_allocation eng drivers counts s = (r, s')"
  shows "in_use_mapped s' owned" and "r = Inr ok \<Longrightarrow> state_inv s' owned pending"
proof -
  have unchanged: "in_use_mapped s owned" by (rule state_inv_in_use [OF assms(2)])
  consider (same) "s' = s"
    | (mapped) plans where "plan_allocation eng counts s = Inr (Some plans)" "\<not> plans_cost plans s > limit_bytes (es_quota s) - charged_bytes (es_quota s)"
    using assms(3) unfolding prepare_allocation_def bind_def reading_def get_state_def ret_def
    by (cases "plan_allocation eng counts s") (auto split: option.splits if_splits)
  then have "in_use_mapped s' owned \<and> (r = Inr ok \<longrightarrow> state_inv s' owned pending)" for ok
  proof cases
    case same
    then show ?thesis using assms(2) unchanged by simp
  next
    case mapped
    note plans = plan_allocation_Some [OF mapped(1)]
    obtain r1 s1 where run: "map_plans drivers 0 plans s = (r1, s1)" by (cases "map_plans drivers 0 plans s")
    have eff: "in_use_mapped s1 owned" "\<And>ok. r1 = Inr ok \<Longrightarrow> state_inv s1 owned pending \<and> grows s s1"
      using map_plans_effect [OF assms(2) _ run] plans(1) by simp_all
    have go: "prepare_allocation eng drivers counts s = (case r1 of Inl e \<Rightarrow> (Inl e, s1) | Inr m \<Rightarrow>
        if \<not> m then (Inr False, s1)
        else bind (for_each (\<lambda>i. on_allocator i (publish_backed eng)) [0..<length (es_components s)]) (\<lambda>_.
               reading (\<lambda>s. rbind (zip_strict (resident_free_pages eng s) counts) (\<lambda>rows.
                 Inr (\<forall>(available, n)\<in>set rows. available \<ge> n)))) s1)"
      using mapped run by (simp add: prepare_allocation_def bind_def reading_def get_state_def ret_def split: sum.splits)
    show ?thesis
    proof (cases "r1 = Inr True")
      case False
      then have "s' = s1 \<and> (\<forall>ok. r = Inr ok \<longrightarrow> r1 = Inr False)" using go assms(3) by (auto split: sum.splits if_splits)
      then show ?thesis using eff by auto
    next
      case True
      have "set [0..<length (es_components s)] \<subseteq> {..<length (es_components s1)}" using eff(2) [OF True] by (auto simp: grows_def)
      then obtain s2 where s2: "for_each (\<lambda>i. on_allocator i (publish_backed eng)) [0..<length (es_components s)] s1 = (Inr (), s2)"
        "state_inv s2 owned pending"
        using publish_all [OF assms(1) conjunct1 [OF eff(2) [OF True]], of "[0..<length (es_components s)]"] by auto
      have "s' = s2" using go True assms(3) s2(1) by (simp add: bind_def reading_def)
      then show ?thesis using s2(2) state_inv_in_use by blast
    qed
  qed
  then show "in_use_mapped s' owned" "r = Inr ok \<Longrightarrow> state_inv s' owned pending" by blast+
qed

section \<open>Engine steps\<close>

abbreviation with_allocator :: "nat \<Rightarrow> page_allocator \<Rightarrow> elastic_state \<Rightarrow> elastic_state" where
  "with_allocator i a s \<equiv> s\<lparr>es_components := (es_components s)[i := (es_components s ! i)\<lparr>comp_allocator := a\<rparr>]\<rparr>"

lemma state_inv_allocator:
  assumes "state_inv s owned pending" and "i < length (es_components s)"
    and "pages_inv (comp_backing (es_components s ! i)) a owned' pending'"
  shows "state_inv (with_allocator i a s) (owned[i := owned']) (pending[i := pending'])"
proof -
  let ?c = "es_components s ! i"
  have "component_inv ?c (owned ! i) (pending ! i)" "quota_ok (es_quota s)" using assms(1,2) by (simp_all add: state_inv_def)
  then have "state_inv (s\<lparr>es_components := (es_components s)[i := ?c\<lparr>comp_allocator := a\<rparr>], es_quota := es_quota s\<rparr>)
      (owned[i := owned']) (pending[i := pending'])"
    using assms(3) by (intro state_inv_replace [OF assms(1,2)]) (simp_all add: component_inv_def component_bytes_def)
  then show ?thesis by simp
qed

lemma component_pages:
  "state_inv s owned pending \<Longrightarrow> i < length (es_components s) \<Longrightarrow>
     pages_inv (comp_backing (es_components s ! i)) (comp_allocator (es_components s ! i)) (owned ! i) (pending ! i)"
  by (simp add: state_inv_def component_inv_def)

section \<open>Reclamation\<close>

lemma reclaimable_facts:
  assumes "engine_ok eng" and "pages_inv b a owned pending"
  shows "distinct (reclaimable_pages eng a)" and "\<forall>p\<in>set (reclaimable_pages eng a). valid_page (kv_layout b) p"
    and "set (reclaimable_pages eng a) \<inter> set owned = {}"
proof -
  note inv = pages_invD [OF assms(2)]
  have ms: "mset (get_all_free_pages eng a) = mset (exposed a)" using engine_rules(1) [OF assms(1) inv(4)] .
  have e: "set (get_all_free_pages eng a) = set (exposed a)" "distinct (get_all_free_pages eng a)"
    using mset_eq_setD [OF ms] mset_eq_imp_distinct_iff [OF ms] inv(6) by auto
  show "distinct (reclaimable_pages eng a)" using e inv(6) by (auto simp: reclaimable_pages_def)
  show "\<forall>p\<in>set (reclaimable_pages eng a). valid_page (kv_layout b) p"
    using valid_pages [OF assms(2)] e(1) by (auto simp: reclaimable_pages_def)
  show "set (reclaimable_pages eng a) \<inter> set owned = {}" using e(1) inv(6) by (auto simp: reclaimable_pages_def)
qed

text \<open>A bundle chosen for retirement is mapped, unpinned and touched by no owned page.\<close>

definition retirable :: "kv_component \<Rightarrow> int list \<Rightarrow> int list \<Rightarrow> bool" where
  "retirable c owned ids \<longleftrightarrow> (\<forall>i\<in>set ids. i \<in> bundle_keys (comp_backing c) \<and> floor_bundles (comp_profile c) \<le> i \<and> 0 \<le> i
     \<and> i < bundle_capacity (comp_profile c)) \<and> (\<forall>p\<in>set owned. \<not> hits (comp_backing c) ids p)"

lemma empty_retirable:
  assumes "engine_ok eng" and "pages_inv (comp_backing c) (comp_allocator c) owned pending"
  shows "\<exists>ids. empty_bundles (comp_backing c) (reclaimable_pages eng (comp_allocator c)) = Inr ids \<and> retirable c owned ids"
proof -
  note inv = pages_invD [OF assms(2)] and free = reclaimable_facts [OF assms]
  have ok: "backing_ok (comp_backing c)" by (rule inv(1))
  then have unique: "distinct (dict_keys (kv_bundles (comp_backing c)))" by (simp add: backing_ok_def)
  obtain ids where ids: "empty_bundles (comp_backing c) (reclaimable_pages eng (comp_allocator c)) = Inr ids"
    "\<forall>i. i \<in> set ids \<longleftrightarrow> i \<in> bundle_keys (comp_backing c) \<and> floor_bundles (comp_profile c) \<le> i
       \<and> (\<forall>p. valid_page (kv_layout (comp_backing c)) p \<and> touches (kv_layout (comp_backing c)) p i \<longrightarrow> p \<in> set (reclaimable_pages eng (comp_allocator c)))"
    using empty_bundles_correct [OF inv(2,3) unique free(1,2)] by blast
  have range: "0 \<le> i \<and> i < bundle_capacity (comp_profile c)" if "i \<in> bundle_keys (comp_backing c)" for i
    using inv(3) that unfolding bundles_in_range_def by blast
  have "\<not> hits (comp_backing c) ids p" if "p \<in> set owned" for p
    using ids(2) free(3) valid_pages [OF assms(2), of p] that unfolding hits_def by blast
  then show ?thesis using ids range unfolding retirable_def by blast
qed

lemma retirable_subset: "retirable c owned ids \<Longrightarrow> set ids' \<subseteq> set ids \<Longrightarrow> retirable c owned ids'"
  unfolding retirable_def hits_def by blast

lemma select_empty_sound:
  assumes "engine_ok eng"
  shows "length owned = length cs \<Longrightarrow> length pending = length cs \<Longrightarrow>
     \<forall>i<length cs. pages_inv (comp_backing (cs ! i)) (comp_allocator (cs ! i)) (owned ! i) (pending ! i) \<Longrightarrow>
     \<exists>bundles. select_empty eng cs remaining = Inr bundles \<and> length bundles = length cs
       \<and> (\<forall>i<length cs. retirable (cs ! i) (owned ! i) (bundles ! i))"
proof (induction cs arbitrary: owned pending remaining)
  case Nil
  then show ?case by simp
next
  case (Cons c cs)
  obtain o1 os p1 ps where split: "owned = o1 # os" "pending = p1 # ps" using Cons.prems(1,2) by (metis length_Suc_conv)
  have c: "pages_inv (comp_backing c) (comp_allocator c) o1 p1" using Cons.prems(3) split by auto
  obtain ids where ids: "empty_bundles (comp_backing c) (reclaimable_pages eng (comp_allocator c)) = Inr ids" "retirable c o1 ids"
    using empty_retirable [OF assms c] by blast
  let ?u = "bundle_bytes (comp_profile c)"
  let ?chosen = "slice_upto ((remaining + ?u - 1) div ?u) (sort ids)"
  have rest: "\<forall>i<length cs. pages_inv (comp_backing (cs ! i)) (comp_allocator (cs ! i)) (os ! i) (ps ! i)"
    using Cons.prems(3) split by auto
  obtain bundles where bundles: "select_empty eng cs (max 0 (remaining - int (length ?chosen) * ?u)) = Inr bundles"
    "length bundles = length cs" "\<forall>i<length cs. retirable (cs ! i) (os ! i) (bundles ! i)"
    using Cons.IH [OF _ _ rest] Cons.prems(1,2) split by (metis length_Cons nat.inject)
  have "set ?chosen \<subseteq> set ids" by (auto simp: slice_upto_def dest: in_set_takeD)
  then have "retirable c o1 ?chosen" by (rule retirable_subset [OF ids(2)])
  then have "\<forall>i<length (c # cs). retirable ((c # cs) ! i) (owned ! i) ((?chosen # bundles) ! i)"
    using bundles(3) split by (auto simp: nth_Cons split: nat.splits)
  moreover have "select_empty eng (c # cs) remaining = Inr (?chosen # bundles)"
    using ids(1) bundles(1) by (simp add: Let_def)
  ultimately show ?case using bundles(2) by auto
qed

lemma empty_bundle_ids_sound:
  assumes "engine_ok eng" and "state_inv s owned pending"
  shows "\<exists>bundles. empty_bundle_ids eng release_bytes s = Inr bundles \<and> length bundles = length (es_components s)
     \<and> (\<forall>i<length (es_components s). retirable (es_components s ! i) (owned ! i) (bundles ! i))"
proof (cases "release_bytes = 0")
  case True
  then show ?thesis by (simp add: empty_bundle_ids_def retirable_def hits_def)
next
  case False
  have "length owned = length (es_components s)" "length pending = length (es_components s)"
    using assms(2) by (simp_all add: state_inv_def)
  then show ?thesis using select_empty_sound [OF assms(1)] component_pages [OF assms(2)] False
    unfolding empty_bundle_ids_def by simp
qed

lemma withdraw_component:
  assumes "engine_ok eng" and "state_inv s owned pending" and "i < length (es_components s)" and "pending ! i = []"
    and "retirable (es_components s ! i) (owned ! i) ids" and "ids \<noteq> []"
  shows "\<exists>a'. on_allocator i (\<lambda>b. begin_retirement eng b ids) s = (Inr (), with_allocator i a' s)
     \<and> state_inv (with_allocator i a' s) owned (pending[i := ids])"
proof -
  let ?c = "es_components s ! i"
  have p: "pages_inv (comp_backing ?c) (comp_allocator ?c) (owned ! i) []" using component_pages [OF assms(2,3)] assms(4) by simp
  obtain a' where a': "begin_retirement eng (comp_backing ?c) ids (comp_allocator ?c) = (Inr (), a')"
    "pages_inv (comp_backing ?c) a' (owned ! i) ids"
    using begin_retirement_effect [OF assms(1) p] assms(5,6) unfolding retirable_def by blast
  have "state_inv (with_allocator i a' s) (owned[i := owned ! i]) (pending[i := ids])"
    by (rule state_inv_allocator [OF assms(2,3) a'(2)])
  then show ?thesis using a'(1) by (intro exI [of _ a']) (simp add: on_allocator_def Let_def)
qed

text \<open>Withdrawing leaves the backings alone, so bundles chosen before stay retirable.\<close>

lemma withdraw_each:
  assumes "engine_ok eng" and "state_inv s owned pending" and "distinct js" and "set js \<subseteq> {..<length (es_components s)}"
    and "\<forall>j\<in>set js. pending ! j = [] \<and> retirable (es_components s ! j) (owned ! j) (bundles ! j)"
  shows "\<exists>s'. for_each (\<lambda>i. if bundles ! i \<noteq> [] then on_allocator i (\<lambda>b. begin_retirement eng b (bundles ! i)) else ret ()) js s = (Inr (), s')
     \<and> state_inv s' owned (fold (\<lambda>j ps. ps[j := bundles ! j]) js pending)"
  using assms(2-5)
proof (induction js arbitrary: s pending)
  case Nil
  then show ?case by simp
next
  case (Cons i js)
  have i: "i < length (es_components s)" using Cons.prems by simp
  have len: "length pending = length (es_components s)" using Cons.prems(1) by (simp add: state_inv_def)
  let ?pending = "pending[i := bundles ! i]"
  obtain s1 where s1: "(if bundles ! i \<noteq> [] then on_allocator i (\<lambda>b. begin_retirement eng b (bundles ! i)) else ret ()) s = (Inr (), s1)"
    "state_inv s1 owned ?pending" "length (es_components s1) = length (es_components s)"
    "\<forall>j. j \<noteq> i \<longrightarrow> es_components s1 ! j = es_components s ! j"
  proof (cases "bundles ! i = []")
    case True
    have "pending[i := pending ! i] = pending" by simp
    then have "?pending = pending" using True Cons.prems(4) by simp
    then show ?thesis using that [of s] True Cons.prems(1) by (simp add: ret_def)
  next
    case False
    obtain a' where a': "on_allocator i (\<lambda>b. begin_retirement eng b (bundles ! i)) s = (Inr (), with_allocator i a' s)"
      "state_inv (with_allocator i a' s) owned ?pending"
      using withdraw_component [OF assms(1) Cons.prems(1) i _ _ False] Cons.prems(4) by auto
    then show ?thesis using False by (intro that [of "with_allocator i a' s"]) simp_all
  qed
  have later: "\<forall>j\<in>set js. ?pending ! j = [] \<and> retirable (es_components s1 ! j) (owned ! j) (bundles ! j)"
  proof
    fix j assume j: "j \<in> set js"
    then have "j \<noteq> i" using Cons.prems(2) by auto
    then show "?pending ! j = [] \<and> retirable (es_components s1 ! j) (owned ! j) (bundles ! j)" using Cons.prems(4) j s1(4) by simp
  qed
  obtain s' where s': "for_each (\<lambda>i. if bundles ! i \<noteq> [] then on_allocator i (\<lambda>b. begin_retirement eng b (bundles ! i)) else ret ()) js s1 = (Inr (), s')"
    "state_inv s' owned (fold (\<lambda>j ps. ps[j := bundles ! j]) js ?pending)"
    using Cons.IH [OF s1(2) _ _ later] Cons.prems(2,3) s1(3) by auto
  show ?case using s1(1) s'(1,2) by (intro exI [of _ s']) (simp only: for_each.simps prod.case sum.case fold_Cons comp_def simp_thms)
qed

lemma fold_update_prefix:
  assumes "length pending = length bundles"
  shows "n \<le> length bundles \<Longrightarrow> fold (\<lambda>j ps. ps[j := bundles ! j]) [0..<n] pending = take n bundles @ drop n pending"
proof (induction n)
  case (Suc n)
  have "drop n pending = pending ! n # drop (Suc n) pending" using Suc.prems assms by (simp add: Cons_nth_drop_Suc)
  moreover have "take (Suc n) bundles = take n bundles @ [bundles ! n]" using Suc.prems by (simp add: take_Suc_conv_app_nth)
  moreover have "length (take n bundles) = n" using Suc.prems by simp
  ultimately show ?case using Suc by (simp add: list_update_append)
qed simp

lemma withdraw_all_effect:
  assumes "engine_ok eng" and "state_inv s owned (replicate (length (es_components s)) [])"
    and "length bundles = length (es_components s)"
    and "\<forall>i<length (es_components s). retirable (es_components s ! i) (owned ! i) (bundles ! i)"
  shows "\<exists>s'. withdraw_all eng bundles s = (Inr (), s') \<and> state_inv s' owned bundles"
proof -
  have "\<forall>j\<in>set [0..<length bundles]. replicate (length (es_components s)) [] ! j = [] \<and> retirable (es_components s ! j) (owned ! j) (bundles ! j)"
    using assms(3,4) by simp
  moreover have "set [0..<length bundles] \<subseteq> {..<length (es_components s)}" using assms(3) by auto
  ultimately obtain s' where s': "withdraw_all eng bundles s = (Inr (), s')"
    "state_inv s' owned (fold (\<lambda>j ps. ps[j := bundles ! j]) [0..<length bundles] (replicate (length (es_components s)) []))"
    using withdraw_each [OF assms(1,2) distinct_upt] unfolding withdraw_all_def by blast
  have "fold (\<lambda>j ps. ps[j := bundles ! j]) [0..<length bundles] (replicate (length (es_components s)) []) = bundles"
    using fold_update_prefix [of "replicate (length (es_components s)) []" bundles "length bundles"] assms(3) by simp
  then show ?thesis using s' by (simp only:) blast
qed

abbreviation no_retirement :: "elastic_state \<Rightarrow> int list list" where
  "no_retirement s \<equiv> replicate (length (es_components s)) []"

lemma drain_each:
  assumes "engine_ok eng" and "state_inv s owned pending" and "distinct js" and "set js \<subseteq> {..<length (es_components s)}"
    and "\<forall>j\<in>set js. mset (owned ! j) = mset (frees ! j) + mset (owned' ! j)"
  shows "\<exists>s'. for_each (\<lambda>i. on_allocator i (\<lambda>_. modify (free_page_ids eng (frees ! i)))) js s = (Inr (), s')
     \<and> state_inv s' (fold (\<lambda>j os. os[j := owned' ! j]) js owned) pending \<and> length (es_components s') = length (es_components s)"
  using assms(2-5)
proof (induction js arbitrary: s owned)
  case Nil
  then show ?case by simp
next
  case (Cons i js)
  have i: "i < length (es_components s)" using Cons.prems by simp
  let ?a = "free_page_ids eng (frees ! i) (comp_allocator (es_components s ! i))" and ?owned = "owned[i := owned' ! i]"
  let ?s = "with_allocator i ?a s"
  have "pages_inv (comp_backing (es_components s ! i)) ?a (owned' ! i) (pending ! i)"
    using free_pages_effect [OF assms(1) component_pages [OF Cons.prems(1) i]] Cons.prems(4) by simp
  from state_inv_allocator [OF Cons.prems(1) i this] have inv: "state_inv ?s ?owned pending" by simp
  have len: "length (es_components ?s) = length (es_components s)" by simp
  have later: "\<forall>j\<in>set js. mset (?owned ! j) = mset (frees ! j) + mset (owned' ! j)"
    using Cons.prems(2,4) by (metis distinct.simps(2) list.set_intros(2) nth_list_update_neq)
  have ranges: "distinct js" "set js \<subseteq> {..<length (es_components ?s)}" using Cons.prems(2,3) by simp_all
  obtain s' where s': "for_each (\<lambda>i. on_allocator i (\<lambda>_. modify (free_page_ids eng (frees ! i)))) js ?s = (Inr (), s')"
    "state_inv s' (fold (\<lambda>j os. os[j := owned' ! j]) js ?owned) pending" "length (es_components s') = length (es_components ?s)"
    using Cons.IH [OF inv ranges later] by blast
  have "on_allocator i (\<lambda>_. modify (free_page_ids eng (frees ! i))) s = (Inr (), ?s)"
    by (simp add: on_allocator_def modify_def Let_def)
  then show ?case using s' by (intro exI [of _ s']) simp
qed

lemma drain_frees_effect:
  assumes "engine_ok eng" and "state_inv s owned pending" and "length frees = length (es_components s)" "length owned' = length (es_components s)"
    and "\<forall>i<length (es_components s). mset (owned ! i) = mset (frees ! i) + mset (owned' ! i)"
  shows "\<exists>s'. drain_frees eng frees s = (Inr (), s') \<and> state_inv s' owned' pending \<and> length (es_components s') = length (es_components s)"
proof -
  have len: "length owned = length owned'" using assms(2,4) by (simp add: state_inv_def)
  have eq: "fold (\<lambda>j os. os[j := owned' ! j]) [0..<length frees] owned = owned'"
    using fold_update_prefix [OF len, of "length owned'"] assms(3,4) len by simp
  have "\<forall>j\<in>set [0..<length frees]. mset (owned ! j) = mset (frees ! j) + mset (owned' ! j)" using assms(3,5) by simp
  moreover have "set [0..<length frees] \<subseteq> {..<length (es_components s)}" using assms(3) by auto
  ultimately obtain s' where "drain_frees eng frees s = (Inr (), s')"
    "state_inv s' (fold (\<lambda>j os. os[j := owned' ! j]) [0..<length frees] owned) pending" "length (es_components s') = length (es_components s)"
    using drain_each [OF assms(1,2) distinct_upt] unfolding drain_frees_def by blast
  then show ?thesis unfolding eq by blast
qed

text \<open>The plan a committed reclaim leaves names what its allocators withdrew.\<close>

definition plan_open :: "'e reclaim_plan \<Rightarrow> bool" where
  "plan_open plan \<longleftrightarrow> plan_applied plan \<and> plan_event plan \<and> \<not> plan_completed plan"

lemma apply_empty_effect:
  assumes "engine_ok eng" and "state_inv s owned (no_retirement s)"
    and "prepare_reclaim eng cache release_bytes None s = Inr (Some plan)"
  shows "\<exists>plan' s'. apply_reclaim eng cache plan s = (Inr plan', s') \<and> state_inv s' owned (plan_bundle_ids plan') \<and> plan_open plan'"
proof -
  obtain bundles where bundles: "empty_bundle_ids eng release_bytes s = Inr bundles" "length bundles = length (es_components s)"
    "\<forall>i<length (es_components s). retirable (es_components s ! i) (owned ! i) (bundles ! i)"
    using empty_bundle_ids_sound [OF assms(1,2)] by blast
  have plan: "plan_eviction plan = None" "plan_bundle_ids plan = bundles" "\<not> plan_applied plan" "\<exists>ids\<in>set bundles. ids \<noteq> []"
    using assms(3) bundles(1) by (auto simp: prepare_reclaim_def rbind_Inr_iff split: if_splits)
  obtain s' where s': "withdraw_all eng bundles s = (Inr (), s')" "state_inv s' owned bundles"
    using withdraw_all_effect [OF assms(1,2) bundles(2,3)] by blast
  let ?plan' = "plan\<lparr>plan_bundle_ids := bundles, plan_applied := True, plan_event := True, plan_completed := False\<rparr>"
  have "apply_reclaim eng cache plan s = (Inr ?plan', s')"
    using plan s'(1) unfolding apply_reclaim_def by (simp add: bind_def ret_def)
  then show ?thesis using s'(2) by (intro exI [of _ ?plan'] exI [of _ s']) (simp add: plan_open_def)
qed

lemma apply_eviction_effect:
  assumes "engine_ok eng" and "state_inv s owned (no_retirement s)"
    and "prepare_reclaim eng (Some owner) release_bytes (Some e) s = Inr (Some plan)" and "cache_evict owner e = Inr frees"
    and "length frees = length (es_components s)" "length owned' = length (es_components s)"
    and "\<forall>i<length (es_components s). mset (owned ! i) = mset (frees ! i) + mset (owned' ! i)"
  shows "\<exists>plan' s'. apply_reclaim eng (Some owner) plan s = (Inr plan', s') \<and> state_inv s' owned' (plan_bundle_ids plan')
     \<and> plan_applied plan' \<and> (plan_open plan' \<or> plan_completed plan' \<and> plan_bundle_ids plan' = no_retirement s')"
proof -
  have plan: "plan_eviction plan = Some e" "plan_release_bytes plan = release_bytes" "\<not> plan_applied plan"
    using assms(3) by (auto simp: prepare_reclaim_def rbind_Inr_iff split: if_splits)
  obtain s1 where s1: "drain_frees eng frees s = (Inr (), s1)" "state_inv s1 owned' (no_retirement s)" "length (es_components s1) = length (es_components s)"
    using drain_frees_effect [OF assms(1,2,5-7)] by blast
  have inv1: "state_inv s1 owned' (no_retirement s1)" using s1(2,3) by simp
  obtain bundles where bundles: "empty_bundle_ids eng release_bytes s1 = Inr bundles" "length bundles = length (es_components s1)"
    "\<forall>i<length (es_components s1). retirable (es_components s1 ! i) (owned' ! i) (bundles ! i)"
    using empty_bundle_ids_sound [OF assms(1) inv1] by blast
  obtain s' where s': "withdraw_all eng bundles s1 = (Inr (), s')" "state_inv s' owned' bundles"
    using withdraw_all_effect [OF assms(1) inv1 bundles(2,3)] by blast
  define withdrawn where "withdrawn = (\<exists>ids\<in>set bundles. ids \<noteq> [])"
  let ?plan' = "plan\<lparr>plan_bundle_ids := bundles, plan_applied := True, plan_event := withdrawn, plan_completed := \<not> withdrawn\<rparr>"
  have "apply_reclaim eng (Some owner) plan s = (Inr ?plan', s')"
    using plan s1(1) s'(1) assms(4) bundles(1) unfolding apply_reclaim_def withdrawn_def [symmetric]
    by (simp add: bind_def ret_def lift_result_def reading_def withdrawn_def)
  moreover have "bundles = no_retirement s'" if "\<not> withdrawn"
  proof -
    have "length bundles = length (es_components s')" using s'(2) by (simp add: state_inv_def)
    then show ?thesis using that unfolding withdrawn_def by (metis replicate_length_same)
  qed
  ultimately show ?thesis using s'(2) by (intro exI [of _ ?plan'] exI [of _ s']) (auto simp: plan_open_def)
qed

section \<open>Completion\<close>

lemma retire_component_effect:
  assumes "state_inv s owned pending" and "i < length (es_components s)" and "retire_component drv (pending ! i) i s = (r, s')"
  shows "in_use_mapped s' owned \<and> (\<forall>j. j \<noteq> i \<longrightarrow> es_components s' ! j = es_components s ! j)
     \<and> (\<forall>n. r = Inr n \<longrightarrow> state_inv s' owned (pending[i := []]) \<and> length (es_components s') = length (es_components s)
          \<and> charged_bytes (es_quota s') = charged_bytes (es_quota s) - n)"
proof (cases "pending ! i = []")
  case True
  then have "pending[i := []] = pending" by (metis list_update_id)
  then show ?thesis using assms(1,3) True state_inv_in_use by (auto simp: retire_component_def ret_def)
next
  case False
  let ?c = "es_components s ! i" and ?ids = "pending ! i"
  have c: "component_inv ?c (owned ! i) ?ids" using assms(1,2) by (simp add: state_inv_def)
  note pinv = component_pages [OF assms(1,2)] and base = view_settled [OF assms(1,2)]
  obtain r1 v where run: "unmap drv ?ids (view i s) = (r1, v)" by (cases "unmap drv ?ids (view i s)")
  let ?b = "vm_backing v"
  let ?s1 = "s\<lparr>es_components := (es_components s)[i := ?c\<lparr>comp_backing := ?b\<rparr>], es_quota := vm_quota v\<rparr>"
  have step: "on_backing i (unmap drv ?ids) s = (r1, ?s1)" by (rule on_backing_run [of "unmap drv ?ids", OF run])
  note eff = unmap_effect [OF base(1) run]
  have lay: "kv_layout ?b = kv_layout (comp_backing ?c)" using eff by (simp add: frame_def)
  have use1: "in_use_mapped ?s1 owned"
  proof (rule in_use_untouched [OF assms(1,2) lay], intro ballI allI impI)
    fix p k assume "p \<in> set (exposed (comp_allocator ?c)) \<union> set (owned ! i)" "touches (kv_layout ?b) p k"
    then have "k \<notin> set ?ids" using component_in_use(3) [OF c] lay by simp
    then show "dict_get (kv_bundles ?b) k = dict_get (kv_bundles (comp_backing ?c)) k"
      using unmap_others [of k ?ids drv "view i s"] run by simp
  qed
  show ?thesis
  proof (cases r1)
    case (Inl e)
    then have "r = Inl e" "s' = ?s1" using assms(3) False step by (simp_all add: retire_component_def bind_def)
    then show ?thesis using use1 by simp
  next
    case (Inr n)
    let ?s2 = "s\<lparr>es_components := (es_components s)[i := ?c\<lparr>comp_backing := ?b, comp_allocator := end_retirement (comp_allocator ?c)\<rparr>],
                es_quota := vm_quota v\<rparr>"
    have "r = Inr n \<and> es_components s' = es_components ?s2 \<and> es_quota s' = es_quota ?s2"
      using assms(2,3) False step Inr by (auto simp: retire_component_def bind_def on_allocator_def modify_def ret_def)
    then have res: "r = Inr n" "s' = ?s2" by simp_all
    have keys: "bundle_keys (comp_backing ?c) - set ?ids \<subseteq> bundle_keys ?b" using eff by simp
    have ok: "backing_ok ?b" using eff lay pages_invD(2) [OF pinv] by (intro backing_ok_settled) auto
    have mapped: "all_mapped v" using unmap_all_mapped [OF base] run Inr by simp
    have fr: "settled (others i s) v" "frame (view i s) v" using eff by simp_all
    have "state_inv ?s2 (owned[i := owned ! i]) (pending[i := []])"
      by (rule state_inv_backing [OF assms(1,2) fr mapped retirement_done [OF pinv ok lay keys]])
    moreover have "charged_bytes (vm_quota v) = charged_bytes (es_quota s) - n" using eff Inr by simp
    ultimately show ?thesis using res state_inv_in_use by auto
  qed
qed

lemma retire_all_effect:
  assumes "state_inv s owned pending" and "i + length bundles = length (es_components s)" and "drop i pending = bundles"
    and "retire_all drivers i bundles s = (r, s')"
  shows "in_use_mapped s' owned
     \<and> (\<forall>n. r = Inr n \<longrightarrow> state_inv s' owned (take i pending @ replicate (length bundles) []) \<and> length (es_components s') = length (es_components s)
          \<and> charged_bytes (es_quota s') = charged_bytes (es_quota s) - n)"
  using assms
proof (induction bundles arbitrary: i s pending r)
  case Nil
  then show ?case by (auto simp: ret_def intro: state_inv_in_use)
next
  case (Cons ids bundles)
  have i: "i < length (es_components s)" "i < length pending" using Cons.prems(1,2) by (simp_all add: state_inv_def)
  have ids: "pending ! i = ids" "drop (Suc i) pending = bundles" using Cons.prems(3) i(2) by (metis Cons_nth_drop_Suc list.inject)+
  obtain r1 s1 where run: "retire_component (drivers i) ids i s = (r1, s1)" by (cases "retire_component (drivers i) ids i s")
  note one = retire_component_effect [OF Cons.prems(1) i(1) run [folded ids(1)]]
  show ?case
  proof (cases r1)
    case (Inl e)
    then have "r = Inl e" "s' = s1" using Cons.prems(4) run by (simp_all add: bind_def)
    then show ?thesis using one by simp
  next
    case (Inr n)
    have inv1: "state_inv s1 owned (pending[i := []])" and len1: "length (es_components s1) = length (es_components s)"
      and charge1: "charged_bytes (es_quota s1) = charged_bytes (es_quota s) - n" using one Inr by simp_all
    obtain r2 where rest: "retire_all drivers (Suc i) bundles s1 = (r2, s')" and r: "r = (case r2 of Inl e \<Rightarrow> Inl e | Inr m \<Rightarrow> Inr (n + m))"
      using Cons.prems(4) run Inr by (cases "retire_all drivers (Suc i) bundles s1") (auto simp: bind_def ret_def split: sum.splits)
    have "Suc i + length bundles = length (es_components s1)" "drop (Suc i) (pending[i := []]) = bundles"
      using Cons.prems(2) len1 ids(2) by simp_all
    note IH = Cons.IH [OF inv1 this rest]
    have "take (Suc i) (pending[i := []]) @ replicate (length bundles) [] = take i pending @ replicate (length (ids # bundles)) []"
      using i(2) by (simp add: take_Suc_conv_app_nth)
    then show ?thesis using IH r len1 charge1 by (auto split: sum.splits)
  qed
qed

lemma finish_retirement_effect:
  assumes "state_inv s owned (plan_bundle_ids plan)" and "plan_open plan" and "finish_retirement drivers finished plan s = (r, s')"
  shows "in_use_mapped s' owned"
    and "r = Inr (released, plan') \<Longrightarrow> charged_bytes (es_quota s') = charged_bytes (es_quota s) - released
      \<and> (if finished then plan_completed plan' \<and> state_inv s' owned (no_retirement s')
         else plan' = plan \<and> s' = s \<and> released = 0)"
proof -
  have len: "length (plan_bundle_ids plan) = length (es_components s)" using assms(1) by (simp add: state_inv_def)
  obtain r1 s1 where run: "retire_all drivers 0 (plan_bundle_ids plan) s = (r1, s1)" by (cases "retire_all drivers 0 (plan_bundle_ids plan) s")
  have eff: "in_use_mapped s1 owned" "\<And>n. r1 = Inr n \<Longrightarrow> state_inv s1 owned (no_retirement s1) \<and> charged_bytes (es_quota s1) = charged_bytes (es_quota s) - n"
    using retire_all_effect [OF assms(1) _ _ run] len by simp_all
  have cases: "finish_retirement drivers finished plan s
      = (if finished then (case r1 of Inl e \<Rightarrow> (Inl e, s1) | Inr n \<Rightarrow> (Inr (n, plan\<lparr>plan_completed := True\<rparr>), s1)) else (Inr (0, plan), s))"
    using assms(2) run by (simp add: finish_retirement_def plan_open_def bind_def ret_def split: sum.splits)
  show "in_use_mapped s' owned" using cases assms(1,3) eff(1) state_inv_in_use by (auto split: if_splits sum.splits)
  show "charged_bytes (es_quota s') = charged_bytes (es_quota s) - released
      \<and> (if finished then plan_completed plan' \<and> state_inv s' owned (no_retirement s') else plan' = plan \<and> s' = s \<and> released = 0)"
    if "r = Inr (released, plan')"
    using cases assms(3) eff(2) that by (auto split: if_splits sum.splits)
qed

end
