(* ===== verification/Kv_Runtime.thy ===== *)
theory Kv_Runtime
  imports Kv_Safety
begin

section \<open>From construction to service\<close>

text \<open>
  Pool construction (\<^verbatim>\<open>around_init_pools\<close> of \<^verbatim>\<open>xpool/integrations/sglang/hooks/ecs.py\<close> and the constructors of the
  elastic allocators) and the steps of a serving rank: preparation, reclamation, completion of a retirement, and
  the allocations and releases of the engine. The theorems hold in every state these steps reach.
\<close>

subsection \<open>Pool construction\<close>

text \<open>\<open>reserves i\<close> and \<open>address_frees i\<close> are the driver's answers to the range calls of component \<open>i\<close>.\<close>

fun prepare_backings ::
    "(nat \<Rightarrow> cu_driver) \<Rightarrow> (nat \<Rightarrow> cu_result + int) \<Rightarrow> (nat \<Rightarrow> cu_result option) \<Rightarrow> nat \<Rightarrow> kv_vmm_layout list \<Rightarrow> memory_quota \<Rightarrow>
     exn option \<times> kv_backing list \<times> memory_quota" where
  "prepare_backings drivers reserves address_frees i [] q = (None, [], q)"
| "prepare_backings drivers reserves address_frees i (lay # layouts) q =
     (case KvVmmBacking (drivers i) (reserves i) (address_frees i) lay q of
        (Inl e, v) \<Rightarrow> (Some e, [], vm_quota v)
      | (Inr _, v) \<Rightarrow>
          (case prepare_backings drivers reserves address_frees (Suc i) layouts (vm_quota v) of
             (failed, bs, q') \<Rightarrow> (failed, vm_backing v # bs, q')))"

text \<open>Closing the prepared backings in reverse order; the first failure ends it.\<close>

fun close_backings ::
    "(nat \<Rightarrow> cu_driver) \<Rightarrow> (nat \<Rightarrow> cu_result option) \<Rightarrow> (nat \<times> kv_backing) list \<Rightarrow> memory_quota \<Rightarrow> unit result \<times> memory_quota" where
  "close_backings drivers address_frees [] q = (Inr (), q)"
| "close_backings drivers address_frees ((i, b) # rest) q =
     (case close_backing (drivers i) (address_frees i) \<lparr>vm_backing = b, vm_quota = q\<rparr> of
        (Inl e, v) \<Rightarrow> (Inl e, vm_quota v)
      | (Inr _, v) \<Rightarrow> close_backings drivers address_frees rest (vm_quota v))"

definition pool_quota :: "kv_vmm_layout list \<Rightarrow> memory_quota result" where
  "pool_quota layouts = rbind (ElasticContextStateProfile (map profile layouts)) (\<lambda>pools. MemoryQuota (profile_floor_bytes pools))"

text \<open>
  \<open>factory\<close> is the original engine factory, run over the prepared backings; it makes no charge. \<open>closers\<close> answers the calls of
  the cleanup, whether a backing or the factory failed.
\<close>

definition around_init_pools ::
    "(nat \<Rightarrow> cu_driver) \<Rightarrow> (nat \<Rightarrow> cu_driver) \<Rightarrow> (nat \<Rightarrow> cu_result + int) \<Rightarrow> (nat \<Rightarrow> cu_result option) \<Rightarrow>
     (kv_backing list \<Rightarrow> 'a result) \<Rightarrow> kv_vmm_layout list \<Rightarrow> memory_quota \<Rightarrow> 'a result \<times> memory_quota" where
  "around_init_pools drivers closers reserves address_frees factory layouts quota =
     (case prepare_backings drivers reserves address_frees 0 layouts quota of
        (failure, bs, q) \<Rightarrow>
          (case (case failure of None \<Rightarrow> factory bs | Some e \<Rightarrow> Inl e) of
             Inr pools \<Rightarrow> (Inr pools, q)
           | Inl e \<Rightarrow>
               if is_terminal_device_error e then (Inl e, q)
               else (case close_backings closers address_frees (rev (zip [0..<length bs] bs)) q of
                       (Inl e', q') \<Rightarrow> (Inl e', q')
                     | (Inr _, q') \<Rightarrow> (Inl e, q'))))"

subsection \<open>Allocators\<close>

text \<open>The constructors: no retirement, then the engine constructor, which clears.\<close>

definition ElasticAllocator :: "'q engine_allocator \<Rightarrow> child_kind \<Rightarrow> bool \<Rightarrow> kv_backing \<Rightarrow> page_allocator result" where
  "ElasticAllocator eng kind sorts b =
     (case clear_pages eng b
        \<lparr>child_kind = kind, page_size = token_page_size (kv_layout b),
         pool_pages = token_capacity (kv_layout b) div token_page_size (kv_layout b), need_sort = sorts, free_pages = [],
         release_pages = [], staged_pages = [], num_staged_pages = 0, unavailable_pages = [], retiring_pages = []\<rparr> of
        (Inl e, _) \<Rightarrow> Inl e
      | (Inr _, a) \<Rightarrow> Inr a)"

text \<open>
  The pools the factory builds: one component, or the Full and the window pool, each with its allocator, over the prepared
  backings; then \<^verbatim>\<open>SglangElasticContextState.create\<close> over them. The identity checks of the wiring hold by construction.
\<close>

definition build_components :: "'q engine_allocator \<Rightarrow> child_kind \<Rightarrow> bool \<Rightarrow> kv_backing list \<Rightarrow> kv_component list result" where
  "build_components eng kind sorts bs =
     rbind (rmap (ElasticAllocator eng kind sorts) bs) (\<lambda>as.
       Inr (map2 (\<lambda>(t, a) b. \<lparr>comp_type = t, comp_allocator = a, comp_backing = b\<rparr>)
              (zip (take (length bs) [FULL, SWA]) as) bs))"

definition start_state ::
    "'q engine_allocator \<Rightarrow> child_kind \<Rightarrow> bool \<Rightarrow> (nat \<Rightarrow> cu_driver) \<Rightarrow> (nat \<Rightarrow> cu_driver) \<Rightarrow> (nat \<Rightarrow> cu_result + int) \<Rightarrow>
     (nat \<Rightarrow> cu_result option) \<Rightarrow> kv_vmm_layout list \<Rightarrow> elastic_state result" where
  "start_state eng kind sorts drivers closers reserves address_frees layouts =
     rbind (pool_quota layouts) (\<lambda>quota.
       case around_init_pools drivers closers reserves address_frees (build_components eng kind sorts) layouts quota of
         (Inl e, _) \<Rightarrow> Inl e
       | (Inr components, q) \<Rightarrow> Inr \<lparr>es_components = components, es_quota = q\<rparr>)"

section \<open>A constructed state satisfies the invariant\<close>

text \<open>Documented behaviour of the driver: a successful range reservation returns a non-null address.\<close>

definition reserves_ok :: "(nat \<Rightarrow> cu_result + int) \<Rightarrow> bool" where
  "reserves_ok reserves \<longleftrightarrow> (\<forall>i base. reserves i = Inr base \<longrightarrow> base \<noteq> 0)"

definition sound_backing :: "kv_vmm_layout \<Rightarrow> kv_backing \<Rightarrow> bool" where
  "sound_backing lay b \<longleftrightarrow> kv_layout b = lay \<and> kv_base b \<noteq> 0 \<and> backing_ok b
     \<and> (\<forall>i\<in>bundle_keys b. dict_get (kv_bundles b) i = Some True)"

abbreviation backing_bytes :: "kv_backing \<Rightarrow> int" where
  "backing_bytes b \<equiv> int (length (kv_bundles b)) * bundle_bytes (profile (kv_layout b))"

lemma backing_constructed:
  assumes "KvVmmBacking drv reserve address_free lay q = (Inr (), v)" and "quota_ok q" and "pool_profile_ok (profile lay)"
    and "geometry_ok lay" and "\<And>base. reserve = Inr base \<Longrightarrow> base \<noteq> 0"
  shows "sound_backing lay (vm_backing v) \<and> quota_ok (vm_quota v) \<and> limit_bytes (vm_quota v) = limit_bytes q
     \<and> charged_bytes (vm_quota v) = charged_bytes q + backing_bytes (vm_backing v)"
proof -
  let ?s0 = "\<lambda>base. \<lparr>vm_backing = \<lparr>kv_layout = lay, kv_base = base, kv_bundles = []\<rparr>, vm_quota = q\<rparr>"
  let ?floor = "[0..floor_bundles (profile lay) - 1]"
  obtain base where base: "reserve = Inr base" and ok: "try_map drv ?floor (?s0 base) = (Inr True, v)"
  proof (cases reserve)
    case (Inl code)
    then show ?thesis using assms(1) by (auto simp: KvVmmBacking_def Let_def split: sum.splits)
  next
    case (Inr base)
    obtain r s1 where run: "try_map drv ?floor (?s0 base) = (r, s1)" by (cases "try_map drv ?floor (?s0 base)")
    have "r = Inr True \<and> v = s1" using assms(1) Inr run
      by (cases "close_backing drv address_free s1")
         (auto simp: KvVmmBacking_def Let_def bind_def ret_def raise_def split: sum.splits if_splits)
    then show ?thesis using that Inr run by blast
  qed
  have s0: "settled (charged_bytes q) (?s0 base)" using assms(2,3) by (simp add: settled_def backed_bytes_def quota_ok_def)
  note eff = try_map_effect [OF s0 ok]
  have "all_mapped v" by (rule try_map_all_mapped [OF s0 _ ok]) (simp add: all_mapped_def)
  moreover have lay: "kv_layout (vm_backing v) = lay" "kv_base (vm_backing v) = base" using eff by (simp_all add: frame_def)
  moreover have "backing_ok (vm_backing v)" using eff assms(4) lay(1) by (intro backing_ok_settled) auto
  moreover have "limit_bytes (vm_quota v) = limit_bytes q" "quota_ok (vm_quota v)"
    "charged_bytes (vm_quota v) = charged_bytes q + backing_bytes (vm_backing v)"
    using eff by (simp_all add: frame_def settled_def backed_bytes_def)
  ultimately show ?thesis using assms(5) [OF base] by (simp add: sound_backing_def all_mapped_def)
qed

lemma backings_prepared:
  assumes "reserves_ok reserves"
  shows "prepare_backings drivers reserves address_frees i layouts q = (None, bs, q') \<Longrightarrow> quota_ok q \<Longrightarrow>
     \<forall>lay\<in>set layouts. geometry_ok lay \<and> pool_profile_ok (profile lay) \<Longrightarrow>
     list_all2 sound_backing layouts bs \<and> quota_ok q' \<and> limit_bytes q' = limit_bytes q
     \<and> charged_bytes q' = charged_bytes q + sum_list (map backing_bytes bs)"
proof (induction layouts arbitrary: i q bs)
  case Nil
  then show ?case by simp
next
  case (Cons lay layouts)
  obtain r v where run: "KvVmmBacking (drivers i) (reserves i) (address_frees i) lay q = (r, v)"
    by (cases "KvVmmBacking (drivers i) (reserves i) (address_frees i) lay q")
  obtain bs' where bs: "r = Inr ()" "bs = vm_backing v # bs'"
    "prepare_backings drivers reserves address_frees (Suc i) layouts (vm_quota v) = (None, bs', q')"
    using Cons.prems(1) run by (auto split: sum.splits prod.splits)
  have one: "sound_backing lay (vm_backing v)" "quota_ok (vm_quota v)" "limit_bytes (vm_quota v) = limit_bytes q"
    "charged_bytes (vm_quota v) = charged_bytes q + backing_bytes (vm_backing v)"
    using backing_constructed [OF run [unfolded bs(1)] Cons.prems(2)] Cons.prems(3) assms unfolding reserves_ok_def by auto
  note IH = Cons.IH [OF bs(3) one(2)]
  show ?case using IH Cons.prems(3) one bs(2) by simp
qed

lemma allocator_constructed:
  assumes "engine_ok eng" and "backing_ok b" and "ElasticAllocator eng kind sorts b = Inr a"
  shows "pages_inv b a [] []"
proof -
  let ?a0 = "\<lparr>child_kind = kind, page_size = token_page_size (kv_layout b),
         pool_pages = token_capacity (kv_layout b) div token_page_size (kv_layout b), need_sort = sorts, free_pages = [],
         release_pages = [], staged_pages = [], num_staged_pages = 0, unavailable_pages = [], retiring_pages = []\<rparr>"
  have clear: "clear_pages eng b ?a0 = (Inr (), a)"
    using assms(3) by (cases "clear_pages eng b ?a0") (auto simp: ElasticAllocator_def split: sum.splits)
  have shape: "child_shape ?a0" using assms(2) by (cases kind) (auto simp: child_shape_def backing_ok_def geometry_ok_def)
  then show ?thesis
    using clear_pages_run [OF assms(1,2) shape, of "[]"] clear by (auto simp: past_page_def hits_def)
qed

lemma pool_quota_ok: "pool_quota layouts = Inr q \<Longrightarrow> quota_ok q \<and> charged_bytes q = 0"
  by (auto simp: pool_quota_def MemoryQuota_def rbind_Inr_iff ensure_uint64_Inr_iff quota_ok_def)

text \<open>The layouts of a rank: at most two, each validated.\<close>

definition rank_layouts :: "kv_vmm_layout list \<Rightarrow> bool" where
  "rank_layouts layouts \<longleftrightarrow> length layouts \<le> 2 \<and> (\<forall>lay\<in>set layouts. \<exists>raw. KvVmmLayout raw = Inr lay \<and> 0 < itemsize raw)"

lemma start_state_inv:
  assumes "engine_ok eng" and "reserves_ok reserves" and "rank_layouts layouts"
    and "start_state eng kind sorts drivers closers reserves address_frees layouts = Inr s"
  shows "state_inv s (map (\<lambda>_. []) layouts) (no_retirement s) \<and> length (es_components s) = length layouts"
proof -
  obtain q0 where q0: "pool_quota layouts = Inr q0" using assms(4) by (auto simp: start_state_def rbind_Inr_iff)
  obtain bs q as where prep: "prepare_backings drivers reserves address_frees 0 layouts q0 = (None, bs, q)"
    and as: "rmap (ElasticAllocator eng kind sorts) bs = Inr as"
    and s: "s = \<lparr>es_components = map2 (\<lambda>(t, a) b. \<lparr>comp_type = t, comp_allocator = a, comp_backing = b\<rparr>)
                                    (zip (take (length bs) [FULL, SWA]) as) bs, es_quota = q\<rparr>"
    using assms(4) q0
    by (auto simp: start_state_def around_init_pools_def build_components_def rbind_Inr_iff
             split: prod.splits option.splits if_splits sum.splits)
  have lays: "\<forall>lay\<in>set layouts. geometry_ok lay \<and> pool_profile_ok (profile lay)"
    using assms(3) KvVmmLayout_ok by (auto simp: rank_layouts_def)
  note backings = backings_prepared [OF assms(2) prep _ lays] pool_quota_ok [OF q0]
  have len: "length bs = length layouts" "length as = length bs" "length bs \<le> 2"
    using backings rmap_length [OF as] assms(3) by (auto simp: rank_layouts_def dest: list_all2_lengthD)
  have n: "length (es_components s) = length layouts" using s len by simp
  have comp: "comp_backing (es_components s ! i) = bs ! i" "comp_allocator (es_components s ! i) = as ! i" if "i < length layouts" for i
    using that s len by simp_all
  have bytes: "map component_bytes (es_components s) = map backing_bytes bs"
  proof (rule nth_equalityI)
    fix i assume "i < length (map component_bytes (es_components s))"
    then show "map component_bytes (es_components s) ! i = map backing_bytes bs ! i"
      using comp(1) n len by (simp add: component_bytes_def)
  qed (use n len in simp)
  have "component_inv (es_components s ! i) [] []" if i: "i < length layouts" for i
  proof -
    have b: "sound_backing (layouts ! i) (bs ! i)" using backings i by (auto simp: list_all2_conv_all_nth)
    have "ElasticAllocator eng kind sorts (bs ! i) = Inr (as ! i)" using as i len by (simp add: rmap_Inr_iff)
    then have "pages_inv (bs ! i) (as ! i) [] []" using allocator_constructed [OF assms(1)] b by (simp add: sound_backing_def)
    then show ?thesis using b lays i unfolding component_inv_def comp [OF i] by (simp add: sound_backing_def)
  qed
  then show ?thesis using backings n len unfolding state_inv_def bytes by (simp add: s)
qed

section \<open>Steps of a serving rank\<close>

text \<open>
  A configuration: the elastic state, the pages owned per component and the retirement under way. A step is an
  operation that returned; the scheduler starts a retirement only when none is pending. A cache eviction frees
  pages that were owned, and so does the engine.
\<close>

type_synonym 'e rank_config = "elastic_state \<times> int list list \<times> 'e reclaim_plan option"

definition still_open :: "'e reclaim_plan \<Rightarrow> 'e reclaim_plan option" where
  "still_open plan = (if plan_completed plan then None else Some plan)"

inductive rank_step :: "'q engine_allocator \<Rightarrow> 'e rank_config \<Rightarrow> 'e rank_config \<Rightarrow> bool" for eng where
  Prepare: "prepare_allocation eng drivers counts s = (Inr ok, s') \<Longrightarrow> rank_step eng (s, owned, plan) (s', owned, plan)"
| Reclaim_Empty: "prepare_reclaim eng cache release_bytes None s = Inr (Some plan) \<Longrightarrow> apply_reclaim eng cache plan s = (Inr plan', s') \<Longrightarrow>
    rank_step eng (s, owned, None) (s', owned, still_open plan')"
| Reclaim_Cache: "prepare_reclaim eng (Some owner) release_bytes (Some e) s = Inr (Some plan) \<Longrightarrow> cache_evict owner e = Inr frees \<Longrightarrow>
    length frees = length (es_components s) \<Longrightarrow> length owned' = length (es_components s) \<Longrightarrow>
    \<forall>i<length (es_components s). mset (owned ! i) = mset (frees ! i) + mset (owned' ! i) \<Longrightarrow>
    apply_reclaim eng (Some owner) plan s = (Inr plan', s') \<Longrightarrow> rank_step eng (s, owned, None) (s', owned', still_open plan')"
| Finish: "finish_retirement drivers finished plan s = (Inr (released, plan'), s') \<Longrightarrow>
    rank_step eng (s, owned, Some plan) (s', owned, still_open plan')"
| Alloc: "i < length (es_components s) \<Longrightarrow>
    alloc_pages eng in_phase threshold req (comp_allocator (es_components s ! i)) = (locations, journal, a') \<Longrightarrow>
    mset (exposed (comp_allocator (es_components s ! i))) = mset taken + mset (exposed a') \<Longrightarrow>
    rank_step eng (s, owned, plan) (with_allocator i a' s, owned[i := taken @ owned ! i], plan)"
| Free: "i < length (es_components s) \<Longrightarrow> mset (owned ! i) = mset ps + mset rest \<Longrightarrow>
    rank_step eng (s, owned, plan) (with_allocator i (free_page_ids eng ps (comp_allocator (es_components s ! i))) s, owned[i := rest], plan)"
| Clear: "i < length (es_components s) \<Longrightarrow> clear_pages eng (comp_backing (es_components s ! i)) (comp_allocator (es_components s ! i)) = (Inr (), a') \<Longrightarrow>
    rank_step eng (s, owned, plan) (with_allocator i a' s, owned[i := []], plan)"
| Adopt: "set_limit target (es_quota s) = (Inr (), q) \<Longrightarrow> rank_step eng (s, owned, plan) (s\<lparr>es_quota := q\<rparr>, owned, plan)"

definition rank_inv :: "'e rank_config \<Rightarrow> bool" where
  "rank_inv cfg = (case cfg of (s, owned, plan) \<Rightarrow>
     (case plan of None \<Rightarrow> state_inv s owned (no_retirement s)
      | Some p \<Rightarrow> plan_open p \<and> state_inv s owned (plan_bundle_ids p)))"

abbreviation pending_of :: "'e rank_config \<Rightarrow> int list list" where
  "pending_of cfg \<equiv> (case cfg of (s, owned, None) \<Rightarrow> no_retirement s | (s, owned, Some p) \<Rightarrow> plan_bundle_ids p)"

lemma rank_inv_pending: "rank_inv (s, owned, plan) \<longleftrightarrow> state_inv s owned (pending_of (s, owned, plan)) \<and> (\<forall>p. plan = Some p \<longrightarrow> plan_open p)"
  by (auto simp: rank_inv_def split: option.splits)

lemma rank_inv_same_pending:
  assumes "rank_inv (s, owned, plan)" and "state_inv s' owned' (pending_of (s, owned, plan))"
  shows "rank_inv (s', owned', plan)"
proof -
  have "length (es_components s') = length (es_components s)" using assms by (cases plan) (auto simp: rank_inv_def state_inv_def)
  then show ?thesis using assms by (cases plan) (auto simp: rank_inv_def)
qed

lemma rank_step_inv:
  assumes "engine_ok eng" and "rank_step eng cfg cfg'" and "rank_inv cfg"
  shows "rank_inv cfg'"
  using assms(2,3)
proof (cases rule: rank_step.cases)
  case (Prepare drivers counts s ok s' owned plan)
  then show ?thesis using prepare_allocation_effect(2) [OF assms(1)] assms(3) rank_inv_same_pending rank_inv_pending by blast
next
  case (Reclaim_Empty cache release_bytes s plan plan' s' owned)
  then have "state_inv s' owned (plan_bundle_ids plan') \<and> plan_open plan'"
    using apply_empty_effect [OF assms(1), of s owned] assms(3) by (fastforce simp: rank_inv_def)
  then show ?thesis using Reclaim_Empty by (simp add: rank_inv_def still_open_def plan_open_def)
next
  case (Reclaim_Cache owner release_bytes e s plan frees owned' owned plan' s')
  have inv: "state_inv s owned (no_retirement s)" using assms(3) Reclaim_Cache(1) by (simp add: rank_inv_def)
  have "state_inv s' owned' (plan_bundle_ids plan') \<and> (plan_open plan' \<or> plan_completed plan' \<and> plan_bundle_ids plan' = no_retirement s')"
    using apply_eviction_effect [OF assms(1) inv Reclaim_Cache(3-7)] Reclaim_Cache(8) by auto
  then show ?thesis using Reclaim_Cache(2) by (auto simp: rank_inv_def still_open_def plan_open_def)
next
  case (Finish drivers finished plan s released plan' s' owned)
  have inv: "state_inv s owned (plan_bundle_ids plan)" "plan_open plan" using assms(3) Finish(1) by (simp_all add: rank_inv_def)
  note eff = finish_retirement_effect(2) [OF inv Finish(3) refl]
  show ?thesis
  proof (cases finished)
    case True
    then show ?thesis using eff Finish(2) by (simp add: rank_inv_def still_open_def)
  next
    case False
    then have "plan' = plan" "s' = s" using eff by simp_all
    then show ?thesis using inv Finish(2) by (simp add: rank_inv_def still_open_def plan_open_def)
  qed
next
  case (Alloc i s in_phase threshold req locations journal a' taken owned plan)
  let ?c = "es_components s ! i" and ?p = "pending_of (s, owned, plan)"
  have inv: "state_inv s owned ?p" using assms(3) Alloc(1) rank_inv_pending by blast
  obtain taken0 where t: "pages_inv (comp_backing ?c) a' (taken0 @ owned ! i) (?p ! i)" "mset (exposed (comp_allocator ?c)) = mset taken0 + mset (exposed a')"
    using alloc_pages_effect [OF assms(1) component_pages [OF inv Alloc(3)] Alloc(4)] by blast
  have "mset taken = mset taken0" using t(2) Alloc(5) by simp
  then have "pages_inv (comp_backing ?c) a' (taken @ owned ! i) (?p ! i)"
    by (intro pages_inv_exposed [OF t(1)]) (simp_all add: pages_invD(4) [OF t(1)])
  from state_inv_allocator [OF inv Alloc(3) this] show ?thesis
    using rank_inv_same_pending assms(3) Alloc(1,2) by simp
next
  case (Free i s owned ps rest plan)
  let ?c = "es_components s ! i" and ?p = "pending_of (s, owned, plan)"
  have inv: "state_inv s owned ?p" using assms(3) Free(1) rank_inv_pending by blast
  from state_inv_allocator [OF inv Free(3) free_pages_effect [OF assms(1) component_pages [OF inv Free(3)] Free(4)]]
  show ?thesis using rank_inv_same_pending assms(3) Free(1,2) by simp
next
  case (Clear i s a' owned plan)
  let ?p = "pending_of (s, owned, plan)"
  have inv: "state_inv s owned ?p" using assms(3) Clear(1) rank_inv_pending by blast
  from state_inv_allocator [OF inv Clear(3) clear_pages_effect(3) [OF assms(1) component_pages [OF inv Clear(3)] Clear(4) refl]]
  show ?thesis using rank_inv_same_pending assms(3) Clear(1,2) by simp
next
  case (Adopt target s q owned plan)
  let ?p = "pending_of (s, owned, plan)"
  have inv: "state_inv s owned ?p" using assms(3) Adopt(1) rank_inv_pending by blast
  have "quota_ok q \<and> charged_bytes q = charged_bytes (es_quota s)"
    using Adopt(3) inv by (auto simp: set_limit_def state_inv_def quota_ok_def ensure_uint64_def split: sum.splits if_splits)
  then have "state_inv (s\<lparr>es_quota := q\<rparr>) owned ?p" using inv by (simp add: state_inv_def)
  then show ?thesis using rank_inv_same_pending assms(3) Adopt(1,2) by blast
qed

section \<open>Guarantees\<close>

lemma reachable_inv:
  assumes "engine_ok eng" and "reserves_ok reserves" and "rank_layouts layouts"
    and "start_state eng kind sorts drivers closers reserves address_frees layouts = Inr s0"
    and "(rank_step eng)\<^sup>*\<^sup>* (s0, map (\<lambda>_. []) layouts, None) (s, owned, plan)"
  shows "rank_inv (s, owned, plan)"
proof -
  have "rank_inv (s0, map (\<lambda>_. []) layouts, None)" using conjunct1 [OF start_state_inv [OF assms(1-4)]] by (simp only: rank_inv_def prod.case option.case)
  with assms(5) show ?thesis by (induction rule: rtranclp_induct) (use rank_step_inv [OF assms(1)] in blast)+
qed

text \<open>
  C11: No page in use loses its memory. From the construction of the pools on, in every interleaving of
  preparation, reclamation, completed retirements, limit changes, allocations, releases and resets, each page
  a request owns or the engine may hand out lies on mapped bundles, while the ledger charges exactly the
  bundles of all components within its limit. The pages stay backed even when the next preparation or
  retirement fails in the driver.
\<close>

theorem pages_in_use_stay_backed:
  assumes "engine_ok eng" and "reserves_ok reserves" and "rank_layouts layouts"
    and "start_state eng kind sorts drivers closers reserves address_frees layouts = Inr s0"
    and "(rank_step eng)\<^sup>*\<^sup>* (s0, map (\<lambda>_. []) layouts, None) (s, owned, plan)"
  shows "in_use_mapped s owned \<and> charged_bytes (es_quota s) = sum_list (map component_bytes (es_components s))
     \<and> charged_bytes (es_quota s) \<le> limit_bytes (es_quota s)
     \<and> in_use_mapped (snd (prepare_allocation eng drivers' counts s)) owned
     \<and> (\<forall>p. plan = Some p \<longrightarrow> in_use_mapped (snd (finish_retirement drivers' finished p s)) owned)"
proof -
  have inv: "rank_inv (s, owned, plan)" by (rule reachable_inv [OF assms])
  then have state: "state_inv s owned (pending_of (s, owned, plan))" by (simp only: rank_inv_pending)
  have "in_use_mapped (snd (prepare_allocation eng drivers' counts s)) owned"
    by (rule prepare_allocation_effect(1) [OF assms(1) state prod.collapse [symmetric]])
  moreover have "in_use_mapped (snd (finish_retirement drivers' finished p s)) owned" if "plan = Some p" for p
    using inv that by (intro finish_retirement_effect(1) [OF _ _ prod.collapse [symmetric]]) (simp_all add: rank_inv_def)
  ultimately show ?thesis using state state_inv_in_use by (auto simp: state_inv_def quota_ok_def)
qed

subsection \<open>Priced allocations\<close>

definition driver_succeeds :: "cu_driver \<Rightarrow> bool" where
  "driver_succeeds drv \<longleftrightarrow> (\<forall>i. cu_create drv i = None \<and> cu_map drv i = None \<and> cu_access drv i = None)"

lemma acquire_succeeds: "driver_succeeds drv \<Longrightarrow> \<exists>s'. acquire_bundles drv ids s = (Inr (), ids, s')"
proof (induction ids arbitrary: s)
  case (Cons i ids)
  obtain s1 where one: "acquire_bundle drv i s = (Inr (), True, s1)"
    using Cons.prems by (simp add: acquire_bundle_def driver_succeeds_def bind_def set_bundles_run check_driver_def ret_def)
  obtain s2 where "acquire_bundles drv ids s1 = (Inr (), ids, s2)" using Cons.IH [OF Cons.prems] by blast
  then show ?case using one by simp
qed simp

lemma try_map_succeeds:
  assumes "settled n s" and "driver_succeeds drv" and "kv_base (vm_backing s) \<noteq> 0"
    and "\<forall>i\<in>set ids. 0 \<le> i \<and> i < bundle_capacity (profile_of s)"
    and "int (length (missing_bundles ids s)) * bundle_bytes (profile_of s) \<le> limit_bytes (vm_quota s) - charged_bytes (vm_quota s)"
  shows "\<exists>s'. try_map drv ids s = (Inr True, s')"
proof -
  let ?bytes = "int (length (missing_bundles ids s)) * bundle_bytes (profile_of s)"
  have p: "pool_profile_ok (profile_of s)" and q: "quota_ok (vm_quota s)" using assms(1) by (simp_all add: settled_def)
  have "bundle_capacity (profile_of s) \<le> bundle_bytes (profile_of s) * bundle_capacity (profile_of s)"
    using p mult_right_mono [of 1 "bundle_bytes (profile_of s)" "bundle_capacity (profile_of s)"] by (auto simp: pool_profile_ok_def)
  then have "bundle_capacity (profile_of s) \<le> UINT64_MAX" using p by (auto simp: pool_profile_ok_def)
  then have ids: "ensure_uint64 ids = Inr ()" using assms(4) by (fastforce simp: ensure_uint64_Inr_iff)
  have "0 \<le> ?bytes" "?bytes \<le> UINT64_MAX" using p q assms(5) by (auto simp: pool_profile_ok_def quota_ok_def)
  then obtain q' where reserve: "try_reserve ?bytes (vm_quota s) = (Inr True, q')"
    using assms(5) by (auto simp: try_reserve_def ensure_uint64_def split: sum.splits)
  obtain s' where "acquire_bundles drv (missing_bundles ids s) (s\<lparr>vm_quota := q'\<rparr>) = (Inr (), missing_bundles ids s, s')"
    using acquire_succeeds [OF assms(2)] by blast
  then have "map_missing drv (missing_bundles ids s) (bundle_bytes (profile_of s)) (s\<lparr>vm_quota := q'\<rparr>) = (Inr True, s')"
    by (simp add: map_missing_def)
  then show ?thesis using ids assms(3,4) reserve
    by (auto simp: try_map_def Let_def bind_def on_quota_def not_le)
qed

lemma component_bytes_card:
  assumes "component_inv c owned pending"
  shows "component_bytes c = int (card (bundle_keys (comp_backing c))) * bundle_bytes (comp_profile c)"
proof -
  have "distinct (dict_keys (kv_bundles (comp_backing c)))"
    using assms pages_invD(1) by (auto simp: component_inv_def backing_ok_def)
  from distinct_card [OF this] show ?thesis by (simp add: component_bytes_def)
qed

text \<open>What one component still needs is charged exactly once.\<close>

lemma map_component_succeeds:
  assumes "state_inv s owned pending" and "i < length (es_components s)" and "driver_succeeds drv" and "distinct ids"
    and "\<forall>k\<in>set ids. k \<notin> bundle_keys (comp_backing (es_components s ! i)) \<and> 0 \<le> k \<and> k < bundle_capacity (comp_profile (es_components s ! i))"
    and "int (length ids) * bundle_bytes (comp_profile (es_components s ! i)) \<le> limit_bytes (es_quota s) - charged_bytes (es_quota s)"
  shows "\<exists>s'. on_backing i (try_map drv ids) s = (Inr True, s')
     \<and> charged_bytes (es_quota s') = charged_bytes (es_quota s) + int (length ids) * bundle_bytes (comp_profile (es_components s ! i))"
proof -
  let ?c = "es_components s ! i" and ?u = "bundle_bytes (comp_profile (es_components s ! i))"
  have c: "component_inv ?c (owned ! i) (pending ! i)" using assms(1,2) by (simp add: state_inv_def)
  have "set ids - bundle_keys (comp_backing ?c) = set ids" using assms(5) by blast
  then have "set ids - set (dict_keys (bundles_of (view i s))) = set ids" by simp
  then have "length (missing_bundles ids (view i s)) = length ids"
    unfolding missing_bundles_def using assms(4) by (simp only: sorted_list_of_set.length_sorted_key_list_of_set distinct_card)
  then obtain v where v: "try_map drv ids (view i s) = (Inr True, v)"
    using try_map_succeeds [OF view_settled(1) [OF assms(1,2)] assms(3), of ids] c assms(5,6) by (auto simp: component_inv_def)
  obtain s' where s': "on_backing i (try_map drv ids) s = (Inr True, s')" using on_backing_run [of "try_map drv ids", OF v] by blast
  note eff = map_component [OF assms(1,2) s']
  have inv': "state_inv s' owned pending" and grown: "grows s s'" using eff(3) [OF refl] by simp_all
  let ?c' = "es_components s' ! i"
  have c': "component_inv ?c' (owned ! i) (pending ! i)" using inv' assms(2) grown by (simp add: state_inv_def grows_def)
  have len: "length (es_components s') = length (es_components s)" using grown by (simp add: grows_def)
  have "es_components s' = (es_components s)[i := ?c']"
    using eff(2) len assms(2) by (auto simp: list_eq_iff_nth_eq nth_list_update)
  then have "sum_list (map component_bytes (es_components s')) = sum_list (map component_bytes (es_components s)) - component_bytes ?c + component_bytes ?c'"
    using sum_list_replace [OF assms(2), of component_bytes ?c'] by simp
  moreover have "component_bytes ?c' = component_bytes ?c + int (length ids) * ?u"
  proof -
    have keys: "bundle_keys (comp_backing ?c') = bundle_keys (comp_backing ?c) \<union> set ids" using eff(4) [OF refl] .
    have "bundle_keys (comp_backing ?c) \<inter> set ids = {}" using assms(5) by blast
    then have "card (bundle_keys (comp_backing ?c')) = card (bundle_keys (comp_backing ?c)) + length ids"
      unfolding keys by (simp add: card_Un_disjoint distinct_card assms(4) del: set_map)
    then show ?thesis
      unfolding component_bytes_card [OF c] component_bytes_card [OF c'] grows_component(2) [OF grown assms(2)] by (simp add: algebra_simps)
  qed
  ultimately have "charged_bytes (es_quota s') = charged_bytes (es_quota s) + int (length ids) * ?u"
    using inv' assms(1) by (simp add: state_inv_def)
  then show ?thesis using s' by blast
qed

definition plan_cost :: "kv_component \<Rightarrow> page_plan \<Rightarrow> int" where
  "plan_cost c p = int (length (missing_bundle_ids p)) * bundle_bytes (comp_profile c)"

definition plan_fits :: "kv_component \<Rightarrow> page_plan \<Rightarrow> bool" where
  "plan_fits c p \<longleftrightarrow> distinct (missing_bundle_ids p) \<and> (\<forall>k\<in>set (missing_bundle_ids p). k \<notin> bundle_keys (comp_backing c)
     \<and> 0 \<le> k \<and> k < bundle_capacity (comp_profile c))"

lemma map_plans_succeeds:
  assumes "state_inv s owned pending" and "i + length plans = length (es_components s)" and "\<forall>i. driver_succeeds (drivers i)"
    and "list_all2 plan_fits (drop i (es_components s)) plans"
    and "sum_list (map2 plan_cost (drop i (es_components s)) plans) \<le> limit_bytes (es_quota s) - charged_bytes (es_quota s)"
  shows "\<exists>s'. map_plans drivers i plans s = (Inr True, s')
     \<and> charged_bytes (es_quota s') = charged_bytes (es_quota s) + sum_list (map2 plan_cost (drop i (es_components s)) plans)"
  using assms
proof (induction plans arbitrary: i s)
  case Nil
  then show ?case by (simp add: ret_def)
next
  case (Cons p plans)
  let ?c = "es_components s ! i"
  have i: "i < length (es_components s)" using Cons.prems(2) by simp
  have split: "drop i (es_components s) = ?c # drop (Suc i) (es_components s)" using i by (simp add: Cons_nth_drop_Suc)
  have fits: "plan_fits ?c p" "list_all2 plan_fits (drop (Suc i) (es_components s)) plans" using Cons.prems(4) split by simp_all
  have later: "0 \<le> sum_list (map2 plan_cost (drop (Suc i) (es_components s)) plans)"
  proof (rule sum_list_nonneg)
    fix x assume "x \<in> set (map2 plan_cost (drop (Suc i) (es_components s)) plans)"
    then obtain c p' where x: "x = plan_cost c p'" "c \<in> set (drop (Suc i) (es_components s))" by (auto dest: set_zip_leftD)
    then obtain j where "j < length (es_components s)" "c = es_components s ! j" using in_set_dropD by (metis in_set_conv_nth)
    then have "pool_profile_ok (comp_profile c)" using Cons.prems(1) by (auto simp: state_inv_def component_inv_def)
    then show "0 \<le> x" by (simp add: x(1) plan_cost_def pool_profile_ok_def)
  qed
  have sum: "sum_list (map2 plan_cost (drop i (es_components s)) (p # plans))
      = plan_cost ?c p + sum_list (map2 plan_cost (drop (Suc i) (es_components s)) plans)" unfolding split by simp
  obtain s1 where s1: "on_backing i (try_map (drivers i) (missing_bundle_ids p)) s = (Inr True, s1)"
    "charged_bytes (es_quota s1) = charged_bytes (es_quota s) + plan_cost ?c p"
    using map_component_succeeds [OF Cons.prems(1) i, of "drivers i" "missing_bundle_ids p"] Cons.prems(3,5) fits(1) later sum
    by (auto simp: plan_fits_def plan_cost_def)
  note eff = map_component [OF Cons.prems(1) i s1(1)]
  have inv1: "state_inv s1 owned pending" and grown: "grows s s1" using eff(3) [OF refl] by simp_all
  have len: "length (es_components s1) = length (es_components s)" using grown by (simp add: grows_def)
  have same: "drop (Suc i) (es_components s1) = drop (Suc i) (es_components s)"
    using eff(2) len by (auto simp: list_eq_iff_nth_eq)
  have "limit_bytes (es_quota s1) = limit_bytes (es_quota s)" using grown by (simp add: grows_def)
  then obtain s' where s': "map_plans drivers (Suc i) plans s1 = (Inr True, s')"
    "charged_bytes (es_quota s') = charged_bytes (es_quota s1) + sum_list (map2 plan_cost (drop (Suc i) (es_components s)) plans)"
    using Cons.IH [OF inv1, of "Suc i"] Cons.prems(2,3,5) len fits(2) s1(2) sum unfolding same by auto
  show ?case using s1 s' sum by (auto simp: bind_def)
qed

lemma plan_page_facts:
  assumes "engine_ok eng" and "component_inv c owned pending" and "0 \<le> n"
    and "plan_pages eng (comp_backing c) (comp_allocator c) n = Inr (Some p)"
  shows "plan_fits c p" and "int (length (plan_page_ids p)) = n" "distinct (plan_page_ids p)"
    and "set (plan_page_ids p) \<subseteq> set (exposed (comp_allocator c)) \<union> set (publishable (comp_allocator c))"
    and "\<lbrakk>q \<in> set (plan_page_ids p); touches (kv_layout (comp_backing c)) q k\<rbrakk> \<Longrightarrow> k \<in> bundle_keys (comp_backing c) \<union> set (missing_bundle_ids p)"
proof -
  have inv: "pages_inv (comp_backing c) (comp_allocator c) owned pending" using assms(2) by (simp add: component_inv_def)
  note geo = pages_invD(2) [OF inv]
  have exact: "int (length (plan_page_ids p)) = n" "distinct (plan_page_ids p)"
    "set (plan_page_ids p) \<subseteq> set (exposed (comp_allocator c)) \<union> set (publishable (comp_allocator c))" "distinct (missing_bundle_ids p)"
    "set (missing_bundle_ids p) = {k. k \<notin> bundle_keys (comp_backing c) \<and> (\<exists>q\<in>set (plan_page_ids p). touches (kv_layout (comp_backing c)) q k)}"
    using plan_pages_exact [OF assms(1) inv assms(3)] assms(4) by auto
  then show "int (length (plan_page_ids p)) = n" "distinct (plan_page_ids p)"
    "set (plan_page_ids p) \<subseteq> set (exposed (comp_allocator c)) \<union> set (publishable (comp_allocator c))" by blast+
  show "k \<in> bundle_keys (comp_backing c) \<union> set (missing_bundle_ids p)"
    if "q \<in> set (plan_page_ids p)" "touches (kv_layout (comp_backing c)) q k"
    unfolding exact(5) using that by blast
  have "0 \<le> k \<and> k < bundle_capacity (comp_profile c)" if "q \<in> set (plan_page_ids p)" "touches (kv_layout (comp_backing c)) q k" for q k
  proof -
    have "q \<in> set (exposed (comp_allocator c)) \<union> set (unavailable_pages (comp_allocator c))"
      using exact(3) that(1) by (auto simp: publishable_def)
    then show ?thesis using valid_pages [OF inv, of q] span_bounds [OF geo, of q] that(2) by (auto simp: touches_def)
  qed
  then show "plan_fits c p" unfolding plan_fits_def exact(5) using exact(4) by blast
qed

text \<open>
  C12: A price is a promise. When the immediate price of an allocation fits the limit and the driver answers,
  preparation succeeds, charges exactly the price and leaves at least the requested pages of every component
  free and resident; the state stays sound for the steps that follow.
\<close>

theorem priced_allocation_is_delivered:
  assumes "engine_ok eng" and "reserves_ok reserves" and "rank_layouts layouts"
    and "start_state eng kind sorts drivers closers reserves address_frees layouts = Inr s0"
    and "(rank_step eng)\<^sup>*\<^sup>* (s0, map (\<lambda>_. []) layouts, None) (s, owned, plan)"
    and "allocation_bytes eng counts s = Inr (Some price)" and "price \<le> limit_bytes (es_quota s)"
    and "\<forall>i. driver_succeeds (drivers' i)"
  shows "\<exists>s'. prepare_allocation eng drivers' counts s = (Inr True, s') \<and> charged_bytes (es_quota s') = price
     \<and> list_all2 (\<le>) counts (resident_free_pages eng s')"
proof -
  have state: "state_inv s owned (pending_of (s, owned, plan))" (is "state_inv s owned ?pending")
    using reachable_inv [OF assms(1-5)] by (simp only: rank_inv_pending)
  obtain plans where plans: "plan_allocation eng counts s = Inr (Some plans)" "price = charged_bytes (es_quota s) + plans_cost plans s"
    using assms(6) by (auto simp: allocation_bytes_def rbind_Inr_iff split: option.splits)
  note each = plan_allocation_Some [OF plans(1)]
  let ?n = "length (es_components s)"
  have comp: "component_inv (es_components s ! i) (owned ! i) (?pending ! i)" if "i < ?n" for i using state that by (simp add: state_inv_def)
  have pos: "0 \<le> counts ! i" if "i < ?n" for i using each(2,3) that by simp
  note page_facts = plan_page_facts [OF assms(1) comp pos each(4)]
  have cost: "plans_cost plans s = sum_list (map2 plan_cost (es_components s) plans)"
    by (simp add: plans_cost_def plan_cost_def [abs_def])
  have fits: "list_all2 plan_fits (es_components s) plans" using page_facts(1) each(1) by (simp add: list_all2_conv_all_nth)
  obtain s1 where s1: "map_plans drivers' 0 plans s = (Inr True, s1)" "charged_bytes (es_quota s1) = price"
    using map_plans_succeeds [OF state, of 0 plans drivers'] each(1) assms(7,8) fits plans(2) cost by auto
  note mapped = map_plans_effect [OF state _ s1(1)]
  have inv1: "state_inv s1 owned ?pending" and grown: "grows s s1" using mapped each(1) by auto
  have n1: "length (es_components s1) = ?n" using grown by (simp add: grows_def)
  have range: "set [0..<?n] \<subseteq> {..<length (es_components s1)}" using n1 by auto
  obtain s2 where s2: "for_each (\<lambda>i. on_allocator i (publish_backed eng)) [0..<?n] s1 = (Inr (), s2)" "state_inv s2 owned ?pending"
    "es_quota s2 = es_quota s1" "length (es_components s2) = ?n"
    "\<forall>j\<in>set [0..<?n]. comp_backing (es_components s2 ! j) = comp_backing (es_components s1 ! j)
        \<and> mset (exposed (comp_allocator (es_components s2 ! j))) = mset (exposed (comp_allocator (es_components s1 ! j)))
          + mset (filter (fully_backed (comp_backing (es_components s1 ! j))) (publishable (comp_allocator (es_components s1 ! j))))"
    using publish_all [OF assms(1) inv1 distinct_upt range] unfolding n1 by blast
  have enough: "counts ! i \<le> resident_free_pages eng s2 ! i" if i: "i < ?n" for i
  proof -
    let ?c = "es_components s ! i" and ?c1 = "es_components s1 ! i" and ?a2 = "comp_allocator (es_components s2 ! i)"
    have keys: "bundle_keys (comp_backing ?c1) = bundle_keys (comp_backing ?c) \<union> set (missing_bundle_ids (plans ! i))"
      using mapped each(1) i by simp
    have same: "comp_allocator ?c1 = comp_allocator ?c" "kv_layout (comp_backing ?c1) = kv_layout (comp_backing ?c)"
      using grows_component [OF grown i] by simp_all
    have backed: "fully_backed (comp_backing ?c1) q" if "q \<in> set (plan_page_ids (plans ! i))" for q
      unfolding fully_backed_def keys same using page_facts(5) [OF i i i that] by blast
    have ms: "mset (exposed ?a2) = mset (exposed (comp_allocator ?c) @ filter (fully_backed (comp_backing ?c1)) (publishable (comp_allocator ?c)))"
      using s2(5) i same by simp
    have "set (plan_page_ids (plans ! i)) \<subseteq> set (exposed ?a2)"
      unfolding mset_eq_setD [OF ms] using page_facts(4) [OF i i i] backed by auto
    then have "length (plan_page_ids (plans ! i)) \<le> length (exposed ?a2)"
      using page_facts(3) [OF i i i] by (metis distinct_card card_length card_mono List.finite_set order_trans)
    then have "counts ! i \<le> int (length (exposed ?a2))" using page_facts(2) [OF i i i] by simp
    moreover have shape: "child_shape ?a2" using component_pages [OF s2(2), of i] s2(4) i pages_invD(4) by simp
    then have "available_size eng ?a2 div page_size ?a2 = int (length (exposed ?a2))"
      using engine_rules(2) [OF assms(1) shape] by (simp add: child_shape_def)
    ultimately show ?thesis using i s2(4) by (simp add: resident_free_pages_def)
  qed
  then have all: "list_all2 (\<le>) counts (resident_free_pages eng s2)"
    using each(2) s2(4) by (simp add: list_all2_conv_all_nth resident_free_pages_def)
  then have "\<forall>(available, n)\<in>set (zip (resident_free_pages eng s2) counts). available \<ge> n"
    by (auto simp: list_all2_conv_all_nth set_zip)
  moreover have "length (resident_free_pages eng s2) = length counts" using all by (simp add: list_all2_iff)
  ultimately have "prepare_allocation eng drivers' counts s = (Inr True, s2)"
    using plans s1(1) s2(1) assms(7)
    by (auto simp: prepare_allocation_def bind_def reading_def get_state_def ret_def zip_strict_def)
  then show ?thesis using all s1(2) s2(3) by auto
qed

section \<open>A concrete engine\<close>

definition sample_engine :: "nat engine_allocator" where
  "sample_engine =
     \<lparr>base_clear = \<lambda>a. a\<lparr>free_pages := [1..pool_pages a], release_pages := [], staged_pages := [], num_staged_pages := 0\<rparr>,
      get_all_free_pages = exposed,
      free_page_ids = \<lambda>ps a. a\<lparr>free_pages := free_pages a @ ps\<rparr>,
      available_size = \<lambda>a. int (length (exposed a)) * page_size a,
      merge_and_sort_free = \<lambda>a. a\<lparr>free_pages := sort (exposed a), release_pages := [], staged_pages := [], num_staged_pages := 0\<rparr>,
      base_alloc = \<lambda>n a. if n \<le> length (free_pages a) then (Some (take n (free_pages a)), a\<lparr>free_pages := drop n (free_pages a)\<rparr>)
                         else (None, a)\<rparr>"

lemma sample_engine_ok: "engine_ok sample_engine"
  by (auto simp: engine_ok_def sample_engine_def exposed_def elastic_part_def child_shape_def split: child_kind.splits)

definition sample_raw_layout :: kv_vmm_layout where
  "sample_raw_layout = \<lparr>lay_cuda_index = Some 0, itemsize = 1, shape = [6, 2], tokens_per_row = 1, token_page_size = 1, layer_count = 1,
     buffers_per_layer = 1, mapping_granularity_bytes = 4, profile = \<lparr>bundle_bytes = 0, bundle_capacity = 0, floor_bundles = 0\<rparr>\<rparr>"

definition sample_layout :: kv_vmm_layout where
  "sample_layout = sample_raw_layout\<lparr>profile := \<lparr>bundle_bytes = 4, bundle_capacity = 3, floor_bundles = 1\<rparr>\<rparr>"

definition sample_driver :: cu_driver where
  "sample_driver = \<lparr>cu_create = \<lambda>_. None, cu_map = \<lambda>_. None, cu_access = \<lambda>_. None, cu_unmap = \<lambda>_. None, cu_release = \<lambda>_. None\<rparr>"

definition sample_start :: elastic_state where
  "sample_start = (case start_state sample_engine TokenChild False (\<lambda>_. sample_driver) (\<lambda>_. sample_driver) (\<lambda>_. Inr 4096) (\<lambda>_. None)
     [sample_layout] of Inr s \<Rightarrow> s | Inl _ \<Rightarrow> \<lparr>es_components = [], es_quota = \<lparr>limit_bytes = 0, charged_bytes = 0\<rparr>\<rparr>)"

definition sample_adopted :: elastic_state where
  "sample_adopted = sample_start\<lparr>es_quota := snd (set_limit 12 (es_quota sample_start))\<rparr>"

lemma sample_setup:
  "rank_layouts [sample_layout]" "reserves_ok (\<lambda>_. Inr 4096)" "\<forall>i. driver_succeeds ((\<lambda>_. sample_driver) (i::nat))"
  "start_state sample_engine TokenChild False (\<lambda>_. sample_driver) (\<lambda>_. sample_driver) (\<lambda>_. Inr 4096) (\<lambda>_. None) [sample_layout]
     = Inr sample_start"
proof -
  have "KvVmmLayout sample_raw_layout = Inr sample_layout" by code_simp
  then show "rank_layouts [sample_layout]" unfolding rank_layouts_def by (auto simp: sample_raw_layout_def intro!: exI [of _ sample_raw_layout])
  show "reserves_ok (\<lambda>_. Inr 4096)" by (simp add: reserves_ok_def)
  show "\<forall>i. driver_succeeds ((\<lambda>_. sample_driver) (i::nat))" by (simp add: driver_succeeds_def sample_driver_def)
  have "is_ok (start_state sample_engine TokenChild False (\<lambda>_. sample_driver) (\<lambda>_. sample_driver) (\<lambda>_. Inr 4096) (\<lambda>_. None) [sample_layout])"
    by code_simp
  then show "start_state sample_engine TokenChild False (\<lambda>_. sample_driver) (\<lambda>_. sample_driver) (\<lambda>_. Inr 4096) (\<lambda>_. None) [sample_layout]
     = Inr sample_start" by (auto simp: sample_start_def is_ok_iff)
qed

lemma sample_reached: "(rank_step sample_engine)\<^sup>*\<^sup>* (sample_start, map (\<lambda>_. []) [sample_layout], None :: nat reclaim_plan option)
    (sample_adopted, [[]], None)"
proof -
  have "set_limit 12 (es_quota sample_start) = (Inr (), es_quota sample_adopted)" by code_simp
  from rank_step.Adopt [OF this, of sample_engine "[[]]" "None :: nat reclaim_plan option"]
  have "rank_step sample_engine (sample_start, [[]], None :: nat reclaim_plan option) (sample_adopted, [[]], None)"
    by (simp add: sample_adopted_def)
  then show ?thesis by (simp add: r_into_rtranclp)
qed

lemma pages_in_use_stay_backed_witness:
  "in_use_mapped (snd (prepare_allocation sample_engine (\<lambda>_. sample_driver) [3] sample_adopted)) [[]]
   \<and> charged_bytes (es_quota sample_adopted) = 4 \<and> plan_allocation sample_engine [3] sample_adopted \<noteq> Inr None"
proof -
  have "charged_bytes (es_quota sample_adopted) = 4 \<and> plan_allocation sample_engine [3] sample_adopted \<noteq> Inr None" by code_simp
  then show ?thesis
    using pages_in_use_stay_backed [OF sample_engine_ok sample_setup(2,1,4) sample_reached, of "\<lambda>_. sample_driver" "[3]"] by blast
qed

lemma priced_allocation_is_delivered_witness:
  "\<exists>s'. prepare_allocation sample_engine (\<lambda>_. sample_driver) [3] sample_adopted = (Inr True, s') \<and> charged_bytes (es_quota s') = 8"
proof -
  have "allocation_bytes sample_engine [3] sample_adopted = Inr (Some 8)" "(8::int) \<le> limit_bytes (es_quota sample_adopted)" by code_simp+
  from priced_allocation_is_delivered [OF sample_engine_ok sample_setup(2,1,4) sample_reached this sample_setup(3)] show ?thesis by blast
qed

end
