(* ===== verification/Kv_Reconciler.thy ===== *)
theory Kv_Reconciler
  imports Kv_Runtime Ecs_Channel
begin

section \<open>Matched capacity decisions of a tensor-parallel group\<close>

text \<open>
  \<^verbatim>\<open>CapacityReconciler\<close> of \<^verbatim>\<open>xpool/integrations/sglang/ecs/capacity.py\<close>. The ranks of a group enter the same
  collectives in the same order; an operation is therefore modelled on the whole group: the parts before, between
  and after collectives run on every rank, and a collective combines one value per rank. The command reaches all
  ranks through one broadcast. A rank that raises ends the operation of the group, whose process is then lost.
  The scheduler enters through what the code asks of it: whether a chunked request is in flight, the cache of
  each rank, the answers of driver and events, and the sizes its cache could free.
\<close>

subsection \<open>Collectives\<close>

text \<open>\<^verbatim>\<open>all_reduce\<close> over the ranks' values; a group of one rank returns its own value.\<close>

definition reduce_min :: "int list \<Rightarrow> int" where
  "reduce_min votes = foldr min (tl votes) (hd votes)"

definition reduce_max :: "int list \<Rightarrow> int" where
  "reduce_max votes = foldr max (tl votes) (hd votes)"

definition vote_ready :: "bool list \<Rightarrow> bool" where
  "vote_ready ready = (reduce_min (map (\<lambda>b. if b then 1 else 0) ready) \<noteq> 0)"

datatype allocation_status = READY | CAPACITY_MISS | FAILED

definition status_int :: "allocation_status \<Rightarrow> int" where
  "status_int status = (case status of READY \<Rightarrow> 0 | CAPACITY_MISS \<Rightarrow> 1 | FAILED \<Rightarrow> 2)"

definition status_of_int :: "int \<Rightarrow> allocation_status" where
  "status_of_int n = (if n = 0 then READY else if n = 1 then CAPACITY_MISS else FAILED)"

definition allocation_verdict :: "allocation_status list \<Rightarrow> allocation_status" where
  "allocation_verdict statuses = status_of_int (reduce_max (map status_int statuses))"

text \<open>Element by element over equally long vectors.\<close>

definition reduce_vectors :: "(int list \<Rightarrow> int) \<Rightarrow> int list list \<Rightarrow> int list" where
  "reduce_vectors reduce vectors = map (\<lambda>k. reduce (map (\<lambda>v. v ! k) vectors)) [0..<length (hd vectors)]"

subsection \<open>State\<close>

record demand_witness =
  dw_sequence :: int
  dw_required :: "int list"
  dw_deadline :: int

type_synonym request = nat

record 'e reconciler =
  rc_state :: elastic_state
  rc_command :: "quota_command option"
  rc_active :: "int list"
  rc_completed :: int
  rc_pending :: "'e reclaim_plan option"
  rc_admission :: "int list"
  rc_deferred :: "int list"
  rc_ceiling :: "int list option"
  rc_demands :: "(request list, demand_witness) dict"
  rc_published :: "quota_demand option"

record 'e tp_group =
  tg_index :: nat
  tg_channel :: ecs_channel
  tg_ranks :: "'e reconciler list"

definition attach :: "'q engine_allocator \<Rightarrow> elastic_state \<Rightarrow> 'e reconciler" where
  "attach eng s =
     \<lparr>rc_state = s, rc_command = None, rc_active = [], rc_completed = 0, rc_pending = None,
      rc_admission = logical_free_pages eng s, rc_deferred = replicate (length (es_components s)) 0,
      rc_ceiling = None, rc_demands = [], rc_published = None\<rparr>"

abbreviation charged_of :: "'e reconciler \<Rightarrow> int" where
  "charged_of rc \<equiv> charged_bytes (es_quota (rc_state rc))"

definition command_open :: "'e reconciler \<Rightarrow> bool" where
  "command_open rc = (case rc_command rc of None \<Rightarrow> False | Some c \<Rightarrow> qc_sequence c > rc_completed rc)"

text \<open>All vectors of a group have its width: the channel admits no other.\<close>

definition draining :: "'e reconciler \<Rightarrow> bool" where
  "draining rc =
     (case rc_command rc of
        None \<Rightarrow> False
      | Some c \<Rightarrow> qc_sequence c > rc_completed rc \<and> rc_active rc \<noteq> []
          \<and> (\<exists>(old, new)\<in>set (zip (rc_active rc) (qc_quota_bytes c)). new < old))"

definition accept_command :: "quota_command option \<Rightarrow> ('e reconciler, unit) op" where
  "accept_command command rc =
     (case command of
        None \<Rightarrow> ret () rc
      | Some c \<Rightarrow>
          if qc_sequence c \<le> rc_completed rc then ret () rc
          else case rc_command rc of
                 None \<Rightarrow> ret () (rc\<lparr>rc_command := Some c\<rparr>)
               | Some current \<Rightarrow>
                   if qc_sequence c < qc_sequence current then ret () rc
                   else if qc_sequence c = qc_sequence current
                   then (if qc_quota_bytes c \<noteq> qc_quota_bytes current
                         then raise (RuntimeError ''xpool elastic context state quota changed without advancing its sequence'') rc
                         else ret () rc)
                   else if qc_sequence current > rc_completed rc
                   then raise (RuntimeError ''xpool elastic context state command supersedes an unfinished operation'') rc
                   else ret () (rc\<lparr>rc_command := Some c\<rparr>))"

subsection \<open>Running the ranks\<close>

definition on_rank :: "nat \<Rightarrow> ('e reconciler, 'a) op \<Rightarrow> ('e tp_group, 'a) op" where
  "on_rank j m g = (case m (tg_ranks g ! j) of (r, rc) \<Rightarrow> (r, g\<lparr>tg_ranks := (tg_ranks g)[j := rc]\<rparr>))"

definition every_rank :: "(nat \<Rightarrow> ('e reconciler, unit) op) \<Rightarrow> ('e tp_group, unit) op" where
  "every_rank m g = for_each (\<lambda>j. on_rank j (m j)) [0..<length (tg_ranks g)] g"

definition on_state :: "(elastic_state, 'a) op \<Rightarrow> ('e reconciler, 'a) op" where
  "on_state m rc = (case m (rc_state rc) of (r, s) \<Rightarrow> (r, rc\<lparr>rc_state := s\<rparr>))"

text \<open>One value of every rank, as it enters a collective.\<close>

definition ranks :: "(nat \<Rightarrow> 'e reconciler \<Rightarrow> 'a) \<Rightarrow> 'e tp_group \<Rightarrow> 'a list" where
  "ranks f g = map (\<lambda>j. f j (tg_ranks g ! j)) [0..<length (tg_ranks g)]"

definition sync_admission_budget :: "'q engine_allocator \<Rightarrow> ('e tp_group, unit) op" where
  "sync_admission_budget eng g =
     (let free = reduce_vectors reduce_min (ranks (\<lambda>_ rc. logical_free_pages eng (rc_state rc)) g)
      in every_rank (\<lambda>_. modify (\<lambda>rc. rc\<lparr>rc_admission := free\<rparr>)) g)"

text \<open>\<^verbatim>\<open>CapacityReconciler.finish_retirement\<close>; \<open>finished\<close> answers the event query.\<close>

definition poll_retirement :: "(nat \<Rightarrow> cu_driver) \<Rightarrow> bool \<Rightarrow> ('e reconciler, unit) op" where
  "poll_retirement drivers finished =
     bind get_state (\<lambda>rc.
       case rc_pending rc of
         None \<Rightarrow> ret ()
       | Some plan \<Rightarrow>
           bind (on_state (finish_retirement drivers finished plan)) (\<lambda>(_, plan').
             modify (\<lambda>rc. rc\<lparr>rc_pending := if plan_completed plan' then None else Some plan'\<rparr>)))"

subsection \<open>Reclamation\<close>

definition begin_empty :: "'q engine_allocator \<Rightarrow> int \<Rightarrow> ('e reconciler, unit) op" where
  "begin_empty eng release_bytes =
     bind get_state (\<lambda>rc.
       if rc_pending rc = None \<and> release_bytes > 0
       then bind (lift_result (prepare_reclaim eng None release_bytes None (rc_state rc))) (\<lambda>plan.
              case plan of
                None \<Rightarrow> ret ()
              | Some p \<Rightarrow>
                  bind (on_state (apply_reclaim eng None p)) (\<lambda>applied.
                    modify (\<lambda>rc. rc\<lparr>rc_pending := Some applied\<rparr>)))
       else ret ())"

definition apply_candidate :: "'q engine_allocator \<Rightarrow> 'e cache_owner option \<Rightarrow> 'e reclaim_plan option \<Rightarrow> ('e reconciler, unit) op" where
  "apply_candidate eng cache plan =
     (case plan of
        None \<Rightarrow> raise (RuntimeError ''xpool elastic context state cache readiness lost its prepared owner'')
      | Some p \<Rightarrow>
          bind (on_state (apply_reclaim eng cache p)) (\<lambda>applied.
            modify (\<lambda>rc. rc\<lparr>rc_pending := if plan_completed applied then None else Some applied\<rparr>)))"

text \<open>
  \<open>caches j\<close> is the cache of rank \<open>j\<close>, \<open>select\<close> the selector of the leader's; \<open>release j\<close> and \<open>wanted j\<close> what rank \<open>j\<close>
  asks for.
\<close>

definition reclaim ::
    "'q engine_allocator \<Rightarrow> (nat \<Rightarrow> 'e cache_owner option) \<Rightarrow> (component_type \<Rightarrow> 'e option) option \<Rightarrow> bool \<Rightarrow>
     (nat \<Rightarrow> int) \<Rightarrow> (nat \<Rightarrow> int list) \<Rightarrow> ('e tp_group, bool) op" where
  "reclaim eng caches select chunk_owner release0 wanted =
     (let release_bytes = (\<lambda>j. if chunk_owner then 0 else release0 j)
      in bind (every_rank (\<lambda>j. begin_empty eng (release_bytes j))) (\<lambda>_.
         bind get_state (\<lambda>g.
           if \<not> vote_ready (ranks (\<lambda>_ rc. rc_pending rc = None) g) then ret False
           else bind (lift_result (rmap (\<lambda>j. rbind (zip_strict (wanted j) (resident_free_pages eng (rc_state (tg_ranks g ! j)))) (\<lambda>rows.
                   Inr (map (\<lambda>(need, available). if need > available then 1 else 0) rows @ [if release_bytes j > 0 then 1 else 0])))
                  [0..<length (tg_ranks g)])) (\<lambda>local_needs.
                let needs = reduce_vectors reduce_max local_needs
                in if \<forall>n\<in>set needs. n = 0 then ret False
                   else bind (lift_result (select_cache_eviction select (map (\<lambda>n. n \<noteq> 0) (butlast needs)) (last needs \<noteq> 0)
                                             (rc_state (hd (tg_ranks g))))) (\<lambda>candidate.
                     if candidate = None then ret False
                     else bind (lift_result (rmap (\<lambda>j. prepare_reclaim eng (caches j) (release_bytes j) candidate (rc_state (tg_ranks g ! j)))
                                               [0..<length (tg_ranks g)])) (\<lambda>plans.
                       if \<not> vote_ready (map (\<lambda>p. p \<noteq> None) plans) then ret False
                       else bind (every_rank (\<lambda>j. apply_candidate eng (caches j) (plans ! j))) (\<lambda>_.
                            bind (sync_admission_budget eng) (\<lambda>_. ret True))))))))"

subsection \<open>Scheduling boundaries\<close>

text \<open>
  What the engine and the device contribute to one boundary: the driver per rank and component, the answers of
  the event queries, and whether a chunked request is in flight. A cache view is what one reclamation meets.
\<close>

record device_view =
  dv_drivers :: "nat \<Rightarrow> nat \<Rightarrow> cu_driver"
  dv_finished :: "nat \<Rightarrow> bool"

record 'e cache_view =
  cv_caches :: "nat \<Rightarrow> 'e cache_owner option"
  cv_select :: "(component_type \<Rightarrow> 'e option) option"

text \<open>\<open>attempt\<close> is the current allocation attempt: whether it is committed and whether it had a prior chunk owner.\<close>

definition has_chunk_owner :: "bool \<Rightarrow> (bool \<times> bool) option \<Rightarrow> bool" where
  "has_chunk_owner chunked attempt =
     (chunked \<or> (case attempt of None \<Rightarrow> False | Some (committed, prior_owner) \<Rightarrow> \<not> committed \<and> prior_owner))"

text \<open>A decision every rank takes from its own fields before it enters a collective.\<close>

definition agreed :: "('e reconciler \<Rightarrow> bool) \<Rightarrow> 'e tp_group \<Rightarrow> bool result" where
  "agreed decision g =
     (if \<forall>rc\<in>set (tg_ranks g). decision rc then Inr True
      else if \<forall>rc\<in>set (tg_ranks g). \<not> decision rc then Inr False
      else Inl UnmatchedCollective)"

definition rank_partition :: "'e tp_group \<Rightarrow> nat \<Rightarrow> nat" where
  "rank_partition g j = ch_group_first (tg_channel g) ! tg_index g + j"

definition on_channel :: "(ecs_channel, unit) op \<Rightarrow> ('e tp_group, unit) op" where
  "on_channel m g = (case m (tg_channel g) of (r, ch) \<Rightarrow> (r, g\<lparr>tg_channel := ch\<rparr>))"

definition command_target :: "nat \<Rightarrow> 'e reconciler \<Rightarrow> int result" where
  "command_target j rc = (case rc_command rc of None \<Rightarrow> Inl IndexError | Some c \<Rightarrow> index_at (qc_quota_bytes c) j)"

definition on_limit :: "(memory_quota, unit) op \<Rightarrow> (elastic_state, unit) op" where
  "on_limit m s = (case m (es_quota s) of (r, q) \<Rightarrow> (r, s\<lparr>es_quota := q\<rparr>))"

text \<open>The branch of \<^verbatim>\<open>begin_scheduling\<close> on which all ranks voted to adopt.\<close>

definition adopt_command :: "int list \<Rightarrow> nat \<Rightarrow> ('e tp_group, unit) op" where
  "adopt_command targets j =
     bind get_state (\<lambda>g.
       case rc_command (tg_ranks g ! j) of
         None \<Rightarrow> ret ()
       | Some c \<Rightarrow>
           bind (on_rank j (on_state (on_limit (set_limit (targets ! j))))) (\<lambda>_.
           bind (on_rank j (modify (\<lambda>rc. rc\<lparr>rc_active := qc_quota_bytes c\<rparr>))) (\<lambda>_.
           bind (on_channel (publish_completion (tg_index g) (rank_partition g j)
                   \<lparr>qn_sequence = qc_sequence c, quota_completion.backed_bytes = charged_of (tg_ranks g ! j)\<rparr>)) (\<lambda>_.
             on_rank j (modify (\<lambda>rc. rc\<lparr>rc_completed := qc_sequence c\<rparr>))))))"

definition zero_pages :: "'e reconciler \<Rightarrow> int list" where
  "zero_pages rc = replicate (length (es_components (rc_state rc))) 0"

definition ready_to_adopt :: "bool \<Rightarrow> int \<Rightarrow> 'e reconciler \<Rightarrow> bool" where
  "ready_to_adopt chunk_owner target rc = (\<not> (draining rc \<and> chunk_owner) \<and> rc_pending rc = None \<and> charged_of rc \<le> target)"

definition progress_grant :: "'q engine_allocator \<Rightarrow> bool \<Rightarrow> 'e cache_view option \<Rightarrow> ('e tp_group, unit) op" where
  "progress_grant eng chunk_owner scheduler =
     bind (reading (agreed command_open)) (\<lambda>unfinished.
       if \<not> unfinished then ret ()
       else bind get_state (\<lambda>g.
            bind (lift_result (rmap (\<lambda>j. command_target j (tg_ranks g ! j)) [0..<length (tg_ranks g)])) (\<lambda>targets.
              if vote_ready (ranks (\<lambda>j rc. ready_to_adopt chunk_owner (targets ! j) rc) g)
              then for_each (adopt_command targets) [0..<length (tg_ranks g)]
              else case scheduler of
                     None \<Rightarrow> ret ()
                   | Some met \<Rightarrow>
                       bind (reclaim eng (cv_caches met) (cv_select met) chunk_owner
                               (\<lambda>j. max 0 (charged_of (tg_ranks g ! j) - targets ! j)) (\<lambda>j. zero_pages (tg_ranks g ! j)))
                         (\<lambda>_. ret ()))))"

definition serve_deferred :: "'q engine_allocator \<Rightarrow> bool \<Rightarrow> 'e cache_view \<Rightarrow> ('e tp_group, unit) op" where
  "serve_deferred eng chunk_owner met =
     bind get_state (\<lambda>g.
       let deferred = reduce_vectors reduce_max
             (ranks (\<lambda>_ rc. if rc_deferred rc = [] then zero_pages rc else rc_deferred rc) g)
       in bind (if \<exists>n\<in>set deferred. n \<noteq> 0
                then bind (reclaim eng (cv_caches met) (cv_select met) chunk_owner (\<lambda>_. 0) (\<lambda>_. deferred)) (\<lambda>reclaimed.
                       if reclaimed then every_rank (\<lambda>_. modify (\<lambda>rc. rc\<lparr>rc_deferred := zero_pages rc\<rparr>)) else ret ())
                else ret ()) (\<lambda>_.
            sync_admission_budget eng))"

text \<open>
  \<^verbatim>\<open>begin_scheduling\<close>; \<open>scheduler\<close> holds the caches met by its two reclamations, and is None where the code passes no
  scheduler.
\<close>

definition begin_scheduling ::
    "'q engine_allocator \<Rightarrow> device_view \<Rightarrow> bool \<Rightarrow> ('e cache_view \<times> 'e cache_view) option \<Rightarrow> ('e tp_group, unit) op" where
  "begin_scheduling eng device chunk_owner scheduler =
     bind (every_rank (\<lambda>j. poll_retirement (dv_drivers device j) (dv_finished device j))) (\<lambda>_.
     bind (progress_grant eng chunk_owner (map_option fst scheduler)) (\<lambda>_.
       case scheduler of None \<Rightarrow> ret () | Some (_, met) \<Rightarrow> serve_deferred eng chunk_owner met))"

subsection \<open>Admission of batches\<close>

text \<open>\<open>evictable j\<close> is the evictable size of rank \<open>j\<close>'s cache, \<open>memory j\<close> what the batch requires there.\<close>

definition memory_ready ::
    "'q engine_allocator \<Rightarrow> (nat \<Rightarrow> (component_type \<Rightarrow> int) option) \<Rightarrow> (nat \<Rightarrow> memory_requirement) \<Rightarrow> 'e tp_group \<Rightarrow> bool result" where
  "memory_ready eng evictable memory g =
     rbind (rmap (\<lambda>j. let s = rc_state (tg_ranks g ! j) in
         rbind (Kv_State.required_bytes eng (evictable j) (memory j) s) (\<lambda>forecast.
         rbind (allocation_bytes eng (allocation_pages (memory j)) s) (\<lambda>immediate.
           Inr (case (forecast, immediate) of
                  (Some f, Some i) \<Rightarrow> max f i \<le> limit_bytes (es_quota s)
                | _ \<Rightarrow> False)))) [0..<length (tg_ranks g)]) (\<lambda>votes. Inr (vote_ready votes))"

definition or_zero :: "int option \<Rightarrow> int" where
  "or_zero price = (case price of None \<Rightarrow> 0 | Some n \<Rightarrow> n)"

definition reclaim_requirement ::
    "'q engine_allocator \<Rightarrow> 'e cache_view \<Rightarrow> bool \<Rightarrow> (nat \<Rightarrow> (component_type \<Rightarrow> int) option) \<Rightarrow> (nat \<Rightarrow> memory_requirement) \<Rightarrow>
     (nat \<Rightarrow> int list) \<Rightarrow> ('e tp_group, bool) op" where
  "reclaim_requirement eng met chunk_owner evictable memory resident_pages =
     bind get_state (\<lambda>g.
     bind (lift_result (rmap (\<lambda>j. let s = rc_state (tg_ranks g ! j) in
         rbind (Kv_State.required_bytes eng (evictable j) (memory j) s) (\<lambda>forecast.
         rbind (allocation_bytes eng (resident_pages j) s) (\<lambda>immediate.
           Inr (max 0 (max (or_zero forecast) (or_zero immediate) - limit_bytes (es_quota s))))))
       [0..<length (tg_ranks g)])) (\<lambda>release.
       reclaim eng (cv_caches met) (cv_select met) chunk_owner (\<lambda>j. release ! j) resident_pages))"

definition coordinate_decode ::
    "'q engine_allocator \<Rightarrow> 'e cache_view \<Rightarrow> bool \<Rightarrow> (nat \<Rightarrow> (component_type \<Rightarrow> int) option) \<Rightarrow>
     (nat \<Rightarrow> (component_type \<Rightarrow> int) option) \<Rightarrow> (nat \<Rightarrow> memory_requirement) \<Rightarrow> ('e tp_group, bool) op" where
  "coordinate_decode eng met chunk_owner evictable evictable' memory =
     bind (reading (memory_ready eng evictable memory)) (\<lambda>ready.
       if ready then ret True
       else bind (reclaim_requirement eng met chunk_owner evictable memory (\<lambda>j. allocation_pages (memory j))) (\<lambda>reclaimed.
              if reclaimed then reading (memory_ready eng evictable' memory) else ret False))"

text \<open>
  \<^verbatim>\<open>prepare_prefill\<close>: every rank keeps its own failure until the common verdict; the result lists what each rank's
  call returns or raises.
\<close>

definition prefill_status :: "bool result \<Rightarrow> allocation_status" where
  "prefill_status r = (case r of Inl _ \<Rightarrow> FAILED | Inr prepared \<Rightarrow> if prepared then READY else CAPACITY_MISS)"

definition prefill_outcome :: "allocation_status \<Rightarrow> bool result \<Rightarrow> bool result" where
  "prefill_outcome verdict r =
     (if verdict = FAILED
      then (case r of Inl e \<Rightarrow> Inl e | Inr _ \<Rightarrow> Inl (RuntimeError ''xpool Prefill backing preparation failed on a TP peer''))
      else Inr (verdict = READY))"

definition prepare_prefill ::
    "'q engine_allocator \<Rightarrow> (nat \<Rightarrow> nat \<Rightarrow> cu_driver) \<Rightarrow> (nat \<Rightarrow> int list) \<Rightarrow> 'e tp_group \<Rightarrow> bool result list \<times> 'e tp_group" where
  "prepare_prefill eng drivers preparation g =
     (let runs = ranks (\<lambda>j rc. on_state (prepare_allocation eng (drivers j) (preparation j)) rc) g;
          verdict = allocation_verdict (map (\<lambda>(r, _). prefill_status r) runs)
      in (map (\<lambda>(r, _). prefill_outcome verdict r) runs, g\<lparr>tg_ranks := map snd runs\<rparr>))"

definition defer_eviction :: "'q engine_allocator \<Rightarrow> int \<Rightarrow> int \<Rightarrow> ('e reconciler, unit) op" where
  "defer_eviction eng num_tokens swa_num_tokens =
     bind get_state (\<lambda>rc.
       let requested = eviction_page_targets eng num_tokens swa_num_tokens (rc_state rc);
           previous = (if rc_deferred rc = [] then map (\<lambda>_. 0) requested else rc_deferred rc)
       in bind (lift_result (zip_strict previous requested)) (\<lambda>rows.
            modify (\<lambda>rc. rc\<lparr>rc_deferred := map (\<lambda>(old, target). max old target) rows\<rparr>)))"

subsection \<open>Demand\<close>

definition with_demands :: "((request list, demand_witness) dict \<Rightarrow> (request list, demand_witness) dict) \<Rightarrow> 'e reconciler \<Rightarrow> 'e reconciler" where
  "with_demands f rc = rc\<lparr>rc_demands := f (rc_demands rc)\<rparr>"

text \<open>A deadline is an absolute time the scheduler's clock yields; only the leader keeps witnesses of blocked work.\<close>

definition gather_prices ::
    "'q engine_allocator \<Rightarrow> (nat \<Rightarrow> (component_type \<Rightarrow> int) option) \<Rightarrow> (nat \<Rightarrow> memory_requirement) \<Rightarrow> 'e tp_group \<Rightarrow> int list result" where
  "gather_prices eng evictable needed g =
     rmap (\<lambda>j. let s = rc_state (tg_ranks g ! j) in
         rbind (Kv_State.required_bytes eng (evictable j) (needed j) s) (\<lambda>price.
           Inr (case price of None \<Rightarrow> - 1 | Some n \<Rightarrow> max n (limit_bytes (es_quota s))))) [0..<length (tg_ranks g)]"

definition unservable :: "int list \<Rightarrow> 'e reconciler \<Rightarrow> bool result" where
  "unservable prices rc =
     (if \<exists>n\<in>set prices. n < 0 then Inr True
      else case rc_ceiling rc of
             None \<Rightarrow> Inr True
           | Some caps \<Rightarrow>
               if \<exists>(n, cap)\<in>set (zip prices caps). n > cap then Inr True
               else rbind (zip_strict prices caps) (\<lambda>_. Inr (prices = rc_active rc)))"

definition note_demand :: "request list \<Rightarrow> int list \<Rightarrow> int \<Rightarrow> ('e reconciler, unit) op" where
  "note_demand requests prices deadline =
     bind (reading (unservable prices)) (\<lambda>drop_it.
       modify (\<lambda>rc. with_demands
         (if drop_it then dict_del requests
          else dict_set requests \<lparr>dw_sequence = rc_completed rc, dw_required = prices, dw_deadline = deadline\<rparr>) rc))"

definition record_requirement ::
    "'q engine_allocator \<Rightarrow> (nat \<Rightarrow> (component_type \<Rightarrow> int) option) \<Rightarrow> request list \<Rightarrow> (nat \<Rightarrow> memory_requirement) option \<Rightarrow> int \<Rightarrow>
     ('e tp_group, unit) op" where
  "record_requirement eng evictable requests memory deadline =
     (case memory of
        None \<Rightarrow> every_rank (\<lambda>_. modify (with_demands (filter (\<lambda>(key, _). \<not> (\<exists>req\<in>set requests. req \<in> set key)))))
      | Some needed \<Rightarrow>
          bind (reading (gather_prices eng evictable needed)) (\<lambda>prices. on_rank 0 (note_demand requests prices deadline)))"

fun earliest :: "demand_witness list \<Rightarrow> demand_witness option" where
  "earliest [] = None"
| "earliest (w # ws) =
     (case earliest ws of None \<Rightarrow> Some w | Some v \<Rightarrow> Some (if dw_deadline w \<le> dw_deadline v then w else v))"

text \<open>\<open>live\<close> holds for requests that are waiting, running or chunked and not finished.\<close>

definition current_demands :: "(request \<Rightarrow> bool) \<Rightarrow> 'e reconciler \<Rightarrow> (request list, demand_witness) dict" where
  "current_demands live rc =
     filter (\<lambda>(requests, witness). dw_sequence witness = rc_completed rc \<and> (\<forall>req\<in>set requests. live req)) (rc_demands rc)"

definition publication_of :: "(request \<Rightarrow> bool) \<Rightarrow> 'e reconciler \<Rightarrow> quota_demand" where
  "publication_of live rc =
     (let witness = earliest (map snd (current_demands live rc))
      in \<lparr>evaluated_sequence = rc_completed rc, required_bytes = map_option dw_required witness,
          deadline_monotonic_ns = map_option dw_deadline witness\<rparr>)"

definition publish_witness :: "quota_demand \<Rightarrow> ('e tp_group, unit) op" where
  "publish_witness publication =
     bind get_state (\<lambda>g.
       if rc_published (hd (tg_ranks g)) = Some publication then ret ()
       else bind (on_channel (publish_demand (tg_index g) (rank_partition g 0) publication)) (\<lambda>_.
              on_rank 0 (modify (\<lambda>rc. rc\<lparr>rc_published := Some publication\<rparr>))))"

definition finish_scheduling :: "(request \<Rightarrow> bool) \<Rightarrow> ('e tp_group, unit) op" where
  "finish_scheduling live =
     bind get_state (\<lambda>g.
       let rc = hd (tg_ranks g)
       in if rc_completed rc = 0 then ret ()
          else bind (on_rank 0 (modify (with_demands (\<lambda>_. current_demands live rc)))) (\<lambda>_.
                 publish_witness (publication_of live rc)))"

end
