(* ===== verification/Kv_Group.thy ===== *)
theory Kv_Group
  imports Kv_Reconciler
begin

section \<open>Groups follow one grant\<close>

text \<open>
  What the collectives of a group guarantee. Every operation of the reconciler is, on each rank, a sequence of
  the rank's own steps, so the safety of the rank carries over; the ranks never take different branches
  before a collective; and the exchange of commands and completions with the daemon never raises.
\<close>

subsection \<open>Collectives\<close>

lemma reduce_min_le: "v \<in> set votes \<Longrightarrow> reduce_min votes \<le> v"
proof -
  have "foldr min xs x \<le> v" if "v \<in> set (x # xs)" for x :: int and xs
    using that by (induction xs) (auto simp: min_le_iff_disj)
  then show "v \<in> set votes \<Longrightarrow> reduce_min votes \<le> v" by (cases votes) (auto simp: reduce_min_def)
qed

lemma reduce_min_in: "votes \<noteq> [] \<Longrightarrow> reduce_min votes \<in> set votes"
proof -
  have "foldr min xs x \<in> set (x # xs)" for x :: int and xs
    by (induction xs) (auto simp: min_def)
  then show "votes \<noteq> [] \<Longrightarrow> reduce_min votes \<in> set votes" by (cases votes) (auto simp: reduce_min_def)
qed

lemma reduce_max_ge: "v \<in> set votes \<Longrightarrow> v \<le> reduce_max votes"
proof -
  have "v \<le> foldr max xs x" if "v \<in> set (x # xs)" for x :: int and xs
    using that by (induction xs) (auto simp: le_max_iff_disj)
  then show "v \<in> set votes \<Longrightarrow> v \<le> reduce_max votes" by (cases votes) (auto simp: reduce_max_def)
qed

lemma reduce_max_in: "votes \<noteq> [] \<Longrightarrow> reduce_max votes \<in> set votes"
proof -
  have "foldr max xs x \<in> set (x # xs)" for x :: int and xs
    by (induction xs) (auto simp: max_def)
  then show "votes \<noteq> [] \<Longrightarrow> reduce_max votes \<in> set votes" by (cases votes) (auto simp: reduce_max_def)
qed

lemma vote_ready_iff: "ready \<noteq> [] \<Longrightarrow> vote_ready ready \<longleftrightarrow> (\<forall>b\<in>set ready. b)"
proof
  assume "ready \<noteq> []" and "\<forall>b\<in>set ready. b"
  then show "vote_ready ready" using reduce_min_in [of "map (\<lambda>b. if b then 1 else 0) ready"]
    by (auto simp: vote_ready_def)
next
  assume ready: "ready \<noteq> []" "vote_ready ready"
  show "\<forall>b\<in>set ready. b"
  proof (rule ballI, rule ccontr)
    fix b assume b: "b \<in> set ready" "\<not> b"
    then have "0 \<in> set (map (\<lambda>b. if b then 1 else (0::int)) ready)" by force
    from reduce_min_le [OF this] have "reduce_min (map (\<lambda>b. if b then 1 else 0) ready) \<le> 0" .
    moreover have "reduce_min (map (\<lambda>b. if b then 1 else 0) ready) \<in> set (map (\<lambda>b. if b then 1 else (0::int)) ready)"
      using ready(1) by (intro reduce_min_in) simp
    ultimately show False using ready(2) by (auto simp: vote_ready_def)
  qed
qed

lemma status_int_inverse [simp]: "status_of_int (status_int x) = x"
  by (cases x) (simp_all add: status_of_int_def status_int_def)

lemma verdict_cases:
  assumes "statuses \<noteq> []"
  shows "allocation_verdict statuses = FAILED \<longleftrightarrow> FAILED \<in> set statuses"
    and "allocation_verdict statuses = READY \<longleftrightarrow> set statuses = {READY}"
proof -
  obtain x where x: "x \<in> set statuses" "reduce_max (map status_int statuses) = status_int x"
    using reduce_max_in [of "map status_int statuses"] assms by auto
  have le: "status_int y \<le> status_int x" if "y \<in> set statuses" for y
    using reduce_max_ge [of "status_int y" "map status_int statuses"] that x by auto
  have verdict: "allocation_verdict statuses = x" using x by (simp add: allocation_verdict_def)
  show "allocation_verdict statuses = FAILED \<longleftrightarrow> FAILED \<in> set statuses"
    using le [of FAILED] x verdict by (cases x) (auto simp: status_int_def)
  have "y = READY" if "y \<in> set statuses" "x = READY" for y
    using le [OF that(1)] that(2) by (cases y) (auto simp: status_int_def)
  then show "allocation_verdict statuses = READY \<longleftrightarrow> set statuses = {READY}" using x verdict by auto
qed

subsection \<open>Running the ranks\<close>

lemma on_rank_run: "m (tg_ranks g ! j) = (r, rc) \<Longrightarrow> on_rank j m g = (r, g\<lparr>tg_ranks := (tg_ranks g)[j := rc]\<rparr>)"
  by (simp add: on_rank_def)

lemma for_ranks_effect:
  assumes "for_each (\<lambda>j. on_rank j (m j)) js g = (Inr (), g')" and "distinct js" and "\<forall>j\<in>set js. j < length (tg_ranks g)"
  shows "length (tg_ranks g') = length (tg_ranks g)" and "tg_channel g' = tg_channel g" and "tg_index g' = tg_index g"
    and "\<forall>j\<in>set js. m j (tg_ranks g ! j) = (Inr (), tg_ranks g' ! j)"
    and "\<forall>j. j \<notin> set js \<longrightarrow> tg_ranks g' ! j = tg_ranks g ! j"
proof -
  have "length (tg_ranks g') = length (tg_ranks g) \<and> tg_channel g' = tg_channel g \<and> tg_index g' = tg_index g
     \<and> (\<forall>j\<in>set js. m j (tg_ranks g ! j) = (Inr (), tg_ranks g' ! j))
     \<and> (\<forall>j. j \<notin> set js \<longrightarrow> tg_ranks g' ! j = tg_ranks g ! j)"
    using assms
  proof (induction js arbitrary: g)
    case Nil
    then show ?case by simp
  next
    case (Cons j js)
    obtain rc where one: "m j (tg_ranks g ! j) = (Inr (), rc)"
      and rest: "for_each (\<lambda>j. on_rank j (m j)) js (g\<lparr>tg_ranks := (tg_ranks g)[j := rc]\<rparr>) = (Inr (), g')"
      using Cons.prems(1) by (cases "m j (tg_ranks g ! j)") (auto simp: on_rank_run split: sum.splits)
    have IH: "length (tg_ranks g') = length (tg_ranks g) \<and> tg_channel g' = tg_channel g \<and> tg_index g' = tg_index g
     \<and> (\<forall>k\<in>set js. m k ((tg_ranks g)[j := rc] ! k) = (Inr (), tg_ranks g' ! k))
     \<and> (\<forall>k. k \<notin> set js \<longrightarrow> tg_ranks g' ! k = (tg_ranks g)[j := rc] ! k)"
      using Cons.IH [OF rest] Cons.prems(2,3) by simp
    have j: "j < length (tg_ranks g)" "j \<notin> set js" using Cons.prems by auto
    have "m k (tg_ranks g ! k) = (Inr (), tg_ranks g' ! k)" if "k \<in> set (j # js)" for k
    proof (cases "k = j")
      case True
      then show ?thesis using IH j one by simp
    next
      case False
      then have k: "k \<in> set js" using that by simp
      have "m k ((tg_ranks g)[j := rc] ! k) = (Inr (), tg_ranks g' ! k)" using IH k by blast
      then show ?thesis using False by simp
    qed
    moreover have "tg_ranks g' ! k = tg_ranks g ! k" if "k \<notin> set (j # js)" for k
      using IH that by auto
    ultimately show ?case using IH by blast
  qed
  then show "length (tg_ranks g') = length (tg_ranks g)" and "tg_channel g' = tg_channel g" and "tg_index g' = tg_index g"
    and "\<forall>j\<in>set js. m j (tg_ranks g ! j) = (Inr (), tg_ranks g' ! j)"
    and "\<forall>j. j \<notin> set js \<longrightarrow> tg_ranks g' ! j = tg_ranks g ! j" by blast+
qed

lemma every_rank_effect:
  assumes "every_rank m g = (Inr (), g')"
  shows "length (tg_ranks g') = length (tg_ranks g)" and "tg_channel g' = tg_channel g" and "tg_index g' = tg_index g"
    and "j < length (tg_ranks g) \<Longrightarrow> m j (tg_ranks g ! j) = (Inr (), tg_ranks g' ! j)"
  using for_ranks_effect [of m "[0..<length (tg_ranks g)]" g g'] assms by (auto simp: every_rank_def)

lemma for_ranks_returns:
  assumes "\<forall>j\<in>set js. fst (m j (tg_ranks g ! j)) = Inr ()" and "distinct js"
  shows "\<exists>g'. for_each (\<lambda>j. on_rank j (m j)) js g = (Inr (), g')"
  using assms
proof (induction js arbitrary: g)
  case (Cons j js)
  obtain rc where one: "m j (tg_ranks g ! j) = (Inr (), rc)" using Cons.prems(1) by (cases "m j (tg_ranks g ! j)") auto
  have "\<forall>k\<in>set js. fst (m k ((tg_ranks g)[j := rc] ! k)) = Inr ()"
  proof
    fix k assume k: "k \<in> set js"
    then have "k \<noteq> j" using Cons.prems(2) by auto
    then show "fst (m k ((tg_ranks g)[j := rc] ! k)) = Inr ()" using Cons.prems(1) k by simp
  qed
  then obtain g' where "for_each (\<lambda>j. on_rank j (m j)) js (g\<lparr>tg_ranks := (tg_ranks g)[j := rc]\<rparr>) = (Inr (), g')"
    using Cons.IH [of "g\<lparr>tg_ranks := (tg_ranks g)[j := rc]\<rparr>"] Cons.prems(2) by auto
  then show ?case using one by (simp add: on_rank_run)
qed simp

lemma every_rank_returns:
  "(\<And>j. j < length (tg_ranks g) \<Longrightarrow> fst (m j (tg_ranks g ! j)) = Inr ()) \<Longrightarrow> \<exists>g'. every_rank m g = (Inr (), g')"
  unfolding every_rank_def by (rule for_ranks_returns) simp_all

lemmas op_simps = bind_Inr get_state_def lift_result_def reading_def ret_def raise_def modify_def

subsection \<open>Only an adoption moves the limit\<close>

abbreviation vm_limit :: "int \<Rightarrow> vmm \<Rightarrow> bool" where
  "vm_limit n v \<equiv> limit_bytes (vm_quota v) = n"

abbreviation es_limit :: "int \<Rightarrow> elastic_state \<Rightarrow> bool" where
  "es_limit n s \<equiv> limit_bytes (es_quota s) = n"

lemma quota_limits: "limit_bytes (snd (try_reserve n q)) = limit_bytes q" "limit_bytes (snd (release n q)) = limit_bytes q"
  by (simp_all add: try_reserve_def release_def split: sum.splits)

lemma quota_ops_limit:
  "keeps (vm_limit n) (on_quota (try_reserve k))" "keeps (vm_limit n) (on_quota (release k))"
  "keeps (vm_limit n) (set_bundles f)" "keeps (vm_limit n) (check_driver code what)"
proof -
  show "keeps (vm_limit n) (on_quota (try_reserve k))" "keeps (vm_limit n) (on_quota (release k))"
    by (intro keepsI; simp add: on_quota_def quota_limits split: prod.splits; metis quota_limits snd_conv)+
  show "keeps (vm_limit n) (set_bundles f)" by (intro keepsI) (simp add: set_bundles_run)
  show "keeps (vm_limit n) (check_driver code what)" by (intro keepsI) (simp add: check_driver_def ret_def raise_def split: option.splits)
qed

lemma keeps_get: "keeps I get_state"
  by (simp add: hoare_def get_state_def)

lemma keeps_bind: "keeps I m \<Longrightarrow> (\<And>x. keeps I (f x)) \<Longrightarrow> keeps I (bind m f)"
  by (rule hoare_bind)

lemma drop_bundle_limit: "keeps (vm_limit n) (drop_bundle drv k)"
proof -
  have "keeps (vm_limit n) (close_bundle drv k)"
  proof (intro keepsI)
    fix s :: vmm assume "vm_limit n s"
    then show "vm_limit n (snd (close_bundle drv k s))"
      by (auto simp: close_bundle_def bind_def check_driver_def set_bundles_run ret_def raise_def split: option.splits sum.splits prod.splits)
  qed
  then show ?thesis unfolding drop_bundle_def
    by (intro keeps_bind keeps_get quota_ops_limit)
qed

lemma acquire_limit: "acquire_bundles drv ids s = (r, acquired, s') \<Longrightarrow> limit_bytes (vm_quota s') = limit_bytes (vm_quota s)"
proof (induction ids arbitrary: s r acquired)
  case (Cons i ids)
  obtain r1 kept s1 where one: "acquire_bundle drv i s = (r1, kept, s1)" by (cases "acquire_bundle drv i s")
  then have "limit_bytes (vm_quota s1) = limit_bytes (vm_quota s)"
    by (auto simp: acquire_bundle_def bind_def check_driver_def set_bundles_run ret_def raise_def split: option.splits prod.splits)
  then show ?case using Cons one by (auto split: sum.splits prod.splits)
qed simp

lemma map_missing_limit: "keeps (vm_limit n) (map_missing drv ids k)"
proof (intro keepsI)
  fix s :: vmm assume s: "vm_limit n s"
  obtain r acquired s1 where run: "acquire_bundles drv ids s = (r, acquired, s1)" by (cases "acquire_bundles drv ids s")
  then have s1: "vm_limit n s1" using acquire_limit s by simp
  have "keeps (vm_limit n) (case e of CudaDriverError CUDA_ERROR_OUT_OF_MEMORY x \<Rightarrow> ret False | _ \<Rightarrow> raise e)" for e
    by (intro keepsI) (simp add: ret_def raise_def split: exn.splits cu_result.splits)
  then have "keeps (vm_limit n)
      (bind (on_quota (release m)) (\<lambda>_.
            if is_terminal_device_error e then raise e
            else bind (for_each (drop_bundle drv) (rev acquired)) (\<lambda>_.
                   case e of CudaDriverError CUDA_ERROR_OUT_OF_MEMORY x \<Rightarrow> ret False | _ \<Rightarrow> raise e)))" for m e
    by (intro keeps_bind hoare_if hoare_raise hoare_for_each quota_ops_limit drop_bundle_limit)
  from keeps_snd [OF this s1] show "vm_limit n (snd (map_missing drv ids k s))"
    using run s1 by (cases r) (simp_all add: map_missing_def)
qed

lemma backing_ops_limit: "keeps (vm_limit n) (try_map drv ids)" "keeps (vm_limit n) (unmap drv ids)"
proof -
  have granted: "keeps (vm_limit n) (bind (on_quota (try_reserve k)) (\<lambda>granted. if \<not> granted then ret False else map_missing drv xs u))" for k xs u
    by (intro keeps_bind hoare_if hoare_ret quota_ops_limit map_missing_limit)
  show "keeps (vm_limit n) (try_map drv ids)"
  proof (intro keepsI)
    fix s assume "vm_limit n s"
    then show "vm_limit n (snd (try_map drv ids s))"
      using keeps_snd [OF granted] by (auto simp: try_map_def raise_def Let_def split: sum.splits)
  qed
  show "keeps (vm_limit n) (unmap drv ids)" unfolding unmap_def Let_def
    by (intro keeps_bind keeps_get hoare_if hoare_ret hoare_raise hoare_lift_result hoare_for_each drop_bundle_limit)
qed

lemma on_backing_limit: "keeps (vm_limit n) m \<Longrightarrow> keeps (es_limit n) (on_backing i m)"
proof (intro keepsI)
  fix s assume m: "keeps (vm_limit n) m" and s: "es_limit n s"
  then show "es_limit n (snd (on_backing i m s))"
    using keeps_snd [OF m, of "\<lparr>vm_backing = comp_backing (es_components s ! i), vm_quota = es_quota s\<rparr>"]
    by (auto simp: on_backing_def Let_def split: prod.splits)
qed

lemma on_allocator_limit: "keeps (es_limit n) (on_allocator i m)"
  by (intro keepsI) (simp add: on_allocator_def Let_def split: prod.splits)

lemmas limit_intros = keeps_bind keeps_get hoare_if hoare_ret hoare_raise hoare_lift_result
  hoare_reading hoare_for_each on_backing_limit on_allocator_limit backing_ops_limit

lemma map_plans_limit: "keeps (es_limit n) (map_plans drivers i plans)"
proof (induction plans arbitrary: i)
  case Nil
  then show ?case by (intro keepsI) (simp add: ret_def)
next
  case (Cons p plans)
  then have "keeps (es_limit n) (bind (on_backing i (try_map (drivers i) (missing_bundle_ids p))) (\<lambda>mapped.
       if mapped then map_plans drivers (Suc i) plans else ret False))" by (intro limit_intros)
  then show ?case by (simp add: hoare_def)
qed

lemma retire_all_limit: "keeps (es_limit n) (retire_all drivers i bundles)"
proof (induction bundles arbitrary: i)
  case Nil
  then show ?case by (intro keepsI) (simp add: ret_def)
next
  case (Cons ids bundles)
  then have "keeps (es_limit n) (bind (retire_component (drivers i) ids i) (\<lambda>released.
     bind (retire_all drivers (Suc i) bundles) (\<lambda>more. ret (released + more))))"
    unfolding retire_component_def by (intro limit_intros)
  then show ?case by (simp add: hoare_def)
qed

lemma state_ops_limit:
  "keeps (es_limit n) (prepare_allocation eng drivers counts)"
  "keeps (es_limit n) (apply_reclaim eng cache plan)"
  "keeps (es_limit n) (finish_retirement drivers finished plan)"
proof -
  have "keeps (es_limit n) (case plans of None \<Rightarrow> ret False | Some realized \<Rightarrow>
           bind get_state (\<lambda>s.
             if plans_cost realized s > limit_bytes (es_quota s) - charged_bytes (es_quota s) then ret False
             else bind (map_plans drivers 0 realized) (\<lambda>mapped.
                    if \<not> mapped then ret False
                    else bind (for_each (\<lambda>i. on_allocator i (publish_backed eng)) [0..<length (es_components s)]) (\<lambda>_.
                           reading (\<lambda>s. rbind (zip_strict (resident_free_pages eng s) counts) (\<lambda>rows.
                             Inr (\<forall>(available, n)\<in>set rows. available \<ge> n)))))))" for plans
    by (cases plans; simp only: option.case; intro limit_intros map_plans_limit)
  then show "keeps (es_limit n) (prepare_allocation eng drivers counts)"
    unfolding prepare_allocation_def by (intro limit_intros)
  show "keeps (es_limit n) (apply_reclaim eng cache plan)"
    unfolding apply_reclaim_def withdraw_all_def drain_frees_def Let_def
    by (cases "plan_eviction plan"; cases cache; simp only: option.case; intro limit_intros)
  show "keeps (es_limit n) (finish_retirement drivers finished plan)"
    unfolding finish_retirement_def by (intro limit_intros retire_all_limit)
qed

section \<open>Every operation is a sequence of rank steps\<close>

text \<open>
  \<open>follows\<close>: the rank moved by its own steps, under an unchanged limit and with the same grant. The pages owned per
  component accompany the rank.
\<close>

abbreviation config_of :: "'e reconciler \<Rightarrow> int list list \<Rightarrow> 'e rank_config" where
  "config_of rc owned \<equiv> (rc_state rc, owned, rc_pending rc)"

definition same_grant :: "'e reconciler \<Rightarrow> 'e reconciler \<Rightarrow> bool" where
  "same_grant rc rc' \<longleftrightarrow> rc_command rc' = rc_command rc \<and> rc_active rc' = rc_active rc \<and> rc_completed rc' = rc_completed rc
     \<and> limit_bytes (es_quota (rc_state rc')) = limit_bytes (es_quota (rc_state rc))"

definition follows :: "'q engine_allocator \<Rightarrow> 'e reconciler \<Rightarrow> int list list \<Rightarrow> 'e reconciler \<Rightarrow> int list list \<Rightarrow> bool" where
  "follows eng rc owned rc' owned' \<longleftrightarrow> (rank_step eng)\<^sup>*\<^sup>* (config_of rc owned) (config_of rc' owned') \<and> same_grant rc rc'"

lemma follows_self: "follows eng rc owned rc owned"
  by (simp add: follows_def same_grant_def)

lemma follows_trans: "follows eng rc owned rc' owned' \<Longrightarrow> follows eng rc' owned' rc'' owned'' \<Longrightarrow> follows eng rc owned rc'' owned''"
  by (auto simp: follows_def same_grant_def)

lemma follows_fields:
  "rc_state rc' = rc_state rc \<Longrightarrow> rc_pending rc' = rc_pending rc \<Longrightarrow> rc_command rc' = rc_command rc \<Longrightarrow> rc_active rc' = rc_active rc
   \<Longrightarrow> rc_completed rc' = rc_completed rc \<Longrightarrow> follows eng rc owned rc' owned"
  by (simp add: follows_def same_grant_def)

lemma follows_one: "rank_step eng (config_of rc owned) (config_of rc' owned') \<Longrightarrow> same_grant rc rc' \<Longrightarrow> follows eng rc owned rc' owned'"
  by (simp add: follows_def r_into_rtranclp)

lemma limit_kept: "keeps (es_limit (limit_bytes (es_quota s))) m \<Longrightarrow> m s = (r, s') \<Longrightarrow> limit_bytes (es_quota s') = limit_bytes (es_quota s)"
  using keeps_snd [of "es_limit (limit_bytes (es_quota s))" m s] by simp

lemma on_state_Inr: "on_state m rc = (r, rc') \<longleftrightarrow> (\<exists>s. m (rc_state rc) = (r, s) \<and> rc' = rc\<lparr>rc_state := s\<rparr>)"
  by (auto simp: on_state_def split: prod.splits)

lemma poll_retirement_follows:
  assumes "poll_retirement drivers finished rc = (Inr (), rc')"
  shows "follows eng rc owned rc' owned"
proof (cases "rc_pending rc")
  case None
  then show ?thesis using assms by (simp add: poll_retirement_def op_simps follows_self)
next
  case (Some plan)
  then obtain released plan' s' where run: "finish_retirement drivers finished plan (rc_state rc) = (Inr (released, plan'), s')"
    and rc': "rc' = rc\<lparr>rc_state := s', rc_pending := still_open plan'\<rparr>"
    using assms by (auto simp: poll_retirement_def op_simps on_state_Inr still_open_def)
  show ?thesis
  proof (rule follows_one)
    show "rank_step eng (config_of rc owned) (config_of rc' owned)"
      unfolding rc' using rank_step.Finish [OF run] Some by simp
    show "same_grant rc rc'" using limit_kept [OF state_ops_limit(3) run] by (simp add: same_grant_def rc')
  qed
qed

lemma begin_empty_follows:
  assumes "begin_empty eng release_bytes rc = (Inr (), rc')"
  shows "follows eng rc owned rc' owned" and "rc_pending rc' = None \<Longrightarrow> rc' = rc"
proof -
  have "rc' = rc \<or> (\<exists>p plan s. rc_pending rc = None \<and> prepare_reclaim eng None release_bytes None (rc_state rc) = Inr (Some p)
      \<and> apply_reclaim eng None p (rc_state rc) = (Inr plan, s) \<and> rc' = rc\<lparr>rc_state := s, rc_pending := Some plan\<rparr>)"
    using assms unfolding begin_empty_def
    by (auto simp: op_simps on_state_Inr split: if_splits option.splits)
  then have "follows eng rc owned rc' owned \<and> (rc_pending rc' = None \<longrightarrow> rc' = rc)"
  proof
    assume "rc' = rc"
    then show ?thesis by (simp add: follows_self)
  next
    assume "\<exists>p plan s. rc_pending rc = None \<and> prepare_reclaim eng None release_bytes None (rc_state rc) = Inr (Some p)
      \<and> apply_reclaim eng None p (rc_state rc) = (Inr plan, s) \<and> rc' = rc\<lparr>rc_state := s, rc_pending := Some plan\<rparr>"
    then obtain p plan s where idle: "rc_pending rc = None" and prep: "prepare_reclaim eng None release_bytes None (rc_state rc) = Inr (Some p)"
      and run: "apply_reclaim eng None p (rc_state rc) = (Inr plan, s)" and rc': "rc' = rc\<lparr>rc_state := s, rc_pending := Some plan\<rparr>"
      by blast
    have "plan_eviction p = None" "\<exists>ids\<in>set (plan_bundle_ids p). ids \<noteq> []"
      using prep by (auto simp: prepare_reclaim_def rbind_Inr_iff split: if_splits)
    then have opened: "still_open plan = Some plan"
      using run by (auto simp: apply_reclaim_def op_simps Let_def still_open_def split: if_splits)
    have "rank_step eng (config_of rc owned) (s, owned, Some plan)"
      using rank_step.Reclaim_Empty [OF prep run, of owned] idle opened by simp
    moreover have "same_grant rc rc'" using limit_kept [OF state_ops_limit(2) run] by (simp add: same_grant_def rc')
    ultimately have "follows eng rc owned rc' owned" by (intro follows_one) (simp_all add: rc')
    then show ?thesis by (simp add: rc')
  qed
  then show "follows eng rc owned rc' owned" and "rc_pending rc' = None \<Longrightarrow> rc' = rc" by blast+
qed

text \<open>What an eviction frees was owned.\<close>

definition cache_contract :: "'e cache_owner option \<Rightarrow> int list list \<Rightarrow> bool" where
  "cache_contract cache owned \<longleftrightarrow> (\<forall>owner e frees. cache = Some owner \<longrightarrow> cache_evict owner e = Inr frees \<longrightarrow>
     length frees = length owned \<and> (\<forall>i<length owned. mset (frees ! i) \<subseteq># mset (owned ! i)))"

lemma apply_candidate_follows:
  assumes "apply_candidate eng cache (Some plan) rc = (Inr (), rc')" and "rc_pending rc = None"
    and "prepare_reclaim eng cache release_bytes (Some e) (rc_state rc) = Inr (Some plan)"
    and "cache_contract cache owned" and "length owned = length (es_components (rc_state rc))"
  shows "\<exists>owned'. follows eng rc owned rc' owned'"
proof -
  obtain owner where owner: "cache = Some owner"
    using assms(3) by (cases cache) (auto simp: prepare_reclaim_def rbind_Inr_iff)
  have plan: "plan_eviction plan = Some e" using assms(3) owner by (auto simp: prepare_reclaim_def rbind_Inr_iff split: if_splits)
  obtain plan' s where run: "apply_reclaim eng cache plan (rc_state rc) = (Inr plan', s)"
    and rc': "rc' = rc\<lparr>rc_state := s, rc_pending := still_open plan'\<rparr>"
    using assms(1) by (auto simp: apply_candidate_def op_simps on_state_Inr still_open_def)
  obtain frees where frees: "cache_evict owner e = Inr frees"
    using run plan owner by (auto simp: apply_reclaim_def op_simps split: if_splits)
  have sub: "length frees = length owned" "\<forall>i<length owned. mset (frees ! i) \<subseteq># mset (owned ! i)"
    using assms(4) owner frees by (auto simp: cache_contract_def)
  define owned' where "owned' = map2 (\<lambda>o_pages f. sorted_list_of_multiset (mset o_pages - mset f)) owned frees"
  have rest: "\<forall>i<length owned. mset (owned ! i) = mset (frees ! i) + mset (owned' ! i)"
    using sub by (simp add: owned'_def)
  have len: "length owned' = length owned" using sub by (simp add: owned'_def)
  have "rank_step eng (rc_state rc, owned, None) (s, owned', still_open plan')"
    by (rule rank_step.Reclaim_Cache [OF assms(3) [unfolded owner] frees _ _ _ run [unfolded owner]])
       (use sub(1) rest len assms(5) in simp_all)
  then have "follows eng rc owned rc' owned'"
    using assms(2) limit_kept [OF state_ops_limit(2) run] by (intro follows_one) (simp_all add: rc' same_grant_def)
  then show ?thesis by blast
qed

subsection \<open>Groups\<close>

text \<open>\<open>owned j\<close> are the pages rank \<open>j\<close> owns; the channel is untouched.\<close>

definition group_follows ::
    "'q engine_allocator \<Rightarrow> 'e tp_group \<Rightarrow> (nat \<Rightarrow> int list list) \<Rightarrow> 'e tp_group \<Rightarrow> (nat \<Rightarrow> int list list) \<Rightarrow> bool" where
  "group_follows eng g owned g' owned' \<longleftrightarrow> length (tg_ranks g') = length (tg_ranks g) \<and> tg_channel g' = tg_channel g \<and> tg_index g' = tg_index g
     \<and> (\<forall>j<length (tg_ranks g). follows eng (tg_ranks g ! j) (owned j) (tg_ranks g' ! j) (owned' j))"

lemma group_follows_refl: "group_follows eng g owned g owned"
  by (simp add: group_follows_def follows_self)

lemma group_follows_trans:
  "group_follows eng g owned g' owned' \<Longrightarrow> group_follows eng g' owned' g'' owned'' \<Longrightarrow> group_follows eng g owned g'' owned''"
  unfolding group_follows_def using follows_trans by (smt (verit))

lemma every_rank_follows:
  assumes "every_rank m g = (Inr (), g')"
    and "\<And>j. j < length (tg_ranks g) \<Longrightarrow> m j (tg_ranks g ! j) = (Inr (), tg_ranks g' ! j) \<Longrightarrow> \<exists>o'. follows eng (tg_ranks g ! j) (owned j) (tg_ranks g' ! j) o'"
  shows "\<exists>owned'. group_follows eng g owned g' owned'"
proof -
  note eff = every_rank_effect [OF assms(1)]
  have "\<forall>j. \<exists>o'. j < length (tg_ranks g) \<longrightarrow> follows eng (tg_ranks g ! j) (owned j) (tg_ranks g' ! j) o'"
    using assms(2) [OF _ eff(4)] by blast
  from choice [OF this] obtain owned' where "\<forall>j<length (tg_ranks g). follows eng (tg_ranks g ! j) (owned j) (tg_ranks g' ! j) (owned' j)" by blast
  then show ?thesis unfolding group_follows_def using eff(1-3) by blast
qed

lemma every_rank_follows_owned:
  assumes "every_rank m g = (Inr (), g')"
    and "\<And>j rc'. m j (tg_ranks g ! j) = (Inr (), rc') \<Longrightarrow> follows eng (tg_ranks g ! j) (owned j) rc' (owned j)"
  shows "group_follows eng g owned g' owned"
  using every_rank_effect [OF assms(1)] assms(2) by (simp add: group_follows_def)

lemma sync_admission_budget_follows:
  assumes "sync_admission_budget eng g = (Inr (), g')"
  shows "group_follows eng' g owned g' owned"
proof -
  obtain free where run: "every_rank (\<lambda>_. modify (\<lambda>rc. rc\<lparr>rc_admission := free\<rparr>)) g = (Inr (), g')"
    using assms by (simp add: sync_admission_budget_def Let_def)
  show ?thesis by (rule every_rank_follows_owned [OF run]) (auto simp: modify_def intro: follows_fields)
qed

lemma ranks_nth [simp]: "length (ranks f g) = length (tg_ranks g)" "j < length (tg_ranks g) \<Longrightarrow> ranks f g ! j = f j (tg_ranks g ! j)"
  by (simp_all add: ranks_def)

lemma vote_ranks: "tg_ranks g \<noteq> [] \<Longrightarrow> vote_ready (ranks f g) \<longleftrightarrow> (\<forall>j<length (tg_ranks g). f j (tg_ranks g ! j))"
proof -
  assume "tg_ranks g \<noteq> []"
  then have "ranks f g \<noteq> []" by (simp add: ranks_def)
  then show ?thesis unfolding vote_ready_iff [OF \<open>ranks f g \<noteq> []\<close>] by (auto simp: ranks_def)
qed

lemma reclaim_follows:
  assumes "reclaim eng caches select chunk_owner release0 wanted g = (Inr b, g')" and "tg_ranks g \<noteq> []"
    and "\<forall>j<length (tg_ranks g). cache_contract (caches j) (owned j) \<and> length (owned j) = length (es_components (rc_state (tg_ranks g ! j)))"
  shows "\<exists>owned'. group_follows eng g owned g' owned'"
proof -
  define rel where "rel = (\<lambda>j. if chunk_owner then 0 else release0 j)"
  obtain g1 where empty: "every_rank (\<lambda>j. begin_empty eng (rel j)) g = (Inr (), g1)"
    using assms(1) by (auto simp: reclaim_def rel_def Let_def bind_Inr)
  have first: "group_follows eng g owned g1 owned"
    by (rule every_rank_follows_owned [OF empty]) (rule begin_empty_follows(1))
  note eff = every_rank_effect [OF empty]
  consider (same) "g' = g1"
    | (evict) candidate plans g2 where "\<forall>j<length (tg_ranks g1). rc_pending (tg_ranks g1 ! j) = None"
      "rmap (\<lambda>j. prepare_reclaim eng (caches j) (rel j) (Some candidate) (rc_state (tg_ranks g1 ! j))) [0..<length (tg_ranks g1)] = Inr plans"
      "vote_ready (map (\<lambda>p. p \<noteq> None) plans)" "every_rank (\<lambda>j. apply_candidate eng (caches j) (plans ! j)) g1 = (Inr (), g2)"
      "sync_admission_budget eng g2 = (Inr (), g')"
  proof -
    have ne: "tg_ranks g1 \<noteq> []" using eff(1) assms(2) by auto
    show ?thesis
      using assms(1) empty that
      by (auto simp: reclaim_def rel_def [symmetric] Let_def op_simps vote_ranks [OF ne] split: if_splits)
  qed
  then show ?thesis
  proof cases
    case same
    then show ?thesis using first by blast
  next
    case (evict candidate plans g2)
    have g1: "tg_ranks g1 ! j = tg_ranks g ! j" if "j < length (tg_ranks g)" for j
      using begin_empty_follows(2) [OF eff(4) [OF that]] evict(1) eff(1) that by simp
    have plans: "length plans = length (tg_ranks g1)"
      "\<And>j. j < length (tg_ranks g1) \<Longrightarrow> prepare_reclaim eng (caches j) (rel j) (Some candidate) (rc_state (tg_ranks g1 ! j)) = Inr (plans ! j)"
      using evict(2) by (simp_all add: rmap_Inr_iff)
    have "map (\<lambda>p. p \<noteq> None) plans \<noteq> []" using plans(1) eff(1) assms(2) by auto
    from evict(3) [unfolded vote_ready_iff [OF this]] have found: "\<exists>p. plans ! j = Some p" if "j < length (tg_ranks g1)" for j
      using that plans(1) by auto
    have "\<exists>owned'. group_follows eng g1 owned g2 owned'"
    proof (rule every_rank_follows [OF evict(4)])
      fix j assume j: "j < length (tg_ranks g1)" and run: "apply_candidate eng (caches j) (plans ! j) (tg_ranks g1 ! j) = (Inr (), tg_ranks g2 ! j)"
      obtain p where p: "plans ! j = Some p" using found [OF j] by blast
      show "\<exists>o'. follows eng (tg_ranks g1 ! j) (owned j) (tg_ranks g2 ! j) o'"
        by (rule apply_candidate_follows [OF run [unfolded p] _ plans(2) [OF j, unfolded p]]) (use evict(1) j assms(3) eff(1) g1 in simp_all)
    qed
    then show ?thesis using first sync_admission_budget_follows [OF evict(5)] group_follows_trans by blast
  qed
qed

section \<open>The exchange of grants\<close>

subsection \<open>Adoption\<close>

definition adopted :: "quota_command \<Rightarrow> int \<Rightarrow> 'e reconciler \<Rightarrow> 'e reconciler" where
  "adopted c target rc =
     rc\<lparr>rc_state := (rc_state rc)\<lparr>es_quota := (es_quota (rc_state rc))\<lparr>limit_bytes := target\<rparr>\<rparr>,
        rc_active := qc_quota_bytes c, rc_completed := qc_sequence c\<rparr>"

definition reply_of :: "quota_command \<Rightarrow> 'e reconciler \<Rightarrow> quota_completion" where
  "reply_of c rc = \<lparr>qn_sequence = qc_sequence c, quota_completion.backed_bytes = charged_of rc\<rparr>"

definition adoptable :: "quota_command \<Rightarrow> int list \<Rightarrow> 'e tp_group \<Rightarrow> nat \<Rightarrow> bool" where
  "adoptable c targets g j \<longleftrightarrow> j < length (tg_ranks g) \<and> rc_command (tg_ranks g ! j) = Some c
     \<and> 0 \<le> targets ! j \<and> targets ! j \<le> UINT64_MAX \<and> charged_of (tg_ranks g ! j) \<le> targets ! j \<and> 0 < qc_sequence c
     \<and> ch_commands (tg_channel g) ! tg_index g = Some c \<and> rank_partition g j < length (ch_completions (tg_channel g))
     \<and> (\<forall>p. ch_completions (tg_channel g) ! rank_partition g j = Some p \<longrightarrow> qn_sequence p < qc_sequence c)"

definition after_adoption :: "quota_command \<Rightarrow> int list \<Rightarrow> 'e tp_group \<Rightarrow> nat \<Rightarrow> 'e tp_group" where
  "after_adoption c targets g j =
     g\<lparr>tg_ranks := (tg_ranks g)[j := adopted c (targets ! j) (tg_ranks g ! j)],
       tg_channel := (tg_channel g)\<lparr>ch_completions :=
         (ch_completions (tg_channel g))[rank_partition g j := Some (reply_of c (tg_ranks g ! j))]\<rparr>\<rparr>"

lemma adopt_command_returns:
  assumes "adoptable c targets g j"
  shows "adopt_command targets j g = (Inr (), after_adoption c targets g j)"
proof -
  let ?rc = "tg_ranks g ! j" and ?t = "targets ! j"
  have a: "j < length (tg_ranks g)" "rc_command ?rc = Some c" "0 \<le> ?t" "?t \<le> UINT64_MAX" "charged_of ?rc \<le> ?t" "qc_sequence c \<noteq> 0"
    "ch_commands (tg_channel g) ! tg_index g = Some c"
    "\<forall>p. ch_completions (tg_channel g) ! rank_partition g j = Some p \<longrightarrow> qn_sequence p < qc_sequence c"
    using assms by (auto simp: adoptable_def)
  have limit: "set_limit ?t (es_quota (rc_state ?rc)) = (Inr (), (es_quota (rc_state ?rc))\<lparr>limit_bytes := ?t\<rparr>)"
    using a(3-5) by (simp add: set_limit_def ensure_uint64_def)
  have publish: "publish_completion (tg_index g) (rank_partition g j) (reply_of c ?rc) (tg_channel g)
     = (Inr (), (tg_channel g)\<lparr>ch_completions := (ch_completions (tg_channel g))[rank_partition g j := Some (reply_of c ?rc)]\<rparr>)"
    using a(6-8) by (auto simp: publish_completion_def Let_def ret_def reply_of_def split: option.splits)
  show ?thesis
    unfolding adopt_command_def after_adoption_def
    using a(1,2) limit publish
    by (simp add: bind_def get_state_def on_rank_def on_state_def on_limit_def modify_def on_channel_def adopted_def reply_of_def)
qed

lemma after_adoption_frame:
  assumes "j < length (tg_ranks g)"
  shows "length (tg_ranks (after_adoption c targets g j)) = length (tg_ranks g)" "tg_index (after_adoption c targets g j) = tg_index g"
    "ch_commands (tg_channel (after_adoption c targets g j)) = ch_commands (tg_channel g)"
    "ch_group_first (tg_channel (after_adoption c targets g j)) = ch_group_first (tg_channel g)"
    "ch_group_count (tg_channel (after_adoption c targets g j)) = ch_group_count (tg_channel g)"
    "length (ch_completions (tg_channel (after_adoption c targets g j))) = length (ch_completions (tg_channel g))"
    "rank_partition (after_adoption c targets g j) k = rank_partition g k"
    "tg_ranks (after_adoption c targets g j) ! k = (if k = j then adopted c (targets ! j) (tg_ranks g ! j) else tg_ranks g ! k)"
    "rank_partition g j < length (ch_completions (tg_channel g)) \<Longrightarrow> ch_completions (tg_channel (after_adoption c targets g j)) ! rank_partition g k
       = (if k = j then Some (reply_of c (tg_ranks g ! j)) else ch_completions (tg_channel g) ! rank_partition g k)"
  using assms by (simp_all add: after_adoption_def rank_partition_def nth_list_update)

text \<open>Adoption by all ranks returns and writes every reply.\<close>

lemma adopt_all:
  assumes "distinct js" and "\<forall>j\<in>set js. adoptable c targets g j"
  shows "\<exists>g'. for_each (adopt_command targets) js g = (Inr (), g') \<and> length (tg_ranks g') = length (tg_ranks g) \<and> tg_index g' = tg_index g
     \<and> ch_commands (tg_channel g') = ch_commands (tg_channel g) \<and> ch_group_first (tg_channel g') = ch_group_first (tg_channel g)
     \<and> ch_group_count (tg_channel g') = ch_group_count (tg_channel g)
     \<and> length (ch_completions (tg_channel g')) = length (ch_completions (tg_channel g))
     \<and> (\<forall>j. tg_ranks g' ! j = (if j \<in> set js then adopted c (targets ! j) (tg_ranks g ! j) else tg_ranks g ! j))
     \<and> (\<forall>j\<in>set js. ch_completions (tg_channel g') ! rank_partition g j = Some (reply_of c (tg_ranks g ! j)))
     \<and> (\<forall>p. p \<notin> rank_partition g ` set js \<longrightarrow> ch_completions (tg_channel g') ! p = ch_completions (tg_channel g) ! p)"
  using assms
proof (induction js arbitrary: g)
  case Nil
  then show ?case by simp
next
  case (Cons j js)
  let ?g1 = "after_adoption c targets g j"
  have a: "adoptable c targets g j" and j: "j < length (tg_ranks g)" "rank_partition g j < length (ch_completions (tg_channel g))" "j \<notin> set js"
    using Cons.prems by (simp_all add: adoptable_def)
  note fr = after_adoption_frame(1-8) [OF j(1), of c targets] after_adoption_frame(9) [OF j(1,2), of c targets]
  have more: "\<forall>k\<in>set js. adoptable c targets ?g1 k"
  proof
    fix k assume "k \<in> set js"
    then have "adoptable c targets g k" "k \<noteq> j" using Cons.prems j(3) by auto
    then show "adoptable c targets ?g1 k" unfolding adoptable_def fr by simp
  qed
  have dist: "distinct js" using Cons.prems(1) by simp
  obtain g' where run: "for_each (adopt_command targets) js ?g1 = (Inr (), g')"
    and IH: "length (tg_ranks g') = length (tg_ranks ?g1)" "tg_index g' = tg_index ?g1"
      "ch_commands (tg_channel g') = ch_commands (tg_channel ?g1)" "ch_group_first (tg_channel g') = ch_group_first (tg_channel ?g1)"
      "ch_group_count (tg_channel g') = ch_group_count (tg_channel ?g1)"
      "length (ch_completions (tg_channel g')) = length (ch_completions (tg_channel ?g1))"
    and ranks: "\<forall>k. tg_ranks g' ! k = (if k \<in> set js then adopted c (targets ! k) (tg_ranks ?g1 ! k) else tg_ranks ?g1 ! k)"
    and replies: "\<forall>k\<in>set js. ch_completions (tg_channel g') ! rank_partition ?g1 k = Some (reply_of c (tg_ranks ?g1 ! k))"
    and others: "\<forall>p. p \<notin> rank_partition ?g1 ` set js \<longrightarrow> ch_completions (tg_channel g') ! p = ch_completions (tg_channel ?g1) ! p"
    using Cons.IH [OF dist more] by (elim exE conjE) (rule that)
  have loop: "for_each (adopt_command targets) (j # js) g = (Inr (), g')" using adopt_command_returns [OF a] run by simp
  have r: "tg_ranks g' ! k = (if k \<in> set (j # js) then adopted c (targets ! k) (tg_ranks g ! k) else tg_ranks g ! k)" for k
    using ranks j(3) by (auto simp: fr)
  have "ch_completions (tg_channel g') ! rank_partition g k = Some (reply_of c (tg_ranks g ! k))" if "k \<in> set (j # js)" for k
  proof (cases "k = j")
    case True
    have "rank_partition g j \<notin> rank_partition ?g1 ` set js" using j(3) by (auto simp: fr rank_partition_def)
    then show ?thesis using others True by (simp add: fr)
  next
    case False
    then show ?thesis using replies that by (simp add: fr)
  qed
  moreover have "ch_completions (tg_channel g') ! p = ch_completions (tg_channel g) ! p" if "p \<notin> rank_partition g ` set (j # js)" for p
  proof -
    have "p \<notin> rank_partition ?g1 ` set js" "p \<noteq> rank_partition g j" using that by (auto simp: fr)
    then show ?thesis using others by (simp add: after_adoption_def)
  qed
  ultimately show ?case using loop IH r by (intro exI [of _ g'] conjI allI ballI impI) (simp_all add: fr)
qed

end
