(* ===== verification/Kv_Reference.thy ===== *)
theory Kv_Reference
  imports Kv_Group
begin

text \<open>
  The engine reference derived from an immutable ceiling, \<^verbatim>\<open>SglangElasticState.reference_config\<close>: the minimum page count of a
  rank, the correction search, and the agreement of the ranks. The search finds what a linear scan over all page counts would
  find, and what the ranks agree on fits the ceiling of each.
\<close>

section \<open>Deriving the reference\<close>

text \<open>
  The fields of the engine's \<^verbatim>\<open>MemoryPoolConfig\<close> that are read here. Its sizing policy (\<open>policy tokens page_size\<close>) and its
  byte-budget entry, of which only the token count \<open>budget_tokens\<close> is used, are parameters.
\<close>

record memory_pool_config =
  max_total_num_tokens :: int
  max_running_requests :: "int option"
  full_max_total_num_tokens :: "int option"
  swa_max_total_num_tokens :: "int option"

text \<open>The token count of a component; \<open>hybrid\<close> tells an \<^verbatim>\<open>SWAKVPool\<close>. Without one a rank has the Full component only.\<close>

definition reference_tokens :: "bool \<Rightarrow> memory_pool_config \<Rightarrow> component_type \<Rightarrow> int option" where
  "reference_tokens hybrid config component =
     (if hybrid
      then (case component of FULL \<Rightarrow> full_max_total_num_tokens config | SWA \<Rightarrow> swa_max_total_num_tokens config)
      else (case component of FULL \<Rightarrow> Some (max_total_num_tokens config) | SWA \<Rightarrow> None))"




abbreviation page_unit :: "elastic_state \<Rightarrow> int" where
  "page_unit s \<equiv> page_size (comp_allocator (hd (es_components s)))"

definition candidate_price :: "(int \<Rightarrow> int \<Rightarrow> memory_pool_config) \<Rightarrow> bool \<Rightarrow> elastic_state \<Rightarrow> int \<Rightarrow> int option result" where
  "candidate_price policy hybrid s pages =
     reference_bytes (reference_tokens hybrid (policy (pages * page_unit s) (page_unit s))) s"

definition local_reference ::
    "(int \<Rightarrow> int \<Rightarrow> memory_pool_config) \<Rightarrow> bool \<Rightarrow> int \<Rightarrow> int \<Rightarrow> int \<Rightarrow> elastic_state \<Rightarrow> memory_pool_config result" where
  "local_reference policy hybrid minimum_pages budget_tokens ceiling_bytes s =
     rbind (reference_pages (candidate_price policy hybrid s) minimum_pages (budget_tokens div page_unit s) ceiling_bytes s)
       (\<lambda>pages. Inr (policy (pages * page_unit s) (page_unit s)))"

text \<open>The minimum over the attention ranks, component by component; a single rank keeps its own.\<close>

definition capacities :: "memory_pool_config \<Rightarrow> int list" where
  "capacities config =
     [max_total_num_tokens config, or_zero (full_max_total_num_tokens config), or_zero (swa_max_total_num_tokens config)]"

definition agreed_reference :: "bool \<Rightarrow> int \<Rightarrow> memory_pool_config list \<Rightarrow> memory_pool_config" where
  "agreed_reference hybrid request_slots locals =
     (let agreed = reduce_vectors reduce_min (map capacities locals)
      in \<lparr>max_total_num_tokens = agreed ! 0, max_running_requests = Some request_slots,
          full_max_total_num_tokens = if hybrid then Some (agreed ! 1) else None,
          swa_max_total_num_tokens = if hybrid then Some (agreed ! 2) else None\<rparr>)"

section \<open>The search and the scan\<close>

definition fits :: "(int \<Rightarrow> int option result) \<Rightarrow> int \<Rightarrow> int \<Rightarrow> bool" where
  "fits cost ceiling_bytes pages = (case cost pages of Inr (Some byte_count) \<Rightarrow> byte_count \<le> ceiling_bytes | _ \<Rightarrow> False)"

definition scan_reference :: "(int \<Rightarrow> int option result) \<Rightarrow> int \<Rightarrow> int \<Rightarrow> int \<Rightarrow> int option \<Rightarrow> int option" where
  "scan_reference cost ceiling_bytes lower upper best =
     (let ps = filter (fits cost ceiling_bytes) [lower..upper] in if ps = [] then best else Some (last ps))"

lemma scan_split:
  assumes "lower \<le> m" "m \<le> upper"
  shows "scan_reference cost c lower upper best = scan_reference cost c (m + 1) upper (scan_reference cost c lower m best)"
proof -
  have "[lower..upper] = [lower..m] @ [m + 1..upper]" by (rule upto_split2 [OF assms])
  then show ?thesis by (simp add: scan_reference_def Let_def)
qed

lemma scan_none: "\<forall>p\<in>{lower..upper}. \<not> fits cost c p \<Longrightarrow> scan_reference cost c lower upper best = best"
proof -
  assume "\<forall>p\<in>{lower..upper}. \<not> fits cost c p"
  then have "filter (fits cost c) [lower..upper] = []" by (simp add: filter_empty_conv)
  then show ?thesis by (simp add: scan_reference_def)
qed

lemma scan_last: "fits cost c m \<Longrightarrow> lower \<le> m \<Longrightarrow> scan_reference cost c lower m best = Some m"
proof -
  assume "fits cost c m" "lower \<le> m"
  then have "filter (fits cost c) [lower..m] = filter (fits cost c) [lower..m - 1] @ [m]" by (simp add: upto_rec2)
  then show ?thesis by (simp add: scan_reference_def Let_def)
qed

text \<open>Where fitting is closed downwards, halving the interval loses nothing.\<close>

lemma search_is_scan:
  assumes "\<forall>p\<in>{lower..upper}. \<exists>price. cost p = Inr price"
    and "\<forall>p\<in>{lower..upper}. \<forall>q\<in>{lower..upper}. p \<le> q \<longrightarrow> fits cost c q \<longrightarrow> fits cost c p"
  shows "search_reference cost c lower upper best = Inr (scan_reference cost c lower upper best)"
  using assms
proof (induction cost c lower upper best rule: search_reference.induct)
  case (1 cost c lower upper best)
  show ?case
  proof (cases "lower > upper")
    case True
    then show ?thesis by (subst search_reference.simps) (simp add: scan_reference_def)
  next
    case False
    let ?m = "(lower + upper) div 2"
    have m: "lower \<le> ?m" "?m \<le> upper" using False by linarith+
    have sub: "{?m + 1..upper} \<subseteq> {lower..upper}" "{lower..?m - 1} \<subseteq> {lower..upper}" using m by auto
    obtain price where price: "cost ?m = Inr price" using bspec [OF 1(4), of ?m] m by auto
    show ?thesis
    proof (cases "fits cost c ?m")
      case True
      then obtain n where n: "price = Some n" "n \<le> c" using price by (auto simp: fits_def split: option.splits)
      have "search_reference cost c lower upper best = search_reference cost c (?m + 1) upper (Some ?m)"
        using False price n by (subst search_reference.simps) (simp add: Let_def)
      also have "\<dots> = Inr (scan_reference cost c (?m + 1) upper (Some ?m))"
        by (intro 1(2) [OF False refl n(2)]) (use 1(4,5) sub in blast)+
      also have "Some ?m = scan_reference cost c lower ?m best" using scan_last [OF True m(1)] by simp
      finally show ?thesis using scan_split [OF m] by simp
    next
      case no: False
      have "search_reference cost c lower upper best = search_reference cost c lower (?m - 1) best"
        using False price no by (subst search_reference.simps) (auto simp: Let_def fits_def split: option.splits)
      also have "\<dots> = Inr (scan_reference cost c lower (?m - 1) best)"
        by (intro 1(1) [OF False refl]) (use 1(4,5) sub in blast)+
      also have "scan_reference cost c lower (?m - 1) best = scan_reference cost c lower upper best"
      proof -
        have "\<not> fits cost c p" if "p \<in> {?m..upper}" for p
          using bspec [OF bspec [OF 1(5), of ?m], of p] m no that by auto
        then have "filter (fits cost c) [?m..upper] = []" by (simp add: filter_empty_conv)
        moreover have "[lower..upper] = [lower..?m - 1] @ [?m..upper]" by (rule upto_split1 [OF m])
        ultimately show ?thesis by (simp add: scan_reference_def)
      qed
      finally show ?thesis .
    qed
  qed
qed

section \<open>The price of a reference\<close>

text \<open>The bundles of \<open>n\<close> tokens and the dummy page, as \<^verbatim>\<open>reference_bytes\<close> rounds them.\<close>

definition reference_bundles :: "kv_vmm_layout \<Rightarrow> int \<Rightarrow> int" where
  "reference_bundles lay n =
     ((n + token_page_size lay + tokens_per_row lay - 1) div tokens_per_row lay * row_bytes lay + mapping_granularity_bytes lay - 1)
       div mapping_granularity_bytes lay"

lemma reference_bundles_mono:
  assumes "geometry_ok lay" and "n \<le> n'"
  shows "reference_bundles lay n \<le> reference_bundles lay n'"
proof -
  note pos = assms(1) [unfolded geometry_ok_def]
  have "(n + token_page_size lay + tokens_per_row lay - 1) div tokens_per_row lay
      \<le> (n' + token_page_size lay + tokens_per_row lay - 1) div tokens_per_row lay"
    using assms(2) pos by (intro zdiv_mono1) auto
  then have "(n + token_page_size lay + tokens_per_row lay - 1) div tokens_per_row lay * row_bytes lay
      \<le> (n' + token_page_size lay + tokens_per_row lay - 1) div tokens_per_row lay * row_bytes lay"
    using pos by (intro mult_right_mono) auto
  then show ?thesis unfolding reference_bundles_def using pos by (intro zdiv_mono1) linarith+
qed

lemma reference_bundles_capacity:
  assumes "geometry_ok lay" and "0 < n" "n \<le> token_capacity lay"
  shows "0 \<le> reference_bundles lay n" and "reference_bundles lay n \<le> bundle_capacity (profile lay)"
proof -
  note pos = assms(1) [unfolded geometry_ok_def]
  let ?rows = "(n + token_page_size lay + tokens_per_row lay - 1) div tokens_per_row lay"
  have "0 \<le> ?rows" using assms(2) pos by (intro pos_imp_zdiv_nonneg_iff [THEN iffD2]) auto
  then have "0 \<le> ?rows * row_bytes lay" using pos by simp
  then show "0 \<le> reference_bundles lay n" unfolding reference_bundles_def using pos by (subst pos_imp_zdiv_nonneg_iff) auto
  have "?rows \<le> hd (shape lay)"
    using ceil_le_pos [of "tokens_per_row lay" "n + token_page_size lay" "hd (shape lay)"] pos assms(3)
    by (simp add: token_capacity_def)
  then have "?rows * row_bytes lay \<le> hd (shape lay) * row_bytes lay" using pos by (intro mult_right_mono) auto
  then show "reference_bundles lay n \<le> bundle_capacity (profile lay)"
    unfolding reference_bundles_def conjunct2 [OF conjunct2 [OF conjunct2 [OF conjunct2 [OF conjunct2 [OF conjunct2 [OF pos]]]]]]
    using pos by (intro zdiv_mono1) linarith+
qed

lemma capacity_fits: "pool_profile_ok p \<Longrightarrow> bundle_capacity p \<le> UINT64_MAX"
  using mult_right_mono [of 1 "bundle_bytes p" "bundle_capacity p"] by (auto simp: pool_profile_ok_def)

text \<open>A component whose token count is legal, and what it costs.\<close>

definition component_legal :: "(component_type \<Rightarrow> int option) \<Rightarrow> kv_component \<Rightarrow> bool" where
  "component_legal tokens c =
     (case tokens (comp_type c) of None \<Rightarrow> False | Some n \<Rightarrow> 0 < n \<and> n \<le> token_capacity (kv_layout (comp_backing c)))"

definition component_cost :: "(component_type \<Rightarrow> int option) \<Rightarrow> kv_component \<Rightarrow> int" where
  "component_cost tokens c =
     reference_bundles (kv_layout (comp_backing c)) (the (tokens (comp_type c))) * bundle_bytes (comp_profile c)"

definition layouts_ok :: "elastic_state \<Rightarrow> bool" where
  "layouts_ok s \<longleftrightarrow> (\<forall>c\<in>set (es_components s). geometry_ok (kv_layout (comp_backing c)) \<and> pool_profile_ok (comp_profile c))"

lemma component_price:
  assumes "geometry_ok lay" and "pool_profile_ok (profile lay)" and "0 < n" "n \<le> token_capacity lay"
  shows "rbind (align_up ((n + token_page_size lay + tokens_per_row lay - 1) div tokens_per_row lay * row_bytes lay)
           (mapping_granularity_bytes lay)) (\<lambda>aligned.
         rbind (bytes_for (profile lay) (aligned div mapping_granularity_bytes lay)) (\<lambda>byte_count. Inr (Some (base + byte_count))))
     = Inr (Some (base + reference_bundles lay n * bundle_bytes (profile lay)))"
proof -
  let ?rows = "(n + token_page_size lay + tokens_per_row lay - 1) div tokens_per_row lay"
  note pos = assms(1) [unfolded geometry_ok_def]
  have "0 \<le> ?rows" using assms(3) pos by (intro pos_imp_zdiv_nonneg_iff [THEN iffD2]) auto
  then have rows: "0 \<le> ?rows * row_bytes lay" using pos by simp
  have align: "align_up (?rows * row_bytes lay) (mapping_granularity_bytes lay)
      = Inr (reference_bundles lay n * mapping_granularity_bytes lay)"
    using rows pos by (simp add: align_up_def reference_bundles_def)
  have "bytes_for (profile lay) (reference_bundles lay n) = Inr (reference_bundles lay n * bundle_bytes (profile lay))"
    using reference_bundles_capacity [OF assms(1,3,4)] assms(2) capacity_fits [OF assms(2)] by (simp add: bytes_for_Inr_iff)
  then show ?thesis using pos align by simp
qed

lemma reference_bytes_sum:
  assumes "layouts_ok s"
  shows "reference_bytes tokens s
     = Inr (if \<forall>c\<in>set (es_components s). component_legal tokens c
            then Some (\<Sum>c\<leftarrow>es_components s. component_cost tokens c) else None)"
proof -
  define step where "step = (\<lambda>acc (c :: kv_component). rbind acc (\<lambda>so_far. case so_far of
         None \<Rightarrow> Inr None
       | Some sum_bytes \<Rightarrow>
           let lay = kv_layout (comp_backing c)
           in case tokens (comp_type c) of
                None \<Rightarrow> Inr None
              | Some n \<Rightarrow>
                  if \<not> (0 < n \<and> n \<le> token_capacity lay) then Inr None
                  else let rows = (n + token_page_size lay + tokens_per_row lay - 1) div tokens_per_row lay
                       in rbind (align_up (rows * row_bytes lay) (mapping_granularity_bytes lay)) (\<lambda>aligned.
                          rbind (bytes_for (profile lay) (aligned div mapping_granularity_bytes lay)) (\<lambda>byte_count.
                            Inr (Some (sum_bytes + byte_count))))))"
  have dead: "foldl step (Inr None) cs = Inr None" for cs by (induction cs) (simp_all add: step_def)
  have one: "step (Inr (Some base)) c = Inr (if component_legal tokens c then Some (base + component_cost tokens c) else None)"
    if "c \<in> set (es_components s)" for base c
    using component_price [of "kv_layout (comp_backing c)"] that assms
    by (auto simp: step_def Let_def component_legal_def component_cost_def layouts_ok_def split: option.splits)
  have "foldl step (Inr (Some base)) cs
      = Inr (if \<forall>c\<in>set cs. component_legal tokens c then Some (base + (\<Sum>c\<leftarrow>cs. component_cost tokens c)) else None)"
    if "set cs \<subseteq> set (es_components s)" for base cs
    using that by (induction cs arbitrary: base) (simp_all add: one dead)
  from this [of "es_components s" 0] show ?thesis unfolding reference_bytes_def step_def [symmetric] by simp
qed

lemma component_mono:
  assumes "geometry_ok (kv_layout (comp_backing c))" and "pool_profile_ok (comp_profile c)" and "component_legal larger c"
    and "smaller (comp_type c) = Some n" and "0 < n" and "n \<le> the (larger (comp_type c))"
  shows "component_legal smaller c" and "component_cost smaller c \<le> component_cost larger c"
proof -
  show "component_legal smaller c" using assms(3-6) by (auto simp: component_legal_def split: option.splits)
  have "reference_bundles (kv_layout (comp_backing c)) n \<le> reference_bundles (kv_layout (comp_backing c)) (the (larger (comp_type c)))"
    by (rule reference_bundles_mono [OF assms(1,6)])
  then show "component_cost smaller c \<le> component_cost larger c"
    using assms(2,4) by (auto simp: component_cost_def pool_profile_ok_def intro!: mult_right_mono)
qed

text \<open>Fewer tokens for every component cost no more.\<close>

lemma reference_bytes_mono:
  assumes "layouts_ok s" and "reference_bytes larger s = Inr (Some base)"
    and "\<And>c. c \<in> set (es_components s) \<Longrightarrow> \<exists>n. smaller (comp_type c) = Some n \<and> 0 < n \<and> n \<le> the (larger (comp_type c))"
  shows "\<exists>b. reference_bytes smaller s = Inr (Some b) \<and> b \<le> base"
proof -
  have legal: "\<forall>c\<in>set (es_components s). component_legal larger c" and base: "base = (\<Sum>c\<leftarrow>es_components s. component_cost larger c)"
    using assms(2) by (auto simp: reference_bytes_sum [OF assms(1)] split: if_splits)
  have each: "component_legal smaller c" "component_cost smaller c \<le> component_cost larger c" if "c \<in> set (es_components s)" for c
  proof -
    obtain n where "smaller (comp_type c) = Some n" "0 < n" "n \<le> the (larger (comp_type c))" using assms(3) [OF \<open>c \<in> _\<close>] by blast
    from component_mono [of c larger smaller n, OF _ _ _ this] show "component_legal smaller c" "component_cost smaller c \<le> component_cost larger c"
      using assms(1) legal that by (auto simp: layouts_ok_def)
  qed
  show ?thesis using each base by (auto simp: reference_bytes_sum [OF assms(1)] intro!: sum_list_mono)
qed

section \<open>What the derivation guarantees\<close>

subsection \<open>The minimum\<close>


subsection \<open>The search\<close>

text \<open>
  What the search relies on in the engine's sizing policy: from the minimum on every component gets tokens, and more pages never
  give a component fewer.
\<close>

definition sizing_ok :: "(int \<Rightarrow> component_type \<Rightarrow> int option) \<Rightarrow> int \<Rightarrow> elastic_state \<Rightarrow> bool" where
  "sizing_ok sizes minimum_pages s \<longleftrightarrow> (\<forall>c\<in>set (es_components s). \<forall>p\<ge>minimum_pages. \<forall>q\<ge>p.
     \<exists>n m. sizes p (comp_type c) = Some n \<and> sizes q (comp_type c) = Some m \<and> 0 < n \<and> n \<le> m)"

abbreviation candidate_tokens :: "(int \<Rightarrow> int \<Rightarrow> memory_pool_config) \<Rightarrow> bool \<Rightarrow> elastic_state \<Rightarrow> int \<Rightarrow> component_type \<Rightarrow> int option" where
  "candidate_tokens policy hybrid s pages \<equiv> reference_tokens hybrid (policy (pages * page_unit s) (page_unit s))"

text \<open>
  C20: The correction search finds the largest reference, for a rank with the Full component as for a hybrid one. The engine's
  sizing policy is assumed to give every component tokens from the minimum on and never fewer for more pages. Then the
  derivation refuses a ceiling below the bootstrap floors, and otherwise returns the configuration of exactly the page count
  a scan of all counts from the minimum to the engine's own sizing would find: the largest whose exact rounded
  price fits the ceiling. The failure it raises means that none fits.
\<close>

theorem reference_search_is_exhaustive:
  assumes "layouts_ok s" and "state_profile s = Inr pools" and "0 \<le> ceiling_bytes" "ceiling_bytes \<le> UINT64_MAX"
    and "sizing_ok (candidate_tokens policy hybrid s) minimum_pages s"
  shows "local_reference policy hybrid minimum_pages budget_tokens ceiling_bytes s
     = (if ceiling_bytes < profile_floor_bytes pools
        then Inl (MemoryError ''xpool elastic context state service ceiling cannot hold its bootstrap floors'')
        else case scan_reference (candidate_price policy hybrid s) ceiling_bytes minimum_pages (budget_tokens div page_unit s) None of
          Some pages \<Rightarrow> Inr (policy (pages * page_unit s) (page_unit s))
        | None \<Rightarrow> Inl (MemoryError ''xpool elastic context state service ceiling cannot hold a legal engine reference''))"
proof -
  let ?price = "candidate_price policy hybrid s" and ?upper = "budget_tokens div page_unit s"
  have total: "\<forall>p\<in>{minimum_pages..?upper}. \<exists>b. ?price p = Inr b" by (simp add: candidate_price_def reference_bytes_sum [OF assms(1)])
  have down: "\<forall>p\<in>{minimum_pages..?upper}. \<forall>q\<in>{minimum_pages..?upper}. p \<le> q \<longrightarrow> fits ?price ceiling_bytes q \<longrightarrow> fits ?price ceiling_bytes p"
  proof (intro ballI impI)
    fix p q assume p: "p \<in> {minimum_pages..?upper}" and le: "p \<le> q" and fit: "fits ?price ceiling_bytes q"
    obtain b where b: "reference_bytes (candidate_tokens policy hybrid s q) s = Inr (Some b)" "b \<le> ceiling_bytes"
      using fit by (auto simp: fits_def candidate_price_def split: sum.splits option.splits)
    have "\<exists>n. candidate_tokens policy hybrid s p (comp_type c) = Some n \<and> 0 < n \<and> n \<le> the (candidate_tokens policy hybrid s q (comp_type c))"
      if "c \<in> set (es_components s)" for c using assms(5) p le that by (force simp: sizing_ok_def)
    from reference_bytes_mono [OF assms(1) b(1) this] show "fits ?price ceiling_bytes p" using b(2) by (auto simp: fits_def candidate_price_def)
  qed
  have "ensure_uint64 [ceiling_bytes] = Inr ()" using assms(3,4) by (simp add: ensure_uint64_Inr_iff)
  moreover have "scan_reference ?price ceiling_bytes minimum_pages ?upper None = None" if "minimum_pages > ?upper"
    using that by (simp add: scan_reference_def)
  ultimately show ?thesis
    using assms(2) search_is_scan [OF total down, of None]
    by (auto simp: local_reference_def reference_pages_def split: option.splits)
qed

subsection \<open>The agreement\<close>

lemma search_sound: "search_reference cost c lower upper best = Inr (Some p) \<Longrightarrow> best = Some p \<or> fits cost c p"
proof (induction cost c lower upper best rule: search_reference.induct)
  case (1 cost c lower upper best)
  let ?m = "(lower + upper) div 2"
  show ?case
  proof (cases "lower > upper")
    case True
    then show ?thesis using 1(4) by (simp add: search_reference.simps [of cost c lower upper best])
  next
    case False
    note run = 1(4) [unfolded search_reference.simps [of cost c lower upper best]]
    obtain price where price: "cost ?m = Inr price" using run False by (auto simp: Let_def rbind_Inr_iff)
    show ?thesis
    proof (cases "\<exists>n. price = Some n \<and> n \<le> c")
      case True
      then have "search_reference cost c (?m + 1) upper (Some ?m) = Inr (Some p)" "fits cost c ?m"
        using run False price by (auto simp: Let_def fits_def)
      then show ?thesis using 1(2) [OF False refl] True by auto
    next
      case no: False
      then have "search_reference cost c lower (?m - 1) best = Inr (Some p)"
        using run False price by (auto simp: Let_def split: option.splits if_splits)
      then show ?thesis using 1(1) [OF False refl] by blast
    qed
  qed
qed

lemma local_reference_fits:
  assumes "local_reference policy hybrid minimum_pages budget_tokens ceiling_bytes s = Inr config"
  shows "\<exists>b. reference_bytes (reference_tokens hybrid config) s = Inr (Some b) \<and> b \<le> ceiling_bytes"
proof -
  obtain pages where pages: "reference_pages (candidate_price policy hybrid s) minimum_pages (budget_tokens div page_unit s) ceiling_bytes s = Inr pages"
    and config: "config = policy (pages * page_unit s) (page_unit s)"
    using assms by (auto simp: local_reference_def rbind_Inr_iff)
  have "fits (candidate_price policy hybrid s) ceiling_bytes pages"
    using pages search_sound [of "candidate_price policy hybrid s" ceiling_bytes]
    by (fastforce simp: reference_pages_def rbind_Inr_iff split: if_splits option.splits)
  then show ?thesis by (auto simp: config fits_def candidate_price_def split: sum.splits option.splits)
qed

lemma agreed_tokens:
  assumes "locals \<noteq> []" and "\<And>config. config \<in> set locals \<Longrightarrow> \<exists>n. reference_tokens hybrid config t = Some n \<and> 0 < n"
    and "config \<in> set locals"
  shows "\<exists>n. reference_tokens hybrid (agreed_reference hybrid slots locals) t = Some n \<and> 0 < n \<and> n \<le> the (reference_tokens hybrid config t)"
proof -
  define k :: nat where "k = (if hybrid then (case t of FULL \<Rightarrow> 1 | SWA \<Rightarrow> 2) else 0)"
  have entry: "the (reference_tokens hybrid x t) = capacities x ! k \<and> 0 < capacities x ! k" if "x \<in> set locals" for x
    using assms(2) [OF that] by (auto simp: k_def reference_tokens_def capacities_def or_zero_def split: component_type.splits if_splits)
  have "hybrid \<or> t = FULL" using assms(2) [OF assms(3)] by (auto simp: reference_tokens_def split: component_type.splits if_splits)
  moreover have "length (hd (map capacities locals)) = 3" using assms(1) by (cases locals) (simp_all add: capacities_def)
  ultimately have agreed: "reference_tokens hybrid (agreed_reference hybrid slots locals) t = Some (reduce_min (map (\<lambda>x. capacities x ! k) locals))"
    by (auto simp: agreed_reference_def reduce_vectors_def reference_tokens_def k_def comp_def nth_append upt_rec numeral_2_eq_2 split: component_type.splits)
  have "reduce_min (map (\<lambda>x. capacities x ! k) locals) \<in> (\<lambda>x. capacities x ! k) ` set locals"
    using reduce_min_in [of "map (\<lambda>x. capacities x ! k) locals"] assms(1) by simp
  then have "0 < reduce_min (map (\<lambda>x. capacities x ! k) locals)" using entry by force
  moreover have "reduce_min (map (\<lambda>x. capacities x ! k) locals) \<le> capacities config ! k" using assms(3) by (intro reduce_min_le) auto
  ultimately show ?thesis using agreed entry [OF assms(3)] by simp
qed

text \<open>
  C21: The reference all ranks agree on fits each of them. When every rank derived a reference of its own, the minimum over the
  ranks, taken separately for each capacity, is priced by every rank with its own layouts and at most its own ceiling.
\<close>

theorem agreed_reference_fits:
  assumes "locals \<noteq> []" and "length states = length locals" and "\<forall>s\<in>set states. layouts_ok s \<and> map comp_type (es_components s) = types"
    and "\<forall>j<length locals. local_reference (policy j) hybrid (minimum j) (budget j) (ceilings j) (states ! j) = Inr (locals ! j)"
    and "j < length locals"
  shows "\<exists>b. reference_bytes (reference_tokens hybrid (agreed_reference hybrid slots locals)) (states ! j) = Inr (Some b) \<and> b \<le> ceilings j"
proof -
  have own: "\<exists>b. reference_bytes (reference_tokens hybrid (locals ! k)) (states ! k) = Inr (Some b) \<and> b \<le> ceilings k"
    if "k < length locals" for k using local_reference_fits assms(4) that by blast
  have legal: "\<exists>n. reference_tokens hybrid config t = Some n \<and> 0 < n" if t: "t \<in> set types" "config \<in> set locals" for t config
  proof -
    obtain k where k: "k < length locals" "config = locals ! k" using t(2) by (auto simp: in_set_conv_nth)
    then have s: "layouts_ok (states ! k)" "set types = comp_type ` set (es_components (states ! k))" using assms(2,3) nth_mem by (metis set_map)+
    then obtain c where c: "c \<in> set (es_components (states ! k))" "comp_type c = t" using t(1) by auto
    have "component_legal (reference_tokens hybrid config) c"
      using own [OF k(1)] c(1) k(2) by (auto simp: reference_bytes_sum [OF s(1)] split: if_splits)
    then show ?thesis using c(2) by (auto simp: component_legal_def split: option.splits)
  qed
  obtain b where b: "reference_bytes (reference_tokens hybrid (locals ! j)) (states ! j) = Inr (Some b)" "b \<le> ceilings j" using own [OF assms(5)] by blast
  have "states ! j \<in> set states" using assms(2,5) by simp
  then have s: "layouts_ok (states ! j)" "comp_type ` set (es_components (states ! j)) = set types" using assms(3) by (metis set_map)+
  have "\<exists>n. reference_tokens hybrid (agreed_reference hybrid slots locals) (comp_type c) = Some n \<and> 0 < n
      \<and> n \<le> the (reference_tokens hybrid (locals ! j) (comp_type c))" if "c \<in> set (es_components (states ! j))" for c
    using agreed_tokens [OF assms(1) legal nth_mem [OF assms(5)]] s(2) that by blast
  from reference_bytes_mono [OF s(1) b(1) this] show ?thesis using b(2) by force
qed

section \<open>A hybrid rank\<close>

definition sample_pool :: "component_type \<Rightarrow> kv_component" where
  "sample_pool component =
     \<lparr>comp_type = component,
      comp_allocator = \<lparr>child_kind = TokenChild, page_size = 1, pool_pages = 5, need_sort = False, free_pages = [1], release_pages = [],
        staged_pages = [], num_staged_pages = 0, unavailable_pages = [2, 3, 4, 5], retiring_pages = []\<rparr>,
      comp_backing = \<lparr>kv_layout = \<lparr>lay_cuda_index = Some 0, itemsize = 1, shape = [6, 2], tokens_per_row = 1, token_page_size = 1,
          layer_count = 1, buffers_per_layer = 1, mapping_granularity_bytes = 4,
          profile = \<lparr>bundle_bytes = 4, bundle_capacity = 3, floor_bundles = 1\<rparr>\<rparr>,
        kv_base = 4096, kv_bundles = [(0, True)]\<rparr>\<rparr>"

definition sample_hybrid :: elastic_state where
  "sample_hybrid = \<lparr>es_components = [sample_pool FULL, sample_pool SWA], es_quota = \<lparr>limit_bytes = 8, charged_bytes = 8\<rparr>\<rparr>"

text \<open>A sizing policy with half as many SWA tokens, rounded down to pages.\<close>

definition halving_policy :: "int \<Rightarrow> int \<Rightarrow> memory_pool_config" where
  "halving_policy tokens unit_tokens =
     \<lparr>max_total_num_tokens = tokens, max_running_requests = None, full_max_total_num_tokens = Some tokens,
      swa_max_total_num_tokens = Some (tokens div 2 div unit_tokens * unit_tokens)\<rparr>"

lemma sample_hybrid_ok:
  "layouts_ok sample_hybrid" "state_profile sample_hybrid = Inr (map comp_profile (es_components sample_hybrid))" "page_unit sample_hybrid = 1"
proof -
  have "KvVmmLayout (kv_layout (comp_backing (sample_pool component))) = Inr (kv_layout (comp_backing (sample_pool component)))" for component
    unfolding sample_pool_def by code_simp
  from KvVmmLayout_ok [OF this] show "layouts_ok sample_hybrid" by (auto simp: layouts_ok_def sample_hybrid_def sample_pool_def)
  show "state_profile sample_hybrid = Inr (map comp_profile (es_components sample_hybrid))" "page_unit sample_hybrid = 1" by code_simp+
qed

lemma sample_sizing: "sizing_ok (candidate_tokens halving_policy True sample_hybrid) 2 sample_hybrid"
  unfolding sizing_ok_def sample_hybrid_ok(3) halving_policy_def
  by (auto simp: sample_hybrid_def sample_pool_def reference_tokens_def zdiv_mono1)

lemma sample_local:
  "local_reference halving_policy True 2 5 16 sample_hybrid = Inr (halving_policy 3 1)"
  "local_reference halving_policy True 2 5 20 sample_hybrid = Inr (halving_policy 5 1)"
  by code_simp+

lemma reference_search_is_exhaustive_witness:
  "local_reference halving_policy True 2 5 16 sample_hybrid = Inr (halving_policy 3 1)"
proof -
  have scan: "scan_reference (candidate_price halving_policy True sample_hybrid) 16 2 (5 div page_unit sample_hybrid) None = Some 3"
    "\<not> 16 < profile_floor_bytes (map comp_profile (es_components sample_hybrid))" by code_simp+
  show ?thesis
    using reference_search_is_exhaustive [where policy = halving_policy and hybrid = True and budget_tokens = 5, OF sample_hybrid_ok(1,2) _ _ sample_sizing, of 16] scan
    by (simp add: UINT64_MAX_def sample_hybrid_ok(3))
qed

lemma agreed_reference_fits_witness:
  "\<exists>b. reference_bytes (reference_tokens True (agreed_reference True 7 [halving_policy 3 1, halving_policy 5 1])) sample_hybrid = Inr (Some b) \<and> b \<le> 16"
proof -
  have "\<forall>j<length [halving_policy 3 1, halving_policy 5 1]. local_reference halving_policy True 2 5 ([16, 20] ! j) ([sample_hybrid, sample_hybrid] ! j)
      = Inr ([halving_policy 3 1, halving_policy 5 1] ! j)"
    using sample_local by (auto simp: less_Suc_eq)
  from agreed_reference_fits [where policy = "\<lambda>_. halving_policy" and minimum = "\<lambda>_. 2" and budget = "\<lambda>_. 5" and ceilings = "nth [16, 20]"
      and types = "map comp_type (es_components sample_hybrid)" and j = 0 and slots = 7, OF _ _ _ this] show ?thesis
    using sample_hybrid_ok(1) by simp
qed


end
