(* ===== verification/Capacity_Geometry.thy ===== *)
theory Capacity_Geometry
  imports Capacity_Policy
begin

section \<open>Groups, devices and charges\<close>

text \<open>
  The arithmetic the capacity theorems rest on. A setting fixes the partition profiles, the plans and
  the attention World; every planned Instance covers each device of the World with exactly one
  partition of one group, so sums over groups regroup into sums over Instances. The free vector the
  policy computes is the budget minus the device's charge.
\<close>

type_synonym profile_map = "model_id \<Rightarrow> nat \<Rightarrow> ecs_partition_profile"

definition tp_width :: "fabric_instance_plan list \<Rightarrow> nat \<Rightarrow> nat" where
  "tp_width plans i = nat (topo_atn_tp_size (ip_topology (plans ! i)))"

definition dp_width :: "fabric_instance_plan list \<Rightarrow> nat \<Rightarrow> nat" where
  "dp_width plans i = nat (topo_atn_dp_size (ip_topology (plans ! i)))"

definition prof_at :: "profile_map \<Rightarrow> fabric_instance_plan list \<Rightarrow> nat \<Rightarrow> nat \<Rightarrow> ecs_partition_profile" where
  "prof_at prof plans i d = prof (ip_model_id (plans ! i)) d"

definition floor_at :: "profile_map \<Rightarrow> fabric_instance_plan list \<Rightarrow> nat \<Rightarrow> nat \<Rightarrow> int" where
  "floor_at prof plans i d = floor_bytes (prof_at prof plans i d)"

definition floors_on :: "profile_map \<Rightarrow> fabric_instance_plan list \<Rightarrow> nat \<Rightarrow> int" where
  "floors_on prof plans d = (\<Sum>i<length plans. floor_at prof plans i d)"

definition setting :: "profile_map \<Rightarrow> fabric_instance_plan list \<Rightarrow> nat \<Rightarrow> bool" where
  "setting prof plans world \<longleftrightarrow> plans \<noteq> []
     \<and> (\<forall>i<length plans. 0 < tp_width plans i \<and> 0 < dp_width plans i \<and> tp_width plans i * dp_width plans i = world)
     \<and> (\<forall>i<length plans. \<forall>d<world. partition_profile_ok (prof_at prof plans i d))"

text \<open>The registrations the policy can see declare the setting's profiles.\<close>

definition book_agrees :: "profile_map \<Rightarrow> fabric_instance_plan list \<Rightarrow> registration_book \<Rightarrow> bool" where
  "book_agrees prof plans book \<longleftrightarrow>
     (\<forall>i<length plans. \<forall>d r. dict_get (book_instances book) \<lparr>iri_model_id = ip_model_id (plans ! i), iri_rank = int d\<rparr> = Some r
        \<longrightarrow> reg_context_state_profile r = prof_at prof plans i d)"

subsection \<open>The group directory\<close>

definition group_pairs :: "fabric_instance_plan list \<Rightarrow> (nat \<times> nat) list" where
  "group_pairs plans =
     concat (map (\<lambda>i. map (\<lambda>dp. (i, dp)) [0..<dp_width plans i]) [0..<length plans])"

lemma capacity_groups_enumerate: "capacity_groups plans = enumerate 0 (group_pairs plans)"
proof -
  have "map (\<lambda>(i, plan). map (\<lambda>dp. (i, dp)) [0..<nat (topo_atn_dp_size (ip_topology plan))]) (enumerate 0 plans)
      = map (\<lambda>i. map (\<lambda>dp. (i, dp)) [0..<dp_width plans i]) [0..<length plans]"
    by (rule nth_equalityI) (simp_all add: nth_enumerate_eq dp_width_def)
  then show ?thesis by (simp add: capacity_groups_def group_pairs_def case_prod_unfold)
qed

lemma capacity_group_mem:
  assumes "(g, i, dp) \<in> set (capacity_groups plans)"
  shows "g < length (capacity_groups plans)" "capacity_groups plans ! g = (g, i, dp)" "i < length plans"
    "dp < dp_width plans i"
proof -
  from assms have g: "g < length (group_pairs plans)" "group_pairs plans ! g = (i, dp)"
    by (auto simp: capacity_groups_enumerate in_set_enumerate_eq)
  then show "g < length (capacity_groups plans)" "capacity_groups plans ! g = (g, i, dp)"
    by (simp_all add: capacity_groups_enumerate nth_enumerate_eq)
  have "(i, dp) \<in> set (group_pairs plans)" using g nth_mem by fastforce
  then show "i < length plans" "dp < dp_width plans i" by (auto simp: group_pairs_def)
qed

lemma capacity_group_unique:
  "(g, i, dp) \<in> set (capacity_groups plans) \<Longrightarrow> (g, i', dp') \<in> set (capacity_groups plans) \<Longrightarrow> i' = i \<and> dp' = dp"
  using capacity_group_mem(2) [of g i dp plans] capacity_group_mem(2) [of g i' dp' plans] by simp

lemma capacity_groups_distinct: "distinct (capacity_groups plans)"
  unfolding capacity_groups_enumerate by (metis distinct_enumerate)

lemma group_locations_get:
  "dict_get (group_locations plans) g = Some (i, dp) \<Longrightarrow> (g, i, dp) \<in> set (capacity_groups plans)"
  unfolding group_locations_def map_of_dict_of
  by (auto split: option.splits dest!: map_of_SomeD)

lemma group_locations_total:
  "(g, i, dp) \<in> set (capacity_groups plans) \<Longrightarrow> dict_get (group_locations plans) g = Some (i, dp)"
proof -
  assume mem: "(g, i, dp) \<in> set (capacity_groups plans)"
  have "(g, (i, dp)) \<in> set (rev (map (\<lambda>(g, i, dp). (g, (i, dp))) (capacity_groups plans)))" using mem by force
  then obtain v where v: "map_of (rev (map (\<lambda>(g, i, dp). (g, (i, dp))) (capacity_groups plans))) g = Some v"
    by (metis weak_map_of_SomeI)
  obtain i' dp' where "v = (i', dp')" by force
  with map_of_SomeD [OF v] have "(g, i', dp') \<in> set (capacity_groups plans)" by auto
  then show ?thesis using capacity_group_unique [OF mem] v \<open>v = (i', dp')\<close>
    by (simp add: group_locations_def map_of_dict_of)
qed

text \<open>Summing over the groups of a directory is summing over Instances and their DP ranks.\<close>

lemma sum_groups:
  fixes F :: "nat \<Rightarrow> nat \<Rightarrow> int"
  shows "(\<Sum>(g, i, dp)\<leftarrow>capacity_groups plans. F i dp) = (\<Sum>i<length plans. \<Sum>dp<dp_width plans i. F i dp)"
proof -
  have "map (\<lambda>(g, i, dp). F i dp) (capacity_groups plans) = map (\<lambda>(i, dp). F i dp) (group_pairs plans)"
    unfolding capacity_groups_enumerate by (rule nth_equalityI) (auto simp: nth_enumerate_eq case_prod_unfold)
  moreover have "sum_list (map (\<lambda>(i, dp). F i dp) (concat (map (\<lambda>i. map (\<lambda>dp. (i, dp)) [0..<dp_width plans i]) is))) =
      (\<Sum>i\<leftarrow>is. \<Sum>dp<dp_width plans i. F i dp)" for "is"
    by (induction "is") (simp_all add: comp_def interv_sum_list_conv_sum_set_nat atLeast0LessThan)
  ultimately show ?thesis
    by (simp add: group_pairs_def interv_sum_list_conv_sum_set_nat atLeast0LessThan)
qed

text \<open>Each device of the World belongs to exactly one partition of each Instance.\<close>

lemma device_in_one_group:
  fixes tp d dpw :: nat
  assumes "0 < tp" and "d < tp * dpw"
  shows "(\<Sum>dp<dpw. \<Sum>j<tp. if dp * tp + j = d then f else 0) = (f::int)"
proof -
  have dp: "d div tp < dpw" using assms by (simp add: less_mult_imp_div_less mult.commute)
  have inner: "(\<Sum>j<tp. if dp * tp + j = d then f else 0) = (if dp = d div tp then f else 0)" for dp
  proof (cases "dp = d div tp")
    case True
    have "d mod tp < tp" using assms by simp
    moreover have "dp * tp + j = d \<longleftrightarrow> j = d mod tp" for j
      using True div_mult_mod_eq [of d tp] by (metis add_left_cancel)
    ultimately show ?thesis using True by simp
  next
    case False
    have "dp * tp + j \<noteq> d" if "j < tp" for j
      using that False by (metis assms(1) div_mult_self3 add.commute div_less add_0_right less_not_refl)
    then show ?thesis using False by simp
  qed
  then show ?thesis using dp by simp
qed

lemma sum_over_device:
  assumes "setting prof plans world" and "d < world"
  shows "(\<Sum>(g, i, dp)\<leftarrow>capacity_groups plans. \<Sum>j<tp_width plans i. if dp * tp_width plans i + j = d then f i else 0) =
         (\<Sum>i<length plans. (f i :: int))"
proof -
  have "(\<Sum>dp<dp_width plans i. \<Sum>j<tp_width plans i. if dp * tp_width plans i + j = d then f i else 0) = f i"
    if "i < length plans" for i
    using assms that by (intro device_in_one_group) (auto simp: setting_def)
  then show ?thesis by (simp add: sum_groups)
qed

lemma sum_list_change_one:
  fixes F F' :: "'a \<Rightarrow> int"
  assumes "distinct xs" and "x \<in> set xs" and "\<And>y. y \<in> set xs \<Longrightarrow> y \<noteq> x \<Longrightarrow> F' y = F y"
  shows "sum_list (map F' xs) = sum_list (map F xs) + (F' x - F x)"
  using assms
proof (induction xs)
  case (Cons a xs)
  show ?case
  proof (cases "a = x")
    case True
    then have "map F' xs = map F xs" using Cons.prems by (intro map_cong) auto
    then have "sum_list (map F' xs) = sum_list (map F xs)" by (rule arg_cong)
    then show ?thesis using True by simp
  next
    case False
    then show ?thesis using Cons by auto
  qed
qed simp

subsection \<open>What the pure helpers return\<close>

lemma partition_of_Inr_iff:
  "partition_of book m d = Inr r \<longleftrightarrow> dict_get (book_instances book) \<lparr>iri_model_id = m, iri_rank = int d\<rparr> = Some r"
  by (auto simp: partition_of_def query_def split: option.splits)

lemma group_profiles_Inr:
  assumes "group_profiles book plans i dp = Inr profiles" and "book_agrees prof plans book" and "i < length plans"
  shows "profiles = map (\<lambda>j. (dp * tp_width plans i + j, prof_at prof plans i (dp * tp_width plans i + j))) [0..<tp_width plans i]"
proof -
  let ?start = "dp * tp_width plans i"
  have "rmap (\<lambda>rank. rbind (partition_of book (ip_model_id (plans ! i)) rank) (\<lambda>r. Inr (rank, reg_context_state_profile r)))
      [?start..<?start + tp_width plans i] = Inr profiles"
    using assms(1,3) by (simp add: group_profiles_def index_at_def tp_width_def Let_def)
  then have len: "length profiles = tp_width plans i"
    and each: "\<And>j. j < tp_width plans i \<Longrightarrow> \<exists>r. partition_of book (ip_model_id (plans ! i)) (?start + j) = Inr r
        \<and> profiles ! j = (?start + j, reg_context_state_profile r)"
    by (auto simp: rmap_Inr_iff rbind_Inr_iff)
  show ?thesis
  proof (rule nth_equalityI)
    fix j
    assume "j < length profiles"
    then show "profiles ! j = map (\<lambda>j. (?start + j, prof_at prof plans i (?start + j))) [0..<tp_width plans i] ! j"
      using each [of j] len assms(2,3) by (auto simp: partition_of_Inr_iff book_agrees_def)
  qed (simp add: len)
qed

lemma device_floors_Inr:
  assumes "device_floors book plans d = Inr floors" and "book_agrees prof plans book"
  shows "sum_list floors = floors_on prof plans d"
proof -
  have len: "length floors = length plans"
    and each: "\<And>i. i < length plans \<Longrightarrow> floors ! i = floor_at prof plans i d"
    using assms by (auto simp: device_floors_def rmap_Inr_iff rbind_Inr_iff partition_of_Inr_iff book_agrees_def floor_at_def)
  have "sum_list floors = (\<Sum>i<length plans. floors ! i)"
    using len by (simp add: sum_list_sum_nth atLeast0LessThan)
  also have "\<dots> = floors_on prof plans d" unfolding floors_on_def using each by (intro sum.cong) auto
  finally show ?thesis .
qed

text \<open>The ceiling of one partition while every other Instance keeps its floor.\<close>

definition cap_at :: "profile_map \<Rightarrow> fabric_instance_plan list \<Rightarrow> int list \<Rightarrow> nat \<Rightarrow> nat \<Rightarrow> int" where
  "cap_at prof plans budgets i d =
     min (reservation_bytes (prof_at prof plans i d)) (budgets ! d - (floors_on prof plans d - floor_at prof plans i d))"

definition caps_of :: "profile_map \<Rightarrow> fabric_instance_plan list \<Rightarrow> int list \<Rightarrow> nat \<Rightarrow> nat \<Rightarrow> int list" where
  "caps_of prof plans budgets i dp =
     map (\<lambda>j. cap_at prof plans budgets i (dp * tp_width plans i + j)) [0..<tp_width plans i]"

lemma other_floors_sum:
  assumes "i < length plans"
  shows "(\<Sum>(index, plan)\<leftarrow>filter (\<lambda>(index, plan). index \<noteq> i) (enumerate 0 plans). floor_at prof plans index d) =
         floors_on prof plans d - floor_at prof plans i d"
proof -
  have "(\<Sum>(index, plan)\<leftarrow>filter (\<lambda>(index, plan). index \<noteq> i) (enumerate 0 plans). floor_at prof plans index d) =
        (\<Sum>(index, plan)\<leftarrow>enumerate 0 plans. if index \<noteq> i then floor_at prof plans index d else 0)"
    by (simp add: sum_list_map_filter' case_prod_unfold)
  also have "map (\<lambda>(index, plan). if index \<noteq> i then floor_at prof plans index d else 0) (enumerate 0 plans) =
             map (\<lambda>index. if index \<noteq> i then floor_at prof plans index d else 0) [0..<length plans]"
    by (rule nth_equalityI) (simp_all add: nth_enumerate_eq)
  finally have "(\<Sum>(index, plan)\<leftarrow>filter (\<lambda>(index, plan). index \<noteq> i) (enumerate 0 plans). floor_at prof plans index d) =
       (\<Sum>index<length plans. if index \<noteq> i then floor_at prof plans index d else 0)"
    by (simp add: interv_sum_list_conv_sum_set_nat atLeast0LessThan)
  moreover have "(\<Sum>index<length plans. floor_at prof plans index d) =
      floor_at prof plans i d + (\<Sum>index\<in>{..<length plans} - {i}. floor_at prof plans index d)"
    using assms by (simp add: sum.remove)
  moreover have "(\<Sum>index<length plans. if index \<noteq> i then floor_at prof plans index d else 0) =
      (\<Sum>index\<in>{..<length plans} - {i}. floor_at prof plans index d)"
    by (rule sum.mono_neutral_cong_right) auto
  ultimately show ?thesis by (simp add: floors_on_def)
qed

lemma other_floors_Inr:
  assumes "rmap (\<lambda>(index, plan). rbind (partition_of book (ip_model_id plan) d) (\<lambda>registration.
                    Inr (floor_bytes (reg_context_state_profile registration))))
             (filter (\<lambda>(index, plan). index \<noteq> i) (enumerate 0 plans)) = Inr other"
    and "book_agrees prof plans book" and "i < length plans"
  shows "sum_list other = floors_on prof plans d - floor_at prof plans i d"
proof -
  let ?xs = "filter (\<lambda>(index, plan). index \<noteq> i) (enumerate 0 plans)"
  have len: "length other = length ?xs" using assms(1) by (rule rmap_length)
  have "other ! k = (case ?xs ! k of (index, plan) \<Rightarrow> floor_at prof plans index d)" if k: "k < length ?xs" for k
  proof -
    obtain index plan where xk: "?xs ! k = (index, plan)" by force
    then have "(index, plan) \<in> set (enumerate 0 plans)" using k nth_mem [of k ?xs] by simp
    then have ip: "index < length plans" "plan = plans ! index" by (auto simp: in_set_enumerate_eq)
    have "(case ?xs ! k of (index, plan) \<Rightarrow> rbind (partition_of book (ip_model_id plan) d) (\<lambda>registration.
        Inr (floor_bytes (reg_context_state_profile registration)))) = Inr (other ! k)"
      using assms(1) k unfolding rmap_Inr_iff by blast
    then show ?thesis
      using xk ip assms(2) by (auto simp: rbind_Inr_iff partition_of_Inr_iff book_agrees_def floor_at_def)
  qed
  then have "other = map (\<lambda>(index, plan). floor_at prof plans index d) ?xs"
    using len by (intro nth_equalityI) (auto simp: case_prod_unfold)
  then show ?thesis using other_floors_sum [OF assms(3)] by simp
qed

lemma service_ceiling_Inr:
  assumes "service_ceiling book plans (Some budgets) i dp = Inr caps" and "book_agrees prof plans book" and "i < length plans"
  shows "caps = caps_of prof plans budgets i dp"
proof -
  let ?row = "\<lambda>(device, profile).
              rbind (rmap (\<lambda>(index, plan). rbind (partition_of book (ip_model_id plan) device) (\<lambda>registration.
                             Inr (floor_bytes (reg_context_state_profile registration))))
                      (filter (\<lambda>(index, plan). index \<noteq> i) (enumerate 0 plans))) (\<lambda>other_floors.
              rbind (index_at budgets device) (\<lambda>budget.
                Inr (min (reservation_bytes profile) (budget - sum_list other_floors))))"
  obtain profiles where profiles: "group_profiles book plans i dp = Inr profiles" and rows: "rmap ?row profiles = Inr caps"
    using assms(1) by (auto simp: service_ceiling_def rbind_Inr_iff)
  note shape = group_profiles_Inr [OF profiles assms(2,3)]
  have len: "length caps = tp_width plans i" using rmap_length [OF rows] shape by simp
  have "caps ! j = caps_of prof plans budgets i dp ! j" if j: "j < tp_width plans i" for j
  proof -
    have "?row (profiles ! j) = Inr (caps ! j)" using rows j shape unfolding rmap_Inr_iff by simp
    then show ?thesis
      using j shape other_floors_Inr [OF _ assms(2,3)]
      by (auto simp: rbind_Inr_iff index_at_def caps_of_def cap_at_def split: if_splits)
  qed
  then show ?thesis using len by (intro nth_equalityI) (auto simp: caps_of_def)
qed

definition extra_on :: "profile_map \<Rightarrow> fabric_instance_plan list \<Rightarrow> int list \<Rightarrow> nat \<Rightarrow> int" where
  "extra_on prof plans budgets d = (budgets ! d - floors_on prof plans d) div int (length plans)"

definition initial_of :: "profile_map \<Rightarrow> fabric_instance_plan list \<Rightarrow> int list \<Rightarrow> nat \<Rightarrow> nat \<Rightarrow> int list" where
  "initial_of prof plans budgets i dp =
     map (\<lambda>j. let d = dp * tp_width plans i + j in
        min (reservation_bytes (prof_at prof plans i d)) (floor_at prof plans i d + extra_on prof plans budgets d))
       [0..<tp_width plans i]"

lemma initial_target_Inr:
  assumes "initial_target book plans (Some budgets) i dp = Inr target" and "book_agrees prof plans book" and "i < length plans"
  shows "target = initial_of prof plans budgets i dp"
proof -
  let ?row = "\<lambda>(device, profile).
              rbind (device_floors book plans device) (\<lambda>floors.
              rbind (index_at budgets device) (\<lambda>budget.
                let extra = (budget - sum_list floors) div int (length plans)
                in Inr (min (reservation_bytes profile) (floor_bytes profile + extra))))"
  obtain profiles where profiles: "group_profiles book plans i dp = Inr profiles" and rows: "rmap ?row profiles = Inr target"
    using assms(1) by (auto simp: initial_target_def rbind_Inr_iff)
  note shape = group_profiles_Inr [OF profiles assms(2,3)]
  have len: "length target = tp_width plans i" using rmap_length [OF rows] shape by simp
  have "target ! j = initial_of prof plans budgets i dp ! j" if j: "j < tp_width plans i" for j
  proof -
    have "?row (profiles ! j) = Inr (target ! j)" using rows j shape unfolding rmap_Inr_iff by simp
    then show ?thesis
      using j shape device_floors_Inr [OF _ assms(2)]
      by (auto simp: rbind_Inr_iff index_at_def initial_of_def extra_on_def floor_at_def Let_def split: if_splits)
  qed
  then show ?thesis using len by (intro nth_equalityI) (auto simp: initial_of_def)
qed

subsection \<open>Charges\<close>

text \<open>A group is charged the larger of its old and its requested permission until it retires the request.\<close>

definition target_of :: "quota_command option \<Rightarrow> int list \<Rightarrow> int list" where
  "target_of operation active = (case operation of Some command \<Rightarrow> qc_quota_bytes command | None \<Rightarrow> active)"

definition group_charge :: "fabric_instance_plan list \<Rightarrow> capacity_policy \<Rightarrow> nat \<Rightarrow> nat \<times> nat \<times> nat \<Rightarrow> int" where
  "group_charge plans p d grp =
     (case grp of (g, i, dp) \<Rightarrow>
        case cp_active_quotas p ! g of
          None \<Rightarrow> 0
        | Some active \<Rightarrow>
            (\<Sum>j<tp_width plans i. if dp * tp_width plans i + j = d
               then max (active ! j) (target_of (cp_operations p ! g) active ! j) else 0))"

definition device_charge :: "fabric_instance_plan list \<Rightarrow> capacity_policy \<Rightarrow> nat \<Rightarrow> int" where
  "device_charge plans p d = sum_list (map (group_charge plans p d) (capacity_groups plans))"

lemma sum_list_nth_lt: "sum_list (map f xs) = (\<Sum>j<length xs. f (xs ! j))" for f :: "'a \<Rightarrow> int"
  by (simp add: sum_list_sum_nth atLeast0LessThan)

fun row_charge :: "nat \<Rightarrow> ((nat \<times> ecs_partition_profile) \<times> int) \<times> int \<Rightarrow> int" where
  "row_charge d (((device, _), old), new) = (if device = d then max old new else 0)"

lemma charge_rows_Inr:
  assumes "charge_rows rows free = Inr free'"
  shows "length free' = length free \<and>
    (\<forall>d<length free. free' ! d = free ! d - sum_list (map (row_charge d) rows))"
  using assms
proof (induction rows free rule: charge_rows.induct)
  case (2 device pr old new rows free)
  then have "device < length free"
    and rest: "charge_rows rows (free[device := free ! device - max old new]) = Inr free'"
    by (auto simp: rbind_Inr_iff index_at_def split: if_splits)
  from "2.IH" [OF rest] this show ?case
    by (auto simp: nth_list_update)
qed simp

lemma charge_group_Inr:
  assumes "charge_group book plans p (g, i, dp) free = Inr free'"
    and "book_agrees prof plans book" and "(g, i, dp) \<in> set (capacity_groups plans)"
  shows "length free' = length free \<and> (\<forall>d<length free. free' ! d = free ! d - group_charge plans p d (g, i, dp))"
proof (cases "cp_active_quotas p ! g")
  case None
  then show ?thesis using assms(1)
    by (auto simp: charge_group_def rbind_Inr_iff index_at_def group_charge_def split: if_splits option.splits)
next
  case (Some active)
  let ?target = "target_of (cp_operations p ! g) active"
  obtain profiles where profiles: "group_profiles book plans i dp = Inr profiles"
    and len: "length profiles = length active" "length active = length ?target"
    and rows: "charge_rows (zip (zip profiles active) ?target) free = Inr free'"
  proof -
    have "rbind (group_profiles book plans i dp) (\<lambda>profiles.
          rbind (zip_strict profiles active) (\<lambda>with_old.
          rbind (zip_strict with_old ?target) (\<lambda>rows. charge_rows rows free))) = Inr free'"
      using assms(1) Some
      by (simp add: charge_group_def index_at_def target_of_def Let_def rbind_Inr_iff split: if_splits)
    then show ?thesis using that by (auto simp: rbind_Inr_iff zip_strict_Inr_iff)
  qed
  note shape = group_profiles_Inr [OF profiles assms(2) capacity_group_mem(3) [OF assms(3)]]
  have tp: "length active = tp_width plans i" using shape len by simp
  have "sum_list (map (row_charge d) (zip (zip profiles active) ?target)) = group_charge plans p d (g, i, dp)" for d
  proof -
    have "sum_list (map (row_charge d) (zip (zip profiles active) ?target)) =
        (\<Sum>j<tp_width plans i. row_charge d (zip (zip profiles active) ?target ! j))"
      unfolding sum_list_nth_lt using len tp by simp
    also have "\<dots> = (\<Sum>j<tp_width plans i. if dp * tp_width plans i + j = d then max (active ! j) (?target ! j) else 0)"
      using len tp by (intro sum.cong) (simp_all add: shape)
    finally show ?thesis using Some by (simp add: group_charge_def)
  qed
  then show ?thesis using charge_rows_Inr [OF rows] by simp
qed

lemma charge_groups_Inr:
  assumes "charge_groups book plans p grps free = Inr free'" and "book_agrees prof plans book"
    and "set grps \<subseteq> set (capacity_groups plans)"
  shows "length free' = length free \<and> (\<forall>d<length free. free' ! d = free ! d - sum_list (map (group_charge plans p d) grps))"
  using assms(1,3)
proof (induction grps arbitrary: free)
  case (Cons grp grps)
  obtain g i dp where grp: "grp = (g, i, dp)" by (cases grp)
  obtain mid where mid: "charge_group book plans p grp free = Inr mid"
    and rest: "charge_groups book plans p grps mid = Inr free'"
    using Cons.prems by (auto simp: rbind_Inr_iff)
  show ?case
    using charge_group_Inr [OF mid [unfolded grp] assms(2)] Cons.IH [OF rest] Cons.prems grp by auto
qed simp

lemma pool_free_bytes_Inr:
  assumes "pool_free_bytes book plans p = Inr free" and "book_agrees prof plans book"
  obtains budgets where "cp_pool_capacity_bytes p = Some budgets" and "length free = length budgets"
    and "\<And>d. d < length budgets \<Longrightarrow> free ! d = budgets ! d - device_charge plans p d"
proof -
  obtain budgets where b: "cp_pool_capacity_bytes p = Some budgets"
    and c: "charge_groups book plans p (capacity_groups plans) budgets = Inr free"
    using assms(1) by (auto simp: pool_free_bytes_def rbind_Inr_iff split: option.splits if_splits)
  show ?thesis using that [OF b] charge_groups_Inr [OF c assms(2)] by (simp add: device_charge_def)
qed

end
