(* ===== verification/Capacity_Invariant.thy ===== *)
theory Capacity_Invariant
  imports Capacity_Geometry
begin

section \<open>The capacity policy keeps every device inside its budget\<close>

text \<open>
  The invariant of the capacity policy and its preservation by every method, on normal return and on
  every exception: quotas and requests stay between floor and ceiling, a group has at most the request
  that follows its applied sequence, and the permissions charged to a device never exceed the budget
  frozen for it. The channel reads, the demands and the completions are arbitrary.
\<close>

text \<open>The part of the policy the invariant of one group depends on.\<close>

definition group_view ::
    "capacity_policy \<Rightarrow> nat \<Rightarrow> int list option \<times> quota_command option \<times> int \<times> int list option" where
  "group_view p g = (cp_active_quotas p ! g, cp_operations p ! g, cp_applied_sequences p ! g, cp_service_ceilings p ! g)"

definition vector_ok :: "profile_map \<Rightarrow> fabric_instance_plan list \<Rightarrow> int list \<Rightarrow> nat \<Rightarrow> nat \<Rightarrow> int list \<Rightarrow> bool" where
  "vector_ok prof plans budgets i dp v \<longleftrightarrow> length v = tp_width plans i
     \<and> (\<forall>j<tp_width plans i. floor_at prof plans i (dp * tp_width plans i + j) \<le> v ! j
          \<and> v ! j \<le> cap_at prof plans budgets i (dp * tp_width plans i + j))"

definition view_ok ::
    "profile_map \<Rightarrow> fabric_instance_plan list \<Rightarrow> int list \<Rightarrow> nat \<Rightarrow> nat
     \<Rightarrow> int list option \<times> quota_command option \<times> int \<times> int list option \<Rightarrow> bool" where
  "view_ok prof plans budgets i dp view \<longleftrightarrow>
     (case view of (active, operation, applied, service) \<Rightarrow>
        0 \<le> applied \<and> (service = None \<or> service = Some (caps_of prof plans budgets i dp))
        \<and> (case active of
             None \<Rightarrow> operation = None
           | Some a \<Rightarrow> vector_ok prof plans budgets i dp a
               \<and> (applied = 0 \<longrightarrow> (\<forall>j<tp_width plans i. a ! j = floor_at prof plans i (dp * tp_width plans i + j)))
               \<and> (case operation of
                    None \<Rightarrow> True
                  | Some c \<Rightarrow> qc_sequence c = applied + 1 \<and> vector_ok prof plans budgets i dp (qc_quota_bytes c))))"

definition startup_ok ::
    "profile_map \<Rightarrow> fabric_instance_plan list \<Rightarrow> int list \<Rightarrow> nat \<Rightarrow> nat
     \<Rightarrow> int list option \<times> quota_command option \<times> int \<times> int list option \<Rightarrow> bool" where
  "startup_ok prof plans budgets i dp view \<longleftrightarrow>
     (case view of (active, operation, applied, service) \<Rightarrow>
        \<forall>a. active = Some a \<longrightarrow> (\<forall>j<tp_width plans i.
          max (a ! j) (target_of operation a ! j) \<le>
          floor_at prof plans i (dp * tp_width plans i + j) + extra_on prof plans budgets (dp * tp_width plans i + j)))"

definition starting :: "fabric_instance_plan list \<Rightarrow> capacity_policy \<Rightarrow> bool" where
  "starting plans p \<longleftrightarrow> (\<exists>(g, i, dp)\<in>set (capacity_groups plans). cp_applied_sequences p ! g = 0)"

definition lists_ok :: "fabric_instance_plan list \<Rightarrow> capacity_policy \<Rightarrow> bool" where
  "lists_ok plans p \<longleftrightarrow> (let n = length (capacity_groups plans) in
     length (cp_applied_sequences p) = n \<and> length (cp_active_quotas p) = n \<and> length (cp_operations p) = n
     \<and> length (cp_demands p) = n \<and> length (cp_completed_grant_orders p) = n \<and> length (cp_service_ceilings p) = n)"

definition frozen_ok :: "profile_map \<Rightarrow> fabric_instance_plan list \<Rightarrow> nat \<Rightarrow> int list \<Rightarrow> capacity_policy \<Rightarrow> bool" where
  "frozen_ok prof plans world budgets p \<longleftrightarrow> length budgets = world \<and> (\<forall>d<world. floors_on prof plans d \<le> budgets ! d)
     \<and> (\<forall>(g, i, dp)\<in>set (capacity_groups plans). view_ok prof plans budgets i dp (group_view p g))
     \<and> (starting plans p \<longrightarrow> (\<forall>(g, i, dp)\<in>set (capacity_groups plans). startup_ok prof plans budgets i dp (group_view p g)))
     \<and> (\<forall>d<world. device_charge plans p d \<le> budgets ! d)"

definition capacity_inv :: "profile_map \<Rightarrow> fabric_instance_plan list \<Rightarrow> nat \<Rightarrow> capacity_policy \<Rightarrow> bool" where
  "capacity_inv prof plans world p \<longleftrightarrow> lists_ok plans p \<and>
     (case cp_pool_capacity_bytes p of
        None \<Rightarrow> \<forall>g<length (capacity_groups plans). group_view p g = (None, None, 0, None)
      | Some budgets \<Rightarrow> frozen_ok prof plans world budgets p)"

subsection \<open>Charges of one group\<close>

lemma group_charge_view:
  "group_charge plans p d (g, i, dp) =
     (case group_view p g of (active, operation, _) \<Rightarrow>
        case active of None \<Rightarrow> 0
        | Some a \<Rightarrow> (\<Sum>j<tp_width plans i. if dp * tp_width plans i + j = d then max (a ! j) (target_of operation a ! j) else 0))"
  by (simp add: group_charge_def group_view_def)

lemma sum_at_offset:
  fixes start j tp :: nat and f :: "nat \<Rightarrow> int"
  assumes "j < tp"
  shows "(\<Sum>k<tp. if start + k = start + j then f k else 0) = f j"
  using assms by simp

lemma device_charge_cong:
  "(\<And>g i dp. (g, i, dp) \<in> set (capacity_groups plans) \<Longrightarrow> group_view p' g = group_view p g) \<Longrightarrow>
   device_charge plans p' d = device_charge plans p d"
  unfolding device_charge_def by (intro arg_cong [where f = sum_list] map_cong) (auto simp: group_charge_view)

text \<open>Replacing one group's view changes a device's charge by the difference of that group's charge.\<close>

lemma device_charge_change:
  assumes "(g, i, dp) \<in> set (capacity_groups plans)"
    and "\<And>g' i' dp'. (g', i', dp') \<in> set (capacity_groups plans) \<Longrightarrow> g' \<noteq> g \<Longrightarrow> group_view p' g' = group_view p g'"
  shows "device_charge plans p' d = device_charge plans p d +
     (group_charge plans p' d (g, i, dp) - group_charge plans p d (g, i, dp))"
  unfolding device_charge_def
proof (rule sum_list_change_one [OF capacity_groups_distinct assms(1)])
  fix grp
  assume mem: "grp \<in> set (capacity_groups plans)" and ne: "grp \<noteq> (g, i, dp)"
  obtain g' i' dp' where grp: "grp = (g', i', dp')" by (cases grp)
  have "g' \<noteq> g" using capacity_group_unique [OF assms(1)] mem ne grp by blast
  then show "group_charge plans p' d grp = group_charge plans p d grp"
    using assms(2) mem grp by (simp add: group_charge_view)
qed

lemma startup_charge_bound:
  assumes set: "setting prof plans world" and "d < world"
    and floors: "\<forall>d<world. floors_on prof plans d \<le> budgets ! d"
    and start: "\<forall>(g, i, dp)\<in>set (capacity_groups plans). startup_ok prof plans budgets i dp (group_view p g)"
  shows "device_charge plans p d \<le> budgets ! d"
proof -
  let ?bound = "\<lambda>i. floor_at prof plans i d + extra_on prof plans budgets d"
  have n: "0 < int (length plans)" using set by (simp add: setting_def)
  have extra: "0 \<le> extra_on prof plans budgets d"
    using floors \<open>d < world\<close> n by (simp add: extra_on_def pos_imp_zdiv_nonneg_iff)
  have floor: "0 \<le> floor_at prof plans i d" if "i < length plans" for i
    using set that \<open>d < world\<close> by (auto simp: setting_def floor_at_def partition_profile_ok_def)
  have "group_charge plans p d grp \<le> (case grp of (g, i, dp) \<Rightarrow>
      \<Sum>j<tp_width plans i. if dp * tp_width plans i + j = d then ?bound i else 0)"
    if "grp \<in> set (capacity_groups plans)" for grp
  proof -
    obtain g i dp where grp: "grp = (g, i, dp)" by (cases grp)
    then have i: "i < length plans" using that capacity_group_mem by blast
    have st: "startup_ok prof plans budgets i dp (group_view p g)" using start that grp by auto
    show ?thesis
    proof (cases "cp_active_quotas p ! g")
      case None
      then show ?thesis using grp extra floor [OF i] by (simp add: group_charge_def sum_nonneg)
    next
      case (Some a)
      have "(if dp * tp_width plans i + j = d then max (a ! j) (target_of (cp_operations p ! g) a ! j) else 0)
          \<le> (if dp * tp_width plans i + j = d then ?bound i else 0)" if "j < tp_width plans i" for j
        using st Some that by (auto simp: startup_ok_def group_view_def)
      then have "(\<Sum>j<tp_width plans i. if dp * tp_width plans i + j = d
            then max (a ! j) (target_of (cp_operations p ! g) a ! j) else 0)
          \<le> (\<Sum>j<tp_width plans i. if dp * tp_width plans i + j = d then ?bound i else 0)"
        by (intro sum_mono) simp
      then show ?thesis using grp Some by (simp add: group_charge_def)
    qed
  qed
  then have "device_charge plans p d \<le> (\<Sum>(g, i, dp)\<leftarrow>capacity_groups plans.
      \<Sum>j<tp_width plans i. if dp * tp_width plans i + j = d then ?bound i else 0)"
    unfolding device_charge_def by (rule sum_list_mono)
  also have "\<dots> = (\<Sum>i<length plans. ?bound i)" by (rule sum_over_device [OF set \<open>d < world\<close>])
  also have "\<dots> = floors_on prof plans d + int (length plans) * extra_on prof plans budgets d"
    by (simp add: floors_on_def sum.distrib)
  also have "\<dots> \<le> budgets ! d"
  proof -
    have "0 \<le> (budgets ! d - floors_on prof plans d) mod int (length plans)" using n by simp
    then show ?thesis
      using mult_div_mod_eq [of "int (length plans)" "budgets ! d - floors_on prof plans d"]
      unfolding extra_on_def by linarith
  qed
  finally show ?thesis .
qed

subsection \<open>Changing one group\<close>

lemma device_in_world:
  assumes "setting prof plans world" and "i < length plans" and "dp < dp_width plans i" and "j < tp_width plans i"
  shows "dp * tp_width plans i + j < world"
proof -
  have "dp * tp_width plans i + j < Suc dp * tp_width plans i" using assms(4) by simp
  also have "\<dots> \<le> dp_width plans i * tp_width plans i" using assms(3) by (intro mult_le_mono) auto
  finally show ?thesis using assms(1,2) by (auto simp: setting_def mult.commute)
qed

lemma frozen_ok_change:
  assumes "setting prof plans world" and "frozen_ok prof plans world budgets p"
    and "(g, i, dp) \<in> set (capacity_groups plans)"
    and others: "\<And>g'. g' \<noteq> g \<Longrightarrow> group_view p' g' = group_view p g'"
    and view: "view_ok prof plans budgets i dp (group_view p' g)"
    and start: "starting plans p' \<Longrightarrow> starting plans p \<and> startup_ok prof plans budgets i dp (group_view p' g)"
    and charge: "\<And>d. \<not> starting plans p' \<Longrightarrow> d < world \<Longrightarrow>
        device_charge plans p d + (group_charge plans p' d (g, i, dp) - group_charge plans p d (g, i, dp)) \<le> budgets ! d"
  shows "frozen_ok prof plans world budgets p'"
proof -
  have groups: "i' = i \<and> dp' = dp" if "(g, i', dp') \<in> set (capacity_groups plans)" for i' dp'
    using capacity_group_unique [OF assms(3) that] .
  have lift: "\<forall>(g', i', dp')\<in>set (capacity_groups plans). Q i' dp' (group_view p' g')"
    if "\<forall>(g', i', dp')\<in>set (capacity_groups plans). Q i' dp' (group_view p g')" and "Q i dp (group_view p' g)" for Q
  proof
    fix grp
    assume mem: "grp \<in> set (capacity_groups plans)"
    obtain g' i' dp' where grp: "grp = (g', i', dp')" by (cases grp)
    show "case grp of (g', i', dp') \<Rightarrow> Q i' dp' (group_view p' g')"
    proof (cases "g' = g")
      case True
      then show ?thesis using groups [of i' dp'] mem grp that(2) by simp
    next
      case False
      then show ?thesis using that(1) mem grp others by auto
    qed
  qed
  have views: "\<forall>(g', i', dp')\<in>set (capacity_groups plans). view_ok prof plans budgets i' dp' (group_view p' g')"
    using assms(2) view by (intro lift) (simp_all add: frozen_ok_def)
  have starts: "\<forall>(g', i', dp')\<in>set (capacity_groups plans). startup_ok prof plans budgets i' dp' (group_view p' g')"
    if "starting plans p'"
    using assms(2) start [OF that] by (intro lift) (simp_all add: frozen_ok_def)
  have "device_charge plans p' d \<le> budgets ! d" if "d < world" for d
  proof (cases "starting plans p'")
    case True
    show ?thesis
      using startup_charge_bound [OF assms(1) that _ starts [OF True]] assms(2) by (simp add: frozen_ok_def)
  next
    case False
    have "device_charge plans p' d = device_charge plans p d +
        (group_charge plans p' d (g, i, dp) - group_charge plans p d (g, i, dp))"
      using device_charge_change [OF assms(3)] others by blast
    then show ?thesis using charge [OF False that] by simp
  qed
  then show ?thesis using assms(2) views starts unfolding frozen_ok_def by blast
qed

text \<open>Charges of an idle group, of a group with a request, and outside its devices.\<close>

lemma group_charge_outside:
  "(\<And>j. j < tp_width plans i \<Longrightarrow> dp * tp_width plans i + j \<noteq> d) \<Longrightarrow> group_charge plans p d (g, i, dp) = 0"
  by (simp add: group_charge_def split: option.splits)

lemma group_charge_inside:
  assumes "cp_active_quotas p ! g = Some a" and "j < tp_width plans i"
  shows "group_charge plans p (dp * tp_width plans i + j) (g, i, dp) = max (a ! j) (target_of (cp_operations p ! g) a ! j)"
  using assms sum_at_offset [OF assms(2), of "dp * tp_width plans i" "\<lambda>j. max (a ! j) (target_of (cp_operations p ! g) a ! j)"]
  by (simp add: group_charge_def)

lemma charge_cases:
  assumes "\<And>j. j < tp_width plans i \<Longrightarrow> P (dp * tp_width plans i + j)"
    and "\<And>d. (\<And>j. j < tp_width plans i \<Longrightarrow> dp * tp_width plans i + j \<noteq> d) \<Longrightarrow> P d"
  shows "P d"
  using assms by (cases "\<exists>j<tp_width plans i. d = dp * tp_width plans i + j") metis+

definition with_operation :: "nat \<Rightarrow> int list \<Rightarrow> capacity_policy \<Rightarrow> capacity_policy" where
  "with_operation g quota p =
     p\<lparr>cp_operations := (cp_operations p)[g := Some \<lparr>qc_sequence = cp_applied_sequences p ! g + 1, qc_quota_bytes = quota\<rparr>]\<rparr>"

lemma with_operation_view:
  "g < length (cp_operations p) \<Longrightarrow> group_view (with_operation g quota p) g' =
     (if g' = g then (cp_active_quotas p ! g, Some \<lparr>qc_sequence = cp_applied_sequences p ! g + 1, qc_quota_bytes = quota\<rparr>,
                      cp_applied_sequences p ! g, cp_service_ceilings p ! g)
      else group_view p g')"
  by (simp add: with_operation_def group_view_def)

lemma starting_applied: "cp_applied_sequences p' = cp_applied_sequences p \<Longrightarrow> starting plans p' = starting plans p"
  by (simp add: starting_def)

lemma with_operation_ok:
  assumes "setting prof plans world" and "frozen_ok prof plans world budgets p" and "lists_ok plans p"
    and mem: "(g, i, dp) \<in> set (capacity_groups plans)"
    and idle: "cp_active_quotas p ! g = Some a" "cp_operations p ! g = None"
    and vec: "vector_ok prof plans budgets i dp quota"
    and initial: "\<And>j. starting plans p \<Longrightarrow> j < tp_width plans i \<Longrightarrow>
        quota ! j \<le> floor_at prof plans i (dp * tp_width plans i + j) + extra_on prof plans budgets (dp * tp_width plans i + j)"
    and funded: "\<And>j. \<not> starting plans p \<Longrightarrow> j < tp_width plans i \<Longrightarrow> quota ! j \<le> a ! j \<or>
        device_charge plans p (dp * tp_width plans i + j) + (quota ! j - a ! j) \<le> budgets ! (dp * tp_width plans i + j)"
  shows "frozen_ok prof plans world budgets (with_operation g quota p)"
proof -
  let ?p = "with_operation g quota p"
  have g: "g < length (cp_operations p)" using capacity_group_mem(1) [OF mem] assms(3) by (simp add: lists_ok_def Let_def)
  note view = with_operation_view [OF g]
  have same: "starting plans ?p = starting plans p" by (rule starting_applied) (simp add: with_operation_def)
  have pv: "view_ok prof plans budgets i dp (group_view p g)" and charges: "\<forall>d<world. device_charge plans p d \<le> budgets ! d"
    using assms(2) mem unfolding frozen_ok_def by auto
  have ops: "cp_active_quotas ?p ! g = Some a"
    "target_of (cp_operations ?p ! g) a = quota" "target_of (cp_operations p ! g) a = a"
    using idle g by (simp_all add: with_operation_def target_of_def)
  have after: "group_charge plans ?p (dp * tp_width plans i + j) (g, i, dp) = max (a ! j) (quota ! j)"
    and before: "group_charge plans p (dp * tp_width plans i + j) (g, i, dp) = a ! j" if "j < tp_width plans i" for j
    using group_charge_inside [OF ops(1) that] group_charge_inside [OF idle(1) that] ops by simp_all
  show ?thesis
  proof (rule frozen_ok_change [OF assms(1,2) mem])
    show "group_view ?p g' = group_view p g'" if "g' \<noteq> g" for g' using that by (simp add: view)
    show "view_ok prof plans budgets i dp (group_view ?p g)"
      using pv idle vec unfolding view by (simp add: view_ok_def group_view_def)
    show "starting plans p \<and> startup_ok prof plans budgets i dp (group_view ?p g)" if "starting plans ?p"
    proof -
      have st: "starting plans p" using that same by simp
      then have "startup_ok prof plans budgets i dp (group_view p g)" using assms(2) mem unfolding frozen_ok_def by auto
      then show ?thesis using st initial [OF st] idle unfolding view
        by (auto simp: startup_ok_def target_of_def group_view_def)
    qed
    fix d
    assume ns: "\<not> starting plans ?p" and d: "d < world"
    show "device_charge plans p d + (group_charge plans ?p d (g, i, dp) - group_charge plans p d (g, i, dp)) \<le> budgets ! d"
      using d
    proof (induction d rule: charge_cases [where plans = plans and i = i and dp = dp, case_names inside outside])
      case (inside j)
      then show ?case using funded [of j] ns same after [of j] before [of j] charges by fastforce
    next
      case (outside d)
      then show ?case using group_charge_outside [OF outside(1)] charges by simp
    qed
  qed
qed

lemma frozen_ok_cong:
  assumes "\<And>g. group_view p' g = group_view p g"
  shows "frozen_ok prof plans world budgets p' = frozen_ok prof plans world budgets p"
proof -
  have "cp_applied_sequences p' ! g = cp_applied_sequences p ! g" for g using assms [of g] by (simp add: group_view_def)
  then have "starting plans p' = starting plans p" by (simp add: starting_def)
  moreover have "device_charge plans p' d = device_charge plans p d" for d by (rule device_charge_cong) (rule assms)
  ultimately show ?thesis by (simp add: frozen_ok_def assms)
qed

lemma frozen_ok_other_fields [simp]:
  "frozen_ok prof plans world budgets (p\<lparr>cp_channel := ch\<rparr>) = frozen_ok prof plans world budgets p"
  "frozen_ok prof plans world budgets (p\<lparr>cp_demands := ds\<rparr>) = frozen_ok prof plans world budgets p"
  "frozen_ok prof plans world budgets (p\<lparr>cp_funding_attempt := f\<rparr>) = frozen_ok prof plans world budgets p"
  "frozen_ok prof plans world budgets (p\<lparr>cp_completed_grant_orders := os, cp_next_grant_order := k\<rparr>) =
     frozen_ok prof plans world budgets p"
  by (rule frozen_ok_cong, simp add: group_view_def)+

text \<open>Retiring a request: its target becomes the permission.\<close>

definition with_retired :: "nat \<Rightarrow> quota_command \<Rightarrow> capacity_policy \<Rightarrow> capacity_policy" where
  "with_retired g c p =
     p\<lparr>cp_active_quotas := (cp_active_quotas p)[g := Some (qc_quota_bytes c)],
       cp_applied_sequences := (cp_applied_sequences p)[g := qc_sequence c],
       cp_operations := (cp_operations p)[g := None]\<rparr>"

lemma with_retired_view:
  assumes "lists_ok plans p" and "g < length (capacity_groups plans)"
  shows "group_view (with_retired g c p) g' =
     (if g' = g then (Some (qc_quota_bytes c), None, qc_sequence c, cp_service_ceilings p ! g) else group_view p g')"
  using assms by (simp add: with_retired_def group_view_def lists_ok_def Let_def)

lemma with_retired_starting:
  assumes "lists_ok plans p" and "g < length (capacity_groups plans)" and "0 < qc_sequence c"
  shows "starting plans (with_retired g c p) \<Longrightarrow> starting plans p"
  using assms capacity_group_mem(1)
  by (fastforce simp: starting_def with_retired_def lists_ok_def Let_def nth_list_update split: if_splits)

lemma with_retired_ok:
  assumes "setting prof plans world" and "frozen_ok prof plans world budgets p" and "lists_ok plans p"
    and mem: "(g, i, dp) \<in> set (capacity_groups plans)" and op: "cp_operations p ! g = Some c"
  shows "frozen_ok prof plans world budgets (with_retired g c p)"
proof -
  let ?p = "with_retired g c p"
  have g: "g < length (capacity_groups plans)" using capacity_group_mem(1) [OF mem] .
  note view = with_retired_view [OF assms(3) g]
  have pv: "view_ok prof plans budgets i dp (group_view p g)" and charges: "\<forall>d<world. device_charge plans p d \<le> budgets ! d"
    using assms(2) mem unfolding frozen_ok_def by auto
  then obtain a where a: "cp_active_quotas p ! g = Some a"
    and c: "qc_sequence c = cp_applied_sequences p ! g + 1" "0 \<le> cp_applied_sequences p ! g"
      "vector_ok prof plans budgets i dp (qc_quota_bytes c)"
    using op by (auto simp: view_ok_def group_view_def split: option.splits)
  have fields: "cp_active_quotas ?p ! g = Some (qc_quota_bytes c)" "cp_operations ?p ! g = None"
    using assms(3) g by (simp_all add: with_retired_def lists_ok_def Let_def)
  show ?thesis
  proof (rule frozen_ok_change [OF assms(1,2) mem])
    show "group_view ?p g' = group_view p g'" if "g' \<noteq> g" for g' using that by (simp add: view)
    show "view_ok prof plans budgets i dp (group_view ?p g)"
      using pv c a op unfolding view by (simp add: view_ok_def group_view_def)
    show "starting plans p \<and> startup_ok prof plans budgets i dp (group_view ?p g)" if "starting plans ?p"
    proof -
      have st: "starting plans p" using with_retired_starting [OF assms(3) g _ that] c by simp
      then have "startup_ok prof plans budgets i dp (group_view p g)" using assms(2) mem unfolding frozen_ok_def by auto
      then show ?thesis using st a op unfolding view by (auto simp: startup_ok_def group_view_def target_of_def)
    qed
    fix d
    assume d: "d < world"
    then show "device_charge plans p d + (group_charge plans ?p d (g, i, dp) - group_charge plans p d (g, i, dp)) \<le> budgets ! d"
    proof (induction d rule: charge_cases [where plans = plans and i = i and dp = dp, case_names inside outside])
      case (inside j)
      then show ?case
        using group_charge_inside [OF fields(1) inside(1)] group_charge_inside [OF a inside(1)] charges fields(2) op
        by (fastforce simp: target_of_def)
    next
      case (outside d)
      then show ?case using group_charge_outside [OF outside(1)] charges by simp
    qed
  qed
qed

text \<open>Freezing a group: it starts at its floors.\<close>

definition floors_of :: "profile_map \<Rightarrow> fabric_instance_plan list \<Rightarrow> nat \<Rightarrow> nat \<Rightarrow> int list" where
  "floors_of prof plans i dp = map (\<lambda>j. floor_at prof plans i (dp * tp_width plans i + j)) [0..<tp_width plans i]"

lemma floor_below_cap:
  assumes "setting prof plans world" and "i < length plans" and "d < world" and "floors_on prof plans d \<le> budgets ! d"
  shows "floor_at prof plans i d \<le> cap_at prof plans budgets i d"
  using assms by (auto simp: cap_at_def floor_at_def setting_def partition_profile_ok_def)

lemma floors_vector_ok:
  assumes "setting prof plans world" and "\<forall>d<world. floors_on prof plans d \<le> budgets ! d"
    and mem: "(g, i, dp) \<in> set (capacity_groups plans)"
  shows "vector_ok prof plans budgets i dp (floors_of prof plans i dp)"
  using assms floor_below_cap device_in_world [OF assms(1) capacity_group_mem(3,4) [OF mem]]
  by (auto simp: vector_ok_def floors_of_def capacity_group_mem(3) [OF mem])

lemma initial_vector_ok:
  assumes "setting prof plans world" and "\<forall>d<world. floors_on prof plans d \<le> budgets ! d"
    and mem: "(g, i, dp) \<in> set (capacity_groups plans)"
  shows "vector_ok prof plans budgets i dp (initial_of prof plans budgets i dp)
    \<and> (\<forall>j<tp_width plans i. initial_of prof plans budgets i dp ! j \<le>
         floor_at prof plans i (dp * tp_width plans i + j) + extra_on prof plans budgets (dp * tp_width plans i + j))"
proof -
  have i: "i < length plans" using capacity_group_mem(3) [OF mem] .
  have n: "0 < int (length plans)" using i by (cases plans) auto
  have bounds: "0 \<le> extra_on prof plans budgets d" "extra_on prof plans budgets d \<le> budgets ! d - floors_on prof plans d"
    if "d < world" for d
  proof -
    have nonneg: "0 \<le> budgets ! d - floors_on prof plans d" using assms(2) that by simp
    then show "0 \<le> extra_on prof plans budgets d"
      unfolding extra_on_def using pos_imp_zdiv_nonneg_iff [OF n] by blast
    have "(budgets ! d - floors_on prof plans d) div int (length plans) \<le> (budgets ! d - floors_on prof plans d) div 1"
      using nonneg n by (intro zdiv_mono2) (linarith | simp)+
    then show "extra_on prof plans budgets d \<le> budgets ! d - floors_on prof plans d"
      unfolding extra_on_def by simp
  qed
  have res: "floor_at prof plans i d \<le> reservation_bytes (prof_at prof plans i d)" if "d < world" for d
    using assms(1) i that by (auto simp: setting_def floor_at_def partition_profile_ok_def)
  show ?thesis
    using bounds res device_in_world [OF assms(1) i capacity_group_mem(4) [OF mem]]
    by (fastforce simp: vector_ok_def initial_of_def cap_at_def Let_def)
qed

end
