(* ===== verification/Capacity_Safety.thy ===== *)
theory Capacity_Safety
  imports Capacity_Invariant
begin

section \<open>Every method of the capacity policy keeps the invariant\<close>

text \<open>
  Preservation of the capacity invariant by each method of \<^verbatim>\<open>CapacityPolicy\<close>, composed into one
  scheduler step, and the resulting guarantees about device budgets. The demands, completions and
  observations read from the channel are arbitrary; registrations only have to declare the profiles
  of the setting.
\<close>

definition frozen_inv :: "profile_map \<Rightarrow> fabric_instance_plan list \<Rightarrow> nat \<Rightarrow> int list \<Rightarrow> capacity_policy \<Rightarrow> bool" where
  "frozen_inv prof plans world budgets p \<longleftrightarrow>
     cp_pool_capacity_bytes p = Some budgets \<and> lists_ok plans p \<and> frozen_ok prof plans world budgets p"

definition serving_inv :: "profile_map \<Rightarrow> fabric_instance_plan list \<Rightarrow> nat \<Rightarrow> int list \<Rightarrow> capacity_policy \<Rightarrow> bool" where
  "serving_inv prof plans world budgets p \<longleftrightarrow> frozen_inv prof plans world budgets p \<and> \<not> starting plans p"

lemma frozen_inv_capacity: "frozen_inv prof plans world budgets p \<Longrightarrow> capacity_inv prof plans world p"
  by (simp add: frozen_inv_def capacity_inv_def)

lemma capacity_inv_frozen:
  "capacity_inv prof plans world p \<Longrightarrow> cp_pool_capacity_bytes p = Some budgets \<Longrightarrow> frozen_inv prof plans world budgets p"
  by (simp add: frozen_inv_def capacity_inv_def)

lemma lists_ok_other_fields [simp]:
  "lists_ok plans (p\<lparr>cp_channel := ch\<rparr>) = lists_ok plans p"
  "lists_ok plans (p\<lparr>cp_funding_attempt := f\<rparr>) = lists_ok plans p"
  "lists_ok plans (p\<lparr>cp_pool_capacity_bytes := b\<rparr>) = lists_ok plans p"
  "lists_ok plans (with_operation g quota p) = lists_ok plans p"
  "lists_ok plans (with_retired g c p) = lists_ok plans p"
  by (simp_all add: lists_ok_def with_operation_def with_retired_def)

lemma frozen_inv_other_fields [simp]:
  "frozen_inv prof plans world budgets (p\<lparr>cp_channel := ch\<rparr>) = frozen_inv prof plans world budgets p"
  "frozen_inv prof plans world budgets (p\<lparr>cp_funding_attempt := f\<rparr>) = frozen_inv prof plans world budgets p"
  by (simp_all add: frozen_inv_def)

lemma starting_other_fields [simp]:
  "starting plans (p\<lparr>cp_channel := ch\<rparr>) = starting plans p"
  "starting plans (p\<lparr>cp_funding_attempt := f\<rparr>) = starting plans p"
  "starting plans (p\<lparr>cp_demands := ds\<rparr>) = starting plans p"
  "starting plans (with_operation g quota p) = starting plans p"
  by (simp_all add: starting_def with_operation_def)

lemma lists_ok_length:
  assumes "lists_ok plans p" and "(g, i, dp) \<in> set (capacity_groups plans)"
  shows "g < length (cp_applied_sequences p)" "g < length (cp_active_quotas p)" "g < length (cp_operations p)"
    "g < length (cp_service_ceilings p)" "g < length (cp_demands p)" "g < length (cp_completed_grant_orders p)"
  using assms capacity_group_mem(1) [OF assms(2)] by (simp_all add: lists_ok_def Let_def)

lemma frozen_view:
  assumes "frozen_ok prof plans world budgets p" and "(g, i, dp) \<in> set (capacity_groups plans)"
  shows "view_ok prof plans budgets i dp (group_view p g)"
  using assms by (auto simp: frozen_ok_def)

lemma frozen_active:
  assumes "frozen_ok prof plans world budgets p" and "(g, i, dp) \<in> set (capacity_groups plans)"
    and "cp_active_quotas p ! g = Some a"
  shows "vector_ok prof plans budgets i dp a"
  using frozen_view [OF assms(1,2)] assms(3) by (simp add: view_ok_def group_view_def)

lemma frozen_service:
  assumes "frozen_ok prof plans world budgets p" and "(g, i, dp) \<in> set (capacity_groups plans)"
    and "cp_service_ceilings p ! g = Some caps"
  shows "caps = caps_of prof plans budgets i dp"
  using frozen_view [OF assms(1,2)] assms(3) by (simp add: view_ok_def group_view_def)

subsection \<open>Publishing an operation\<close>

lemma channel_update_commutes:
  "p\<lparr>cp_channel := ch, cp_operations := ops\<rparr> = p\<lparr>cp_operations := ops, cp_channel := ch\<rparr>" for p :: capacity_policy
  by (cases p) simp

lemma publish_operation_cases:
  assumes "publish_operation g quota p = (r, p')"
  obtains (rejected) e where "r = Inl e" and "p' = p"
  | (published) a ch where "r = Inr ()" and "cp_active_quotas p ! g = Some a" and "cp_operations p ! g = None"
      and "g < length (cp_operations p)" and "p' = (with_operation g quota p)\<lparr>cp_channel := ch\<rparr>"
proof (cases r)
  case (Inl e)
  have "p' = p" using assms Inl
    by (auto simp: publish_operation_def bind_def on_channel_def modify_def raise_def Let_def
        split: sum.splits prod.splits dest!: publish_command_Inl)
  then show ?thesis using rejected Inl by blast
next
  case (Inr u)
  then obtain a where "cp_active_quotas p ! g = Some a" "cp_operations p ! g = None" "g < length (cp_operations p)"
    using assms
    by (auto simp: publish_operation_def raise_def rbind_def index_at_def split: sum.splits if_splits)
  moreover have "\<exists>ch. p' = (with_operation g quota p)\<lparr>cp_channel := ch\<rparr>"
    using assms Inr
    by (auto simp: publish_operation_def bind_def on_channel_def modify_def raise_def rbind_Inr_iff index_at_def
        with_operation_def Let_def channel_update_commutes split: sum.splits prod.splits if_splits)
  ultimately show ?thesis using published Inr by auto
qed

lemma publish_operation_frozen:
  assumes "setting prof plans world" and inv: "frozen_inv prof plans world budgets p"
    and mem: "(g, i, dp) \<in> set (capacity_groups plans)" and "vector_ok prof plans budgets i dp quota"
    and "\<And>j. starting plans p \<Longrightarrow> j < tp_width plans i \<Longrightarrow>
        quota ! j \<le> floor_at prof plans i (dp * tp_width plans i + j) + extra_on prof plans budgets (dp * tp_width plans i + j)"
    and "\<And>a j. cp_active_quotas p ! g = Some a \<Longrightarrow> \<not> starting plans p \<Longrightarrow> j < tp_width plans i \<Longrightarrow> quota ! j \<le> a ! j \<or>
        device_charge plans p (dp * tp_width plans i + j) + (quota ! j - a ! j) \<le> budgets ! (dp * tp_width plans i + j)"
    and run: "publish_operation g quota p = (r, p')"
  shows "frozen_inv prof plans world budgets p'" and "starting plans p' = starting plans p"
proof -
  from run have "frozen_inv prof plans world budgets p' \<and> starting plans p' = starting plans p"
  proof (cases rule: publish_operation_cases)
    case rejected
    then show ?thesis using inv by simp
  next
    case (published a ch)
    have "frozen_ok prof plans world budgets (with_operation g quota p)"
      using assms published inv by (intro with_operation_ok [OF assms(1) _ _ mem]) (auto simp: frozen_inv_def)
    then show ?thesis using published inv by (simp add: frozen_inv_def) (simp add: with_operation_def)
  qed
  then show "frozen_inv prof plans world budgets p'" and "starting plans p' = starting plans p" by auto
qed

subsection \<open>Freezing the pools\<close>

definition untouched :: "fabric_instance_plan list \<Rightarrow> capacity_policy \<Rightarrow> bool" where
  "untouched plans p \<longleftrightarrow>
     (\<forall>(g, i, dp)\<in>set (capacity_groups plans). cp_operations p ! g = None \<and> cp_applied_sequences p ! g = 0)"

definition with_floors :: "nat \<Rightarrow> int list \<Rightarrow> capacity_policy \<Rightarrow> capacity_policy" where
  "with_floors g floors p = p\<lparr>cp_active_quotas := (cp_active_quotas p)[g := Some floors]\<rparr>"

definition with_ceiling :: "nat \<Rightarrow> int list \<Rightarrow> capacity_policy \<Rightarrow> capacity_policy" where
  "with_ceiling g caps p = p\<lparr>cp_service_ceilings := (cp_service_ceilings p)[g := Some caps]\<rparr>"

lemma with_floors_view:
  "g < length (cp_active_quotas p) \<Longrightarrow> group_view (with_floors g floors p) g' =
     (if g' = g then (Some floors, cp_operations p ! g, cp_applied_sequences p ! g, cp_service_ceilings p ! g)
      else group_view p g')"
  by (simp add: with_floors_def group_view_def)

lemma with_ceiling_view:
  "g < length (cp_service_ceilings p) \<Longrightarrow> group_view (with_ceiling g caps p) g' =
     (if g' = g then (cp_active_quotas p ! g, cp_operations p ! g, cp_applied_sequences p ! g, Some caps)
      else group_view p g')"
  by (simp add: with_ceiling_def group_view_def)

lemma untouched_fields [simp]:
  "untouched plans (with_floors g floors p) = untouched plans p"
  "untouched plans (with_ceiling g caps p) = untouched plans p"
  "untouched plans (p\<lparr>cp_channel := ch\<rparr>) = untouched plans p"
  by (simp_all add: untouched_def with_floors_def with_ceiling_def)

lemma untouched_starting:
  "untouched plans p \<Longrightarrow> (g, i, dp) \<in> set (capacity_groups plans) \<Longrightarrow> starting plans p"
  unfolding untouched_def starting_def by fastforce

lemma frozen_ok_untouched:
  assumes "setting prof plans world" and "frozen_ok prof plans world budgets p" and "untouched plans p'" "untouched plans p"
    and mem: "(g, i, dp) \<in> set (capacity_groups plans)"
    and "\<And>g'. g' \<noteq> g \<Longrightarrow> group_view p' g' = group_view p g'"
    and "view_ok prof plans budgets i dp (group_view p' g)" and "startup_ok prof plans budgets i dp (group_view p' g)"
  shows "frozen_ok prof plans world budgets p'"
  using assms untouched_starting [OF _ mem] by (intro frozen_ok_change [OF assms(1,2) mem]) auto

lemma with_floors_ok:
  assumes "setting prof plans world" and ok: "frozen_ok prof plans world budgets p" and "untouched plans p"
    and mem: "(g, i, dp) \<in> set (capacity_groups plans)" and "lists_ok plans p"
  shows "frozen_ok prof plans world budgets (with_floors g (floors_of prof plans i dp) p)"
proof -
  note view = with_floors_view [OF lists_ok_length(2) [OF assms(5) mem]]
  have idle: "cp_operations p ! g = None" "cp_applied_sequences p ! g = 0" using assms(3) mem by (auto simp: untouched_def)
  have floors: "\<forall>d<world. floors_on prof plans d \<le> budgets ! d" using ok by (simp add: frozen_ok_def)
  have "0 \<le> extra_on prof plans budgets (dp * tp_width plans i + j)" if "j < tp_width plans i" for j
    unfolding extra_on_def
    using floors device_in_world [OF assms(1) capacity_group_mem(3,4) [OF mem] that] capacity_group_mem(3) [OF mem]
    by (subst pos_imp_zdiv_nonneg_iff) auto
  then have "startup_ok prof plans budgets i dp (group_view (with_floors g (floors_of prof plans i dp) p) g)"
    unfolding view using idle by (simp add: startup_ok_def target_of_def floors_of_def)
  moreover have "view_ok prof plans budgets i dp (group_view (with_floors g (floors_of prof plans i dp) p) g)"
    unfolding view using floors_vector_ok [OF assms(1) floors mem] idle frozen_view [OF ok mem]
    by (simp add: view_ok_def group_view_def floors_of_def)
  ultimately show ?thesis
    using assms(3) by (intro frozen_ok_untouched [OF assms(1) ok _ assms(3) mem]) (simp_all add: view)
qed

lemma with_ceiling_ok:
  assumes "setting prof plans world" and ok: "frozen_ok prof plans world budgets p" and "untouched plans p"
    and mem: "(g, i, dp) \<in> set (capacity_groups plans)" and "lists_ok plans p"
  shows "frozen_ok prof plans world budgets (with_ceiling g (caps_of prof plans budgets i dp) p)"
proof -
  note view = with_ceiling_view [OF lists_ok_length(4) [OF assms(5) mem]]
  have "startup_ok prof plans budgets i dp (group_view p g)"
    using ok mem untouched_starting [OF assms(3) mem] unfolding frozen_ok_def by auto
  then have "startup_ok prof plans budgets i dp (group_view (with_ceiling g (caps_of prof plans budgets i dp) p) g)"
    unfolding view by (simp add: startup_ok_def group_view_def)
  moreover have "view_ok prof plans budgets i dp (group_view (with_ceiling g (caps_of prof plans budgets i dp) p) g)"
    unfolding view using frozen_view [OF ok mem] by (simp add: view_ok_def group_view_def)
  ultimately show ?thesis
    using assms(3) by (intro frozen_ok_untouched [OF assms(1) ok _ assms(3) mem]) (simp_all add: view)
qed

definition freezing :: "profile_map \<Rightarrow> fabric_instance_plan list \<Rightarrow> nat \<Rightarrow> int list \<Rightarrow> capacity_policy \<Rightarrow> bool" where
  "freezing prof plans world budgets p \<longleftrightarrow> frozen_inv prof plans world budgets p \<and> untouched plans p"

lemma freezing_with_floors:
  assumes "setting prof plans world" and "freezing prof plans world budgets p" and "(g, i, dp) \<in> set (capacity_groups plans)"
  shows "freezing prof plans world budgets (with_floors g (floors_of prof plans i dp) p)"
  using assms with_floors_ok [OF assms(1) _ _ assms(3)]
  by (simp add: freezing_def frozen_inv_def) (simp add: with_floors_def lists_ok_def)

lemma freezing_with_ceiling:
  assumes "setting prof plans world" and "freezing prof plans world budgets p" and "(g, i, dp) \<in> set (capacity_groups plans)"
  shows "freezing prof plans world budgets (with_ceiling g (caps_of prof plans budgets i dp) p)"
  using assms with_ceiling_ok [OF assms(1) _ _ assms(3)]
  by (simp add: freezing_def frozen_inv_def) (simp add: with_ceiling_def lists_ok_def)

lemma freeze_group_freezing:
  assumes "setting prof plans world" and "book_agrees prof plans book" and mem: "grp \<in> set (capacity_groups plans)"
  shows "keeps (freezing prof plans world budgets) (freeze_group book plans grp)"
proof (rule keepsI)
  fix p
  assume inv: "freezing prof plans world budgets p"
  obtain g i dp where grp: "grp = (g, i, dp)" by (cases grp)
  note m = mem [unfolded grp] and i = capacity_group_mem(3) [OF mem [unfolded grp]]
  let ?p1 = "with_floors g (floors_of prof plans i dp) p"
  have len: "g < length (cp_active_quotas p)" and pool: "cp_pool_capacity_bytes p = Some budgets"
    using inv lists_ok_length(2) [OF _ m] by (auto simp: freezing_def frozen_inv_def)
  have one: "freezing prof plans world budgets ?p1" by (rule freezing_with_floors [OF assms(1) inv m])
  have two: "freezing prof plans world budgets (with_ceiling g (caps_of prof plans budgets i dp) ?p1)"
    by (rule freezing_with_ceiling [OF assms(1) one m])
  show "freezing prof plans world budgets (snd (freeze_group book plans grp p))"
  proof (cases "group_profiles book plans i dp")
    case (Inl e)
    then show ?thesis using inv grp by (simp add: freeze_group_def raise_def)
  next
    case (Inr profiles)
    have fl: "map (\<lambda>(_, profile). floor_bytes profile) profiles = floors_of prof plans i dp"
      using group_profiles_Inr [OF Inr assms(2) i] by (simp add: floors_of_def floor_at_def)
    have same: "p\<lparr>cp_active_quotas := (cp_active_quotas p)[g := Some (floors_of prof plans i dp)]\<rparr> = ?p1"
      by (simp add: with_floors_def)
    have pool1: "cp_pool_capacity_bytes ?p1 = Some budgets" using pool by (simp add: with_floors_def)
    show ?thesis
    proof (cases "service_ceiling book plans (Some budgets) i dp")
      case (Inl e)
      then show ?thesis using Inr grp len fl same pool1 one by (simp add: freeze_group_def raise_def set_item_def Let_def)
    next
      case (Inr caps)
      have "caps = caps_of prof plans budgets i dp" by (rule service_ceiling_Inr [OF Inr assms(2) i])
      then show ?thesis
        using Inr \<open>group_profiles book plans i dp = Inr profiles\<close> grp len fl same pool1 one two
        by (auto simp: freeze_group_def raise_def set_item_def on_channel_def Let_def with_ceiling_def freezing_def
            split: prod.splits if_splits)
    qed
  qed
qed

lemma device_budget_floors:
  assumes "device_budget config book plans backing (d, report) = Inr budget" and "book_agrees prof plans book"
  shows "floors_on prof plans d \<le> budget"
proof -
  let ?row = "\<lambda>(i, plan). rbind (index_at backing (i * nat (atn_world_size config) + d)) (\<lambda>backed.
                   rbind (partition_of book (ip_model_id plan) d) (\<lambda>registration.
                     let profile = reg_context_state_profile registration
                     in if backed \<noteq> Some (floor_bytes profile)
                        then Inl (RuntimeError ''elastic context state startup backing differs from its registered floor'')
                        else Inr (the backed, floor_bytes profile, atn_runtime_headroom_bytes registration)))"
  obtain rows where rows: "rmap ?row (enumerate 0 plans) = Inr rows" and sum: "(\<Sum>(b, f, h)\<leftarrow>rows. f) \<le> budget"
    using assms(1) by (auto simp: device_budget_def rbind_Inr_iff Let_def split: option.splits if_splits)
  have "fst (snd (rows ! i)) = floor_at prof plans i d" if "i < length plans" for i
  proof -
    have "?row (i, plans ! i) = Inr (rows ! i)" using rows that unfolding rmap_Inr_iff by (simp add: nth_enumerate_eq)
    then show ?thesis using that assms(2)
      by (cases "rows ! i") (auto simp: rbind_Inr_iff partition_of_Inr_iff book_agrees_def floor_at_def Let_def split: if_splits)
  qed
  moreover have "length rows = length plans" using rmap_length [OF rows] by simp
  ultimately have "(\<Sum>(b, f, h)\<leftarrow>rows. f) = floors_on prof plans d"
    unfolding sum_list_nth_lt floors_on_def by (intro sum.cong) (auto simp: case_prod_unfold)
  then show ?thesis using sum by simp
qed

lemma freeze_start:
  assumes "setting prof plans world" and "capacity_inv prof plans world p" and "cp_pool_capacity_bytes p = None"
    and "length budgets = world" and "\<forall>d<world. floors_on prof plans d \<le> budgets ! d"
  shows "freezing prof plans world budgets (p\<lparr>cp_pool_capacity_bytes := Some budgets\<rparr>)"
proof -
  let ?p = "p\<lparr>cp_pool_capacity_bytes := Some budgets\<rparr>"
  have lists: "lists_ok plans p" and "\<forall>g<length (capacity_groups plans). group_view p g = (None, None, 0, None)"
    using assms(2,3) by (simp_all add: capacity_inv_def)
  then have empty: "group_view ?p g = (None, None, 0, None)" if "(g, i, dp) \<in> set (capacity_groups plans)" for g i dp
    using capacity_group_mem(1) [OF that] by (simp add: group_view_def)
  then have starts: "\<forall>(g, i, dp)\<in>set (capacity_groups plans). startup_ok prof plans budgets i dp (group_view ?p g)"
    and views: "\<forall>(g, i, dp)\<in>set (capacity_groups plans). view_ok prof plans budgets i dp (group_view ?p g)"
    by (auto simp: startup_ok_def view_ok_def)
  have "untouched plans ?p"
    using empty by (fastforce simp: untouched_def group_view_def)
  then show ?thesis
    using lists startup_charge_bound [OF assms(1) _ assms(5) starts] starts views assms(4,5)
    unfolding freezing_def frozen_inv_def frozen_ok_def by simp
qed

lemma freeze_pools_keeps:
  assumes "setting prof plans world" and "book_agrees prof plans book" and "length reports = world"
    and "capacity_inv prof plans world p" and "cp_pool_capacity_bytes p = None"
  shows "capacity_inv prof plans world (snd (freeze_pools config book plans backing reports p))"
    and "freeze_pools config book plans backing reports p = (Inr u, p') \<Longrightarrow> \<exists>budgets. frozen_inv prof plans world budgets p'"
proof -
  have "capacity_inv prof plans world (snd (freeze_pools config book plans backing reports p)) \<and>
    (freeze_pools config book plans backing reports p = (Inr u, p') \<longrightarrow> (\<exists>budgets. frozen_inv prof plans world budgets p'))"
  proof (cases "rmap (device_budget config book plans backing) (enumerate 0 reports)")
    case (Inl e)
    then show ?thesis using assms(4) by (simp add: freeze_pools_def raise_def)
  next
    case (Inr budgets)
    have len: "length budgets = world" using rmap_length [OF Inr] assms(3) by simp
    have "floors_on prof plans d \<le> budgets ! d" if "d < world" for d
    proof -
      have "device_budget config book plans backing (d, reports ! d) = Inr (budgets ! d)"
        using Inr that assms(3) unfolding rmap_Inr_iff by (simp add: nth_enumerate_eq)
      then show ?thesis by (rule device_budget_floors [OF _ assms(2)])
    qed
    then have start: "freezing prof plans world budgets (p\<lparr>cp_pool_capacity_bytes := Some budgets\<rparr>)"
      by (intro freeze_start [OF assms(1,4,5) len]) auto
    have loop: "keeps (freezing prof plans world budgets) (for_each (freeze_group book plans) (capacity_groups plans))"
      by (rule hoare_for_each) (rule freeze_group_freezing [OF assms(1,2)])
    have "freezing prof plans world budgets (snd (freeze_pools config book plans backing reports p))"
      using keeps_snd [OF loop start] Inr by (simp add: freeze_pools_def)
    then show ?thesis using frozen_inv_capacity unfolding freezing_def by auto
  qed
  then show "capacity_inv prof plans world (snd (freeze_pools config book plans backing reports p))"
    and "freeze_pools config book plans backing reports p = (Inr u, p') \<Longrightarrow> \<exists>budgets. frozen_inv prof plans world budgets p'"
    by auto
qed

subsection \<open>Retiring operations\<close>

lemma frozen_inv_retired:
  assumes "setting prof plans world" and "frozen_inv prof plans world budgets p"
    and "(g, i, dp) \<in> set (capacity_groups plans)" and "cp_operations p ! g = Some c"
  shows "frozen_inv prof plans world budgets (with_retired g c p)"
  using assms with_retired_ok [OF assms(1) _ _ assms(3,4)]
  by (simp add: frozen_inv_def) (simp add: with_retired_def)

lemma frozen_inv_orders:
  assumes "frozen_inv prof plans world budgets p" and "set_item (cp_completed_grant_orders p) g v = Inr orders"
  shows "frozen_inv prof plans world budgets (p\<lparr>cp_completed_grant_orders := orders, cp_next_grant_order := k\<rparr>)"
  using assms by (auto simp: frozen_inv_def lists_ok_def set_item_def split: if_splits)

text \<open>Every outcome of retiring one group: nothing, or its pending request became the permission.\<close>

lemma retire_group_cases:
  assumes "retire_group config book plans completions (g, i, dp) p = (r, p')"
  obtains (unchanged) "p' = p" and "r \<noteq> Inr True"
  | (retired) c replies p1 where "cp_operations p ! g = Some c"
      and "group_replies config plans completions i dp (qc_sequence c) = Inr (Some replies)"
      and "p1 = with_retired g c p"
      and "p' = p1 \<or> (\<exists>orders k. set_item (cp_completed_grant_orders p1) g (Some (cp_next_grant_order p1)) = Inr orders
             \<and> p' = p1\<lparr>cp_completed_grant_orders := orders, cp_next_grant_order := k\<rparr>)"
proof -
  have "(p' = p \<and> r \<noteq> Inr True) \<or> (\<exists>c replies p1. cp_operations p ! g = Some c
      \<and> group_replies config plans completions i dp (qc_sequence c) = Inr (Some replies)
      \<and> p1 = with_retired g c p
      \<and> (p' = p1 \<or> (\<exists>orders k. set_item (cp_completed_grant_orders p1) g (Some (cp_next_grant_order p1)) = Inr orders
             \<and> p' = p1\<lparr>cp_completed_grant_orders := orders, cp_next_grant_order := k\<rparr>)))"
  proof (cases "index_at (cp_operations p) g")
    case (Inl e)
    then show ?thesis using assms by (auto simp: retire_group_def raise_def)
  next
    case (Inr operation)
    show ?thesis
    proof (cases operation)
      case None
      then show ?thesis using assms Inr by (auto simp: retire_group_def ret_def)
    next
      case (Some c)
      have op: "cp_operations p ! g = Some c" using Inr Some by (simp add: index_at_def split: if_splits)
      show ?thesis
      proof (cases "group_replies config plans completions i dp (qc_sequence c)")
        case (Inl e)
        then show ?thesis using assms Inr Some by (auto simp: retire_group_def raise_def)
      next
        case replies: (Inr found)
        show ?thesis
        proof (cases found)
          case None
          then show ?thesis using assms Inr Some replies by (auto simp: retire_group_def ret_def)
        next
          case found: (Some rs)
          then show ?thesis using assms Inr Some replies op
            by (auto simp: retire_group_def ret_def raise_def rbind_Inr_iff set_item_def with_retired_def Let_def
                split: sum.splits if_splits option.splits bool.splits)
        qed
      qed
    qed
  qed
  then show ?thesis using unchanged retired by blast
qed

lemma retire_group_frozen:
  assumes "setting prof plans world" and mem: "grp \<in> set (capacity_groups plans)"
  shows "keeps (frozen_inv prof plans world budgets) (retire_group config book plans completions grp)"
proof (rule keepsI)
  fix p
  assume inv: "frozen_inv prof plans world budgets p"
  obtain g i dp where grp: "grp = (g, i, dp)" by (cases grp)
  obtain r p' where run: "retire_group config book plans completions (g, i, dp) p = (r, p')" by force
  from run have "frozen_inv prof plans world budgets p'"
  proof (cases rule: retire_group_cases)
    case unchanged
    then show ?thesis using inv by simp
  next
    case (retired c replies p1)
    have "frozen_inv prof plans world budgets p1"
      using frozen_inv_retired [OF assms(1) inv mem [unfolded grp] retired(1)] retired(3) by simp
    then show ?thesis using retired(4) frozen_inv_orders by blast
  qed
  then show "frozen_inv prof plans world budgets (snd (retire_group config book plans completions grp p))"
    using run grp by simp
qed

lemma retire_loop_frozen:
  assumes "setting prof plans world" and "set grps \<subseteq> set (capacity_groups plans)"
  shows "keeps (frozen_inv prof plans world budgets) (retire_loop config book plans completions grps)"
  using assms(2)
proof (induction grps)
  case Nil
  then show ?case by (auto intro: hoare_intros)
next
  case (Cons grp grps)
  then show ?case using retire_group_frozen [OF assms(1), of grp] by (auto intro!: hoare_intros)
qed

lemma note_retired_donor_frozen: "keeps (frozen_inv prof plans world budgets) (note_retired_donor g)"
  by (rule keepsI) (simp add: note_retired_donor_def ret_def split: option.splits)

subsection \<open>Initial grants\<close>

lemma publish_initial_frozen:
  assumes "setting prof plans world" and "book_agrees prof plans book" and inv: "frozen_inv prof plans world budgets p"
    and mem: "(g, i, dp) \<in> set (capacity_groups plans)" and "starting plans p"
    and target: "initial_target book plans (Some budgets) i dp = Inr target"
    and run: "publish_operation g target p = (r, p')"
  shows "frozen_inv prof plans world budgets p'"
proof -
  have floors: "\<forall>d<world. floors_on prof plans d \<le> budgets ! d" using inv by (simp add: frozen_inv_def frozen_ok_def)
  have t: "target = initial_of prof plans budgets i dp"
    by (rule initial_target_Inr [OF target assms(2) capacity_group_mem(3) [OF mem]])
  show ?thesis
    using initial_vector_ok [OF assms(1) floors mem] t assms(5)
    by (intro publish_operation_frozen(1) [OF assms(1) inv mem _ _ _ run]) auto
qed

lemma publish_first_initial_frozen:
  assumes "setting prof plans world" and "book_agrees prof plans book" and "set grps \<subseteq> set (capacity_groups plans)"
  shows "keeps (frozen_inv prof plans world budgets) (publish_first_initial book plans grps)"
  using assms(3)
proof (induction grps)
  case Nil
  then show ?case by (auto intro: hoare_intros)
next
  case (Cons grp grps)
  obtain g i dp where grp: "grp = (g, i, dp)" by (cases grp)
  have mem: "(g, i, dp) \<in> set (capacity_groups plans)" and IH: "keeps (frozen_inv prof plans world budgets) (publish_first_initial book plans grps)"
    using Cons grp by auto
  have publish: "keeps (\<lambda>p. frozen_inv prof plans world budgets p) (publish_first_initial book plans (grp # grps))"
  proof (rule keepsI)
    fix p
    assume inv: "frozen_inv prof plans world budgets p"
    then have pool: "cp_pool_capacity_bytes p = Some budgets" and g: "g < length (cp_applied_sequences p)"
      using lists_ok_length(1) [OF _ mem] by (auto simp: frozen_inv_def)
    show "frozen_inv prof plans world budgets (snd (publish_first_initial book plans (grp # grps) p))"
    proof (cases "cp_applied_sequences p ! g = 0")
      case True
      then have start: "starting plans p" using mem unfolding starting_def by fastforce
      show ?thesis
        using True grp pool g inv publish_initial_frozen [OF assms(1,2) inv mem start]
        by (auto simp: bind_def reading_def index_at_def ret_def split: prod.splits sum.splits)
    next
      case False
      then show ?thesis
        using grp g keeps_snd [OF IH inv] by (simp add: bind_def reading_def index_at_def)
    qed
  qed
  then show ?case .
qed

lemma publish_next_initial_frozen:
  assumes "setting prof plans world" and "book_agrees prof plans book"
  shows "keeps (frozen_inv prof plans world budgets) (publish_next_initial_operation book plans)"
  using publish_first_initial_frozen [OF assms, of "capacity_groups plans"]
  by (intro keepsI) (auto simp: publish_next_initial_operation_def ret_def dest: keeps_snd)

subsection \<open>Demands\<close>

lemma consume_demand_effect:
  "snd (consume_demand publications grp p) = p \<or>
   (\<exists>ds. length ds = length (cp_demands p) \<and> snd (consume_demand publications grp p) = p\<lparr>cp_demands := ds\<rparr>)"
proof (cases "snd (consume_demand publications grp p) = p")
  case False
  then obtain ds g d where "set_item (cp_demands p) g (Some d) = Inr ds" "snd (consume_demand publications grp p) = p\<lparr>cp_demands := ds\<rparr>"
    by (cases "index_at publications (fst grp)"; cases "index_at (cp_operations p) (fst grp)";
        cases "index_at (cp_applied_sequences p) (fst grp)"; cases "index_at (cp_active_quotas p) (fst grp)")
      (auto simp: consume_demand_def raise_def ret_def rbind_Inr_iff Let_def
        split: sum.split_asm option.split_asm if_split_asm)
  then have "length ds = length (cp_demands p) \<and> snd (consume_demand publications grp p) = p\<lparr>cp_demands := ds\<rparr>"
    by (auto simp: set_item_def split: if_splits)
  then show ?thesis by blast
qed simp

lemma consume_demand_serving: "keeps (serving_inv prof plans world budgets) (consume_demand publications grp)"
proof (rule keepsI)
  fix p
  assume inv: "serving_inv prof plans world budgets p"
  have "serving_inv prof plans world budgets (p\<lparr>cp_demands := ds\<rparr>)" if "length ds = length (cp_demands p)" for ds
    using inv that by (simp add: serving_inv_def frozen_inv_def lists_ok_def)
  then show "serving_inv prof plans world budgets (snd (consume_demand publications grp p))"
    using inv consume_demand_effect [of publications grp p] by auto
qed

lemma consume_demands_serving: "keeps (serving_inv prof plans world budgets) (consume_demands plans publications)"
  unfolding consume_demands_def by (rule hoare_for_each) (rule consume_demand_serving)

lemma all_between_True:
  "all_between olds news caps = Inr True \<Longrightarrow>
   length news = length olds \<and> length caps = length olds \<and> (\<forall>j<length olds. olds ! j \<le> news ! j \<and> news ! j \<le> caps ! j)"
proof (induction olds news caps rule: all_between.induct)
  case (2 old olds new news cap caps)
  then show ?case by (auto simp: All_less_Suc2 split: if_splits)
qed auto

text \<open>An eligible demand fits between the group's permission and its ceiling.\<close>

lemma eligible_demand_Some:
  assumes "eligible_demand p g = Inr (Some demand)"
  obtains active required caps deadline where "cp_active_quotas p ! g = Some active" and "cp_service_ceilings p ! g = Some caps"
    and "required_bytes demand = Some required" and "deadline_monotonic_ns demand = Some deadline"
    and "cp_operations p ! g = None" and "cp_demands p ! g = Some demand"
    and "evaluated_sequence demand = cp_applied_sequences p ! g" and "g < length (cp_active_quotas p)"
    and "all_between active required caps = Inr True" and "required \<noteq> active"
  using assms
  by (cases "cp_demands p ! g"; cases "cp_active_quotas p ! g"; cases "cp_service_ceilings p ! g"; cases "cp_operations p ! g";
      cases "required_bytes (the (cp_demands p ! g))"; cases "deadline_monotonic_ns (the (cp_demands p ! g))")
    (auto simp: eligible_demand_def rbind_Inr_iff index_at_def split: if_split_asm)

lemma eligible_vector_ok:
  assumes "frozen_ok prof plans world budgets p" and mem: "(g, i, dp) \<in> set (capacity_groups plans)"
    and "eligible_demand p g = Inr (Some demand)" and "required_bytes demand = Some required"
  shows "vector_ok prof plans budgets i dp required"
proof -
  from assms(3,4) obtain active caps where a: "cp_active_quotas p ! g = Some active" "cp_service_ceilings p ! g = Some caps"
    and b: "all_between active required caps = Inr True"
    by (elim eligible_demand_Some) auto
  have "vector_ok prof plans budgets i dp active" "caps = caps_of prof plans budgets i dp"
    using frozen_active [OF assms(1) mem a(1)] frozen_service [OF assms(1) mem a(2)] .
  then show ?thesis using all_between_True [OF b] by (fastforce simp: vector_ok_def caps_of_def)
qed

subsection \<open>Funding\<close>

lemma growth_bytes_Inr:
  assumes "growth_bytes book plans i dp start target = Inr required" and "book_agrees prof plans book" and "i < length plans"
    and j: "j < tp_width plans i"
  shows "(dp * tp_width plans i + j, target ! j - start ! j) \<in> set required"
proof -
  obtain profiles where profiles: "group_profiles book plans i dp = Inr profiles"
    and len: "length profiles = length start" "length start = length target"
    and req: "required = dict_of (map (\<lambda>(((device, _), old), new). (device, new - old)) (zip (zip profiles start) target)) []"
    using assms(1) by (auto simp: growth_bytes_def rbind_Inr_iff zip_strict_Inr_iff)
  define kvs where "kvs = map (\<lambda>(((device, _), old), new). (device, new - old)) (zip (zip profiles start) target)"
  note shape = group_profiles_Inr [OF profiles assms(2,3)]
  have tp: "length start = tp_width plans i" using shape len by simp
  have klen: "length kvs = tp_width plans i" using len tp by (simp add: kvs_def)
  have nth: "kvs ! k = (dp * tp_width plans i + k, target ! k - start ! k)" if "k < tp_width plans i" for k
    using that len tp by (simp add: kvs_def shape)
  have "map fst kvs = map (\<lambda>k. dp * tp_width plans i + k) [0..<tp_width plans i]"
    by (rule nth_equalityI) (simp_all add: klen nth)
  then have "distinct (map fst kvs)" by (simp add: distinct_map inj_on_def)
  then have "distinct (map fst (rev kvs))" unfolding rev_map [symmetric] by simp
  moreover have "kvs ! j \<in> set (rev kvs)" using j klen by simp
  ultimately have "map_of (rev kvs) (dp * tp_width plans i + j) = Some (target ! j - start ! j)"
    unfolding nth [OF j] by (rule map_of_is_SomeI)
  then show ?thesis unfolding req kvs_def [symmetric] by (intro map_of_SomeD) (simp add: map_of_dict_of)
qed

lemma covers_True:
  assumes "covers free required = Inr True" and "(d, n) \<in> set required"
  shows "d < length free \<and> n \<le> free ! d"
proof -
  obtain checks where rows: "rmap (\<lambda>(device, count). rbind (index_at free device) (\<lambda>v. Inr (v \<ge> count))) required = Inr checks"
    and all: "\<forall>c\<in>set checks. c"
    using assms(1) by (auto simp: covers_def rbind_Inr_iff)
  obtain k where k: "k < length required" "required ! k = (d, n)" using assms(2) by (metis in_set_conv_nth)
  then have "rbind (index_at free d) (\<lambda>v. Inr (v \<ge> n)) = Inr (checks ! k)" "checks ! k"
    using rows all unfolding rmap_Inr_iff by fastforce+
  then show ?thesis by (auto simp: rbind_Inr_iff index_at_def split: if_splits)
qed

lemma shortages_positive:
  assumes "shortages free required = Inr short" and "dict_get short d = Some s"
  shows "0 < s"
  using assms map_of_SomeD [OF assms(2)] by (auto simp: shortages_def rbind_Inr_iff)

lemma funding_need_covered:
  assumes "funding_need book plans g target p = Inr (free, required, True)" and "book_agrees prof plans book"
    and inv: "frozen_inv prof plans world budgets p"
  obtains i dp a where "(g, i, dp) \<in> set (capacity_groups plans)" and "cp_active_quotas p ! g = Some a"
    and "\<And>j. j < tp_width plans i \<Longrightarrow>
      device_charge plans p (dp * tp_width plans i + j) + (target ! j - a ! j) \<le> budgets ! (dp * tp_width plans i + j)"
proof -
  obtain i dp a where free: "pool_free_bytes book plans p = Inr free"
    and loc: "dict_get (group_locations plans) g = Some (i, dp)" and a: "cp_active_quotas p ! g = Some a"
    and growth: "growth_bytes book plans i dp a target = Inr required" and cov: "covers free required = Inr True"
    using assms(1)
    by (cases "cp_active_quotas p ! g")
       (auto simp: funding_need_def rbind_Inr_iff dict_item_Inr_iff index_at_def split: if_split_asm)
  have mem: "(g, i, dp) \<in> set (capacity_groups plans)" by (rule group_locations_get [OF loc])
  obtain frozen where "cp_pool_capacity_bytes p = Some frozen" and flen: "length free = length frozen"
    and charged: "\<And>d. d < length frozen \<Longrightarrow> free ! d = frozen ! d - device_charge plans p d"
    using pool_free_bytes_Inr [OF free assms(2)] by blast
  then have frozen: "frozen = budgets" using inv by (simp add: frozen_inv_def)
  have "device_charge plans p (dp * tp_width plans i + j) + (target ! j - a ! j) \<le> budgets ! (dp * tp_width plans i + j)"
    if "j < tp_width plans i" for j
    using covers_True [OF cov growth_bytes_Inr [OF growth assms(2) capacity_group_mem(3) [OF mem] that]]
      charged [of "dp * tp_width plans i + j"] flen frozen by simp
  then show ?thesis using that [OF mem a] by blast
qed

lemma publish_operation_serving:
  assumes "setting prof plans world" and inv: "serving_inv prof plans world budgets p"
    and mem: "(g, i, dp) \<in> set (capacity_groups plans)" and vec: "vector_ok prof plans budgets i dp quota"
    and a: "cp_active_quotas p ! g = Some a"
    and "\<And>j. j < tp_width plans i \<Longrightarrow> quota ! j \<le> a ! j \<or>
        device_charge plans p (dp * tp_width plans i + j) + (quota ! j - a ! j) \<le> budgets ! (dp * tp_width plans i + j)"
  shows "serving_inv prof plans world budgets (snd (publish_operation g quota p))"
proof -
  have frozen: "frozen_inv prof plans world budgets p" and ns: "\<not> starting plans p" using inv by (simp_all add: serving_inv_def)
  obtain r p' where run: "publish_operation g quota p = (r, p')" by force
  have "frozen_inv prof plans world budgets p'" "starting plans p' = starting plans p"
    using assms(6) ns a by (intro publish_operation_frozen [OF assms(1) frozen mem vec _ _ run]; simp)+
  then show ?thesis using run ns by (simp add: serving_inv_def)
qed

lemma publish_borrower_serving:
  assumes "setting prof plans world" and "book_agrees prof plans book" and inv: "serving_inv prof plans world budgets p"
    and "eligible_demand p g = Inr (Some demand)" and "required_bytes demand = Some target"
    and need: "funding_need book plans g target p = Inr (free, required, True)"
  shows "serving_inv prof plans world budgets (snd (publish_operation g target p))"
proof -
  have frozen: "frozen_inv prof plans world budgets p" using inv by (simp add: serving_inv_def)
  obtain i dp a where mem: "(g, i, dp) \<in> set (capacity_groups plans)" and a: "cp_active_quotas p ! g = Some a"
    and funds: "\<And>j. j < tp_width plans i \<Longrightarrow>
      device_charge plans p (dp * tp_width plans i + j) + (target ! j - a ! j) \<le> budgets ! (dp * tp_width plans i + j)"
    using funding_need_covered [OF need assms(2) frozen] by metis
  have vec: "vector_ok prof plans budgets i dp target"
    using frozen unfolding frozen_inv_def by (blast intro: eligible_vector_ok [OF _ mem assms(4,5)])
  show ?thesis
    using funds by (intro publish_operation_serving [OF assms(1) inv mem vec a]) blast
qed

text \<open>A donor only shrinks, and never below its floors.\<close>

lemma donor_candidate_Some:
  assumes "donor_candidate book plans p attempt short (g, i, dp) = Inr (Some (priority, g', target))"
    and "book_agrees prof plans book" and ok: "frozen_ok prof plans world budgets p"
    and mem: "(g, i, dp) \<in> set (capacity_groups plans)" and short: "\<And>d s. dict_get short d = Some s \<Longrightarrow> 0 < s"
  obtains a where "g' = g" and "cp_active_quotas p ! g = Some a" and "vector_ok prof plans budgets i dp target"
    and "\<And>j. j < tp_width plans i \<Longrightarrow> target ! j \<le> a ! j" and "cp_operations p ! g = None"
proof -
  obtain a profiles where g': "g' = g" and a: "cp_active_quotas p ! g = Some a" and idle: "cp_operations p ! g = None"
    and profiles: "group_profiles book plans i dp = Inr profiles" and len: "length profiles = length a"
    and target: "target = map (\<lambda>((device, profile), current). max (floor_bytes profile)
          (current - (case dict_get short device of None \<Rightarrow> 0 | Some s \<Rightarrow> s))) (zip profiles a)"
    using assms(1)
    by (cases "cp_active_quotas p ! g"; cases "cp_demands p ! g"; cases "cp_operations p ! g")
       (auto simp: donor_candidate_def rbind_Inr_iff index_at_def zip_strict_Inr_iff Let_def split: if_split_asm)
  note shape = group_profiles_Inr [OF profiles assms(2) capacity_group_mem(3) [OF mem]]
  have vec: "vector_ok prof plans budgets i dp a" by (rule frozen_active [OF ok mem a])
  have tlen: "length target = tp_width plans i" using target shape len by simp
  have entry: "target ! j = max (floor_at prof plans i (dp * tp_width plans i + j))
      (a ! j - (case dict_get short (dp * tp_width plans i + j) of None \<Rightarrow> 0 | Some s \<Rightarrow> s))" if "j < tp_width plans i" for j
    using that target shape len by (simp add: floor_at_def)
  have le: "target ! j \<le> a ! j" if "j < tp_width plans i" for j
    using entry [OF that] vec that short [of "dp * tp_width plans i + j"]
    by (cases "dict_get short (dp * tp_width plans i + j)") (auto simp: vector_ok_def)
  have "vector_ok prof plans budgets i dp target"
    using vec le tlen entry unfolding vector_ok_def by (metis max.cobounded1 order_trans)
  then show ?thesis using that g' a idle le by blast
qed

lemma publish_donor_serving:
  assumes "setting prof plans world" and "book_agrees prof plans book" and inv: "serving_inv prof plans world budgets p"
    and short: "shortages free required = Inr short"
    and found: "rmap (donor_candidate book plans p attempt short) (capacity_groups plans) = Inr found"
    and cand: "(priority, g, target) \<in> set (map the (filter (\<lambda>c. c \<noteq> None) found))"
  shows "serving_inv prof plans world budgets (snd (publish_operation g target p))"
proof -
  have frozen: "frozen_inv prof plans world budgets p" using inv by (simp add: serving_inv_def)
  have "Some (priority, g, target) \<in> set found" using cand by auto
  then obtain k where k: "k < length found" "found ! k = Some (priority, g, target)" by (metis in_set_conv_nth)
  obtain g0 i dp where grp: "capacity_groups plans ! k = (g0, i, dp)" by (metis prod_cases3)
  have klen: "k < length (capacity_groups plans)" using k rmap_length [OF found] by simp
  then have mem: "(g0, i, dp) \<in> set (capacity_groups plans)" using grp nth_mem by metis
  have "donor_candidate book plans p attempt short (g0, i, dp) = Inr (Some (priority, g, target))"
    using found k klen grp unfolding rmap_Inr_iff by metis
  moreover have "frozen_ok prof plans world budgets p" using frozen by (simp add: frozen_inv_def)
  ultimately obtain a where g: "g = g0" and a: "cp_active_quotas p ! g0 = Some a" and vec: "vector_ok prof plans budgets i dp target"
    and le: "\<And>j. j < tp_width plans i \<Longrightarrow> target ! j \<le> a ! j"
    using donor_candidate_Some [OF _ assms(2) _ mem] shortages_positive [OF short] by blast
  show ?thesis
    unfolding g using le by (intro publish_operation_serving [OF assms(1) inv mem vec a]) blast
qed

lemma attempt_is_current_True:
  assumes "attempt_is_current p attempt = Inr True"
  obtains demand where "eligible_demand p (fa_borrower_index attempt) = Inr (Some demand)"
    and "required_bytes demand = Some (fa_target_quota_bytes attempt)"
    and "evaluated_sequence demand = fa_evaluated_sequence attempt"
    and "deadline_monotonic_ns demand = Some (fa_deadline_monotonic_ns attempt)"
  using assms by (auto simp: attempt_is_current_def rbind_Inr_iff split: option.split_asm)

lemma serving_attempt [simp]:
  "serving_inv prof plans world budgets (p\<lparr>cp_funding_attempt := f\<rparr>) = serving_inv prof plans world budgets p"
  by (simp add: serving_inv_def)

lemma publish_and_note_serving:
  assumes "serving_inv prof plans world budgets (snd (publish_operation g quota p))"
  shows "serving_inv prof plans world budgets (snd (bind (publish_operation g quota) (\<lambda>_.
     bind (modify (\<lambda>p. p\<lparr>cp_funding_attempt := f\<rparr>)) (\<lambda>_. ret True)) p))"
  using assms by (cases "publish_operation g quota p") (simp add: bind_def modify_def ret_def split: sum.splits)

lemma advance_attempt_serving:
  assumes "setting prof plans world" and "book_agrees prof plans book"
  shows "keeps (serving_inv prof plans world budgets) (advance_attempt book plans attempt)"
proof (rule keepsI)
  fix p
  assume inv: "serving_inv prof plans world budgets p"
  have sums: "attempt_is_current p attempt = Inr True \<or> attempt_is_current p attempt = Inr False
      \<or> (\<exists>e. attempt_is_current p attempt = Inl e)"
    by (cases "attempt_is_current p attempt") auto
  consider (waiting) "fa_donor_index attempt \<noteq> None" | (raised) e where "attempt_is_current p attempt = Inl e"
    | (stale) "attempt_is_current p attempt = Inr False" | (current) "fa_donor_index attempt = None" "attempt_is_current p attempt = Inr True"
    using sums by blast
  then show "serving_inv prof plans world budgets (snd (advance_attempt book plans attempt p))"
  proof cases
    case current
    let ?g = "fa_borrower_index attempt" and ?t = "fa_target_quota_bytes attempt"
    obtain demand where d: "eligible_demand p ?g = Inr (Some demand)" "required_bytes demand = Some ?t"
      using attempt_is_current_True [OF current(2)] by metis
    show ?thesis
    proof (cases "funding_need book plans ?g ?t p")
      case (Inl e)
      then show ?thesis using current inv by (simp add: advance_attempt_def raise_def)
    next
      case (Inr need)
      obtain free required covered where need: "need = (free, required, covered)" by (cases need)
      show ?thesis
      proof (cases covered)
        case True
        then show ?thesis
          using current Inr need publish_borrower_serving [OF assms inv d]
          by (simp add: advance_attempt_def publish_and_note_serving)
      next
        case False
        show ?thesis
        proof (cases "rbind (shortages free required) (\<lambda>short.
                               rmap (donor_candidate book plans p attempt short) (capacity_groups plans))")
          case raised: (Inl e)
          then show ?thesis using current Inr need False inv by (simp add: advance_attempt_def raise_def)
        next
          case found: (Inr found)
          let ?cands = "map the (filter (\<lambda>c. c \<noteq> None) found)"
          obtain short where short: "shortages free required = Inr short"
            and each: "rmap (donor_candidate book plans p attempt short) (capacity_groups plans) = Inr found"
            using found by (auto simp: rbind_Inr_iff)
          show ?thesis
          proof (cases "?cands = []")
            case True
            then show ?thesis using current Inr need False found inv by (simp add: advance_attempt_def ret_def Let_def)
          next
            case nonempty: False
            obtain priority g target where best: "hd (sort ?cands) = (priority, g, target)" by (cases "hd (sort ?cands)") auto
            have "sort ?cands \<noteq> []" using nonempty by (metis set_empty set_sort)
            then have "hd (sort ?cands) \<in> set ?cands" using hd_in_set [of "sort ?cands"] by simp
            then have "serving_inv prof plans world budgets (snd (publish_operation g target p))"
              unfolding best by (rule publish_donor_serving [OF assms inv short each])
            then show ?thesis
              using current Inr need False found nonempty best
              by (simp add: advance_attempt_def publish_and_note_serving)
          qed
        qed
      qed
    qed
  qed (use inv in \<open>auto simp: advance_attempt_def raise_def ret_def\<close>)
qed

subsection \<open>One step\<close>

lemma serve_unreserved_serving:
  assumes "setting prof plans world" and "book_agrees prof plans book" and inv: "serving_inv prof plans world budgets p"
  shows "serving_inv prof plans world budgets (snd (serve_unreserved book plans reserved gs p))"
proof (induction gs)
  case Nil
  then show ?case using inv by (simp add: ret_def)
next
  case (Cons g gs)
  let ?choice = "rbind (dict_item (group_locations plans) g) (\<lambda>(instance_idx, dp_rank).
           rbind (group_profiles book plans instance_idx dp_rank) (\<lambda>profiles.
           if \<exists>(device, _)\<in>set profiles. device \<in> reserved then Inr None
           else rbind (eligible_demand p g) (\<lambda>eligible.
                case eligible of
                  None \<Rightarrow> Inr None
                | Some demand \<Rightarrow>
                    (case required_bytes demand of
                       None \<Rightarrow> Inr None
                     | Some required \<Rightarrow>
                         rbind (funding_need book plans g required p) (\<lambda>(free, growth, covered).
                           Inr (if covered then Some required else None))))))"
  show ?case
  proof (cases ?choice)
    case (Inl e)
    then show ?thesis using inv by (simp add: raise_def)
  next
    case (Inr choice)
    show ?thesis
    proof (cases choice)
      case None
      then show ?thesis using Inr Cons.IH by simp
    next
      case (Some required)
      then obtain demand free growth where "eligible_demand p g = Inr (Some demand)" "required_bytes demand = Some required"
          "funding_need book plans g required p = Inr (free, growth, True)"
        using Inr
        by (cases "eligible_demand p g"; cases "projr (eligible_demand p g)"; cases "required_bytes (the (projr (eligible_demand p g)))")
           (auto simp: rbind_Inr_iff split: if_split_asm)
      then have "serving_inv prof plans world budgets (snd (publish_operation g required p))"
        by (rule publish_borrower_serving [OF assms])
      then show ?thesis using Inr Some by simp
    qed
  qed
qed

lemma fund_borrowers_serving:
  assumes "setting prof plans world" and "book_agrees prof plans book" and "serving_inv prof plans world budgets p"
  shows "serving_inv prof plans world budgets (snd (fund_borrowers book plans gs p))"
  using assms(3)
proof (induction gs arbitrary: p)
  case (Cons g gs)
  have step: "serving_inv prof plans world budgets p'" if "advance_attempt book plans attempt (p\<lparr>cp_funding_attempt := f\<rparr>) = (r, p')" for attempt f r p'
    using keeps_snd [OF advance_attempt_serving [OF assms(1,2)], of budgets "p\<lparr>cp_funding_attempt := f\<rparr>" attempt] Cons.prems that by simp
  show ?case
    using Cons step
    by (auto simp: raise_def ret_def Let_def split: sum.splits option.splits prod.splits bool.splits)
qed (simp add: ret_def)

lemma start_funding_serving:
  assumes "setting prof plans world" and "book_agrees prof plans book"
  shows "keeps (serving_inv prof plans world budgets) (start_funding book plans now_ns)"
  unfolding start_funding_def
  by (rule hoare_bind, rule hoare_reading [where Q = "\<lambda>_. serving_inv prof plans world budgets"])
     (auto intro: keepsI fund_borrowers_serving [OF assms])

lemma wait_for_donor_serving:
  assumes "setting prof plans world" and "book_agrees prof plans book"
  shows "keeps (serving_inv prof plans world budgets) (wait_for_donor book plans now_ns attempt donor)"
  unfolding wait_for_donor_def
  by (rule hoare_bind, rule hoare_reading [where Q = "\<lambda>_. serving_inv prof plans world budgets"])
     (auto intro!: keepsI serve_unreserved_serving [OF assms] split: prod.splits)

lemma step_demands_serving:
  assumes "setting prof plans world" and "book_agrees prof plans book"
  shows "keeps (serving_inv prof plans world budgets) (step_demands book plans now_ns)"
proof (rule keepsI)
  fix p
  assume inv: "serving_inv prof plans world budgets p"
  show "serving_inv prof plans world budgets (snd (step_demands book plans now_ns p))"
  proof (cases "cp_funding_attempt p")
    case None
    then show ?thesis using keeps_snd [OF start_funding_serving [OF assms] inv] by (simp add: step_demands_def)
  next
    case (Some attempt)
    obtain r p' where run: "advance_attempt book plans attempt p = (r, p')" by force
    have mid: "serving_inv prof plans world budgets p'"
      using keeps_snd [OF advance_attempt_serving [OF assms] inv, of attempt] run by simp
    show ?thesis
      using Some run mid keeps_snd [OF start_funding_serving [OF assms] mid] keeps_snd [OF wait_for_donor_serving [OF assms] mid]
      by (auto simp: step_demands_def ret_def split: sum.splits bool.splits option.splits)
  qed
qed

lemma after_freeze_frozen:
  assumes "setting prof plans world" and "book_agrees prof plans book"
  shows "keeps (frozen_inv prof plans world budgets)
     (bind (retire_operations config book plans completions) (\<lambda>retired.
      bind (for_each note_retired_donor retired) (\<lambda>_.
      bind (reading (\<lambda>p. rmap (\<lambda>(g, _, _). index_at (cp_applied_sequences p) g) (capacity_groups plans))) (\<lambda>applied.
        if 0 \<in> set applied then bind (publish_next_initial_operation book plans) (\<lambda>_. ret ())
        else bind (consume_demands plans demands) (\<lambda>_. step_demands book plans now_ns)))))"
    (is "keeps ?F _")
proof (intro hoare_bind)
  show "keeps ?F (retire_operations config book plans completions)"
    unfolding retire_operations_def by (rule retire_loop_frozen [OF assms(1)]) simp
  show "hoare ?F (for_each note_retired_donor retired) (\<lambda>_. ?F) (\<lambda>_. ?F)" for retired
    by (rule hoare_for_each) (rule note_retired_donor_frozen)
  show "hoare ?F (reading (\<lambda>p. rmap (\<lambda>(g, _, _). index_at (cp_applied_sequences p) g) (capacity_groups plans)))
      (\<lambda>applied p. ?F p \<and> (0 \<notin> set applied \<longrightarrow> \<not> starting plans p)) (\<lambda>_. ?F)"
  proof (rule hoare_reading)
    fix p applied
    assume inv: "?F p" and read: "rmap (\<lambda>(g, _, _). index_at (cp_applied_sequences p) g) (capacity_groups plans) = Inr applied"
    have "cp_applied_sequences p ! g \<in> set applied" if "(g, i, dp) \<in> set (capacity_groups plans)" for g i dp
    proof -
      have "index_at (cp_applied_sequences p) g = Inr (applied ! g)" "g < length applied"
        using read capacity_group_mem(1,2) [OF that] unfolding rmap_Inr_iff by fastforce+
      then show ?thesis by (auto simp: index_at_def split: if_splits)
    qed
    then show "?F p \<and> (0 \<notin> set applied \<longrightarrow> \<not> starting plans p)" using inv unfolding starting_def by force
  qed
  show "hoare (\<lambda>p. ?F p \<and> (0 \<notin> set applied \<longrightarrow> \<not> starting plans p))
      (if 0 \<in> set applied then bind (publish_next_initial_operation book plans) (\<lambda>_. ret ())
       else bind (consume_demands plans demands) (\<lambda>_. step_demands book plans now_ns)) (\<lambda>_. ?F) (\<lambda>_. ?F)" for applied
  proof (rule hoare_if)
    assume "0 \<in> set applied"
    show "hoare (\<lambda>p. ?F p \<and> (0 \<notin> set applied \<longrightarrow> \<not> starting plans p))
        (bind (publish_next_initial_operation book plans) (\<lambda>_. ret ())) (\<lambda>_. ?F) (\<lambda>_. ?F)"
      by (rule hoare_weaken [OF hoare_bind [OF publish_next_initial_frozen [OF assms]]])
         (auto intro: hoare_ret)
  next
    assume no: "0 \<notin> set applied"
    have "keeps (serving_inv prof plans world budgets) (bind (consume_demands plans demands) (\<lambda>_. step_demands book plans now_ns))"
      by (rule hoare_bind [OF consume_demands_serving step_demands_serving [OF assms]])
    then show "hoare (\<lambda>p. ?F p \<and> (0 \<notin> set applied \<longrightarrow> \<not> starting plans p))
        (bind (consume_demands plans demands) (\<lambda>_. step_demands book plans now_ns)) (\<lambda>_. ?F) (\<lambda>_. ?F)"
      using no by (elim hoare_weaken) (auto simp: serving_inv_def)
  qed
qed

lemma policy_step_keeps:
  assumes "setting prof plans world" and "book_agrees prof plans book" and "length (rd_reports reads) = world"
  shows "keeps (capacity_inv prof plans world) (policy_step config book plans reads)"
proof -
  let ?frozen = "\<lambda>p. \<exists>budgets. frozen_inv prof plans world budgets p"
  have freeze: "hoare (capacity_inv prof plans world)
      (if_frozen)
      (\<lambda>_. ?frozen) (\<lambda>_. capacity_inv prof plans world)"
    if "if_frozen = (\<lambda>p. (if cp_pool_capacity_bytes p = None
       then freeze_pools config book plans (rd_backing reads) (rd_reports reads) else ret ()) p)" for if_frozen
  proof (rule hoareI)
    fix p u p'
    assume "capacity_inv prof plans world p" "if_frozen p = (Inr u, p')"
    then show "?frozen p'"
      using freeze_pools_keeps(2) [OF assms] capacity_inv_frozen that
      by (cases "cp_pool_capacity_bytes p") (fastforce simp: ret_def)+
  next
    fix p e p'
    assume "capacity_inv prof plans world p" "if_frozen p = (Inl e, p')"
    then show "capacity_inv prof plans world p'"
      using freeze_pools_keeps(1) [OF assms, of p config "rd_backing reads"] that
      by (cases "cp_pool_capacity_bytes p") (simp_all add: ret_def)
  qed
  have rest: "hoare ?frozen m (\<lambda>_. capacity_inv prof plans world) (\<lambda>_. capacity_inv prof plans world)"
    if "\<And>budgets. keeps (frozen_inv prof plans world budgets) m" for m :: "(capacity_policy, unit) op"
    using that frozen_inv_capacity unfolding hoare_def by (fastforce split: sum.splits prod.splits)
  have "hoare (capacity_inv prof plans world) (bind (\<lambda>p. (if cp_pool_capacity_bytes p = None
         then freeze_pools config book plans (rd_backing reads) (rd_reports reads) else ret ()) p) (\<lambda>_.
      bind (retire_operations config book plans (rd_completions reads)) (\<lambda>retired.
      bind (for_each note_retired_donor retired) (\<lambda>_.
      bind (reading (\<lambda>p. rmap (\<lambda>(g, _, _). index_at (cp_applied_sequences p) g) (capacity_groups plans))) (\<lambda>applied.
        if 0 \<in> set applied then bind (publish_next_initial_operation book plans) (\<lambda>_. ret ())
        else bind (consume_demands plans (rd_demands reads)) (\<lambda>_. step_demands book plans (rd_now_ns reads)))))))
      (\<lambda>_. capacity_inv prof plans world) (\<lambda>_. capacity_inv prof plans world)"
    by (rule hoare_bind [OF freeze [OF refl] rest]) (rule after_freeze_frozen [OF assms(1,2)])
  then show ?thesis
    unfolding hoare_def policy_step_def bind_def by (auto simp: ret_def)
qed

end
