(* ===== verification/Capacity_Guarantees.thy ===== *)
theory Capacity_Guarantees
  imports Capacity_Safety
begin

section \<open>What the capacity policy guarantees over a run\<close>

text \<open>
  Runs of the policy: any number of scheduler steps from \<^verbatim>\<open>CapacityPolicy.create\<close>, each with its own
  registrations, channel reads and clock, continuing after a step that raised. The properties are
  stated over such runs.
\<close>

definition plans_match :: "xpool_config \<Rightarrow> fabric_instance_plan list \<Rightarrow> bool" where
  "plans_match config plans \<longleftrightarrow>
     map (\<lambda>plan. topo_atn_dp_size (ip_topology plan)) plans = map cfg_atn_dp_size (cfg_models config)
     \<and> (\<forall>m\<in>set (cfg_models config). 0 \<le> cfg_atn_dp_size m)"

definition policy_run ::
    "xpool_config \<Rightarrow> fabric_instance_plan list \<Rightarrow> (registration_book \<times> channel_reads) list \<Rightarrow> capacity_policy \<Rightarrow> capacity_policy" where
  "policy_run config plans steps p = foldl (\<lambda>p (book, reads). snd (policy_step config book plans reads p)) p steps"

definition steps_ok ::
    "profile_map \<Rightarrow> fabric_instance_plan list \<Rightarrow> nat \<Rightarrow> (registration_book \<times> channel_reads) list \<Rightarrow> bool" where
  "steps_ok prof plans world steps \<longleftrightarrow>
     (\<forall>(book, reads)\<in>set steps. book_agrees prof plans book \<and> length (rd_reports reads) = world)"

lemma capacity_groups_length: "length (capacity_groups plans) = (\<Sum>i<length plans. dp_width plans i)"
proof -
  have "length (concat (map (\<lambda>i. map (\<lambda>dp. (i, dp)) [0..<dp_width plans i]) is)) = (\<Sum>i\<leftarrow>is. dp_width plans i)" for "is"
    by (induction "is") auto
  then show ?thesis
    by (simp add: capacity_groups_enumerate group_pairs_def interv_sum_list_conv_sum_set_nat atLeast0LessThan)
qed

lemma group_count_matches:
  assumes "plans_match config plans"
  shows "nat (\<Sum>m\<leftarrow>cfg_models config. cfg_atn_dp_size m) = length (capacity_groups plans)"
proof -
  let ?dps = "map (\<lambda>plan. topo_atn_dp_size (ip_topology plan)) plans"
  have dps: "map cfg_atn_dp_size (cfg_models config) = ?dps" using assms by (simp add: plans_match_def)
  have "\<forall>x\<in>set ?dps. 0 \<le> x" using assms unfolding dps [symmetric] plans_match_def by auto
  then have pos: "0 \<le> topo_atn_dp_size (ip_topology (plans ! i))" if "i < length plans" for i using that by auto
  have "(\<Sum>m\<leftarrow>cfg_models config. cfg_atn_dp_size m) = (\<Sum>i<length plans. topo_atn_dp_size (ip_topology (plans ! i)))"
    unfolding dps by (rule sum_list_nth_lt)
  also have "\<dots> = (\<Sum>i<length plans. int (dp_width plans i))" by (rule sum.cong) (simp_all add: dp_width_def pos)
  finally show ?thesis by (simp add: capacity_groups_length flip: of_nat_sum)
qed

lemma create_policy_inv:
  assumes "plans_match config plans" and "create_policy config generation = Inr p"
  shows "capacity_inv prof plans world p"
  using assms(2) group_count_matches [OF assms(1)]
  by (auto simp: create_policy_def rbind_Inr_iff Let_def capacity_inv_def lists_ok_def group_view_def)

lemma policy_run_inv:
  assumes "setting prof plans world" and "steps_ok prof plans world steps" and "capacity_inv prof plans world p"
  shows "capacity_inv prof plans world (policy_run config plans steps p)"
  using assms(2,3)
proof (induction steps arbitrary: p)
  case Nil
  then show ?case by (simp add: policy_run_def)
next
  case (Cons step steps)
  obtain book reads where step: "step = (book, reads)" by force
  have "book_agrees prof plans book" "length (rd_reports reads) = world" using Cons.prems(1) step by (auto simp: steps_ok_def)
  then have "capacity_inv prof plans world (snd (policy_step config book plans reads p))"
    using keeps_snd [OF policy_step_keeps [OF assms(1)] Cons.prems(2)] by blast
  then show ?case using Cons step by (simp add: policy_run_def steps_ok_def)
qed

lemma created_run_inv:
  assumes "setting prof plans world" and "plans_match config plans" and "create_policy config generation = Inr p0"
    and "steps_ok prof plans world steps"
  shows "capacity_inv prof plans world (policy_run config plans steps p0)"
  by (rule policy_run_inv [OF assms(1,4) create_policy_inv [OF assms(2,3)]])

lemma created_run_frozen:
  assumes "setting prof plans world" and "plans_match config plans" and "create_policy config generation = Inr p0"
    and "steps_ok prof plans world steps"
    and "cp_pool_capacity_bytes (policy_run config plans steps p0) = Some budgets"
  shows "frozen_ok prof plans world budgets (policy_run config plans steps p0)"
  using capacity_inv_frozen [OF created_run_inv [OF assms(1-4)] assms(5)] by (simp add: frozen_inv_def)

subsection \<open>Budgets\<close>

text \<open>
  What the partitions of a group may hold at some moment: nothing before the floors are adopted, and then
  either the permission the daemon considers active or the one it has requested, since a rank may or may
  not have applied the request yet.
\<close>

definition held_ok :: "fabric_instance_plan list \<Rightarrow> capacity_policy \<Rightarrow> (nat \<Rightarrow> nat \<Rightarrow> int) \<Rightarrow> bool" where
  "held_ok plans p held \<longleftrightarrow>
     (\<forall>(g, i, dp)\<in>set (capacity_groups plans). \<forall>j<tp_width plans i.
        case cp_active_quotas p ! g of
          None \<Rightarrow> held g j = 0
        | Some a \<Rightarrow> held g j = a ! j \<or> held g j = target_of (cp_operations p ! g) a ! j)"

definition held_on :: "fabric_instance_plan list \<Rightarrow> (nat \<Rightarrow> nat \<Rightarrow> int) \<Rightarrow> nat \<Rightarrow> int" where
  "held_on plans held d =
     (\<Sum>(g, i, dp)\<leftarrow>capacity_groups plans. \<Sum>j<tp_width plans i. if dp * tp_width plans i + j = d then held g j else 0)"

lemma held_below_charge:
  assumes "held_ok plans p held"
  shows "held_on plans held d \<le> device_charge plans p d"
  unfolding held_on_def device_charge_def
proof (rule sum_list_mono)
  fix grp
  assume mem: "grp \<in> set (capacity_groups plans)"
  obtain g i dp where grp: "grp = (g, i, dp)" by (cases grp)
  have held: "case cp_active_quotas p ! g of None \<Rightarrow> held g j = 0
        | Some a \<Rightarrow> held g j = a ! j \<or> held g j = target_of (cp_operations p ! g) a ! j" if "j < tp_width plans i" for j
    using assms mem grp that by (auto simp: held_ok_def)
  show "(case grp of (g, i, dp) \<Rightarrow> \<Sum>j<tp_width plans i. if dp * tp_width plans i + j = d then held g j else 0) \<le> group_charge plans p d grp"
  proof (cases "cp_active_quotas p ! g")
    case None
    then have "(if dp * tp_width plans i + j = d then held g j else 0) = 0" if "j < tp_width plans i" for j
      using held [OF that] by simp
    then show ?thesis using grp None by (simp add: group_charge_def)
  next
    case (Some a)
    then have "(if dp * tp_width plans i + j = d then held g j else 0)
        \<le> (if dp * tp_width plans i + j = d then max (a ! j) (target_of (cp_operations p ! g) a ! j) else 0)"
      if "j < tp_width plans i" for j using held [OF that] by auto
    then show ?thesis using grp Some by (simp add: group_charge_def) (rule sum_mono, simp)
  qed
qed

text \<open>
  C3: No device is ever promised more than its frozen budget. In every state a policy can reach from its
  creation, and whichever of its active and its requested permission each attention partition has
  applied at that moment, the bytes all partitions of a device may hold together stay within the
  budget frozen for the device.
\<close>

theorem device_budget_never_exceeded:
  assumes "setting prof plans world" and "plans_match config plans" and "create_policy config generation = Inr p0"
    and "steps_ok prof plans world steps"
    and "cp_pool_capacity_bytes (policy_run config plans steps p0) = Some budgets"
    and "held_ok plans (policy_run config plans steps p0) held" and "d < world"
  shows "held_on plans held d \<le> budgets ! d"
  using held_below_charge [OF assms(6)] created_run_frozen [OF assms(1-5)] assms(7)
  unfolding frozen_ok_def by (meson order_trans)

text \<open>
  C6: Every permission and every requested permission of a reachable policy lies partition by partition
  between the registered floor and the published service ceiling, and the pending request of a group
  is the one that follows its applied sequence.
\<close>

theorem quotas_stay_in_range:
  assumes "setting prof plans world" and "plans_match config plans" and "create_policy config generation = Inr p0"
    and "steps_ok prof plans world steps"
    and "cp_pool_capacity_bytes (policy_run config plans steps p0) = Some budgets"
    and "(g, i, dp) \<in> set (capacity_groups plans)" and "j < tp_width plans i"
    and "cp_active_quotas (policy_run config plans steps p0) ! g = Some a"
  shows "floor_at prof plans i (dp * tp_width plans i + j) \<le> a ! j
     \<and> a ! j \<le> cap_at prof plans budgets i (dp * tp_width plans i + j)
     \<and> (\<forall>c. cp_operations (policy_run config plans steps p0) ! g = Some c \<longrightarrow>
          qc_sequence c = cp_applied_sequences (policy_run config plans steps p0) ! g + 1
          \<and> floor_at prof plans i (dp * tp_width plans i + j) \<le> qc_quota_bytes c ! j
          \<and> qc_quota_bytes c ! j \<le> cap_at prof plans budgets i (dp * tp_width plans i + j))"
  using frozen_view [OF created_run_frozen [OF assms(1-5)] assms(6)] assms(7,8)
  by (auto simp: view_ok_def group_view_def vector_ok_def)

text \<open>The other ways the free-bytes computation can raise.\<close>

definition lookup_errors :: "exn set" where
  "lookup_errors = {IndexError, ValueError ''zip() arguments have different lengths'',
     RuntimeError ''elastic context state quota policy lost registration''}"

lemma rbind_Inl_iff: "rbind m f = Inl e \<longleftrightarrow> m = Inl e \<or> (\<exists>x. m = Inr x \<and> f x = Inl e)"
  by (cases m) auto

lemma rmap_Inl: "rmap f xs = Inl e \<Longrightarrow> \<exists>x\<in>set xs. f x = Inl e"
  by (induction xs) (auto split: sum.splits)

lemma group_profiles_errors: "group_profiles book plans i dp = Inl e \<Longrightarrow> e \<in> lookup_errors"
  by (auto simp: group_profiles_def rbind_Inl_iff index_at_def Let_def partition_of_def lookup_errors_def
      split: if_splits option.splits dest!: rmap_Inl)

lemma charge_rows_errors: "charge_rows rows free = Inl e \<Longrightarrow> e \<in> lookup_errors"
  by (induction rows free rule: charge_rows.induct) (auto simp: rbind_Inl_iff index_at_def lookup_errors_def split: if_splits)

lemma charge_group_errors: "charge_group book plans p grp free = Inl e \<Longrightarrow> e \<in> lookup_errors"
  by (cases grp)
     (auto simp: charge_group_def rbind_Inl_iff index_at_def zip_strict_def Let_def
       split: if_splits option.splits dest: group_profiles_errors charge_rows_errors, auto simp: lookup_errors_def)

lemma charge_groups_errors: "charge_groups book plans p grps free = Inl e \<Longrightarrow> e \<in> lookup_errors"
  by (induction grps arbitrary: free) (auto simp: rbind_Inl_iff dest: charge_group_errors)

text \<open>
  C28: The accounting failure of the free-bytes computation is unreachable: in no state of a run does
  \<^verbatim>\<open>pool_free_bytes\<close> find a device below zero, whatever registrations it is evaluated with.
\<close>

theorem accounting_never_fails:
  assumes "setting prof plans world" and "plans_match config plans" and "create_policy config generation = Inr p0"
    and "steps_ok prof plans world steps" and "book_agrees prof plans book"
  shows "pool_free_bytes book plans (policy_run config plans steps p0) \<noteq>
     Inl (RuntimeError ''elastic context state quota accounting exceeded a physical device budget'')"
proof
  let ?p = "policy_run config plans steps p0"
  assume bad: "pool_free_bytes book plans ?p =
     Inl (RuntimeError ''elastic context state quota accounting exceeded a physical device budget'')"
  then obtain budgets free where pool: "cp_pool_capacity_bytes ?p = Some budgets"
    and free: "charge_groups book plans ?p (capacity_groups plans) budgets = Inr free" and neg: "\<exists>v\<in>set free. v < 0"
    by (auto simp: pool_free_bytes_def rbind_Inl_iff lookup_errors_def split: option.splits if_splits
        dest!: charge_groups_errors)
  have ok: "frozen_ok prof plans world budgets ?p" by (rule created_run_frozen [OF assms(1-4) pool])
  have "length free = world" "\<forall>d<world. free ! d = budgets ! d - device_charge plans ?p d"
    using charge_groups_Inr [OF free assms(5) subset_refl] ok by (simp_all add: frozen_ok_def device_charge_def)
  then have "\<forall>v\<in>set free. 0 \<le> v" using ok by (auto simp: frozen_ok_def in_set_conv_nth)
  then show False using neg by auto
qed

subsection \<open>Retirement\<close>

lemma group_replies_Some:
  assumes "group_replies config plans completions i dp sequence = Inr (Some replies)" and "i < length plans"
    and "j < tp_width plans i"
  shows "\<exists>q. completions ! (i * nat (atn_world_size config) + dp * tp_width plans i + j) = Some q
     \<and> qn_sequence q = sequence \<and> replies ! j = q \<and> length replies = tp_width plans i"
proof -
  let ?at = "\<lambda>j. i * nat (atn_world_size config) + dp * tp_width plans i + j"
  have indices: "group_partition_indices config plans i dp = Inr (map ?at [0..<tp_width plans i])"
    using assms(2) by (simp add: group_partition_indices_def index_at_def tp_width_def Let_def)
  obtain found where found: "rmap (index_at completions) (map ?at [0..<tp_width plans i]) = Inr found"
    and all: "\<forall>reply\<in>set found. case reply of None \<Rightarrow> False | Some c \<Rightarrow> qn_sequence c = sequence" and replies: "replies = map the found"
    using assms(1) indices by (auto simp: group_replies_def rbind_Inr_iff split: if_splits)
  have len: "length found = tp_width plans i" using rmap_length [OF found] by simp
  have nth: "index_at completions (?at j) = Inr (found ! j)" using found assms(3) unfolding rmap_Inr_iff by simp
  have "found ! j \<in> set found" using len assms(3) by simp
  with all obtain c where "found ! j = Some c" "qn_sequence c = sequence" by (auto split: option.splits)
  with nth len replies assms(3) show ?thesis by (auto simp: index_at_def split: if_splits)
qed

lemma retired_replies_bounded:
  assumes "retire_group config book plans completions (g, i, dp) p = (Inr True, p')" and "book_agrees prof plans book"
    and "i < length plans" and c: "cp_operations p ! g = Some c"
    and replies: "group_replies config plans completions i dp (qc_sequence c) = Inr (Some replies)"
    and j: "j < tp_width plans i"
  shows "floor_at prof plans i (dp * tp_width plans i + j) \<le> backed_bytes (replies ! j)
     \<and> backed_bytes (replies ! j) \<le> qc_quota_bytes c ! j"
proof -
  obtain profiles where profiles: "group_profiles book plans i dp = Inr profiles"
    and len: "length replies = length profiles" "length profiles = length (qc_quota_bytes c)"
    and rows: "\<not> (\<exists>((reply, (_, profile)), quota)\<in>set (zip (zip replies profiles) (qc_quota_bytes c)).
       \<not> (floor_bytes profile \<le> backed_bytes reply \<and> backed_bytes reply \<le> quota))"
  proof -
    let ?check = "rbind (group_profiles book plans i dp) (\<lambda>profiles.
       rbind (zip_strict replies profiles) (\<lambda>rows.
       rbind (zip_strict rows (qc_quota_bytes c)) (\<lambda>rows.
       if \<exists>((reply, (_, profile)), quota)\<in>set rows.
            \<not> (floor_bytes profile \<le> backed_bytes reply \<and> backed_bytes reply \<le> quota)
       then Inl (RuntimeError ''elastic context state quota completion is outside its floor and adopted grant'')
       else rbind (index_at (cp_active_quotas p) g) (\<lambda>old_quota.
            rbind (set_item (cp_active_quotas p) g (Some (qc_quota_bytes c))) (\<lambda>active.
            rbind (set_item (cp_applied_sequences p) g (qc_sequence c)) (\<lambda>applied.
              Inr (old_quota, active, applied)))))))"
    have g: "index_at (cp_operations p) g = Inr (Some c)"
      using assms(1) c by (simp add: retire_group_def index_at_def raise_def split: if_splits)
    have "\<exists>x. ?check = Inr x"
    proof (cases ?check)
      case (Inl e)
      then show ?thesis using assms(1) replies unfolding retire_group_def by (simp add: g raise_def Let_def)
    qed auto
    then show ?thesis using that by (auto simp: rbind_Inr_iff zip_strict_Inr_iff split: if_split_asm)
  qed
  note shape = group_profiles_Inr [OF profiles assms(2,3)]
  have "zip (zip replies profiles) (qc_quota_bytes c) ! j \<in> set (zip (zip replies profiles) (qc_quota_bytes c))"
    using j len shape by (intro nth_mem) simp
  moreover have "zip (zip replies profiles) (qc_quota_bytes c) ! j = ((replies ! j, profiles ! j), qc_quota_bytes c ! j)"
    using j len shape by simp
  ultimately show ?thesis using rows j len shape by (fastforce simp: floor_at_def)
qed

text \<open>
  C30: A request becomes the permission only after every partition of its group has confirmed exactly that
  request with backing between its floor and the requested bytes. Retirement then makes the request
  the active permission, advances the applied sequence to it and leaves the group idle.
\<close>

theorem retirement_needs_every_reply:
  assumes "retire_group config book plans completions (g, i, dp) p = (Inr True, p')"
    and "book_agrees prof plans book" and "(g, i, dp) \<in> set (capacity_groups plans)" and "lists_ok plans p"
  shows "\<exists>c. cp_operations p ! g = Some c
     \<and> (\<forall>j<tp_width plans i. \<exists>q. completions ! (i * nat (atn_world_size config) + dp * tp_width plans i + j) = Some q
          \<and> qn_sequence q = qc_sequence c \<and> floor_at prof plans i (dp * tp_width plans i + j) \<le> backed_bytes q
          \<and> backed_bytes q \<le> qc_quota_bytes c ! j)
     \<and> cp_active_quotas p' ! g = Some (qc_quota_bytes c) \<and> cp_applied_sequences p' ! g = qc_sequence c
     \<and> cp_operations p' ! g = None"
  using assms(1)
proof (cases rule: retire_group_cases)
  case (retired c replies p1)
  have i: "i < length plans" by (rule capacity_group_mem(3) [OF assms(3)])
  note len = lists_ok_length [OF assms(4,3)]
  have state: "cp_active_quotas p' ! g = Some (qc_quota_bytes c)" "cp_applied_sequences p' ! g = qc_sequence c"
    "cp_operations p' ! g = None"
    using retired(3,4) len by (auto simp: with_retired_def)
  have "\<exists>q. completions ! (i * nat (atn_world_size config) + dp * tp_width plans i + j) = Some q
          \<and> qn_sequence q = qc_sequence c \<and> floor_at prof plans i (dp * tp_width plans i + j) \<le> backed_bytes q
          \<and> backed_bytes q \<le> qc_quota_bytes c ! j" if "j < tp_width plans i" for j
    using group_replies_Some [OF retired(2) i that]
      retired_replies_bounded [OF assms(1,2) i retired(1,2) that] by auto
  then show ?thesis using retired(1) state by blast
qed simp

subsection \<open>Overdue borrowers\<close>

lemma borrower_candidate_index:
  "borrower_candidate book plans p (g', i, dp) = Inr (Some (g, deadline, ds)) \<Longrightarrow> g' = g"
  by (cases "eligible_demand p g'"; cases "projr (eligible_demand p g')";
      cases "deadline_monotonic_ns (the (projr (eligible_demand p g')))")
     (auto simp: borrower_candidate_def rbind_Inr_iff)

lemma borrower_keys:
  assumes "rmap (\<lambda>(g, deadline, devices). rbind (index_at orders g) (\<lambda>order.
      Inr ((order \<noteq> None, case order of None \<Rightarrow> 0 | Some n \<Rightarrow> n, deadline, g)))) overdue = Inr keyed"
  shows "map (\<lambda>(granted, order, deadline, g). g) keyed = map fst overdue"
  using assms
proof (induction overdue arbitrary: keyed)
  case (Cons c overdue)
  then show ?case by (cases c) (auto simp: rbind_def split: sum.split_asm)
qed simp

lemma rmap_some_members:
  assumes "rmap f xs = Inr found"
  shows "set (map the (filter (\<lambda>c. c \<noteq> None) found)) = {c. \<exists>x\<in>set xs. f x = Inr (Some c)}"
  using assms
proof (induction xs arbitrary: found)
  case (Cons x xs)
  obtain y ys where y: "f x = Inr y" and ys: "rmap f xs = Inr ys" and found: "found = y # ys"
    using Cons.prems by (auto split: sum.splits)
  show ?case using Cons.IH [OF ys] y unfolding found by (cases y) auto
qed simp

lemma candidates_unique:
  assumes "rmap (borrower_candidate book plans p) (capacity_groups plans) = Inr found"
    and "(g, deadline, ds) \<in> set (map the (filter (\<lambda>c. c \<noteq> None) found))"
    and "(g, deadline', ds') \<in> set (map the (filter (\<lambda>c. c \<noteq> None) found))"
  shows "deadline' = deadline \<and> ds' = ds"
proof -
  have origin: "\<exists>i dp. (g, i, dp) \<in> set (capacity_groups plans) \<and>
       borrower_candidate book plans p (g, i, dp) = Inr (Some (g, t, D))"
    if "(g, t, D) \<in> set (map the (filter (\<lambda>c. c \<noteq> None) found))" for t D
  proof -
    obtain grp where "grp \<in> set (capacity_groups plans)" "borrower_candidate book plans p grp = Inr (Some (g, t, D))"
      using \<open>(g, t, D) \<in> _\<close> unfolding rmap_some_members [OF assms(1)] by blast
    moreover obtain g' i dp where "grp = (g', i, dp)" by (cases grp)
    ultimately show ?thesis using borrower_candidate_index [of book plans p g' i dp g t D] by blast
  qed
  obtain i dp where one: "(g, i, dp) \<in> set (capacity_groups plans)"
    "borrower_candidate book plans p (g, i, dp) = Inr (Some (g, deadline, ds))"
    using origin [OF assms(2)] by blast
  obtain i' dp' where two: "(g, i', dp') \<in> set (capacity_groups plans)"
    "borrower_candidate book plans p (g, i', dp') = Inr (Some (g, deadline', ds'))"
    using origin [OF assms(3)] by blast
  show ?thesis using one two capacity_group_unique [OF one(1) two(1)] by simp
qed

lemma ordered_borrowers_Inr:
  assumes "ordered_borrowers book plans now_ns p = Inr order"
  obtains found overdue where "rmap (borrower_candidate book plans p) (capacity_groups plans) = Inr found"
    and "overdue = filter (\<lambda>(g, deadline, devices). deadline \<le> now_ns) (map the (filter (\<lambda>c. c \<noteq> None) found))"
    and "set order = fst ` set overdue \<union> {g. \<exists>deadline ds. (g, deadline, ds) \<in> set (map the (filter (\<lambda>c. c \<noteq> None) found))
       \<and> deadline > now_ns \<and> ds \<inter> \<Union> (set (map (\<lambda>(g, deadline, devices). devices) overdue)) = {}}"
proof (cases "rmap (borrower_candidate book plans p) (capacity_groups plans)")
  case (Inl e)
  then show ?thesis using assms by (simp add: ordered_borrowers_def)
next
  case (Inr found)
  define candidates where "candidates = map the (filter (\<lambda>c. c \<noteq> None) found)"
  define overdue where "overdue = filter (\<lambda>(g, deadline, devices). deadline \<le> now_ns) candidates"
  define protected where "protected = \<Union> (set (map (\<lambda>(g, deadline, devices). devices) overdue))"
  have "rbind (rmap (\<lambda>(g, deadline, devices). rbind (index_at (cp_completed_grant_orders p) g) (\<lambda>order.
           Inr ((order \<noteq> None, case order of None \<Rightarrow> 0 | Some n \<Rightarrow> n, deadline, g)))) overdue) (\<lambda>keyed.
        Inr (map (\<lambda>(granted, order, deadline, g). g) (sort keyed)
        @ map snd (sort (map (\<lambda>(g, deadline, devices). (deadline, g))
            (filter (\<lambda>(g, deadline, devices). deadline > now_ns \<and> devices \<inter> protected = {}) candidates))))) = Inr order"
    using assms unfolding ordered_borrowers_def Inr rbind_simps Let_def
      candidates_def [symmetric] overdue_def [symmetric] protected_def [symmetric] .
  then obtain keyed where keyed: "rmap (\<lambda>(g, deadline, devices). rbind (index_at (cp_completed_grant_orders p) g) (\<lambda>order.
           Inr ((order \<noteq> None, case order of None \<Rightarrow> 0 | Some n \<Rightarrow> n, deadline, g)))) overdue = Inr keyed"
    and order: "order = map (\<lambda>(granted, order, deadline, g). g) (sort keyed)
        @ map snd (sort (map (\<lambda>(g, deadline, devices). (deadline, g))
            (filter (\<lambda>(g, deadline, devices). deadline > now_ns \<and> devices \<inter> protected = {}) candidates)))"
    unfolding rbind_Inr_iff by blast
  have "(\<lambda>(granted, order, deadline, g). g) ` set keyed = fst ` set overdue"
    using arg_cong [OF borrower_keys [OF keyed], where f = set] by (simp only: set_map)
  moreover have "snd ` (\<lambda>(g, deadline, devices). (deadline, g)) ` set (filter (\<lambda>(g, deadline, devices).
       deadline > now_ns \<and> devices \<inter> protected = {}) candidates) =
     {g. \<exists>deadline ds. (g, deadline, ds) \<in> set candidates \<and> deadline > now_ns \<and> ds \<inter> protected = {}}"
    by (force simp: image_iff)
  ultimately have "set order = fst ` set overdue \<union> {g. \<exists>deadline ds. (g, deadline, ds) \<in> set candidates
       \<and> deadline > now_ns \<and> ds \<inter> protected = {}}"
    unfolding order set_append set_map set_sort by simp
  then show ?thesis using that [OF Inr] by (simp only: candidates_def overdue_def protected_def)
qed

text \<open>
  C32: An overdue borrower is never starved by a younger one: the order in which borrowers are served
  contains every eligible borrower whose deadline has passed, and contains none whose deadline lies
  ahead while it shares a device with an overdue one.
\<close>

theorem overdue_borrowers_protected:
  assumes "ordered_borrowers book plans now_ns p = Inr order"
    and "(h, i, dp) \<in> set (capacity_groups plans)"
    and "borrower_candidate book plans p (h, i, dp) = Inr (Some (h, overdue_at, devices))" and "overdue_at \<le> now_ns"
  shows "h \<in> set order \<and>
     (\<forall>g i' dp' deadline others. (g, i', dp') \<in> set (capacity_groups plans)
        \<longrightarrow> borrower_candidate book plans p (g, i', dp') = Inr (Some (g, deadline, others))
        \<longrightarrow> now_ns < deadline \<longrightarrow> others \<inter> devices \<noteq> {} \<longrightarrow> g \<notin> set order)"
proof -
  obtain found overdue where found: "rmap (borrower_candidate book plans p) (capacity_groups plans) = Inr found"
    and overdue: "overdue = filter (\<lambda>(g, deadline, devices). deadline \<le> now_ns) (map the (filter (\<lambda>c. c \<noteq> None) found))"
    and members: "set order = fst ` set overdue \<union> {g. \<exists>deadline ds. (g, deadline, ds) \<in> set (map the (filter (\<lambda>c. c \<noteq> None) found))
       \<and> deadline > now_ns \<and> ds \<inter> \<Union> (set (map (\<lambda>(g, deadline, devices). devices) overdue)) = {}}"
    by (rule ordered_borrowers_Inr [OF assms(1)])
  define candidates where "candidates = map the (filter (\<lambda>c. c \<noteq> None) found)"
  have candidate: "(g, deadline, ds) \<in> set candidates" if "grp \<in> set (capacity_groups plans)"
      and "borrower_candidate book plans p grp = Inr (Some (g, deadline, ds))" for g grp deadline ds
    unfolding candidates_def rmap_some_members [OF found] using that by blast
  have mine: "(h, overdue_at, devices) \<in> set overdue"
    unfolding overdue candidates_def [symmetric] using candidate [OF assms(2,3)] assms(4) by simp
  have "g \<notin> set order" if c: "(g, deadline, others) \<in> set candidates" and late: "now_ns < deadline"
      and clash: "others \<inter> devices \<noteq> {}" for g deadline others
  proof
    assume "g \<in> set order"
    then consider (old) t D where "(g, t, D) \<in> set candidates" "t \<le> now_ns"
      | (young) t D where "(g, t, D) \<in> set candidates" "D \<inter> \<Union> (set (map (\<lambda>(g, deadline, devices). devices) overdue)) = {}"
      unfolding members candidates_def [symmetric] overdue by auto
    then show False
    proof cases
      case old
      then show False using candidates_unique [OF found c [unfolded candidates_def]] late by (auto simp: candidates_def)
    next
      case young
      have "devices \<subseteq> \<Union> (set (map (\<lambda>(g, deadline, devices). devices) overdue))" using mine by force
      then show False using young candidates_unique [OF found c [unfolded candidates_def]] clash
        unfolding candidates_def by blast
    qed
  qed
  moreover have "h \<in> set order" unfolding members using mine by force
  ultimately show ?thesis using candidate by blast
qed

section \<open>A concrete deployment\<close>

text \<open>
  One model with attention TP width two on the sample configuration. The steps freeze the pools and
  publish the initial grants, retire them once both partitions have answered, and publish the grant
  for a demand that the pool covers.
\<close>

definition sample_profile :: profile_map where
  "sample_profile model_id rank = \<lparr>floor_bytes = 10, reservation_bytes = 100\<rparr>"

definition sample_plans :: "fabric_instance_plan list" where
  "sample_plans = [\<lparr>ip_model_id = ''a/b'', ip_ffn_profile = reg_ffn_profile (sample_instance_registration 0),
     ip_topology = \<lparr>topo_atn_tp_size = 2, topo_atn_dp_size = 1, atnagent_indices = [0, 1]\<rparr>\<rparr>]"

definition capacity_sample_book :: registration_book where
  "capacity_sample_book = sample_book\<lparr>book_instances :=
     map (\<lambda>rank. (\<lparr>iri_model_id = ''a/b'', iri_rank = rank\<rparr>,
        (sample_instance_registration (nat rank))\<lparr>reg_instance := \<lparr>iri_model_id = ''a/b'', iri_rank = rank\<rparr>,
           reg_context_state_profile := \<lparr>floor_bytes = 10, reservation_bytes = 100\<rparr>\<rparr>)) [0, 1]\<rparr>"

definition sample_reads :: "quota_completion option list \<Rightarrow> channel_reads" where
  "sample_reads completions =
     \<lparr>rd_backing = [Some 10, Some 10],
      rd_reports = [Some \<lparr>total_bytes = 100, free_bytes = 70\<rparr>, Some \<lparr>total_bytes = 100, free_bytes = 80\<rparr>],
      rd_completions = completions, rd_demands = [None], rd_now_ns = 0\<rparr>"

definition sample_steps :: "(registration_book \<times> channel_reads) list" where
  "sample_steps = [(capacity_sample_book, sample_reads [None, None]),
     (capacity_sample_book, sample_reads [Some \<lparr>qn_sequence = 1, backed_bytes = 10\<rparr>, Some \<lparr>qn_sequence = 1, backed_bytes = 20\<rparr>])]"

definition sample_generation_id :: fabric_generation_id where
  "sample_generation_id = fp_generation sample_plan"

definition sample_policy :: capacity_policy where
  "sample_policy = projr (create_policy sample_config sample_generation_id)"

lemma sample_created: "create_policy sample_config sample_generation_id = Inr sample_policy"
proof -
  have "is_ok (create_policy sample_config sample_generation_id)" by code_simp
  then show ?thesis unfolding sample_policy_def by (auto simp: is_ok_iff)
qed

lemma sample_setting: "setting sample_profile sample_plans 2"
  by (auto simp: setting_def sample_plans_def tp_width_def dp_width_def prof_at_def sample_profile_def
      partition_profile_ok_def UINT64_MAX_def)

lemma sample_match: "plans_match sample_config sample_plans"
  by (simp add: plans_match_def sample_config_def sample_plans_def)

lemma sample_book_agrees: "book_agrees sample_profile sample_plans capacity_sample_book"
  by (auto simp: book_agrees_def sample_plans_def capacity_sample_book_def prof_at_def sample_profile_def split: if_splits)

lemma sample_steps_ok: "steps_ok sample_profile sample_plans 2 sample_steps" "steps_ok sample_profile sample_plans 2 (take 1 sample_steps)"
  by (simp_all add: steps_ok_def sample_steps_def sample_reads_def sample_book_agrees)

lemma sample_started:
  "cp_pool_capacity_bytes (policy_run sample_config sample_plans (take 1 sample_steps) sample_policy) = Some [30, 40]"
  "cp_active_quotas (policy_run sample_config sample_plans (take 1 sample_steps) sample_policy) = [Some [10, 10]]"
  "cp_operations (policy_run sample_config sample_plans (take 1 sample_steps) sample_policy) =
     [Some \<lparr>qc_sequence = 1, qc_quota_bytes = [30, 40]\<rparr>]"
  by code_simp+

lemma sample_granted:
  "cp_pool_capacity_bytes (policy_run sample_config sample_plans sample_steps sample_policy) = Some [30, 40]"
  "cp_active_quotas (policy_run sample_config sample_plans sample_steps sample_policy) = [Some [30, 40]]"
  by code_simp+

theorem device_budget_never_exceeded_witness:
  "held_on sample_plans (\<lambda>g j. if j = 0 then 30 else 10) 0 \<le> 30"
proof -
  have "held_ok sample_plans (policy_run sample_config sample_plans (take 1 sample_steps) sample_policy) (\<lambda>g j. if j = 0 then 30 else 10)"
    unfolding held_ok_def sample_started
    by (auto simp: capacity_groups_def sample_plans_def tp_width_def target_of_def less_Suc_eq)
  then show ?thesis
    using device_budget_never_exceeded
      [OF sample_setting sample_match sample_created sample_steps_ok(2) sample_started(1), of "\<lambda>g j. if j = 0 then 30 else 10" 0]
    by simp
qed

theorem quotas_stay_in_range_witness:
  "qc_quota_bytes \<lparr>qc_sequence = 1, qc_quota_bytes = [30, 40]\<rparr> ! 1 \<le> cap_at sample_profile sample_plans [30, 40] 0 1"
proof -
  have "(0, 0, 0) \<in> set (capacity_groups sample_plans)" "1 < tp_width sample_plans 0"
    "cp_active_quotas (policy_run sample_config sample_plans (take 1 sample_steps) sample_policy) ! 0 = Some [10, 10]"
    unfolding sample_started by (simp_all add: capacity_groups_def sample_plans_def tp_width_def)
  from quotas_stay_in_range
    [OF sample_setting sample_match sample_created sample_steps_ok(2) sample_started(1) this, unfolded sample_started]
  show ?thesis by simp
qed

theorem accounting_never_fails_witness:
  "pool_free_bytes capacity_sample_book sample_plans (policy_run sample_config sample_plans sample_steps sample_policy) \<noteq>
     Inl (RuntimeError ''elastic context state quota accounting exceeded a physical device budget'')"
  by (rule accounting_never_fails
      [OF sample_setting sample_match sample_created sample_steps_ok(1) sample_book_agrees])

definition sample_waiting :: capacity_policy where
  "sample_waiting = sample_policy\<lparr>cp_active_quotas := [Some [10, 10]],
     cp_operations := [Some \<lparr>qc_sequence = 1, qc_quota_bytes = [30, 40]\<rparr>]\<rparr>"

definition sample_completions :: "quota_completion option list" where
  "sample_completions = [Some \<lparr>qn_sequence = 1, backed_bytes = 10\<rparr>, Some \<lparr>qn_sequence = 1, backed_bytes = 20\<rparr>]"

theorem retirement_needs_every_reply_witness:
  "cp_active_quotas (snd (retire_group sample_config capacity_sample_book sample_plans sample_completions (0, 0, 0) sample_waiting)) ! 0
     = Some [30, 40]"
proof -
  obtain p' where run: "retire_group sample_config capacity_sample_book sample_plans sample_completions (0, 0, 0) sample_waiting = (Inr True, p')"
  proof -
    have "fst (retire_group sample_config capacity_sample_book sample_plans sample_completions (0, 0, 0) sample_waiting) = Inr True"
      by code_simp
    then show ?thesis using that by (metis prod.collapse)
  qed
  have op: "cp_operations sample_waiting ! 0 = Some \<lparr>qc_sequence = 1, qc_quota_bytes = [30, 40]\<rparr>"
    by (simp add: sample_waiting_def)
  have "(0, 0, 0) \<in> set (capacity_groups sample_plans)" "lists_ok sample_plans sample_waiting" by code_simp+
  from retirement_needs_every_reply [OF run sample_book_agrees this] run op show ?thesis by auto
qed

definition sample_borrowing :: capacity_policy where
  "sample_borrowing = sample_policy\<lparr>cp_active_quotas := [Some [10, 10]], cp_applied_sequences := [1],
     cp_service_ceilings := [Some [30, 40]],
     cp_demands := [Some \<lparr>evaluated_sequence = 1, required_bytes = Some [20, 20], deadline_monotonic_ns = Some 5\<rparr>]\<rparr>"

theorem overdue_borrowers_protected_witness:
  "\<exists>order. ordered_borrowers capacity_sample_book sample_plans 6 sample_borrowing = Inr order \<and> 0 \<in> set order"
proof -
  have "is_ok (ordered_borrowers capacity_sample_book sample_plans 6 sample_borrowing)" by code_simp
  then obtain order where order: "ordered_borrowers capacity_sample_book sample_plans 6 sample_borrowing = Inr order"
    by (auto simp: is_ok_iff)
  have "(0, 0, 0) \<in> set (capacity_groups sample_plans)" 
    "borrower_candidate capacity_sample_book sample_plans sample_borrowing (0, 0, 0) = Inr (Some (0, 5, set [0, 1]))"
    by code_simp+
  from overdue_borrowers_protected [OF order this] order show ?thesis by auto
qed

end
