(* ===== verification/Capacity_Channel.thy ===== *)
theory Capacity_Channel
  imports Capacity_Guarantees
begin

section \<open>The capacity policy and its channel\<close>

text \<open>
  Every state change of a policy step goes through the issue of an operation, the retirement of a group, the
  freezing of the pools, or touches only demands and the funding attempt. The locale states what an invariant of
  these owes and gives it for the whole step. It is interpreted for the relation between the policy's
  bookkeeping and the commands in the channel.
\<close>

abbreviation after_return :: "('s \<Rightarrow> bool) \<Rightarrow> ('s, 'a) op \<Rightarrow> bool" where
  "after_return I m \<equiv> hoare I m (\<lambda>_. I) (\<lambda>_ _. True)"

lemma after_returnI: "(\<And>s x s'. I s \<Longrightarrow> m s = (Inr x, s') \<Longrightarrow> I s') \<Longrightarrow> after_return I m"
  by (rule hoareI) auto

locale policy_invariant =
  fixes I :: "capacity_policy \<Rightarrow> bool"
    and config :: xpool_config
    and book :: registration_book
    and plans :: "fabric_instance_plan list"
    and completions :: "quota_completion option list"
  assumes issue: "after_return I (publish_operation g quota)"
    and retire: "grp \<in> set (capacity_groups plans) \<Longrightarrow> after_return I (retire_group config book plans completions grp)"
    and freeze: "I p \<Longrightarrow> cp_pool_capacity_bytes p = None \<Longrightarrow> freeze_pools config book plans backing reports p = (Inr (), p') \<Longrightarrow> I p'"
    and demands: "I p \<Longrightarrow> length ds = length (cp_demands p) \<Longrightarrow> I (p\<lparr>cp_demands := ds\<rparr>)"
    and attempt: "I p \<Longrightarrow> I (p\<lparr>cp_funding_attempt := a\<rparr>)"
begin

lemma advance_keeps: "after_return I (advance_attempt book plans funding)"
proof (rule after_returnI)
  fix p x p' assume p: "I p" and run: "advance_attempt book plans funding p = (Inr x, p')"
  have pub: "I p'" if "bind (publish_operation g quota) (\<lambda>_. bind (modify (\<lambda>p. p\<lparr>cp_funding_attempt := a\<rparr>)) (\<lambda>_. ret True)) p = (Inr x, p')" for g quota a
    using that hoare_returns [OF issue p] attempt by (auto simp: bind_def modify_def ret_def split: prod.splits sum.splits)
  show "I p'"
    using run p attempt pub
    by (auto simp: advance_attempt_def ret_def raise_def Let_def split: if_splits sum.splits bool.splits prod.splits)
qed

lemma unreserved_keeps: "after_return I (serve_unreserved book plans reserved gs)"
proof (induction gs)
  case Nil
  then show ?case by (rule after_returnI) (simp add: ret_def)
next
  case (Cons g gs)
  show ?case
  proof (rule after_returnI)
    fix p x p' assume p: "I p" and run: "serve_unreserved book plans reserved (g # gs) p = (Inr x, p')"
    have "serve_unreserved book plans reserved gs p = (Inr x, p') \<or> (\<exists>quota. publish_operation g quota p = (Inr x, p'))"
      using run by (auto simp: raise_def split: sum.splits option.splits)
    then show "I p'" using hoare_returns [OF Cons.IH p] hoare_returns [OF issue p] by blast
  qed
qed

lemma wait_keeps: "after_return I (wait_for_donor book plans now_ns funding donor)"
  unfolding wait_for_donor_def
  by (rule hoare_bind [where R = "\<lambda>_. I"]) (auto intro: hoare_reading unreserved_keeps split: prod.splits)

lemma fund_keeps: "after_return I (fund_borrowers book plans gs)"
proof (induction gs)
  case Nil
  then show ?case by (rule after_returnI) (simp add: ret_def)
next
  case (Cons g gs)
  show ?case
  proof (rule after_returnI)
    fix p x p' assume p: "I p" and run: "fund_borrowers book plans (g # gs) p = (Inr x, p')"
    have "fund_borrowers book plans gs p = (Inr x, p')
      \<or> (\<exists>a b p1. advance_attempt book plans a (p\<lparr>cp_funding_attempt := Some a\<rparr>) = (Inr b, p1)
           \<and> (p1 = p' \<or> fund_borrowers book plans gs p1 = (Inr x, p')))"
      using run by (auto simp: raise_def ret_def Let_def split: sum.splits option.splits prod.splits bool.splits)
    then show "I p'"
      using hoare_returns [OF Cons.IH] hoare_returns [OF advance_keeps attempt [OF p]] p by blast
  qed
qed

lemma start_keeps: "after_return I (start_funding book plans now_ns)"
  unfolding start_funding_def by (rule hoare_bind [where R = "\<lambda>_. I"]) (auto intro: hoare_reading fund_keeps)

lemma step_demands_keeps: "after_return I (step_demands book plans now_ns)"
proof (rule after_returnI)
  fix p x p' assume p: "I p" and run: "step_demands book plans now_ns p = (Inr x, p')"
  show "I p'"
  proof (cases "cp_funding_attempt p")
    case None
    then show ?thesis using run hoare_returns [OF start_keeps p] by (simp add: step_demands_def)
  next
    case (Some funding)
    then obtain b p1 where adv: "advance_attempt book plans funding p = (Inr b, p1)"
      and rest: "p1 = p' \<or> (\<exists>donor. wait_for_donor book plans now_ns funding donor p1 = (Inr x, p')) \<or> start_funding book plans now_ns p1 = (Inr x, p')"
      using run by (auto simp: step_demands_def ret_def split: prod.splits sum.splits bool.splits option.splits)
    have "I p1" by (rule hoare_returns [OF advance_keeps p adv])
    then show ?thesis using rest hoare_returns [OF wait_keeps] hoare_returns [OF start_keeps] by blast
  qed
qed

lemma consume_keeps: "after_return I (consume_demands plans publications)"
  unfolding consume_demands_def
proof (rule hoare_for_each)
  fix grp assume "grp \<in> set (capacity_groups plans)"
  show "after_return I (consume_demand publications grp)"
  proof (rule after_returnI)
    fix p x p' assume p: "I p" and run: "consume_demand publications grp p = (Inr x, p')"
    then have "p' = p \<or> (\<exists>ds. length ds = length (cp_demands p) \<and> p' = p\<lparr>cp_demands := ds\<rparr>)"
      using consume_demand_effect [of publications grp p] by simp
    then show "I p'" using p demands by auto
  qed
qed

lemma retire_keeps: "after_return I (retire_operations config book plans completions)"
proof -
  have "after_return I (retire_loop config book plans completions grps)" if "set grps \<subseteq> set (capacity_groups plans)" for grps
    using that
  proof (induction grps)
    case Nil
    show ?case by (rule after_returnI) (simp add: ret_def)
  next
    case (Cons grp grps)
    then have one: "after_return I (retire_group config book plans completions grp)"
      and rest: "after_return I (retire_loop config book plans completions grps)" using retire by auto
    show ?case unfolding retire_loop.simps
      by (rule hoare_bind [where R = "\<lambda>_. I", OF one]) (rule hoare_bind [where R = "\<lambda>_. I", OF rest], simp add: hoare_ret)
  qed
  then show ?thesis unfolding retire_operations_def by simp
qed

lemma initial_keeps: "after_return I (publish_next_initial_operation book plans)"
proof -
  have "after_return I (publish_first_initial book plans grps)" for grps
  proof (induction grps)
    case Nil
    then show ?case by (rule after_returnI) (simp add: ret_def)
  next
    case (Cons grp grps)
    obtain g i dp where grp: "grp = (g, i, dp)" by (cases grp)
    show ?case unfolding grp publish_first_initial.simps
      by (rule hoare_bind [where R = "\<lambda>_. I"]; (rule hoare_reading; simp)?; (rule hoare_if)?)
         (auto intro!: hoare_bind [where R = "\<lambda>_. I"] hoare_reading hoare_ret issue Cons.IH)
  qed
  then show ?thesis by (intro after_returnI) (auto simp: publish_next_initial_operation_def ret_def dest: hoare_returns split: if_splits)
qed

lemma donor_keeps: "after_return I (for_each note_retired_donor gs)"
proof (rule hoare_for_each)
  fix g
  show "after_return I (note_retired_donor g)"
    by (rule after_returnI) (auto simp: note_retired_donor_def ret_def intro: attempt split: option.splits if_splits)
qed

lemma policy_step_keeps_invariant:
  assumes "rd_completions reads = completions"
  shows "after_return I (policy_step config book plans reads)"
proof (rule after_returnI)
  fix p x p' assume p: "I p" and run: "policy_step config book plans reads p = (Inr x, p')"
  have frozen: "I p1" if "(if cp_pool_capacity_bytes p = None then freeze_pools config book plans (rd_backing reads) (rd_reports reads) else ret ()) p = (Inr u, p1)" for u p1
    using that p freeze by (auto simp: ret_def split: if_splits)
  show "I p'"
  proof (cases "None \<in> set (rd_backing reads) \<or> None \<in> set (rd_reports reads)")
    case True
    then show ?thesis using run p by (simp add: policy_step_def ret_def)
  next
    case False
    have body: "bind (if cp_pool_capacity_bytes p = None then freeze_pools config book plans (rd_backing reads) (rd_reports reads) else ret ()) (\<lambda>_.
           bind (retire_operations config book plans completions) (\<lambda>retired.
           bind (for_each note_retired_donor retired) (\<lambda>_.
           bind (reading (\<lambda>p. rmap (\<lambda>(g, _, _). index_at (cp_applied_sequences p) g) (capacity_groups plans))) (\<lambda>applied.
             if 0 \<in> set applied then bind (publish_next_initial_operation book plans) (\<lambda>_. ret ())
             else bind (consume_demands plans (rd_demands reads)) (\<lambda>_. step_demands book plans (rd_now_ns reads)))))) p = (Inr x, p')"
      using run unfolding policy_step_def assms if_not_P [OF False] .
    obtain u p1 retired p2 v p3 applied p4 where first: "(if cp_pool_capacity_bytes p = None
        then freeze_pools config book plans (rd_backing reads) (rd_reports reads) else ret ()) p = (Inr u, p1)"
      and ret2: "retire_operations config book plans completions p1 = (Inr retired, p2)" and donors: "for_each note_retired_donor retired p2 = (Inr v, p3)"
      and read: "(rmap (\<lambda>(g, _, _). index_at (cp_applied_sequences p3) g) (capacity_groups plans), p3) = (Inr applied, p4)"
      and rest: "(if 0 \<in> set applied then bind (publish_next_initial_operation book plans) (\<lambda>_. ret ())
             else bind (consume_demands plans (rd_demands reads)) (\<lambda>_. step_demands book plans (rd_now_ns reads))) p4 = (Inr x, p')"
      using body unfolding bind_Inr [of "if _ then _ else _"] bind_Inr [of "retire_operations _ _ _ _"] bind_Inr [of "for_each _ _"]
        bind_Inr [of "reading _"] reading_def by (elim exE conjE) (rule that)
    have p1: "I p1" by (rule frozen [OF first])
    have p3: "for_each note_retired_donor retired p2 = (Inr v, p4)" using donors read by simp
    have "I p2" by (rule hoare_returns [OF retire_keeps p1 ret2])
    then have p4: "I p4" by (rule hoare_returns [OF donor_keeps _ p3])
    have initial: "after_return I (bind (publish_next_initial_operation book plans) (\<lambda>_. ret ()))"
      by (rule hoare_bind [OF initial_keeps]) (simp add: hoare_ret)
    have serving: "after_return I (bind (consume_demands plans (rd_demands reads)) (\<lambda>_. step_demands book plans (rd_now_ns reads)))"
      by (rule hoare_bind [OF consume_keeps step_demands_keeps])
    show ?thesis
    proof (cases "0 \<in> set applied")
      case True
      from rest [unfolded if_P [OF True]] show ?thesis by (rule hoare_returns [OF initial p4])
    next
      case False
      from rest [unfolded if_not_P [OF False]] show ?thesis by (rule hoare_returns [OF serving p4])
    qed
  qed
qed

end

end
