(* ===== verification/Kv_Grants.thy ===== *)
theory Kv_Grants
  imports Kv_Group
begin

section \<open>Grants between the daemon and a group\<close>

text \<open>
  The daemon and the ranks of a group run side by side; the channel is what they share. A grant is issued once every
  rank confirmed the previous one, delivered to all ranks by one broadcast and adopted by all ranks at one
  vote. The invariant relates the latest command of the channel, the command the ranks hold, the grant they
  adopted and the replies they wrote.
\<close>

subsection \<open>The invariant\<close>

abbreviation leader :: "'e tp_group \<Rightarrow> 'e reconciler" where
  "leader g \<equiv> hd (tg_ranks g)"

abbreviation issued :: "'e tp_group \<Rightarrow> quota_command option" where
  "issued g \<equiv> ch_commands (tg_channel g) ! tg_index g"

abbreviation replied :: "'e tp_group \<Rightarrow> nat \<Rightarrow> quota_completion option" where
  "replied g j \<equiv> ch_completions (tg_channel g) ! rank_partition g j"

definition latest :: "quota_command option \<Rightarrow> int" where
  "latest c = (case c of None \<Rightarrow> 0 | Some d \<Rightarrow> qc_sequence d)"

definition directory_ok :: "'e tp_group \<Rightarrow> bool" where
  "directory_ok g \<longleftrightarrow> tg_ranks g \<noteq> [] \<and> tg_index g < length (ch_commands (tg_channel g))
     \<and> ch_group_count (tg_channel g) ! tg_index g = length (tg_ranks g)
     \<and> ch_group_first (tg_channel g) ! tg_index g + length (tg_ranks g) \<le> length (ch_completions (tg_channel g))"

definition command_ok :: "nat \<Rightarrow> quota_command \<Rightarrow> bool" where
  "command_ok n c \<longleftrightarrow> 1 \<le> qc_sequence c \<and> length (qc_quota_bytes c) = n \<and> (\<forall>b\<in>set (qc_quota_bytes c). 0 \<le> b \<and> b \<le> UINT64_MAX)"

text \<open>The ranks hold the latest command, or one they have completed while the latest is on its way.\<close>

definition exchange_ok :: "quota_command option \<Rightarrow> quota_command option \<Rightarrow> int \<Rightarrow> bool" where
  "exchange_ok channel held completed \<longleftrightarrow> 0 \<le> completed \<and> (completed = latest channel \<or> completed + 1 = latest channel)
     \<and> (if held = channel then True else completed + 1 = latest channel \<and> latest held = completed)"

text \<open>A rank that adopted a grant works under its entry and confirmed it within that entry.\<close>

definition adoption_ok :: "'e tp_group \<Rightarrow> nat \<Rightarrow> bool" where
  "adoption_ok g j \<longleftrightarrow>
     (let rc = tg_ranks g ! j
      in if rc_completed rc = 0 then rc_active rc = [] \<and> replied g j = None
         else length (rc_active rc) = length (tg_ranks g) \<and> limit_bytes (es_quota (rc_state rc)) = rc_active rc ! j
           \<and> (\<exists>r. replied g j = Some r \<and> qn_sequence r = rc_completed rc \<and> quota_completion.backed_bytes r \<le> rc_active rc ! j))"

definition grant_inv :: "'e tp_group \<Rightarrow> bool" where
  "grant_inv g \<longleftrightarrow> directory_ok g \<and> (\<forall>c. issued g = Some c \<longrightarrow> command_ok (length (tg_ranks g)) c)
     \<and> (\<forall>j<length (tg_ranks g). rc_command (tg_ranks g ! j) = rc_command (leader g) \<and> rc_active (tg_ranks g ! j) = rc_active (leader g)
          \<and> rc_completed (tg_ranks g ! j) = rc_completed (leader g))
     \<and> exchange_ok (issued g) (rc_command (leader g)) (rc_completed (leader g))
     \<and> (\<forall>j<length (tg_ranks g). adoption_ok g j)"

lemma leader_nth: "tg_ranks g \<noteq> [] \<Longrightarrow> leader g = tg_ranks g ! 0"
  by (simp add: hd_conv_nth)

text \<open>It depends on the ranks only through their grants, and on the channel only through the group's own slots.\<close>

definition same_slots :: "'e tp_group \<Rightarrow> 'e tp_group \<Rightarrow> bool" where
  "same_slots g g' \<longleftrightarrow> tg_index g' = tg_index g \<and> length (ch_commands (tg_channel g')) = length (ch_commands (tg_channel g))
     \<and> ch_group_count (tg_channel g') ! tg_index g = ch_group_count (tg_channel g) ! tg_index g
     \<and> ch_group_first (tg_channel g') ! tg_index g = ch_group_first (tg_channel g) ! tg_index g
     \<and> length (ch_completions (tg_channel g')) = length (ch_completions (tg_channel g))
     \<and> issued g' = issued g \<and> (\<forall>j<length (tg_ranks g). replied g' j = replied g j)"

lemma grant_inv_frame:
  assumes "grant_inv g" and "same_slots g g'" and "length (tg_ranks g') = length (tg_ranks g)"
    and "\<forall>j<length (tg_ranks g). same_grant (tg_ranks g ! j) (tg_ranks g' ! j)"
  shows "grant_inv g'"
proof -
  have ne: "tg_ranks g \<noteq> []" "tg_ranks g' \<noteq> []" using assms(1,3) by (auto simp: grant_inv_def directory_ok_def)
  have f: "rc_command (tg_ranks g' ! j) = rc_command (tg_ranks g ! j)" "rc_active (tg_ranks g' ! j) = rc_active (tg_ranks g ! j)"
    "rc_completed (tg_ranks g' ! j) = rc_completed (tg_ranks g ! j)"
    "limit_bytes (es_quota (rc_state (tg_ranks g' ! j))) = limit_bytes (es_quota (rc_state (tg_ranks g ! j)))"
    if "j < length (tg_ranks g)" for j
    using assms(4) that by (simp_all add: same_grant_def)
  have lead: "rc_command (leader g') = rc_command (leader g)" "rc_active (leader g') = rc_active (leader g)" "rc_completed (leader g') = rc_completed (leader g)"
    using ne f [of 0] by (simp_all add: leader_nth)
  have "directory_ok g'" using assms(1-3) by (auto simp: grant_inv_def directory_ok_def same_slots_def)
  moreover have "adoption_ok g' j" if "j < length (tg_ranks g)" for j
  proof -
    have "adoption_ok g j" using assms(1) that by (simp add: grant_inv_def)
    then show ?thesis using f [OF that] assms(2,3) that by (simp add: adoption_ok_def Let_def same_slots_def)
  qed
  moreover have "issued g' = issued g" using assms(2) unfolding same_slots_def by (elim conjE)
  ultimately show ?thesis using assms(1,3) f unfolding grant_inv_def lead by simp
qed

lemma grant_inv_follows:
  assumes "grant_inv g" and "group_follows eng g owned g' owned'"
  shows "grant_inv g'"
  using assms by (intro grant_inv_frame [OF assms(1)]) (auto simp: group_follows_def follows_def same_slots_def rank_partition_def)

lemma grant_inv_fields:
  assumes "grant_inv g"
  shows "tg_ranks g \<noteq> []" and "\<And>j. j < length (tg_ranks g) \<Longrightarrow> rc_command (tg_ranks g ! j) = rc_command (leader g)"
    and "\<And>j. j < length (tg_ranks g) \<Longrightarrow> rc_active (tg_ranks g ! j) = rc_active (leader g)"
    and "\<And>j. j < length (tg_ranks g) \<Longrightarrow> rc_completed (tg_ranks g ! j) = rc_completed (leader g)"
    and "exchange_ok (issued g) (rc_command (leader g)) (rc_completed (leader g))"
    and "\<And>j. j < length (tg_ranks g) \<Longrightarrow> adoption_ok g j"
    and "\<And>c. issued g = Some c \<Longrightarrow> command_ok (length (tg_ranks g)) c"
    and "directory_ok g"
  using assms by (simp_all add: grant_inv_def directory_ok_def)

subsection \<open>Delivery\<close>

text \<open>The command of the channel, or nothing where the read met a publication in progress.\<close>

lemma accept_issued:
  assumes "exchange_ok channel (rc_command rc) (rc_completed rc)" and "snapshot = None \<or> snapshot = channel"
  shows "\<exists>held. accept_command snapshot rc = (Inr (), rc\<lparr>rc_command := held\<rparr>)
     \<and> held = (if snapshot = None \<or> latest snapshot \<le> rc_completed rc then rc_command rc else channel)"
proof (cases "snapshot = None \<or> latest snapshot \<le> rc_completed rc")
  case True
  then show ?thesis by (auto simp: accept_command_def ret_def latest_def split: option.splits)
next
  case False
  then obtain c where c: "snapshot = Some c" "channel = Some c" "qc_sequence c > rc_completed rc" using assms(2) by (auto simp: latest_def)
  have seq: "qc_sequence c = rc_completed rc + 1" using assms(1) c by (auto simp: exchange_ok_def latest_def)
  have "rc_command rc = Some c \<or> latest (rc_command rc) = rc_completed rc" using assms(1) c(2) by (auto simp: exchange_ok_def split: if_splits)
  then have "accept_command snapshot rc = (Inr (), rc\<lparr>rc_command := Some c\<rparr>)"
    using c seq by (auto simp: accept_command_def ret_def latest_def split: option.splits)
  then show ?thesis using c False by auto
qed

lemma deliver_effect:
  assumes "grant_inv g" and "snapshot = None \<or> snapshot = issued g"
  shows "\<exists>g'. every_rank (\<lambda>_. accept_command snapshot) g = (Inr (), g') \<and> grant_inv g'
     \<and> (\<forall>j<length (tg_ranks g). rc_state (tg_ranks g' ! j) = rc_state (tg_ranks g ! j) \<and> rc_pending (tg_ranks g' ! j) = rc_pending (tg_ranks g ! j))
     \<and> length (tg_ranks g') = length (tg_ranks g)"
proof -
  let ?c = "rc_completed (leader g)" and ?h = "rc_command (leader g)" and ?n = "length (tg_ranks g)"
  note inv = grant_inv_fields [OF assms(1)]
  define held where "held = (if snapshot = None \<or> latest snapshot \<le> ?c then ?h else issued g)"
  have one: "accept_command snapshot (tg_ranks g ! j) = (Inr (), (tg_ranks g ! j)\<lparr>rc_command := held\<rparr>)" if "j < ?n" for j
    using accept_issued [of "issued g" "tg_ranks g ! j" snapshot] inv(2,4,5) that assms(2) by (simp add: held_def)
  obtain g' where run: "every_rank (\<lambda>_. accept_command snapshot) g = (Inr (), g')"
    using every_rank_returns [of g "\<lambda>_. accept_command snapshot"] one by auto
  note eff = every_rank_effect [OF run]
  have rank: "tg_ranks g' ! j = (tg_ranks g ! j)\<lparr>rc_command := held\<rparr>" if "j < ?n" for j
    using eff(4) [OF that] one [OF that] by simp
  have ne': "tg_ranks g' \<noteq> []" using eff(1) inv(1) by auto
  have lead: "leader g' = (leader g)\<lparr>rc_command := held\<rparr>" using rank [of 0] inv(1) ne' by (simp add: leader_nth)
  have part: "rank_partition g' j = rank_partition g j" for j using eff(2,3) by (simp add: rank_partition_def)
  have "exchange_ok (issued g) held ?c" using inv(5) by (auto simp: held_def exchange_ok_def)
  moreover have "adoption_ok g' j" if "j < ?n" for j
    using inv(6) [OF that] rank [OF that] eff(1-3) by (simp add: adoption_ok_def Let_def part)
  moreover have "directory_ok g'" using inv(8) eff ne' by (simp add: directory_ok_def)
  ultimately have "grant_inv g'"
    unfolding grant_inv_def lead using eff(1-3) rank inv(3,4,7) by simp
  then show ?thesis using run rank eff(1) by auto
qed

subsection \<open>Issue\<close>

lemma issue_effect:
  assumes "grant_inv g" and "publish_command (tg_index g) c (tg_channel g) = (Inr (), ch)"
    and "\<forall>b\<in>set (qc_quota_bytes c). 0 \<le> b \<and> b \<le> UINT64_MAX"
  shows "grant_inv (g\<lparr>tg_channel := ch\<rparr>)"
proof (cases "issued g = Some c")
  case True
  then have "ch = tg_channel g" using publish_command_Inr [OF assms(2)] by (metis ecs_channel.surjective ecs_channel.update_convs(3) list_update_id)
  then show ?thesis using assms(1) by simp
next
  case False
  note inv = grant_inv_fields [OF assms(1)]
  let ?n = "length (tg_ranks g)" and ?c = "rc_completed (leader g)"
  have pub: "length (qc_quota_bytes c) = ch_group_count (tg_channel g) ! tg_index g"
    "ch = (tg_channel g)\<lparr>ch_commands := (ch_commands (tg_channel g))[tg_index g := Some c]\<rparr>" "qc_sequence c = latest (issued g) + 1"
    using publish_command_Inr [OF assms(2)] False by (auto simp: latest_def)
  have idx: "tg_index g < length (ch_commands (tg_channel g))" "ch_group_count (tg_channel g) ! tg_index g = ?n" using inv(8) by (simp_all add: directory_ok_def)
  have settled: "?c = latest (issued g)"
  proof (rule ccontr)
    assume open_grant: "?c \<noteq> latest (issued g)"
    then have behind: "?c + 1 = latest (issued g)" "0 \<le> ?c" using inv(5) by (auto simp: exchange_ok_def)
    have "0 < ?n" using inv(1) by simp
    have "\<not> (\<exists>r. replied g 0 = Some r \<and> qn_sequence r = latest (issued g))"
      using inv(6) [OF \<open>0 < ?n\<close>] inv(4) [OF \<open>0 < ?n\<close>] behind by (auto simp: adoption_ok_def Let_def split: if_splits)
    moreover have "rank_partition g 0 \<in> set (group_partitions (tg_channel g) (tg_index g))"
      using idx(2) \<open>0 < ?n\<close> by (simp add: group_partitions_def rank_partition_def)
    moreover have "latest (issued g) \<noteq> 0" using behind by simp
    ultimately have "fst (publish_command (tg_index g) c (tg_channel g)) \<noteq> Inr ()"
      using False by (auto simp: publish_command_def Let_def raise_def ret_def latest_def split: option.splits)
    then show False using assms(2) by simp
  qed
  have lat: "0 \<le> latest (issued g)" using settled inv(5) by (simp add: exchange_ok_def)
  have part: "rank_partition (g\<lparr>tg_channel := ch\<rparr>) j = rank_partition g j" for j using pub(2) by (simp add: rank_partition_def)
  have iss: "issued (g\<lparr>tg_channel := ch\<rparr>) = Some c" using pub(2) idx(1) by simp
  have "exchange_ok (Some c) (rc_command (leader g)) ?c"
    using inv(5) settled pub(3) by (auto simp: exchange_ok_def latest_def split: if_splits option.splits)
  moreover have "command_ok ?n c" using pub(1,3) idx(2) lat assms(3) by (simp add: command_ok_def)
  moreover have "adoption_ok (g\<lparr>tg_channel := ch\<rparr>) j" if "j < ?n" for j
    using inv(6) [OF that] pub(2) by (simp add: adoption_ok_def Let_def part [unfolded pub(2)])
  moreover have "directory_ok (g\<lparr>tg_channel := ch\<rparr>)" using inv(8) pub(2) by (simp add: directory_ok_def)
  ultimately show ?thesis using inv(2-4) iss unfolding grant_inv_def by simp
qed

subsection \<open>Progress of a grant\<close>

lemma agreed_open:
  assumes "grant_inv g"
  shows "agreed command_open g = Inr (command_open (leader g))"
proof -
  note inv = grant_inv_fields [OF assms]
  have same: "\<forall>rc\<in>set (tg_ranks g). command_open rc \<longleftrightarrow> command_open (leader g)"
  proof
    fix rc assume "rc \<in> set (tg_ranks g)"
    then obtain j where "j < length (tg_ranks g)" "rc = tg_ranks g ! j" by (auto simp: in_set_conv_nth)
    then show "command_open rc \<longleftrightarrow> command_open (leader g)" using inv(2) [of j] inv(4) [of j] by (simp add: command_open_def split: option.split)
  qed
  show ?thesis
  proof (cases "command_open (leader g)")
    case True
    then show ?thesis using same by (simp add: agreed_def)
  next
    case False
    then have "\<not> (\<forall>rc\<in>set (tg_ranks g). command_open rc)" using inv(1) hd_in_set by blast
    then show ?thesis using same False unfolding agreed_def by simp
  qed
qed

lemma open_command:
  assumes "grant_inv g" and "command_open (leader g)"
  obtains c where "issued g = Some c" "rc_command (leader g) = Some c" "rc_completed (leader g) < qc_sequence c" "command_ok (length (tg_ranks g)) c"
proof -
  obtain c where c: "rc_command (leader g) = Some c" "rc_completed (leader g) < qc_sequence c"
    using assms(2) by (auto simp: command_open_def split: option.splits)
  then have "issued g = Some c" using grant_inv_fields(5) [OF assms(1)] by (auto simp: exchange_ok_def latest_def split: if_splits)
  then show thesis using c grant_inv_fields(7) [OF assms(1)] that by blast
qed

lemma targets_of_command:
  assumes "grant_inv g" and "rc_command (leader g) = Some c" and "length (qc_quota_bytes c) = length (tg_ranks g)"
  shows "rmap (\<lambda>j. command_target j (tg_ranks g ! j)) [0..<length (tg_ranks g)] = Inr (qc_quota_bytes c)"
proof -
  have "rmap (\<lambda>j. command_target j (tg_ranks g ! j)) [0..<length (tg_ranks g)] = Inr (map (\<lambda>j. qc_quota_bytes c ! j) [0..<length (tg_ranks g)])"
    using grant_inv_fields(2) [OF assms(1)] assms(2,3) by (intro rmap_all_Inr) (simp add: command_target_def index_at_def)
  then show ?thesis using map_nth [of "qc_quota_bytes c"] assms(3) by simp
qed

text \<open>The parts of the channel a group never writes: everything but the completions of its own partitions and its demand.\<close>

definition own_writes :: "'e tp_group \<Rightarrow> 'e tp_group \<Rightarrow> bool" where
  "own_writes g g' \<longleftrightarrow> tg_index g' = tg_index g \<and> length (tg_ranks g') = length (tg_ranks g)
     \<and> ch_commands (tg_channel g') = ch_commands (tg_channel g) \<and> ch_group_first (tg_channel g') = ch_group_first (tg_channel g)
     \<and> ch_group_count (tg_channel g') = ch_group_count (tg_channel g)
     \<and> length (ch_completions (tg_channel g')) = length (ch_completions (tg_channel g))
     \<and> (\<forall>p. p \<notin> rank_partition g ` {..<length (tg_ranks g)} \<longrightarrow> ch_completions (tg_channel g') ! p = ch_completions (tg_channel g) ! p)"

definition adopted_by_all :: "quota_command \<Rightarrow> 'e tp_group \<Rightarrow> 'e tp_group \<Rightarrow> bool" where
  "adopted_by_all c g g' \<longleftrightarrow> own_writes g g' \<and> issued g' = Some c
     \<and> (\<forall>j<length (tg_ranks g). tg_ranks g' ! j = adopted c (qc_quota_bytes c ! j) (tg_ranks g ! j)
          \<and> charged_of (tg_ranks g ! j) \<le> qc_quota_bytes c ! j \<and> replied g' j = Some (reply_of c (tg_ranks g ! j)))"

lemma adopt_effect:
  assumes "grant_inv g" and "issued g = Some c" and "rc_command (leader g) = Some c" and "rc_completed (leader g) < qc_sequence c"
    and "\<forall>j<length (tg_ranks g). charged_of (tg_ranks g ! j) \<le> qc_quota_bytes c ! j"
  shows "\<exists>g'. for_each (adopt_command (qc_quota_bytes c)) [0..<length (tg_ranks g)] g = (Inr (), g') \<and> grant_inv g' \<and> adopted_by_all c g g'"
proof -
  note inv = grant_inv_fields [OF assms(1)]
  let ?n = "length (tg_ranks g)" and ?q = "qc_quota_bytes c"
  have ok: "command_ok ?n c" using inv(7) assms(2) by simp
  have quota: "0 \<le> ?q ! j \<and> ?q ! j \<le> UINT64_MAX" if "j < ?n" for j using ok that by (auto simp: command_ok_def)
  have slot: "rank_partition g j < length (ch_completions (tg_channel g))" if "j < ?n" for j
    using inv(8) that by (simp add: directory_ok_def rank_partition_def)
  have old: "qn_sequence p < qc_sequence c" if "j < ?n" "replied g j = Some p" for j p
    using inv(6) [OF that(1)] inv(4) [OF that(1)] assms(4) that(2) by (auto simp: adoption_ok_def Let_def split: if_splits)
  have "\<forall>j\<in>set [0..<?n]. adoptable c ?q g j"
    using inv(2) assms(2,3,5) quota slot old ok by (auto simp: adoptable_def command_ok_def)
  from adopt_all [OF distinct_upt this] obtain g' where run: "for_each (adopt_command ?q) [0..<?n] g = (Inr (), g')"
    and fr: "length (tg_ranks g') = ?n" "tg_index g' = tg_index g" "ch_commands (tg_channel g') = ch_commands (tg_channel g)"
      "ch_group_first (tg_channel g') = ch_group_first (tg_channel g)" "ch_group_count (tg_channel g') = ch_group_count (tg_channel g)"
      "length (ch_completions (tg_channel g')) = length (ch_completions (tg_channel g))"
    and ranks: "\<forall>j. tg_ranks g' ! j = (if j \<in> set [0..<?n] then adopted c (?q ! j) (tg_ranks g ! j) else tg_ranks g ! j)"
    and replies: "\<forall>j\<in>set [0..<?n]. ch_completions (tg_channel g') ! rank_partition g j = Some (reply_of c (tg_ranks g ! j))"
    and rest: "\<forall>p. p \<notin> rank_partition g ` set [0..<?n] \<longrightarrow> ch_completions (tg_channel g') ! p = ch_completions (tg_channel g) ! p"
    by (elim exE conjE) (rule that)
  have part: "rank_partition g' j = rank_partition g j" for j using fr by (simp add: rank_partition_def)
  have rank: "tg_ranks g' ! j = adopted c (?q ! j) (tg_ranks g ! j)" if "j < ?n" for j using ranks that by simp
  have reply: "replied g' j = Some (reply_of c (tg_ranks g ! j))" if "j < ?n" for j using replies that by (simp add: part)
  have iss: "issued g' = Some c" using fr assms(2) by simp
  have ne': "tg_ranks g' \<noteq> []" using fr(1) inv(1) by auto
  have lead: "leader g' = adopted c (?q ! 0) (leader g)" using rank [of 0] inv(1) ne' by (simp add: leader_nth)
  have "exchange_ok (Some c) (rc_command (leader g')) (rc_completed (leader g'))"
    using assms(3) ok by (simp add: lead adopted_def exchange_ok_def latest_def command_ok_def)
  moreover have "adoption_ok g' j" if "j < ?n" for j
    using rank [OF that] reply [OF that] ok fr(1) assms(5) that by (simp add: adoption_ok_def Let_def adopted_def reply_of_def command_ok_def)
  moreover have "directory_ok g'" using inv(8) fr ne' by (simp add: directory_ok_def)
  moreover have "rc_command (tg_ranks g' ! j) = rc_command (leader g') \<and> rc_active (tg_ranks g' ! j) = rc_active (leader g')
      \<and> rc_completed (tg_ranks g' ! j) = rc_completed (leader g')" if "j < ?n" for j
    using rank [OF that] inv(2) [OF that] by (simp add: lead adopted_def)
  ultimately have "grant_inv g'" using iss fr(1) ok unfolding grant_inv_def by simp
  moreover have "own_writes g g'" using fr rest by (simp add: own_writes_def atLeast_upt)
  then have "adopted_by_all c g g'" using iss rank reply assms(5) by (simp add: adopted_by_all_def)
  ultimately show ?thesis using run by blast
qed

lemma ready_charged: "ready_to_adopt chunk_owner target rc \<Longrightarrow> charged_of rc \<le> target"
  by (simp add: ready_to_adopt_def)

text \<open>The branches of a returning \<open>progress_grant\<close>.\<close>

lemma progress_grant_cases:
  assumes "grant_inv g" and "progress_grant eng chunk_owner scheduler g = (Inr (), g')"
  obtains (same) "g' = g"
    | (adopt) c where "issued g = Some c" "grant_inv g'" "adopted_by_all c g g'"
    | (reclaim) met b excess wanted where "scheduler = Some met"
        "reclaim eng (cv_caches met) (cv_select met) chunk_owner excess wanted g = (Inr b, g')"
proof -
  note inv = grant_inv_fields [OF assms(1)]
  have agree: "reading (agreed command_open) g = (Inr (command_open (leader g)), g)" by (simp add: reading_def agreed_open [OF assms(1)])
  show thesis
  proof (cases "command_open (leader g)")
    case False
    then have "g' = g" using assms(2) agree by (simp add: progress_grant_def bind_def ret_def)
    then show ?thesis by (rule same)
  next
    case True
    from open_command [OF assms(1) True] obtain c where c: "issued g = Some c" "rc_command (leader g) = Some c"
      "rc_completed (leader g) < qc_sequence c" "command_ok (length (tg_ranks g)) c" by blast
    have len: "length (qc_quota_bytes c) = length (tg_ranks g)" using c(4) by (simp add: command_ok_def)
    let ?vote = "vote_ready (ranks (\<lambda>j rc. ready_to_adopt chunk_owner (qc_quota_bytes c ! j) rc) g)"
    have rest: "(if ?vote then for_each (adopt_command (qc_quota_bytes c)) [0..<length (tg_ranks g)]
              else case scheduler of None \<Rightarrow> ret ()
                   | Some met \<Rightarrow> bind (reclaim eng (cv_caches met) (cv_select met) chunk_owner
                               (\<lambda>j. max 0 (charged_of (tg_ranks g ! j) - qc_quota_bytes c ! j)) (\<lambda>j. zero_pages (tg_ranks g ! j)))
                         (\<lambda>_. ret ())) g = (Inr (), g')"
      using assms(2) agree True targets_of_command [OF assms(1) c(2) len]
      by (simp add: progress_grant_def bind_def get_state_def lift_result_def)
    show ?thesis
    proof (cases ?vote)
      case True
      then have "\<forall>j<length (tg_ranks g). charged_of (tg_ranks g ! j) \<le> qc_quota_bytes c ! j"
        using ready_charged unfolding vote_ranks [OF inv(1)] by blast
      from adopt_effect [OF assms(1) c(1-3) this] show ?thesis using rest True adopt c(1) by auto
    next
      case False
      then show ?thesis using rest same reclaim by (cases scheduler) (auto simp: ret_def bind_Inr)
    qed
  qed
qed

text \<open>A grant every rank can take is taken.\<close>

lemma progress_grant_adopts:
  assumes "grant_inv g" and "command_open (leader g)" and "issued g = Some c"
    and "\<forall>j<length (tg_ranks g). ready_to_adopt chunk_owner (qc_quota_bytes c ! j) (tg_ranks g ! j)"
  shows "\<exists>g'. progress_grant eng chunk_owner scheduler g = (Inr (), g') \<and> grant_inv g' \<and> adopted_by_all c g g'"
proof -
  note inv = grant_inv_fields [OF assms(1)]
  from open_command [OF assms(1,2)] have c: "rc_command (leader g) = Some c"
      "rc_completed (leader g) < qc_sequence c" "command_ok (length (tg_ranks g)) c" using assms(3) by auto
  have len: "length (qc_quota_bytes c) = length (tg_ranks g)" using c(3) by (simp add: command_ok_def)
  have "vote_ready (ranks (\<lambda>j rc. ready_to_adopt chunk_owner (qc_quota_bytes c ! j) rc) g)" using assms(4) vote_ranks [OF inv(1)] by blast
  then have "progress_grant eng chunk_owner scheduler g = for_each (adopt_command (qc_quota_bytes c)) [0..<length (tg_ranks g)] g"
    using assms(2) targets_of_command [OF assms(1) c(1) len]
    by (simp add: progress_grant_def bind_def get_state_def lift_result_def reading_def agreed_open [OF assms(1)])
  then show ?thesis using adopt_effect [OF assms(1,3) c(1,2)] assms(4) ready_charged by (simp add: ready_to_adopt_def)
qed

section \<open>Steps of a group\<close>

subsection \<open>Pages in use\<close>

text \<open>The pages requests and the cache hold are those the free lists do not.\<close>

definition held_pages :: "kv_component \<Rightarrow> int list" where
  "held_pages c = filter (\<lambda>p. p \<notin> set (exposed (comp_allocator c)) \<and> p \<notin> set (unavailable_pages (comp_allocator c)))
     [1..pool_pages (comp_allocator c)]"

abbreviation held_by :: "elastic_state \<Rightarrow> int list list" where
  "held_by s \<equiv> map held_pages (es_components s)"

lemma held_pages_owned:
  assumes "component_inv c owned pending"
  shows "mset (held_pages c) = mset owned"
proof -
  let ?b = "comp_backing c" and ?a = "comp_allocator c"
  have inv: "pages_inv ?b ?a owned pending" using assms by (simp add: component_inv_def)
  have dist: "distinct owned" "set owned \<inter> set (exposed ?a) = {}" "set owned \<inter> set (unavailable_pages ?a) = {}"
    using pages_invD(6) [OF inv] by auto
  have "{p. valid_page (kv_layout ?b) p} = {1..pool_pages ?a}" using pages_invD(5) [OF inv] by (auto simp: valid_page_def)
  then have cover: "set (exposed ?a) \<union> (set (unavailable_pages ?a) \<union> set owned) = {1..pool_pages ?a}"
    using pages_invD(7) [OF inv] by (simp only: set_append)
  have "set (held_pages c) = {1..pool_pages ?a} - (set (exposed ?a) \<union> set (unavailable_pages ?a))" by (auto simp: held_pages_def)
  also have "\<dots> = set owned" using dist(2,3) unfolding cover [symmetric] by blast
  finally have "set (held_pages c) = set owned" .
  moreover have "distinct (held_pages c)" by (simp add: held_pages_def)
  ultimately show ?thesis using dist(1) set_eq_iff_mset_eq_distinct by blast
qed

definition group_ok :: "'e tp_group \<Rightarrow> bool" where
  "group_ok g \<longleftrightarrow> grant_inv g \<and> (\<exists>owned. \<forall>j<length (tg_ranks g). rank_inv (config_of (tg_ranks g ! j) (owned j)))"

lemma rank_owned:
  assumes "rank_inv (s, owned, plan)"
  shows "length owned = length (es_components s)" and "i < length (es_components s) \<Longrightarrow> mset (owned ! i) = mset (held_pages (es_components s ! i))"
proof -
  have inv: "state_inv s owned (pending_of (s, owned, plan))" using assms rank_inv_pending by blast
  then show "length owned = length (es_components s)" by (simp add: state_inv_def)
  assume "i < length (es_components s)"
  then have "component_inv (es_components s ! i) (owned ! i) (pending_of (s, owned, plan) ! i)" using inv unfolding state_inv_def by blast
  from held_pages_owned [OF this] show "mset (owned ! i) = mset (held_pages (es_components s ! i))" by (rule sym)
qed

lemma contract_owned:
  assumes "rank_inv (s, owned, plan)" and "cache_contract cache (held_by s)"
  shows "cache_contract cache owned"
  using assms(2) rank_owned [OF assms(1)] by (simp add: cache_contract_def)

text \<open>The caches a reclamation meets free only pages in use on their rank.\<close>

definition caches_contract :: "'e cache_view \<Rightarrow> 'e tp_group \<Rightarrow> bool" where
  "caches_contract met g \<longleftrightarrow> (\<forall>j<length (tg_ranks g). cache_contract (cv_caches met j) (held_by (rc_state (tg_ranks g ! j))))"

text \<open>A move that keeps every grant and writes at most the group's demand.\<close>

definition same_grants :: "'e tp_group \<Rightarrow> 'e tp_group \<Rightarrow> bool" where
  "same_grants g g' \<longleftrightarrow> own_writes g g' \<and> ch_completions (tg_channel g') = ch_completions (tg_channel g)
     \<and> (\<forall>j<length (tg_ranks g). same_grant (tg_ranks g ! j) (tg_ranks g' ! j))"

definition steady :: "'e tp_group \<Rightarrow> 'e tp_group \<Rightarrow> bool" where
  "steady g g' \<longleftrightarrow> group_ok g' \<and> same_grants g g'"

lemma same_grants_refl: "same_grants g g"
  by (simp add: same_grants_def own_writes_def same_grant_def)

lemma same_grants_trans: "same_grants g g' \<Longrightarrow> same_grants g' g'' \<Longrightarrow> same_grants g g''"
  by (simp add: same_grants_def own_writes_def same_grant_def)

lemma steady_group_refl: "group_ok g \<Longrightarrow> steady g g"
  by (simp add: steady_def same_grants_refl)

lemma steady_group_trans: "steady g g' \<Longrightarrow> steady g' g'' \<Longrightarrow> steady g g''"
  using same_grants_trans by (auto simp: steady_def)

lemma steady_ok: "steady g g' \<Longrightarrow> group_ok g'"
  by (simp add: steady_def)

lemma rank_inv_follows:
  assumes "engine_ok eng" and "follows eng rc owned rc' owned'" and "rank_inv (config_of rc owned)"
  shows "rank_inv (config_of rc' owned')"
proof -
  have "rank_inv cfg'" if "(rank_step eng)\<^sup>*\<^sup>* cfg cfg'" "rank_inv cfg" for cfg cfg' :: "'b rank_config"
    using that by (induction rule: rtranclp_induct) (use rank_step_inv [OF assms(1)] in blast)+
  from this [OF _ assms(3)] assms(2) show ?thesis unfolding follows_def by blast
qed

lemma group_ok_follows:
  assumes "engine_ok eng" and "grant_inv g" and "\<forall>j<length (tg_ranks g). rank_inv (config_of (tg_ranks g ! j) (owned j))"
    and "group_follows eng g owned g' owned'"
  shows "steady g g'"
proof -
  have "rank_inv (config_of (tg_ranks g' ! j) (owned' j))" if "j < length (tg_ranks g')" for j
    using rank_inv_follows [OF assms(1), of "tg_ranks g ! j" "owned j" "tg_ranks g' ! j" "owned' j"] assms(3,4) that
    unfolding group_follows_def by auto
  then have "group_ok g'" using grant_inv_follows [OF assms(2,4)] by (auto simp: group_ok_def)
  moreover have "same_grants g g'" using assms(4) by (simp add: group_follows_def follows_def same_grants_def own_writes_def)
  ultimately show ?thesis by (simp add: steady_def)
qed

lemma group_ok_moves:
  assumes "engine_ok eng" and "group_ok g" and "\<And>owned. group_follows eng g owned g' owned"
  shows "steady g g'"
proof -
  obtain owned where inv: "grant_inv g" "\<forall>j<length (tg_ranks g). rank_inv (config_of (tg_ranks g ! j) (owned j))"
    using assms(2) by (auto simp: group_ok_def)
  show ?thesis by (rule group_ok_follows [OF assms(1) inv assms(3)])
qed

lemma group_ok_reclaim:
  assumes "engine_ok eng" and "group_ok g" and "caches_contract met g"
    and "reclaim eng (cv_caches met) select chunk_owner excess wanted g = (Inr b, g')"
  shows "steady g g'"
proof -
  obtain owned where inv: "grant_inv g" "\<forall>j<length (tg_ranks g). rank_inv (config_of (tg_ranks g ! j) (owned j))"
    using assms(2) by (auto simp: group_ok_def)
  have "\<forall>j<length (tg_ranks g). cache_contract (cv_caches met j) (owned j) \<and> length (owned j) = length (es_components (rc_state (tg_ranks g ! j)))"
    using inv(2) contract_owned rank_owned(1) assms(3) unfolding caches_contract_def by blast
  from reclaim_follows [OF assms(4) grant_inv_fields(1) [OF inv(1)] this] group_ok_follows [OF assms(1) inv] show ?thesis by blast
qed

lemma group_ok_every_rank:
  assumes "engine_ok eng" and "group_ok g" and "every_rank m g = (Inr (), g')"
    and "\<And>j owned rc'. m j (tg_ranks g ! j) = (Inr (), rc') \<Longrightarrow> follows eng (tg_ranks g ! j) owned rc' owned"
  shows "steady g g'"
  using every_rank_follows_owned [OF assms(3)] assms(4) by (intro group_ok_moves [OF assms(1,2)]) blast

lemma rank_inv_adopted:
  assumes "rank_inv (config_of rc owned)" and "charged_of rc \<le> target" and "target \<le> UINT64_MAX"
  shows "rank_inv (config_of (adopted c target rc) owned)"
proof -
  let ?s = "(rc_state rc)\<lparr>es_quota := (es_quota (rc_state rc))\<lparr>limit_bytes := target\<rparr>\<rparr>"
  have "state_inv (rc_state rc) owned (pending_of (config_of rc owned))" using assms(1) rank_inv_pending by blast
  then have "state_inv ?s owned (pending_of (config_of rc owned))" using assms(2,3) by (simp add: state_inv_def quota_ok_def)
  from rank_inv_same_pending [OF assms(1) this] show ?thesis by (simp add: adopted_def)
qed

lemma group_ok_progress:
  assumes "engine_ok eng" and "group_ok g" and "progress_grant eng chunk_owner scheduler g = (Inr (), g')"
    and "\<forall>met. scheduler = Some met \<longrightarrow> caches_contract met g"
  shows "steady g g' \<or> group_ok g' \<and> (\<exists>c. issued g = Some c \<and> adopted_by_all c g g')"
proof -
  obtain owned where inv: "grant_inv g" "\<forall>j<length (tg_ranks g). rank_inv (config_of (tg_ranks g ! j) (owned j))"
    using assms(2) by (auto simp: group_ok_def)
  from inv(1) assms(3) show ?thesis
  proof (cases rule: progress_grant_cases)
    case same
    then show ?thesis using steady_group_refl [OF assms(2)] by simp
  next
    case (adopt c)
    have ok: "command_ok (length (tg_ranks g)) c" using grant_inv_fields(7) [OF inv(1) adopt(1)] .
    have "rank_inv (config_of (tg_ranks g' ! j) (owned j))" if "j < length (tg_ranks g')" for j
    proof -
      have j: "j < length (tg_ranks g)" "tg_ranks g' ! j = adopted c (qc_quota_bytes c ! j) (tg_ranks g ! j)"
        "charged_of (tg_ranks g ! j) \<le> qc_quota_bytes c ! j" using adopt(3) that by (simp_all add: adopted_by_all_def own_writes_def)
      have "qc_quota_bytes c ! j \<le> UINT64_MAX" using ok j(1) by (auto simp: command_ok_def)
      from rank_inv_adopted [OF _ j(3) this] show ?thesis using inv(2) j(1,2) by auto
    qed
    then have "group_ok g'" using adopt(2) by (auto simp: group_ok_def)
    then show ?thesis using adopt(1,3) by blast
  next
    case (reclaim met b excess wanted)
    then show ?thesis using group_ok_reclaim [OF assms(1,2)] assms(4) by blast
  qed
qed

lemma group_ok_deferred:
  assumes "engine_ok eng" and "group_ok g" and "serve_deferred eng chunk_owner met g = (Inr (), g')" and "caches_contract met g"
  shows "steady g g'"
proof -
  define deferred where "deferred = reduce_vectors reduce_max
             (ranks (\<lambda>_ rc. if rc_deferred rc = [] then zero_pages rc else rc_deferred rc) g)"
  have run: "bind (if \<exists>n\<in>set deferred. n \<noteq> 0
                then bind (reclaim eng (cv_caches met) (cv_select met) chunk_owner (\<lambda>_. 0) (\<lambda>_. deferred)) (\<lambda>reclaimed.
                       if reclaimed then every_rank (\<lambda>_. modify (\<lambda>rc. rc\<lparr>rc_deferred := zero_pages rc\<rparr>)) else ret ())
                else ret ()) (\<lambda>_. sync_admission_budget eng) g = (Inr (), g')"
    using assms(3) unfolding serve_deferred_def bind_def [of get_state] get_state_def Let_def deferred_def by simp
  have reset: "steady g1 g2" if "every_rank (\<lambda>_. modify (\<lambda>rc. rc\<lparr>rc_deferred := zero_pages rc\<rparr>)) g1 = (Inr (), g2)" "group_ok g1" for g1 g2 :: "'b tp_group"
    by (rule group_ok_every_rank [OF assms(1) that(2,1)]) (auto simp: modify_def intro: follows_fields)
  have sync: "steady g1 g2" if "sync_admission_budget eng g1 = (Inr (), g2)" "group_ok g1" for g1 g2 :: "'b tp_group"
    by (rule group_ok_moves [OF assms(1) that(2) sync_admission_budget_follows [OF that(1)]])
  have evicted: "steady g g1" if "reclaim eng (cv_caches met) (cv_select met) chunk_owner (\<lambda>_. 0) (\<lambda>_. deferred) g = (Inr b, g1)" for b g1
    by (rule group_ok_reclaim [OF assms(1,2,4) that])
  obtain g1 where body: "(if \<exists>n\<in>set deferred. n \<noteq> 0
                then bind (reclaim eng (cv_caches met) (cv_select met) chunk_owner (\<lambda>_. 0) (\<lambda>_. deferred)) (\<lambda>reclaimed.
                       if reclaimed then every_rank (\<lambda>_. modify (\<lambda>rc. rc\<lparr>rc_deferred := zero_pages rc\<rparr>)) else ret ())
                else ret ()) g = (Inr (), g1)" and last: "sync_admission_budget eng g1 = (Inr (), g')"
    using run [unfolded bind_Inr [of "if _ then _ else _"]] by auto
  have "steady g g1"
  proof (cases "\<exists>n\<in>set deferred. n \<noteq> 0")
    case False
    then have "g1 = g" using body by (simp only: if_False ret_def prod.inject)
    then show ?thesis using steady_group_refl [OF assms(2)] by simp
  next
    case True
    then obtain b g0 where step: "reclaim eng (cv_caches met) (cv_select met) chunk_owner (\<lambda>_. 0) (\<lambda>_. deferred) g = (Inr b, g0)"
      and tail: "(if b then every_rank (\<lambda>_. modify (\<lambda>rc. rc\<lparr>rc_deferred := zero_pages rc\<rparr>)) else ret ()) g0 = (Inr (), g1)"
      using body by (simp only: if_True bind_Inr) blast
    note first = evicted [OF step]
    show ?thesis
    proof (cases b)
      case True
      then show ?thesis using tail reset [OF _ steady_ok [OF first]] steady_group_trans [OF first] by simp
    next
      case False
      then show ?thesis using tail first by (simp add: ret_def)
    qed
  qed
  from steady_group_trans [OF this sync [OF last steady_ok [OF this]]] show ?thesis .
qed

subsection \<open>The remaining operations\<close>

lemma group_ok_decode:
  assumes "engine_ok eng" and "group_ok g" and "caches_contract met g"
    and "coordinate_decode eng met chunk_owner evictable evictable' memory g = (Inr b, g')"
  shows "steady g g'"
proof -
  have "g' = g \<or> (\<exists>b excess wanted. reclaim eng (cv_caches met) (cv_select met) chunk_owner excess wanted g = (Inr b, g'))"
    using assms(4) by (auto simp: coordinate_decode_def reclaim_requirement_def op_simps split: if_splits)
  then show ?thesis using steady_group_refl [OF assms(2)] group_ok_reclaim [OF assms(1-3)] by blast
qed

lemma group_ok_prefill:
  assumes "engine_ok eng" and "group_ok g" and "prepare_prefill eng drivers preparation g = (outcomes, g')" and "\<forall>r\<in>set outcomes. is_ok r"
  shows "steady g g'"
proof (rule group_ok_moves [OF assms(1,2)])
  fix owned
  let ?run = "\<lambda>j. on_state (prepare_allocation eng (drivers j) (preparation j)) (tg_ranks g ! j)"
  have g': "g' = g\<lparr>tg_ranks := map (\<lambda>j. snd (?run j)) [0..<length (tg_ranks g)]\<rparr>"
    and out: "outcomes = map (\<lambda>j. prefill_outcome (allocation_verdict (map (\<lambda>j. prefill_status (fst (?run j))) [0..<length (tg_ranks g)])) (fst (?run j))) [0..<length (tg_ranks g)]"
    using assms(3) by (auto simp: prepare_prefill_def ranks_def Let_def case_prod_beta comp_def)
  have "follows eng (tg_ranks g ! j) (owned j) (tg_ranks g' ! j) (owned j)" if j: "j < length (tg_ranks g)" for j
  proof -
    let ?rc = "tg_ranks g ! j"
    obtain r s where run: "prepare_allocation eng (drivers j) (preparation j) (rc_state ?rc) = (r, s)"
      by (cases "prepare_allocation eng (drivers j) (preparation j) (rc_state ?rc)")
    have rank: "?run j = (r, ?rc\<lparr>rc_state := s\<rparr>)" by (simp add: on_state_def run)
    then have g'_j: "tg_ranks g' ! j = ?rc\<lparr>rc_state := s\<rparr>" using g' j by simp
    have "outcomes ! j \<in> set outcomes" using j out by (intro nth_mem) simp
    then have "is_ok (outcomes ! j)" using assms(4) by blast
    then have "\<exists>ok. r = Inr ok"
      using j rank verdict_cases(1) [of "map (\<lambda>j. prefill_status (fst (?run j))) [0..<length (tg_ranks g)]"] unfolding out
      by (cases r) (force simp: prefill_outcome_def prefill_status_def is_ok_def split: if_splits)+
    then obtain ok where ok: "prepare_allocation eng (drivers j) (preparation j) (rc_state ?rc) = (Inr ok, s)" using run by blast
    show ?thesis unfolding g'_j
    proof (rule follows_one)
      show "rank_step eng (config_of ?rc (owned j)) (config_of (?rc\<lparr>rc_state := s\<rparr>) (owned j))" using rank_step.Prepare [OF ok] by simp
      show "same_grant ?rc (?rc\<lparr>rc_state := s\<rparr>)" using limit_kept [OF state_ops_limit(1) ok] by (simp add: same_grant_def)
    qed
  qed
  then show "group_follows eng g owned g' owned" by (simp add: group_follows_def g')
qed

lemma on_rank_follows:
  assumes "on_rank j m g = (Inr (), g')" and "j < length (tg_ranks g)"
    and "\<And>rc'. m (tg_ranks g ! j) = (Inr (), rc') \<Longrightarrow> follows eng (tg_ranks g ! j) (owned j) rc' (owned j)"
  shows "group_follows eng g owned g' owned"
proof -
  obtain rc where rc: "m (tg_ranks g ! j) = (Inr (), rc)" "g' = g\<lparr>tg_ranks := (tg_ranks g)[j := rc]\<rparr>"
    using assms(1) by (auto simp: on_rank_def split: prod.splits)
  have "follows eng (tg_ranks g ! k) (owned k) (tg_ranks g' ! k) (owned k)" if "k < length (tg_ranks g)" for k
    using assms(2,3) rc follows_self by (cases "k = j") auto
  then show ?thesis by (simp add: group_follows_def rc(2))
qed

lemma group_ok_record:
  assumes "engine_ok eng" and "group_ok g" and "record_requirement eng evictable requests memory deadline g = (Inr (), g')"
  shows "steady g g'"
proof (cases memory)
  case None
  then have run: "every_rank (\<lambda>_. modify (with_demands (filter (\<lambda>(key, _). \<not> (\<exists>req\<in>set requests. req \<in> set key))))) g = (Inr (), g')"
    using assms(3) by (simp add: record_requirement_def)
  show ?thesis by (rule group_ok_every_rank [OF assms(1,2) run]) (auto simp: modify_def with_demands_def intro: follows_fields)
next
  case (Some needed)
  have "0 < length (tg_ranks g)" using assms(2) grant_inv_fields(1) by (auto simp: group_ok_def)
  moreover obtain prices where run: "on_rank 0 (note_demand requests prices deadline) g = (Inr (), g')"
    using assms(3) Some by (auto simp: record_requirement_def bind_Inr reading_def)
  moreover have "follows eng rc owned rc' owned" if "note_demand requests prices deadline rc = (Inr (), rc')" for rc rc' :: "'b reconciler" and owned
    using that by (auto simp: note_demand_def bind_Inr reading_def modify_def with_demands_def intro: follows_fields)
  ultimately show ?thesis by (intro group_ok_moves [OF assms(1,2)] on_rank_follows [OF run]) auto
qed

lemma group_ok_slots:
  assumes "group_ok g" and "same_slots g (g\<lparr>tg_channel := ch\<rparr>)"
  shows "group_ok (g\<lparr>tg_channel := ch\<rparr>)"
  using assms(1) grant_inv_frame [OF _ assms(2)] by (auto simp: group_ok_def same_grant_def)

lemma publish_demand_steady:
  assumes "group_ok g" and "publish_demand i p demand (tg_channel g) = (Inr (), ch)"
  shows "steady g (g\<lparr>tg_channel := ch\<rparr>)"
proof -
  have ch: "ch = (tg_channel g)\<lparr>ch_demands := (ch_demands (tg_channel g))[i := Some demand]\<rparr>"
    using assms(2) by (auto simp: publish_demand_def ret_def raise_def split: if_splits)
  have "same_slots g (g\<lparr>tg_channel := ch\<rparr>)" by (simp add: ch same_slots_def rank_partition_def)
  moreover have "same_grants g (g\<lparr>tg_channel := ch\<rparr>)" by (simp add: ch same_grants_def own_writes_def same_grant_def)
  ultimately show ?thesis using group_ok_slots [OF assms(1)] by (simp add: steady_def)
qed

lemma group_ok_finish:
  assumes "engine_ok eng" and "group_ok g" and "finish_scheduling live g = (Inr (), g')"
  shows "steady g g'"
proof -
  have n: "0 < length (tg_ranks g)" using assms(2) grant_inv_fields(1) by (auto simp: group_ok_def)
  have leader_only: "steady g1 g2" if "on_rank 0 (modify f) g1 = (Inr (), g2)" "group_ok g1" "0 < length (tg_ranks g1)"
    "\<And>rc owned. follows eng rc owned (f rc) owned" for f and g1 g2 :: "'b tp_group"
    by (rule group_ok_moves [OF assms(1) that(2) on_rank_follows [OF that(1,3)]]) (auto simp: modify_def that(4))
  have fields: "follows eng rc owned (with_demands f rc) owned" "follows eng rc owned (rc\<lparr>rc_published := p\<rparr>) owned" for rc :: "'b reconciler" and owned f p
    by (auto simp: with_demands_def intro: follows_fields)
  show ?thesis
  proof (cases "rc_completed (leader g) = 0")
    case True
    then show ?thesis using assms(3) steady_group_refl [OF assms(2)] by (simp add: finish_scheduling_def bind_def get_state_def ret_def)
  next
    case False
    let ?p = "publication_of live (leader g)"
    obtain g1 where kept: "on_rank 0 (modify (with_demands (\<lambda>_. current_demands live (leader g)))) g = (Inr (), g1)"
      and publish: "publish_witness ?p g1 = (Inr (), g')"
      using assms(3) False by (auto simp: finish_scheduling_def bind_Inr get_state_def Let_def)
    have first: "steady g g1" by (rule leader_only [OF kept assms(2) n fields(1)])
    then have g1: "group_ok g1" by (rule steady_ok)
    show ?thesis
    proof (cases "rc_published (leader g1) = Some ?p")
      case True
      then show ?thesis using publish first by (simp add: publish_witness_def bind_def get_state_def ret_def)
    next
      case False
      obtain ch where ch: "publish_demand (tg_index g1) (rank_partition g1 0) ?p (tg_channel g1) = (Inr (), ch)"
        and mark: "on_rank 0 (modify (\<lambda>rc. rc\<lparr>rc_published := Some ?p\<rparr>)) (g1\<lparr>tg_channel := ch\<rparr>) = (Inr (), g')"
        using publish False by (auto simp: publish_witness_def bind_Inr get_state_def on_channel_def split: prod.splits)
      have "0 < length (tg_ranks (g1\<lparr>tg_channel := ch\<rparr>))" using g1 grant_inv_fields(1) by (auto simp: group_ok_def)
      note second = publish_demand_steady [OF g1 ch]
      have "steady (g1\<lparr>tg_channel := ch\<rparr>) g'" by (rule leader_only [OF mark steady_ok [OF second] \<open>0 < length (tg_ranks (g1\<lparr>tg_channel := ch\<rparr>))\<close> fields(2)])
      then show ?thesis using first second steady_group_trans by blast
    qed
  qed
qed

end
