(* ===== verification/Kv_Serving.thy ===== *)
theory Kv_Serving
  imports Kv_Grants
begin

section \<open>A group in service\<close>

text \<open>
  The steps of a tensor-parallel group beside the daemon, from attachment on, and the guarantees that hold in every
  state they reach.
\<close>

subsection \<open>Pages in use determine the rank invariant\<close>

lemma pages_inv_perm:
  assumes "pages_inv b a owned pending" and "mset owned' = mset owned"
  shows "pages_inv b a owned' pending"
proof -
  have s: "set owned' = set owned" using assms(2) by (rule mset_eq_setD)
  have "distinct (exposed a @ unavailable_pages a @ owned')"
    using pages_invD(6) [OF assms(1)] s mset_eq_imp_distinct_iff [OF assms(2)] by auto
  then show ?thesis using assms(1) unfolding pages_inv_def set_append s by blast
qed

lemma rank_inv_held:
  assumes "rank_inv (s, owned, plan)"
  shows "rank_inv (s, held_by s, plan)"
proof (rule rank_inv_same_pending [OF assms])
  let ?p = "pending_of (s, owned, plan)"
  have inv: "state_inv s owned ?p" using assms rank_inv_pending by blast
  have "component_inv (es_components s ! i) (held_by s ! i) (?p ! i)" if "i < length (es_components s)" for i
  proof -
    have c: "component_inv (es_components s ! i) (owned ! i) (?p ! i)" using inv that unfolding state_inv_def by blast
    have "mset (held_by s ! i) = mset (owned ! i)" using rank_owned(2) [OF assms that] that by simp
    then show ?thesis using c pages_inv_perm unfolding component_inv_def by blast
  qed
  then show "state_inv s (held_by s) ?p" using inv unfolding state_inv_def by simp
qed

subsection \<open>Steps\<close>

text \<open>
  A step of the group is an operation that returned. The engine moves a rank by its own allocations, releases and
  resets; at its boundaries the scheduler accepts commands and progresses the grant, and between them it
  coordinates batches, defers evictions and reports its demand.
\<close>

abbreviation poll_all :: "device_view \<Rightarrow> ('e tp_group, unit) op" where
  "poll_all device \<equiv> every_rank (\<lambda>j. poll_retirement (dv_drivers device j) (dv_finished device j))"

definition boundary_contract ::
    "'q engine_allocator \<Rightarrow> device_view \<Rightarrow> bool \<Rightarrow> ('e cache_view \<times> 'e cache_view) option \<Rightarrow> 'e tp_group \<Rightarrow> bool" where
  "boundary_contract eng device chunk_owner scheduler g \<longleftrightarrow> (\<forall>first second. scheduler = Some (first, second) \<longrightarrow>
     (\<forall>g1. poll_all device g = (Inr (), g1) \<longrightarrow> caches_contract first g1)
     \<and> (\<forall>g2. bind (poll_all device) (\<lambda>_. progress_grant eng chunk_owner (Some first)) g = (Inr (), g2) \<longrightarrow> caches_contract second g2))"

inductive serve_step :: "'q engine_allocator \<Rightarrow> 'e tp_group \<Rightarrow> 'e tp_group \<Rightarrow> bool" for eng where
  Deliver: "snapshot = None \<or> snapshot = issued g \<Longrightarrow> every_rank (\<lambda>_. accept_command snapshot) g = (Inr (), g') \<Longrightarrow> serve_step eng g g'"
| Boundary: "begin_scheduling eng device chunk_owner scheduler g = (Inr (), g') \<Longrightarrow>
    boundary_contract eng device chunk_owner scheduler g \<Longrightarrow> serve_step eng g g'"
| Decode: "coordinate_decode eng met chunk_owner evictable evictable' memory g = (Inr b, g') \<Longrightarrow> caches_contract met g \<Longrightarrow> serve_step eng g g'"
| Prefill: "prepare_prefill eng drivers preparation g = (outcomes, g') \<Longrightarrow> \<forall>r\<in>set outcomes. is_ok r \<Longrightarrow> serve_step eng g g'"
| Require: "record_requirement eng evictable requests memory deadline g = (Inr (), g') \<Longrightarrow> serve_step eng g g'"
| Report: "finish_scheduling live g = (Inr (), g') \<Longrightarrow> serve_step eng g g'"
| Defer: "on_rank j (defer_eviction eng num_tokens swa_num_tokens) g = (Inr (), g') \<Longrightarrow> j < length (tg_ranks g) \<Longrightarrow> serve_step eng g g'"
| Engine: "j < length (tg_ranks g) \<Longrightarrow> rc = tg_ranks g ! j \<Longrightarrow> rank_step eng (config_of rc (held_by (rc_state rc))) (s', owned', rc_pending rc) \<Longrightarrow>
    limit_bytes (es_quota s') = limit_bytes (es_quota (rc_state rc)) \<Longrightarrow>
    serve_step eng g (g\<lparr>tg_ranks := (tg_ranks g)[j := rc\<lparr>rc_state := s'\<rparr>]\<rparr>)"

text \<open>
  Beside it the daemon issues commands of 64 bit entries, and the channel carries other groups and other records.
\<close>

inductive group_step :: "'q engine_allocator \<Rightarrow> 'e tp_group \<Rightarrow> 'e tp_group \<Rightarrow> bool" for eng where
  Issue: "publish_command (tg_index g) c (tg_channel g) = (Inr (), ch) \<Longrightarrow> \<forall>b\<in>set (qc_quota_bytes c). 0 \<le> b \<and> b \<le> UINT64_MAX \<Longrightarrow>
    group_step eng g (g\<lparr>tg_channel := ch\<rparr>)"
| Elsewhere: "same_slots g (g\<lparr>tg_channel := ch\<rparr>) \<Longrightarrow> group_step eng g (g\<lparr>tg_channel := ch\<rparr>)"
| Serve: "serve_step eng g g' \<Longrightarrow> group_step eng g g'"

lemma group_ok_boundary:
  assumes "engine_ok eng" and "group_ok g" and "begin_scheduling eng device chunk_owner scheduler g = (Inr (), g')"
    and "boundary_contract eng device chunk_owner scheduler g"
  obtains (plain) "steady g g'" | (adopt) g1 c g2 where "steady g g1" "issued g1 = Some c" "adopted_by_all c g1 g2" "steady g2 g'"
proof -
  obtain g1 g2 where poll: "poll_all device g = (Inr (), g1)" and grant: "progress_grant eng chunk_owner (map_option fst scheduler) g1 = (Inr (), g2)"
    and rest: "(case scheduler of None \<Rightarrow> ret () | Some (_, met) \<Rightarrow> serve_deferred eng chunk_owner met) g2 = (Inr (), g')"
    using assms(3) unfolding begin_scheduling_def bind_Inr by auto
  have one: "steady g g1" by (rule group_ok_every_rank [OF assms(1,2) poll]) (rule poll_retirement_follows)
  have contract: "\<forall>met. map_option fst scheduler = Some met \<longrightarrow> caches_contract met g1"
    using assms(4) poll by (auto simp: boundary_contract_def)
  note two = group_ok_progress [OF assms(1) steady_ok [OF one] grant contract]
  then have g2: "group_ok g2" using steady_ok by blast
  have three: "steady g2 g'"
  proof (cases scheduler)
    case None
    then show ?thesis using rest steady_group_refl [OF g2] by (simp add: ret_def)
  next
    case (Some views)
    obtain first second where views: "views = (first, second)" by (cases views)
    have run: "bind (poll_all device) (\<lambda>_. progress_grant eng chunk_owner (Some first)) g = (Inr (), g2)"
      using poll grant Some views by (simp add: bind_def)
    then have "caches_contract second g2" using assms(4) Some views unfolding boundary_contract_def by blast
    then show ?thesis using group_ok_deferred [OF assms(1) g2] rest Some views by simp
  qed
  from two show thesis
  proof
    assume "steady g1 g2"
    then show thesis using one three steady_group_trans plain by blast
  next
    assume "group_ok g2 \<and> (\<exists>c. issued g1 = Some c \<and> adopted_by_all c g1 g2)"
    then show thesis using one three adopt by blast
  qed
qed

text \<open>
  What a step of the group does to its grant: nothing, or it adopts the issued command. Before the first adoption the
  limits are those of attachment.
\<close>

definition grant_move :: "'e tp_group \<Rightarrow> 'e tp_group \<Rightarrow> bool" where
  "grant_move g g' \<longleftrightarrow> own_writes g g' \<and>
     ((rc_completed (leader g') = rc_completed (leader g) \<and> rc_active (leader g') = rc_active (leader g)
        \<and> (\<forall>j<length (tg_ranks g). limit_bytes (es_quota (rc_state (tg_ranks g' ! j))) = limit_bytes (es_quota (rc_state (tg_ranks g ! j)))))
      \<or> (\<exists>c. issued g = Some c \<and> rc_completed (leader g') = qc_sequence c \<and> rc_active (leader g') = qc_quota_bytes c))"

lemma group_ok_leader: "group_ok g \<Longrightarrow> 0 < length (tg_ranks g) \<and> leader g = tg_ranks g ! 0"
  using grant_inv_fields(1) leader_nth by (auto simp: group_ok_def)

lemma steady_leader:
  assumes "group_ok g" and "steady g g'"
  shows "rc_completed (leader g') = rc_completed (leader g)" "rc_active (leader g') = rc_active (leader g)" "rc_command (leader g') = rc_command (leader g)"
  using group_ok_leader [OF assms(1)] group_ok_leader [OF steady_ok [OF assms(2)]] assms(2)
  by (simp_all add: steady_def same_grants_def same_grant_def)

lemma steady_move:
  assumes "group_ok g" and "steady g g'"
  shows "grant_move g g'"
proof -
  have "own_writes g g'" "\<forall>j<length (tg_ranks g). limit_bytes (es_quota (rc_state (tg_ranks g' ! j))) = limit_bytes (es_quota (rc_state (tg_ranks g ! j)))"
    using assms(2) by (simp_all add: steady_def same_grants_def same_grant_def)
  then show ?thesis unfolding grant_move_def using steady_leader(1,2) [OF assms] by blast
qed

lemma own_writes_trans: "own_writes g g' \<Longrightarrow> own_writes g' g'' \<Longrightarrow> own_writes g g''"
  by (simp add: own_writes_def rank_partition_def)

lemma adopted_move:
  assumes "group_ok g" and "steady g g1" and "issued g1 = Some c" and "adopted_by_all c g1 g2" and "steady g2 g'"
  shows "grant_move g g'"
proof -
  have writes: "own_writes g g'"
    using assms(2,4,5) own_writes_trans unfolding steady_def same_grants_def adopted_by_all_def by blast
  have g1: "group_ok g1" and iss: "issued g = Some c" using assms(2,3) steady_ok by (auto simp: steady_def same_grants_def own_writes_def)
  have len: "length (tg_ranks g2) = length (tg_ranks g1)" using assms(4) by (simp add: adopted_by_all_def own_writes_def)
  then have ne: "tg_ranks g2 \<noteq> []" "0 < length (tg_ranks g1)" using group_ok_leader [OF g1] by auto
  have "tg_ranks g2 ! 0 = adopted c (qc_quota_bytes c ! 0) (tg_ranks g1 ! 0)" using assms(4) ne(2) unfolding adopted_by_all_def by blast
  then have lead: "leader g2 = adopted c (qc_quota_bytes c ! 0) (tg_ranks g1 ! 0)" using leader_nth [OF ne(1)] by simp
  have "tg_ranks g' ! 0 = leader g'" "same_grant (tg_ranks g2 ! 0) (tg_ranks g' ! 0)"
    using group_ok_leader [OF steady_ok [OF assms(5)]] assms(5) ne len by (simp_all add: steady_def same_grants_def)
  then have "rc_completed (leader g') = qc_sequence c" "rc_active (leader g') = qc_quota_bytes c"
    using lead leader_nth [OF ne(1)] by (simp_all add: same_grant_def adopted_def)
  then show ?thesis using writes iss by (simp add: grant_move_def)
qed

lemma deliver_move:
  assumes "group_ok g" and "snapshot = None \<or> snapshot = issued g" and "every_rank (\<lambda>_. accept_command snapshot) g = (Inr (), g')"
  shows "group_ok g' \<and> grant_move g g'"
proof -
  obtain owned where inv: "grant_inv g" "\<forall>j<length (tg_ranks g). rank_inv (config_of (tg_ranks g ! j) (owned j))" using assms(1) by (auto simp: group_ok_def)
  obtain g2 where g2: "every_rank (\<lambda>_. accept_command snapshot) g = (Inr (), g2)" "grant_inv g2"
    "\<forall>j<length (tg_ranks g). rc_state (tg_ranks g2 ! j) = rc_state (tg_ranks g ! j) \<and> rc_pending (tg_ranks g2 ! j) = rc_pending (tg_ranks g ! j)"
    "length (tg_ranks g2) = length (tg_ranks g)"
    using deliver_effect [OF inv(1) assms(2)] by (elim exE conjE) (rule that)
  have g': "g' = g2" using g2(1) assms(3) by simp
  have "rank_inv (config_of (tg_ranks g2 ! j) (owned j))" if "j < length (tg_ranks g)" for j
    using g2(3) inv(2) that by simp
  then have ok: "group_ok g'" using g2(2,4) g' by (auto simp: group_ok_def)
  note eff = every_rank_effect [OF assms(3)]
  have "0 < length (tg_ranks g)" "leader g = tg_ranks g ! 0" "leader g' = tg_ranks g' ! 0" using group_ok_leader assms(1) ok by blast+
  moreover have "rc_completed rc' = rc_completed rc \<and> rc_active rc' = rc_active rc" if "accept_command snapshot rc = (Inr (), rc')" for rc rc' :: "'a reconciler"
    using that by (auto simp: accept_command_def ret_def raise_def split: option.splits if_splits)
  ultimately have "rc_completed (leader g') = rc_completed (leader g) \<and> rc_active (leader g') = rc_active (leader g)" using eff(4) [of 0] by simp
  moreover have "own_writes g g'" using eff(1-3) by (simp add: own_writes_def)
  ultimately show ?thesis using ok g2(3) g' by (simp add: grant_move_def)
qed

lemma serve_step_ok:
  assumes "engine_ok eng" and "serve_step eng g g'" and "group_ok g"
  shows "group_ok g' \<and> grant_move g g'"
  using assms(2,3)
proof (induction rule: serve_step.induct)
  case (Deliver snapshot g g')
  then show ?case by (intro deliver_move)
next
  case (Boundary device chunk_owner scheduler g g')
  from group_ok_boundary [OF assms(1) Boundary.prems Boundary.hyps] show ?case
    using steady_move [OF Boundary.prems] adopted_move [OF Boundary.prems] steady_ok by metis
next
  case (Decode met chunk_owner evictable evictable' memory g b g')
  from group_ok_decode [OF assms(1) Decode.prems Decode.hyps(2,1)] show ?case using steady_move [OF Decode.prems] steady_ok by blast
next
  case (Prefill drivers preparation g outcomes g')
  from group_ok_prefill [OF assms(1) Prefill.prems Prefill.hyps] show ?case using steady_move [OF Prefill.prems] steady_ok by blast
next
  case (Require evictable requests memory deadline g g')
  from group_ok_record [OF assms(1) Require.prems Require.hyps] show ?case using steady_move [OF Require.prems] steady_ok by blast
next
  case (Report live g g')
  from group_ok_finish [OF assms(1) Report.prems Report.hyps] show ?case using steady_move [OF Report.prems] steady_ok by blast
next
  case (Defer j num_tokens swa_num_tokens g g')
  have "follows eng rc owned rc' owned" if "defer_eviction eng num_tokens swa_num_tokens rc = (Inr (), rc')" for rc rc' :: "'b reconciler" and owned
    using that by (auto simp: defer_eviction_def op_simps Let_def intro: follows_fields)
  from group_ok_moves [OF assms(1) Defer.prems on_rank_follows [OF Defer.hyps(1,2) this]] show ?case
    using steady_move [OF Defer.prems] steady_ok by blast
next
  case (Engine j g rc s' owned')
  obtain owned where inv: "grant_inv g" "\<forall>j<length (tg_ranks g). rank_inv (config_of (tg_ranks g ! j) (owned j))"
    using Engine.prems by (auto simp: group_ok_def)
  let ?g = "g\<lparr>tg_ranks := (tg_ranks g)[j := rc\<lparr>rc_state := s'\<rparr>]\<rparr>" and ?o = "\<lambda>k. if k = j then held_by (rc_state rc) else owned k"
    and ?o' = "\<lambda>k. if k = j then owned' else owned k"
  have "rank_inv (config_of rc (owned j))" using inv(2) Engine.hyps(1,2) by blast
  from rank_inv_held [OF this] have held: "\<forall>k<length (tg_ranks g). rank_inv (config_of (tg_ranks g ! k) (?o k))" using inv(2) Engine.hyps(2) by auto
  have "follows eng rc (held_by (rc_state rc)) (rc\<lparr>rc_state := s'\<rparr>) owned'"
    using Engine.hyps(3,4) by (intro follows_one) (simp_all add: same_grant_def)
  then have "group_follows eng g ?o ?g ?o'" using Engine.hyps(1,2) by (auto simp: group_follows_def follows_self nth_list_update)
  from group_ok_follows [OF assms(1) inv(1) held this] show ?case using steady_move [OF Engine.prems] steady_ok by blast
qed

lemma group_ok_step:
  assumes "engine_ok eng" and "group_step eng g g'" and "group_ok g"
  shows "group_ok g'"
  using assms(2,3)
proof (induction rule: group_step.induct)
  case (Issue g c ch)
  then obtain owned where "grant_inv g" "\<forall>j<length (tg_ranks g). rank_inv (config_of (tg_ranks g ! j) (owned j))" by (auto simp: group_ok_def)
  then show ?case using issue_effect [OF _ Issue.hyps] by (auto simp: group_ok_def)
next
  case (Elsewhere g ch)
  from group_ok_slots [OF Elsewhere.prems Elsewhere.hyps] show ?case .
next
  case (Serve g g')
  from serve_step_ok [OF assms(1) Serve.hyps Serve.prems] show ?case by blast
qed

subsection \<open>Attachment\<close>

text \<open>A rank whose pools were constructed, before its engine serves.\<close>

definition rank_started :: "'q engine_allocator \<Rightarrow> elastic_state \<Rightarrow> bool" where
  "rank_started eng s \<longleftrightarrow> (\<exists>kind sorts drivers closers reserves address_frees layouts. reserves_ok reserves \<and> rank_layouts layouts
     \<and> start_state eng kind sorts drivers closers reserves address_frees layouts = Inr s)"

definition attach_group :: "'q engine_allocator \<Rightarrow> nat \<Rightarrow> ecs_channel \<Rightarrow> elastic_state list \<Rightarrow> 'e tp_group" where
  "attach_group eng i ch states = \<lparr>tg_index = i, tg_channel = ch, tg_ranks = map (attach eng) states\<rparr>"

lemma group_end_le: "i < length counts \<Longrightarrow> sum_list (take i counts) + counts ! i \<le> sum_list (counts :: nat list)"
proof -
  assume "i < length counts"
  then have "sum_list counts = sum_list (take i counts) + counts ! i + sum_list (drop (Suc i) counts)"
    by (metis id_take_nth_drop sum_list.Cons sum_list_append add.assoc)
  then show ?thesis by simp
qed

lemma attach_group_ok:
  assumes "engine_ok eng" and "create_channel devices counts = Inr ch" and "i < length counts" and "length states = counts ! i"
    and "\<forall>s\<in>set states. rank_started eng s"
  shows "group_ok (attach_group eng i ch states :: 'e tp_group)"
proof -
  let ?g = "attach_group eng i ch states :: 'e tp_group"
  have ch: "ch_commands ch = replicate (length counts) None" "ch_completions ch = replicate (sum_list counts) None"
    "ch_group_first ch = first_partitions 0 counts" "ch_group_count ch = counts" "0 \<notin> set counts"
    using assms(2) by (auto simp: create_channel_def split: if_splits)
  have "counts ! i \<noteq> 0" using ch(5) nth_mem [OF assms(3)] by metis
  then have ne: "states \<noteq> []" using assms(4) by auto
  have first: "ch_group_first ch ! i + length states \<le> sum_list counts" using ch(3) assms(3,4) group_end_le by (simp add: first_partitions_nth)
  have slot: "rank_partition ?g j < sum_list counts" if "j < length states" for j
    using first that by (simp add: rank_partition_def attach_group_def)
  have "grant_inv ?g"
    using ne ch(1,2,4) first slot assms(3,4)
    by (auto simp: grant_inv_def directory_ok_def attach_group_def attach_def exchange_ok_def latest_def adoption_ok_def Let_def hd_map)
  moreover have "\<exists>owned. rank_inv (config_of (attach eng s :: 'e reconciler) owned)" if s: "s \<in> set states" for s
  proof -
    obtain kind sorts drivers closers reserves address_frees layouts where st: "reserves_ok reserves" "rank_layouts layouts"
      "start_state eng kind sorts drivers closers reserves address_frees layouts = Inr s" using bspec [OF assms(5) s] unfolding rank_started_def by (elim exE conjE) (rule that)
    from reachable_inv [OF assms(1) st rtranclp.rtrancl_refl] show ?thesis by (auto simp: attach_def)
  qed
  then have "\<forall>j. \<exists>o_pages. j < length states \<longrightarrow> rank_inv (config_of (attach eng (states ! j) :: 'e reconciler) o_pages)" by auto
  from choice [OF this] have "\<exists>owned. \<forall>j<length states. rank_inv (config_of (attach eng (states ! j) :: 'e reconciler) (owned j))" by blast
  ultimately show ?thesis by (auto simp: group_ok_def attach_group_def)
qed

lemma serving_group_ok:
  assumes "engine_ok eng" and "create_channel devices counts = Inr ch" and "i < length counts" and "length states = counts ! i"
    and "\<forall>s\<in>set states. rank_started eng s" and "(group_step eng)\<^sup>*\<^sup>* (attach_group eng i ch states) g"
  shows "group_ok g"
  using assms(6)
  by (induction rule: rtranclp_induct) (use attach_group_ok [OF assms(1-5)] group_ok_step [OF assms(1)] in blast)+

section \<open>Guarantees\<close>

lemma group_ok_rank:
  assumes "group_ok g" and "j < length (tg_ranks g)"
  shows "rank_inv (config_of (tg_ranks g ! j) (held_by (rc_state (tg_ranks g ! j))))"
proof -
  obtain owned where "rank_inv (config_of (tg_ranks g ! j) (owned j))" using assms by (auto simp: group_ok_def)
  then show ?thesis by (rule rank_inv_held)
qed

text \<open>
  C13: Ranks never exceed a grant and never disagree about it. In every state a group reaches beside the daemon, all
  ranks hold the same command and have adopted the same grant; a rank that adopted one charges at most its own
  entry, works under exactly that limit, and its reply in the channel confirms that grant with no more than
  the entry. On every rank all pages in use lie on mapped memory.
\<close>

theorem grants_bind_every_rank:
  assumes "engine_ok eng" and "create_channel devices counts = Inr ch" and "i < length counts" and "length states = counts ! i"
    and "\<forall>s\<in>set states. rank_started eng s" and "(group_step eng)\<^sup>*\<^sup>* (attach_group eng i ch states) g" and "j < length (tg_ranks g)"
  shows "let rc = tg_ranks g ! j; s = rc_state rc; lead = hd (tg_ranks g)
     in rc_command rc = rc_command lead \<and> rc_active rc = rc_active lead \<and> rc_completed rc = rc_completed lead
      \<and> in_use_mapped s (held_by s) \<and> charged_bytes (es_quota s) \<le> limit_bytes (es_quota s)
      \<and> (rc_completed rc \<noteq> 0 \<longrightarrow> limit_bytes (es_quota s) = rc_active rc ! j
          \<and> (\<exists>reply. ch_completions (tg_channel g) ! rank_partition g j = Some reply \<and> qn_sequence reply = rc_completed rc
                \<and> quota_completion.backed_bytes reply \<le> rc_active rc ! j))"
proof -
  have ok: "group_ok g" by (rule serving_group_ok [OF assms(1-6)])
  then have inv: "grant_inv g" by (simp add: group_ok_def)
  let ?s = "rc_state (tg_ranks g ! j)"
  have state: "state_inv ?s (held_by ?s) (pending_of (config_of (tg_ranks g ! j) (held_by ?s)))"
    using group_ok_rank [OF ok assms(7)] rank_inv_pending by blast
  have "in_use_mapped ?s (held_by ?s)" by (rule state_inv_in_use [OF state])
  moreover have "charged_bytes (es_quota ?s) \<le> limit_bytes (es_quota ?s)" using state unfolding state_inv_def quota_ok_def by blast
  ultimately show ?thesis using grant_inv_fields(2-4) [OF inv assms(7)] grant_inv_fields(6) [OF inv assms(7)]
    by (simp add: Let_def adoption_ok_def split: if_splits)
qed

text \<open>
  C15: The exchange with the daemon cannot fail. In every reachable state the command the channel carries is
  accepted by all ranks: it never changes a sequence it delivered before and never supersedes an unfinished grant.
  Nor do ranks take different branches before the vote on a grant, so none waits alone in a collective.
\<close>

theorem commands_are_always_acceptable:
  assumes "engine_ok eng" and "create_channel devices counts = Inr ch" and "i < length counts" and "length states = counts ! i"
    and "\<forall>s\<in>set states. rank_started eng s" and "(group_step eng)\<^sup>*\<^sup>* (attach_group eng i ch states) g"
  shows "(\<exists>g'. every_rank (\<lambda>_. accept_command (ch_commands (tg_channel g) ! tg_index g)) g = (Inr (), g')
        \<and> agreed command_open g' \<noteq> Inl UnmatchedCollective)
     \<and> agreed command_open g \<noteq> Inl UnmatchedCollective"
proof -
  have inv: "grant_inv g" using serving_group_ok [OF assms(1-6)] by (simp add: group_ok_def)
  obtain g' where g': "every_rank (\<lambda>_. accept_command (issued g)) g = (Inr (), g')" "grant_inv g'"
    using deliver_effect [OF inv disjI2 [OF refl]] by (elim exE conjE) (rule that)
  show ?thesis using g' agreed_open [OF inv] agreed_open [OF g'(2)] by auto
qed

lemma poll_idle:
  assumes "\<forall>j<length (tg_ranks g). rc_pending (tg_ranks g ! j) = None"
  shows "poll_all device g = (Inr (), g)"
proof -
  have one: "poll_retirement drivers finished (tg_ranks g ! j) = (Inr (), tg_ranks g ! j)" if "j < length (tg_ranks g)" for j drivers finished
    using assms that by (simp add: poll_retirement_def bind_def get_state_def ret_def)
  obtain g' where run: "poll_all device g = (Inr (), g')" using every_rank_returns [of g "\<lambda>j. poll_retirement (dv_drivers device j) (dv_finished device j)"] one by auto
  note eff = every_rank_effect [OF run]
  have "tg_ranks g' = tg_ranks g" using eff(1,4) one by (intro nth_equalityI) auto
  then have "g' = g" using eff(2,3) by simp
  then show ?thesis using run by simp
qed

lemma next_command_admitted:
  assumes "grant_inv g" and "rc_completed (leader g) = latest (issued g)" and "qc_sequence d = latest (issued g) + 1"
    and "latest (issued g) \<noteq> UINT32_MAX" and "length (qc_quota_bytes d) = length (tg_ranks g)"
  shows "\<exists>ch'. publish_command (tg_index g) d (tg_channel g) = (Inr (), ch')"
proof -
  note inv = grant_inv_fields [OF assms(1)]
  have lat: "0 \<le> latest (issued g)" using assms(2) inv(5) by (simp add: exchange_ok_def)
  have confirmed: "\<exists>r. ch_completions (tg_channel g) ! p = Some r \<and> qn_sequence r = latest (issued g)"
    if p: "p \<in> set (group_partitions (tg_channel g) (tg_index g))" "latest (issued g) \<noteq> 0" for p
  proof -
    obtain j where j: "p = rank_partition g j" "j < length (tg_ranks g)"
      using p(1) inv(8) by (auto simp: group_partitions_def rank_partition_def directory_ok_def dest!: le_Suc_ex)
    then show ?thesis using inv(6) [OF j(2)] inv(4) [OF j(2)] assms(2) p(2) by (auto simp: adoption_ok_def Let_def)
  qed
  have dir: "tg_index g < length (ch_commands (tg_channel g))" "ch_group_count (tg_channel g) ! tg_index g = length (tg_ranks g)"
    using inv(8) by (simp_all add: directory_ok_def)
  let ?stale = "\<exists>p\<in>set (group_partitions (tg_channel g) (tg_index g)).
     (case ch_completions (tg_channel g) ! p of None \<Rightarrow> True | Some r \<Rightarrow> qn_sequence r \<noteq> latest (issued g))"
  have settled: "\<not> (latest (issued g) \<noteq> 0 \<and> ?stale)" using confirmed by fastforce
  have "issued g \<noteq> None \<and> latest (issued g) = qc_sequence d \<longleftrightarrow> False" using assms(3) by simp
  then have "publish_command (tg_index g) d (tg_channel g) = ret () ((tg_channel g)\<lparr>ch_commands := (ch_commands (tg_channel g))[tg_index g := Some d]\<rparr>)"
    using dir lat assms(3-5) settled unfolding publish_command_def Let_def latest_def [symmetric] by simp blast
  then show ?thesis by (simp add: ret_def)
qed

subsection \<open>Grants outlive the rest of a boundary\<close>

text \<open>
  What the deferred eviction leaves alone, whether it returns or raises: the channel and every rank's grant.
\<close>

definition grants_as :: "'e tp_group \<Rightarrow> 'e tp_group \<Rightarrow> bool" where
  "grants_as g0 g \<longleftrightarrow> tg_index g = tg_index g0 \<and> tg_channel g = tg_channel g0 \<and> length (tg_ranks g) = length (tg_ranks g0)
     \<and> (\<forall>j<length (tg_ranks g0). same_grant (tg_ranks g0 ! j) (tg_ranks g ! j))"

lemma on_state_grant:
  assumes "\<And>n. keeps (es_limit n) m"
  shows "keeps (same_grant rc0) (on_state m)"
proof (rule keepsI)
  fix rc assume rc: "same_grant rc0 rc"
  have "es_limit (limit_bytes (es_quota (rc_state rc))) (snd (m (rc_state rc)))" using keeps_snd [OF assms] by simp
  then show "same_grant rc0 (snd (on_state m rc))" using rc by (simp add: on_state_def same_grant_def case_prod_unfold)
qed

lemma every_rank_grants:
  assumes "\<And>j rc0. keeps (same_grant rc0) (m j)"
  shows "keeps (grants_as g0) (every_rank m)"
proof (rule keepsI)
  fix g :: "'a tp_group" assume g: "grants_as g0 g"
  have "keeps (grants_as g0) (on_rank j (m j))" for j
  proof (rule keepsI)
    fix h assume h: "grants_as g0 h"
    have "same_grant (tg_ranks g0 ! j) (snd (m j (tg_ranks h ! j)))" if "j < length (tg_ranks g0)"
      using keeps_snd [OF assms] h that by (simp add: grants_as_def)
    then have "same_grant (tg_ranks g0 ! k) ((tg_ranks h)[j := snd (m j (tg_ranks h ! j))] ! k)" if "k < length (tg_ranks g0)" for k
      using h that by (cases "k = j") (simp_all add: grants_as_def)
    then show "grants_as g0 (snd (on_rank j (m j) h))" using h by (simp add: grants_as_def on_rank_def case_prod_unfold)
  qed
  then have "keeps (grants_as g0) (for_each (\<lambda>j. on_rank j (m j)) [0..<length (tg_ranks g)])" by (intro hoare_for_each)
  from keeps_snd [OF this g] show "grants_as g0 (snd (every_rank m g))" by (simp add: every_rank_def)
qed

lemma modify_grant: "(\<And>rc. same_grant rc (f rc)) \<Longrightarrow> keeps (same_grant rc0) (modify f)"
  by (intro keepsI) (simp add: modify_def same_grant_def)

lemmas grant_intros = keeps_bind keeps_get hoare_if hoare_ret hoare_raise hoare_lift_result on_state_grant state_ops_limit

lemma begin_empty_grant: "keeps (same_grant rc0) (begin_empty eng n)"
proof -
  have "keeps (same_grant rc0) (case plan of None \<Rightarrow> ret () | Some p \<Rightarrow>
          bind (on_state (apply_reclaim eng None p)) (\<lambda>applied. modify (\<lambda>rc. rc\<lparr>rc_pending := Some applied\<rparr>)))" for plan
    by (cases plan; simp only: option.case; intro grant_intros modify_grant) (simp_all add: same_grant_def)
  then show ?thesis unfolding begin_empty_def by (intro grant_intros)
qed

lemma apply_candidate_grant: "keeps (same_grant rc0) (apply_candidate eng cache plan)"
  unfolding apply_candidate_def
  by (cases plan; simp only: option.case; intro grant_intros modify_grant) (simp_all add: same_grant_def)

lemma sync_grants: "keeps (grants_as g0) (sync_admission_budget eng)"
proof (rule keepsI)
  fix g assume g: "grants_as g0 g"
  have "keeps (grants_as g0) (every_rank (\<lambda>_. modify (\<lambda>rc. rc\<lparr>rc_admission := free\<rparr>)))" for free
    by (intro every_rank_grants modify_grant) (simp add: same_grant_def)
  from keeps_snd [OF this g] show "grants_as g0 (snd (sync_admission_budget eng g))" by (simp add: sync_admission_budget_def Let_def)
qed

lemma reclaim_grants: "keeps (grants_as g0) (reclaim eng caches select chunk_owner release0 wanted)"
  unfolding reclaim_def Let_def
  by (intro grant_intros every_rank_grants begin_empty_grant apply_candidate_grant sync_grants)

lemma serve_deferred_grants: "keeps (grants_as g0) (serve_deferred eng chunk_owner met)"
  unfolding serve_deferred_def Let_def
  by (intro grant_intros every_rank_grants modify_grant reclaim_grants sync_grants) (simp_all add: same_grant_def)

text \<open>With nothing deferred only the admission budget is agreed on, and that returns.\<close>

lemma serve_deferred_idle:
  assumes "tg_ranks g \<noteq> []" and "0 < w" and "\<forall>rc\<in>set (tg_ranks g). rc_deferred rc = replicate w 0"
  shows "\<exists>g'. serve_deferred eng chunk_owner met g = (Inr (), g')"
proof -
  let ?vectors = "ranks (\<lambda>_ rc. if rc_deferred rc = [] then zero_pages rc else rc_deferred rc) g"
  have vectors: "?vectors = replicate (length (tg_ranks g)) (replicate w 0)"
    using assms(2,3) by (auto simp: ranks_def intro!: replicate_eqI)
  obtain n where n: "length (tg_ranks g) = Suc n" using assms(1) by (cases "tg_ranks g") auto
  have "foldr max (replicate n 0) (0::int) = 0" by (induction n) simp_all
  then have "\<not> (\<exists>k\<in>set (reduce_vectors reduce_max ?vectors). k \<noteq> 0)"
    unfolding vectors reduce_vectors_def reduce_max_def n by simp
  moreover have "\<exists>g'. sync_admission_budget eng g = (Inr (), g')"
    unfolding sync_admission_budget_def Let_def by (rule every_rank_returns) (simp add: modify_def)
  ultimately show ?thesis unfolding serve_deferred_def by (auto simp: bind_def get_state_def Let_def ret_def)
qed

abbreviation after_grant :: "'q engine_allocator \<Rightarrow> bool \<Rightarrow> ('e cache_view \<times> 'e cache_view) option \<Rightarrow> ('e tp_group, unit) op" where
  "after_grant eng chunk_owner scheduler \<equiv> case scheduler of None \<Rightarrow> ret () | Some (_, met) \<Rightarrow> serve_deferred eng chunk_owner met"

lemma grants_as_refl: "grants_as g g"
  by (simp add: grants_as_def same_grant_def)

lemma after_grant_kept: "after_grant eng chunk_owner scheduler g = (outcome, g') \<Longrightarrow> grants_as g g'"
  using keeps_snd [OF serve_deferred_grants [of g eng chunk_owner "snd (the scheduler)"] grants_as_refl] grants_as_refl [of g]
  by (cases scheduler) (simp_all add: ret_def case_prod_unfold)

lemma after_grant_returns:
  assumes "after_grant eng chunk_owner scheduler g = (outcome, g')" and "tg_ranks g \<noteq> []"
    and "scheduler = None \<or> (\<exists>w>0. \<forall>rc\<in>set (tg_ranks g). rc_deferred rc = replicate w 0)"
  shows "outcome = Inr ()"
proof (cases scheduler)
  case (Some views)
  then obtain w where w: "0 < w" "\<forall>rc\<in>set (tg_ranks g). rc_deferred rc = replicate w 0" using assms(3) by blast
  obtain h where "serve_deferred eng chunk_owner (snd views) g = (Inr (), h)" using serve_deferred_idle [OF assms(2) w] by blast
  then show ?thesis using assms(1) Some by (simp add: case_prod_unfold)
qed (use assms(1) in \<open>simp add: ret_def\<close>)

text \<open>
  C14: A grant that fits is adopted, and the daemon may go on. When the issued command has been delivered, no
  retirement is pending, every rank charges at most its entry and no chunked request holds a shrinking group, then
  the next boundary, with a scheduler or without, ends with every rank working under its entry and confirming the
  bytes it held, and the channel admits the next command. This holds whatever the eviction deferred by earlier
  batches does at the end of the boundary, even when it raises; the boundary returns when none is deferred or
  no scheduler is passed.
\<close>

theorem fitting_grant_is_adopted:
  assumes "engine_ok eng" and "create_channel devices counts = Inr ch" and "i < length counts" and "length states = counts ! i"
    and "\<forall>s\<in>set states. rank_started eng s" and "(group_step eng)\<^sup>*\<^sup>* (attach_group eng i ch states) g"
    and "ch_commands (tg_channel g) ! tg_index g = Some c" and "command_open (hd (tg_ranks g))"
    and "\<forall>j<length (tg_ranks g). ready_to_adopt chunk_owner (qc_quota_bytes c ! j) (tg_ranks g ! j)"
    and "begin_scheduling eng device chunk_owner scheduler g = (outcome, g')"
  shows "(\<forall>j<length (tg_ranks g). let rc = tg_ranks g' ! j in limit_bytes (es_quota (rc_state rc)) = qc_quota_bytes c ! j
          \<and> rc_completed rc = qc_sequence c
          \<and> ch_completions (tg_channel g') ! rank_partition g' j
              = Some \<lparr>qn_sequence = qc_sequence c, quota_completion.backed_bytes = charged_bytes (es_quota (rc_state (tg_ranks g ! j)))\<rparr>)
     \<and> (\<forall>d. qc_sequence d = qc_sequence c + 1 \<longrightarrow> qc_sequence c \<noteq> UINT32_MAX \<longrightarrow> length (qc_quota_bytes d) = length (qc_quota_bytes c) \<longrightarrow>
          (\<exists>ch'. publish_command (tg_index g') d (tg_channel g') = (Inr (), ch')))
     \<and> (scheduler = None \<or> (\<exists>w>0. \<forall>rc\<in>set (tg_ranks g). rc_deferred rc = replicate w 0) \<longrightarrow> outcome = Inr ())"
proof -
  have inv: "grant_inv g" using serving_group_ok [OF assms(1-6)] by (simp add: group_ok_def)
  obtain g1 where g1: "progress_grant eng chunk_owner (map_option fst scheduler) g = (Inr (), g1)" "grant_inv g1" "adopted_by_all c g g1"
    using progress_grant_adopts [OF inv assms(8,7,9)] by blast
  have idle: "poll_all device g = (Inr (), g)" using assms(9) by (intro poll_idle) (simp add: ready_to_adopt_def)
  have run: "after_grant eng chunk_owner scheduler g1 = (outcome, g')"
    using assms(10) g1(1) by (simp add: begin_scheduling_def bind_def idle)
  note kept = after_grant_kept [OF run]
  have n: "length (tg_ranks g1) = length (tg_ranks g)" "issued g1 = Some c" using g1(3) unfolding adopted_by_all_def own_writes_def by blast+
  have rank: "tg_ranks g1 ! j = adopted c (qc_quota_bytes c ! j) (tg_ranks g ! j)" "replied g1 j = Some (reply_of c (tg_ranks g ! j))"
    if "j < length (tg_ranks g)" for j using g1(3) that by (simp_all add: adopted_by_all_def)
  have nonempty: "0 < length (tg_ranks g)" using grant_inv_fields(1) [OF inv] by simp
  then have completed: "rc_completed (leader g1) = latest (issued g1)"
    using rank(1) [of 0] n leader_nth [OF grant_inv_fields(1) [OF g1(2)]] by (simp add: adopted_def latest_def)
  have width: "length (qc_quota_bytes c) = length (tg_ranks g1)" using grant_inv_fields(7) [OF g1(2) n(2)] by (simp add: command_ok_def)
  have next_command: "\<exists>ch'. publish_command (tg_index g') d (tg_channel g') = (Inr (), ch')"
    if "qc_sequence d = qc_sequence c + 1" "qc_sequence c \<noteq> UINT32_MAX" "length (qc_quota_bytes d) = length (qc_quota_bytes c)" for d
  proof -
    have "\<exists>ch'. publish_command (tg_index g1) d (tg_channel g1) = (Inr (), ch')"
      using that n(2) width by (intro next_command_admitted [OF g1(2) completed]) (simp_all add: latest_def)
    then show ?thesis using kept by (simp add: grants_as_def)
  qed
  have "rc_deferred rc = replicate w 0" if w: "\<forall>rc\<in>set (tg_ranks g). rc_deferred rc = replicate w 0" "rc \<in> set (tg_ranks g1)" for w rc
  proof -
    obtain j where "j < length (tg_ranks g)" "rc = tg_ranks g1 ! j" using w(2) n(1) by (auto simp: in_set_conv_nth)
    then show ?thesis using w(1) rank(1) nth_mem by (simp add: adopted_def)
  qed
  then have "scheduler = None \<or> (\<exists>w>0. \<forall>rc\<in>set (tg_ranks g1). rc_deferred rc = replicate w 0)"
    if "scheduler = None \<or> (\<exists>w>0. \<forall>rc\<in>set (tg_ranks g). rc_deferred rc = replicate w 0)" using that by blast
  moreover have "tg_ranks g1 \<noteq> []" using nonempty n(1) by auto
  ultimately have returned: "outcome = Inr ()" if "scheduler = None \<or> (\<exists>w>0. \<forall>rc\<in>set (tg_ranks g). rc_deferred rc = replicate w 0)"
    using after_grant_returns [OF run] that by blast
  have "limit_bytes (es_quota (rc_state (tg_ranks g' ! j))) = qc_quota_bytes c ! j \<and> rc_completed (tg_ranks g' ! j) = qc_sequence c
      \<and> replied g' j = Some (reply_of c (tg_ranks g ! j))" if "j < length (tg_ranks g)" for j
    using kept rank [OF that] that n(1) by (simp add: grants_as_def same_grant_def adopted_def rank_partition_def)
  then show ?thesis using next_command returned by (simp add: Let_def reply_of_def)
qed

text \<open>
  C16: No rank enters a Prefill its peers cannot. The outcome of a preparation is common: all ranks return true exactly
  when each prepared its pages; when any rank failed, every rank raises, the failing one its own error;
  otherwise all ranks return false.
\<close>

theorem prefill_outcome_is_common:
  assumes "tg_ranks g \<noteq> []"
  shows "let prepared = \<lambda>j. fst (prepare_allocation eng (drivers j) (preparation j) (rc_state (tg_ranks g ! j)));
             outcomes = fst (prepare_prefill eng drivers preparation g); n = length (tg_ranks g)
     in length outcomes = n \<and>
       (if \<exists>j<n. \<not> is_ok (prepared j)
        then \<forall>j<n. \<not> is_ok (outcomes ! j) \<and> (\<not> is_ok (prepared j) \<longrightarrow> outcomes ! j = prepared j)
        else \<forall>j<n. outcomes ! j = Inr (\<forall>k<n. prepared k = Inr True))"
proof -
  let ?n = "length (tg_ranks g)"
  define prepared where "prepared = (\<lambda>j. fst (prepare_allocation eng (drivers j) (preparation j) (rc_state (tg_ranks g ! j))))"
  define statuses where "statuses = map (\<lambda>j. prefill_status (prepared j)) [0..<?n]"
  have outcomes: "fst (prepare_prefill eng drivers preparation g) = map (\<lambda>j. prefill_outcome (allocation_verdict statuses) (prepared j)) [0..<?n]"
    by (simp add: prepare_prefill_def ranks_def Let_def case_prod_beta comp_def on_state_def prepared_def statuses_def)
  have ne: "statuses \<noteq> []" using assms by (simp add: statuses_def)
  have failed: "allocation_verdict statuses = FAILED \<longleftrightarrow> (\<exists>j<?n. \<not> is_ok (prepared j))"
  proof -
    have "FAILED \<in> set statuses \<longleftrightarrow> (\<exists>j<?n. FAILED = prefill_status (prepared j))" by (auto simp: statuses_def)
    moreover have "FAILED = prefill_status r \<longleftrightarrow> \<not> is_ok r" for r by (cases r) (simp_all add: prefill_status_def)
    ultimately show ?thesis unfolding verdict_cases(1) [OF ne] by simp
  qed
  have ready: "allocation_verdict statuses = READY \<longleftrightarrow> (\<forall>k<?n. prepared k = Inr True)"
  proof -
    have "set statuses = {READY} \<longleftrightarrow> (\<forall>k<?n. prefill_status (prepared k) = READY)"
      using assms by (auto simp: statuses_def image_constant_conv)
    moreover have "prefill_status r = READY \<longleftrightarrow> r = Inr True" for r by (auto simp: prefill_status_def split: sum.splits)
    ultimately show ?thesis unfolding verdict_cases(2) [OF ne] by simp
  qed
  let ?out = "map (\<lambda>j. prefill_outcome (allocation_verdict statuses) (prepared j)) [0..<?n]"
  have "if \<exists>j<?n. \<not> is_ok (prepared j)
        then \<forall>j<?n. \<not> is_ok (?out ! j) \<and> (\<not> is_ok (prepared j) \<longrightarrow> ?out ! j = prepared j)
        else \<forall>j<?n. ?out ! j = Inr (\<forall>k<?n. prepared k = Inr True)"
  proof (cases "allocation_verdict statuses = FAILED")
    case True
    then have "?out ! j = (case prepared j of Inl e \<Rightarrow> Inl e | Inr _ \<Rightarrow> Inl (RuntimeError ''xpool Prefill backing preparation failed on a TP peer''))"
      if "j < ?n" for j using that by (simp add: prefill_outcome_def)
    then show ?thesis using failed True by (simp add: is_ok_def split: sum.splits)
  next
    case False
    then have "\<not> (\<exists>j<?n. \<not> is_ok (prepared j))" using failed by simp
    moreover have "?out ! j = Inr (\<forall>k<?n. prepared k = Inr True)" if "j < ?n" for j
      using that False ready by (simp add: prefill_outcome_def)
    ultimately show ?thesis by (simp only: if_False) blast
  qed
  then show ?thesis unfolding Let_def outcomes prepared_def [symmetric] by simp
qed

section \<open>A concrete group\<close>

definition sample_channel :: ecs_channel where
  "sample_channel = (case create_channel 1 [2] of Inr ch \<Rightarrow> ch
     | Inl _ \<Rightarrow> \<lparr>ch_group_first = [], ch_group_count = [], ch_commands = [], ch_ceilings = [], ch_completions = [], ch_demands = [],
                 ch_initial_backing = [], ch_device_memory = []\<rparr>)"

definition sample_grant :: quota_command where
  "sample_grant = \<lparr>qc_sequence = 1, qc_quota_bytes = [12, 8]\<rparr>"

definition sample_group :: "nat tp_group" where
  "sample_group = attach_group sample_engine 0 sample_channel [sample_start, sample_start]"

definition sample_issued :: "nat tp_group" where
  "sample_issued = sample_group\<lparr>tg_channel := snd (publish_command 0 sample_grant sample_channel)\<rparr>"

definition sample_delivered :: "nat tp_group" where
  "sample_delivered = snd (every_rank (\<lambda>_. accept_command (Some sample_grant)) sample_issued)"

definition sample_device :: device_view where
  "sample_device = \<lparr>dv_drivers = \<lambda>_ _. sample_driver, dv_finished = \<lambda>_. True\<rparr>"

definition sample_serving :: "nat tp_group" where
  "sample_serving = snd (begin_scheduling sample_engine sample_device False None sample_delivered)"

lemma sample_channel_created: "create_channel 1 [2] = Inr sample_channel" "(0::nat) < length [2::nat]" "length [sample_start, sample_start] = [2] ! 0"
proof -
  have "is_ok (create_channel 1 [2])" by code_simp
  then show "create_channel 1 [2] = Inr sample_channel" by (auto simp: sample_channel_def is_ok_iff)
qed simp_all

lemma sample_ranks_started: "\<forall>s\<in>set [sample_start, sample_start]. rank_started sample_engine s"
proof -
  have "rank_started sample_engine sample_start"
    unfolding rank_started_def by (intro exI conjI) (rule sample_setup(2), rule sample_setup(1), rule sample_setup(4))
  then show ?thesis by simp
qed

lemma sample_delivered_reached: "(group_step sample_engine)\<^sup>*\<^sup>* (attach_group sample_engine 0 sample_channel [sample_start, sample_start]) sample_delivered"
proof -
  have "publish_command 0 sample_grant sample_channel = (Inr (), snd (publish_command 0 sample_grant sample_channel))"
    "tg_index sample_group = 0" "tg_channel sample_group = sample_channel" "\<forall>b\<in>set (qc_quota_bytes sample_grant). 0 \<le> b \<and> b \<le> UINT64_MAX"
    by code_simp+
  then have "group_step sample_engine sample_group sample_issued"
    unfolding sample_issued_def by (intro group_step.Issue [of sample_group sample_grant]) simp_all
  moreover have "Some sample_grant = issued sample_issued"
    "every_rank (\<lambda>_. accept_command (Some sample_grant)) sample_issued = (Inr (), sample_delivered)" by code_simp+
  then have "group_step sample_engine sample_issued sample_delivered" by (intro group_step.Serve serve_step.Deliver [OF disjI2])
  ultimately show ?thesis by (simp add: sample_group_def rtranclp.rtrancl_into_rtrancl)
qed

lemma sample_serving_reached: "(group_step sample_engine)\<^sup>*\<^sup>* (attach_group sample_engine 0 sample_channel [sample_start, sample_start]) sample_serving"
proof -
  have "begin_scheduling sample_engine sample_device False None sample_delivered = (Inr (), sample_serving)" by code_simp
  moreover have "boundary_contract sample_engine sample_device False None sample_delivered" unfolding boundary_contract_def by blast
  ultimately have "group_step sample_engine sample_delivered sample_serving" by (intro group_step.Serve) (rule serve_step.Boundary)
  with sample_delivered_reached show ?thesis by (rule rtranclp.rtrancl_into_rtrancl)
qed

lemma grants_bind_every_rank_witness:
  "let rc = tg_ranks sample_serving ! 1 in limit_bytes (es_quota (rc_state rc)) = 8 \<and> in_use_mapped (rc_state rc) (held_by (rc_state rc))"
proof -
  have "1 < length (tg_ranks sample_serving)" by code_simp
  from grants_bind_every_rank [OF sample_engine_ok sample_channel_created sample_ranks_started sample_serving_reached this]
  have all: "in_use_mapped (rc_state (tg_ranks sample_serving ! 1)) (held_by (rc_state (tg_ranks sample_serving ! 1)))"
    "rc_completed (tg_ranks sample_serving ! 1) \<noteq> 0 \<longrightarrow>
     limit_bytes (es_quota (rc_state (tg_ranks sample_serving ! 1))) = rc_active (tg_ranks sample_serving ! 1) ! 1"
    unfolding Let_def by blast+
  have "rc_completed (tg_ranks sample_serving ! 1) \<noteq> 0" "rc_active (tg_ranks sample_serving ! 1) ! 1 = 8" by code_simp+
  then show ?thesis using all by simp
qed

lemma commands_are_always_acceptable_witness:
  "agreed command_open sample_serving \<noteq> Inl UnmatchedCollective
   \<and> (\<exists>g'. every_rank (\<lambda>_. accept_command (ch_commands (tg_channel sample_serving) ! tg_index sample_serving)) sample_serving = (Inr (), g'))"
  using commands_are_always_acceptable [OF sample_engine_ok sample_channel_created sample_ranks_started sample_serving_reached] by blast

lemma fitting_grant_is_adopted_witness:
  "\<exists>g'. begin_scheduling sample_engine sample_device False (Some (\<lparr>cv_caches = \<lambda>_. None, cv_select = None\<rparr>, \<lparr>cv_caches = \<lambda>_. None, cv_select = None\<rparr>))
        sample_delivered = (Inr (), g')
     \<and> limit_bytes (es_quota (rc_state (tg_ranks g' ! 0))) = 12 \<and> limit_bytes (es_quota (rc_state (tg_ranks g' ! 1))) = 8"
proof -
  let ?met = "\<lparr>cv_caches = \<lambda>_. None, cv_select = None\<rparr>"
  have pre: "ch_commands (tg_channel sample_delivered) ! tg_index sample_delivered = Some sample_grant" "command_open (hd (tg_ranks sample_delivered))"
    "\<forall>j<length (tg_ranks sample_delivered). ready_to_adopt False (qc_quota_bytes sample_grant ! j) (tg_ranks sample_delivered ! j)"
    and n: "length (tg_ranks sample_delivered) = 2" "qc_quota_bytes sample_grant = [12, 8]"
    and idle: "\<forall>rc\<in>set (tg_ranks sample_delivered). rc_deferred rc = replicate 1 0"
    by code_simp+
  obtain outcome g' where run: "begin_scheduling sample_engine sample_device False (Some (?met, ?met)) sample_delivered = (outcome, g')" by force
  note adopted = fitting_grant_is_adopted [OF sample_engine_ok sample_channel_created sample_ranks_started sample_delivered_reached pre run, unfolded Let_def]
  have "limit_bytes (es_quota (rc_state (tg_ranks g' ! 0))) = 12" "limit_bytes (es_quota (rc_state (tg_ranks g' ! 1))) = 8"
    using conjunct1 [OF adopted, rule_format, of 0] conjunct1 [OF adopted, rule_format, of 1] n by simp_all
  moreover have "outcome = Inr ()" using conjunct2 [OF conjunct2 [OF adopted]] idle by (metis zero_less_one)
  ultimately show ?thesis using run by blast
qed

lemma prefill_outcome_is_common_witness:
  "fst (prepare_prefill sample_engine (\<lambda>_ _. sample_driver) (\<lambda>_. [3]) sample_serving) ! 0 = Inr True"
proof -
  let ?prepared = "\<lambda>j. fst (prepare_allocation sample_engine (\<lambda>_. sample_driver) [3] (rc_state (tg_ranks sample_serving ! j)))"
  have n: "length (tg_ranks sample_serving) = 2" and ok: "?prepared 0 = Inr True" "?prepared 1 = Inr True" by code_simp+
  then have "tg_ranks sample_serving \<noteq> []" by auto
  have all: "?prepared j = Inr True" if "j < 2" for j using ok that by (auto simp: less_2_cases_iff)
  then have "\<not> (\<exists>j<2. \<not> is_ok (?prepared j))" "\<forall>k<2. ?prepared k = Inr True" by auto
  with prefill_outcome_is_common [OF \<open>tg_ranks sample_serving \<noteq> []\<close>, of sample_engine "\<lambda>_ _. sample_driver" "\<lambda>_. [3]"]
  show ?thesis unfolding Let_def n by (simp only: if_False) simp
qed

end
