(* ===== verification/Grant_Tracking.thy ===== *)
theory Grant_Tracking
  imports Capacity_Channel Kv_Serving
begin

section \<open>What the policy's bookkeeping says about the ranks\<close>

text \<open>
  A relation between the bookkeeping of the capacity policy (active quotas, pending operations, applied
  sequences), the commands its channel carries and what the ranks of each group have adopted. It is kept by every step
  of the policy that returns: an interpretation of the policy locale.
\<close>

subsection \<open>What the policy writes\<close>

definition channel_fixed :: "ecs_channel \<Rightarrow> ecs_channel \<Rightarrow> bool" where
  "channel_fixed ch ch' \<longleftrightarrow> ch_group_first ch' = ch_group_first ch \<and> ch_group_count ch' = ch_group_count ch
     \<and> ch_completions ch' = ch_completions ch \<and> length (ch_commands ch') = length (ch_commands ch)"

lemma publish_operation_returns:
  assumes "publish_operation g quota p = (Inr u, p')"
  obtains c ch where "c = \<lparr>qc_sequence = cp_applied_sequences p ! g + 1, qc_quota_bytes = quota\<rparr>"
    "publish_command g c (cp_channel p) = (Inr (), ch)" "cp_operations p ! g = None" "cp_active_quotas p ! g \<noteq> None"
    "p' = p\<lparr>cp_channel := ch, cp_operations := (cp_operations p)[g := Some c]\<rparr>"
proof -
  let ?c = "\<lparr>qc_sequence = cp_applied_sequences p ! g + 1, qc_quota_bytes = quota\<rparr>"
  obtain ch where "publish_command g ?c (cp_channel p) = (Inr (), ch)" "cp_operations p ! g = None" "cp_active_quotas p ! g \<noteq> None"
    "p' = p\<lparr>cp_channel := ch, cp_operations := (cp_operations p)[g := Some ?c]\<rparr>"
    using assms
    by (auto simp: publish_operation_def Capacity_Policy.on_channel_def rbind_Inr_iff index_at_def raise_def Let_def bind_Inr modify_def
        split: sum.splits if_splits prod.splits)
  then show thesis using that by blast
qed

lemma publish_command_fixed:
  assumes "publish_command g c ch = (Inr u, ch')"
  shows "channel_fixed ch ch'" "ch_commands ch' = (ch_commands ch)[g := Some c]" "g < length (ch_commands ch)"
    "length (qc_quota_bytes c) = ch_group_count ch ! g"
  using publish_command_Inr [OF assms] by (auto simp: channel_fixed_def)

definition frozen_effect :: "capacity_policy \<Rightarrow> capacity_policy \<Rightarrow> bool" where
  "frozen_effect p p' \<longleftrightarrow> cp_operations p' = cp_operations p \<and> cp_applied_sequences p' = cp_applied_sequences p
     \<and> cp_pool_capacity_bytes p' = cp_pool_capacity_bytes p
     \<and> channel_fixed (cp_channel p) (cp_channel p') \<and> ch_commands (cp_channel p') = ch_commands (cp_channel p)
     \<and> (\<forall>g. cp_active_quotas p ! g \<noteq> None \<longrightarrow> cp_active_quotas p' ! g \<noteq> None)"

lemma freeze_group_effect:
  assumes "freeze_group book plans (g, i, dp) p = (Inr u, p')"
  shows "frozen_effect p p'" and "cp_active_quotas p' ! g \<noteq> None"
proof -
  obtain a ceilings caps ch where p': "p' = p\<lparr>cp_active_quotas := (cp_active_quotas p)[g := Some a], cp_service_ceilings := ceilings, cp_channel := ch\<rparr>"
    and g: "g < length (cp_active_quotas p)" and pub: "publish_service_ceiling g caps (cp_channel p) = (Inr (), ch)"
    using assms
    by (auto simp: freeze_group_def raise_def Let_def rbind_Inr_iff set_item_def Capacity_Policy.on_channel_def
        split: sum.splits if_splits prod.splits)
  have ch: "channel_fixed (cp_channel p) ch" "ch_commands ch = ch_commands (cp_channel p)"
    using pub by (auto simp: publish_service_ceiling_def ret_def raise_def channel_fixed_def split: if_splits option.splits)
  show "frozen_effect p p'" using ch g by (auto simp: p' frozen_effect_def nth_list_update)
  show "cp_active_quotas p' ! g \<noteq> None" using g by (simp add: p')
qed

lemma frozen_effect_trans: "frozen_effect p p' \<Longrightarrow> frozen_effect p' p'' \<Longrightarrow> frozen_effect p p''"
  by (auto simp: frozen_effect_def channel_fixed_def)

lemma freeze_loop_effect:
  assumes "for_each (freeze_group book plans) grps p = (Inr u, p')"
  shows "frozen_effect p p' \<and> (\<forall>(g, i, dp)\<in>set grps. cp_active_quotas p' ! g \<noteq> None)"
  using assms
proof (induction grps arbitrary: p)
  case Nil
  then show ?case by (simp add: frozen_effect_def channel_fixed_def)
next
  case (Cons grp grps)
  obtain g i dp where grp: "grp = (g, i, dp)" by (cases grp)
  obtain p1 where one: "freeze_group book plans (g, i, dp) p = (Inr (), p1)" and rest: "for_each (freeze_group book plans) grps p1 = (Inr u, p')"
    using Cons.prems grp by (auto split: prod.splits sum.splits)
  note first = freeze_group_effect [OF one] and IH = Cons.IH [OF rest]
  have "cp_active_quotas p' ! g \<noteq> None" using first(2) IH unfolding frozen_effect_def by blast
  then show ?case using frozen_effect_trans [OF first(1)] IH grp by auto
qed

lemma group_at:
  assumes "g < length (capacity_groups plans)"
  obtains i dp where "(g, i, dp) \<in> set (capacity_groups plans)"
proof -
  obtain i dp where "group_pairs plans ! g = (i, dp)" by (cases "group_pairs plans ! g")
  then have "capacity_groups plans ! g = (g, i, dp)" using assms by (simp add: capacity_groups_enumerate nth_enumerate_eq)
  then show thesis using that nth_mem [OF assms] by auto
qed

lemma freeze_pools_effect:
  assumes "freeze_pools config book plans backing reports p = (Inr u, p')"
  shows "\<exists>budgets. frozen_effect (p\<lparr>cp_pool_capacity_bytes := Some budgets\<rparr>) p' \<and> (\<forall>g<length (capacity_groups plans). cp_active_quotas p' ! g \<noteq> None)"
proof -
  obtain budgets where run: "for_each (freeze_group book plans) (capacity_groups plans) (p\<lparr>cp_pool_capacity_bytes := Some budgets\<rparr>) = (Inr u, p')"
    using assms by (auto simp: freeze_pools_def raise_def split: sum.splits)
  have "cp_active_quotas p' ! g \<noteq> None" if g: "g < length (capacity_groups plans)" for g
  proof -
    obtain i dp where "(g, i, dp) \<in> set (capacity_groups plans)" by (rule group_at [OF g])
    then show ?thesis using freeze_loop_effect [OF run] by auto
  qed
  then show ?thesis using freeze_loop_effect [OF run] by blast
qed

subsection \<open>Bookkeeping and adoption\<close>

text \<open>
  \<open>completed\<close> and \<open>grant\<close> are what the ranks of a group adopted; \<open>before\<close> is the command the channel carried when the
  step began. While no operation is pending the ranks have adopted the permission the policy considers active;
  while one is pending they have adopted the active permission or already the pending one.
\<close>

definition group_tracked ::
    "int \<Rightarrow> int list \<Rightarrow> quota_command option \<Rightarrow> nat \<Rightarrow> int list option \<Rightarrow> quota_command option \<Rightarrow> int \<Rightarrow> quota_command option \<Rightarrow> bool" where
  "group_tracked completed grant before width active operation applied carried \<longleftrightarrow> 0 \<le> applied
     \<and> (\<forall>c. carried = Some c \<longrightarrow> length (qc_quota_bytes c) = width)
     \<and> (carried = before \<or> completed = latest before \<and> latest carried = completed + 1)
     \<and> (case operation of
          None \<Rightarrow> completed = applied \<and> latest carried = applied
            \<and> (if applied = 0 then carried = None else (\<exists>c. carried = Some c \<and> active = Some (qc_quota_bytes c) \<and> grant = qc_quota_bytes c))
        | Some c \<Rightarrow> carried = Some c \<and> qc_sequence c = applied + 1 \<and> active \<noteq> None
            \<and> (completed = applied \<and> (applied \<noteq> 0 \<longrightarrow> active = Some grant) \<or> completed = applied + 1 \<and> grant = qc_quota_bytes c))"

definition tracks ::
    "fabric_instance_plan list \<Rightarrow> ecs_channel \<Rightarrow> (nat \<Rightarrow> int) \<Rightarrow> (nat \<Rightarrow> int list) \<Rightarrow> capacity_policy \<Rightarrow> bool" where
  "tracks plans ch completed grant p \<longleftrightarrow> lists_ok plans p \<and> channel_fixed ch (cp_channel p)
     \<and> length (ch_commands ch) = length (capacity_groups plans)
     \<and> (\<forall>g<length (capacity_groups plans). group_tracked (completed g) (grant g) (ch_commands ch ! g) (ch_group_count ch ! g)
          (cp_active_quotas p ! g) (cp_operations p ! g) (cp_applied_sequences p ! g) (ch_commands (cp_channel p) ! g))
     \<and> (if cp_pool_capacity_bytes p = None then \<forall>g<length (capacity_groups plans). cp_operations p ! g = None \<and> cp_applied_sequences p ! g = 0 \<and> cp_active_quotas p ! g = None
        else \<forall>g<length (capacity_groups plans). cp_active_quotas p ! g \<noteq> None)"

lemma tracksD:
  assumes "tracks plans ch completed grant p"
  shows "lists_ok plans p" "channel_fixed ch (cp_channel p)" "length (ch_commands ch) = length (capacity_groups plans)"
    "g < length (capacity_groups plans) \<Longrightarrow> group_tracked (completed g) (grant g) (ch_commands ch ! g) (ch_group_count ch ! g)
          (cp_active_quotas p ! g) (cp_operations p ! g) (cp_applied_sequences p ! g) (ch_commands (cp_channel p) ! g)"
    "cp_pool_capacity_bytes p = None \<Longrightarrow> g < length (capacity_groups plans) \<Longrightarrow> cp_operations p ! g = None \<and> cp_applied_sequences p ! g = 0 \<and> cp_active_quotas p ! g = None"
    "cp_pool_capacity_bytes p \<noteq> None \<Longrightarrow> g < length (capacity_groups plans) \<Longrightarrow> cp_active_quotas p ! g \<noteq> None"
  using assms by (simp_all add: tracks_def split: if_splits)

lemma tracks_issue: "after_return (tracks plans ch completed grant) (publish_operation g quota)"
proof (rule after_returnI)
  fix p u p' assume p: "tracks plans ch completed grant p" and run: "publish_operation g quota p = (Inr u, p')"
  from run obtain c ch' where c: "c = \<lparr>qc_sequence = cp_applied_sequences p ! g + 1, qc_quota_bytes = quota\<rparr>"
    and pub: "publish_command g c (cp_channel p) = (Inr (), ch')" and idle: "cp_operations p ! g = None" "cp_active_quotas p ! g \<noteq> None"
    and p': "p' = p\<lparr>cp_channel := ch', cp_operations := (cp_operations p)[g := Some c]\<rparr>" by (rule publish_operation_returns)
  note T = tracksD [OF p] and fixed = publish_command_fixed [OF pub]
  have lens: "length (cp_operations p) = length (capacity_groups plans)" "length (ch_commands (cp_channel p)) = length (capacity_groups plans)"
    using T(1,2,3) by (simp_all add: lists_ok_def Let_def channel_fixed_def)
  have g: "g < length (capacity_groups plans)" using fixed(3) lens by simp
  have old: "group_tracked (completed g) (grant g) (ch_commands ch ! g) (ch_group_count ch ! g) (cp_active_quotas p ! g) None
     (cp_applied_sequences p ! g) (ch_commands (cp_channel p) ! g)" using T(4) [OF g] idle by simp
  have width: "length (qc_quota_bytes c) = ch_group_count ch ! g" using fixed(4) T(2) by (simp add: channel_fixed_def)
  have seq: "qc_sequence c = cp_applied_sequences p ! g + 1" by (simp add: c)
  have new: "group_tracked (completed g) (grant g) (ch_commands ch ! g) (ch_group_count ch ! g) (cp_active_quotas p ! g) (Some c)
     (cp_applied_sequences p ! g) (Some c)"
    using old width idle(2) seq by (auto simp: group_tracked_def latest_def split: if_splits)
  have "channel_fixed ch ch'" using T(2) fixed(1) by (simp add: channel_fixed_def)
  moreover have "group_tracked (completed k) (grant k) (ch_commands ch ! k) (ch_group_count ch ! k) (cp_active_quotas p' ! k) (cp_operations p' ! k)
       (cp_applied_sequences p' ! k) (ch_commands (cp_channel p') ! k)" if "k < length (capacity_groups plans)" for k
    using T(4) [OF that] new g lens fixed(2) by (cases "k = g") (simp_all add: p')
  moreover have "if cp_pool_capacity_bytes p' = None then \<forall>k<length (capacity_groups plans). cp_operations p' ! k = None \<and> cp_applied_sequences p' ! k = 0 \<and> cp_active_quotas p' ! k = None
        else \<forall>k<length (capacity_groups plans). cp_active_quotas p' ! k \<noteq> None"
  proof (cases "cp_pool_capacity_bytes p")
    case None
    then show ?thesis using T(5) [OF None g] idle(2) by simp
  next
    case (Some budgets)
    then show ?thesis using T(6) by (simp add: p')
  qed
  ultimately show "tracks plans ch completed grant p'" using T(1,3) unfolding tracks_def by (simp add: p' lists_ok_def Let_def)
qed

text \<open>A group whose replies all carry a sequence has completed it: replies are read from the channel, possibly an earlier value.\<close>

definition replies_adopted ::
    "xpool_config \<Rightarrow> fabric_instance_plan list \<Rightarrow> quota_completion option list \<Rightarrow> (nat \<Rightarrow> int) \<Rightarrow> bool" where
  "replies_adopted config plans completions completed \<longleftrightarrow> (\<forall>(g, i, dp)\<in>set (capacity_groups plans). \<forall>sequence replies.
     group_replies config plans completions i dp sequence = Inr (Some replies) \<longrightarrow> sequence \<le> completed g)"

lemma tracks_retire:
  assumes "replies_adopted config plans completions completed" and mem: "grp \<in> set (capacity_groups plans)"
  shows "after_return (tracks plans ch completed grant) (retire_group config book plans completions grp)"
proof (rule after_returnI)
  fix p b p' assume p: "tracks plans ch completed grant p" and run: "retire_group config book plans completions grp p = (Inr b, p')"
  obtain g i dp where grp: "grp = (g, i, dp)" by (cases grp)
  note m = mem [unfolded grp] and T = tracksD [OF p]
  have g: "g < length (capacity_groups plans)" by (rule capacity_group_mem(1) [OF m])
  have len: "g < length (cp_active_quotas p)" "g < length (cp_operations p)" "g < length (cp_applied_sequences p)"
    using T(1) g by (simp_all add: lists_ok_def Let_def)
  from run [unfolded grp] show "tracks plans ch completed grant p'"
  proof (cases rule: retire_group_cases)
    case unchanged
    then show ?thesis using p by simp
  next
    case (retired c replies p1)
    have done_c: "qc_sequence c \<le> completed g"
      using assms(1) m retired(2) unfolding replies_adopted_def by blast
    have old: "group_tracked (completed g) (grant g) (ch_commands ch ! g) (ch_group_count ch ! g) (cp_active_quotas p ! g) (Some c)
       (cp_applied_sequences p ! g) (ch_commands (cp_channel p) ! g)" using T(4) [OF g] retired(1) by simp
    then have new: "group_tracked (completed g) (grant g) (ch_commands ch ! g) (ch_group_count ch ! g) (Some (qc_quota_bytes c)) None
       (qc_sequence c) (ch_commands (cp_channel p) ! g)"
      using done_c by (auto simp: group_tracked_def latest_def)
    have pool: "cp_pool_capacity_bytes p \<noteq> None" using T(5) [OF _ g] retired(1) by auto
    have p1: "tracks plans ch completed grant p1"
    proof -
      have "group_tracked (completed k) (grant k) (ch_commands ch ! k) (ch_group_count ch ! k) (cp_active_quotas p1 ! k) (cp_operations p1 ! k)
         (cp_applied_sequences p1 ! k) (ch_commands (cp_channel p1) ! k)" if "k < length (capacity_groups plans)" for k
        using T(4) [OF that] new len by (cases "k = g") (simp_all add: retired(3) with_retired_def)
      moreover have "cp_active_quotas p1 ! k \<noteq> None" if "k < length (capacity_groups plans)" for k
        using T(6) [OF pool that] len(1) by (cases "k = g") (simp_all add: retired(3) with_retired_def)
      moreover have "lists_ok plans p1" using T(1) by (simp add: retired(3) with_retired_def lists_ok_def Let_def)
      moreover have "cp_channel p1 = cp_channel p" "cp_pool_capacity_bytes p1 = cp_pool_capacity_bytes p" by (simp_all add: retired(3) with_retired_def)
      ultimately show ?thesis using T(2,3) pool unfolding tracks_def by auto
    qed
    show ?thesis using retired(4)
    proof
      assume "p' = p1"
      then show ?thesis using p1 by simp
    next
      assume "\<exists>orders k. set_item (cp_completed_grant_orders p1) g (Some (cp_next_grant_order p1)) = Inr orders
             \<and> p' = p1\<lparr>cp_completed_grant_orders := orders, cp_next_grant_order := k\<rparr>"
      then obtain orders k where "set_item (cp_completed_grant_orders p1) g (Some (cp_next_grant_order p1)) = Inr orders"
        and p': "p' = p1\<lparr>cp_completed_grant_orders := orders, cp_next_grant_order := k\<rparr>" by blast
      then have "length orders = length (cp_completed_grant_orders p1)" by (auto simp: set_item_def split: if_splits)
      note this p'
      then show ?thesis using p1 by (simp add: tracks_def lists_ok_def Let_def)
    qed
  qed
qed

lemma tracks_freeze:
  assumes p: "tracks plans ch completed grant p" and "cp_pool_capacity_bytes p = None"
    and "freeze_pools config book plans backing reports p = (Inr (), p')" and "lists_ok plans p'"
  shows "tracks plans ch completed grant p'"
proof -
  note T = tracksD [OF p]
  obtain budgets where eff: "frozen_effect (p\<lparr>cp_pool_capacity_bytes := Some budgets\<rparr>) p'"
    and active: "\<forall>g<length (capacity_groups plans). cp_active_quotas p' ! g \<noteq> None" using freeze_pools_effect [OF assms(3)] by blast
  have same: "cp_operations p' = cp_operations p" "cp_applied_sequences p' = cp_applied_sequences p"
    "ch_commands (cp_channel p') = ch_commands (cp_channel p)" using eff by (simp_all add: frozen_effect_def)
  have "group_tracked (completed g) (grant g) (ch_commands ch ! g) (ch_group_count ch ! g) (cp_active_quotas p' ! g) (cp_operations p' ! g)
         (cp_applied_sequences p' ! g) (ch_commands (cp_channel p') ! g)" if "g < length (capacity_groups plans)" for g
    using T(4) [OF that] T(5) [OF assms(2) that] unfolding same by (auto simp: group_tracked_def)
  moreover have "channel_fixed ch (cp_channel p')" using T(2) eff by (simp add: frozen_effect_def channel_fixed_def)
  ultimately show ?thesis using T(3) active eff assms(4) unfolding tracks_def by (simp add: frozen_effect_def)
qed

lemma freeze_lists:
  assumes "freeze_pools config book plans backing reports p = (r, p')" and "lists_ok plans p"
  shows "lists_ok plans p'"
proof -
  have "keeps (lists_ok plans) (freeze_group book plans grp)" for grp
  proof (rule keepsI)
    fix p assume "lists_ok plans p"
    then show "lists_ok plans (snd (freeze_group book plans grp p))"
      by (cases grp) (auto simp: freeze_group_def raise_def Let_def rbind_Inr_iff set_item_def Capacity_Policy.on_channel_def lists_ok_def
          split: sum.splits if_splits prod.splits)
  qed
  then have "keeps (lists_ok plans) (for_each (freeze_group book plans) (capacity_groups plans))" by (intro hoare_for_each)
  note loop = keeps_snd [OF this]
  have "p' = p \<or> (\<exists>b. p' = snd (for_each (freeze_group book plans) (capacity_groups plans) (p\<lparr>cp_pool_capacity_bytes := b\<rparr>)))"
    using assms(1) by (auto simp: freeze_pools_def raise_def split: sum.splits) (metis snd_conv)+
  moreover have "lists_ok plans (p\<lparr>cp_pool_capacity_bytes := b\<rparr>)" for b using assms(2) by (simp add: lists_ok_def)
  ultimately show ?thesis using loop assms(2) by blast
qed

interpretation tracking: policy_invariant "\<lambda>p. replies_adopted config plans completions completed \<and> tracks plans ch completed grant p"
  config book plans completions for config book plans completions completed ch grant
proof
  fix g quota
  show "after_return (\<lambda>p. replies_adopted config plans completions completed \<and> tracks plans ch completed grant p) (publish_operation g quota)"
    using hoare_returns [OF tracks_issue [of plans ch completed grant]] by (intro after_returnI) blast
next
  fix grp assume "grp \<in> set (capacity_groups plans)"
  then show "after_return (\<lambda>p. replies_adopted config plans completions completed \<and> tracks plans ch completed grant p)
      (retire_group config book plans completions grp)"
    using hoare_returns [OF tracks_retire [of config plans completions completed grp ch grant book]] by (intro after_returnI) blast
next
  fix p backing reports p'
  assume "replies_adopted config plans completions completed \<and> tracks plans ch completed grant p" and "cp_pool_capacity_bytes p = None"
    and "freeze_pools config book plans backing reports p = (Inr (), p')"
  moreover from this have "lists_ok plans p'" by (intro freeze_lists [OF _ tracksD(1)]) auto
  ultimately show "replies_adopted config plans completions completed \<and> tracks plans ch completed grant p'"
    by (auto intro: tracks_freeze)
next
  fix p and ds :: "quota_demand option list" assume "replies_adopted config plans completions completed \<and> tracks plans ch completed grant p" "length ds = length (cp_demands p)"
  then show "replies_adopted config plans completions completed \<and> tracks plans ch completed grant (p\<lparr>cp_demands := ds\<rparr>)"
    by (simp add: tracks_def lists_ok_def Let_def)
next
  fix p a assume "replies_adopted config plans completions completed \<and> tracks plans ch completed grant p"
  then show "replies_adopted config plans completions completed \<and> tracks plans ch completed grant (p\<lparr>cp_funding_attempt := a\<rparr>)"
    by (simp add: tracks_def lists_ok_def Let_def)
qed

lemmas policy_step_tracks = tracking.policy_step_keeps_invariant


subsection \<open>The group directory\<close>

text \<open>Partitions are laid out Instance by Instance and group by group, as the policy computes their indices.\<close>

definition group_widths :: "fabric_instance_plan list \<Rightarrow> nat list" where
  "group_widths plans = map (\<lambda>(g, i, dp). tp_width plans i) (capacity_groups plans)"

definition pairs_upto :: "fabric_instance_plan list \<Rightarrow> nat \<Rightarrow> (nat \<times> nat) list" where
  "pairs_upto plans n = concat (map (\<lambda>i. map (\<lambda>dp. (i, dp)) [0..<dp_width plans i]) [0..<n])"

lemma pairs_upto_Suc: "pairs_upto plans (Suc n) = pairs_upto plans n @ map (\<lambda>dp. (n, dp)) [0..<dp_width plans n]"
  by (simp add: pairs_upto_def)

lemma pairs_width:
  assumes "\<forall>i<n. tp_width plans i * dp_width plans i = world"
  shows "(\<Sum>(i, dp)\<leftarrow>pairs_upto plans n. tp_width plans i) = n * world"
  using assms
proof (induction n)
  case 0
  then show ?case by (simp add: pairs_upto_def)
next
  case (Suc n)
  have "(\<Sum>dp\<leftarrow>[0..<dp_width plans n]. tp_width plans n) = world" using Suc.prems by (simp add: sum_list_triv mult.commute)
  then show ?case using Suc by (simp add: pairs_upto_Suc comp_def)
qed

lemma pairs_before:
  assumes "\<forall>i<n. tp_width plans i * dp_width plans i = world" and "g < length (pairs_upto plans n)" and "pairs_upto plans n ! g = (i, dp)"
  shows "(\<Sum>(i, dp)\<leftarrow>take g (pairs_upto plans n). tp_width plans i) = i * world + dp * tp_width plans i"
  using assms
proof (induction n)
  case 0
  then show ?case by (simp add: pairs_upto_def)
next
  case (Suc n)
  show ?case
  proof (cases "g < length (pairs_upto plans n)")
    case True
    then show ?thesis using Suc by (simp add: pairs_upto_Suc nth_append)
  next
    case False
    let ?k = "g - length (pairs_upto plans n)"
    have k: "?k < dp_width plans n" "i = n" "dp = ?k" using Suc.prems(2,3) False by (auto simp: pairs_upto_Suc nth_append)
    have "(\<Sum>(i, dp)\<leftarrow>take ?k (map (\<lambda>dp. (n, dp)) [0..<dp_width plans n]). tp_width plans i) = ?k * tp_width plans n"
      using k(1) by (simp add: take_map comp_def sum_list_triv)
    then show ?thesis using False k pairs_width [of n plans world] Suc.prems(1) by (simp add: pairs_upto_Suc)
  qed
qed

lemma group_first:
  assumes "setting prof plans world" and "(g, i, dp) \<in> set (capacity_groups plans)"
  shows "first_partitions 0 (group_widths plans) ! g = i * world + dp * tp_width plans i" "group_widths plans ! g = tp_width plans i"
    "g < length (group_widths plans)"
proof -
  note m = capacity_group_mem [OF assms(2)]
  have pairs: "group_pairs plans = pairs_upto plans (length plans)" by (simp add: group_pairs_def pairs_upto_def)
  have widths: "group_widths plans = map (\<lambda>(i, dp). tp_width plans i) (group_pairs plans)"
    unfolding group_widths_def capacity_groups_enumerate by (rule nth_equalityI) (auto simp: nth_enumerate_eq case_prod_unfold)
  have g: "g < length (group_pairs plans)" "group_pairs plans ! g = (i, dp)" using m(1,2) by (simp_all add: capacity_groups_enumerate nth_enumerate_eq)
  have all: "\<forall>i<length plans. tp_width plans i * dp_width plans i = world" using assms(1) by (simp add: setting_def)
  show "g < length (group_widths plans)" "group_widths plans ! g = tp_width plans i" using g by (simp_all add: widths)
  then show "first_partitions 0 (group_widths plans) ! g = i * world + dp * tp_width plans i"
    using pairs_before [OF all] g by (simp add: first_partitions_nth widths pairs take_map)
qed

lemma ranges_disjoint:
  assumes "g < length counts" and "k < length counts" and "g \<noteq> k" and "a < counts ! g" and "b < counts ! k"
  shows "first_partitions 0 counts ! g + a \<noteq> first_partitions 0 counts ! k + (b :: nat)"
proof -
  have before: "first_partitions 0 counts ! x + counts ! x \<le> first_partitions 0 counts ! y" if "x < y" "y < length counts" for x y
  proof -
    have "sum_list (take (Suc x) counts) \<le> sum_list (take y counts)"
      using that by (metis Suc_leI le_add1 le_iff_add sum_list_append take_add)
    then show ?thesis using that by (simp add: first_partitions_nth take_Suc_conv_app_nth)
  qed
  show ?thesis using before [of g k] before [of k g] assms by (cases "g < k") auto
qed

end
