(* ===== verification/Elastic_System.thy ===== *)
theory Elastic_System
  imports Grant_Tracking
begin

section \<open>The daemon and all groups\<close>

text \<open>
  The capacity policy of the daemon, its channel and the tensor-parallel groups of all Instances as one system. The daemon
  steps its policy and the groups serve, in any order; they meet only in the channel. The invariant of the policy, the
  grants of every group and the tracking relation hold together in every reachable state.
\<close>

subsection \<open>Steps\<close>

record 'e elastic_system =
  sys_policy :: capacity_policy
  sys_ranks :: "'e reconciler list list"

definition group_of :: "'e elastic_system \<Rightarrow> nat \<Rightarrow> 'e tp_group" where
  "group_of sys g = \<lparr>tg_index = g, tg_channel = cp_channel (sys_policy sys), tg_ranks = sys_ranks sys ! g\<rparr>"

definition with_group :: "nat \<Rightarrow> 'e tp_group \<Rightarrow> 'e elastic_system \<Rightarrow> 'e elastic_system" where
  "with_group g grp sys = sys\<lparr>sys_policy := (sys_policy sys)\<lparr>cp_channel := tg_channel grp\<rparr>, sys_ranks := (sys_ranks sys)[g := tg_ranks grp]\<rparr>"

text \<open>
  The daemon copies the replies out of the channel before it decides; by then the ranks may have gone on, and a read that met a
  publication in progress is empty.
\<close>

definition earlier_reply :: "quota_completion option \<Rightarrow> quota_completion option \<Rightarrow> bool" where
  "earlier_reply seen now \<longleftrightarrow> (\<forall>c. seen = Some c \<longrightarrow> (\<exists>d. now = Some d \<and> qn_sequence c \<le> qn_sequence d))"

definition read_earlier :: "quota_completion option list \<Rightarrow> ecs_channel \<Rightarrow> bool" where
  "read_earlier seen ch \<longleftrightarrow> length seen = length (ch_completions ch)
     \<and> (\<forall>k<length seen. earlier_reply (seen ! k) (ch_completions ch ! k))"

inductive system_step ::
    "'q engine_allocator \<Rightarrow> xpool_config \<Rightarrow> profile_map \<Rightarrow> fabric_instance_plan list \<Rightarrow> nat \<Rightarrow> 'e elastic_system \<Rightarrow> 'e elastic_system \<Rightarrow> bool"
  for eng config prof plans world where
  Daemon: "policy_step config book plans reads (sys_policy sys) = (Inr (), p) \<Longrightarrow> book_agrees prof plans book \<Longrightarrow>
    length (rd_reports reads) = world \<Longrightarrow> read_earlier (rd_completions reads) (cp_channel (sys_policy sys)) \<Longrightarrow>
    system_step eng config prof plans world sys (sys\<lparr>sys_policy := p\<rparr>)"
| Group: "g < length (sys_ranks sys) \<Longrightarrow> serve_step eng (group_of sys g) grp \<Longrightarrow>
    system_step eng config prof plans world sys (with_group g grp sys)"
| Observe: "system_step eng config prof plans world sys (sys\<lparr>sys_policy := (sys_policy sys)\<lparr>cp_channel :=
      (cp_channel (sys_policy sys))\<lparr>ch_initial_backing := backing, ch_device_memory := reports\<rparr>\<rparr>\<rparr>)"

text \<open>
  At the start the daemon has created its policy and the ranks of every group have constructed their pools at their floors.
\<close>

definition start_system :: "'q engine_allocator \<Rightarrow> capacity_policy \<Rightarrow> elastic_state list list \<Rightarrow> 'e elastic_system" where
  "start_system eng p states = \<lparr>sys_policy = p, sys_ranks = map (map (attach eng)) states\<rparr>"

definition directory_matches :: "xpool_config \<Rightarrow> fabric_instance_plan list \<Rightarrow> nat \<Rightarrow> bool" where
  "directory_matches config plans world \<longleftrightarrow> nat (atn_world_size config) = world \<and> group_partition_counts config = Inr (group_widths plans)"

definition ranks_ready :: "'q engine_allocator \<Rightarrow> profile_map \<Rightarrow> fabric_instance_plan list \<Rightarrow> elastic_state list list \<Rightarrow> bool" where
  "ranks_ready eng prof plans states \<longleftrightarrow> length states = length (capacity_groups plans)
     \<and> (\<forall>(g, i, dp)\<in>set (capacity_groups plans). length (states ! g) = tp_width plans i
          \<and> (\<forall>j<tp_width plans i. rank_started eng (states ! g ! j)
               \<and> limit_bytes (es_quota (states ! g ! j)) = floor_at prof plans i (dp * tp_width plans i + j)))"

subsection \<open>The invariant\<close>

abbreviation completed_by :: "'e elastic_system \<Rightarrow> nat \<Rightarrow> int" where
  "completed_by sys g \<equiv> rc_completed (hd (sys_ranks sys ! g))"

abbreviation grant_of :: "'e elastic_system \<Rightarrow> nat \<Rightarrow> int list" where
  "grant_of sys g \<equiv> rc_active (hd (sys_ranks sys ! g))"

abbreviation limit_of :: "'e elastic_system \<Rightarrow> nat \<Rightarrow> nat \<Rightarrow> int" where
  "limit_of sys g j \<equiv> limit_bytes (es_quota (rc_state (sys_ranks sys ! g ! j)))"

definition laid_out :: "fabric_instance_plan list \<Rightarrow> ecs_channel \<Rightarrow> bool" where
  "laid_out plans ch \<longleftrightarrow> ch_group_count ch = group_widths plans \<and> ch_group_first ch = first_partitions 0 (group_widths plans)"

definition member_ok :: "profile_map \<Rightarrow> fabric_instance_plan list \<Rightarrow> 'e elastic_system \<Rightarrow> nat \<times> nat \<times> nat \<Rightarrow> bool" where
  "member_ok prof plans sys grp \<longleftrightarrow> (case grp of (g, i, dp) \<Rightarrow> group_ok (group_of sys g) \<and> length (sys_ranks sys ! g) = tp_width plans i
     \<and> (completed_by sys g = 0 \<longrightarrow> (\<forall>j<tp_width plans i. limit_of sys g j = floor_at prof plans i (dp * tp_width plans i + j))))"

definition system_ok :: "profile_map \<Rightarrow> fabric_instance_plan list \<Rightarrow> nat \<Rightarrow> 'e elastic_system \<Rightarrow> bool" where
  "system_ok prof plans world sys \<longleftrightarrow> capacity_inv prof plans world (sys_policy sys) \<and> laid_out plans (cp_channel (sys_policy sys))
     \<and> length (sys_ranks sys) = length (capacity_groups plans)
     \<and> tracks plans (cp_channel (sys_policy sys)) (completed_by sys) (grant_of sys) (sys_policy sys)
     \<and> (\<forall>grp\<in>set (capacity_groups plans). member_ok prof plans sys grp)"

lemma system_okD:
  assumes "system_ok prof plans world sys"
  shows "capacity_inv prof plans world (sys_policy sys)" "laid_out plans (cp_channel (sys_policy sys))"
    "length (sys_ranks sys) = length (capacity_groups plans)"
    "tracks plans (cp_channel (sys_policy sys)) (completed_by sys) (grant_of sys) (sys_policy sys)"
    "grp \<in> set (capacity_groups plans) \<Longrightarrow> member_ok prof plans sys grp"
  using assms by (simp_all add: system_ok_def)

lemma tracks_now: "tracks plans ch completed grant p \<Longrightarrow> tracks plans (cp_channel p) completed grant p"
  by (simp add: tracks_def group_tracked_def channel_fixed_def)

text \<open>What the invariant of the policy says about a command on its way.\<close>

lemma pending_command_ok:
  assumes "setting prof plans world" and inv: "capacity_inv prof plans world p" and m: "(g, i, dp) \<in> set (capacity_groups plans)"
    and op: "cp_operations p ! g = Some c" and "0 \<le> cp_applied_sequences p ! g"
  shows "command_ok (tp_width plans i) c"
proof -
  have g: "g < length (capacity_groups plans)" by (rule capacity_group_mem(1) [OF m])
  obtain budgets where "frozen_ok prof plans world budgets p"
    using inv op g by (auto simp: capacity_inv_def group_view_def split: option.splits)
  from frozen_view [OF this m] op have v: "qc_sequence c = cp_applied_sequences p ! g + 1" "vector_ok prof plans budgets i dp (qc_quota_bytes c)"
    by (auto simp: view_ok_def group_view_def split: option.splits)
  have i: "i < length plans" "dp < dp_width plans i" using capacity_group_mem(3,4) [OF m] .
  have bound: "0 \<le> qc_quota_bytes c ! j \<and> qc_quota_bytes c ! j \<le> UINT64_MAX" if j: "j < tp_width plans i" for j
  proof -
    let ?d = "dp * tp_width plans i + j"
    have "Suc dp * tp_width plans i \<le> dp_width plans i * tp_width plans i" using i(2) by (intro mult_le_mono1) simp
    then have "?d < dp_width plans i * tp_width plans i" using j by simp
    then have "?d < world" using assms(1) i(1) by (simp add: setting_def mult.commute)
    then have "partition_profile_ok (prof_at prof plans i ?d)" using assms(1) i(1) by (simp add: setting_def)
    then show ?thesis using v(2) j by (auto simp: vector_ok_def partition_profile_ok_def floor_at_def cap_at_def)
  qed
  have "length (qc_quota_bytes c) = tp_width plans i" using v(2) by (simp add: vector_ok_def)
  then show ?thesis using v(1) bound assms(5) by (auto simp: command_ok_def in_set_conv_nth)
qed


subsection \<open>A step of the daemon\<close>

lemma group_of_policy: "group_of (sys\<lparr>sys_policy := p\<rparr>) g = (group_of sys g)\<lparr>tg_channel := cp_channel p\<rparr>"
  by (simp add: group_of_def)

lemma group_of_simps [simp]:
  "tg_index (group_of sys g) = g" "tg_channel (group_of sys g) = cp_channel (sys_policy sys)" "tg_ranks (group_of sys g) = sys_ranks sys ! g"
  by (simp_all add: group_of_def)

lemma replies_are_adopted:
  assumes set: "setting prof plans world" and ok: "system_ok prof plans world sys" and "nat (atn_world_size config) = world"
    and seen: "read_earlier completions (cp_channel (sys_policy sys))"
  shows "replies_adopted config plans completions (completed_by sys)"
  unfolding replies_adopted_def
proof (clarsimp)
  fix g i dp sequence replies
  assume m: "(g, i, dp) \<in> set (capacity_groups plans)" and rep: "group_replies config plans completions i dp sequence = Inr (Some replies)"
  have i: "i < length plans" by (rule capacity_group_mem(3) [OF m])
  then have tp: "0 < tp_width plans i" using set by (simp add: setting_def)
  obtain q where q: "completions ! (i * world + dp * tp_width plans i) = Some q" "qn_sequence q = sequence"
    using group_replies_Some [OF rep i tp] assms(3) by auto
  let ?g = "group_of sys g"
  have part: "rank_partition ?g 0 = i * world + dp * tp_width plans i"
    using system_okD(2) [OF ok] group_first(1) [OF set m] by (simp add: rank_partition_def laid_out_def)
  have mem: "grant_inv ?g" "length (sys_ranks sys ! g) = tp_width plans i" using system_okD(5) [OF ok m] by (auto simp: member_ok_def group_ok_def)
  note inv = grant_inv_fields [OF mem(1)]
  have "rank_partition ?g 0 < length completions" using inv(8) mem(2) tp seen by (simp add: directory_ok_def rank_partition_def read_earlier_def)
  then have "earlier_reply (completions ! rank_partition ?g 0) (replied ?g 0)" using seen unfolding read_earlier_def group_of_simps by blast
  then obtain d where d: "replied ?g 0 = Some d" "sequence \<le> qn_sequence d"
    using q unfolding part earlier_reply_def by blast
  have "adoption_ok ?g 0" "leader ?g = tg_ranks ?g ! 0" using inv(6) [of 0] mem(2) tp leader_nth [OF inv(1)] by simp_all
  then show "sequence \<le> completed_by sys g" using d by (auto simp: adoption_ok_def Let_def split: if_splits)
qed

lemma daemon_group_ok:
  assumes ok: "group_ok grp" and "tg_index grp = g" and fixed: "channel_fixed (tg_channel grp) ch"
    and tracked: "group_tracked (rc_completed (leader grp)) (rc_active (leader grp)) (issued grp) width active operation applied (ch_commands ch ! g)"
    and cmd: "\<And>c. operation = Some c \<Longrightarrow> command_ok (length (tg_ranks grp)) c"
  shows "group_ok (grp\<lparr>tg_channel := ch\<rparr>)"
proof (cases "ch_commands ch ! g = issued grp")
  case True
  then have "same_slots grp (grp\<lparr>tg_channel := ch\<rparr>)" using fixed assms(2) by (auto simp: same_slots_def channel_fixed_def rank_partition_def)
  then show ?thesis by (rule group_ok_slots [OF ok])
next
  case False
  obtain owned where own: "grant_inv grp" "\<forall>j<length (tg_ranks grp). rank_inv (config_of (tg_ranks grp ! j) (owned j))"
    using ok by (auto simp: group_ok_def)
  note inv = grant_inv_fields [OF own(1)]
  obtain c where c: "operation = Some c" "ch_commands ch ! g = Some c" and seq: "latest (ch_commands ch ! g) = rc_completed (leader grp) + 1"
    "rc_completed (leader grp) = latest (issued grp)"
    using tracked False by (auto simp: group_tracked_def split: option.splits)
  have ex: "exchange_ok (ch_commands ch ! g) (rc_command (leader grp)) (rc_completed (leader grp))"
    using inv(5) seq by (auto simp: exchange_ok_def split: if_splits)
  have part: "rank_partition (grp\<lparr>tg_channel := ch\<rparr>) j = rank_partition grp j" for j using fixed assms(2) by (simp add: rank_partition_def channel_fixed_def)
  have "directory_ok (grp\<lparr>tg_channel := ch\<rparr>)" using inv(8) fixed assms(2) by (simp add: directory_ok_def channel_fixed_def)
  moreover have "adoption_ok (grp\<lparr>tg_channel := ch\<rparr>) j" if "j < length (tg_ranks grp)" for j
    using inv(6) [OF that] fixed by (simp add: adoption_ok_def Let_def part channel_fixed_def)
  ultimately have "grant_inv (grp\<lparr>tg_channel := ch\<rparr>)"
    using ex cmd [OF c(1)] c(2) inv(2-4) assms(2) unfolding grant_inv_def by simp
  then show ?thesis using own(2) by (auto simp: group_ok_def)
qed

lemma daemon_step_ok:
  assumes set: "setting prof plans world" and ok: "system_ok prof plans world sys" and "nat (atn_world_size config) = world"
    and run: "policy_step config book plans reads (sys_policy sys) = (Inr (), p)" and book: "book_agrees prof plans book"
    and reports: "length (rd_reports reads) = world" and seen: "read_earlier (rd_completions reads) (cp_channel (sys_policy sys))"
  shows "system_ok prof plans world (sys\<lparr>sys_policy := p\<rparr>)"
proof -
  note S = system_okD [OF ok] and adopted = replies_are_adopted [OF set ok assms(3) seen]
  have inv: "capacity_inv prof plans world p" using keeps_snd [OF policy_step_keeps [OF set book reports] S(1)] run by (metis snd_conv)
  have tr: "tracks plans (cp_channel (sys_policy sys)) (completed_by sys) (grant_of sys) p"
    using hoare_returns [OF policy_step_tracks [OF refl] _ run] adopted S(4) by blast
  note T = tracksD [OF tr]
  have lay: "laid_out plans (cp_channel p)" using S(2) T(2) by (simp add: laid_out_def channel_fixed_def)
  have member: "member_ok prof plans (sys\<lparr>sys_policy := p\<rparr>) grp" if mem: "grp \<in> set (capacity_groups plans)" for grp
  proof -
    obtain g i dp where grp: "grp = (g, i, dp)" by (cases grp)
    note m = mem [unfolded grp]
    have g: "g < length (capacity_groups plans)" by (rule capacity_group_mem(1) [OF m])
    have old: "group_ok (group_of sys g)" "length (sys_ranks sys ! g) = tp_width plans i" using S(5) [OF m] by (simp_all add: member_ok_def)
    have "group_ok ((group_of sys g)\<lparr>tg_channel := cp_channel p\<rparr>)"
    proof (rule daemon_group_ok [OF old(1)])
      show "tg_index (group_of sys g) = g" "channel_fixed (tg_channel (group_of sys g)) (cp_channel p)" using T(2) by simp_all
      show "group_tracked (rc_completed (leader (group_of sys g))) (rc_active (leader (group_of sys g))) (issued (group_of sys g))
          (ch_group_count (cp_channel (sys_policy sys)) ! g) (cp_active_quotas p ! g) (cp_operations p ! g) (cp_applied_sequences p ! g) (ch_commands (cp_channel p) ! g)"
        using T(4) [OF g] by simp
      then show "command_ok (length (tg_ranks (group_of sys g))) c" if "cp_operations p ! g = Some c" for c
        using pending_command_ok [OF set inv m that] old(2) by (simp add: group_tracked_def)
    qed
    then show ?thesis using S(5) [OF m] unfolding grp by (simp add: member_ok_def group_of_policy)
  qed
  show ?thesis using inv lay S(3) tracks_now [OF tr] member unfolding system_ok_def by simp
qed


subsection \<open>A step of a group\<close>

lemma with_group_own: "g < length (sys_ranks sys) \<Longrightarrow> tg_index grp = g \<Longrightarrow> group_of (with_group g grp sys) g = grp"
  by (simp add: group_of_def with_group_def)

lemma with_group_other: "k \<noteq> g \<Longrightarrow> group_of (with_group g grp sys) k = (group_of sys k)\<lparr>tg_channel := tg_channel grp\<rparr>"
  by (simp add: group_of_def with_group_def)

lemma moved_tracked:
  assumes "group_tracked completed grant carried width active operation applied carried"
    and "completed' = completed \<and> grant' = grant \<or> (\<exists>c. carried = Some c \<and> completed' = qc_sequence c \<and> grant' = qc_quota_bytes c)"
  shows "group_tracked completed' grant' carried width active operation applied carried"
  using assms by (auto simp: group_tracked_def latest_def split: option.splits if_splits)

lemma other_slots:
  assumes "laid_out plans (cp_channel (sys_policy sys))" and "own_writes (group_of sys g) grp" and "k \<noteq> g"
    and "length (sys_ranks sys ! g) = group_widths plans ! g" and "length (sys_ranks sys ! k) = group_widths plans ! k"
    and "g < length (group_widths plans)" and "k < length (group_widths plans)"
  shows "same_slots (group_of sys k) ((group_of sys k)\<lparr>tg_channel := tg_channel grp\<rparr>)"
proof -
  let ?ch = "cp_channel (sys_policy sys)" and ?first = "first_partitions 0 (group_widths plans)"
  have w: "ch_commands (tg_channel grp) = ch_commands ?ch" "ch_group_first (tg_channel grp) = ch_group_first ?ch"
    "ch_group_count (tg_channel grp) = ch_group_count ?ch" "length (ch_completions (tg_channel grp)) = length (ch_completions ?ch)"
    and rest: "\<And>p. p \<notin> rank_partition (group_of sys g) ` {..<length (sys_ranks sys ! g)} \<Longrightarrow> ch_completions (tg_channel grp) ! p = ch_completions ?ch ! p"
    using assms(2) by (simp_all add: own_writes_def)
  have part: "rank_partition (group_of sys x) j = ?first ! x + j" for x j using assms(1) by (simp add: rank_partition_def laid_out_def)
  have "ch_completions (tg_channel grp) ! (?first ! k + j) = ch_completions ?ch ! (?first ! k + j)" if j: "j < length (sys_ranks sys ! k)" for j
  proof (rule rest)
    show "?first ! k + j \<notin> rank_partition (group_of sys g) ` {..<length (sys_ranks sys ! g)}"
    proof
      assume "?first ! k + j \<in> rank_partition (group_of sys g) ` {..<length (sys_ranks sys ! g)}"
      then obtain a where "?first ! k + j = ?first ! g + a" "a < length (sys_ranks sys ! g)" unfolding part by auto
      then show False using ranges_disjoint [of k "group_widths plans" g j a] assms(3-7) j by simp
    qed
  qed
  then show ?thesis using w assms(1) by (simp add: same_slots_def rank_partition_def laid_out_def)
qed

lemma capacity_inv_channel [simp]: "capacity_inv prof plans world (p\<lparr>cp_channel := ch\<rparr>) = capacity_inv prof plans world p"
  by (simp add: capacity_inv_def group_view_def split: option.splits)

lemma group_step_ok:
  assumes set: "setting prof plans world" and ok: "system_ok prof plans world sys" and eng: "engine_ok eng"
    and g: "g < length (sys_ranks sys)" and step: "serve_step eng (group_of sys g) grp"
  shows "system_ok prof plans world (with_group g grp sys)"
proof -
  note S = system_okD [OF ok]
  let ?sys = "with_group g grp sys" and ?ch = "cp_channel (sys_policy sys)"
  obtain i dp where m: "(g, i, dp) \<in> set (capacity_groups plans)" using group_at g S(3) by metis
  note dir = group_first [OF set m] and me = S(5) [OF m]
  have old: "group_ok (group_of sys g)" "length (sys_ranks sys ! g) = tp_width plans i" using me by (simp_all add: member_ok_def)
  have new: "group_ok grp" "grant_move (group_of sys g) grp" using serve_step_ok [OF eng step old(1)] by simp_all
  then have own: "own_writes (group_of sys g) grp" and idx: "tg_index grp = g" "length (tg_ranks grp) = tp_width plans i"
    using old(2) by (simp_all add: grant_move_def own_writes_def)
  have chan: "ch_commands (tg_channel grp) = ch_commands ?ch" "ch_group_first (tg_channel grp) = ch_group_first ?ch"
    "ch_group_count (tg_channel grp) = ch_group_count ?ch" using own by (simp_all add: own_writes_def)
  have moved: "completed_by ?sys g = completed_by sys g \<and> grant_of ?sys g = grant_of sys g \<and> (\<forall>j<tp_width plans i. limit_of ?sys g j = limit_of sys g j)
     \<or> (\<exists>c. ch_commands ?ch ! g = Some c \<and> completed_by ?sys g = qc_sequence c \<and> grant_of ?sys g = qc_quota_bytes c)"
    using new(2) g old(2) by (auto simp: grant_move_def with_group_def)
  have same: "sys_ranks ?sys ! k = sys_ranks sys ! k" if "k \<noteq> g" for k using that by (simp add: with_group_def)
  have tr: "tracks plans (tg_channel grp) (completed_by ?sys) (grant_of ?sys) (sys_policy ?sys)"
  proof -
    note T = tracksD [OF S(4)]
    have "group_tracked (completed_by ?sys k) (grant_of ?sys k) (ch_commands ?ch ! k) (ch_group_count ?ch ! k)
        (cp_active_quotas (sys_policy sys) ! k) (cp_operations (sys_policy sys) ! k) (cp_applied_sequences (sys_policy sys) ! k) (ch_commands ?ch ! k)"
      if k: "k < length (capacity_groups plans)" for k
      using moved_tracked [OF T(4) [OF k]] moved same [of k] by (cases "k = g") auto
    moreover have "lists_ok plans (sys_policy ?sys)" using T(1) by (simp add: with_group_def)
    ultimately show ?thesis using S(4) chan unfolding tracks_def by (simp add: with_group_def channel_fixed_def)
  qed
  have member: "member_ok prof plans ?sys other" if mem: "other \<in> set (capacity_groups plans)" for other
  proof -
    obtain k a b where other: "other = (k, a, b)" by (cases other)
    note n = mem [unfolded other]
    show ?thesis
    proof (cases "k = g")
      case True
      then have "a = i" "b = dp" using capacity_group_unique [OF m] n by blast+
      moreover have "completed_by ?sys g = 0 \<longrightarrow> (\<forall>j<tp_width plans i. limit_of ?sys g j = floor_at prof plans i (dp * tp_width plans i + j))"
      proof -
        have "qc_sequence c \<noteq> 0" if "ch_commands ?ch ! g = Some c" for c
          using grant_inv_fields(7) [of "group_of sys g" c] old(1) that by (auto simp: group_ok_def command_ok_def)
        then show ?thesis using moved me by (auto simp: member_ok_def)
      qed
      ultimately show ?thesis using True other new(1) idx(2) with_group_own [OF g idx(1)] g by (simp add: member_ok_def) (simp add: with_group_def)
    next
      case False
      note dir' = group_first [OF set n] and you = S(5) [OF n]
      have "length (sys_ranks sys ! k) = tp_width plans a" "group_ok (group_of sys k)" using you by (simp_all add: member_ok_def)
      then have "group_ok ((group_of sys k)\<lparr>tg_channel := tg_channel grp\<rparr>)"
        using other_slots [OF S(2) own False] dir dir' old(2) by (intro group_ok_slots) simp_all
      then show ?thesis using you False other same [OF False] by (simp add: member_ok_def with_group_other)
    qed
  qed
  show ?thesis using S(1-3) tr member chan unfolding system_ok_def by (simp add: with_group_def laid_out_def)
qed


subsection \<open>Every reachable state\<close>

lemma observe_ok:
  assumes "system_ok prof plans world sys"
  shows "system_ok prof plans world (sys\<lparr>sys_policy := (sys_policy sys)\<lparr>cp_channel :=
      (cp_channel (sys_policy sys))\<lparr>ch_initial_backing := backing, ch_device_memory := reports\<rparr>\<rparr>\<rparr>)" (is "system_ok _ _ _ ?sys")
proof -
  note S = system_okD [OF assms]
  have "group_ok (group_of ?sys g)" if "group_ok (group_of sys g)" for g
    unfolding group_of_policy by (rule group_ok_slots [OF that]) (simp add: same_slots_def rank_partition_def)
  then have "member_ok prof plans ?sys grp" if "grp \<in> set (capacity_groups plans)" for grp
    using S(5) [OF that] by (auto simp: member_ok_def)
  moreover have "tracks plans (cp_channel (sys_policy ?sys)) (completed_by ?sys) (grant_of ?sys) (sys_policy ?sys)"
    using S(4) by (simp add: tracks_def channel_fixed_def lists_ok_def)
  ultimately show ?thesis using S(1-3) by (simp add: system_ok_def laid_out_def)
qed

lemma start_system_ok:
  assumes "setting prof plans world" and "plans_match config plans" and "directory_matches config plans world" and "engine_ok eng"
    and "create_policy config generation = Inr p" and "ranks_ready eng prof plans states"
  shows "system_ok prof plans world (start_system eng p states :: 'e elastic_system)"
proof -
  let ?sys = "start_system eng p states :: 'e elastic_system" and ?w = "group_widths plans"
  obtain ch where ch: "create_channel (nat (atn_world_size config)) ?w = Inr ch" and p: "cp_channel p = ch" "cp_pool_capacity_bytes p = None"
    "cp_applied_sequences p = replicate (length (capacity_groups plans)) 0" "cp_operations p = replicate (length (capacity_groups plans)) None"
    "cp_active_quotas p = replicate (length (capacity_groups plans)) None"
    using assms(3,5) group_count_matches [OF assms(2)] by (auto simp: create_policy_def directory_matches_def rbind_Inr_iff Let_def)
  have lay: "laid_out plans ch" "ch_commands ch = replicate (length ?w) None" using ch by (auto simp: create_channel_def laid_out_def split: if_splits)
  have n: "length ?w = length (capacity_groups plans)" by (simp add: group_widths_def)
  have group: "group_of ?sys g = attach_group eng g ch (states ! g)" if "g < length states" for g
    using that p(1) by (simp add: group_of_def attach_group_def start_system_def)
  have member: "member_ok prof plans ?sys grp" and fresh: "completed_by ?sys (fst grp) = 0" if mem: "grp \<in> set (capacity_groups plans)" for grp
  proof -
    obtain g i dp where grp: "grp = (g, i, dp)" by (cases grp)
    note m = mem [unfolded grp] and dir = group_first [OF assms(1) mem [unfolded grp]]
    have r: "length (states ! g) = tp_width plans i" "\<forall>j<tp_width plans i. rank_started eng (states ! g ! j)
        \<and> limit_bytes (es_quota (states ! g ! j)) = floor_at prof plans i (dp * tp_width plans i + j)" and g: "g < length states"
      using assms(6) m capacity_group_mem(1) [OF m] by (auto simp: ranks_ready_def)
    have tp: "0 < tp_width plans i" using assms(1) capacity_group_mem(3) [OF m] by (simp add: setting_def)
    have "\<forall>s\<in>set (states ! g). rank_started eng s" using r by (auto simp: in_set_conv_nth)
    moreover have "length (states ! g) = ?w ! g" using dir(2) r(1) by simp
    ultimately have "group_ok (group_of ?sys g)" unfolding group [OF g] by (intro attach_group_ok [OF assms(4) ch dir(3)])
    then show "member_ok prof plans ?sys grp" using r g by (simp add: grp member_ok_def start_system_def attach_def)
    show "completed_by ?sys (fst grp) = 0" using r(1) g tp by (cases "states ! g") (auto simp: grp start_system_def attach_def)
  qed
  have "tracks plans ch (completed_by ?sys) (grant_of ?sys) p"
  proof -
    have "completed_by ?sys g = 0" if g: "g < length (capacity_groups plans)" for g
      using group_at [OF g] fresh by (metis fst_conv)
    moreover have "lists_ok plans p" using create_policy_inv [OF assms(2,5)] unfolding capacity_inv_def by blast
    ultimately show ?thesis using p lay(2) n by (simp add: tracks_def channel_fixed_def group_tracked_def latest_def)
  qed
  moreover have "length states = length (capacity_groups plans)" using assms(6) by (simp add: ranks_ready_def)
  ultimately show ?thesis using create_policy_inv [OF assms(2,5)] lay(1) member p(1) unfolding system_ok_def by (simp add: start_system_def)
qed

lemma reachable_system_ok:
  assumes "setting prof plans world" and "plans_match config plans" and "directory_matches config plans world" and "engine_ok eng"
    and "create_policy config generation = Inr p" and "ranks_ready eng prof plans states"
    and "(system_step eng config prof plans world)\<^sup>*\<^sup>* (start_system eng p states) sys"
  shows "system_ok prof plans world sys"
  using assms(7)
proof (induction rule: rtranclp_induct)
  case base
  show ?case by (rule start_system_ok [OF assms(1-6)])
next
  case (step sys sys')
  have world: "nat (atn_world_size config) = world" using assms(3) by (simp add: directory_matches_def)
  from step.hyps(2) show ?case
  proof cases
    case (Daemon book reads p)
    then show ?thesis using daemon_step_ok [OF assms(1) step.IH world] by blast
  next
    case (Group g grp)
    then show ?thesis using group_step_ok [OF assms(1) step.IH assms(4)] by blast
  next
    case (Observe backing reports)
    then show ?thesis using observe_ok [OF step.IH] by blast
  qed
qed

subsection \<open>Limits of the ranks\<close>

lemma limits_tracked:
  assumes ok: "system_ok prof plans world sys" and m: "(g, i, dp) \<in> set (capacity_groups plans)" and j: "j < tp_width plans i"
    and a: "cp_active_quotas (sys_policy sys) ! g = Some a"
  shows "limit_of sys g j = a ! j \<or> limit_of sys g j = target_of (cp_operations (sys_policy sys) ! g) a ! j"
    and "cp_operations (sys_policy sys) ! g = None \<Longrightarrow> limit_of sys g j = a ! j"
proof -
  note S = system_okD [OF ok]
  have g: "g < length (capacity_groups plans)" by (rule capacity_group_mem(1) [OF m])
  have mem: "grant_inv (group_of sys g)" "length (sys_ranks sys ! g) = tp_width plans i"
    "completed_by sys g = 0 \<Longrightarrow> limit_of sys g j = floor_at prof plans i (dp * tp_width plans i + j)"
    using S(5) [OF m] j by (auto simp: member_ok_def group_ok_def)
  obtain budgets where frozen: "frozen_ok prof plans world budgets (sys_policy sys)"
    using S(1) a g by (auto simp: capacity_inv_def group_view_def split: option.splits)
  have floor: "a ! j = floor_at prof plans i (dp * tp_width plans i + j)" if "cp_applied_sequences (sys_policy sys) ! g = 0"
    using frozen_view [OF frozen m] a j that by (simp add: view_ok_def group_view_def)
  have adopted: "limit_of sys g j = grant_of sys g ! j" if "completed_by sys g \<noteq> 0"
    using grant_inv_fields(3,4,6) [OF mem(1), of j] that mem(2) j by (auto simp: adoption_ok_def Let_def)
  have T: "group_tracked (completed_by sys g) (grant_of sys g) (ch_commands (cp_channel (sys_policy sys)) ! g) (ch_group_count (cp_channel (sys_policy sys)) ! g)
     (Some a) (cp_operations (sys_policy sys) ! g) (cp_applied_sequences (sys_policy sys) ! g) (ch_commands (cp_channel (sys_policy sys)) ! g)"
    using tracksD(4) [OF S(4) g] a by simp
  show idle: "limit_of sys g j = a ! j" if "cp_operations (sys_policy sys) ! g = None"
    using T that mem(3) floor adopted by (cases "completed_by sys g = 0") (auto simp: group_tracked_def)
  show "limit_of sys g j = a ! j \<or> limit_of sys g j = target_of (cp_operations (sys_policy sys) ! g) a ! j"
  proof (cases "cp_operations (sys_policy sys) ! g")
    case None
    then show ?thesis using idle by simp
  next
    case (Some c)
    then show ?thesis using T mem(3) floor adopted by (cases "completed_by sys g = 0") (auto simp: group_tracked_def target_of_def)
  qed
qed

lemma charged_below_limit:
  assumes "system_ok prof plans world sys" and "(g, i, dp) \<in> set (capacity_groups plans)" and "j < tp_width plans i"
  shows "charged_of (sys_ranks sys ! g ! j) \<le> limit_of sys g j"
proof -
  have "group_ok (group_of sys g)" "j < length (sys_ranks sys ! g)" using system_okD(5) [OF assms(1,2)] assms(3) by (simp_all add: member_ok_def)
  then have "rank_inv (config_of (sys_ranks sys ! g ! j) (held_by (rc_state (sys_ranks sys ! g ! j))))" using group_ok_rank [of "group_of sys g" j] by simp
  then show ?thesis using rank_inv_pending unfolding state_inv_def quota_ok_def by fastforce
qed


lemma limits_held:
  assumes ok: "system_ok prof plans world sys" and pool: "cp_pool_capacity_bytes (sys_policy sys) = Some budgets" and "d < world"
  shows "held_on plans (limit_of sys) d \<le> budgets ! d"
proof -
  note S = system_okD [OF ok]
  have "held_ok plans (sys_policy sys) (limit_of sys)"
    unfolding held_ok_def
  proof (clarify)
    fix g i dp j assume m: "(g, i, dp) \<in> set (capacity_groups plans)" and j: "j < tp_width plans i"
    obtain a where a: "cp_active_quotas (sys_policy sys) ! g = Some a"
      using tracksD(6) [OF S(4) _ capacity_group_mem(1) [OF m]] pool by auto
    then show "case cp_active_quotas (sys_policy sys) ! g of None \<Rightarrow> limit_of sys g j = 0
        | Some a \<Rightarrow> limit_of sys g j = a ! j \<or> limit_of sys g j = target_of (cp_operations (sys_policy sys) ! g) a ! j"
      using limits_tracked(1) [OF ok m j a] by simp
  qed
  from held_below_charge [OF this] show ?thesis
    using capacity_inv_frozen [OF S(1) pool] assms(3) unfolding frozen_inv_def frozen_ok_def by (meson order_trans)
qed

lemma charges_held:
  assumes ok: "system_ok prof plans world sys"
  shows "held_on plans (\<lambda>g j. charged_of (sys_ranks sys ! g ! j)) d \<le> held_on plans (limit_of sys) d"
  unfolding held_on_def
proof (rule sum_list_mono, clarify, rule sum_mono)
  fix g i dp j assume "(g, i, dp) \<in> set (capacity_groups plans)" and "j \<in> {..<tp_width plans i}"
  then show "(if dp * tp_width plans i + j = d then charged_of (sys_ranks sys ! g ! j) else 0) \<le> (if dp * tp_width plans i + j = d then limit_of sys g j else 0)"
    using charged_below_limit [OF ok] by simp
qed

section \<open>A concrete system\<close>

text \<open>The sample deployment with two ranks at a floor of one bundle: the pools are frozen, the initial grant is issued, delivered and adopted.\<close>

definition system_profile :: profile_map where
  "system_profile model_id rank = \<lparr>floor_bytes = 4, reservation_bytes = 12\<rparr>"

definition system_book :: registration_book where
  "system_book = sample_book\<lparr>book_instances :=
     map (\<lambda>rank. (\<lparr>iri_model_id = ''a/b'', iri_rank = rank\<rparr>,
        (sample_instance_registration (nat rank))\<lparr>reg_instance := \<lparr>iri_model_id = ''a/b'', iri_rank = rank\<rparr>,
           reg_context_state_profile := \<lparr>floor_bytes = 4, reservation_bytes = 12\<rparr>\<rparr>)) [0, 1]\<rparr>"

definition system_reads :: channel_reads where
  "system_reads = (sample_reads [None, None])\<lparr>rd_backing := [Some 4, Some 4]\<rparr>"

definition sample_system :: "nat elastic_system" where
  "sample_system = start_system sample_engine sample_policy [[sample_start, sample_start]]"

definition system_issued :: "nat elastic_system" where
  "system_issued = sample_system\<lparr>sys_policy := snd (policy_step sample_config system_book sample_plans system_reads (sys_policy sample_system))\<rparr>"

definition system_delivered :: "nat elastic_system" where
  "system_delivered = with_group 0
     (snd (every_rank (\<lambda>_. accept_command (ch_commands (tg_channel (group_of system_issued 0)) ! 0)) (group_of system_issued 0))) system_issued"

definition system_serving :: "nat elastic_system" where
  "system_serving = with_group 0 (snd (begin_scheduling sample_engine sample_device False None (group_of system_delivered 0))) system_delivered"

lemma system_setting: "setting system_profile sample_plans 2"
  by (auto simp: setting_def sample_plans_def tp_width_def dp_width_def prof_at_def system_profile_def
      partition_profile_ok_def UINT64_MAX_def)

lemma system_directory: "directory_matches sample_config sample_plans 2"
  by code_simp

lemma system_ready: "ranks_ready sample_engine system_profile sample_plans [[sample_start, sample_start]]"
proof -
  have groups: "capacity_groups sample_plans = [(0, 0, 0)]" "tp_width sample_plans 0 = 2" "limit_bytes (es_quota sample_start) = 4" by code_simp+
  have "rank_started sample_engine sample_start" using sample_ranks_started by simp
  then show ?thesis using groups(3) unfolding ranks_ready_def groups(1) prod.case set_simps
    by (simp add: groups(2) less_2_cases_iff floor_at_def prof_at_def system_profile_def nth_Cons')
qed

lemma pair_by_fst: "fst x = a \<Longrightarrow> x = (a, snd x)"
  by (cases x) simp

lemma system_steps: "(system_step sample_engine sample_config system_profile sample_plans 2)\<^sup>*\<^sup>* sample_system system_serving"
proof -
  let ?step = "system_step sample_engine sample_config system_profile sample_plans 2 :: nat elastic_system \<Rightarrow> nat elastic_system \<Rightarrow> bool"
  have book: "book_agrees system_profile sample_plans system_book"
    by (auto simp: book_agrees_def sample_plans_def system_book_def prof_at_def system_profile_def split: if_splits)
  have reads: "length (rd_reports system_reads) = 2" "rd_completions system_reads = [None, None]"
    "length (ch_completions (cp_channel (sys_policy sample_system))) = 2" by code_simp+
  then have seen: "read_earlier (rd_completions system_reads) (cp_channel (sys_policy sample_system))"
    by (simp add: read_earlier_def earlier_reply_def less_2_cases_iff nth_Cons')
  have "fst (policy_step sample_config system_book sample_plans system_reads (sys_policy sample_system)) = Inr ()" by code_simp
  from system_step.Daemon [OF pair_by_fst [OF this] book reads(1) seen] have one: "?step sample_system system_issued"
    unfolding system_issued_def .
  have two: "?step system_issued system_delivered"
    unfolding system_delivered_def
  proof (rule system_step.Group)
    show "0 < length (sys_ranks system_issued)" by code_simp
    have run: "fst (every_rank (\<lambda>_. accept_command (ch_commands (tg_channel (group_of system_issued 0)) ! 0)) (group_of system_issued 0)) = Inr ()" by code_simp
    show "serve_step sample_engine (group_of system_issued 0)
       (snd (every_rank (\<lambda>_. accept_command (ch_commands (tg_channel (group_of system_issued 0)) ! 0)) (group_of system_issued 0)))"
      by (rule serve_step.Deliver [OF _ pair_by_fst [OF run]]) simp
  qed
  have three: "?step system_delivered system_serving"
    unfolding system_serving_def
  proof (rule system_step.Group)
    show "0 < length (sys_ranks system_delivered)" by code_simp
    have run: "fst (begin_scheduling sample_engine sample_device False None (group_of system_delivered 0)) = Inr ()" by code_simp
    show "serve_step sample_engine (group_of system_delivered 0) (snd (begin_scheduling sample_engine sample_device False None (group_of system_delivered 0)))"
      by (rule serve_step.Boundary [OF pair_by_fst [OF run]]) (simp add: boundary_contract_def)
  qed
  show ?thesis using one two three by (meson converse_rtranclp_into_rtranclp rtranclp.rtrancl_refl)
qed

lemmas system_run = system_setting sample_match system_directory sample_engine_ok sample_created system_ready system_steps [unfolded sample_system_def]

end
