(* ===== verification/Spec2Isabelle.thy ===== *)
theory Spec2Isabelle
  imports Ecs_Quota Memory Ffn_Spec Config Fabric Wire Registration Transport Fabric_Controller Readiness Control_Operations Control_Leases Placement_Groups Kv_Runtime Kv_Reference Elastic_System
begin

text \<open>
  \<^bold>\<open>A verification library for CrossPool\<close>

  CrossPool serves several language models on one pool of GPUs. Attention ranks of the \<^emph>\<open>Instances\<close> (patched SGLang
  engines) keep their key/value state on the attention devices, the feed-forward layers of all models are
  served by \<^emph>\<open>FfnAgents\<close> on other devices, \<^emph>\<open>AtnAgents\<close> own the transport arenas between them, and one daemon
  per deployment forms the \<^emph>\<open>Fabric generation\<close> all of them belong to. While a generation lives, the daemon also
  divides the spare memory of each attention device between the Instances: it publishes byte permissions over a
  shared memory channel and every rank maps or retires key/value memory to follow its permission.

  All paths below are relative to \<^verbatim>\<open>src/\<close>; the Python package is \<^verbatim>\<open>src/xpool\<close>.

  \<^bold>\<open>How Python is modelled.\<close> A method is an operation \<^typ>\<open>('s, 'a) op\<close>: it takes the state of the object and
  returns a result or an exception together with the state it leaves, so what was mutated before a \<^verbatim>\<open>raise\<close> is
  kept. Exceptions are values of \<^typ>\<open>exn\<close>. A dataclass is a record, a frozen dataclass with \<^verbatim>\<open>__post_init__\<close> has a
  constructor function that raises as the validator does, a dict is an association list in insertion order.
  Python integers are \<^typ>\<open>int\<close>; where the code bounds them (\<^verbatim>\<open>ensure_uint64\<close>, the 32 bit sequences of the channel) the
  check is written out. The page arithmetic on 64 bit device tensors is over \<^typ>\<open>int\<close> as well: layouts are bounded by the
  address space. Messages of exceptions are kept without their interpolated values. Objects compared by identity carry an identity field. Operations under the domain
  lock of the control plane are atomic sections; everything a section captured before it took the lock may stem from an
  older state. Theory \<^verbatim>\<open>Prelude\<close> holds this vocabulary and a small Hoare logic over it.

  \<^bold>\<open>Configuration and plan vocabulary.\<close>
  \<^item> \<^verbatim>\<open>Ecs_Quota\<close> (\<^verbatim>\<open>xpool/ecs.py\<close>): pool profiles and the byte ledger \<^verbatim>\<open>MemoryQuota\<close> of a rank. The locale \<open>byte_ledger\<close>
    is the contract a backing relies on; the ledger interprets it. A ledger never grants past its limit.
  \<^item> \<^verbatim>\<open>Memory\<close> (\<^verbatim>\<open>xpool/memory.py\<close>): memory contracts, observations and the calibrated overhead, which is monotone.
  \<^item> \<^verbatim>\<open>Ffn_Spec\<close> (\<^verbatim>\<open>xpool/ffn.py\<close>, \<^verbatim>\<open>xpool/quantization/base.py\<close>): layer specifications and the row slices of the fused
    projection, which partition it.
  \<^item> \<^verbatim>\<open>Config\<close> (\<^verbatim>\<open>xpool/config.py\<close>, \<^verbatim>\<open>xpool/model.py\<close>): every section validator of the configuration and what a validated
    configuration guarantees about devices, models and attention Worlds.
  \<^item> \<^verbatim>\<open>Fabric\<close> (\<^verbatim>\<open>xpool/fabric.py\<close>): phases, generation identities, plans. The locale \<open>lifecycle\<close> states what a monotone
    phase type gives and is interpreted for generations and for participants; identities round trip through text.
  \<^item> \<^verbatim>\<open>Wire\<close> (\<^verbatim>\<open>xpool/service/wire.py\<close>, \<^verbatim>\<open>xpool/transport.py\<close>, \<^verbatim>\<open>xpool/runtime/transport.py\<close>): the exchanged records.

  \<^bold>\<open>The daemon.\<close>
  \<^item> \<^verbatim>\<open>Registration\<close> (\<^verbatim>\<open>service/daemon/registration.py\<close>): the three tables with snapshot commits. The locale \<open>owned_table\<close>
    is interpreted for Instance ranks, AtnAgents and FfnAgents: a live owner is never displaced.
  \<^item> \<^verbatim>\<open>Transport\<close> (\<^verbatim>\<open>service/daemon/transport.py\<close>): arena publications and leases.
  \<^item> \<^verbatim>\<open>Fabric_Controller\<close> (\<^verbatim>\<open>service/daemon/fabric.py\<close>): membership capture and the generation. The barrier protocol is the
    abstract specification, every operation refines it; a generation is executable only when each PE reported so,
    the last report opens the barrier, a rejected report fails the generation.
  \<^item> \<^verbatim>\<open>Ecs_Channel\<close> (\<^verbatim>\<open>src/cext/ecs/channel.cpp\<close>): committed publications of the shared memory channel.
  \<^item> \<^verbatim>\<open>Capacity_Policy\<close> (\<^verbatim>\<open>service/daemon/ecs.py\<close>) with \<^verbatim>\<open>Capacity_Geometry\<close>, \<^verbatim>\<open>Capacity_Invariant\<close>, \<^verbatim>\<open>Capacity_Safety\<close> and
    \<^verbatim>\<open>Capacity_Guarantees\<close>: the permissions of all groups. For arbitrary channel contents, clocks and demands
    the permissions of a device stay within its frozen budget, accounting never fails, quotas
    stay in range and a request becomes effective only after every reply.
  \<^item> \<^verbatim>\<open>Placement\<close>, \<^verbatim>\<open>Matching\<close>, \<^verbatim>\<open>Placement_Groups\<close> (\<^verbatim>\<open>service/daemon/ffn_placement.py\<close>): the projection of solver counts to
    groups of distinct FfnAgents. Matching proves the decomposition of regular matrices the code relies on.
  \<^item> \<^verbatim>\<open>Control_State\<close> and \<^verbatim>\<open>Control_Plane\<close> (\<^verbatim>\<open>service/daemon/control.py\<close>) with \<^verbatim>\<open>Control_Invariant\<close>, \<^verbatim>\<open>Control_Sections\<close>,
    \<^verbatim>\<open>Control_Traces\<close>, \<^verbatim>\<open>Control_Guarantees\<close>, \<^verbatim>\<open>Control_Operations\<close> and \<^verbatim>\<open>Control_Leases\<close>: handlers and background loops as sequences of
    lock-protected sections, their invariant over every interleaving, the lifetime of generations, shutdown,
    leases and their draining after quiescence, the watchdog and the cleanup loop.
  \<^item> \<^verbatim>\<open>Readiness\<close> (\<^verbatim>\<open>service/daemon/readiness.py\<close>): the readiness projection over the control plane.

  \<^bold>\<open>The elastic memory of an Instance rank\<close> (\<^verbatim>\<open>xpool/integrations/sglang/ecs\<close>).
  \<^item> \<^verbatim>\<open>Kv_Vmm\<close> and \<^verbatim>\<open>Kv_Pages\<close> (\<^verbatim>\<open>vmm.py\<close>, \<^verbatim>\<open>utils/cuda.py\<close>): bundles of physical memory under the ledger, with every
    driver failure, and the interval arithmetic between pages and bundles. The charge is the physical inventory.
  \<^item> \<^verbatim>\<open>Kv_Allocator\<close>, \<^verbatim>\<open>Kv_Partition\<close> (\<^verbatim>\<open>allocator.py\<close>): resident, unavailable and retiring pages of one component.
  \<^item> \<^verbatim>\<open>Kv_State\<close>, \<^verbatim>\<open>Kv_Safety\<close>, \<^verbatim>\<open>Kv_Runtime\<close>, \<^verbatim>\<open>Kv_Reference\<close> (\<^verbatim>\<open>state.py\<close>, \<^verbatim>\<open>hooks/ecs.py\<close>): prices, preparation, reclamation and
    retirement over all components of a rank; its step relation and invariant: a page in use is always mapped,
    a priced allocation is delivered. The engine reference: its minimum is found, its search is exhaustive, and what the
    ranks agree on fits each of them.
  \<^item> \<^verbatim>\<open>Kv_Reconciler\<close> (\<^verbatim>\<open>capacity.py\<close>): the collective decisions of a tensor-parallel group under the daemon's commands, as
    operations of the whole group. \<^verbatim>\<open>Kv_Group\<close> shows that each of them is, on every rank, a sequence of the rank's own
    steps; \<^verbatim>\<open>Kv_Grants\<close> relates the channel, the command the ranks hold, the grant they adopted and their replies;
    \<^verbatim>\<open>Kv_Serving\<close> has the steps of a group beside the daemon: grants bind every rank, a fitting grant is adopted,
    commands are always acceptable and Prefill outcomes are common.

  \<^bold>\<open>The system.\<close> The daemon's policy and all groups share one channel.
  \<^item> \<^verbatim>\<open>Capacity_Channel\<close>: the locale \<open>policy_invariant\<close> states what a relation owes to the ways a policy step changes its
    state (issue, retirement, freezing, demands, funding attempt) and gives it for the whole step.
  \<^item> \<^verbatim>\<open>Grant_Tracking\<close> interprets it for the relation between the policy's bookkeeping, the commands in the channel and
    what the ranks adopted.
  \<^item> \<^verbatim>\<open>Elastic_System\<close> interleaves policy steps, group steps and device observations. A policy step may read replies that are
    older than the channel or absent; only steps that return are taken, since a daemon whose step raised aborts the generation.
    The start is a created policy and ranks whose pools were constructed at their registered floors.
  \<^item> The two theorems below close the loop: the bytes charged by all ranks of a device stay within the budget the daemon
    froze for it, and the daemon's picture of each group is true.

  \<^bold>\<open>Parameters.\<close> Code outside the repository enters as arguments: process liveness, clocks and random words, the MPS
  control process, max-flow and CP-SAT of OR-Tools, the answers of the CUDA driver and its events, and of
  SGLang the inherited allocator (\<open>engine_allocator\<close> with the documented behaviour \<open>engine_ok\<close>), the radix cache,
  the sizing policy and the batch arithmetic. Properties that need such behaviour name it as a hypothesis, and their
  witnesses instantiate it.

  \<^bold>\<open>Bounds.\<close> Loops are structural or have a termination proof. The loop for the minimum of a hybrid rank is a partial
  function, and a property shows when it returns. Two loops depend on what a run supplies: drawing a
  generation identity rejects words until one is accepted (\<^const>\<open>OutOfDraws\<close> marks a finite list of words without an accepted
  one), and the cleanup loop of shutdown consumes one clock reading per round.

  \<^bold>\<open>Not modelled.\<close> The HTTP server and client and the MPS supervisor are I/O around the control plane. The Agents'
  CUDA, NVSHMEM and process bootstrap code, the native kernels and the model loaders execute on devices and
  in libraries that are not part of the sources. Of the placement solver the model covers the projection of the solved counts
  and its audit; the plan records built between them are left out. The remaining SGLang hooks rewire a third-party engine whose methods they
  call. The developer tooling under \<^verbatim>\<open>src/xpool-dev\<close> drives benchmarks and tests.
\<close>

section \<open>The system as a whole\<close>

text \<open>
  C1: No device ever holds more context state than its budget. From the creation of the policy and the construction of all pools,
  in every state the daemon and the groups reach together, whichever commands are on their way or already adopted,
  the bytes charged by all ranks on a device sum to at most the budget the daemon froze for it.
\<close>

theorem devices_stay_within_budget:
  assumes "setting prof plans world" and "plans_match config plans" and "directory_matches config plans world" and "engine_ok eng"
    and "create_policy config generation = Inr p" and "ranks_ready eng prof plans states"
    and "(system_step eng config prof plans world)\<^sup>*\<^sup>* (start_system eng p states) sys"
    and "cp_pool_capacity_bytes (sys_policy sys) = Some budgets" and "d < world"
  shows "held_on plans (\<lambda>g j. charged_bytes (es_quota (rc_state (sys_ranks sys ! g ! j)))) d \<le> budgets ! d"
proof -
  have ok: "system_ok prof plans world sys" by (rule reachable_system_ok [OF assms(1-7)])
  show ?thesis using charges_held [OF ok] limits_held [OF ok assms(8,9)] by (rule order_trans)
qed

text \<open>
  C2: The daemon's picture of a group is true. In every reachable state, while no request is pending every rank of a group works under
  exactly the permission the daemon considers active; while one is pending every rank works under the active
  permission or under the requested one; and all ranks of the group have completed the same sequence, the
  applied one or the pending one.
\<close>

theorem bookkeeping_matches_ranks:
  assumes "setting prof plans world" and "plans_match config plans" and "directory_matches config plans world" and "engine_ok eng"
    and "create_policy config generation = Inr p" and "ranks_ready eng prof plans states"
    and "(system_step eng config prof plans world)\<^sup>*\<^sup>* (start_system eng p states) sys"
    and "(g, i, dp) \<in> set (capacity_groups plans)" and "j < tp_width plans i" and "cp_active_quotas (sys_policy sys) ! g = Some a"
  shows "let rc = sys_ranks sys ! g ! j; limit = limit_bytes (es_quota (rc_state rc)); applied = cp_applied_sequences (sys_policy sys) ! g
     in case cp_operations (sys_policy sys) ! g of
          None \<Rightarrow> limit = a ! j \<and> rc_completed rc = applied
        | Some c \<Rightarrow> (limit = a ! j \<or> limit = qc_quota_bytes c ! j) \<and> (rc_completed rc = applied \<or> rc_completed rc = qc_sequence c)"
proof -
  have ok: "system_ok prof plans world sys" by (rule reachable_system_ok [OF assms(1-7)])
  note S = system_okD [OF ok] and lim = limits_tracked [OF ok assms(8-10)]
  have g: "g < length (capacity_groups plans)" by (rule capacity_group_mem(1) [OF assms(8)])
  have mem: "grant_inv (group_of sys g)" "length (sys_ranks sys ! g) = tp_width plans i" using S(5) [OF assms(8)] by (auto simp: member_ok_def group_ok_def)
  have done_j: "rc_completed (sys_ranks sys ! g ! j) = completed_by sys g" using grant_inv_fields(4) [OF mem(1), of j] mem(2) assms(9) by simp
  show ?thesis using tracksD(4) [OF S(4) g] lim unfolding Let_def done_j
    by (cases "cp_operations (sys_policy sys) ! g") (auto simp: group_tracked_def target_of_def)
qed

lemma devices_stay_within_budget_witness:
  "held_on sample_plans (\<lambda>g j. charged_bytes (es_quota (rc_state (sys_ranks system_serving ! g ! j)))) 1 \<le> 34
   \<and> limit_bytes (es_quota (rc_state (sys_ranks system_serving ! 0 ! 1))) = 12"
proof -
  have "cp_pool_capacity_bytes (sys_policy system_serving) = Some [24, 34]" "limit_bytes (es_quota (rc_state (sys_ranks system_serving ! 0 ! 1))) = 12" by code_simp+
  then show ?thesis using devices_stay_within_budget [OF system_run, of "[24, 34]" 1] by simp
qed

lemma bookkeeping_matches_ranks_witness:
  "rc_completed (sys_ranks system_serving ! 0 ! 1) = 0 \<or> rc_completed (sys_ranks system_serving ! 0 ! 1) = 1"
proof -
  have g: "(0, 0, 0) \<in> set (capacity_groups sample_plans)" "1 < tp_width sample_plans 0" and a: "cp_active_quotas (sys_policy system_serving) ! 0 = Some [4, 4]"
    and op: "cp_operations (sys_policy system_serving) ! 0 = Some \<lparr>qc_sequence = 1, qc_quota_bytes = [12, 12]\<rparr>" "cp_applied_sequences (sys_policy system_serving) ! 0 = 0"
    by code_simp+
  from bookkeeping_matches_ranks [OF system_run g a] op show ?thesis by (simp add: Let_def)
qed

end
